(* ===== verification/Prelude.thy ===== *)
theory Prelude
  imports Main "HOL-Library.Word"
begin

text \<open>
  Shared base of the development: the C integer types as words, the errno codes the code
  returns, \<open>memcpy\<close> into a buffer, and the generic list lemmas that the components share.
\<close>

unbundle bit_operations_syntax

type_synonym byte = "8 word"
type_synonym u16 = "16 word"
type_synonym u32 = "32 word"
type_synonym u64 = "64 word"

lemma unat_byte: "unat (b :: byte) < 256"
  using unsigned_less [of b] by simp

section \<open>Error codes\<close>

abbreviation ENOENT :: int where "ENOENT \<equiv> 2"
abbreviation EIO :: int where "EIO \<equiv> 5"
abbreviation ENOMEM :: int where "ENOMEM \<equiv> 12"
abbreviation ENODEV :: int where "ENODEV \<equiv> 19"
abbreviation EINVAL :: int where "EINVAL \<equiv> 22"
abbreviation ERANGE :: int where "ERANGE \<equiv> 34"
abbreviation ETIMEDOUT :: int where "ETIMEDOUT \<equiv> 110"

text \<open>\<open>SERVICE_NAME_LEN\<close> of \<open>include/joker_ts.h\<close>.\<close>

abbreviation SERVICE_NAME_LEN :: nat where "SERVICE_NAME_LEN \<equiv> 128"

section \<open>Lemma collections\<close>

named_theorems frame_simps \<open>fields an operation leaves alone\<close>
named_theorems log_simps \<open>what an operation appends to the command log\<close>

section \<open>Buffers\<close>

text \<open>
  \<open>put_bytes buf off data\<close> is \<open>memcpy(buf + off, data, length data)\<close> on a buffer given by its
  content. A write past the end is not hidden: the result is then longer than the buffer.
\<close>

definition put_bytes :: "'a list \<Rightarrow> nat \<Rightarrow> 'a list \<Rightarrow> 'a list" where
  "put_bytes buf off data = take off buf @ data @ drop (off + length data) buf"

lemma length_put_bytes [simp]:
  "off + length data \<le> length buf \<Longrightarrow> length (put_bytes buf off data) = length buf"
  by (simp add: put_bytes_def)

lemma put_bytes_nil [simp]: "off \<le> length buf \<Longrightarrow> put_bytes buf off [] = buf"
  by (simp add: put_bytes_def)

lemma nth_put_bytes_in:
  "off \<le> i \<Longrightarrow> i < off + length data \<Longrightarrow> off \<le> length buf \<Longrightarrow>
     put_bytes buf off data ! i = data ! (i - off)"
  by (auto simp: put_bytes_def nth_append min_def less_diff_conv2)

lemma nth_put_bytes_before:
  "i < off \<Longrightarrow> off \<le> length buf \<Longrightarrow> put_bytes buf off data ! i = buf ! i"
  by (simp add: put_bytes_def nth_append min_def)

lemma put_bytes_whole: "length data = length buf \<Longrightarrow> put_bytes buf 0 data = data"
  by (simp add: put_bytes_def)

lemma take_put_bytes_0: "n = length data \<Longrightarrow> take n (put_bytes buf 0 data) = data"
  by (simp add: put_bytes_def)

section \<open>Generic list lemmas\<close>

lemma sum_list_map_append: "sum_list (map f (xs @ ys)) = sum_list (map f xs) + sum_list (map f ys)"
  for f :: "'a \<Rightarrow> 'b::monoid_add"
  by simp

lemma upt_snoc: "a \<le> b \<Longrightarrow> [a..<Suc b] = [a..<b] @ [b]"
  by simp

section \<open>Folds that can fault\<close>

text \<open>A loop over a list whose body can run into undefined behaviour, the value \<open>None\<close>.\<close>

fun fold_opt :: "('a \<Rightarrow> 's \<Rightarrow> 's option) \<Rightarrow> 'a list \<Rightarrow> 's \<Rightarrow> 's option" where
  "fold_opt f [] s = Some s"
| "fold_opt f (x # xs) s = (case f x s of None \<Rightarrow> None | Some s \<Rightarrow> fold_opt f xs s)"

lemma fold_opt_append:
  "fold_opt f (xs @ ys) s = (case fold_opt f xs s of None \<Rightarrow> None | Some s \<Rightarrow> fold_opt f ys s)"
  by (induction xs arbitrary: s) (auto split: option.split)

lemma fold_opt_inv:
  assumes "fold_opt f xs s = Some t" and "I s"
    and "\<And>x s t. x \<in> set xs \<Longrightarrow> I s \<Longrightarrow> f x s = Some t \<Longrightarrow> I t"
  shows "I t"
  using assms
proof (induction xs arbitrary: s)
  case (Cons x xs)
  then obtain u where "f x s = Some u" "fold_opt f xs u = Some t" by (auto split: option.splits)
  with Cons show ?case by (meson list.set_intros)
qed simp

lemma fold_opt_total:
  assumes "\<And>x s. x \<in> set xs \<Longrightarrow> f x s = Some (g x s)"
  shows "fold_opt f xs s = Some (fold g xs s)"
  using assms by (induction xs arbitrary: s) auto

lemma fold_opt_ok:
  assumes "I s" and "\<And>x s. x \<in> set xs \<Longrightarrow> I s \<Longrightarrow> \<exists>t. f x s = Some t \<and> I t"
  shows "\<exists>t. fold_opt f xs s = Some t \<and> I t"
  using assms
proof (induction xs arbitrary: s)
  case (Cons x xs)
  from Cons.prems(2) [of x s] Cons.prems(1) obtain t where "f x s = Some t" "I t" by auto
  with Cons.IH [of t] Cons.prems(2) show ?case by auto
qed simp

section \<open>Running a list of commands until the first failure\<close>

text \<open>
  Several operations send a fixed sequence of commands and stop at the first one that
  fails. \<open>send_seq cmd bs s\<close> is that pattern over any command function.
\<close>

fun send_seq :: "('s \<Rightarrow> 'c \<Rightarrow> int \<times> 's) \<Rightarrow> 'c list \<Rightarrow> 's \<Rightarrow> int \<times> 's" where
  "send_seq cmd [] s = (0, s)"
| "send_seq cmd (b # bs) s =
     (let (ret, s1) = cmd s b in if ret \<noteq> 0 then (ret, s1) else send_seq cmd bs s1)"

lemma send_seq_append:
  "send_seq cmd (xs @ ys) s =
     (let (ret, s1) = send_seq cmd xs s in if ret \<noteq> 0 then (ret, s1) else send_seq cmd ys s1)"
  by (induction xs arbitrary: s) (simp_all add: case_prod_beta)

text \<open>
  The contract of a command channel: a ready channel logs exactly the command, readiness
  does not change, and the return value is never positive.
\<close>

locale command_channel =
  fixes cmd :: "'s \<Rightarrow> 'c \<Rightarrow> int \<times> 's"
    and sent :: "'s \<Rightarrow> 'c list"
    and ready :: "'s \<Rightarrow> bool"
  assumes cmd_sent: "fst (cmd s c) = 0 \<Longrightarrow> sent (snd (cmd s c)) = sent s @ [c]"
    and cmd_lost: "fst (cmd s c) \<noteq> 0 \<Longrightarrow> sent (snd (cmd s c)) = sent s"
    and cmd_ready: "ready (snd (cmd s c)) = ready s"
    and cmd_nonpos: "fst (cmd s c) \<le> 0"
    and cmd_not_ready: "\<not> ready s \<Longrightarrow> fst (cmd s c) < 0"
begin

lemma seq_ready: "ready (snd (send_seq cmd cs s)) = ready s"
proof (induction cs arbitrary: s)
  case (Cons c cs)
  then show ?case using cmd_ready [of s c] by (simp add: case_prod_beta)
qed simp

lemma seq_nonpos: "fst (send_seq cmd cs s) \<le> 0"
proof (induction cs arbitrary: s)
  case (Cons c cs)
  then show ?case using cmd_nonpos [of s c] by (simp add: case_prod_beta)
qed simp

lemma seq_sent_prefix:
  "\<exists>n \<le> length cs. sent (snd (send_seq cmd cs s)) = sent s @ take n cs
     \<and> (fst (send_seq cmd cs s) = 0 \<longrightarrow> n = length cs)"
proof (induction cs arbitrary: s)
  case (Cons c cs)
  obtain ret s1 where c: "cmd s c = (ret, s1)" by fastforce
  show ?case
  proof (cases "ret = 0")
    case True
    obtain n where "n \<le> length cs" "sent (snd (send_seq cmd cs s1)) = sent s1 @ take n cs"
      "fst (send_seq cmd cs s1) = 0 \<longrightarrow> n = length cs"
      using Cons.IH by blast
    with True c cmd_sent [of s c] show ?thesis by (intro exI [of _ "Suc n"]) simp
  next
    case False
    with c cmd_lost [of s c] show ?thesis by (intro exI [of _ 0]) simp
  qed
qed simp

lemma seq_ok_sent:
  "fst (send_seq cmd cs s) = 0 \<Longrightarrow> sent (snd (send_seq cmd cs s)) = sent s @ cs"
  using seq_sent_prefix [of cs s] by auto

lemma seq_ok_iff_ready_all:
  "(\<And>s c. ready s \<Longrightarrow> fst (cmd s c) = 0) \<Longrightarrow> ready s \<Longrightarrow> fst (send_seq cmd cs s) = 0"
proof (induction cs arbitrary: s)
  case (Cons c cs)
  then show ?case using cmd_ready [of s c] by (simp add: case_prod_beta)
qed simp

end

section \<open>State machines\<close>

text \<open>A step relation with an invariant: what holds at the start holds in every reachable state.\<close>

locale machine =
  fixes step :: "'s \<Rightarrow> 's \<Rightarrow> bool" and inv :: "'s \<Rightarrow> bool"
  assumes step_inv: "step s t \<Longrightarrow> inv s \<Longrightarrow> inv t"
begin

lemma reach_inv: "step\<^sup>*\<^sup>* s t \<Longrightarrow> inv s \<Longrightarrow> inv t"
  by (induction rule: rtranclp_induct) (blast intro: step_inv)+

end

end
