(* ===== verification/Fpga.thy ===== *)
theory Fpga
  imports Prelude
begin

text \<open>
  \<open>src/joker_fpga.c\<close>: the command exchange with the FPGA over USB bulk transfers.
  libusb is outside the repository: \<open>usb_dev\<close> is the device as a parameter, with one
  function per bulk direction over a device state of any type. A C pointer parameter is
  modelled by the object it points to, so the NULL-argument returns have no counterpart;
  pointers kept in fields (\<open>libusb_opaque\<close>, \<open>io_mux_opaq\<close>) are modelled with their NULL test.
  The mutex of \<open>joker_io\<close> makes the exchange atomic, which is how it is modelled.
\<close>

section \<open>The device and the handle\<close>

text \<open>
  \<open>bulk_out ep data d\<close> gives the return code of \<open>libusb_bulk_transfer\<close>, the number of bytes
  transferred and the next device state; \<open>bulk_in ep len d\<close> the return code, the bytes
  received (their number is \<open>transferred\<close>) and the next state. \<open>undef_bytes d i\<close> is the
  indeterminate content of an uninitialised stack buffer at offset \<open>i\<close>.
\<close>

record 'd usb_dev =
  bulk_out :: "byte \<Rightarrow> byte list \<Rightarrow> 'd \<Rightarrow> int \<times> nat \<times> 'd"
  bulk_in :: "byte \<Rightarrow> nat \<Rightarrow> 'd \<Rightarrow> int \<times> byte list \<times> 'd"
  undef_bytes :: "'d \<Rightarrow> nat \<Rightarrow> byte"

text \<open>
  The part of \<open>struct joker_t\<close> the exchange uses, the device state, and the log of the
  commands that got through to EP2: those whose transfer completed. A command whose transfer
  failed is not in the log. Components extend this record with their own fields.
\<close>

record 'd joker_t =
  dev_st :: 'd
  usb_log :: "byte list list"
  libusb_opaque :: bool
  io_mux_opaq :: bool

record jcmd_t =
  jc_buf :: "byte list"
  jc_len :: nat
  jc_in_buf :: "byte list"
  jc_in_len :: nat

abbreviation USB_EP1_IN :: byte where "USB_EP1_IN \<equiv> 0x81"
abbreviation USB_EP2_OUT :: byte where "USB_EP2_OUT \<equiv> 0x02"
abbreviation USB_EP4_OUT :: byte where "USB_EP4_OUT \<equiv> 0x04"
abbreviation USB_EP3_IN :: byte where "USB_EP3_IN \<equiv> 0x83"

abbreviation JCMD_BUF_LEN :: nat where "JCMD_BUF_LEN \<equiv> 512"

abbreviation J_CMD_I2C_WRITE :: byte where "J_CMD_I2C_WRITE \<equiv> 10"
abbreviation J_CMD_I2C_READ :: byte where "J_CMD_I2C_READ \<equiv> 11"
abbreviation J_CMD_RESET_CTRL_WRITE :: byte where "J_CMD_RESET_CTRL_WRITE \<equiv> 12"
abbreviation J_CMD_TS_INSEL_WRITE :: byte where "J_CMD_TS_INSEL_WRITE \<equiv> 14"
abbreviation J_CMD_ISOC_LEN_WRITE_HI :: byte where "J_CMD_ISOC_LEN_WRITE_HI \<equiv> 16"
abbreviation J_CMD_ISOC_LEN_WRITE_LO :: byte where "J_CMD_ISOC_LEN_WRITE_LO \<equiv> 17"
abbreviation J_CMD_CI_STATUS :: byte where "J_CMD_CI_STATUS \<equiv> 20"
abbreviation J_CMD_CI_RW :: byte where "J_CMD_CI_RW \<equiv> 22"
abbreviation J_CMD_CI_TS :: byte where "J_CMD_CI_TS \<equiv> 23"
abbreviation J_CMD_SPI :: byte where "J_CMD_SPI \<equiv> 30"
abbreviation J_CMD_CLEAR_TS_FIFO :: byte where "J_CMD_CLEAR_TS_FIFO \<equiv> 35"
abbreviation J_CMD_TS_FILTER :: byte where "J_CMD_TS_FILTER \<equiv> 40"

definition stack_buf :: "'d usb_dev \<Rightarrow> ('d, 'z) joker_t_scheme \<Rightarrow> nat \<Rightarrow> byte list" where
  "stack_buf dev j n = map (undef_bytes dev (dev_st j)) [0..<n]"

lemma length_stack_buf [simp]: "length (stack_buf dev j n) = n"
  by (simp add: stack_buf_def)

section \<open>The exchange\<close>

definition joker_io ::
  "'d usb_dev \<Rightarrow> ('d, 'z) joker_t_scheme \<Rightarrow> jcmd_t \<Rightarrow> int \<times> byte list \<times> ('d, 'z) joker_t_scheme" where
  "joker_io dev j jcmd =
     (if \<not> io_mux_opaq j then (- EINVAL, jc_in_buf jcmd, j)
      else
        let req = take (jc_len jcmd) (jc_buf jcmd);
            (ret, transferred, d) = bulk_out dev USB_EP2_OUT req (dev_st j);
            j = j\<lparr>dev_st := d\<rparr>
        in if ret < 0 \<or> transferred \<noteq> jc_len jcmd then (- EIO, jc_in_buf jcmd, j)
           else
             let j = j\<lparr>usb_log := usb_log j @ [req]\<rparr>
             in if jc_in_len jcmd > 0 then
                  let (ret, got, d) = bulk_in dev USB_EP1_IN (jc_in_len jcmd) (dev_st j);
                      j = j\<lparr>dev_st := d\<rparr>;
                      in_buf = put_bytes (jc_in_buf jcmd) 0 got
                  in if ret < 0 \<or> length got \<noteq> jc_in_len jcmd then (- EIO, in_buf, j)
                     else (0, in_buf, j)
                else (0, jc_in_buf jcmd, j))"

definition joker_cmd ::
  "'d usb_dev \<Rightarrow> ('d, 'z) joker_t_scheme \<Rightarrow> byte list \<Rightarrow> nat \<Rightarrow> byte list \<Rightarrow> nat
    \<Rightarrow> int \<times> byte list \<times> ('d, 'z) joker_t_scheme" where
  "joker_cmd dev j data len in_buf in_len =
     (let jcmd = \<lparr>jc_buf = data, jc_len = len, jc_in_buf = in_buf, jc_in_len = in_len\<rparr>;
          (ret, in_buf, j) = joker_io dev j jcmd
      in if ret \<noteq> 0 then (ret, in_buf, j) else (0, in_buf, j))"

text \<open>A command without a reply: \<open>joker_cmd(joker, buf, len, NULL, 0)\<close>.\<close>

definition joker_cmd0 ::
  "'d usb_dev \<Rightarrow> ('d, 'z) joker_t_scheme \<Rightarrow> byte list \<Rightarrow> int \<times> ('d, 'z) joker_t_scheme" where
  "joker_cmd0 dev j data =
     (let (ret, _, j) = joker_cmd dev j data (length data) [] 0 in (ret, j))"

definition joker_send_ts_loop ::
  "'d usb_dev \<Rightarrow> ('d, 'z) joker_t_scheme \<Rightarrow> byte list \<Rightarrow> int \<times> ('d, 'z) joker_t_scheme" where
  "joker_send_ts_loop dev j buf =
     (let (ret, transferred, d) = bulk_out dev USB_EP4_OUT buf (dev_st j);
          j = j\<lparr>dev_st := d\<rparr>
      in if ret < 0 \<or> transferred \<noteq> length buf then (- EIO, j) else (0, j))"

section \<open>Facts about one exchange\<close>

lemma joker_cmd_ret: "fst (joker_cmd dev j b n ib m) \<in> {0, - EIO, - EINVAL}"
  by (simp add: joker_cmd_def joker_io_def Let_def split: prod.split)

lemma joker_cmd_nonpos: "fst (joker_cmd dev j b n ib m) \<le> 0"
  using joker_cmd_ret [of dev j b n ib m] by auto

lemma joker_cmd_log:
  "usb_log (snd (snd (joker_cmd dev j b n ib m))) = usb_log j
     \<or> usb_log (snd (snd (joker_cmd dev j b n ib m))) = usb_log j @ [take n b]"
  by (simp add: joker_cmd_def joker_io_def Let_def split: prod.split)

lemma joker_cmd_log_ok:
  "fst (joker_cmd dev j b n ib m) = 0 \<Longrightarrow> usb_log (snd (snd (joker_cmd dev j b n ib m))) = usb_log j @ [take n b]"
  by (auto simp: joker_cmd_def joker_io_def Let_def split: prod.splits if_splits)

lemma joker_cmd_frame [frame_simps]:
  "io_mux_opaq (snd (snd (joker_cmd dev j b n ib m))) = io_mux_opaq j"
  "libusb_opaque (snd (snd (joker_cmd dev j b n ib m))) = libusb_opaque j"
  "joker_t.more (snd (snd (joker_cmd dev j b n ib m))) = joker_t.more j"
  by (simp_all add: joker_cmd_def joker_io_def Let_def split: prod.split)

lemma joker_cmd_closed:
  "\<not> io_mux_opaq j \<Longrightarrow> joker_cmd dev j b n ib m = (- EINVAL, ib, j)"
  by (simp add: joker_cmd_def joker_io_def)

lemma joker_cmd_reply:
  assumes "joker_cmd dev j b n ib m = (0, ob, j')" and "0 < m" and "length ib = k" and "m \<le> k"
  shows "length ob = k \<and> (\<exists>got. length got = m \<and> take m ob = got \<and> drop m ob = drop m ib)"
  using assms
  by (auto simp: joker_cmd_def joker_io_def Let_def put_bytes_def split: prod.splits if_splits)

lemma joker_cmd0_log [log_simps]:
  "usb_log (snd (joker_cmd0 dev j b)) = (if fst (joker_cmd0 dev j b) = 0 then usb_log j @ [b] else usb_log j)"
  by (auto simp: joker_cmd0_def joker_cmd_def joker_io_def Let_def split: prod.splits if_splits)

lemma joker_cmd0_frame [frame_simps]:
  "io_mux_opaq (snd (joker_cmd0 dev j b)) = io_mux_opaq j"
  "libusb_opaque (snd (joker_cmd0 dev j b)) = libusb_opaque j"
  "joker_t.more (snd (joker_cmd0 dev j b)) = joker_t.more j"
  using joker_cmd_frame [of dev j b "length b" "[]" 0]
  by (simp_all add: joker_cmd0_def case_prod_beta)

lemma joker_cmd0_ret: "fst (joker_cmd0 dev j b) \<in> {0, - EIO, - EINVAL}"
  using joker_cmd_ret [of dev j b "length b" "[]" 0]
  by (simp add: joker_cmd0_def case_prod_beta)

lemma joker_cmd0_nonpos: "fst (joker_cmd0 dev j b) \<le> 0"
  using joker_cmd0_ret [of dev j b] by auto

interpretation cmdch: command_channel "joker_cmd0 dev" usb_log io_mux_opaq for dev
proof
  fix s :: "('a, 'b) joker_t_scheme" and c
  show "fst (joker_cmd0 dev s c) = 0 \<Longrightarrow> usb_log (snd (joker_cmd0 dev s c)) = usb_log s @ [c]"
    "fst (joker_cmd0 dev s c) \<noteq> 0 \<Longrightarrow> usb_log (snd (joker_cmd0 dev s c)) = usb_log s"
    by (simp_all add: log_simps)
  show "io_mux_opaq (snd (joker_cmd0 dev s c)) = io_mux_opaq s"
    by (simp add: frame_simps)
  show "fst (joker_cmd0 dev s c) \<le> 0"
    by (rule joker_cmd0_nonpos)
  show "\<not> io_mux_opaq s \<Longrightarrow> fst (joker_cmd0 dev s c) < 0"
    by (simp add: joker_cmd0_def joker_cmd_closed)
qed

text \<open>A device that takes every command.\<close>

definition usb_ok :: "'d usb_dev \<Rightarrow> bool" where
  "usb_ok dev \<longleftrightarrow> (\<forall>b d. \<exists>e. bulk_out dev USB_EP2_OUT b d = (0, length b, e))"

lemma usb_ok_cmd0: "usb_ok dev \<Longrightarrow> io_mux_opaq j \<Longrightarrow> fst (joker_cmd0 dev j b) = 0"
  unfolding usb_ok_def joker_cmd0_def joker_cmd_def joker_io_def
  by (drule spec [of _ b], drule spec [of _ "dev_st j"]) (auto simp: Let_def)

lemma usb_ok_cmd_log:
  "usb_ok dev \<Longrightarrow> io_mux_opaq j \<Longrightarrow> n = length b \<Longrightarrow> usb_log (snd (snd (joker_cmd dev j b n ib m))) = usb_log j @ [b]"
  unfolding usb_ok_def joker_cmd_def joker_io_def
  by (drule spec [of _ b], drule spec [of _ "dev_st j"]) (auto simp: Let_def case_prod_beta)

section \<open>Two concrete devices\<close>

text \<open>
  Devices for the witnesses: on \<open>quiet_dev\<close> every transfer succeeds and every reply is zero;
  on \<open>dead_dev\<close> every transfer times out.
\<close>

definition quiet_dev :: "unit usb_dev" where
  "quiet_dev = \<lparr>bulk_out = (\<lambda>_ b d. (0, length b, d)),
                bulk_in = (\<lambda>_ n d. (0, replicate n 0, d)), undef_bytes = (\<lambda>_ _. 0)\<rparr>"

definition dead_dev :: "unit usb_dev" where
  "dead_dev = \<lparr>bulk_out = (\<lambda>_ _ d. (- 7, 0, d)), bulk_in = (\<lambda>_ _ d. (- 7, [], d)),
               undef_bytes = (\<lambda>_ _. 0)\<rparr>"

lemma quiet_usb_ok: "usb_ok quiet_dev"
  by (simp add: usb_ok_def quiet_dev_def)

definition quiet_joker :: "unit joker_t" where
  "quiet_joker = \<lparr>dev_st = (), usb_log = [], libusb_opaque = True, io_mux_opaq = True\<rparr>"

lemmas quiet_eval = quiet_dev_def quiet_joker_def Let_def

end
