(* ===== verification/I2c.thy ===== *)
theory I2c
  imports Fpga
begin

text \<open>
  \<open>src/joker_i2c.c\<close>: the driver of the OpenCores I2C master behind the FPGA, and
  \<open>i2c_transfer\<close> of \<open>src/u_drv_tune.c\<close>. Register writes go out as \<open>J_CMD_I2C_WRITE\<close> commands,
  so the transaction on the bus is read off the log of those commands.
\<close>

abbreviation OC_I2C_PRELO :: byte where "OC_I2C_PRELO \<equiv> 0x00"
abbreviation OC_I2C_PREHI :: byte where "OC_I2C_PREHI \<equiv> 0x01"
abbreviation OC_I2C_CTR :: byte where "OC_I2C_CTR \<equiv> 0x02"
abbreviation OC_I2C_TXR :: byte where "OC_I2C_TXR \<equiv> 0x03"
abbreviation OC_I2C_RXR :: byte where "OC_I2C_RXR \<equiv> 0x03"
abbreviation OC_I2C_CR :: byte where "OC_I2C_CR \<equiv> 0x04"
abbreviation OC_I2C_SR :: byte where "OC_I2C_SR \<equiv> 0x04"
abbreviation OC_I2C_400K :: byte where "OC_I2C_400K \<equiv> 0x18"
abbreviation OC_I2C_CORE_ENABLE :: byte where "OC_I2C_CORE_ENABLE \<equiv> 0x80"
abbreviation OC_I2C_IRQ_ENABLE :: byte where "OC_I2C_IRQ_ENABLE \<equiv> 0x40"
abbreviation OC_I2C_START :: byte where "OC_I2C_START \<equiv> 0x80"
abbreviation OC_I2C_STOP :: byte where "OC_I2C_STOP \<equiv> 0x40"
abbreviation OC_I2C_READ :: byte where "OC_I2C_READ \<equiv> 0x20"
abbreviation OC_I2C_WRITE :: byte where "OC_I2C_WRITE \<equiv> 0x10"
abbreviation OC_I2C_NACK :: byte where "OC_I2C_NACK \<equiv> 0x08"
abbreviation OC_I2C_TIP :: byte where "OC_I2C_TIP \<equiv> 0x02"
abbreviation OC_I2C_AL :: byte where "OC_I2C_AL \<equiv> 0x20"
abbreviation OC_I2C_ACK :: byte where "OC_I2C_ACK \<equiv> 0x80"

record 'd joker_i2c = "'d joker_t" +
  i2c_opaque :: bool

section \<open>Register access\<close>

text \<open>
  The guard of both helpers is \<open>ret != joker_io(...)\<close> with \<open>ret\<close> still 0: it detects the
  failure, and then returns that 0. \<open>data\<close> is the byte the out-parameter points to.
\<close>

definition joker_i2c_read_cmd ::
  "'d usb_dev \<Rightarrow> ('d, 'z) joker_t_scheme \<Rightarrow> byte \<Rightarrow> byte \<Rightarrow> int \<times> byte \<times> ('d, 'z) joker_t_scheme" where
  "joker_i2c_read_cmd dev j offset data =
     (let ret = 0;
          (r, in_buf, j) = joker_io dev j
             \<lparr>jc_buf = [J_CMD_I2C_READ, offset], jc_len = 2,
              jc_in_buf = stack_buf dev j 2, jc_in_len = 2\<rparr>
      in if ret \<noteq> r then (ret, data, j) else (0, in_buf ! 1, j))"

definition joker_i2c_write_cmd ::
  "'d usb_dev \<Rightarrow> ('d, 'z) joker_t_scheme \<Rightarrow> byte \<Rightarrow> byte \<Rightarrow> int \<times> ('d, 'z) joker_t_scheme" where
  "joker_i2c_write_cmd dev j offset data =
     (let ret = 0;
          (r, in_buf, j) = joker_io dev j
             \<lparr>jc_buf = [J_CMD_I2C_WRITE, offset, data], jc_len = 3, jc_in_buf = [], jc_in_len = 0\<rparr>
      in if ret \<noteq> r then (ret, j) else (0, j))"

section \<open>Waiting for the end of a transaction\<close>

text \<open>
  The loop of \<open>joker_i2c_read_cycle\<close>. It returns the early-return code if there is one, the
  status byte, the value of \<open>cnt\<close> and the state. \<open>cnt\<close> goes down twice per unfinished poll.
\<close>

function i2c_poll_loop ::
  "'d usb_dev \<Rightarrow> ('d, 'z) joker_t_scheme \<Rightarrow> byte \<Rightarrow> int
    \<Rightarrow> int option \<times> byte \<times> int \<times> ('d, 'z) joker_t_scheme" where
  "i2c_poll_loop dev j buf cnt =
     (if cnt > 0 then
        let cnt = cnt - 1;
            (ret, buf, j) = joker_i2c_read_cmd dev j OC_I2C_SR buf
        in if ret \<noteq> 0 then (Some ret, buf, cnt, j)
           else if buf AND OC_I2C_TIP = 0 then (None, buf, cnt, j)
           else i2c_poll_loop dev j buf (cnt - 1)
      else (None, buf, cnt - 1, j))"
  by pat_completeness auto
termination
  by (relation "measure (\<lambda>(dev, j, buf, cnt). nat cnt)") auto

declare i2c_poll_loop.simps [simp del]

definition joker_i2c_read_cycle ::
  "'d usb_dev \<Rightarrow> ('d, 'z) joker_t_scheme \<Rightarrow> byte \<Rightarrow> bool \<Rightarrow> int \<times> byte \<times> ('d, 'z) joker_t_scheme" where
  "joker_i2c_read_cycle dev j buf check_ack =
     (let (early, buf, cnt, j) = i2c_poll_loop dev j buf 1000
      in case early of
           Some ret \<Rightarrow> (ret, buf, j)
         | None \<Rightarrow>
             if check_ack \<and> buf AND OC_I2C_ACK \<noteq> 0 then (ENODEV, buf, j)
             else if buf AND OC_I2C_AL \<noteq> 0 then (EIO, buf, j)
             else if cnt \<le> 0 then (EIO, buf, j)
             else (0, buf, j))"

section \<open>Transactions\<close>

fun i2c_write_loop ::
  "'d usb_dev \<Rightarrow> ('d, 'z) joker_t_scheme \<Rightarrow> byte \<Rightarrow> byte list \<Rightarrow> int \<times> ('d, 'z) joker_t_scheme" where
  "i2c_write_loop dev j buf [] = (0, j)"
| "i2c_write_loop dev j buf (x # xs) =
     (let (ret, j) = joker_i2c_write_cmd dev j OC_I2C_TXR x
      in if ret \<noteq> 0 then (ret, j)
      else let cmd = (if xs = [] then OC_I2C_WRITE OR OC_I2C_STOP else OC_I2C_WRITE);
               (ret, j) = joker_i2c_write_cmd dev j OC_I2C_CR cmd
           in if ret \<noteq> 0 then (ret, j)
      else let (ret, buf, j) = joker_i2c_read_cycle dev j buf False
           in if ret \<noteq> 0 then (ret, j) else i2c_write_loop dev j buf xs)"

text \<open>\<open>buf\<close> is uninitialised on entry: its first byte is the stack content.\<close>

definition joker_i2c_write ::
  "'d usb_dev \<Rightarrow> ('d, 'z) joker_t_scheme \<Rightarrow> byte \<Rightarrow> byte list \<Rightarrow> int \<times> ('d, 'z) joker_t_scheme" where
  "joker_i2c_write dev j chip data =
     (let buf = undef_bytes dev (dev_st j) 0;
          chip = push_bit 1 chip;
          (ret, j) = joker_i2c_write_cmd dev j OC_I2C_TXR chip
      in if ret \<noteq> 0 then (ret, j)
      else let cmd = OC_I2C_START OR OC_I2C_WRITE;
               cmd = (if data = [] then cmd OR OC_I2C_STOP else cmd);
               (ret, j) = joker_i2c_write_cmd dev j OC_I2C_CR cmd
           in if ret \<noteq> 0 then (ret, j)
      else let (ret, buf, j) = joker_i2c_read_cycle dev j buf True
           in if ret \<noteq> 0 then (ret, j) else i2c_write_loop dev j buf data)"

text \<open>\<open>n\<close> bytes are still to be read into \<open>data\<close> from index \<open>i\<close> on.\<close>

fun i2c_read_loop ::
  "'d usb_dev \<Rightarrow> ('d, 'z) joker_t_scheme \<Rightarrow> byte \<Rightarrow> byte list \<Rightarrow> nat \<Rightarrow> nat
    \<Rightarrow> int \<times> byte list \<times> ('d, 'z) joker_t_scheme" where
  "i2c_read_loop dev j buf data i 0 = (0, data, j)"
| "i2c_read_loop dev j buf data i (Suc n) =
     (let cmd = (if n = 0 then OC_I2C_READ OR (OC_I2C_STOP OR OC_I2C_NACK) else OC_I2C_READ);
          (ret, j) = joker_i2c_write_cmd dev j OC_I2C_CR cmd
      in if ret \<noteq> 0 then (ret, data, j)
      else let (ret, buf, j) = joker_i2c_read_cycle dev j buf False
           in if ret \<noteq> 0 then (ret, data, j)
      else let (ret, x, j) = joker_i2c_read_cmd dev j OC_I2C_RXR (data ! i);
               data = data[i := x]
           in if ret \<noteq> 0 then (ret, data, j) else i2c_read_loop dev j buf data (Suc i) n)"

definition joker_i2c_read ::
  "'d usb_dev \<Rightarrow> ('d, 'z) joker_t_scheme \<Rightarrow> byte \<Rightarrow> byte list \<Rightarrow> int \<times> byte list \<times> ('d, 'z) joker_t_scheme" where
  "joker_i2c_read dev j chip data =
     (let buf = undef_bytes dev (dev_st j) 0;
          chip = push_bit 1 chip OR 1;
          (ret, j) = joker_i2c_write_cmd dev j OC_I2C_TXR chip
      in if ret \<noteq> 0 then (ret, data, j)
      else let cmd = OC_I2C_START OR OC_I2C_WRITE;
               cmd = (if data = [] then cmd OR OC_I2C_STOP else cmd);
               (ret, j) = joker_i2c_write_cmd dev j OC_I2C_CR cmd
           in if ret \<noteq> 0 then (ret, data, j)
      else let (ret, buf, j) = joker_i2c_read_cycle dev j buf True
           in if ret \<noteq> 0 then (ret, data, j) else i2c_read_loop dev j buf data 0 (length data))"

definition joker_i2c_ping ::
  "'d usb_dev \<Rightarrow> ('d, 'z) joker_t_scheme \<Rightarrow> byte \<Rightarrow> int \<times> ('d, 'z) joker_t_scheme" where
  "joker_i2c_ping dev j chip =
     (let buf = undef_bytes dev (dev_st j) 0;
          chip = push_bit 1 chip;
          (ret, j) = joker_i2c_write_cmd dev j OC_I2C_TXR chip
      in if ret \<noteq> 0 then (ret, j)
      else let (ret, j) = joker_i2c_write_cmd dev j OC_I2C_CR
                 ((OC_I2C_START OR OC_I2C_WRITE) OR OC_I2C_STOP)
           in if ret \<noteq> 0 then (ret, j)
      else let (ret, buf, j) = joker_i2c_read_cycle dev j buf True
           in if ret \<noteq> 0 then (ret, j) else (0, j))"

text \<open>\<open>malloc\<close> is taken to succeed; \<open>i2c_opaque\<close> records whether the object is there.\<close>

definition joker_i2c_init ::
  "'d usb_dev \<Rightarrow> ('d, 'z) joker_i2c_scheme \<Rightarrow> int \<times> ('d, 'z) joker_i2c_scheme" where
  "joker_i2c_init dev j =
     (let j = j\<lparr>i2c_opaque := True\<rparr>;
          (ret, j) = joker_i2c_write_cmd dev j OC_I2C_PRELO OC_I2C_400K
      in if ret \<noteq> 0 then (ret, j\<lparr>i2c_opaque := False\<rparr>)
      else let (ret, j) = joker_i2c_write_cmd dev j OC_I2C_PREHI 0x00
           in if ret \<noteq> 0 then (ret, j\<lparr>i2c_opaque := False\<rparr>)
      else let (ret, j) = joker_i2c_write_cmd dev j OC_I2C_CTR (OC_I2C_CORE_ENABLE OR OC_I2C_IRQ_ENABLE)
           in if ret \<noteq> 0 then (ret, j\<lparr>i2c_opaque := False\<rparr>) else (0, j))"

definition joker_i2c_close :: "('d, 'z) joker_i2c_scheme \<Rightarrow> int \<times> ('d, 'z) joker_i2c_scheme" where
  "joker_i2c_close j = (if \<not> i2c_opaque j then (ENODEV, j) else (0, j\<lparr>i2c_opaque := False\<rparr>))"

section \<open>Kernel I2C messages\<close>

record i2c_msg =
  im_addr :: u16
  im_rd :: bool
  im_buf :: "byte list"

text \<open>
  The messages carry their buffers; a read fills its message's buffer in place. The result
  is the number of messages, or -1 at the first one that fails.
\<close>

fun i2c_transfer_loop ::
  "'d usb_dev \<Rightarrow> ('d, 'z) joker_t_scheme \<Rightarrow> i2c_msg list \<Rightarrow> bool \<times> i2c_msg list \<times> ('d, 'z) joker_t_scheme" where
  "i2c_transfer_loop dev j [] = (True, [], j)"
| "i2c_transfer_loop dev j (m # ms) =
     (if im_rd m then
        let (ret, d, j) = joker_i2c_read dev j (ucast (im_addr m)) (im_buf m); m = m\<lparr>im_buf := d\<rparr>
        in if ret \<noteq> 0 then (False, m # ms, j)
           else let (ok, ms, j) = i2c_transfer_loop dev j ms in (ok, m # ms, j)
      else
        let (ret, j) = joker_i2c_write dev j (ucast (im_addr m)) (im_buf m)
        in if ret \<noteq> 0 then (False, m # ms, j)
           else let (ok, ms, j) = i2c_transfer_loop dev j ms in (ok, m # ms, j))"

definition i2c_transfer ::
  "'d usb_dev \<Rightarrow> ('d, 'z) joker_t_scheme \<Rightarrow> i2c_msg list \<Rightarrow> int \<times> i2c_msg list \<times> ('d, 'z) joker_t_scheme" where
  "i2c_transfer dev j msgs =
     (let (ok, ms, j) = i2c_transfer_loop dev j msgs
      in if ok then (int (length msgs), ms, j) else (- 1, ms, j))"

section \<open>Register traffic\<close>

text \<open>The register writes in a command log, in order.\<close>

fun reg_writes :: "byte list list \<Rightarrow> (byte \<times> byte) list" where
  "reg_writes [] = []"
| "reg_writes ([c, r, v] # cs) = (if c = J_CMD_I2C_WRITE then (r, v) # reg_writes cs else reg_writes cs)"
| "reg_writes (_ # cs) = reg_writes cs"

lemma reg_writes_append [simp]: "reg_writes (xs @ ys) = reg_writes xs @ reg_writes ys"
  by (induction xs rule: reg_writes.induct) auto

lemma write_cmd_eq:
  "joker_i2c_write_cmd dev j r v = (0, snd (joker_cmd0 dev j [J_CMD_I2C_WRITE, r, v]))"
  by (simp add: joker_i2c_write_cmd_def joker_cmd0_def joker_cmd_def case_prod_beta Let_def numeral_3_eq_3)

lemma write_cmd_state:
  "fst (joker_i2c_write_cmd dev j r v) = 0"
  "io_mux_opaq (snd (joker_i2c_write_cmd dev j r v)) = io_mux_opaq j"
  "usb_ok dev \<Longrightarrow> io_mux_opaq j \<Longrightarrow> usb_log (snd (joker_i2c_write_cmd dev j r v)) =
      usb_log j @ [[J_CMD_I2C_WRITE, r, v]]"
  by (simp_all add: write_cmd_eq frame_simps log_simps usb_ok_cmd0)

lemma read_cmd_eq:
  "joker_i2c_read_cmd dev j r x =
     (let (q, ib, j') = joker_cmd dev j [J_CMD_I2C_READ, r] 2 (stack_buf dev j 2) 2
      in (0, if q \<noteq> 0 then x else ib ! 1, j'))"
  by (simp add: joker_i2c_read_cmd_def joker_cmd_def case_prod_beta Let_def)

lemma read_cmd_state:
  "fst (joker_i2c_read_cmd dev j r x) = 0"
  "io_mux_opaq (snd (snd (joker_i2c_read_cmd dev j r x))) = io_mux_opaq j"
  "reg_writes (usb_log (snd (snd (joker_i2c_read_cmd dev j r x)))) = reg_writes (usb_log j)"
  "length (usb_log (snd (snd (joker_i2c_read_cmd dev j r x)))) \<le> Suc (length (usb_log j))"
  using joker_cmd_log [of dev j "[J_CMD_I2C_READ, r]" 2 "stack_buf dev j 2" 2]
  by (auto simp: read_cmd_eq case_prod_beta frame_simps)

text \<open>A failed exchange leaves the out-parameter alone and still returns 0.\<close>

lemma read_cmd_failed:
  assumes "fst (joker_io dev j \<lparr>jc_buf = [J_CMD_I2C_READ, r], jc_len = 2,
              jc_in_buf = stack_buf dev j 2, jc_in_len = 2\<rparr>) \<noteq> 0"
  shows "fst (joker_i2c_read_cmd dev j r x) = 0 \<and> fst (snd (joker_i2c_read_cmd dev j r x)) = x"
  using assms by (auto simp: joker_i2c_read_cmd_def case_prod_beta Let_def)

lemma poll_loop_state:
  "i2c_poll_loop dev j buf cnt = (early, b, c, j') \<Longrightarrow> io_mux_opaq j \<Longrightarrow>
     early = None \<and> io_mux_opaq j' \<and> reg_writes (usb_log j') = reg_writes (usb_log j)
     \<and> (c > 0 \<longrightarrow> b AND OC_I2C_TIP = 0)
     \<and> length (usb_log j') \<le> length (usb_log j) + nat ((cnt + 1) div 2)"
proof (induction dev j buf cnt arbitrary: early b c j' rule: i2c_poll_loop.induct)
  case (1 dev j buf cnt)
  show ?case
  proof (cases "cnt > 0")
    case False
    with 1(2,3) show ?thesis by (auto simp: i2c_poll_loop.simps [of dev j buf cnt])
  next
    case True
    obtain b1 j1 where r: "joker_i2c_read_cmd dev j OC_I2C_SR buf = (0, b1, j1)"
      using read_cmd_state(1) [of dev j OC_I2C_SR buf] by (metis prod.collapse)
    from read_cmd_state(2-4) [where dev = dev and j = j and r = OC_I2C_SR and x = buf] r 1(3)
    have open1: "io_mux_opaq j1" and log1: "reg_writes (usb_log j1) = reg_writes (usb_log j)"
        "length (usb_log j1) \<le> Suc (length (usb_log j))"
      by simp_all
    show ?thesis
    proof (cases "b1 AND OC_I2C_TIP = 0")
      case fin: True
      with True 1(2) r have "(early, b, c, j') = (None, b1, cnt - 1, j1)"
        by (simp add: i2c_poll_loop.simps [of dev j buf cnt])
      moreover have "1 \<le> nat ((cnt + 1) div 2)"
        using True by linarith
      ultimately show ?thesis using fin open1 log1 by simp
    next
      case False
      with True 1(2) r have rec: "i2c_poll_loop dev j1 b1 (cnt - 1 - 1) = (early, b, c, j')"
        by (simp add: i2c_poll_loop.simps [of dev j buf cnt])
      have ih: "early = None \<and> io_mux_opaq j' \<and> reg_writes (usb_log j') = reg_writes (usb_log j1)
          \<and> (c > 0 \<longrightarrow> b AND OC_I2C_TIP = 0)
          \<and> length (usb_log j') \<le> length (usb_log j1) + nat ((cnt - 1 - 1 + 1) div 2)"
        using 1(1) [OF True refl r [symmetric] refl refl _ False rec open1] by simp
      moreover have "Suc (nat ((cnt - 1 - 1 + 1) div 2)) \<le> nat ((cnt + 1) div 2)"
        using True by linarith
      ultimately show ?thesis using log1 by simp
    qed
  qed
qed

lemma read_cycle_state:
  assumes "joker_i2c_read_cycle dev j buf chk = (ret, b, j')" and "io_mux_opaq j"
  shows "io_mux_opaq j' \<and> reg_writes (usb_log j') = reg_writes (usb_log j)
     \<and> length (usb_log j') \<le> length (usb_log j) + 500
     \<and> ret \<in> {0, ENODEV, EIO}
     \<and> (ret = 0 \<longrightarrow> b AND OC_I2C_TIP = 0 \<and> b AND OC_I2C_AL = 0 \<and> (chk \<longrightarrow> b AND OC_I2C_ACK = 0))"
proof -
  obtain early b1 c j1 where l: "i2c_poll_loop dev j buf 1000 = (early, b1, c, j1)"
    by (metis prod_cases4)
  from poll_loop_state [OF l assms(2)] l assms(1) show ?thesis
    by (auto simp: joker_i2c_read_cycle_def split: if_splits)
qed

section \<open>The transaction on the bus\<close>

text \<open>
  The comment of the code: Start/chip - data[0] - ... - data[n]/Stop. As register writes,
  each byte is put into the transmit register and then sent with a command.
\<close>

fun data_script :: "byte list \<Rightarrow> (byte \<times> byte) list" where
  "data_script [] = []"
| "data_script (x # xs) =
     (OC_I2C_TXR, x) # (OC_I2C_CR, if xs = [] then OC_I2C_WRITE OR OC_I2C_STOP else OC_I2C_WRITE)
       # data_script xs"

definition i2c_write_script :: "byte \<Rightarrow> byte list \<Rightarrow> (byte \<times> byte) list" where
  "i2c_write_script chip data =
     (OC_I2C_TXR, push_bit 1 chip)
     # (OC_I2C_CR, if data = [] then (OC_I2C_START OR OC_I2C_WRITE) OR OC_I2C_STOP
                   else OC_I2C_START OR OC_I2C_WRITE)
     # data_script data"

fun read_script :: "nat \<Rightarrow> (byte \<times> byte) list" where
  "read_script 0 = []"
| "read_script (Suc n) =
     (OC_I2C_CR, if n = 0 then OC_I2C_READ OR (OC_I2C_STOP OR OC_I2C_NACK) else OC_I2C_READ)
       # read_script n"

definition i2c_read_script :: "byte \<Rightarrow> nat \<Rightarrow> (byte \<times> byte) list" where
  "i2c_read_script chip n =
     (OC_I2C_TXR, push_bit 1 chip OR 1)
     # (OC_I2C_CR, if n = 0 then (OC_I2C_START OR OC_I2C_WRITE) OR OC_I2C_STOP
                   else OC_I2C_START OR OC_I2C_WRITE)
     # read_script n"

text \<open>\<open>emits j j' script ret\<close>: a prefix of the script was written, all of it on success.\<close>

definition emits ::
  "('d, 'z) joker_t_scheme \<Rightarrow> ('d, 'z) joker_t_scheme \<Rightarrow> (byte \<times> byte) list \<Rightarrow> int \<Rightarrow> bool" where
  "emits j j' script ret \<longleftrightarrow> io_mux_opaq j' \<and>
     (\<exists>n. reg_writes (usb_log j') = reg_writes (usb_log j) @ take n script \<and>
        (ret = 0 \<longrightarrow> length script \<le> n))"

lemma emits_refl: "io_mux_opaq j \<Longrightarrow> emits j j [] 0"
  by (auto simp: emits_def)

lemma emits_fail: "io_mux_opaq j' \<Longrightarrow> reg_writes (usb_log j') = reg_writes (usb_log j) @ xs \<Longrightarrow>
    ret \<noteq> 0 \<Longrightarrow> emits j j' (xs @ ys) ret"
  unfolding emits_def by (intro conjI exI [of _ "length xs"]) auto

lemma emits_step:
  assumes "reg_writes (usb_log j1) = reg_writes (usb_log j) @ xs" and "emits j1 j' ys ret"
  shows "emits j j' (xs @ ys) ret"
proof -
  from assms(2) obtain n where "io_mux_opaq j'"
    "reg_writes (usb_log j') = reg_writes (usb_log j1) @ take n ys" "ret = 0 \<longrightarrow> length ys \<le> n"
    by (auto simp: emits_def)
  with assms(1) show ?thesis
    unfolding emits_def by (intro conjI exI [of _ "length xs + n"]) auto
qed

lemma i2c_write_loop_emits:
  "usb_ok dev \<Longrightarrow> io_mux_opaq j \<Longrightarrow> i2c_write_loop dev j buf xs = (ret, j') \<Longrightarrow> emits j j' (data_script xs) ret"
proof (induction xs arbitrary: j buf)
  case Nil
  then show ?case by (auto intro: emits_refl)
next
  case (Cons x xs)
  let ?cmd = "if xs = [] then OC_I2C_WRITE OR OC_I2C_STOP else OC_I2C_WRITE"
  define j1 where "j1 = snd (joker_i2c_write_cmd dev j OC_I2C_TXR x)"
  define j2 where "j2 = snd (joker_i2c_write_cmd dev j1 OC_I2C_CR ?cmd)"
  have w: "joker_i2c_write_cmd dev j OC_I2C_TXR x = (0, j1)"
    "joker_i2c_write_cmd dev j1 OC_I2C_CR ?cmd = (0, j2)"
    by (simp_all add: j1_def j2_def prod_eq_iff write_cmd_state)
  have op: "io_mux_opaq j1" "io_mux_opaq j2"
    using Cons.prems(2) by (simp_all add: j1_def j2_def write_cmd_state)
  have log2: "reg_writes (usb_log j2) = reg_writes (usb_log j) @ [(OC_I2C_TXR, x), (OC_I2C_CR, ?cmd)]"
    using Cons.prems(1,2) op by (simp add: j1_def j2_def write_cmd_state)
  obtain r b j3 where c: "joker_i2c_read_cycle dev j2 buf False = (r, b, j3)"
    by (metis prod_cases3)
  note st = read_cycle_state [OF c op(2)]
  then have log3: "reg_writes (usb_log j3) = reg_writes (usb_log j) @ [(OC_I2C_TXR, x), (OC_I2C_CR, ?cmd)]"
    using log2 by simp
  have eq: "data_script (x # xs) = [(OC_I2C_TXR, x), (OC_I2C_CR, ?cmd)] @ data_script xs"
    by simp
  show ?case
  proof (cases "r = 0")
    case True
    with Cons.prems(3) w c have "i2c_write_loop dev j3 b xs = (ret, j')"
      by (simp add: Let_def)
    with Cons.IH [OF Cons.prems(1)] st have "emits j3 j' (data_script xs) ret" by blast
    from emits_step [OF log3 this] show ?thesis by (simp only: eq)
  next
    case False
    with Cons.prems(3) w c have "ret = r" "j' = j3"
      by (simp_all add: Let_def)
    with emits_fail [OF _ log3 False] st show ?thesis by (simp only: eq)
  qed
qed

lemma i2c_write_emits:
  assumes ok: "usb_ok dev" and op: "io_mux_opaq j" and run: "joker_i2c_write dev j chip data = (ret, j')"
  shows "emits j j' (i2c_write_script chip data) ret"
proof -
  let ?cmd = "if data = [] then (OC_I2C_START OR OC_I2C_WRITE) OR OC_I2C_STOP
              else OC_I2C_START OR OC_I2C_WRITE"
  define j1 where "j1 = snd (joker_i2c_write_cmd dev j OC_I2C_TXR (push_bit 1 chip))"
  define j2 where "j2 = snd (joker_i2c_write_cmd dev j1 OC_I2C_CR ?cmd)"
  have w: "joker_i2c_write_cmd dev j OC_I2C_TXR (push_bit 1 chip) = (0, j1)"
    "joker_i2c_write_cmd dev j1 OC_I2C_CR ?cmd = (0, j2)"
    by (simp_all add: j1_def j2_def prod_eq_iff write_cmd_state)
  have op2: "io_mux_opaq j2" and
    log2: "reg_writes (usb_log j2) = reg_writes (usb_log j) @ [(OC_I2C_TXR, push_bit 1 chip), (OC_I2C_CR, ?cmd)]"
    using ok op by (simp_all add: j1_def j2_def write_cmd_state)
  obtain r b j3 where c: "joker_i2c_read_cycle dev j2 (undef_bytes dev (dev_st j) 0) True = (r, b, j3)"
    by (metis prod_cases3)
  note st = read_cycle_state [OF c op2]
  then have log3: "reg_writes (usb_log j3) =
      reg_writes (usb_log j) @ [(OC_I2C_TXR, push_bit 1 chip), (OC_I2C_CR, ?cmd)]"
    using log2 by simp
  have eq: "i2c_write_script chip data = [(OC_I2C_TXR, push_bit 1 chip), (OC_I2C_CR, ?cmd)] @ data_script data"
    by (simp add: i2c_write_script_def)
  have run1: "joker_i2c_write dev j chip data = (if r \<noteq> 0 then (r, j3) else i2c_write_loop dev j3 b data)"
  proof (cases "data = []")
    case True
    with w c show ?thesis by (simp add: joker_i2c_write_def Let_def)
  next
    case False
    with w c show ?thesis by (simp add: joker_i2c_write_def Let_def)
  qed
  show ?thesis
  proof (cases "r = 0")
    case True
    with run run1 st have "emits j3 j' (data_script data) ret"
      by (intro i2c_write_loop_emits [OF ok]) auto
    from emits_step [OF log3 this] show ?thesis by (simp only: eq)
  next
    case False
    with run run1 have "ret = r" "j' = j3" by simp_all
    with emits_fail [OF _ log3 False] st show ?thesis by (simp only: eq)
  qed
qed

lemma i2c_read_loop_emits:
  "usb_ok dev \<Longrightarrow> io_mux_opaq j \<Longrightarrow> i2c_read_loop dev j buf data i n = (ret, d, j') \<Longrightarrow>
     emits j j' (read_script n) ret \<and> length d = length data"
proof (induction n arbitrary: j buf data i)
  case 0
  then show ?case by (auto intro: emits_refl)
next
  case (Suc n)
  let ?cmd = "if n = 0 then OC_I2C_READ OR (OC_I2C_STOP OR OC_I2C_NACK) else OC_I2C_READ"
  define j1 where "j1 = snd (joker_i2c_write_cmd dev j OC_I2C_CR ?cmd)"
  have w: "joker_i2c_write_cmd dev j OC_I2C_CR ?cmd = (0, j1)"
    by (simp add: j1_def prod_eq_iff write_cmd_state)
  have op1: "io_mux_opaq j1" and
    log1: "reg_writes (usb_log j1) = reg_writes (usb_log j) @ [(OC_I2C_CR, ?cmd)]"
    using Suc.prems(1,2) by (simp_all add: j1_def write_cmd_state)
  obtain r b j2 where c: "joker_i2c_read_cycle dev j1 buf False = (r, b, j2)"
    by (metis prod_cases3)
  note st = read_cycle_state [OF c op1]
  obtain x j3 where x: "joker_i2c_read_cmd dev j2 OC_I2C_RXR (data ! i) = (0, x, j3)"
    by (metis read_cmd_state(1) prod.collapse)
  have op3: "io_mux_opaq j3" and log3: "reg_writes (usb_log j3) = reg_writes (usb_log j) @ [(OC_I2C_CR, ?cmd)]"
    using read_cmd_state(2,3) [where dev = dev and j = j2 and r = OC_I2C_RXR and x = "data ! i"] x st log1
    by simp_all
  have eq: "read_script (Suc n) = [(OC_I2C_CR, ?cmd)] @ read_script n"
    by simp
  show ?case
  proof (cases "r = 0")
    case True
    with Suc.prems(3) w c x have "i2c_read_loop dev j3 b (data[i := x]) (Suc i) n = (ret, d, j')"
      by (simp add: Let_def)
    with Suc.IH [OF Suc.prems(1)] op3 have "emits j3 j' (read_script n) ret \<and> length d = length (data[i := x])" by blast
    with emits_step [OF log3] show ?thesis by (simp only: eq length_list_update)
  next
    case False
    with Suc.prems(3) w c have "ret = r" "j' = j2" "d = data"
      by (simp_all add: Let_def)
    moreover have "reg_writes (usb_log j2) = reg_writes (usb_log j) @ [(OC_I2C_CR, ?cmd)]"
      using st log1 by simp
    then have "emits j j2 ([(OC_I2C_CR, ?cmd)] @ read_script n) r"
      by (rule emits_fail [OF _ _ False, rotated]) (use st in blast)
    ultimately show ?thesis by (simp only: eq)
  qed
qed

lemma i2c_read_emits:
  assumes ok: "usb_ok dev" and op: "io_mux_opaq j" and run: "joker_i2c_read dev j chip data = (ret, d, j')"
  shows "emits j j' (i2c_read_script chip (length data)) ret \<and> length d = length data"
proof -
  let ?cmd = "if data = [] then (OC_I2C_START OR OC_I2C_WRITE) OR OC_I2C_STOP
              else OC_I2C_START OR OC_I2C_WRITE"
  let ?a = "push_bit 1 chip OR 1"
  define j1 where "j1 = snd (joker_i2c_write_cmd dev j OC_I2C_TXR ?a)"
  define j2 where "j2 = snd (joker_i2c_write_cmd dev j1 OC_I2C_CR ?cmd)"
  have w: "joker_i2c_write_cmd dev j OC_I2C_TXR ?a = (0, j1)"
    "joker_i2c_write_cmd dev j1 OC_I2C_CR ?cmd = (0, j2)"
    by (simp_all add: j1_def j2_def prod_eq_iff write_cmd_state)
  have op2: "io_mux_opaq j2" and
    log2: "reg_writes (usb_log j2) = reg_writes (usb_log j) @ [(OC_I2C_TXR, ?a), (OC_I2C_CR, ?cmd)]"
    using ok op by (simp_all add: j1_def j2_def write_cmd_state)
  obtain r b j3 where c: "joker_i2c_read_cycle dev j2 (undef_bytes dev (dev_st j) 0) True = (r, b, j3)"
    by (metis prod_cases3)
  note st = read_cycle_state [OF c op2]
  then have log3: "reg_writes (usb_log j3) =
      reg_writes (usb_log j) @ [(OC_I2C_TXR, ?a), (OC_I2C_CR, ?cmd)]"
    using log2 by simp
  have eq: "i2c_read_script chip (length data) = [(OC_I2C_TXR, ?a), (OC_I2C_CR, ?cmd)] @ read_script (length data)"
    by (simp add: i2c_read_script_def)
  have run1: "joker_i2c_read dev j chip data =
      (if r \<noteq> 0 then (r, data, j3) else i2c_read_loop dev j3 b data 0 (length data))"
  proof (cases "data = []")
    case True
    with w c show ?thesis by (simp add: joker_i2c_read_def Let_def)
  next
    case False
    with w c show ?thesis by (simp add: joker_i2c_read_def Let_def)
  qed
  show ?thesis
  proof (cases "r = 0")
    case True
    with run run1 st have "emits j3 j' (read_script (length data)) ret \<and> length d = length data"
      by (intro i2c_read_loop_emits [OF ok]) auto
    with emits_step [OF log3] show ?thesis by (simp only: eq)
  next
    case False
    with run run1 have "ret = r" "j' = j3" "d = data" by simp_all
    with emits_fail [OF _ log3 False] st show ?thesis by (simp only: eq)
  qed
qed

lemma emits_ok: "emits j j' script 0 \<Longrightarrow> reg_writes (usb_log j') = reg_writes (usb_log j) @ script"
  by (auto simp: emits_def)

section \<open>Properties\<close>

text \<open>C18 (i2c_write_transaction): on a device that takes every command, a \<open>joker_i2c_write\<close> that returns 0 has put
  exactly the transaction Start/chip, data[0], ..., data[n]/Stop on the register interface: the address byte with the
  write bit, one transmit-and-go per byte, and the stop bit with the last byte (or with the
  address when there is no data). The condition on the device is needed: the register helpers
  return 0 also for a command that did not get through.\<close>

theorem i2c_write_transaction:
  assumes "usb_ok dev" and "io_mux_opaq j" and "fst (joker_i2c_write dev j chip data) = 0"
  shows "reg_writes (usb_log (snd (joker_i2c_write dev j chip data))) =
           reg_writes (usb_log j) @ i2c_write_script chip data"
proof -
  obtain j' where "joker_i2c_write dev j chip data = (0, j')"
    using assms(3) by (metis prod.collapse)
  with i2c_write_emits [OF assms(1,2)] show ?thesis by (simp add: emits_ok)
qed

theorem i2c_write_transaction_witness:
  "fst (joker_i2c_write quiet_dev quiet_joker 0x50 [0x12, 0x34]) = 0 \<and>
   reg_writes (usb_log (snd (joker_i2c_write quiet_dev quiet_joker 0x50 [0x12, 0x34]))) =
     [(3, 0xA0), (4, 0x90), (3, 0x12), (4, 0x10), (3, 0x34), (4, 0x50)]"
proof -
  have op: "io_mux_opaq quiet_joker" by (simp add: quiet_joker_def)
  have ok: "fst (joker_i2c_write quiet_dev quiet_joker 0x50 [0x12, 0x34]) = 0"
    by (simp add: quiet_eval joker_i2c_write_def joker_i2c_write_cmd_def joker_i2c_read_cycle_def
        joker_i2c_read_cmd_def i2c_poll_loop.simps joker_io_def put_bytes_def stack_buf_def)
  from i2c_write_transaction [OF quiet_usb_ok op ok] ok show ?thesis
    by (simp add: quiet_joker_def i2c_write_script_def)
qed

text \<open>C19 (i2c_read_transaction): on a device that takes every command, a \<open>joker_i2c_read\<close> that returns 0
  has put the read transaction on the register interface (address with the read bit, one read command per
  byte, the last one with stop and nack), and the buffer it leaves has the length the caller asked for.\<close>

theorem i2c_read_transaction:
  assumes "usb_ok dev" and "io_mux_opaq j" and "joker_i2c_read dev j chip data = (0, d, j')"
  shows "reg_writes (usb_log j') = reg_writes (usb_log j) @ i2c_read_script chip (length data)
    \<and> length d = length data"
  using i2c_read_emits [OF assms] by (auto simp: emits_ok)

theorem i2c_read_transaction_witness:
  "\<exists>d j'. joker_i2c_read quiet_dev quiet_joker 0x50 [7, 7] = (0, d, j') \<and>
     reg_writes (usb_log j') = [(3, 0xA1), (4, 0x90), (4, 0x20), (4, 0x68)] \<and> length d = 2"
proof -
  have op: "io_mux_opaq quiet_joker" by (simp add: quiet_joker_def)
  obtain d j' where run: "joker_i2c_read quiet_dev quiet_joker 0x50 [7, 7] = (0, d, j')"
    by (simp add: quiet_eval joker_i2c_read_def joker_i2c_write_cmd_def joker_i2c_read_cycle_def
        joker_i2c_read_cmd_def i2c_poll_loop.simps joker_io_def put_bytes_def stack_buf_def
        numeral_2_eq_2)
  from i2c_read_transaction [OF quiet_usb_ok op run] run show ?thesis
    by (auto simp: quiet_joker_def i2c_read_script_def numeral_2_eq_2)
qed

text \<open>i2c_read_cycle_bounded: \<open>joker_i2c_read_cycle\<close> polls the status register at most 500 times
  whatever the device answers, writes no register, returns 0, ENODEV or EIO, and returns 0 only
  for a status with no transaction in progress, no lost arbitration and, when asked for, an
  acknowledge.\<close>

theorem i2c_read_cycle_bounded:
  assumes "io_mux_opaq j" and "joker_i2c_read_cycle dev j buf chk = (ret, b, j')"
  shows "length (usb_log j') \<le> length (usb_log j) + 500
    \<and> reg_writes (usb_log j') = reg_writes (usb_log j)
    \<and> ret \<in> {0, ENODEV, EIO}
    \<and> (ret = 0 \<longrightarrow> b AND OC_I2C_TIP = 0 \<and> b AND OC_I2C_AL = 0 \<and> (chk \<longrightarrow> b AND OC_I2C_ACK = 0))"
  using read_cycle_state [OF assms(2) assms(1)] by blast

theorem i2c_read_cycle_bounded_witness:
  "\<exists>b j'. joker_i2c_read_cycle quiet_dev quiet_joker 0 True = (0, b, j') \<and>
     length (usb_log j') \<le> 500 \<and> b AND OC_I2C_ACK = 0"
proof -
  have op: "io_mux_opaq quiet_joker" by (simp add: quiet_joker_def)
  obtain b j' where run: "joker_i2c_read_cycle quiet_dev quiet_joker 0 True = (0, b, j')"
    by (simp add: quiet_eval joker_i2c_read_cycle_def joker_i2c_read_cmd_def i2c_poll_loop.simps
        joker_io_def put_bytes_def stack_buf_def numeral_2_eq_2)
  from i2c_read_cycle_bounded [OF op run] run show ?thesis
    by (auto simp: quiet_joker_def)
qed

text \<open>i2c_ping_dead_device: the return codes of the register helpers hide USB failures. On a device
  whose every bulk transfer fails, \<open>joker_i2c_ping\<close> reports an acknowledge for every chip
  address whenever the uninitialised status byte on its stack happens to be 0.\<close>

theorem i2c_ping_dead_device:
  assumes "\<And>ep b d. fst (bulk_out dev ep b d) < 0" and "undef_bytes dev (dev_st j) 0 = 0"
  shows "fst (joker_i2c_ping dev j chip) = 0"
proof -
  have io: "fst (joker_io dev s c) \<noteq> 0" for s :: "('a, 'b) joker_t_scheme" and c
    using assms(1) [of USB_EP2_OUT "take (jc_len c) (jc_buf c)" "dev_st s"]
    by (simp add: joker_io_def case_prod_beta Let_def)
  have rd: "fst (joker_i2c_read_cmd dev s r x) = 0 \<and> fst (snd (joker_i2c_read_cmd dev s r x)) = x"
    for s :: "('a, 'b) joker_t_scheme" and r x
    by (rule read_cmd_failed) (rule io)
  have "fst (i2c_poll_loop dev s 0 1000) = None \<and> fst (snd (i2c_poll_loop dev s 0 1000)) = 0
      \<and> fst (snd (snd (i2c_poll_loop dev s 0 1000))) = 999"
    for s :: "('a, 'b) joker_t_scheme"
    using rd [of s OC_I2C_SR 0] by (simp add: i2c_poll_loop.simps [of dev s 0 1000] case_prod_beta)
  then have "fst (joker_i2c_read_cycle dev s 0 True) = 0" for s :: "('a, 'b) joker_t_scheme"
    by (simp add: joker_i2c_read_cycle_def case_prod_beta)
  then show ?thesis
    by (simp add: joker_i2c_ping_def case_prod_beta Let_def write_cmd_state assms(2))
qed

theorem i2c_ping_dead_device_witness:
  "(\<forall>ep b. fst (bulk_out dead_dev ep b ()) = - 7) \<and> fst (joker_i2c_ping dead_dev quiet_joker 0x42) = 0"
proof -
  have "fst (joker_i2c_ping dead_dev quiet_joker 0x42) = 0"
    by (rule i2c_ping_dead_device) (simp_all add: dead_dev_def)
  then show ?thesis by (simp add: dead_dev_def)
qed

end
