(* ===== verification/TsFilter.thy ===== *)
theory TsFilter
  imports I2c
begin

text \<open>
  \<open>src/joker_ts_filter.c\<close> (PID filter commands) and the reset and FIFO commands of
  \<open>src/joker_utils.c\<close>. A C \<open>int\<close> that is only shifted and masked is an \<open>int\<close> with the bit
  operations of HOL, which are two's complement like the code's.
\<close>

section \<open>PID filter commands\<close>

definition pid_hi :: "int \<Rightarrow> byte" where
  "pid_hi pid = word_of_int (drop_bit 8 pid AND 0x1f)"

definition pid_lo :: "int \<Rightarrow> byte" where
  "pid_lo pid = word_of_int (pid AND 0xff)"

definition ts_filter_one_buf :: "bool \<Rightarrow> int \<Rightarrow> byte list" where
  "ts_filter_one_buf block pid =
     [J_CMD_TS_FILTER, if block then 0x3 else 0x2, pid_hi pid, pid_lo pid]"

definition ts_filter_one ::
  "'d usb_dev \<Rightarrow> ('d, 'z) joker_t_scheme \<Rightarrow> bool \<Rightarrow> int \<Rightarrow> int \<times> ('d, 'z) joker_t_scheme" where
  "ts_filter_one dev j block pid =
     (let (ret, j) = joker_cmd0 dev j (ts_filter_one_buf block pid)
      in if ret \<noteq> 0 then (ret, j) else (0, j))"

definition ts_filter_all_buf :: "bool \<Rightarrow> byte list" where
  "ts_filter_all_buf block = [J_CMD_TS_FILTER, if block then 0x1 else 0x0]"

definition ts_filter_all ::
  "'d usb_dev \<Rightarrow> ('d, 'z) joker_t_scheme \<Rightarrow> bool \<Rightarrow> int \<times> ('d, 'z) joker_t_scheme" where
  "ts_filter_all dev j block =
     (let (ret, j) = joker_cmd0 dev j (ts_filter_all_buf block)
      in if ret \<noteq> 0 then (ret, j) else (0, j))"

text \<open>The \<open>for\<close> loop over the service PIDs, one list element per iteration.\<close>

fun unblock_pids ::
  "'d usb_dev \<Rightarrow> ('d, 'z) joker_t_scheme \<Rightarrow> int list \<Rightarrow> int \<times> ('d, 'z) joker_t_scheme" where
  "unblock_pids dev j [] = (0, j)"
| "unblock_pids dev j (i # is) =
     (let (ret, j) = ts_filter_one dev j False i
      in if ret \<noteq> 0 then (- EIO, j) else unblock_pids dev j is)"

definition ts_filter_only_service_pids ::
  "'d usb_dev \<Rightarrow> ('d, 'z) joker_t_scheme \<Rightarrow> int \<times> ('d, 'z) joker_t_scheme" where
  "ts_filter_only_service_pids dev j =
     (let (ret, j) = ts_filter_all dev j True
      in if ret \<noteq> 0 then (- EIO, j)
         else
           let (ret, j) = unblock_pids dev j (map int [0..<0x20])
           in if ret \<noteq> 0 then (ret, j)
              else
                let (ret, j) = ts_filter_one dev j False 0x1FFB
                in if ret \<noteq> 0 then (- EIO, j) else (0, j))"

section \<open>What the filter commands mean\<close>

text \<open>
  The contract in the comments of the code: operation 1 blocks every PID, 0 allows every
  PID, 3 blocks and 2 allows the PID in the two bytes that follow. The state is the
  predicate of the PIDs that pass.
\<close>

definition cmd_pid :: "byte \<Rightarrow> byte \<Rightarrow> nat" where
  "cmd_pid hi lo = unat hi * 256 + unat lo"

fun filter_step :: "byte list \<Rightarrow> (nat \<Rightarrow> bool) \<Rightarrow> (nat \<Rightarrow> bool)" where
  "filter_step [c, oper] f =
     (if c \<noteq> J_CMD_TS_FILTER then f
      else if oper = 1 then (\<lambda>_. False) else if oper = 0 then (\<lambda>_. True) else f)"
| "filter_step [c, oper, hi, lo] f =
     (if c \<noteq> J_CMD_TS_FILTER then f
      else if oper = 3 then f(cmd_pid hi lo := False)
      else if oper = 2 then f(cmd_pid hi lo := True) else f)"
| "filter_step _ f = f"

definition filter_run :: "byte list list \<Rightarrow> (nat \<Rightarrow> bool) \<Rightarrow> (nat \<Rightarrow> bool)" where
  "filter_run cs f = fold filter_step cs f"

lemma filter_run_simps [simp]:
  "filter_run [] f = f"
  "filter_run (c # cs) f = filter_run cs (filter_step c f)"
  "filter_run (cs @ ds) f = filter_run ds (filter_run cs f)"
  by (simp_all add: filter_run_def)

lemma cmd_pid_roundtrip:
  assumes "0 \<le> pid" and "pid < 8192"
  shows "int (cmd_pid (pid_hi pid) (pid_lo pid)) = pid"
proof -
  have hi: "drop_bit 8 pid AND 0x1f = pid div 256"
  proof -
    have "drop_bit 8 pid AND 0x1f = take_bit 5 (pid div 256)"
      by (simp add: take_bit_eq_mask drop_bit_eq_div mask_eq_exp_minus_1)
    also have "\<dots> = pid div 256"
      using assms by (simp add: take_bit_eq_mod)
    finally show ?thesis .
  qed
  have lo: "pid AND 0xff = pid mod 256"
    using take_bit_eq_mask [of 8 pid] by (simp add: take_bit_eq_mod mask_eq_exp_minus_1)
  have "uint (pid_hi pid) = pid div 256"
    using assms by (simp add: pid_hi_def hi uint_word_of_int)
  moreover have "uint (pid_lo pid) = pid mod 256"
    by (simp add: pid_lo_def lo uint_word_of_int)
  ultimately show ?thesis
    by (simp add: cmd_pid_def)
qed

lemma cmd_pid_nat: "n < 8192 \<Longrightarrow> cmd_pid (pid_hi (int n)) (pid_lo (int n)) = n"
  using cmd_pid_roundtrip [of "int n"] by simp

lemma filter_step_one [simp]:
  "n < 8192 \<Longrightarrow> filter_step (ts_filter_one_buf block (int n)) f = f(n := \<not> block)"
  by (simp add: ts_filter_one_buf_def cmd_pid_nat)

lemma filter_step_all [simp]:
  "filter_step (ts_filter_all_buf block) f = (\<lambda>_. \<not> block)"
  by (auto simp: ts_filter_all_buf_def)

text \<open>The script of \<open>ts_filter_only_service_pids\<close>, and its meaning.\<close>

definition service_script :: "byte list list" where
  "service_script =
     ts_filter_all_buf True #
     map (ts_filter_one_buf False) (map int [0..<0x20] @ [0x1FFB])"

definition service_pid :: "nat \<Rightarrow> bool" where
  "service_pid n \<longleftrightarrow> n \<le> 0x1F \<or> n = 0x1FFB"

lemma filter_run_unblock:
  "(\<forall>n\<in>set ns. n < 8192) \<Longrightarrow>
     filter_run (map (ts_filter_one_buf False) (map int ns)) f = (\<lambda>n. n \<in> set ns \<or> f n)"
  by (induction ns arbitrary: f) (auto simp: fun_eq_iff)

lemma service_script_eq:
  "service_script =
     ts_filter_all_buf True # map (ts_filter_one_buf False) (map int ([0..<0x20] @ [0x1FFB]))"
  by (simp add: service_script_def)

lemma filter_run_service_prefix:
  "0 < n \<Longrightarrow> filter_run (take n service_script) f = (\<lambda>p. p \<in> set (take (n - 1) ([0..<0x20] @ [0x1FFB])))"
proof (cases n)
  case (Suc m)
  have "\<forall>p\<in>set (take m ([0..<0x20] @ [0x1FFB])). p < (8192::nat)"
  proof
    fix p assume "p \<in> set (take m ([0..<0x20] @ [0x1FFB::nat]))"
    then have "p \<in> set ([0..<0x20] @ [0x1FFB::nat])" by (rule in_set_takeD)
    then show "p < 8192" by auto
  qed
  from filter_run_unblock [OF this, of "\<lambda>_. False"] Suc show ?thesis
    by (simp only: service_script_eq take_Suc_Cons take_map filter_run_simps filter_step_all) simp
qed simp

lemma service_set: "set ([0..<0x20] @ [0x1FFB]) = {n. service_pid n}"
  by (auto simp: service_pid_def)

lemma length_service_script: "length service_script = 34"
  by (simp add: service_script_def)

lemma filter_run_service: "filter_run service_script f = service_pid"
proof -
  have "filter_run service_script f
      = (\<lambda>p. p \<in> set (take 33 ([0..<0x20] @ [0x1FFB])))"
    using filter_run_service_prefix [of 34 f] by (simp add: length_service_script)
  also have "take 33 ([0..<0x20] @ [0x1FFB]) = [0..<0x20] @ [0x1FFB::nat]"
    by simp
  finally show ?thesis by (simp only: service_set mem_Collect_eq)
qed

section \<open>The code follows the script\<close>

lemma ts_filter_one_eq: "ts_filter_one dev j block pid = joker_cmd0 dev j (ts_filter_one_buf block pid)"
  by (simp add: ts_filter_one_def case_prod_beta prod_eq_iff)

lemma ts_filter_all_eq: "ts_filter_all dev j block = joker_cmd0 dev j (ts_filter_all_buf block)"
  by (simp add: ts_filter_all_def case_prod_beta prod_eq_iff)

definition to_eio :: "int \<times> 's \<Rightarrow> int \<times> 's" where
  "to_eio r = (if fst r = 0 then 0 else - EIO, snd r)"

lemma unblock_pids_seq:
  "unblock_pids dev j ps = to_eio (send_seq (joker_cmd0 dev) (map (ts_filter_one_buf False) ps) j)"
  by (induction ps arbitrary: j) (auto simp: to_eio_def ts_filter_one_eq case_prod_beta)

lemma only_service_pids_seq:
  "ts_filter_only_service_pids dev j = to_eio (send_seq (joker_cmd0 dev) service_script j)"
  unfolding service_script_def ts_filter_only_service_pids_def
  by (simp add: unblock_pids_seq send_seq_append ts_filter_one_eq ts_filter_all_eq to_eio_def
      case_prod_beta del: upt_rec_numeral)

lemma only_service_pids_frame [frame_simps]:
  "io_mux_opaq (snd (ts_filter_only_service_pids dev j)) = io_mux_opaq j"
  by (simp add: only_service_pids_seq to_eio_def cmdch.seq_ready)

section \<open>Reset control and FIFO commands\<close>

text \<open>
  \<open>struct joker_t\<close> with the reset register. \<open>joker_reset\<close> and \<open>joker_unreset\<close> have no
  \<open>return\<close> on their success path: the result there is \<open>None\<close>.
\<close>

record 'd joker_ctl = "'d joker_i2c" +
  reset :: int

definition joker_clean_ts ::
  "'d usb_dev \<Rightarrow> ('d, 'z) joker_t_scheme \<Rightarrow> int \<times> ('d, 'z) joker_t_scheme" where
  "joker_clean_ts dev j =
     (let (ret, j) = joker_cmd0 dev j [J_CMD_CLEAR_TS_FIFO]
      in if ret \<noteq> 0 then (ret, j) else (0, j))"

definition joker_reset_write ::
  "'d usb_dev \<Rightarrow> ('d, 'z) joker_ctl_scheme \<Rightarrow> int \<times> ('d, 'z) joker_ctl_scheme" where
  "joker_reset_write dev j =
     (let (ret, j) = joker_cmd0 dev j [J_CMD_RESET_CTRL_WRITE, word_of_int (reset j)]
      in if ret \<noteq> 0 then (ret, j) else (0, j))"

definition joker_reset ::
  "'d usb_dev \<Rightarrow> ('d, 'z) joker_ctl_scheme \<Rightarrow> int \<Rightarrow> int option \<times> ('d, 'z) joker_ctl_scheme" where
  "joker_reset dev j msk =
     (let j = j\<lparr>reset := reset j OR msk\<rparr>;
          (ret, j) = joker_reset_write dev j
      in if ret \<noteq> 0 then (Some (- EIO), j) else (None, j))"

definition joker_unreset ::
  "'d usb_dev \<Rightarrow> ('d, 'z) joker_ctl_scheme \<Rightarrow> int \<Rightarrow> int option \<times> ('d, 'z) joker_ctl_scheme" where
  "joker_unreset dev j msk =
     (let j = j\<lparr>reset := reset j AND NOT msk\<rparr>;
          (ret, j) = joker_reset_write dev j
      in if ret \<noteq> 0 then (Some (- EIO), j) else (None, j))"

lemma joker_cmd0_reset [frame_simps]: "reset (snd (joker_cmd0 dev j b)) = reset j"
  by (simp add: joker_cmd0_def joker_cmd_def joker_io_def Let_def split: prod.split)

lemma joker_reset_write_eq:
  "joker_reset_write dev j = joker_cmd0 dev j [J_CMD_RESET_CTRL_WRITE, word_of_int (reset j)]"
  by (simp add: joker_reset_write_def case_prod_beta prod_eq_iff)

lemma joker_reset_state:
  "reset (snd (joker_reset dev j m)) = reset j OR m"
  "fst (joker_reset dev j m) = None \<Longrightarrow> usb_log (snd (joker_reset dev j m)) =
     usb_log j @ [[J_CMD_RESET_CTRL_WRITE, word_of_int (reset j OR m)]]"
  by (auto simp: joker_reset_def joker_reset_write_eq case_prod_beta Let_def frame_simps log_simps split: if_splits)

lemma joker_unreset_state:
  "reset (snd (joker_unreset dev j m)) = reset j AND NOT m"
  "fst (joker_unreset dev j m) = None \<Longrightarrow> usb_log (snd (joker_unreset dev j m)) =
     usb_log j @ [[J_CMD_RESET_CTRL_WRITE, word_of_int (reset j AND NOT m)]]"
  by (auto simp: joker_unreset_def joker_reset_write_eq case_prod_beta Let_def frame_simps log_simps split: if_splits)

lemma joker_reset_open [frame_simps]:
  "io_mux_opaq (snd (joker_reset dev j m)) = io_mux_opaq j"
  "io_mux_opaq (snd (joker_unreset dev j m)) = io_mux_opaq j"
  by (simp_all add: joker_reset_def joker_unreset_def joker_reset_write_eq case_prod_beta Let_def frame_simps)

section \<open>Properties\<close>

text \<open>service_pids_allowed: when \<open>ts_filter_only_service_pids\<close> returns 0, the commands it sent
  leave exactly the service PIDs 0x00..0x1F and 0x1FFB open, whatever passed before.\<close>

theorem service_pids_allowed:
  assumes "fst (ts_filter_only_service_pids dev j) = 0"
  shows "\<exists>cs. usb_log (snd (ts_filter_only_service_pids dev j)) = usb_log j @ cs
           \<and> filter_run cs f = service_pid"
proof -
  from assms have "fst (send_seq (joker_cmd0 dev) service_script j) = 0"
    by (simp add: only_service_pids_seq to_eio_def split: if_splits)
  from cmdch.seq_ok_sent [OF this] show ?thesis
    by (auto simp: only_service_pids_seq to_eio_def filter_run_service)
qed

theorem service_pids_allowed_witness:
  "fst (ts_filter_only_service_pids quiet_dev quiet_joker) = 0 \<and>
   (\<exists>cs. usb_log (snd (ts_filter_only_service_pids quiet_dev quiet_joker)) = cs
      \<and> filter_run cs (\<lambda>_. True) 0x1FFB \<and> \<not> filter_run cs (\<lambda>_. True) 0x100)"
proof -
  have "fst (joker_cmd0 quiet_dev s c) = 0" if "io_mux_opaq s" for s :: "unit joker_t" and c
    using that by (simp add: joker_cmd0_def joker_cmd_def joker_io_def quiet_dev_def)
  then have ok: "fst (ts_filter_only_service_pids quiet_dev quiet_joker) = 0"
    using cmdch.seq_ok_iff_ready_all [where dev = quiet_dev and s = quiet_joker]
    by (simp add: only_service_pids_seq to_eio_def quiet_joker_def)
  obtain cs where "usb_log (snd (ts_filter_only_service_pids quiet_dev quiet_joker)) = cs"
    "filter_run cs (\<lambda>_. True) = service_pid"
    using service_pids_allowed [OF ok, where f = "\<lambda>_. True"] by (auto simp: quiet_joker_def)
  with ok show ?thesis by (auto simp: service_pid_def)
qed

lemma only_service_pids_sent:
  "\<exists>n \<le> length service_script. usb_log (snd (ts_filter_only_service_pids dev j)) = usb_log j @ take n service_script
     \<and> (fst (ts_filter_only_service_pids dev j) = 0 \<longrightarrow> n = length service_script)
     \<and> fst (ts_filter_only_service_pids dev j) \<in> {0, - EIO}"
  using cmdch.seq_sent_prefix [of service_script dev j]
  by (auto simp: only_service_pids_seq to_eio_def)

lemma filter_run_service_closed:
  "filter_run (take n service_script) f p \<Longrightarrow> service_pid p \<or> n = 0 \<and> f p"
proof (cases "n = 0")
  case False
  assume "filter_run (take n service_script) f p"
  with False have "p \<in> set (take (n - 1) ([0..<0x20] @ [0x1FFB]))"
    by (simp only: filter_run_service_prefix neq0_conv)
  then have "p \<in> set ([0..<0x20] @ [0x1FFB])" by (rule in_set_takeD)
  then show ?thesis by (simp only: service_set mem_Collect_eq simp_thms)
qed simp

text \<open>C1 (service_pids_fail_closed): whatever the device does, \<open>ts_filter_only_service_pids\<close> returns 0 or -EIO and
  opens no PID outside of the service set. The commands that got through are a prefix of its script, the
  one that blocks everything first. If it got through, which it did when the result is 0, only service PIDs
  can pass afterwards, wherever the call stopped; if not, nothing got through and the filter is as before. The
  same holds if the command whose transfer was reported as failed did reach the device.\<close>

theorem service_pids_fail_closed:
  "fst (ts_filter_only_service_pids dev j) \<in> {0, - EIO} \<and>
    (\<exists>n \<le> length service_script. usb_log (snd (ts_filter_only_service_pids dev j)) = usb_log j @ take n service_script
       \<and> (fst (ts_filter_only_service_pids dev j) = 0 \<longrightarrow> n = length service_script \<and> filter_run (take n service_script) f = service_pid)
       \<and> (\<forall>p. filter_run (take n service_script) f p \<longrightarrow> service_pid p \<or> n = 0 \<and> f p)
       \<and> (\<forall>p. filter_run (take (Suc n) service_script) f p \<longrightarrow> service_pid p))"
proof -
  obtain n where n: "n \<le> length service_script"
    "usb_log (snd (ts_filter_only_service_pids dev j)) = usb_log j @ take n service_script"
    "fst (ts_filter_only_service_pids dev j) = 0 \<longrightarrow> n = length service_script"
    "fst (ts_filter_only_service_pids dev j) \<in> {0, - EIO}"
    using only_service_pids_sent by blast
  have "\<forall>p. filter_run (take n service_script) f p \<longrightarrow> service_pid p \<or> n = 0 \<and> f p"
    using filter_run_service_closed by blast
  moreover have "\<forall>p. filter_run (take (Suc n) service_script) f p \<longrightarrow> service_pid p"
    using filter_run_service_closed by blast
  ultimately show ?thesis using n filter_run_service by (intro conjI exI [of _ n]) simp_all
qed

text \<open>On a device that takes three commands and then fails: the call stops, and PID 0x100 no longer passes.\<close>

definition three_dev :: "nat usb_dev" where
  "three_dev = \<lparr>bulk_out = (\<lambda>_ b d. if d < 3 then (0, length b, d + 1) else (- 7, 0, d)),
                bulk_in = (\<lambda>_ n d. (- 7, [], d)), undef_bytes = (\<lambda>_ _. 0)\<rparr>"

definition three_joker :: "nat joker_t" where
  "three_joker = \<lparr>dev_st = 0, usb_log = [], libusb_opaque = True, io_mux_opaq = True\<rparr>"

theorem service_pids_fail_closed_witness:
  "fst (ts_filter_only_service_pids three_dev three_joker) = - EIO
   \<and> length (usb_log (snd (ts_filter_only_service_pids three_dev three_joker))) = 3
   \<and> \<not> filter_run (usb_log (snd (ts_filter_only_service_pids three_dev three_joker))) (\<lambda>_. True) 0x100"
proof -
  have sc: "service_script = ts_filter_all_buf True # ts_filter_one_buf False 0 # ts_filter_one_buf False 1
      # ts_filter_one_buf False 2 # drop 4 service_script"
    by (simp add: service_script_def upt_rec)
  have cmd: "joker_cmd0 three_dev k b = (if dev_st k < 3 then (0, k\<lparr>dev_st := dev_st k + 1, usb_log := usb_log k @ [b]\<rparr>) else (- EIO, k))"
    if "io_mux_opaq k" for k :: "nat joker_t" and b
    using that by (simp add: joker_cmd0_def joker_cmd_def joker_io_def three_dev_def Let_def)
  have run: "fst (ts_filter_only_service_pids three_dev three_joker) = - EIO"
    "length (usb_log (snd (ts_filter_only_service_pids three_dev three_joker))) = 3"
    by (subst only_service_pids_seq, subst sc, simp add: cmd three_joker_def to_eio_def)+
  obtain n where n: "usb_log (snd (ts_filter_only_service_pids three_dev three_joker)) = take n service_script" "n \<le> 34"
    "\<forall>p. filter_run (take n service_script) (\<lambda>_. True) p \<longrightarrow> service_pid p \<or> n = 0"
    using service_pids_fail_closed [of three_dev three_joker "\<lambda>_. True"]
    by (auto simp: three_joker_def length_service_script)
  then have "n \<noteq> 0" using run(2) by auto
  then show ?thesis using run n by (auto simp: service_pid_def)
qed

text \<open>filter_one_roundtrip: the PID in a filter command comes back from its two bytes for every
  13-bit PID, so blocking or allowing one PID changes that PID and no other.\<close>

theorem filter_one_roundtrip:
  assumes "p < 8192"
  shows "filter_step (ts_filter_one_buf block (int p)) f = f(p := \<not> block)"
  by (rule filter_step_one) (rule assms)

theorem filter_one_roundtrip_witness:
  "filter_step (ts_filter_one_buf True 0x1FFB) (\<lambda>_. True) = (\<lambda>_. True)(0x1FFB := False)"
  using filter_one_roundtrip [where p = "0x1FFB" and block = True and f = "\<lambda>_. True"] by simp

text \<open>reset_then_unreset: the reset register tracks the two calls: a chip put into reset and woken
  up again is out of reset, no other chip of the register changes by the second call, and the
  value written to the FPGA by a call that succeeds is the low byte of the register.\<close>

theorem reset_then_unreset:
  "reset (snd (joker_unreset dev (snd (joker_reset dev j m)) m)) = reset j AND NOT m
   \<and> (fst (joker_reset dev j m) = None \<longrightarrow> fst (joker_unreset dev (snd (joker_reset dev j m)) m) = None \<longrightarrow>
        usb_log (snd (joker_unreset dev (snd (joker_reset dev j m)) m)) =
          usb_log j @ [[J_CMD_RESET_CTRL_WRITE, word_of_int (reset j OR m)],
                       [J_CMD_RESET_CTRL_WRITE, word_of_int (reset j AND NOT m)]])"
proof -
  have "(reset j OR m) AND NOT m = reset j AND NOT m"
    by (rule bit_eqI) (auto simp: bit_simps)
  then show ?thesis
    by (simp add: joker_reset_state joker_unreset_state)
qed

definition quiet_ctl :: "unit joker_ctl" where
  "quiet_ctl = \<lparr>dev_st = (), usb_log = [], libusb_opaque = True, io_mux_opaq = True, i2c_opaque = True, reset = 0xFF\<rparr>"

theorem reset_then_unreset_witness:
  "reset (snd (joker_unreset quiet_dev (snd (joker_reset quiet_dev quiet_ctl 0x81)) 0x81)) = 0x7E"
  using reset_then_unreset [where dev = quiet_dev and m = "0x81" and j = quiet_ctl]
  by (simp add: quiet_ctl_def)

end
