(* ===== verification/TsPool.thy ===== *)
theory TsPool
  imports Prelude
begin

text \<open>
  \<open>src/u_drv_data.c\<close>, the receiving side: the pool of Transport Stream nodes, the search for
  a packet start, the libusb callback that cuts isochronous packets into TS packets, and the
  thread that runs the PID hooks and keeps the stored nodes within the memory limit.
  A linked list of nodes is a HOL list (\<open>Klist\<close> shows that \<open>joker_list.h\<close> implements that).
  \<open>malloc\<close> is taken to succeed. Writes into a node's buffer are checked against its
  allocation, so an overflow is the value \<open>None\<close> and not a longer list.
\<close>

section \<open>Constants, nodes and the pool\<close>

abbreviation TS_SIZE :: nat where "TS_SIZE \<equiv> 188"
abbreviation TS_SYNC :: byte where "TS_SYNC \<equiv> 0x47"
abbreviation BIG_POOL_MAGIC :: u32 where "BIG_POOL_MAGIC \<equiv> 0xbb0000aa"
abbreviation TS_LIST_SIZE_DEFAULT :: int where "TS_LIST_SIZE_DEFAULT \<equiv> 134217728"
abbreviation NUM_USB_BUFS :: nat where "NUM_USB_BUFS \<equiv> 16"

text \<open>\<open>(pkt[1]&0x1f) << 8 | pkt[2]\<close>\<close>

definition ts_pid :: "byte \<Rightarrow> byte \<Rightarrow> nat" where
  "ts_pid b1 b2 = unat (push_bit 8 (ucast (b1 AND 0x1f)) OR ucast b2 :: u32)"

record ts_node =
  tn_counter :: int
  tn_data :: "byte list"
  tn_size :: nat
  tn_read_off :: nat
  tn_pat_replaced :: bool

text \<open>The functions \<open>joker_ts.c\<close> installs as hooks; the PMT hook's opaque pointer is a program.\<close>

datatype ts_hook = pat_hook | cat_hook | sdt_hook | atsc_hook | si_hook | pmt_hook

record big_pool_t =
  node_counter :: int
  hooks :: "nat \<Rightarrow> ts_hook option"
  hooks_opaque :: "nat \<Rightarrow> nat option"
  calls_count :: int
  pkt_count :: int
  pkt_count_complete :: int
  bytes :: int
  start_time :: int
  ts_list :: "ts_node list"
  ts_list_all :: "ts_node list"
  tail_size :: nat
  tail :: "byte list"
  cancel :: bool
  ts_list_size :: int
  ts_list_size_max :: int
  generated_pat_pkt :: "byte list option"
  pat_counter :: byte
  sdt_pkt_array :: "byte list option"
  sdt_count :: nat
  cur_sdt :: nat
  sdt_counter :: byte
  initialized :: u32
  threading :: bool
  transfers :: "nat \<Rightarrow> bool"

section \<open>Pool set-up\<close>

text \<open>
  The lists that belong to the PSI parser are initialised by the same function; they are
  fields of the record extension in \<open>Psi\<close>.
\<close>

definition pool_init :: "'z big_pool_t_scheme \<Rightarrow> int \<times> 'z big_pool_t_scheme" where
  "pool_init pool =
     (0, pool\<lparr>node_counter := 0, tail_size := 0, ts_list_size := 0,
        ts_list_size_max :=
          (if ts_list_size_max pool \<le> TS_LIST_SIZE_DEFAULT then TS_LIST_SIZE_DEFAULT
           else ts_list_size_max pool),
        ts_list := [], ts_list_all := [], threading := True,
        hooks := (\<lambda>_. None), hooks_opaque := (\<lambda>_. None), transfers := (\<lambda>_. False),
        initialized := BIG_POOL_MAGIC\<rparr>)"

text \<open>The success path of \<open>pool_uninit\<close> has no \<open>return\<close>: its result is \<open>None\<close>.\<close>

definition pool_uninit :: "'z big_pool_t_scheme \<Rightarrow> int option \<times> 'z big_pool_t_scheme" where
  "pool_uninit pool =
     (if initialized pool \<noteq> BIG_POOL_MAGIC then (Some (- EINVAL), pool)
      else (None, pool\<lparr>threading := False, initialized := 0\<rparr>))"

section \<open>Search for a packet start\<close>

function next_ts_off_loop :: "byte list \<Rightarrow> nat \<Rightarrow> nat \<Rightarrow> int" where
  "next_ts_off_loop buf len off =
     (if off \<le> len - TS_SIZE then
        if buf ! off = TS_SYNC \<and> off + TS_SIZE = len then int off
        else if buf ! off = TS_SYNC \<and> buf ! (off + TS_SIZE) = TS_SYNC then int off
        else next_ts_off_loop buf len (off + 1)
      else - 1)"
  by pat_completeness auto
termination
  by (relation "measure (\<lambda>(buf, len, off). Suc len - off)") auto

declare next_ts_off_loop.simps [simp del]

definition next_ts_off :: "byte list \<Rightarrow> nat \<Rightarrow> int" where
  "next_ts_off buf len = (if len < TS_SIZE then - 1 else next_ts_off_loop buf len 0)"

text \<open>What the loop looks for: a sync byte followed by another one a packet later, or by the end.\<close>

definition ts_start :: "byte list \<Rightarrow> nat \<Rightarrow> nat \<Rightarrow> bool" where
  "ts_start buf len off \<longleftrightarrow> off + TS_SIZE \<le> len \<and> buf ! off = TS_SYNC \<and>
     (off + TS_SIZE = len \<or> buf ! (off + TS_SIZE) = TS_SYNC)"

lemma next_ts_off_loop_spec:
  "TS_SIZE \<le> len \<Longrightarrow>
     (\<exists>k\<ge>off. next_ts_off_loop buf len off = int k \<and> ts_start buf len k
        \<and> (\<forall>i. off \<le> i \<and> i < k \<longrightarrow> \<not> ts_start buf len i))
     \<or> next_ts_off_loop buf len off = - 1 \<and> (\<forall>i\<ge>off. \<not> ts_start buf len i)"
proof (induction buf len off rule: next_ts_off_loop.induct)
  case (1 buf len off)
  note eq = next_ts_off_loop.simps [of buf len off]
  consider (out) "\<not> off \<le> len - TS_SIZE" | (hit) "off \<le> len - TS_SIZE" "ts_start buf len off"
    | (miss) "off \<le> len - TS_SIZE" "\<not> ts_start buf len off" by blast
  then show ?case
  proof cases
    case out
    then show ?thesis using 1(2) by (auto simp: eq ts_start_def)
  next
    case hit
    then have "next_ts_off_loop buf len off = int off" by (auto simp: eq ts_start_def)
    with hit show ?thesis by (intro disjI1 exI [of _ off]) auto
  next
    case miss
    then have ne: "\<not> (buf ! off = TS_SYNC \<and> off + TS_SIZE = len)"
      "\<not> (buf ! off = TS_SYNC \<and> buf ! (off + TS_SIZE) = TS_SYNC)"
      using 1(2) by (auto simp: ts_start_def)
    with miss have step: "next_ts_off_loop buf len off = next_ts_off_loop buf len (off + 1)"
      by (subst eq) (use miss(1) ne in auto)
    have later: "i = off \<or> off + 1 \<le> i" if "off \<le> i" for i using that by linarith
    from 1(1) [OF miss(1) ne 1(2)] show ?thesis
    proof
      assume "\<exists>k\<ge>off + 1. next_ts_off_loop buf len (off + 1) = int k \<and> ts_start buf len k
        \<and> (\<forall>i. off + 1 \<le> i \<and> i < k \<longrightarrow> \<not> ts_start buf len i)"
      then obtain k where "off + 1 \<le> k" "next_ts_off_loop buf len off = int k"
        "ts_start buf len k" "\<forall>i. off + 1 \<le> i \<and> i < k \<longrightarrow> \<not> ts_start buf len i"
        by (auto simp: step)
      then show ?thesis using later miss(2)
        by (intro disjI1 exI [of _ k]) (metis add_leD1)
    next
      assume "next_ts_off_loop buf len (off + 1) = - 1 \<and> (\<forall>i\<ge>off + 1. \<not> ts_start buf len i)"
      then show ?thesis using later miss(2) step by (intro disjI2) metis
    qed
  qed
qed

lemma next_ts_off_spec:
  "(\<exists>k. next_ts_off buf len = int k \<and> ts_start buf len k \<and> (\<forall>i<k. \<not> ts_start buf len i))
   \<or> next_ts_off buf len = - 1 \<and> (\<forall>i. \<not> ts_start buf len i)"
proof (cases "len < TS_SIZE")
  case True
  then show ?thesis by (auto simp: next_ts_off_def ts_start_def)
next
  case False
  with next_ts_off_loop_spec [of len 0 buf] show ?thesis
    by (auto simp: next_ts_off_def)
qed

section \<open>The isochronous callback\<close>

datatype xfer_status = XFER_COMPLETED | XFER_ERROR | XFER_TIMED_OUT | XFER_CANCELLED | XFER_STALL
  | XFER_NO_DEVICE | XFER_OVERFLOW

text \<open>
  One isochronous packet: its status, \<open>actual_length\<close>, and the content of its slot in the
  transfer buffer, which is longer than \<open>actual_length\<close> when the packet is short.
\<close>

record iso_packet =
  ip_status :: xfer_status
  ip_len :: nat
  ip_buf :: "byte list"

record usb_transfer =
  ut_user_data :: bool
  ut_status :: xfer_status
  ut_packets :: "iso_packet list"

text \<open>
  \<open>put_node alloc d xs\<close>: \<open>memcpy(node->data + off, xs)\<close> with \<open>off = node->size = length d\<close>.
  \<open>None\<close> is a write past the allocation of \<open>alloc\<close> bytes.
\<close>

definition put_node :: "nat \<Rightarrow> byte list \<Rightarrow> byte list \<Rightarrow> byte list option" where
  "put_node alloc d xs = (if length d + length xs \<le> alloc then Some (d @ xs) else None)"

text \<open>The body of the loop over the packets, from the pool and the bytes in the node so far.\<close>

definition iso_packet_step ::
  "nat \<Rightarrow> iso_packet \<Rightarrow> 'z big_pool_t_scheme \<times> byte list \<Rightarrow> ('z big_pool_t_scheme \<times> byte list) option" where
  "iso_packet_step alloc pkt s =
     (let (pool, d) = s;
          len = ip_len pkt;
          buf = ip_buf pkt;
          pool = pool\<lparr>pkt_count := pkt_count pool + 1\<rparr>
      in if ip_status pkt = XFER_COMPLETED \<and> len > 0 then
           let pool = pool\<lparr>pkt_count_complete := pkt_count_complete pool + 1,
                           bytes := bytes pool + int len\<rparr>;
               ts_off = (if buf ! (TS_SIZE - tail_size pool) = TS_SYNC
                         then int (TS_SIZE - tail_size pool) else next_ts_off buf len)
           in if ts_off < 0 then Some (pool, d)
              else
                let off = nat ts_off in
                case (if off + tail_size pool = TS_SIZE
                      then (case put_node alloc d (take (tail_size pool) (tail pool)) of
                              None \<Rightarrow> None
                            | Some d \<Rightarrow> put_node alloc d (take off buf))
                      else Some d) of
                  None \<Rightarrow> None
                | Some d \<Rightarrow>
                    let pool = pool\<lparr>tail_size := 0\<rparr>;
                        cnt = (len - off) div TS_SIZE
                    in case put_node alloc d (take (cnt * TS_SIZE) (drop off buf)) of
                         None \<Rightarrow> None
                       | Some d \<Rightarrow>
                           if off + cnt * TS_SIZE < len then
                             let n = len - (off + cnt * TS_SIZE)
                             in Some (pool\<lparr>tail_size := n,
                                  tail := put_bytes (tail pool) 0 (take n (drop (off + cnt * TS_SIZE) buf))\<rparr>, d)
                           else Some (pool, d)
         else Some (pool, d))"

fun iso_packets_loop ::
  "nat \<Rightarrow> iso_packet list \<Rightarrow> 'z big_pool_t_scheme \<times> byte list \<Rightarrow> ('z big_pool_t_scheme \<times> byte list) option" where
  "iso_packets_loop alloc [] s = Some s"
| "iso_packets_loop alloc (p # ps) s =
     (case iso_packet_step alloc p s of None \<Rightarrow> None | Some s \<Rightarrow> iso_packets_loop alloc ps s)"

definition iso_total_len :: "iso_packet list \<Rightarrow> nat" where
  "iso_total_len ps = sum_list (map (\<lambda>p. if ip_status p = XFER_COMPLETED then ip_len p else 0) ps)"

text \<open>
  Returning the transfer to libusb: \<open>submit n\<close> is the result of the \<open>n\<close>-th attempt. The loop
  gives up when the error counter passes 10000.
\<close>

function resubmit_loop :: "(nat \<Rightarrow> int) \<Rightarrow> nat \<Rightarrow> bool" where
  "resubmit_loop submit err_counter =
     (if submit err_counter \<noteq> 0 then
        if err_counter + 1 > 10000 then False else resubmit_loop submit (err_counter + 1)
      else True)"
  by pat_completeness auto
termination
  by (relation "measure (\<lambda>(submit, n). 10001 - n)") auto

declare resubmit_loop.simps [simp del]

datatype cb_result = cb_freed | cb_not_submitted | cb_fault | cb_done bool

text \<open>The statistics are reset every two seconds.\<close>

definition callback_stats :: "int \<Rightarrow> 'z big_pool_t_scheme \<Rightarrow> 'z big_pool_t_scheme" where
  "callback_stats now pool =
     (let pool = (if now - start_time pool > 2000000
                  then pool\<lparr>calls_count := 0, pkt_count := 0, pkt_count_complete := 0,
                            bytes := 0, start_time := now\<rparr>
                  else pool)
      in pool\<lparr>calls_count := calls_count pool + 1\<rparr>)"

definition record_callback ::
  "(nat \<Rightarrow> int) \<Rightarrow> int \<Rightarrow> usb_transfer \<Rightarrow> 'z big_pool_t_scheme \<Rightarrow> cb_result \<times> 'z big_pool_t_scheme" where
  "record_callback submit now transfer pool =
     (if \<not> ut_user_data transfer then (cb_freed, pool)
      else if ut_status transfer = XFER_CANCELLED then (cb_not_submitted, pool)
      else if ut_status transfer = XFER_ERROR then (cb_not_submitted, pool)
      else
        let pool = callback_stats now pool;
            alloc = iso_total_len (ut_packets transfer) + TS_SIZE;
            counter = node_counter pool;
            pool = pool\<lparr>node_counter := counter + 1\<rparr>
        in case iso_packets_loop alloc (ut_packets transfer) (pool, []) of
             None \<Rightarrow> (cb_fault, pool)
           | Some (pool, d) \<Rightarrow>
               let node = \<lparr>tn_counter = counter, tn_data = d, tn_size = length d,
                           tn_read_off = 0, tn_pat_replaced = False\<rparr>
               in (cb_done (resubmit_loop submit 0), pool\<lparr>ts_list := ts_list pool @ [node]\<rparr>))"

section \<open>The TS processing thread\<close>

text \<open>
  A hook hands its packet to libdvbpsi, which may call back into the PSI parser and change
  the pool: \<open>call_hook\<close> is that effect, a parameter here.
\<close>

type_synonym 'z hook_effect =
  "ts_hook \<Rightarrow> nat option \<Rightarrow> byte list \<Rightarrow> 'z big_pool_t_scheme \<Rightarrow> 'z big_pool_t_scheme"

text \<open>\<open>pkts\<close> are the 188-byte steps of \<open>for (i = 0; i < node->size; i += TS_SIZE)\<close>.\<close>

fun run_hooks :: "'z hook_effect \<Rightarrow> byte list list \<Rightarrow> 'z big_pool_t_scheme \<Rightarrow> 'z big_pool_t_scheme" where
  "run_hooks call_hook [] pool = pool"
| "run_hooks call_hook (pkt # pkts) pool =
     (let pid = ts_pid (pkt ! 1) (pkt ! 2)
      in case hooks pool pid of
           None \<Rightarrow> run_hooks call_hook pkts pool
         | Some h \<Rightarrow> run_hooks call_hook pkts (call_hook h (hooks_opaque pool pid) pkt pool))"

function ts_packets :: "byte list \<Rightarrow> byte list list" where
  "ts_packets d = (if d = [] then [] else take TS_SIZE d # ts_packets (drop TS_SIZE d))"
  by pat_completeness auto
termination
  by (relation "measure length") auto

declare ts_packets.simps [simp del]

text \<open>Drop the oldest nodes while the limit is exceeded.\<close>

fun trim_nodes :: "int \<Rightarrow> int \<Rightarrow> ts_node list \<Rightarrow> int \<times> ts_node list" where
  "trim_nodes lim sz [] = (sz, [])"
| "trim_nodes lim sz (n # ns) =
     (if sz > lim then trim_nodes lim (sz - int (tn_size n)) ns else (sz, n # ns))"

definition save_node :: "ts_node \<Rightarrow> 'z big_pool_t_scheme \<Rightarrow> 'z big_pool_t_scheme" where
  "save_node node pool =
     (let ns = ts_list_all pool @ [node];
          sz = ts_list_size pool + int (tn_size node);
          (sz, ns) = trim_nodes (ts_list_size_max pool) sz ns
      in pool\<lparr>ts_list_size := sz, ts_list_all := ns\<rparr>)"

text \<open>One pass of the thread's loop after it holds the lock; an empty list is a wake-up without data.\<close>

definition process_ts_step :: "'z hook_effect \<Rightarrow> 'z big_pool_t_scheme \<Rightarrow> 'z big_pool_t_scheme" where
  "process_ts_step call_hook pool =
     (case ts_list pool of
        [] \<Rightarrow> pool
      | node # rest \<Rightarrow>
          let pool = pool\<lparr>ts_list := rest\<rparr>;
              pool = run_hooks call_hook (ts_packets (take (tn_size node) (tn_data node))) pool
          in save_node node pool)"

text \<open>The loop \<open>while(!pool->cancel)\<close> over a given number of passes.\<close>

fun process_ts :: "'z hook_effect \<Rightarrow> nat \<Rightarrow> 'z big_pool_t_scheme \<Rightarrow> 'z big_pool_t_scheme" where
  "process_ts call_hook 0 pool = pool"
| "process_ts call_hook (Suc n) pool =
     (if cancel pool then pool else process_ts call_hook n (process_ts_step call_hook pool))"

section \<open>Reassembly\<close>

text \<open>A byte sequence cut at packet starts: a sync byte at every multiple of 188.\<close>

definition ts_aligned :: "byte list \<Rightarrow> bool" where
  "ts_aligned xs \<longleftrightarrow> (\<forall>k. k * TS_SIZE < length xs \<longrightarrow> xs ! (k * TS_SIZE) = TS_SYNC)"

definition pending :: "'z big_pool_t_scheme \<Rightarrow> byte list" where
  "pending pool = take (tail_size pool) (tail pool)"

definition tail_ok :: "'z big_pool_t_scheme \<Rightarrow> bool" where
  "tail_ok pool \<longleftrightarrow> tail_size pool < TS_SIZE \<and> length (tail pool) = TS_SIZE"

definition iso_payload :: "iso_packet \<Rightarrow> byte list" where
  "iso_payload p = (if ip_status p = XFER_COMPLETED then take (ip_len p) (ip_buf p) else [])"

text \<open>A packet the code can cut safely: nothing, or more than 188 bytes in its slot.\<close>

definition iso_good :: "iso_packet \<Rightarrow> bool" where
  "iso_good p \<longleftrightarrow> ip_status p = XFER_COMPLETED \<longrightarrow>
     ip_len p = 0 \<or> TS_SIZE < ip_len p \<and> ip_len p \<le> length (ip_buf p)"

lemma ts_aligned_append: "ts_aligned (xs @ ys) \<Longrightarrow> ts_aligned xs"
  unfolding ts_aligned_def
proof (intro allI impI)
  fix k
  assume "\<forall>k. k * TS_SIZE < length (xs @ ys) \<longrightarrow> (xs @ ys) ! (k * TS_SIZE) = TS_SYNC"
    and k: "k * TS_SIZE < length xs"
  then have "(xs @ ys) ! (k * TS_SIZE) = TS_SYNC" by simp
  with k show "xs ! (k * TS_SIZE) = TS_SYNC" by (simp add: nth_append)
qed

lemma ts_aligned_drop: "ts_aligned xs \<Longrightarrow> ts_aligned (drop (m * TS_SIZE) xs)"
  unfolding ts_aligned_def
proof (intro allI impI)
  fix k
  assume al: "\<forall>k. k * TS_SIZE < length xs \<longrightarrow> xs ! (k * TS_SIZE) = TS_SYNC"
    and k: "k * TS_SIZE < length (drop (m * TS_SIZE) xs)"
  then have "(m + k) * TS_SIZE < length xs" by (simp add: add_mult_distrib)
  with al have "xs ! ((m + k) * TS_SIZE) = TS_SYNC" by blast
  with k show "drop (m * TS_SIZE) xs ! (k * TS_SIZE) = TS_SYNC"
    by (simp add: add_mult_distrib)
qed

lemma length_pending [simp]: "tail_ok pool \<Longrightarrow> length (pending pool) = tail_size pool"
  by (simp add: pending_def tail_ok_def)

lemma iso_step_cuts:
  assumes ok: "tail_ok pool" and good: "iso_good p"
    and al: "ts_aligned (pending pool @ iso_payload p)"
    and room: "length d + length (pending pool) + length (iso_payload p) \<le> alloc"
  shows "\<exists>pool' d'. iso_packet_step alloc p (pool, d) = Some (pool', d') \<and> tail_ok pool'
    \<and> d' @ pending pool' = d @ pending pool @ iso_payload p
    \<and> TS_SIZE dvd (length d' - length d) \<and> length d \<le> length d'
    \<and> ts_list pool' = ts_list pool"
proof (cases "ip_status p = XFER_COMPLETED \<and> 0 < ip_len p")
  case False
  then have "iso_payload p = []" by (auto simp: iso_payload_def)
  with False ok show ?thesis
    by (auto simp: iso_packet_step_def Let_def pending_def tail_ok_def)
next
  case True
  define t len buf where "t = tail_size pool" and "len = ip_len p" and "buf = ip_buf p"
  define off where "off = TS_SIZE - t"
  define cnt where "cnt = (len - off) div TS_SIZE"
  define n where "n = (len - off) mod TS_SIZE"
  from True good have len: "TS_SIZE < len" "len \<le> length buf"
    by (auto simp: iso_good_def len_def buf_def)
  from ok have t: "t < TS_SIZE" "length (tail pool) = TS_SIZE" by (auto simp: tail_ok_def t_def)
  then have off: "off + t = TS_SIZE" "0 < off" "off \<le> TS_SIZE" by (simp_all add: off_def)
  have pt: "length (pending pool) = t" using ok by (simp add: t_def)
  have pay: "iso_payload p = take len buf" using True by (simp add: iso_payload_def len_def buf_def)
  have n: "n < TS_SIZE" by (simp add: n_def)
  have "len - off = cnt * TS_SIZE + n" unfolding cnt_def n_def by simp
  then have cnt: "len = off + cnt * TS_SIZE + n" using len off by linarith
  have "(pending pool @ take len buf) ! (1 * TS_SIZE) = TS_SYNC"
    using al len unfolding pay ts_aligned_def by (elim allE [of _ 1]) simp
  moreover have "(pending pool @ take len buf) ! TS_SIZE = buf ! off"
    using off len pt by (simp add: nth_append off_def)
  ultimately have sync: "buf ! off = TS_SYNC" by simp
  define body where "body = take off buf @ take (cnt * TS_SIZE) (drop off buf)"
  define rest where "rest = drop (off + cnt * TS_SIZE) (take len buf)"
  have split: "take len buf = body @ rest"
    unfolding body_def rest_def using cnt
    by (metis append.assoc append_take_drop_id le_add1 min.absorb1 take_add take_take)
  have body_len: "length body = off + cnt * TS_SIZE" using cnt len by (simp add: body_def)
  have rest_len: "length rest = n" using cnt len by (simp add: rest_def)
  have rest_eq: "take n (drop (off + cnt * TS_SIZE) buf) = rest"
    using cnt by (simp add: rest_def take_drop add.commute)
  define base where "base = pool\<lparr>pkt_count := pkt_count pool + 1,
      pkt_count_complete := pkt_count_complete pool + 1, bytes := bytes pool + int len, tail_size := 0\<rparr>"
  define pool' where "pool' = (if n = 0 then base
      else base\<lparr>tail_size := n, tail := put_bytes (tail pool) 0 rest\<rparr>)"
  define d' where "d' = d @ pending pool @ body"
  have len_lt: "(off + cnt * TS_SIZE < len) = (n \<noteq> 0)" "len - (off + cnt * TS_SIZE) = n"
    using cnt by simp_all
  have fit: "length d + t + off \<le> alloc" "length d + t + off + cnt * TS_SIZE \<le> alloc"
    "length d + t \<le> alloc"
    using room cnt len pt by (simp_all add: pay)
  have lens: "length (take t (tail pool)) = t" "length (take off buf) = off"
    "length (take (cnt * TS_SIZE) (drop off buf)) = cnt * TS_SIZE"
    using t len cnt by simp_all
  have puts: "put_node alloc d (take t (tail pool)) = Some (d @ take t (tail pool))"
    "put_node alloc (d @ take t (tail pool)) (take off buf) = Some (d @ take t (tail pool) @ take off buf)"
    "put_node alloc (d @ take t (tail pool) @ take off buf) (take (cnt * TS_SIZE) (drop off buf)) = Some d'"
    unfolding put_node_def length_append lens d'_def body_def pending_def t_def [symmetric]
    using fit by simp_all
  have len0: "0 < len" using len by simp
  have step: "iso_packet_step alloc p (pool, d) = Some (pool', d')"
    using True puts sync off len_lt rest_eq len0
    unfolding iso_packet_step_def Let_def prod.case len_def [symmetric] buf_def [symmetric]
      t_def [symmetric]
    by (simp add: off_def [symmetric] cnt_def [symmetric] t_def [symmetric] pool'_def base_def
        del: mult_Suc_right)
  have pend': "pending pool' = rest"
  proof (cases "n = 0")
    case False
    then have "pending pool' = take n (put_bytes (tail pool) 0 rest)"
      by (simp add: pending_def pool'_def base_def)
    then show ?thesis using rest_len by (simp add: take_put_bytes_0)
  qed (use rest_len in \<open>simp add: pool'_def base_def pending_def\<close>)
  have cons: "d' @ pending pool' = d @ pending pool @ iso_payload p"
    by (simp add: d'_def pend' pay split)
  have ok': "tail_ok pool'"
    using t n rest_len by (simp add: tail_ok_def pool'_def base_def)
  have "length d' - length d = (1 + cnt) * TS_SIZE"
    unfolding d'_def length_append body_len pt using off by simp
  then have dv: "TS_SIZE dvd length d' - length d" by (metis dvd_triv_right)
  have "length d \<le> length d'" by (simp add: d'_def)
  moreover have "ts_list pool' = ts_list pool" by (simp add: pool'_def base_def)
  ultimately show ?thesis using step cons ok' dv by blast
qed

lemma length_iso_payload: "iso_good p \<Longrightarrow> length (iso_payload p) =
    (if ip_status p = XFER_COMPLETED then ip_len p else 0)"
  by (auto simp: iso_good_def iso_payload_def)

lemma iso_total_len_payload:
  "list_all iso_good ps \<Longrightarrow> iso_total_len ps = length (concat (map iso_payload ps))"
  by (induction ps) (simp_all add: iso_total_len_def length_iso_payload)

lemma iso_loop_cuts:
  assumes "tail_ok pool" and "list_all iso_good ps"
    and "ts_aligned (pending pool @ concat (map iso_payload ps))"
    and "length d + length (pending pool) + length (concat (map iso_payload ps)) \<le> alloc"
    and "TS_SIZE dvd length d"
  shows "\<exists>pool' d'. iso_packets_loop alloc ps (pool, d) = Some (pool', d') \<and> tail_ok pool'
    \<and> d' @ pending pool' = d @ pending pool @ concat (map iso_payload ps)
    \<and> TS_SIZE dvd length d' \<and> ts_list pool' = ts_list pool"
  using assms
proof (induction ps arbitrary: pool d)
  case Nil
  then show ?case by simp
next
  case (Cons p ps)
  let ?q = "iso_payload p" and ?r = "concat (map iso_payload ps)"
  from Cons.prems(3) have al: "ts_aligned ((pending pool @ ?q) @ ?r)" by simp
  have room: "length d + length (pending pool) + length ?q \<le> alloc" using Cons.prems(4) by simp
  obtain pool1 d1 where step: "iso_packet_step alloc p (pool, d) = Some (pool1, d1)"
    and ok1: "tail_ok pool1" and c1: "d1 @ pending pool1 = d @ pending pool @ ?q"
    and dv: "TS_SIZE dvd (length d1 - length d)" "length d \<le> length d1"
    and l1: "ts_list pool1 = ts_list pool"
    using iso_step_cuts [OF Cons.prems(1) _ ts_aligned_append [OF al] room] Cons.prems(2)
    by auto
  from dv Cons.prems(5) have dv1: "TS_SIZE dvd length d1"
    by (metis dvd_add le_add_diff_inverse)
  have len1: "length d1 + length (pending pool1) = length d + length (pending pool) + length ?q"
    using arg_cong [OF c1, of length] by simp
  have p1: "pending pool1 = drop (length d1 - length d) (pending pool @ ?q)"
  proof -
    have "pending pool1 = drop (length d1) (d1 @ pending pool1)" by simp
    also have "\<dots> = drop (length d1) (d @ pending pool @ ?q)" by (simp only: c1)
    finally show ?thesis using dv(2) by simp
  qed
  obtain m where m: "length d1 - length d = m * TS_SIZE"
    using dv(1) by (metis dvd_def mult.commute)
  have le: "length d1 - length d \<le> length (pending pool @ ?q)" using len1 by simp
  have "pending pool1 @ ?r = drop (m * TS_SIZE) ((pending pool @ ?q) @ ?r)"
    unfolding p1 m using le m by simp
  then have al1: "ts_aligned (pending pool1 @ ?r)" using ts_aligned_drop [OF al, of m] by simp
  have room1: "length d1 + length (pending pool1) + length ?r \<le> alloc"
    using len1 Cons.prems(4) by simp
  obtain pool' d' where "iso_packets_loop alloc ps (pool1, d1) = Some (pool', d')" "tail_ok pool'"
    "d' @ pending pool' = d1 @ pending pool1 @ ?r" "TS_SIZE dvd length d'" "ts_list pool' = ts_list pool1"
    using Cons.IH [OF ok1 _ al1 room1 dv1] Cons.prems(2) by auto
  moreover have "d1 @ pending pool1 @ ?r = d @ pending pool @ concat (map iso_payload (p # ps))"
    using arg_cong [OF c1, of "\<lambda>x. x @ ?r"] by simp
  ultimately show ?case using step l1 by auto
qed

definition quiet_pool :: big_pool_t where
  "quiet_pool = \<lparr>node_counter = 0, hooks = (\<lambda>_. None), hooks_opaque = (\<lambda>_. None), calls_count = 0,
     pkt_count = 0, pkt_count_complete = 0, bytes = 0, start_time = 0, ts_list = [], ts_list_all = [],
     tail_size = 0, tail = replicate 188 0, cancel = False, ts_list_size = 0,
     ts_list_size_max = TS_LIST_SIZE_DEFAULT, generated_pat_pkt = None, pat_counter = 0,
     sdt_pkt_array = None, sdt_count = 0, cur_sdt = 0, sdt_counter = 0, initialized = BIG_POOL_MAGIC,
     threading = True, transfers = (\<lambda>_. False)\<rparr>"

section \<open>The memory limit\<close>

definition nodes_size :: "ts_node list \<Rightarrow> int" where
  "nodes_size ns = sum_list (map (\<lambda>n. int (tn_size n)) ns)"

lemma nodes_size_simps [simp]:
  "nodes_size [] = 0" "nodes_size (n # ns) = int (tn_size n) + nodes_size ns"
  "nodes_size (xs @ ys) = nodes_size xs + nodes_size ys"
  by (simp_all add: nodes_size_def)

text \<open>The stored size is the size of the stored nodes, and within the limit.\<close>

definition sizes_ok :: "'z big_pool_t_scheme \<Rightarrow> bool" where
  "sizes_ok pool \<longleftrightarrow> ts_list_size pool = nodes_size (ts_list_all pool)
     \<and> 0 \<le> ts_list_size_max pool \<and> ts_list_size pool \<le> ts_list_size_max pool"

lemma trim_nodes_spec:
  "0 \<le> lim \<Longrightarrow> sz = nodes_size ns \<Longrightarrow>
     \<exists>k \<le> length ns. trim_nodes lim sz ns = (nodes_size (drop k ns), drop k ns)
       \<and> nodes_size (drop k ns) \<le> lim \<and> (\<forall>i<k. lim < nodes_size (drop i ns))"
proof (induction ns arbitrary: sz)
  case (Cons n ns)
  show ?case
  proof (cases "sz > lim")
    case True
    have "sz - int (tn_size n) = nodes_size ns" using Cons.prems(2) by simp
    from Cons.IH [OF Cons.prems(1) this] obtain k where "k \<le> length ns"
      "trim_nodes lim (sz - int (tn_size n)) ns = (nodes_size (drop k ns), drop k ns)"
      "nodes_size (drop k ns) \<le> lim" "\<forall>i<k. lim < nodes_size (drop i ns)" by blast
    with True Cons.prems(2) show ?thesis
      by (intro exI [of _ "Suc k"]) (auto simp: less_Suc_eq_0_disj)
  next
    case False
    with Cons.prems show ?thesis by (intro exI [of _ 0]) simp
  qed
qed simp

lemma save_node_spec:
  assumes "sizes_ok pool"
  shows "\<exists>k. ts_list_all (save_node node pool) = drop k (ts_list_all pool @ [node])
    \<and> (\<forall>i<k. ts_list_size_max pool < nodes_size (drop i (ts_list_all pool @ [node])))
    \<and> sizes_ok (save_node node pool)
    \<and> ts_list_size_max (save_node node pool) = ts_list_size_max pool"
proof -
  have "0 \<le> ts_list_size_max pool"
    "ts_list_size pool + int (tn_size node) = nodes_size (ts_list_all pool @ [node])"
    using assms by (simp_all add: sizes_ok_def)
  from trim_nodes_spec [OF this] assms show ?thesis
    by (auto simp: save_node_def sizes_ok_def)
qed

text \<open>What the PSI hooks may not touch: the stored nodes and their accounting.\<close>

definition hook_frame :: "'z hook_effect \<Rightarrow> bool" where
  "hook_frame call_hook \<longleftrightarrow> (\<forall>h q pkt pool.
     ts_list_all (call_hook h q pkt pool) = ts_list_all pool
   \<and> ts_list_size (call_hook h q pkt pool) = ts_list_size pool
   \<and> ts_list_size_max (call_hook h q pkt pool) = ts_list_size_max pool)"

lemma run_hooks_frame:
  assumes "hook_frame call_hook"
  shows "ts_list_all (run_hooks call_hook pkts pool) = ts_list_all pool"
    and "ts_list_size (run_hooks call_hook pkts pool) = ts_list_size pool"
    and "ts_list_size_max (run_hooks call_hook pkts pool) = ts_list_size_max pool"
  using assms by (induction pkts arbitrary: pool)
    (auto simp: hook_frame_def Let_def split: option.splits)

lemma process_ts_step_sizes:
  assumes "hook_frame call_hook" and "sizes_ok pool"
  shows "sizes_ok (process_ts_step call_hook pool)
    \<and> ts_list_size_max (process_ts_step call_hook pool) = ts_list_size_max pool"
proof (cases "ts_list pool")
  case (Cons node rest)
  define p1 where "p1 = run_hooks call_hook (ts_packets (take (tn_size node) (tn_data node)))
    (pool\<lparr>ts_list := rest\<rparr>)"
  have ok1: "sizes_ok p1" and mx: "ts_list_size_max p1 = ts_list_size_max pool"
    using assms by (simp_all add: sizes_ok_def p1_def run_hooks_frame)
  have "process_ts_step call_hook pool = save_node node p1"
    using Cons by (simp add: process_ts_step_def p1_def)
  then show ?thesis using save_node_spec [OF ok1, of node] mx by auto
qed (use assms in \<open>simp add: process_ts_step_def\<close>)

section \<open>Properties\<close>

text \<open>C3 (record_callback_reassembles): when the stream delivered in a completed transfer continues
  the saved tail at packet boundaries, and every completed packet is empty or longer than a TS
  packet, the callback queues exactly one node: the node is a whole number of TS packets, and the
  node followed by the new tail is the old tail followed by the payload. Nothing is lost,
  repeated or written past the node's buffer.\<close>

theorem record_callback_reassembles:
  assumes "ut_user_data tr" and "ut_status tr = XFER_COMPLETED" and "tail_ok pool"
    and "list_all iso_good (ut_packets tr)"
    and "ts_aligned (pending pool @ concat (map iso_payload (ut_packets tr)))"
    and "record_callback submit now tr pool = (r, pool')"
  shows "\<exists>node. ts_list pool' = ts_list pool @ [node] \<and> tn_size node = length (tn_data node)
    \<and> TS_SIZE dvd tn_size node \<and> tail_ok pool'
    \<and> tn_data node @ pending pool' = pending pool @ concat (map iso_payload (ut_packets tr))"
proof -
  let ?ps = "ut_packets tr"
  define p2 where "p2 = callback_stats now pool"
  define p3 where "p3 = p2\<lparr>node_counter := node_counter p2 + 1\<rparr>"
  have same: "tail_size p3 = tail_size pool" "tail p3 = tail pool" "ts_list p3 = ts_list pool"
    by (simp_all add: p3_def p2_def callback_stats_def Let_def)
  then have ok: "tail_ok p3" and pend: "pending p3 = pending pool"
    using assms(3) by (simp_all add: tail_ok_def pending_def)
  have room: "length ([]::byte list) + length (pending p3) + length (concat (map iso_payload ?ps))
      \<le> iso_total_len ?ps + TS_SIZE"
    using ok assms(4) by (simp add: iso_total_len_payload tail_ok_def)
  obtain p4 d where "iso_packets_loop (iso_total_len ?ps + TS_SIZE) ?ps (p3, []) = Some (p4, d)"
    "tail_ok p4" "d @ pending p4 = pending pool @ concat (map iso_payload ?ps)"
    "TS_SIZE dvd length d" "ts_list p4 = ts_list pool"
    using iso_loop_cuts [OF ok assms(4) _ room] assms(5) by (auto simp: pend same)
  moreover have "record_callback submit now tr pool =
      (case iso_packets_loop (iso_total_len ?ps + TS_SIZE) ?ps (p3, []) of
         None \<Rightarrow> (cb_fault, p3)
       | Some (pool, d) \<Rightarrow>
           (cb_done (resubmit_loop submit 0), pool\<lparr>ts_list := ts_list pool @
              [\<lparr>tn_counter = node_counter p2, tn_data = d, tn_size = length d,
                tn_read_off = 0, tn_pat_replaced = False\<rparr>]\<rparr>))"
    using assms(1,2)
    by (simp add: record_callback_def p2_def [symmetric] p3_def [symmetric] Let_def split: option.split)
  ultimately show ?thesis using assms(6) by (auto simp: tail_ok_def pending_def)
qed

definition one_packet_transfer :: usb_transfer where
  "one_packet_transfer = \<lparr>ut_user_data = True, ut_status = XFER_COMPLETED,
     ut_packets = [\<lparr>ip_status = XFER_COMPLETED, ip_len = 189,
                    ip_buf = [0x47] @ replicate 187 0 @ [0x47]\<rparr>]\<rparr>"

theorem record_callback_reassembles_witness:
  "\<exists>node. ts_list (snd (record_callback (\<lambda>_. 0) 0 one_packet_transfer quiet_pool)) = [node]
     \<and> TS_SIZE dvd tn_size node
     \<and> tn_data node @ pending (snd (record_callback (\<lambda>_. 0) 0 one_packet_transfer quiet_pool))
         = [0x47] @ replicate 187 0 @ [0x47]"
proof -
  let ?tr = one_packet_transfer
  have al: "ts_aligned ([0x47] @ replicate 187 0 @ [0x47])"
    unfolding ts_aligned_def
  proof (intro allI impI)
    fix k assume "k * TS_SIZE < length ([0x47::byte] @ replicate 187 0 @ [0x47])"
    then have "k = 0 \<or> k = 1" by simp linarith
    then show "([0x47::byte] @ replicate 187 0 @ [0x47]) ! (k * TS_SIZE) = TS_SYNC"
      by (auto simp: nth_append)
  qed
  have pay: "concat (map iso_payload (ut_packets ?tr)) = [0x47] @ replicate 187 0 @ [0x47]"
    and pend: "pending quiet_pool = []"
    and ps: "list_all iso_good (ut_packets ?tr)" and ok: "tail_ok quiet_pool"
    by (simp_all add: one_packet_transfer_def iso_payload_def pending_def quiet_pool_def
        iso_good_def tail_ok_def)
  have "ts_list quiet_pool = []" by (simp add: quiet_pool_def)
  then show ?thesis
    using record_callback_reassembles [of ?tr quiet_pool "\<lambda>_. 0" 0, OF _ _ ok ps _ prod.collapse [symmetric]]
      al pay pend by (auto simp: one_packet_transfer_def)
qed

text \<open>record_callback_short_packets: two completed packets that are together shorter than a TS
  packet, in slots that still hold a sync byte at offset 188 from an earlier transfer, make the
  callback copy 188 bytes for each of them: the second copy runs past the node's buffer, which
  was allocated from the received length.\<close>

theorem record_callback_short_packets:
  fixes pool :: "'z big_pool_t_scheme"
  assumes "ut_user_data tr" and "ut_status tr = XFER_COMPLETED" and "tail_size pool = 0"
    and "ut_packets tr = [p, q]" and "ip_status p = XFER_COMPLETED" and "ip_status q = XFER_COMPLETED"
    and "0 < ip_len p" and "0 < ip_len q" and "ip_len p + ip_len q < TS_SIZE"
    and "TS_SIZE < length (ip_buf p)" and "ip_buf p ! TS_SIZE = TS_SYNC"
    and "TS_SIZE < length (ip_buf q)" and "ip_buf q ! TS_SIZE = TS_SYNC"
  shows "fst (record_callback submit now tr pool) = cb_fault"
proof -
  have one: "iso_packet_step alloc r (pl, d) = Some (pl\<lparr>pkt_count := pkt_count pl + 1,
      pkt_count_complete := pkt_count_complete pl + 1, bytes := bytes pl + int (ip_len r),
      tail_size := 0\<rparr>, d @ take TS_SIZE (ip_buf r))"
    if "ip_status r = XFER_COMPLETED" "0 < ip_len r" "ip_len r < TS_SIZE" "ip_buf r ! TS_SIZE = TS_SYNC"
      "TS_SIZE < length (ip_buf r)" "tail_size pl = 0" "length d + TS_SIZE \<le> alloc"
    for alloc d r and pl :: "'z big_pool_t_scheme"
    using that by (simp add: iso_packet_step_def put_node_def Let_def)
  have two: "iso_packet_step alloc r (pl, d) = None"
    if "ip_status r = XFER_COMPLETED" "0 < ip_len r" "ip_len r < TS_SIZE" "ip_buf r ! TS_SIZE = TS_SYNC"
      "TS_SIZE < length (ip_buf r)" "tail_size pl = 0" "length d \<le> alloc" "alloc < length d + TS_SIZE"
    for alloc d r and pl :: "'z big_pool_t_scheme"
    using that by (simp add: iso_packet_step_def put_node_def Let_def)
  have "iso_packets_loop (iso_total_len [p, q] + TS_SIZE) [p, q] (pl, []) = None"
    if "tail_size pl = 0" for pl :: "'z big_pool_t_scheme"
    using assms that by (simp add: one two iso_total_len_def)
  moreover have "tail_size (callback_stats now pool) = 0"
    using assms(3) by (simp add: callback_stats_def Let_def)
  ultimately show ?thesis using assms(1,2,4)
    by (simp add: record_callback_def Let_def del: iso_packets_loop.simps)
qed

definition stale_packet :: iso_packet where
  "stale_packet = \<lparr>ip_status = XFER_COMPLETED, ip_len = 1, ip_buf = replicate 188 0 @ [0x47]\<rparr>"

theorem record_callback_short_packets_witness:
  "fst (record_callback (\<lambda>_. 0) 0 \<lparr>ut_user_data = True, ut_status = XFER_COMPLETED,
     ut_packets = [stale_packet, stale_packet]\<rparr> quiet_pool) = cb_fault"
  by (rule record_callback_short_packets [where p = stale_packet and q = stale_packet])
    (simp_all add: stale_packet_def quiet_pool_def nth_append)

text \<open>process_ts_memory_limit: as long as the hooks leave the stored nodes alone, every number
  of passes of the processing thread keeps the stored size equal to the size of the stored nodes
  and within the memory limit.\<close>

theorem process_ts_memory_limit:
  "hook_frame call_hook \<Longrightarrow> sizes_ok pool \<Longrightarrow> sizes_ok (process_ts call_hook n pool)"
proof (induction n arbitrary: pool)
  case (Suc n)
  then show ?case using process_ts_step_sizes [OF Suc.prems] by simp
qed simp

theorem process_ts_memory_limit_witness:
  "sizes_ok (process_ts (\<lambda>_ _ _ p. p) 3 quiet_pool)"
  by (rule process_ts_memory_limit)
    (simp_all add: hook_frame_def sizes_ok_def quiet_pool_def)

text \<open>save_node_drops_oldest: storing a node appends it and then removes nodes from the front
  only, and only while the limit is still exceeded.\<close>

theorem save_node_drops_oldest:
  assumes "sizes_ok pool"
  shows "\<exists>k. ts_list_all (save_node node pool) = drop k (ts_list_all pool @ [node])
    \<and> (\<forall>i<k. ts_list_size_max pool < nodes_size (drop i (ts_list_all pool @ [node])))"
  using save_node_spec [OF assms] by blast

theorem save_node_drops_oldest_witness:
  "\<exists>k. ts_list_all (save_node \<lparr>tn_counter = 1, tn_data = [1], tn_size = 1, tn_read_off = 0,
     tn_pat_replaced = False\<rparr> quiet_pool) = drop k [\<lparr>tn_counter = 1, tn_data = [1], tn_size = 1,
     tn_read_off = 0, tn_pat_replaced = False\<rparr>]"
proof -
  have "sizes_ok quiet_pool" by (simp add: sizes_ok_def quiet_pool_def)
  from save_node_drops_oldest [OF this, of "\<lparr>tn_counter = 1, tn_data = [1], tn_size = 1, tn_read_off = 0,
     tn_pat_replaced = False\<rparr>"] show ?thesis by (auto simp: quiet_pool_def)
qed

text \<open>next_ts_off_first: \<open>next_ts_off\<close> returns the first packet start of the buffer, or -1
  when there is none.\<close>

theorem next_ts_off_first:
  "next_ts_off buf len = (if Ex (ts_start buf len) then int (Least (ts_start buf len)) else - 1)"
proof (cases "Ex (ts_start buf len)")
  case True
  with next_ts_off_spec [of buf len] obtain k where k: "next_ts_off buf len = int k" "ts_start buf len k"
    "\<forall>i<k. \<not> ts_start buf len i" by blast
  then have "Least (ts_start buf len) = k" by (intro Least_equality) (auto simp: not_less [symmetric])
  with True k show ?thesis by simp
next
  case False
  with next_ts_off_spec [of buf len] show ?thesis by auto
qed

end
