(* ===== verification/TsRead.thy ===== *)
theory TsRead
  imports TsPool
begin

text \<open>
  \<open>src/u_drv_data.c\<close>, the reading side: \<open>replace_pat\<close> writes the generated PAT over the
  broadcast one (and blanks SDT packets), \<open>read_ts_data\<close> copies the stored nodes to the caller.
  \<open>get_next_sdt\<close> is from \<open>src/joker_ts.c\<close>. A NULL dereference or an access outside an object
  is the value \<open>None\<close>. \<open>read_ts_data\<close> blocks on a condition variable: the nodes that the
  processing thread has stored when the reader gets the lock for the next time are a list, and
  a reader still waiting at the end of that list is \<open>read_blocked\<close>.
\<close>

section \<open>The generated tables in the stream\<close>

text \<open>
  \<open>sdt_pkt_array + TS_SIZE * cur_sdt\<close> as an offset into the array; \<open>None\<close> is the NULL that
  comes out when there is no array and the index is 0.
\<close>

definition get_next_sdt :: "'z big_pool_t_scheme \<Rightarrow> nat option \<times> 'z big_pool_t_scheme" where
  "get_next_sdt pool =
     (let ptr = (if sdt_pkt_array pool = None \<and> cur_sdt pool = 0 then None
                 else Some (TS_SIZE * cur_sdt pool));
          pool = pool\<lparr>cur_sdt := cur_sdt pool + 1\<rparr>;
          pool = (if cur_sdt pool \<ge> sdt_count pool then pool\<lparr>cur_sdt := 0\<rparr> else pool)
      in (ptr, pool))"

definition set_cc :: "byte list \<Rightarrow> byte \<Rightarrow> byte list" where
  "set_cc pkt c = pkt[3 := (pkt ! 3 AND 0xf0) OR (c AND 0x0f)]"

lemma length_set_cc [simp]: "length (set_cc pkt c) = length pkt"
  by (simp add: set_cc_def)

function replace_pat_loop ::
  "'z big_pool_t_scheme \<Rightarrow> byte list \<Rightarrow> nat \<Rightarrow> nat \<Rightarrow> ('z big_pool_t_scheme \<times> byte list) option" where
  "replace_pat_loop pool data sz off =
     (if off + TS_SIZE \<le> sz then
        if data ! off = TS_SYNC then
          let pid = ts_pid (data ! (off + 1)) (data ! (off + 2))
          in if pid = 0 then
               (case generated_pat_pkt pool of
                  None \<Rightarrow> None
                | Some pat \<Rightarrow>
                    let pool = (if pat_counter pool = 0x10 then pool\<lparr>pat_counter := 0\<rparr> else pool);
                        pat = set_cc pat (pat_counter pool);
                        pool = pool\<lparr>generated_pat_pkt := Some pat, pat_counter := pat_counter pool + 1\<rparr>
                    in replace_pat_loop pool (put_bytes data off (take TS_SIZE pat)) sz (off + TS_SIZE))
             else if pid = 0x11 then
               let (sdt, pool) = get_next_sdt pool
               in case sdt of
                    None \<Rightarrow> replace_pat_loop pool (put_bytes data off [0x47, 0x1F, 0xFF, 0]) sz (off + TS_SIZE)
                  | Some p \<Rightarrow>
                      (case sdt_pkt_array pool of
                         None \<Rightarrow> None
                       | Some arr \<Rightarrow>
                           if p + TS_SIZE > length arr then None
                           else
                             let pool = (if sdt_counter pool = 0x10 then pool\<lparr>sdt_counter := 0\<rparr> else pool);
                                 sdt = set_cc (take TS_SIZE (drop p arr)) (sdt_counter pool);
                                 pool = pool\<lparr>sdt_pkt_array := Some (put_bytes arr p sdt),
                                             sdt_counter := sdt_counter pool + 1\<rparr>
                             in replace_pat_loop pool (put_bytes data off sdt) sz (off + TS_SIZE))
             else replace_pat_loop pool data sz (off + TS_SIZE)
        else replace_pat_loop pool data sz (off + 1)
      else Some (pool, data))"
  by pat_completeness auto
termination
  by (relation "measure (\<lambda>(pool, data, sz, off). sz - off)") auto

declare replace_pat_loop.simps [simp del]

definition replace_pat ::
  "'z big_pool_t_scheme \<Rightarrow> byte list \<Rightarrow> nat \<Rightarrow> ('z big_pool_t_scheme \<times> byte list) option" where
  "replace_pat pool data sz = replace_pat_loop pool data sz 0"

section \<open>Reading\<close>

text \<open>
  The walk over \<open>ts_list_all\<close> under the lock: what is still to be copied, the bytes copied, the
  nodes left and the pool. A node that does not fill the request is copied whole and dropped.
\<close>

fun read_nodes ::
  "nat \<Rightarrow> ts_node list \<Rightarrow> 'z big_pool_t_scheme
    \<Rightarrow> (nat \<times> byte list \<times> ts_node list \<times> 'z big_pool_t_scheme) option" where
  "read_nodes remain [] pool = Some (remain, [], [], pool)"
| "read_nodes remain (n # ns) pool =
     (case (if generated_pat_pkt pool \<noteq> None \<and> \<not> tn_pat_replaced n then
              (case replace_pat pool (tn_data n) (tn_size n) of
                 None \<Rightarrow> None
               | Some (pool, d) \<Rightarrow> Some (pool, n\<lparr>tn_data := d, tn_pat_replaced := True\<rparr>))
            else Some (pool, n)) of
        None \<Rightarrow> None
      | Some (pool, n) \<Rightarrow>
          let avail = tn_size n - tn_read_off n
          in if remain > avail then
               (case read_nodes (remain - avail) ns
                       (pool\<lparr>ts_list_size := ts_list_size pool - int (tn_size n)\<rparr>) of
                  None \<Rightarrow> None
                | Some (r, out, rest, pool) \<Rightarrow>
                    Some (r, take avail (drop (tn_read_off n) (tn_data n)) @ out, rest, pool))
             else Some (0, take remain (drop (tn_read_off n) (tn_data n)),
                        n\<lparr>tn_read_off := tn_read_off n + remain\<rparr> # ns, pool))"

datatype 'z read_result =
    read_einval
  | read_fault
  | read_blocked
  | read_ok "byte list" "'z big_pool_t_scheme" "ts_node list list"

text \<open>Nodes the processing thread stores between two visits of the reader.\<close>

definition store_nodes :: "ts_node list \<Rightarrow> 'z big_pool_t_scheme \<Rightarrow> 'z big_pool_t_scheme" where
  "store_nodes ns pool = pool\<lparr>ts_list_all := ts_list_all pool @ ns,
     ts_list_size := ts_list_size pool + nodes_size ns\<rparr>"

fun read_ts_loop ::
  "nat \<Rightarrow> byte list \<Rightarrow> 'z big_pool_t_scheme \<Rightarrow> ts_node list list \<Rightarrow> 'z read_result" where
  "read_ts_loop remain res pool arrivals =
     (if remain = 0 then read_ok res pool arrivals
      else case arrivals of
             [] \<Rightarrow> read_blocked
           | ns # later \<Rightarrow>
               let pool = store_nodes ns pool
               in case read_nodes remain (ts_list_all pool) pool of
                    None \<Rightarrow> read_fault
                  | Some (r, out, rest, pool) \<Rightarrow>
                      read_ts_loop r (res @ out) (pool\<lparr>ts_list_all := rest\<rparr>) later)"

declare read_ts_loop.simps [simp del]

definition read_ts_data ::
  "'z big_pool_t_scheme \<Rightarrow> nat \<Rightarrow> ts_node list list \<Rightarrow> 'z read_result" where
  "read_ts_data pool sz arrivals =
     (if initialized pool \<noteq> BIG_POOL_MAGIC then read_einval
      else read_ts_loop sz [] pool arrivals)"

section \<open>The stored stream\<close>

definition node_ok :: "ts_node \<Rightarrow> bool" where
  "node_ok n \<longleftrightarrow> tn_read_off n \<le> tn_size n \<and> length (tn_data n) = tn_size n"

definition node_rest :: "ts_node \<Rightarrow> byte list" where
  "node_rest n = drop (tn_read_off n) (tn_data n)"

definition stream_of :: "ts_node list \<Rightarrow> byte list" where
  "stream_of ns = concat (map node_rest ns)"

lemma stream_of_simps [simp]:
  "stream_of [] = []" "stream_of (n # ns) = node_rest n @ stream_of ns"
  "stream_of (xs @ ys) = stream_of xs @ stream_of ys"
  by (simp_all add: stream_of_def)

lemma node_rest_avail:
  "node_ok n \<Longrightarrow> length (node_rest n) = tn_size n - tn_read_off n"
  "node_ok n \<Longrightarrow> take (tn_size n - tn_read_off n) (drop (tn_read_off n) (tn_data n)) = node_rest n"
  by (simp_all add: node_ok_def node_rest_def)

text \<open>A pool that does not rewrite: no generated PAT, or every node rewritten already.\<close>

lemma read_nodes_plain:
  assumes "generated_pat_pkt pool = None" and "list_all node_ok ns" and "0 < remain"
  shows "\<exists>r out rest pool'. read_nodes remain ns pool = Some (r, out, rest, pool')
    \<and> length out + r = remain \<and> out @ stream_of rest = stream_of ns
    \<and> list_all node_ok rest \<and> (r = 0 \<or> rest = [])
    \<and> generated_pat_pkt pool' = None \<and> initialized pool' = initialized pool
    \<and> ts_list_size pool' - nodes_size rest = ts_list_size pool - nodes_size ns"
  using assms
proof (induction ns arbitrary: remain pool)
  case (Cons n ns)
  then have n: "node_ok n" by simp
  let ?a = "tn_size n - tn_read_off n"
  show ?case
  proof (cases "remain > ?a")
    case True
    let ?p = "pool\<lparr>ts_list_size := ts_list_size pool - int (tn_size n)\<rparr>"
    from True Cons.prems obtain r out rest pool' where
      "read_nodes (remain - ?a) ns ?p = Some (r, out, rest, pool')"
      "length out + r = remain - ?a" "out @ stream_of rest = stream_of ns"
      "list_all node_ok rest" "r = 0 \<or> rest = []" "generated_pat_pkt pool' = None"
      "initialized pool' = initialized pool"
      "ts_list_size pool' - nodes_size rest = ts_list_size ?p - nodes_size ns"
      using Cons.IH [of ?p "remain - ?a"] by auto
    with True Cons.prems n show ?thesis by (simp add: node_rest_avail Let_def)
  next
    case False
    with n have le: "remain \<le> length (node_rest n)" by (simp add: node_rest_avail)
    from n False have ok: "node_ok (n\<lparr>tn_read_off := tn_read_off n + remain\<rparr>)"
      by (auto simp: node_ok_def)
    have "take remain (node_rest n) @ node_rest (n\<lparr>tn_read_off := tn_read_off n + remain\<rparr>) = node_rest n"
      by (simp add: node_rest_def drop_drop [symmetric] add.commute del: drop_drop)
    then have "take remain (drop (tn_read_off n) (tn_data n)) @
        node_rest (n\<lparr>tn_read_off := tn_read_off n + remain\<rparr>) @ stream_of ns = node_rest n @ stream_of ns"
      by (simp add: node_rest_def)
    with False Cons.prems ok le show ?thesis by (simp add: node_rest_def Let_def)
  qed
qed simp

lemma read_ts_loop_plain:
  assumes "generated_pat_pkt pool = None" and "list_all node_ok (ts_list_all pool)"
    and "list_all (list_all node_ok) arrivals"
    and "read_ts_loop remain res pool arrivals = read_ok out pool' later"
  shows "\<exists>got. out = res @ got \<and> length got = remain
    \<and> got @ stream_of (ts_list_all pool') @ stream_of (concat later)
        = stream_of (ts_list_all pool) @ stream_of (concat arrivals)
    \<and> ts_list_size pool' - nodes_size (ts_list_all pool') = ts_list_size pool - nodes_size (ts_list_all pool)"
  using assms
proof (induction arrivals arbitrary: remain res pool)
  case Nil
  then show ?case by (subst (asm) read_ts_loop.simps) (auto split: if_splits)
next
  case (Cons ns arr)
  show ?case
  proof (cases "remain = 0")
    case True
    with Cons.prems(4) show ?thesis by (simp add: read_ts_loop.simps)
  next
    case False
    let ?p = "store_nodes ns pool"
    have "list_all node_ok (ts_list_all ?p)" "generated_pat_pkt ?p = None"
      using Cons.prems by (simp_all add: store_nodes_def)
    with False obtain r o1 rest p1 where rn: "read_nodes remain (ts_list_all ?p) ?p = Some (r, o1, rest, p1)"
      "length o1 + r = remain" "o1 @ stream_of rest = stream_of (ts_list_all ?p)"
      "list_all node_ok rest" "generated_pat_pkt p1 = None"
      "ts_list_size p1 - nodes_size rest = ts_list_size ?p - nodes_size (ts_list_all ?p)"
      using read_nodes_plain [of ?p "ts_list_all ?p" remain] by auto
    let ?q = "p1\<lparr>ts_list_all := rest\<rparr>"
    have "read_ts_loop r (res @ o1) ?q arr = read_ok out pool' later"
      using Cons.prems(4) False rn(1) by (subst (asm) read_ts_loop.simps) (simp add: Let_def)
    with Cons.IH [of ?q r "res @ o1"] Cons.prems(3) rn(4,5)
    obtain got where g: "out = (res @ o1) @ got" "length got = r"
      "got @ stream_of (ts_list_all pool') @ stream_of (concat later) = stream_of rest @ stream_of (concat arr)"
      "ts_list_size pool' - nodes_size (ts_list_all pool') = ts_list_size p1 - nodes_size rest"
      by auto
    have "o1 @ got @ stream_of (ts_list_all pool') @ stream_of (concat later)
        = (o1 @ stream_of rest) @ stream_of (concat arr)" by (simp only: g(3) append.assoc)
    also have "\<dots> = stream_of (ts_list_all pool) @ stream_of (concat (ns # arr))"
      by (simp add: rn(3) store_nodes_def)
    finally show ?thesis using g rn(2,6)
      by (intro exI [of _ "o1 @ got"]) (simp add: store_nodes_def)
  qed
qed

section \<open>What the rewriting does to a sequence of packets\<close>

definition is_pkt :: "byte list \<Rightarrow> bool" where
  "is_pkt p \<longleftrightarrow> length p = TS_SIZE \<and> p ! 0 = TS_SYNC"

definition pkt_pid :: "byte list \<Rightarrow> nat" where
  "pkt_pid p = ts_pid (p ! 1) (p ! 2)"

text \<open>
  The intended effect: every PAT becomes the generated one with the next continuity counter,
  every SDT becomes a null packet, all others stay.
\<close>

fun rewrite_pkts :: "byte list \<Rightarrow> nat \<Rightarrow> byte list list \<Rightarrow> byte list list" where
  "rewrite_pkts pat c [] = []"
| "rewrite_pkts pat c (p # ps) =
     (if pkt_pid p = 0 then set_cc pat (of_nat (c mod 16)) # rewrite_pkts pat (c + 1) ps
      else if pkt_pid p = 0x11 then ([0x47, 0x1F, 0xFF, 0] @ drop 4 p) # rewrite_pkts pat c ps
      else p # rewrite_pkts pat c ps)"

lemma set_cc_again [simp]: "3 < length pat \<Longrightarrow> set_cc (set_cc pat a) b = set_cc pat b"
proof -
  have "(x AND 0xf0 OR (a AND 0x0f)) AND 0xf0 = x AND 0xf0" for x :: byte
    by (simp add: word_ao_dist and.assoc)
  then show "3 < length pat \<Longrightarrow> ?thesis" by (simp add: set_cc_def)
qed

lemma rewrite_pkts_set_cc:
  "3 < length pat \<Longrightarrow> rewrite_pkts (set_cc pat a) c ps = rewrite_pkts pat c ps"
  by (induction ps arbitrary: c) simp_all

text \<open>The stored counter runs from 0 to 16, and 16 counts as 0.\<close>

lemma pat_counter_step:
  fixes pc :: byte
  assumes "unat pc \<le> 16" and "unat pc mod 16 = c mod 16"
  defines "pc' \<equiv> (if pc = 0x10 then 0 else pc)"
  shows "pc' = of_nat (c mod 16)" and "unat (pc' + 1) \<le> 16" and "unat (pc' + 1) mod 16 = (c + 1) mod 16"
proof -
  have m: "unat pc' = c mod 16"
  proof (cases "pc = 0x10")
    case True
    then show ?thesis using assms(2) by (simp add: pc'_def)
  next
    case False
    then have "unat pc \<noteq> 16" by (simp add: word_unat_eq_iff)
    with assms(1) have "unat pc < 16" by simp
    then show ?thesis using assms(2) False by (simp add: pc'_def)
  qed
  then show "pc' = of_nat (c mod 16)" by (simp flip: m)
  have "unat (pc' + 1) = c mod 16 + 1"
    using m by (subst unat_plus_simple [THEN iffD1]) (auto simp: word_le_nat_alt unat_word_ariths)
  then show "unat (pc' + 1) \<le> 16" "unat (pc' + 1) mod 16 = (c + 1) mod 16" by (simp_all add: mod_Suc_eq)
qed

lemma nth_concat_head:
  "i < length p \<Longrightarrow> (pre @ p @ xs) ! (length pre + i) = p ! i"
  by (simp add: nth_append)

lemma put_bytes_mid:
  "length q \<le> length p \<Longrightarrow>
     put_bytes (pre @ p @ xs) (length pre) q = pre @ (q @ drop (length q) p) @ xs"
  by (simp add: put_bytes_def)

lemma ts_pid_PAT: "is_pkt p \<Longrightarrow> (pre @ p @ xs) ! length pre = TS_SYNC"
  "is_pkt p \<Longrightarrow> ts_pid ((pre @ p @ xs) ! (length pre + 1)) ((pre @ p @ xs) ! (length pre + 2)) = pkt_pid p"
  using nth_concat_head [of 0 p pre xs] nth_concat_head [of 1 p pre xs] nth_concat_head [of 2 p pre xs]
  by (auto simp: is_pkt_def pkt_pid_def)

lemma replace_pat_loop_packets:
  assumes "list_all is_pkt pkts" and "generated_pat_pkt pool = Some pat" and "length pat = TS_SIZE"
    and "sdt_pkt_array pool = None" and "cur_sdt pool = 0" and "sdt_count pool \<le> 1"
    and "unat (pat_counter pool) \<le> 16" and "unat (pat_counter pool) mod 16 = c mod 16"
  shows "\<exists>pool'. replace_pat_loop pool (pre @ concat pkts) (length pre + TS_SIZE * length pkts) (length pre)
    = Some (pool', pre @ concat (rewrite_pkts pat c pkts))"
  using assms
proof (induction pkts arbitrary: pool pre pat c)
  case Nil
  then show ?case by (simp add: replace_pat_loop.simps)
next
  case (Cons p ps)
  let ?sz = "length pre + TS_SIZE * length (p # ps)"
  let ?D = "pre @ p @ concat ps"
  from Cons.prems(1) have p: "is_pkt p" "list_all is_pkt ps" by simp_all
  then have pl: "length p = TS_SIZE" by (simp add: is_pkt_def)
  have room: "length pre + TS_SIZE \<le> ?sz" by simp
  have shift: "?sz = length (pre @ q) + TS_SIZE * length ps" "length pre + TS_SIZE = length (pre @ q)"
    if "length q = TS_SIZE" for q :: "byte list" using that by simp_all
  have d: "?D ! length pre = TS_SYNC"
    "ts_pid (?D ! Suc (length pre)) (?D ! Suc (Suc (length pre))) = pkt_pid p"
    using ts_pid_PAT [OF p(1), of pre "concat ps"] by simp_all
  note unf = replace_pat_loop.simps [of pool ?D ?sz "length pre"]
  consider (pat) "pkt_pid p = 0" | (sdt) "pkt_pid p = 0x11" | (other) "pkt_pid p \<noteq> 0" "pkt_pid p \<noteq> 0x11" by blast
  then show ?case
  proof cases
    case pat
    let ?pc = "if pat_counter pool = 0x10 then 0 else pat_counter pool"
    let ?pat = "set_cc pat (of_nat (c mod 16))"
    let ?pool = "pool\<lparr>generated_pat_pkt := Some ?pat, pat_counter := ?pc + 1\<rparr>"
    note pc = pat_counter_step [OF Cons.prems(7,8)]
    have step: "replace_pat_loop pool ?D ?sz (length pre)
        = replace_pat_loop ?pool ((pre @ ?pat) @ concat ps) (length (pre @ ?pat) + TS_SIZE * length ps) (length (pre @ ?pat))"
      using room pat p pl Cons.prems(2,3)
      by (subst unf) (simp add: d put_bytes_mid Let_def add.assoc flip: pc(1))
    have "\<exists>pool'. replace_pat_loop ?pool ((pre @ ?pat) @ concat ps)
        (length (pre @ ?pat) + TS_SIZE * length ps) (length (pre @ ?pat))
        = Some (pool', (pre @ ?pat) @ concat (rewrite_pkts ?pat (c + 1) ps))"
      by (rule Cons.IH) (use Cons.prems p pl pc in simp_all)
    with step pat Cons.prems(3) show ?thesis by (simp add: rewrite_pkts_set_cc)
  next
    case sdt
    let ?q = "[0x47, 0x1F, 0xFF, 0] @ drop 4 p"
    let ?pool = "pool\<lparr>cur_sdt := 0\<rparr>"
    have d4: "drop (Suc (Suc (Suc (Suc 0)))) p = drop 4 p" by (simp add: numeral_eq_Suc)
    have q: "length ?q = TS_SIZE" using pl by simp
    have step: "replace_pat_loop pool ?D ?sz (length pre)
        = replace_pat_loop ?pool ((pre @ ?q) @ concat ps) (length (pre @ ?q) + TS_SIZE * length ps) (length (pre @ ?q))"
      using room sdt p pl Cons.prems(4-6)
      by (subst unf) (simp add: d d4 put_bytes_mid Let_def get_next_sdt_def add.assoc)
    have "\<exists>pool'. replace_pat_loop ?pool ((pre @ ?q) @ concat ps)
        (length (pre @ ?q) + TS_SIZE * length ps) (length (pre @ ?q))
        = Some (pool', (pre @ ?q) @ concat (rewrite_pkts pat c ps))"
      by (rule Cons.IH) (use Cons.prems p pl in simp_all)
    with step sdt show ?thesis by simp
  next
    case other
    have step: "replace_pat_loop pool ?D ?sz (length pre)
        = replace_pat_loop pool ((pre @ p) @ concat ps) (length (pre @ p) + TS_SIZE * length ps) (length (pre @ p))"
      using room other p pl by (subst unf) (simp add: d Let_def add.assoc)
    have "\<exists>pool'. replace_pat_loop pool ((pre @ p) @ concat ps)
        (length (pre @ p) + TS_SIZE * length ps) (length (pre @ p))
        = Some (pool', (pre @ p) @ concat (rewrite_pkts pat c ps))"
      by (rule Cons.IH) (use Cons.prems p pl in simp_all)
    with step other show ?thesis by simp
  qed
qed

section \<open>Properties\<close>

text \<open>C11 (read_ts_data_stream): when \<open>read_ts_data\<close> returns on a pool without a generated PAT (no
  programs selected: with one, PAT packets are replaced on the way) and with consistent nodes, it has copied exactly the requested number of bytes, and they are the first bytes of the stored
  stream: what was copied, followed by what is left, is what was stored before followed by what
  the processing thread stored meanwhile. The accounting of the stored size stays exact.\<close>

theorem read_ts_data_stream:
  assumes "generated_pat_pkt pool = None" and "list_all node_ok (ts_list_all pool)"
    and "list_all (list_all node_ok) arrivals"
    and "ts_list_size pool = nodes_size (ts_list_all pool)"
    and "read_ts_data pool sz arrivals = read_ok out pool' later"
  shows "length out = sz
    \<and> out @ stream_of (ts_list_all pool') @ stream_of (concat later)
        = stream_of (ts_list_all pool) @ stream_of (concat arrivals)
    \<and> ts_list_size pool' = nodes_size (ts_list_all pool')"
  using read_ts_loop_plain [OF assms(1-3), of sz "[]" out pool' later] assms(4,5)
  by (auto simp: read_ts_data_def split: if_splits)

theorem read_ts_data_stream_witness:
  "\<exists>out pool' later. read_ts_data quiet_pool 3
      [[\<lparr>tn_counter = 0, tn_data = [1, 2], tn_size = 2, tn_read_off = 0, tn_pat_replaced = False\<rparr>],
       [\<lparr>tn_counter = 1, tn_data = [3, 4], tn_size = 2, tn_read_off = 0, tn_pat_replaced = False\<rparr>]]
      = read_ok out pool' later \<and> length out = 3"
proof -
  let ?a = "[[\<lparr>tn_counter = 0, tn_data = [1, 2], tn_size = 2, tn_read_off = 0, tn_pat_replaced = False\<rparr>],
       [\<lparr>tn_counter = 1, tn_data = [3, 4], tn_size = 2, tn_read_off = 0, tn_pat_replaced = False\<rparr>]]"
  obtain out pool' later where r: "read_ts_data quiet_pool 3 ?a = read_ok out pool' later"
    by (simp add: read_ts_data_def read_ts_loop.simps store_nodes_def quiet_pool_def Let_def)
  have "generated_pat_pkt quiet_pool = None" "list_all node_ok (ts_list_all quiet_pool)"
    "list_all (list_all node_ok) ?a" "ts_list_size quiet_pool = nodes_size (ts_list_all quiet_pool)"
    by (simp_all add: quiet_pool_def node_ok_def)
  from read_ts_data_stream [OF this r] r show ?thesis by blast
qed

text \<open>C32 (read_ts_data_returns): on an initialised pool without a generated PAT and with
  consistent nodes, \<open>read_ts_data\<close> returns when at least one batch of nodes arrives and the stored and arriving
  nodes together hold the requested number of bytes.\<close>

theorem read_ts_data_returns:
  assumes "initialized pool = BIG_POOL_MAGIC" and "generated_pat_pkt pool = None"
    and "list_all node_ok (ts_list_all pool)" and "list_all (list_all node_ok) arrivals"
    and "arrivals \<noteq> []"
    and "sz \<le> length (stream_of (ts_list_all pool) @ stream_of (concat arrivals))"
  shows "\<exists>out pool' later. read_ts_data pool sz arrivals = read_ok out pool' later"
proof -
  have "\<exists>out pool' later. read_ts_loop remain res pool arrivals = read_ok out pool' later"
    if "generated_pat_pkt pool = None" "list_all node_ok (ts_list_all pool)"
      "list_all (list_all node_ok) arrivals"
      "remain \<le> length (stream_of (ts_list_all pool) @ stream_of (concat arrivals))"
      "arrivals \<noteq> [] \<or> ts_list_all pool = []"
    for remain res and pool :: "'a big_pool_t_scheme"
    using that
  proof (induction arrivals arbitrary: remain res pool)
    case Nil
    then show ?case by (simp add: read_ts_loop.simps)
  next
    case (Cons ns arr)
    let ?p = "store_nodes ns pool"
    show ?case
    proof (cases "remain = 0")
      case False
      have "list_all node_ok (ts_list_all ?p)" "generated_pat_pkt ?p = None"
        using Cons.prems by (simp_all add: store_nodes_def)
      with False obtain r o1 rest p1 where rn: "read_nodes remain (ts_list_all ?p) ?p = Some (r, o1, rest, p1)"
        "length o1 + r = remain" "o1 @ stream_of rest = stream_of (ts_list_all ?p)"
        "list_all node_ok rest" "generated_pat_pkt p1 = None" "r = 0 \<or> rest = []"
        using read_nodes_plain [of ?p "ts_list_all ?p" remain] by auto
      let ?q = "p1\<lparr>ts_list_all := rest\<rparr>"
      have step: "read_ts_loop remain res pool (ns # arr) = read_ts_loop r (res @ o1) ?q arr"
        using False rn(1) by (subst read_ts_loop.simps) (simp add: Let_def)
      have len: "length o1 + length (stream_of rest) = length (stream_of (ts_list_all pool)) + length (stream_of ns)"
        using arg_cong [OF rn(3), of length] by (simp add: store_nodes_def)
      show ?thesis
      proof (cases "r = 0")
        case True
        have "read_ts_loop 0 (res @ o1) ?q arr = read_ok (res @ o1) ?q arr"
          by (subst read_ts_loop.simps) simp
        with True step show ?thesis by auto
      next
        case F: False
        with rn(6) have "rest = []" by simp
        have "\<exists>out pool' later. read_ts_loop r (res @ o1) ?q arr = read_ok out pool' later"
          by (rule Cons.IH) (use Cons.prems rn len \<open>rest = []\<close> in simp_all)
        with step show ?thesis by simp
      qed
    qed (simp add: read_ts_loop.simps)
  qed
  from this [OF assms(2-4,6)] assms(1,5) show ?thesis by (simp add: read_ts_data_def)
qed

theorem read_ts_data_returns_witness:
  "\<exists>out pool' later. read_ts_data quiet_pool 1
      [[\<lparr>tn_counter = 0, tn_data = [1, 2], tn_size = 2, tn_read_off = 0, tn_pat_replaced = False\<rparr>]]
      = read_ok out pool' later"
  by (rule read_ts_data_returns)
    (simp_all add: quiet_pool_def node_ok_def node_rest_def)

text \<open>replace_pat_rewrites: on a node of whole TS packets, with a generated PAT and no SDT array,
  \<open>replace_pat\<close> succeeds and does exactly the intended rewriting: each PAT packet is the generated
  one, the k-th of them with continuity counter \<open>(c + k) mod 16\<close>, each SDT packet gets the null PID,
  and no other packet changes.\<close>

theorem replace_pat_rewrites:
  assumes "list_all is_pkt pkts" and "generated_pat_pkt pool = Some pat" and "length pat = TS_SIZE"
    and "sdt_pkt_array pool = None" and "cur_sdt pool = 0" and "sdt_count pool \<le> 1"
    and "unat (pat_counter pool) \<le> 16" and "unat (pat_counter pool) mod 16 = c mod 16"
  shows "\<exists>pool'. replace_pat pool (concat pkts) (TS_SIZE * length pkts)
    = Some (pool', concat (rewrite_pkts pat c pkts))"
  using replace_pat_loop_packets [OF assms, of "[]"] by (simp add: replace_pat_def)

definition pat_packet :: "byte list" where
  "pat_packet = [0x47, 0x40, 0, 0x10] @ replicate 184 0"

theorem replace_pat_rewrites_witness:
  "\<exists>pool'. replace_pat (quiet_pool\<lparr>generated_pat_pkt := Some pat_packet, pat_counter := 16\<rparr>)
      (pat_packet @ pat_packet) 376 = Some (pool', set_cc pat_packet 0 @ set_cc pat_packet 1)"
proof -
  let ?p = "quiet_pool\<lparr>generated_pat_pkt := Some pat_packet, pat_counter := 16\<rparr>"
  have "pkt_pid pat_packet = 0" by (simp add: pkt_pid_def ts_pid_def pat_packet_def)
  moreover have "list_all is_pkt [pat_packet, pat_packet]" "length pat_packet = TS_SIZE"
    by (simp_all add: is_pkt_def pat_packet_def)
  ultimately show ?thesis
    using replace_pat_rewrites [of "[pat_packet, pat_packet]" ?p pat_packet 16]
    by (simp add: quiet_pool_def)
qed

end
