(* ===== verification/Spi.thy ===== *)
theory Spi
  imports Fpga
begin

text \<open>
  \<open>src/joker_spi.c\<close>: the SPI flash of the card (M25P128, 256-byte pages, 256-Kbyte sectors).
  The wait for the status register is a loop without a bound, so the operations are partial:
  \<open>None\<close> means that the status never becomes 0. The file is its content, \<open>None\<close> when it cannot
  be opened.
\<close>

abbreviation J_SPI_PAGE_SIZE :: nat where "J_SPI_PAGE_SIZE \<equiv> 256"
abbreviation J_SPI_SECTOR_SIZE :: nat where "J_SPI_SECTOR_SIZE \<equiv> 262144"
abbreviation FLASH_SIZE :: nat where "FLASH_SIZE \<equiv> 16777216"

section \<open>The operations\<close>

text \<open>\<open>(off >> k) & 0xFF\<close>\<close>

definition off_byte :: "nat \<Rightarrow> nat \<Rightarrow> byte" where
  "off_byte off k = of_nat (drop_bit k off)"

abbreviation zero_buf :: "byte list" where "zero_buf \<equiv> replicate JCMD_BUF_LEN 0"

definition joker_flash_checkid ::
  "'d usb_dev \<Rightarrow> ('d, 'z) joker_t_scheme \<Rightarrow> int \<times> ('d, 'z) joker_t_scheme" where
  "joker_flash_checkid dev j =
     (let (ret, in_buf, j) = joker_cmd dev j [J_CMD_SPI, 0x9F, 0, 0, 0] 5 zero_buf 5
      in if ret \<noteq> 0 then (ret, j)
         else if in_buf ! 2 \<noteq> 0x20 \<and> in_buf ! 3 \<noteq> 0x20 \<and> in_buf ! 4 \<noteq> 0x18 then (- 1, j)
         else (0, j))"

text \<open>
  The polling loop of \<open>joker_flash_erase_sector\<close> and \<open>joker_flash_write_page\<close>; the third byte
  sent is left over from the address.
\<close>

partial_function (option) spi_wait ::
  "'d usb_dev \<Rightarrow> byte \<Rightarrow> byte list \<Rightarrow> ('d, 'z) joker_t_scheme \<Rightarrow> (int \<times> ('d, 'z) joker_t_scheme) option" where
  "spi_wait dev b in_buf j =
     (let r = joker_cmd dev j [J_CMD_SPI, 0x05, b] 3 in_buf 3
      in if fst r \<noteq> 0 then Some (fst r, snd (snd r))
         else if fst (snd r) ! 2 = 0 then Some (0, snd (snd r))
         else spi_wait dev b (fst (snd r)) (snd (snd r)))"

definition joker_flash_erase_sector ::
  "'d usb_dev \<Rightarrow> ('d, 'z) joker_t_scheme \<Rightarrow> nat \<Rightarrow> (int \<times> ('d, 'z) joker_t_scheme) option" where
  "joker_flash_erase_sector dev j off =
     (let (ret, in_buf, j) = joker_cmd dev j [J_CMD_SPI, 0x06] 2 zero_buf 2
      in if ret \<noteq> 0 then Some (ret, j)
         else let (ret, in_buf, j) =
                joker_cmd dev j [J_CMD_SPI, 0xD8, off_byte off 16, off_byte off 8, off_byte off 0] 5 in_buf 5
              in if ret \<noteq> 0 then Some (ret, j)
                 else spi_wait dev (off_byte off 16) in_buf j)"

definition joker_flash_write_page ::
  "'d usb_dev \<Rightarrow> ('d, 'z) joker_t_scheme \<Rightarrow> byte list \<Rightarrow> nat \<Rightarrow> (int \<times> ('d, 'z) joker_t_scheme) option" where
  "joker_flash_write_page dev j data off =
     (let (ret, in_buf, j) = joker_cmd dev j [J_CMD_SPI, 0x06] 2 zero_buf 2
      in if ret \<noteq> 0 then Some (ret, j)
         else let buf = [J_CMD_SPI, 0x02, off_byte off 16, off_byte off 8, off_byte off 0] @ data;
                  (ret, in_buf, j) = joker_cmd dev j buf (length data + 5) zero_buf (length data + 5)
              in if ret \<noteq> 0 then Some (ret, j)
                 else spi_wait dev (off_byte off 16) in_buf j)"

text \<open>The programming loop; \<open>prev\<close> is the last sector erased, -1 before the first.\<close>

function flash_write_loop ::
  "'d usb_dev \<Rightarrow> byte list \<Rightarrow> nat \<Rightarrow> int \<Rightarrow> ('d, 'z) joker_t_scheme \<Rightarrow> (int \<times> ('d, 'z) joker_t_scheme) option" where
  "flash_write_loop dev img off prev j =
     (if off < length img then
        let to_write = (if length img - off > J_SPI_PAGE_SIZE then J_SPI_PAGE_SIZE else length img - off);
            next = int ((off + to_write) div J_SPI_SECTOR_SIZE)
        in case (if next > prev then joker_flash_erase_sector dev j (nat next * J_SPI_SECTOR_SIZE)
                 else Some (0, j)) of
             None \<Rightarrow> None
           | Some (ret, j) \<Rightarrow>
               if ret \<noteq> 0 then Some (- 1, j)
               else let prev = (if next > prev then next else prev)
                    in case joker_flash_write_page dev j (take to_write (drop off img)) off of
                         None \<Rightarrow> None
                       | Some (ret, j) \<Rightarrow>
                           if ret \<noteq> 0 then Some (- 1, j)
                           else flash_write_loop dev img (off + to_write) prev j
      else Some (0, j))"
  by pat_completeness auto
termination
  by (relation "measure (\<lambda>(dev, img, off, prev, j). length img - off)") auto

declare flash_write_loop.simps [simp del]

definition joker_flash_write ::
  "'d usb_dev \<Rightarrow> ('d, 'z) joker_t_scheme \<Rightarrow> byte list option \<Rightarrow> (int \<times> ('d, 'z) joker_t_scheme) option" where
  "joker_flash_write dev j file =
     (case file of
        None \<Rightarrow> Some (- 1, j)
      | Some img \<Rightarrow>
          if length img = 0 \<or> length img > FLASH_SIZE then Some (- 1, j)
          else flash_write_loop dev img 0 (- 1) j)"

section \<open>The flash chip\<close>

text \<open>
  What the chip does with the commands it receives (its write-enable latch and its content):
  an erase sets a sector to 0xFF, a page program can only clear bits and wraps in the page, and
  both need the latch, which they clear. Addresses have 24 bits.
\<close>

type_synonym flash = "bool \<times> (nat \<Rightarrow> byte)"

definition addr24 :: "byte \<Rightarrow> byte \<Rightarrow> byte \<Rightarrow> nat" where
  "addr24 a b c = unat a * 65536 + unat b * 256 + unat c"

definition erase_mem :: "nat \<Rightarrow> (nat \<Rightarrow> byte) \<Rightarrow> nat \<Rightarrow> byte" where
  "erase_mem a mem = (\<lambda>i. if i div J_SPI_SECTOR_SIZE = a div J_SPI_SECTOR_SIZE then 0xFF else mem i)"

definition program_mem :: "nat \<Rightarrow> byte list \<Rightarrow> (nat \<Rightarrow> byte) \<Rightarrow> nat \<Rightarrow> byte" where
  "program_mem a data mem = (\<lambda>i.
     let k = (i + J_SPI_PAGE_SIZE - a mod J_SPI_PAGE_SIZE) mod J_SPI_PAGE_SIZE
     in if i div J_SPI_PAGE_SIZE = a div J_SPI_PAGE_SIZE \<and> k < length data then mem i AND data ! k else mem i)"

fun flash_step :: "flash \<Rightarrow> byte list \<Rightarrow> flash" where
  "flash_step (wel, mem) (c # x # rest) =
     (if c \<noteq> J_CMD_SPI then (wel, mem)
      else if x = 0x06 then (True, mem)
      else if x = 0xD8 then
        (case rest of
           a # b # d # _ \<Rightarrow> if wel then (False, erase_mem (addr24 a b d) mem) else (wel, mem)
         | _ \<Rightarrow> (wel, mem))
      else if x = 0x02 then
        (case rest of
           a # b # d # data \<Rightarrow> if wel then (False, program_mem (addr24 a b d) data mem) else (wel, mem)
         | _ \<Rightarrow> (wel, mem))
      else (wel, mem))"
| "flash_step s _ = s"

definition flash_run :: "byte list list \<Rightarrow> flash \<Rightarrow> flash" where
  "flash_run cmds s = foldl flash_step s cmds"

lemma flash_run_simps [simp]:
  "flash_run [] s = s" "flash_run (c # cs) s = flash_run cs (flash_step s c)"
  "flash_run (xs @ ys) s = flash_run ys (flash_run xs s)"
  by (simp_all add: flash_run_def)

lemma addr24_off:
  assumes "off < FLASH_SIZE" shows "addr24 (off_byte off 16) (off_byte off 8) (off_byte off 0) = off"
proof -
  have "unat (off_byte off 16) = off div 65536"
    using assms by (simp add: off_byte_def drop_bit_eq_div unat_of_nat less_mult_imp_div_less)
  moreover have "unat (off_byte off 8) = off div 256 mod 256" "unat (off_byte off 0) = off mod 256"
    by (simp_all add: off_byte_def drop_bit_eq_div unat_of_nat)
  moreover have "off = off div 256 * 256 + off mod 256"
    "off div 256 = off div 256 div 256 * 256 + off div 256 mod 256" by simp_all
  moreover have "off div 65536 = off div 256 div 256" by (simp flip: div_mult2_eq)
  ultimately show ?thesis unfolding addr24_def by linarith
qed

lemma addr24_wrap: "addr24 (off_byte FLASH_SIZE 16) (off_byte FLASH_SIZE 8) (off_byte FLASH_SIZE 0) = 0"
  by (simp add: addr24_def off_byte_def drop_bit_eq_div)

section \<open>From the commands to the flash content\<close>

text \<open>\<open>flashed j j' f\<close>: between \<open>j\<close> and \<open>j'\<close> the chip content changed by \<open>f\<close>.\<close>

definition flashed ::
  "('d, 'z) joker_t_scheme \<Rightarrow> ('d, 'z) joker_t_scheme \<Rightarrow> ((nat \<Rightarrow> byte) \<Rightarrow> nat \<Rightarrow> byte) \<Rightarrow> bool" where
  "flashed j j' f \<longleftrightarrow> io_mux_opaq j' \<and>
     (\<exists>cmds. usb_log j' = usb_log j @ cmds \<and> (\<forall>mem. flash_run cmds (False, mem) = (False, f mem)))"

lemma flashed_trans: "flashed j j1 f \<Longrightarrow> flashed j1 j2 g \<Longrightarrow> flashed j j2 (g \<circ> f)"
  by (fastforce simp: flashed_def)

lemma flashed_refl: "io_mux_opaq j \<Longrightarrow> flashed j j id"
  by (simp add: flashed_def)

lemma spi_wait_flash:
  assumes "spi_wait dev b ib j = Some res" and "io_mux_opaq j"
  shows "io_mux_opaq (snd res)
    \<and> (\<exists>cmds. usb_log (snd res) = usb_log j @ cmds \<and> (\<forall>s. flash_run cmds s = s))"
proof -
  let ?P = "\<lambda>dev b ib j res. io_mux_opaq j \<longrightarrow> io_mux_opaq (snd res)
    \<and> (\<exists>cmds. usb_log (snd res) = usb_log j @ cmds \<and> (\<forall>s. flash_run cmds s = s))"
  have "?P dev b ib j res"
  proof (rule spi_wait.raw_induct [where P = ?P, OF _ assms(1)], intro impI)
    fix sw dev b ib j res
    assume IH: "\<And>dev b ib j res. sw dev b ib j = Some res \<Longrightarrow> ?P dev b ib j res"
      and eq: "(let r = joker_cmd dev j [J_CMD_SPI, 0x05, b] 3 ib 3
        in if fst r \<noteq> 0 then Some (fst r, snd (snd r))
           else if fst (snd r) ! 2 = 0 then Some (0, snd (snd r))
           else sw dev b (fst (snd r)) (snd (snd r))) = Some res"
      and open_j: "io_mux_opaq j"
    let ?c = "[J_CMD_SPI, 0x05, b]"
    obtain ret ob j1 where r: "joker_cmd dev j ?c 3 ib 3 = (ret, ob, j1)" by (metis prod_cases3)
    have o: "io_mux_opaq j1" using open_j joker_cmd_frame(1) [of dev j ?c 3 ib 3] by (simp add: r)
    obtain cs where l: "usb_log j1 = usb_log j @ cs" "cs = [] \<or> cs = [?c]"
      using joker_cmd_log [of dev j ?c 3 ib 3] by (auto simp: r)
    have noop: "flash_run cs s = s" for s using l(2) by (cases s) auto
    have "(if ret \<noteq> 0 then Some (ret, j1) else if ob ! 2 = 0 then Some (0, j1) else sw dev b ob j1) = Some res"
      using eq unfolding r Let_def fst_conv snd_conv .
    then consider "snd res = j1" | "sw dev b ob j1 = Some res" by (auto split: if_splits)
    then show "io_mux_opaq (snd res)
        \<and> (\<exists>cmds. usb_log (snd res) = usb_log j @ cmds \<and> (\<forall>s. flash_run cmds s = s))"
    proof cases
      case 2
      with IH [OF 2] o obtain cmds where "io_mux_opaq (snd res)"
        "usb_log (snd res) = usb_log j1 @ cmds" "\<forall>s. flash_run cmds s = s" by blast
      then show ?thesis using l(1) noop by (intro conjI exI [of _ "cs @ cmds"]) simp_all
    qed (use o l(1) noop in \<open>auto intro!: exI [of _ cs]\<close>)
  qed
  with assms(2) show ?thesis by simp
qed

text \<open>A command with the latch set, followed by the wait.\<close>

lemma latched_flash:
  assumes "io_mux_opaq j" and "\<And>mem. flash_step (True, mem) c = (False, f mem)"
    and "joker_cmd dev j [J_CMD_SPI, 0x06] 2 zero_buf 2 = (0, ib1, j1)"
    and "joker_cmd dev j1 c m ib2 n = (0, ib3, j2)" and "m = length c"
    and "spi_wait dev b ib3 j2 = Some (r, j')"
  shows "flashed j j' f"
proof -
  have "io_mux_opaq j1" "usb_log j1 = usb_log j @ [[J_CMD_SPI, 0x06]]"
    using joker_cmd_frame(1) [of dev j "[J_CMD_SPI, 0x06]" 2 zero_buf 2]
      joker_cmd_log_ok [of dev j "[J_CMD_SPI, 0x06]" 2 zero_buf 2] assms(1,3) by simp_all
  moreover from this have "io_mux_opaq j2" "usb_log j2 = usb_log j1 @ [c]"
    using joker_cmd_frame(1) [of dev j1 c m ib2 n]
      joker_cmd_log_ok [of dev j1 c m ib2 n] assms(4,5) by simp_all
  moreover from this obtain cmds where "io_mux_opaq j'" "usb_log j' = usb_log j2 @ cmds"
    "\<forall>s. flash_run cmds s = s"
    using spi_wait_flash [OF assms(6)] by auto
  ultimately show ?thesis
    using assms(2) by (auto simp: flashed_def intro!: exI [of _ "[[J_CMD_SPI, 0x06], c] @ cmds"])
qed

lemma erase_sector_flash:
  assumes "io_mux_opaq j" and "joker_flash_erase_sector dev j off = Some (0, j')"
  shows "flashed j j' (erase_mem (addr24 (off_byte off 16) (off_byte off 8) (off_byte off 0)))"
proof -
  let ?c = "[J_CMD_SPI, 0xD8, off_byte off 16, off_byte off 8, off_byte off 0]"
  obtain ib1 j1 ib3 j2 where
    c1: "joker_cmd dev j [J_CMD_SPI, 0x06] 2 zero_buf 2 = (0, ib1, j1)"
    and c2: "joker_cmd dev j1 ?c 5 ib1 5 = (0, ib3, j2)" and c3: "spi_wait dev (off_byte off 16) ib3 j2 = Some (0, j')"
    using assms(2) by (auto simp: joker_flash_erase_sector_def split: prod.splits if_splits)
  show ?thesis by (rule latched_flash [OF assms(1) _ c1 c2 _ c3]) simp_all
qed

lemma write_page_flash:
  assumes "io_mux_opaq j" and "joker_flash_write_page dev j data off = Some (0, j')"
  shows "flashed j j' (program_mem (addr24 (off_byte off 16) (off_byte off 8) (off_byte off 0)) data)"
proof -
  let ?c = "[J_CMD_SPI, 0x02, off_byte off 16, off_byte off 8, off_byte off 0] @ data"
  obtain ib1 j1 ib3 j2 where
    c1: "joker_cmd dev j [J_CMD_SPI, 0x06] 2 zero_buf 2 = (0, ib1, j1)"
    and c2: "joker_cmd dev j1 ?c (length data + 5) zero_buf (length data + 5) = (0, ib3, j2)"
    and c3: "spi_wait dev (off_byte off 16) ib3 j2 = Some (0, j')"
    using assms(2) by (auto simp: joker_flash_write_page_def Let_def split: prod.splits if_splits)
  show ?thesis by (rule latched_flash [OF assms(1) _ c1 c2 _ c3]) simp_all
qed

section \<open>The programming loop\<close>

lemma int_less_blocks: "(int i < (int m + 1) * int d) = (i < (m + 1) * d)"
  by (metis of_nat_1 of_nat_add of_nat_less_iff of_nat_mult)

lemma program_page:
  assumes "J_SPI_PAGE_SIZE dvd a" and "length data \<le> J_SPI_PAGE_SIZE"
    and "\<And>i. a \<le> i \<Longrightarrow> i < a + length data \<Longrightarrow> mem i = 0xFF"
  shows "program_mem a data mem i =
    (if a \<le> i \<and> i < a + length data then data ! (i - a) else mem i)"
proof -
  obtain q where q: "a = J_SPI_PAGE_SIZE * q" using assms(1) by blast
  have k: "(i + J_SPI_PAGE_SIZE - a mod J_SPI_PAGE_SIZE) mod J_SPI_PAGE_SIZE = i mod J_SPI_PAGE_SIZE"
    by (simp add: q)
  show ?thesis
  proof (cases "i div J_SPI_PAGE_SIZE = q")
    case True
    then have i: "i = a + i mod J_SPI_PAGE_SIZE" using q by (metis mult_div_mod_eq)
    then have "i - a = i mod J_SPI_PAGE_SIZE" by (metis add_diff_cancel_left')
    moreover have "x AND y = y" if "x = 0xFF" for x y :: byte
    proof -
      have "(0xFF::byte) = - 1" by simp
      with that show ?thesis by (simp only: and.left_neutral)
    qed
    moreover have "a \<le> i" using i by (metis le_add1)
    ultimately show ?thesis using assms(3) [of i] True unfolding program_mem_def Let_def k
      by (auto simp: q)
  next
    case False
    then have "\<not> (a \<le> i \<and> i < a + length data)"
      using assms(2) q by (auto simp: div_nat_eqI)
    with False show ?thesis unfolding program_mem_def Let_def by (auto simp: q)
  qed
qed

text \<open>
  The content while the loop runs: the image up to \<open>off\<close>, then erased to the end of the last
  erased sector, then what was there before (\<open>old\<close>).
\<close>

definition burn_inv :: "(nat \<Rightarrow> byte) \<Rightarrow> byte list \<Rightarrow> nat \<Rightarrow> int \<Rightarrow> (nat \<Rightarrow> byte) \<Rightarrow> bool" where
  "burn_inv old img off prev mem \<longleftrightarrow> (\<forall>i<off. mem i = img ! i)
     \<and> (\<forall>i\<ge>off. int i < (prev + 1) * int J_SPI_SECTOR_SIZE \<longrightarrow> mem i = 0xFF)
     \<and> (\<forall>i. (prev + 1) * int J_SPI_SECTOR_SIZE \<le> int i \<longrightarrow> mem i = old i)"

definition burn_pos :: "byte list \<Rightarrow> nat \<Rightarrow> int \<Rightarrow> bool" where
  "burn_pos img off prev \<longleftrightarrow> off \<le> length img \<and> (J_SPI_PAGE_SIZE dvd off \<or> off = length img)
     \<and> (off = 0 \<and> prev = - 1 \<or> off \<noteq> 0 \<and> prev = int (off div J_SPI_SECTOR_SIZE))"

text \<open>One pass of the loop, on the content: erase if a new sector is reached, then program.\<close>

definition burn_step :: "byte list \<Rightarrow> nat \<Rightarrow> int \<Rightarrow> (nat \<Rightarrow> byte) \<Rightarrow> nat \<Rightarrow> byte" where
  "burn_step img off prev mem =
     (let n = min J_SPI_PAGE_SIZE (length img - off);
          next = (off + n) div J_SPI_SECTOR_SIZE
      in program_mem off (take n (drop off img))
           (if int next > prev then erase_mem (next * J_SPI_SECTOR_SIZE mod FLASH_SIZE) mem else mem))"

lemma burn_pos_step:
  assumes pos: "burn_pos img off prev"
    and off: "off < length img" and n: "n = min J_SPI_PAGE_SIZE (length img - off)"
  shows "burn_pos img (off + n) (int ((off + n) div J_SPI_SECTOR_SIZE))"
proof -
  have "J_SPI_PAGE_SIZE dvd off" using pos off by (auto simp: burn_pos_def)
  then show ?thesis using off n by (auto simp: burn_pos_def min_def)
qed

lemma burn_step_inv:
  assumes pos: "burn_pos img off prev" and inv: "burn_inv old img off prev mem"
    and off: "off < length img" and n: "n = min J_SPI_PAGE_SIZE (length img - off)"
    and fits: "off + n < FLASH_SIZE"
  shows "burn_inv old img (off + n) (int ((off + n) div J_SPI_SECTOR_SIZE)) (burn_step img off prev mem)"
proof -
  have dv: "J_SPI_PAGE_SIZE dvd off" using pos off by (auto simp: burn_pos_def)
  have n0: "0 < n" "n \<le> J_SPI_PAGE_SIZE" "off + n \<le> length img" using n off by auto
  let ?s = "(off + n) div J_SPI_SECTOR_SIZE"
  let ?e = "if int ?s > prev then erase_mem (?s * J_SPI_SECTOR_SIZE mod FLASH_SIZE) mem else mem"
  have sm: "?s * J_SPI_SECTOR_SIZE mod FLASH_SIZE = ?s * J_SPI_SECTOR_SIZE"
    using fits by (intro mod_less) (meson div_times_less_eq_dividend le_less_trans)
  obtain q where q: "off = J_SPI_PAGE_SIZE * q" using dv by blast
  have mono: "prev \<le> int ?s"
    using pos unfolding burn_pos_def by (auto intro: div_le_mono)
  have written: "?e i = img ! i" if "i < off" for i
  proof (cases "int ?s > prev")
    case True
    with pos that have "off div J_SPI_SECTOR_SIZE < ?s" by (auto simp: burn_pos_def)
    moreover have "i div J_SPI_SECTOR_SIZE \<le> off div J_SPI_SECTOR_SIZE"
      using that by (intro div_le_mono) simp
    ultimately have "i div J_SPI_SECTOR_SIZE \<noteq> ?s" by linarith
    with True that inv show ?thesis by (simp add: sm erase_mem_def burn_inv_def)
  next
    case False
    with that inv show ?thesis by (simp add: burn_inv_def)
  qed
  have new: "?e i = 0xFF" if "off \<le> i" "i < (?s + 1) * J_SPI_SECTOR_SIZE" for i
  proof (cases "int ?s > prev \<and> i div J_SPI_SECTOR_SIZE = ?s")
    case True
    then show ?thesis by (simp add: sm erase_mem_def)
  next
    case False
    have "int i < (prev + 1) * int J_SPI_SECTOR_SIZE"
    proof (cases "int ?s > prev")
      case True
      with False have ne: "i div J_SPI_SECTOR_SIZE \<noteq> ?s" by simp
      have "i div J_SPI_SECTOR_SIZE < ?s + 1"
        using that(2) by (intro less_mult_imp_div_less) simp
      with ne have lt: "i div J_SPI_SECTOR_SIZE < ?s" by linarith
      have "off \<noteq> 0"
      proof
        assume "off = 0"
        then have "?s = 0" using n0 by simp
        with lt show False by simp
      qed
      with pos have prev: "prev = int (off div J_SPI_SECTOR_SIZE)" by (simp add: burn_pos_def)
      have "?s \<le> off div J_SPI_SECTOR_SIZE + 1"
        using n0(2) div_le_mono [of "off + n" "off + J_SPI_SECTOR_SIZE" J_SPI_SECTOR_SIZE] by simp
      with lt have "i div J_SPI_SECTOR_SIZE \<le> off div J_SPI_SECTOR_SIZE" by linarith
      then have "i < (off div J_SPI_SECTOR_SIZE + 1) * J_SPI_SECTOR_SIZE"
        by (simp add: dividend_less_div_times less_Suc_eq_le flip: div_less_iff_less_mult)
      then show ?thesis by (simp only: prev int_less_blocks)
    next
      case F: False
      with mono have "prev = int ?s" by simp
      with that(2) show ?thesis by (simp only: int_less_blocks)
    qed
    with inv that(1) have "mem i = 0xFF" by (simp add: burn_inv_def)
    then show ?thesis by (simp add: erase_mem_def)
  qed
  have len: "length (take n (drop off img)) = n" using n0 by simp
  have below: "i < (?s + 1) * J_SPI_SECTOR_SIZE" if "i < off + n" for i
    using that dividend_less_div_times [of J_SPI_SECTOR_SIZE "off + n"] by (simp add: mult.commute)
  have prog: "burn_step img off prev mem i =
      (if off \<le> i \<and> i < off + n then img ! i else ?e i)" for i
  proof -
    have "burn_step img off prev mem i = program_mem off (take n (drop off img)) ?e i"
      by (simp add: burn_step_def Let_def n)
    also have "\<dots> = (if off \<le> i \<and> i < off + length (take n (drop off img))
        then take n (drop off img) ! (i - off) else ?e i)"
      by (rule program_page [OF dv]) (use n0 len new below in auto)
    finally show ?thesis using n0 len by auto
  qed
  show "burn_inv old img (off + n) (int ?s) (burn_step img off prev mem)"
    unfolding burn_inv_def
  proof (intro conjI allI impI)
    fix i assume "i < off + n"
    then show "burn_step img off prev mem i = img ! i" using prog written by auto
  next
    fix i assume i: "off + n \<le> i" "int i < (int ?s + 1) * int J_SPI_SECTOR_SIZE"
    then have "i < (?s + 1) * J_SPI_SECTOR_SIZE" by (simp only: int_less_blocks)
    with i show "burn_step img off prev mem i = 0xFF" using prog new by auto
  next
    fix i assume i: "(int ?s + 1) * int J_SPI_SECTOR_SIZE \<le> int i"
    then have "\<not> i < (?s + 1) * J_SPI_SECTOR_SIZE" by (simp only: int_less_blocks [symmetric] not_less)
    then have "\<not> i < off + n" "i div J_SPI_SECTOR_SIZE \<noteq> ?s"
      using below div_less_iff_less_mult [of J_SPI_SECTOR_SIZE i "?s + 1"] by auto
    moreover have "(prev + 1) * int J_SPI_SECTOR_SIZE \<le> int i"
      using i mono mult_right_mono [of "prev + 1" "int ?s + 1" "int J_SPI_SECTOR_SIZE"] by linarith
    then have "mem i = old i" using inv by (simp add: burn_inv_def)
    ultimately show "burn_step img off prev mem i = old i" using prog by (simp add: sm erase_mem_def)
  qed
qed

lemma burn_step_wrap:
  assumes pos: "burn_pos img off prev" and off: "off < length img"
    and n: "n = min J_SPI_PAGE_SIZE (length img - off)"
    and wrap: "off + n = FLASH_SIZE" and i: "i < J_SPI_SECTOR_SIZE"
  shows "burn_step img off prev mem i = 0xFF"
proof -
  have dv: "J_SPI_PAGE_SIZE dvd off" using pos off by (auto simp: burn_pos_def)
  have "n \<le> J_SPI_PAGE_SIZE" using n by simp
  with wrap have lo: "FLASH_SIZE - J_SPI_PAGE_SIZE \<le> off" and hi: "off < FLASH_SIZE" using n off by auto
  with pos have "prev = int (off div J_SPI_SECTOR_SIZE)" by (auto simp: burn_pos_def)
  moreover have "off div J_SPI_SECTOR_SIZE < 64" using hi by (intro less_mult_imp_div_less) simp
  moreover have "off + min J_SPI_PAGE_SIZE (length img - off) = FLASH_SIZE" using wrap n by simp
  ultimately have "burn_step img off prev mem = program_mem off (take n (drop off img)) (erase_mem 0 mem)"
    by (simp add: burn_step_def Let_def n)
  moreover have "i div J_SPI_PAGE_SIZE \<noteq> off div J_SPI_PAGE_SIZE"
  proof -
    have "i div J_SPI_PAGE_SIZE < 1024" using i by (intro less_mult_imp_div_less) simp
    moreover have "1024 \<le> off div J_SPI_PAGE_SIZE"
      using lo div_le_mono [of 262144 off J_SPI_PAGE_SIZE] by simp
    ultimately show ?thesis by linarith
  qed
  ultimately show ?thesis using i by (simp add: program_mem_def erase_mem_def)
qed

text \<open>What the loop leaves: the image, except that an image that fills the chip loses sector 0.\<close>

definition burned :: "(nat \<Rightarrow> byte) \<Rightarrow> byte list \<Rightarrow> (nat \<Rightarrow> byte) \<Rightarrow> bool" where
  "burned old img mem \<longleftrightarrow>
     (if length img < FLASH_SIZE then (\<forall>i. mem i =
        (if i < length img then img ! i
         else if i div J_SPI_SECTOR_SIZE = length img div J_SPI_SECTOR_SIZE then 0xFF else old i))
      else (\<forall>i<J_SPI_SECTOR_SIZE. mem i = 0xFF))"

lemma burn_inv_burned:
  assumes "burn_pos img (length img) prev" and "burn_inv old img (length img) prev mem"
    and "0 < length img" and "length img < FLASH_SIZE"
  shows "burned old img mem"
proof -
  have prev: "prev = int (length img div J_SPI_SECTOR_SIZE)" using assms(1,3) by (auto simp: burn_pos_def)
  have "int i < (prev + 1) * int J_SPI_SECTOR_SIZE \<longleftrightarrow> i div J_SPI_SECTOR_SIZE = length img div J_SPI_SECTOR_SIZE"
    if "length img \<le> i" for i
    using div_less_iff_less_mult [of J_SPI_SECTOR_SIZE i "length img div J_SPI_SECTOR_SIZE + 1"]
      div_le_mono [OF that, of J_SPI_SECTOR_SIZE]
    unfolding prev int_less_blocks by auto
  with assms(2,4) show ?thesis by (auto simp: burned_def burn_inv_def not_less [symmetric])
qed

text \<open>The device side of one pass.\<close>

lemma flash_pass:
  assumes j: "io_mux_opaq j" and pos: "burn_pos img off prev" and off: "off < length img"
    and max: "length img \<le> FLASH_SIZE" and n: "n = min J_SPI_PAGE_SIZE (length img - off)"
    and nx: "nx = (off + n) div J_SPI_SECTOR_SIZE"
    and er: "(if int nx > prev then joker_flash_erase_sector dev j (nx * J_SPI_SECTOR_SIZE)
              else Some (0, j)) = Some (0, j1)"
    and wr: "joker_flash_write_page dev j1 (take n (drop off img)) off = Some (0, j2)"
  shows "flashed j j2 (burn_step img off prev)"
proof -
  let ?a = "nx * J_SPI_SECTOR_SIZE"
  have "off + n \<le> FLASH_SIZE" using max n off by simp
  then have nl: "nx \<le> 64" using div_le_mono [of "off + n" FLASH_SIZE J_SPI_SECTOR_SIZE] by (simp add: nx)
  have a: "addr24 (off_byte ?a 16) (off_byte ?a 8) (off_byte ?a 0) = ?a mod FLASH_SIZE"
  proof (cases "nx = 64")
    case True
    then show ?thesis using addr24_wrap by simp
  next
    case False
    with nl have "?a < FLASH_SIZE" by simp
    then show ?thesis by (simp add: addr24_off)
  qed
  have e: "flashed j j1 (\<lambda>mem. if int nx > prev then erase_mem (?a mod FLASH_SIZE) mem else mem)"
  proof (cases "int nx > prev")
    case True
    then show ?thesis using erase_sector_flash [OF j, of dev ?a j1] er a by simp
  next
    case False
    then show ?thesis using flashed_refl [OF j] er by (simp add: id_def)
  qed
  then have "io_mux_opaq j1" by (simp add: flashed_def)
  from write_page_flash [OF this wr] have w: "flashed j1 j2 (program_mem off (take n (drop off img)))"
    using off max by (simp add: addr24_off)
  have "burn_step img off prev =
      program_mem off (take n (drop off img)) \<circ>
      (\<lambda>mem. if int nx > prev then erase_mem (?a mod FLASH_SIZE) mem else mem)"
    by (rule ext) (simp add: burn_step_def Let_def n nx)
  with flashed_trans [OF e w] show ?thesis by simp
qed

lemma flash_write_loop_burns:
  assumes "io_mux_opaq j" and "0 < length img" and "length img \<le> FLASH_SIZE"
    and "burn_pos img off prev" and "off < FLASH_SIZE" and "off < length img \<or> length img < FLASH_SIZE"
    and "flash_write_loop dev img off prev j = Some (0, j')"
  shows "\<exists>f. flashed j j' f \<and> (\<forall>old mem. burn_inv old img off prev mem \<longrightarrow> burned old img (f mem))"
  using assms
proof (induction dev img off prev j rule: flash_write_loop.induct)
  case (1 dev img off prev j)
  note unf = flash_write_loop.simps [of dev img off prev j]
  show ?case
  proof (cases "off < length img")
    case False
    with 1(8) have "j' = j" by (simp add: unf)
    moreover have "off = length img" using False 1(5) by (simp add: burn_pos_def)
    ultimately have "j' = j" "off = length img" by simp_all
    with 1 show ?thesis using burn_inv_burned [of img prev]
      by (intro exI [of _ id]) (auto simp: flashed_refl [unfolded id_def])
  next
    case True
    define n where "n = min J_SPI_PAGE_SIZE (length img - off)"
    have tw: "(if length img - off > J_SPI_PAGE_SIZE then J_SPI_PAGE_SIZE else length img - off) = n"
      by (simp add: n_def)
    define nx where "nx = (off + n) div J_SPI_SECTOR_SIZE"
    have mono: "prev \<le> int nx"
      using 1(5) by (auto simp: burn_pos_def nx_def intro: div_le_mono)
    then have mx: "(if int nx > prev then int nx else prev) = int nx" by simp
    from 1(8) True obtain j1 j2 where
      er: "(if int nx > prev then joker_flash_erase_sector dev j (nx * J_SPI_SECTOR_SIZE)
            else Some (0, j)) = Some (0, j1)"
      and wr: "joker_flash_write_page dev j1 (take n (drop off img)) off = Some (0, j2)"
      and rec': "flash_write_loop dev img (off + n) (if int nx > prev then int nx else prev) j2 = Some (0, j')"
      by (subst (asm) unf) (auto simp: Let_def tw nx_def [symmetric] split: option.splits if_splits)
    from rec' have rec: "flash_write_loop dev img (off + n) (int nx) j2 = Some (0, j')" by (simp only: mx)
    have IH: "io_mux_opaq j2 \<Longrightarrow> 0 < length img \<Longrightarrow> length img \<le> FLASH_SIZE \<Longrightarrow>
        burn_pos img (off + n) (int nx) \<Longrightarrow> off + n < FLASH_SIZE \<Longrightarrow>
        off + n < length img \<or> length img < FLASH_SIZE \<Longrightarrow>
        flash_write_loop dev img (off + n) (int nx) j2 = Some (0, j') \<Longrightarrow>
        \<exists>f. flashed j2 j' f \<and> (\<forall>old mem. burn_inv old img (off + n) (int nx) mem \<longrightarrow> burned old img (f mem))"
      using 1(1) [OF True refl refl] er wr unfolding tw nx_def [symmetric] mx nat_int by auto
    have st: "flashed j j2 (burn_step img off prev)"
      by (rule flash_pass [OF 1(2,5) True 1(4) n_def nx_def er wr])
    show ?thesis
    proof (cases "off + n < FLASH_SIZE")
      case fits: True
      have pos': "burn_pos img (off + n) (int nx)"
        unfolding nx_def by (rule burn_pos_step [OF 1(5) True n_def])
      have "\<exists>f. flashed j2 j' f \<and> (\<forall>old mem. burn_inv old img (off + n) (int nx) mem \<longrightarrow> burned old img (f mem))"
      proof (rule IH [OF _ 1(3,4) pos' fits _ rec])
        show "io_mux_opaq j2" using st by (simp add: flashed_def)
        show "off + n < length img \<or> length img < FLASH_SIZE"
          using fits True by (auto simp: n_def)
      qed
      then obtain f where f: "flashed j2 j' f"
        "\<forall>old mem. burn_inv old img (off + n) (int nx) mem \<longrightarrow> burned old img (f mem)" by blast
      have "burned old img ((f \<circ> burn_step img off prev) mem)" if "burn_inv old img off prev mem" for old mem
        using f(2) burn_step_inv [OF 1(5) that True n_def fits] by (simp add: nx_def)
      with flashed_trans [OF st f(1)] show ?thesis by blast
    next
      case False
      with True 1(4) have full: "off + n = FLASH_SIZE" "length img = FLASH_SIZE" by (auto simp: n_def)
      then have "j' = j2" using rec by (subst (asm) flash_write_loop.simps) simp
      moreover have "burned old img (burn_step img off prev mem)" for old mem
        using burn_step_wrap [OF 1(5) True n_def full(1)] full(2) by (simp add: burned_def)
      ultimately show ?thesis using st by blast
    qed
  qed
qed

lemma joker_flash_write_burns:
  assumes "io_mux_opaq j" and "joker_flash_write dev j (Some img) = Some (0, j')"
  shows "\<exists>f. flashed j j' f \<and> (\<forall>mem. burned mem img (f mem))"
proof -
  have len: "0 < length img" "length img \<le> FLASH_SIZE"
    and loop: "flash_write_loop dev img 0 (- 1) j = Some (0, j')"
    using assms(2) by (auto simp: joker_flash_write_def split: if_splits)
  have pos: "burn_pos img 0 (- 1)" by (simp add: burn_pos_def)
  have "burn_inv mem img 0 (- 1) mem" for mem by (simp add: burn_inv_def)
  then show ?thesis using flash_write_loop_burns [OF assms(1) len pos _ _ loop] len by auto
qed

section \<open>Devices on which the wait ends\<close>

text \<open>
  A device that completes every transfer, and whose status becomes 0: \<open>busy\<close> measures how
  long it is still busy, and a status poll that does not read 0 lowers it.
\<close>

definition flash_ready :: "'d usb_dev \<Rightarrow> ('d \<Rightarrow> nat) \<Rightarrow> bool" where
  "flash_ready dev busy \<longleftrightarrow>
     (\<forall>ep b d. 0 \<le> fst (bulk_out dev ep b d) \<and> fst (snd (bulk_out dev ep b d)) = length b)
   \<and> (\<forall>ep n d. 0 \<le> fst (bulk_in dev ep n d) \<and> length (fst (snd (bulk_in dev ep n d))) = n)
   \<and> (\<forall>b d. let d1 = snd (snd (bulk_out dev USB_EP2_OUT [J_CMD_SPI, 0x05, b] d));
               (_, got, d2) = bulk_in dev USB_EP1_IN 3 d1
           in got ! 2 = 0 \<or> busy d2 < busy d)"

lemma flash_ready_cmd:
  assumes "flash_ready dev busy" and "io_mux_opaq j"
  shows "\<exists>ob j'. joker_cmd dev j b (length b) ib m = (0, ob, j') \<and> io_mux_opaq j'"
proof -
  have o: "\<not> fst (bulk_out dev ep b d) < 0 \<and> fst (snd (bulk_out dev ep b d)) = length b"
    and i: "\<not> fst (bulk_in dev ep n d) < 0 \<and> length (fst (snd (bulk_in dev ep n d))) = n" for ep b n d
    using assms(1) by (simp_all add: flash_ready_def not_less)
  have "fst (joker_cmd dev j b (length b) ib m) = 0"
    using o i assms(2) by (simp add: joker_cmd_def joker_io_def Let_def case_prod_beta)
  moreover have "io_mux_opaq (snd (snd (joker_cmd dev j b (length b) ib m)))"
    using assms(2) by (simp add: frame_simps)
  ultimately show ?thesis by (metis prod.collapse)
qed

lemma flash_ready_poll:
  assumes "flash_ready dev busy" and "io_mux_opaq j"
    and "joker_cmd dev j [J_CMD_SPI, 0x05, b] 3 ib 3 = (r, ob, j')"
  shows "r = 0 \<and> (ob ! 2 = 0 \<or> busy (dev_st j') < busy (dev_st j))"
proof -
  let ?o = "bulk_out dev USB_EP2_OUT [J_CMD_SPI, 0x05, b] (dev_st j)"
  let ?i = "bulk_in dev USB_EP1_IN 3 (snd (snd ?o))"
  have o: "0 \<le> fst ?o" "fst (snd ?o) = 3" and i: "0 \<le> fst ?i" "length (fst (snd ?i)) = 3"
    and b: "fst (snd ?i) ! 2 = 0 \<or> busy (snd (snd ?i)) < busy (dev_st j)"
    using assms(1) by (simp_all add: flash_ready_def Let_def case_prod_beta)
  have "r = 0" "ob = put_bytes ib 0 (fst (snd ?i))" "dev_st j' = snd (snd ?i)"
    using assms(2,3) o i by (auto simp: joker_cmd_def joker_io_def Let_def case_prod_beta)
  moreover have "put_bytes ib 0 (fst (snd ?i)) ! 2 = fst (snd ?i) ! 2"
    using i by (simp add: put_bytes_def nth_append)
  ultimately show ?thesis using b by simp
qed

lemma spi_wait_returns:
  assumes "flash_ready dev busy" and "io_mux_opaq j"
  shows "\<exists>j'. spi_wait dev b ib j = Some (0, j') \<and> io_mux_opaq j'"
  using assms(2)
proof (induction "busy (dev_st j)" arbitrary: j ib rule: less_induct)
  case less
  obtain r ob j1 where c: "joker_cmd dev j [J_CMD_SPI, 0x05, b] 3 ib 3 = (r, ob, j1)" by (metis prod_cases3)
  have o: "io_mux_opaq j1" using joker_cmd_frame(1) [of dev j "[J_CMD_SPI, 0x05, b]" 3 ib 3] c less.prems by simp
  note p = flash_ready_poll [OF assms(1) less.prems c]
  show ?case
  proof (cases "ob ! 2 = 0")
    case True
    then show ?thesis using p o c by (subst spi_wait.simps) simp
  next
    case False
    then have "busy (dev_st j1) < busy (dev_st j)" using p by simp
    from less.hyps [OF this o] False p c show ?thesis by (subst spi_wait.simps) simp
  qed
qed

lemma erase_sector_returns:
  assumes r: "flash_ready dev busy" and "io_mux_opaq j"
  shows "\<exists>j'. joker_flash_erase_sector dev j off = Some (0, j') \<and> io_mux_opaq j'"
proof -
  obtain ib1 j1 where c1: "joker_cmd dev j [J_CMD_SPI, 0x06] 2 zero_buf 2 = (0, ib1, j1)" "io_mux_opaq j1"
    using flash_ready_cmd [OF assms, of "[J_CMD_SPI, 0x06]" zero_buf 2] by (auto simp: numeral_2_eq_2)
  let ?c = "[J_CMD_SPI, 0xD8, off_byte off 16, off_byte off 8, off_byte off 0]"
  have "length ?c = 5" by simp
  then obtain ib2 j2 where c2: "joker_cmd dev j1 ?c 5 ib1 5 = (0, ib2, j2)" "io_mux_opaq j2"
    using flash_ready_cmd [OF r c1(2), of ?c ib1 5] by metis
  from spi_wait_returns [OF r c2(2)] c1 c2 show ?thesis by (simp add: joker_flash_erase_sector_def)
qed

lemma write_page_returns:
  assumes r: "flash_ready dev busy" and "io_mux_opaq j"
  shows "\<exists>j'. joker_flash_write_page dev j data off = Some (0, j') \<and> io_mux_opaq j'"
proof -
  obtain ib1 j1 where c1: "joker_cmd dev j [J_CMD_SPI, 0x06] 2 zero_buf 2 = (0, ib1, j1)" "io_mux_opaq j1"
    using flash_ready_cmd [OF assms, of "[J_CMD_SPI, 0x06]" zero_buf 2] by (auto simp: numeral_2_eq_2)
  let ?c = "[J_CMD_SPI, 0x02, off_byte off 16, off_byte off 8, off_byte off 0] @ data"
  have "length ?c = length data + 5" by simp
  then obtain ib2 j2 where c2: "joker_cmd dev j1 ?c (length data + 5) zero_buf (length data + 5) = (0, ib2, j2)" "io_mux_opaq j2"
    using flash_ready_cmd [OF r c1(2), of ?c zero_buf "length data + 5"] by metis
  from spi_wait_returns [OF r c2(2)] c1 c2 show ?thesis by (simp add: joker_flash_write_page_def Let_def)
qed

lemma flash_write_loop_returns:
  assumes "flash_ready dev busy" and "io_mux_opaq j"
  shows "\<exists>j'. flash_write_loop dev img off prev j = Some (0, j')"
  using assms
proof (induction dev img off prev j rule: flash_write_loop.induct)
  case (1 dev img off prev j)
  show ?case
  proof (cases "off < length img")
    case True
    define n where "n = (if length img - off > J_SPI_PAGE_SIZE then J_SPI_PAGE_SIZE else length img - off)"
    define nx where "nx = int ((off + n) div J_SPI_SECTOR_SIZE)"
    obtain j1 where e: "(if nx > prev then joker_flash_erase_sector dev j (nat nx * J_SPI_SECTOR_SIZE)
        else Some (0, j)) = Some (0, j1)" "io_mux_opaq j1"
      using erase_sector_returns [OF 1(2,3)] 1(3) by (cases "nx > prev") auto
    obtain j2 where w: "joker_flash_write_page dev j1 (take n (drop off img)) off = Some (0, j2)" "io_mux_opaq j2"
      using write_page_returns [OF 1(2) e(2)] by blast
    have "\<exists>j'. flash_write_loop dev img (off + n) (if nx > prev then nx else prev) j2 = Some (0, j')"
      using 1(1) [OF True refl refl] e w 1(2) unfolding n_def [symmetric] nx_def [symmetric] by auto
    with True e w show ?thesis
      by (cases "nx > prev"; subst flash_write_loop.simps)
        (simp_all add: Let_def n_def [symmetric] nx_def [symmetric])
  qed (simp add: flash_write_loop.simps)
qed

lemma flash_write_returns:
  assumes "flash_ready dev busy" and "io_mux_opaq j" and "0 < length img" and "length img \<le> FLASH_SIZE"
  shows "\<exists>j'. joker_flash_write dev j (Some img) = Some (0, j')"
  using flash_write_loop_returns [OF assms(1,2), of img 0 "- 1"] assms(3,4)
  by (simp add: joker_flash_write_def)

lemma flash_ready_quiet: "flash_ready quiet_dev (\<lambda>_. 0)"
  by (simp add: flash_ready_def quiet_dev_def Let_def)

lemma quiet_flash_write:
  assumes "0 < length img" and "length img \<le> FLASH_SIZE"
  obtains j' where "joker_flash_write quiet_dev quiet_joker (Some img) = Some (0, j')"
  using flash_write_returns [OF flash_ready_quiet _ assms, of quiet_joker] by (auto simp: quiet_joker_def)

section \<open>Properties\<close>

text \<open>C4 (flash_write_image): when \<open>joker_flash_write\<close> returns 0 on an image smaller than the chip, the commands that
  got through leave, whatever the chip held, exactly the image at the start of the flash, behind it an erased rest
  up to the end of the sector in which the byte after the image lies, and everything behind that sector as it was.
  (If the image ends at the end of a sector, that is a whole sector that was erased without need.)\<close>

theorem flash_write_image:
  assumes "io_mux_opaq j" and "joker_flash_write dev j (Some img) = Some (0, j')"
    and "length img < FLASH_SIZE"
  shows "\<exists>cmds. usb_log j' = usb_log j @ cmds
    \<and> (\<forall>mem i. snd (flash_run cmds (False, mem)) i =
        (if i < length img then img ! i
         else if i div J_SPI_SECTOR_SIZE = length img div J_SPI_SECTOR_SIZE then 0xFF else mem i))"
  using joker_flash_write_burns [OF assms(1,2)] assms(3)
  by (fastforce simp: flashed_def burned_def)

theorem flash_write_image_witness:
  "\<exists>j' cmds. joker_flash_write quiet_dev quiet_joker (Some [7, 8, 9]) = Some (0, j') \<and> usb_log j' = cmds
    \<and> snd (flash_run cmds (False, \<lambda>_. 0)) 2 = 9 \<and> snd (flash_run cmds (False, \<lambda>_. 0)) 3 = 0xFF
    \<and> snd (flash_run cmds (False, \<lambda>_. 0)) 300000 = 0"
proof -
  obtain j' where w: "joker_flash_write quiet_dev quiet_joker (Some [7, 8, 9]) = Some (0, j')"
    by (rule quiet_flash_write [of "[7, 8, 9]"]) simp_all
  have "io_mux_opaq quiet_joker" "usb_log quiet_joker = []" by (simp_all add: quiet_joker_def)
  with flash_write_image [OF _ w] obtain cmds where "usb_log j' = cmds"
    "\<forall>i. snd (flash_run cmds (False, \<lambda>_. 0)) i = (if i < 3 then [7, 8, 9] ! i
       else if i div J_SPI_SECTOR_SIZE = 3 div J_SPI_SECTOR_SIZE then 0xFF else 0)" by auto
  then show ?thesis using w by (intro exI conjI) auto
qed

text \<open>flash_write_full_image: an image of exactly 16 Mbyte passes the size check, but programming
  its last page first erases the sector after the end; the 24-bit address of that sector is 0, so
  the operation reports success with the first sector of the image erased.\<close>

theorem flash_write_full_image:
  assumes "io_mux_opaq j" and "joker_flash_write dev j (Some img) = Some (0, j')"
    and "length img = FLASH_SIZE"
  shows "\<exists>cmds. usb_log j' = usb_log j @ cmds
    \<and> (\<forall>mem. \<forall>i<J_SPI_SECTOR_SIZE. snd (flash_run cmds (False, mem)) i = 0xFF)"
  using joker_flash_write_burns [OF assms(1,2)] assms(3)
  by (auto simp: flashed_def burned_def)

theorem flash_write_full_image_witness:
  "\<exists>img j' cmds. length img = FLASH_SIZE \<and> joker_flash_write quiet_dev quiet_joker (Some img) = Some (0, j')
    \<and> usb_log j' = cmds \<and> snd (flash_run cmds (False, \<lambda>_. 0)) 5 = 0xFF"
proof -
  obtain img :: "byte list" where len: "length img = FLASH_SIZE" using Ex_list_of_length by blast
  obtain j' where w: "joker_flash_write quiet_dev quiet_joker (Some img) = Some (0, j')"
    by (rule quiet_flash_write [of img]) (simp_all add: len flip: length_greater_0_conv)
  have "io_mux_opaq quiet_joker" "usb_log quiet_joker = []" by (simp_all add: quiet_joker_def)
  with flash_write_full_image [OF _ w len] obtain cmds where "usb_log j' = cmds"
    "\<forall>i<J_SPI_SECTOR_SIZE. snd (flash_run cmds (False, \<lambda>_. 0)) i = 0xFF" by auto
  then show ?thesis using w len by (intro exI conjI) auto
qed

text \<open>flash_write_terminates: on a device that completes its transfers and whose status register
  reads 0 after finitely many polls, writing an image that passes the size check returns 0.\<close>

theorem flash_write_terminates:
  assumes "flash_ready dev busy" and "io_mux_opaq j" and "0 < length img" and "length img \<le> FLASH_SIZE"
  shows "\<exists>j'. joker_flash_write dev j (Some img) = Some (0, j')"
  using flash_write_returns [OF assms] .

theorem flash_write_terminates_witness:
  "\<exists>j'. joker_flash_write quiet_dev quiet_joker (Some [1, 2]) = Some (0, j')"
  by (rule flash_write_terminates [OF flash_ready_quiet]) (simp_all add: quiet_joker_def)

text \<open>flash_checkid_one_byte: \<open>joker_flash_checkid\<close> accepts a chip as soon as a single byte of
  its identifier matches the expected 20 20 18, since the three tests are joined by \<open>&&\<close>.\<close>

theorem flash_checkid_one_byte:
  assumes "joker_cmd dev j [J_CMD_SPI, 0x9F, 0, 0, 0] 5 zero_buf 5 = (0, ib, j')"
  shows "fst (joker_flash_checkid dev j) = 0 \<longleftrightarrow> ib ! 2 = 0x20 \<or> ib ! 3 = 0x20 \<or> ib ! 4 = 0x18"
  using assms by (simp add: joker_flash_checkid_def)

definition wrong_chip :: "unit usb_dev" where
  "wrong_chip = quiet_dev\<lparr>bulk_in := \<lambda>_ n d. (0, [0, 0, 0x20, 0xEE, 0xEE], d)\<rparr>"

theorem flash_checkid_one_byte_witness:
  "fst (joker_flash_checkid wrong_chip quiet_joker) = 0"
proof -
  have "\<exists>j'. joker_cmd wrong_chip quiet_joker [J_CMD_SPI, 0x9F, 0, 0, 0] 5 zero_buf 5
      = (0, put_bytes zero_buf 0 [0, 0, 0x20, 0xEE, 0xEE], j')"
    by (simp add: joker_cmd_def joker_io_def wrong_chip_def quiet_eval)
  then show ?thesis
    using flash_checkid_one_byte [of wrong_chip quiet_joker "put_bytes zero_buf 0 [0, 0, 0x20, 0xEE, 0xEE]"]
    by (auto simp: put_bytes_def)
qed

end
