(* ===== verification/Memmem.thy ===== *)
theory Memmem
  imports Prelude "HOL-Library.Sublist"
begin

text \<open>
  \<open>xmemmem\<close> of \<open>src/joker_utils.c\<close>: the search for a byte string in a buffer with a rolling
  XOR. Pointers into the haystack are the rest of the haystack from there; the result is the
  offset of the match. \<open>char\<close> is signed, so a byte enters the sums sign-extended.
\<close>

section \<open>The code\<close>

definition chr :: "byte \<Rightarrow> u32" where
  "chr b = scast b"

text \<open>\<open>memchr\<close>: the offset of the first occurrence.\<close>

fun memchr :: "byte list \<Rightarrow> byte \<Rightarrow> nat option" where
  "memchr [] c = None"
| "memchr (x # xs) c = (if x = c then Some 0 else map_option Suc (memchr xs c))"

text \<open>
  The first loop: the sums of the needle and of the haystack's start, whether they are equal so
  far, and where \<open>hp\<close> and \<open>np\<close> stand at the end.
\<close>

fun sum_loop :: "u32 \<Rightarrow> u32 \<Rightarrow> bool \<Rightarrow> byte list \<Rightarrow> byte list \<Rightarrow> u32 \<times> u32 \<times> bool \<times> byte list \<times> byte list" where
  "sum_loop hsum nsum eqp (h # hp) (n # np) =
     sum_loop (hsum XOR chr h) (nsum XOR chr n) (eqp \<and> h = n) hp np"
| "sum_loop hsum nsum eqp hp np = (hsum, nsum, eqp, hp, np)"

text \<open>The second loop; \<open>off\<close> is the offset of \<open>cand\<close>.\<close>

fun roll_loop :: "u32 \<Rightarrow> u32 \<Rightarrow> byte list \<Rightarrow> byte list \<Rightarrow> byte list \<Rightarrow> nat \<Rightarrow> nat option" where
  "roll_loop hsum nsum needle (c # cand) (h # hp) off =
     (let hsum = (hsum XOR chr c) XOR chr h
      in if hsum = nsum \<and> take (length needle - 1) cand = take (length needle - 1) needle
         then Some (off + 1)
         else roll_loop hsum nsum needle cand hp (off + 1))"
| "roll_loop hsum nsum needle cand hp off = None"

definition xmemmem :: "byte list \<Rightarrow> byte list \<Rightarrow> nat option" where
  "xmemmem hay needle =
     (case needle of
        [] \<Rightarrow> Some 0
      | n # np \<Rightarrow>
          (case memchr hay n of
             None \<Rightarrow> None
           | Some off \<Rightarrow>
               let cand = drop off hay;
                   (hsum, nsum, eqp, hp, np) = sum_loop (chr (hd cand)) (chr (hd cand)) True (tl cand) np
               in if np \<noteq> [] then None
                  else if eqp then Some off
                  else roll_loop hsum nsum needle cand hp off))"

section \<open>The reference search\<close>

text \<open>The first offset at which the needle is a prefix of the rest.\<close>

fun first_match :: "byte list \<Rightarrow> byte list \<Rightarrow> nat option" where
  "first_match needle [] = (if needle = [] then Some 0 else None)"
| "first_match needle (x # xs) =
     (if prefix needle (x # xs) then Some 0 else map_option Suc (first_match needle xs))"

lemma first_match_Some:
  "first_match needle hay = Some i \<longleftrightarrow>
     prefix needle (drop i hay) \<and> (\<forall>k<i. \<not> prefix needle (drop k hay)) \<and> i \<le> length hay"
proof (induction needle hay arbitrary: i rule: first_match.induct)
  case (2 needle x xs)
  show ?case
  proof (cases i)
    case (Suc m)
    have "(\<forall>k<Suc m. \<not> prefix needle (drop k (x # xs))) \<longleftrightarrow>
        \<not> prefix needle (x # xs) \<and> (\<forall>k<m. \<not> prefix needle (drop k xs))"
      by (auto simp: less_Suc_eq_0_disj)
    with 2 Suc show ?thesis by auto
  qed auto
qed (auto split: if_splits)

lemma first_match_None: "first_match needle hay = None \<longleftrightarrow> (\<forall>i. \<not> prefix needle (drop i hay))"
proof (induction needle hay rule: first_match.induct)
  case (2 needle x xs)
  have "(\<forall>i. \<not> prefix needle (drop i (x # xs))) \<longleftrightarrow>
      \<not> prefix needle (x # xs) \<and> (\<forall>i. \<not> prefix needle (drop i xs))"
    by (metis drop0 drop_Suc_Cons not0_implies_Suc)
  with 2 show ?case by auto
qed auto

lemma first_match_skip:
  "memchr hay n = Some off \<Longrightarrow>
     first_match (n # np) hay = map_option (\<lambda>i. off + i) (first_match (n # np) (drop off hay))"
proof (induction hay arbitrary: off)
  case (Cons a hay)
  show ?case
  proof (cases "a = n")
    case False
    with Cons.prems obtain z where z: "memchr hay n = Some z" "off = Suc z" by auto
    then show ?thesis using Cons.IH [OF z(1)] False
      by (cases "first_match (n # np) (drop z hay)") simp_all
  qed (use Cons.prems in \<open>simp add: option.map_ident\<close>)
qed simp

lemma first_match_no_chr: "memchr hay n = None \<Longrightarrow> first_match (n # np) hay = None"
  by (induction hay) (auto split: if_splits)

lemma memchr_hd: "memchr hay n = Some off \<Longrightarrow> off < length hay \<and> hay ! off = n"
  by (induction hay arbitrary: off) (auto split: if_splits)

lemma first_match_short: "length hay < length needle \<Longrightarrow> first_match needle hay = None"
  by (auto simp: first_match_None dest: prefix_length_le)

section \<open>The rolling sum\<close>

definition xsum :: "byte list \<Rightarrow> u32" where
  "xsum xs = foldr (\<lambda>b s. chr b XOR s) xs 0"

lemma xsum_simps [simp]:
  "xsum [] = 0" "xsum (x # xs) = chr x XOR xsum xs" "xsum (xs @ ys) = xsum xs XOR xsum ys"
proof -
  show "xsum (xs @ ys) = xsum xs XOR xsum ys"
    by (induction xs) (simp_all add: xsum_def xor.assoc)
qed (simp_all add: xsum_def)

lemma chr_inj: "chr a = chr b \<longleftrightarrow> a = b"
proof
  assume "chr a = chr b"
  then have "sint (chr a) = sint (chr b)" by simp
  then have "sint a = sint b" by (simp add: chr_def sint_up_scast is_up)
  then show "a = b" by (rule signed_word_eqI)
qed simp

lemma sum_loop_result:
  "sum_loop hs ns e hp np = (hs XOR xsum (take (length np) hp), ns XOR xsum (take (length hp) np),
     e \<and> take (length np) hp = take (length hp) np, drop (length np) hp, drop (length hp) np)"
  by (induction hs ns e hp np rule: sum_loop.induct) (auto simp: xor.assoc)

text \<open>Equal sums and equal first bytes make equal strings.\<close>

lemma xsum_last:
  assumes "length xs = length ys" and "xs \<noteq> []"
  shows "xs = ys \<longleftrightarrow> xsum xs = xsum ys \<and> butlast xs = butlast ys"
proof
  assume eq: "xsum xs = xsum ys \<and> butlast xs = butlast ys"
  have "ys \<noteq> []" using assms by auto
  then have xs: "xs = butlast xs @ [last xs]" and ys: "ys = butlast ys @ [last ys]" using assms by simp_all
  have "xsum (butlast xs @ [last xs]) = xsum (butlast xs @ [last ys])" using eq xs ys by metis
  then have "chr (last xs) = chr (last ys)" by (simp add: xor.left_commute) (metis bit.xor_left_self)
  with eq xs ys show "xs = ys" by (metis chr_inj)
qed simp

lemma first_match_same_length:
  assumes "length cand = length needle" and "needle \<noteq> []" and "\<not> prefix needle cand"
  shows "first_match needle cand = None"
proof -
  have "\<not> prefix needle (drop i cand)" for i
    using assms by (cases "i = 0") (auto dest!: prefix_length_le, metis diff_less leD length_greater_0_conv)
  then show ?thesis by (simp add: first_match_None)
qed

lemma roll_loop_correct:
  assumes "needle \<noteq> []" and "length cand = length needle + length hp - 0"
    and "hp = drop (length needle) cand" and "hsum = xsum (take (length needle) cand)"
    and "nsum = xsum needle" and "\<not> prefix needle cand"
  shows "roll_loop hsum nsum needle cand hp off = map_option (\<lambda>i. off + i) (first_match needle cand)"
  using assms
proof (induction hsum nsum needle cand hp off rule: roll_loop.induct)
  case (1 hsum nsum needle c cand h hp off)
  let ?n = "length needle"
  let ?s = "(hsum XOR chr c) XOR chr h"
  have n: "0 < ?n" using 1(2) by simp
  obtain m where m: "?n = Suc m" using n gr0_implies_Suc by blast
  have hp: "h # hp = drop m cand" using 1(4) m by simp
  then have ml: "m < length cand" by (metis drop_eq_Nil list.distinct(1) not_le)
  have "h # hp = cand ! m # drop (Suc m) cand" using hp Cons_nth_drop_Suc [OF ml] by simp
  then have hd: "h = cand ! m" "hp = drop (Suc m) cand" by simp_all
  have win: "take ?n cand = take m cand @ [h]" using hd ml m by (simp add: take_Suc_conv_app_nth)
  have s: "?s = xsum (take ?n cand)"
    unfolding win using 1(5) m by (simp add: xor.assoc) (metis bit.xor_left_self xor.commute xor.left_commute)
  have len: "length (take ?n cand) = ?n" using ml m by simp
  have test: "(?s = nsum \<and> take (?n - 1) cand = take (?n - 1) needle) = prefix needle cand"
  proof -
    have "(take ?n cand = needle) = (xsum (take ?n cand) = xsum needle \<and> butlast (take ?n cand) = butlast needle)"
      by (rule xsum_last) (use len n in auto)
    moreover have "butlast (take ?n cand) = take (?n - 1) cand" using ml m by (simp add: butlast_take)
    moreover have "butlast needle = take (?n - 1) needle" by (simp add: butlast_conv_take)
    moreover have "prefix needle cand = (take ?n cand = needle)"
      by (metis append_eq_conv_conj append_take_drop_id prefix_def)
    ultimately show ?thesis using s 1(6) by auto
  qed
  have fm: "first_match needle (c # cand) = map_option Suc (first_match needle cand)"
    using 1(7) by simp
  show ?case
  proof (cases "prefix needle cand")
    case True
    then have "first_match needle cand = Some 0" by (simp add: first_match_Some)
    with True fm test show ?thesis by (simp add: Let_def)
  next
    case False
    have "roll_loop ?s nsum needle cand hp (off + 1) = map_option (\<lambda>i. off + 1 + i) (first_match needle cand)"
    proof (rule 1(1) [OF refl])
      show "\<not> (?s = nsum \<and> take (?n - 1) cand = take (?n - 1) needle)" using False test by simp
      show "length cand = ?n + length hp - 0" using 1(3) by simp
      show "hp = drop ?n cand" using hd(2) m by simp
    qed (fact 1(2) s 1(6) False)+
    with False fm test show ?thesis by (auto simp: Let_def option.map_comp comp_def)
  qed
qed (auto simp: first_match_same_length)

section \<open>Properties\<close>

text \<open>C17 (xmemmem_first): \<open>xmemmem\<close> returns the first offset at which the needle occurs in the haystack,
  and NULL exactly when it does not occur: the rolling XOR of sign-extended characters loses
  nothing against the naive search.\<close>

theorem xmemmem_first: "xmemmem hay needle = first_match needle hay"
proof (cases needle)
  case Nil
  then show ?thesis by (cases hay) (simp_all add: xmemmem_def)
next
  case (Cons n np)
  show ?thesis
  proof (cases "memchr hay n")
    case None
    then show ?thesis by (simp add: xmemmem_def Cons first_match_no_chr)
  next
    case (Some off)
    from memchr_hd [OF Some] obtain cand where d: "drop off hay = n # cand"
      by (metis Cons_nth_drop_Suc)
    have skip: "first_match needle hay = map_option (\<lambda>i. off + i) (first_match needle (n # cand))"
      using first_match_skip [OF Some, of np] by (simp add: Cons d)
    let ?k = "length np"
    have loop: "sum_loop (chr n) (chr n) True cand np = (chr n XOR xsum (take ?k cand),
        chr n XOR xsum (take (length cand) np), take ?k cand = take (length cand) np,
        drop ?k cand, drop (length cand) np)"
      by (simp add: sum_loop_result)
    show ?thesis
    proof (cases "length cand < ?k")
      case True
      then have "first_match needle (n # cand) = None" by (intro first_match_short) (simp add: Cons)
      with True skip show ?thesis by (simp add: xmemmem_def Cons Some d loop)
    next
      case False
      then have np: "take (length cand) np = np" "drop (length cand) np = []" by simp_all
      have pre: "prefix needle (n # cand) = (take ?k cand = np)"
        by (auto simp: Cons) (metis append_eq_conv_conj prefix_def, metis append_take_drop_id prefixI)
      show ?thesis
      proof (cases "take ?k cand = np")
        case True
        with pre have "first_match needle (n # cand) = Some 0" by simp
        with True np skip show ?thesis by (simp add: xmemmem_def Cons Some d loop)
      next
        case F: False
        have "roll_loop (xsum (take (length needle) (n # cand))) (xsum needle) needle (n # cand)
            (drop (length needle) (n # cand)) off = map_option (\<lambda>i. off + i) (first_match needle (n # cand))"
          by (rule roll_loop_correct) (use False F pre Cons in auto)
        with F np skip show ?thesis by (simp add: xmemmem_def Cons Some d loop)
      qed
    qed
  qed
qed

end
