(* ===== verification/TsCheck.thy ===== *)
theory TsCheck
  imports TsRead "HOL-Library.Signed_Division" "HOL-Library.Sublist"
begin

text \<open>
  The test-pattern tools: the generator \<open>src/tsgen.c\<close>, the checker \<open>src/tscheck.c\<close>, and
  \<open>check_pattern\<close>, \<open>validate_ts\<close> and \<open>save_ts\<close> of \<open>src/joker_utils.c\<close>. A file is its
  content; the messages printed are left out. The PSI sections that libdvbpsi generates for
  \<open>tsgen\<close> are an argument.
\<close>

abbreviation TS_SIZE_ONCE :: nat where "TS_SIZE_ONCE \<equiv> 188000"

section \<open>Checking one packet\<close>

text \<open>\<open>last_pattern\<close> after a packet with pattern \<open>p\<close>.\<close>

definition next_last :: "byte \<Rightarrow> int" where
  "next_last p = (if p = 0xff then - 1 else uint p)"

text \<open>Every byte after the TS header is the pattern: \<open>for (i = 4; i < TS_SIZE; i++)\<close>.\<close>

definition payload_ok :: "byte \<Rightarrow> byte list \<Rightarrow> bool" where
  "payload_ok p pkt \<longleftrightarrow> list_all (\<lambda>i. pkt ! i = p) [4..<TS_SIZE]"

definition check_pattern :: "byte list \<Rightarrow> int \<Rightarrow> int \<times> int" where
  "check_pattern pkt lastp =
     (let pattern = pkt ! 4;
          ret = (if uint pattern \<noteq> lastp + 1 then - ERANGE
                 else if \<not> payload_ok pattern pkt then - EINVAL else 0)
      in (ret, next_last pattern))"

record check_st =
  last_pattern :: int
  cs_off :: int
  success_pattern :: int
  fail_pattern :: int
  success_counter :: int
  fail_counter :: int
  counter_map :: "nat \<Rightarrow> int"

definition checkts :: "byte list \<Rightarrow> check_st \<Rightarrow> check_st" where
  "checkts pkt st =
     (let pattern = pkt ! 4;
          fail = (uint pattern \<noteq> last_pattern st + 1);
          fail = (fail \<or> \<not> payload_ok pattern pkt);
          st = st\<lparr>last_pattern := next_last pattern\<rparr>
      in if fail then st\<lparr>fail_pattern := fail_pattern st + 1\<rparr>
         else st\<lparr>success_pattern := success_pattern st + 1\<rparr>)"

definition check_counter :: "nat \<Rightarrow> int \<Rightarrow> check_st \<Rightarrow> check_st" where
  "check_counter pid counter st =
     (let m = counter_map st;
          m = (if m pid = 0x0f then m(pid := - 1) else m);
          st = (if m pid + 1 \<noteq> counter then st\<lparr>fail_counter := fail_counter st + 1\<rparr>
                else st\<lparr>success_counter := success_counter st + 1\<rparr>)
      in st\<lparr>counter_map := m(pid := counter)\<rparr>)"

definition check_packet :: "bool \<Rightarrow> bool \<Rightarrow> byte list \<Rightarrow> check_st \<Rightarrow> check_st" where
  "check_packet patterns counters pkt st =
     (let pid = ts_pid (pkt ! 1) (pkt ! 2);
          counter = uint (pkt ! 3 AND 0xf);
          st = (if pid = 0x177 \<and> patterns then checkts pkt st else st);
          st = (if counters \<and> pid \<noteq> 0x1FFF then check_counter pid counter st else st)
      in st\<lparr>cs_off := cs_off st + int TS_SIZE\<rparr>)"

section \<open>The main loop of tscheck\<close>

text \<open>
  The scan of the buffer from position \<open>i\<close> on: the buffer from there is the argument. What is
  too short for a packet at the end is the tail, which the code moves to the buffer's start.
\<close>

function scan_buf :: "bool \<Rightarrow> bool \<Rightarrow> byte list \<Rightarrow> check_st \<Rightarrow> check_st \<times> byte list" where
  "scan_buf patterns counters xs st =
     (if xs = [] then (st, [])
      else if xs ! 0 = 0x47 \<and> TS_SIZE \<le> length xs
      then scan_buf patterns counters (drop TS_SIZE xs) (check_packet patterns counters (take TS_SIZE xs) st)
      else if TS_SIZE > length xs then (st, xs)
      else scan_buf patterns counters (tl xs) (st\<lparr>cs_off := cs_off st + 1\<rparr>))"
  by pat_completeness auto
termination
  by (relation "measure (\<lambda>(p, c, xs, st). length xs)") auto

declare scan_buf.simps [simp del]

text \<open>\<open>fread\<close> fills the rest of the buffer of \<open>once\<close> bytes, as far as the file goes.\<close>

function tscheck_loop :: "nat \<Rightarrow> bool \<Rightarrow> bool \<Rightarrow> byte list \<Rightarrow> byte list \<Rightarrow> check_st \<Rightarrow> check_st" where
  "tscheck_loop once patterns counters tail_buf file st =
     (let n = min (once - length tail_buf) (length file)
      in if n = 0 then st
         else let (st, tail_buf) = scan_buf patterns counters (tail_buf @ take n file) st
              in tscheck_loop once patterns counters tail_buf (drop n file) st)"
  by pat_completeness auto
termination
  by (relation "measure (\<lambda>(n, p, c, t, file, st). length file)") auto

declare tscheck_loop.simps [simp del]

text \<open>
  \<open>counter_map\<close> is an uninitialised array, so its content is an argument; \<open>last_pattern\<close> and the
  counters start at 0.
\<close>

definition check_init :: "(nat \<Rightarrow> int) \<Rightarrow> check_st" where
  "check_init undef = \<lparr>last_pattern = 0, cs_off = 0, success_pattern = 0, fail_pattern = 0,
     success_counter = 0, fail_counter = 0, counter_map = undef\<rparr>"

definition tscheck_main :: "(nat \<Rightarrow> int) \<Rightarrow> bool \<Rightarrow> bool \<Rightarrow> byte list option \<Rightarrow> check_st option" where
  "tscheck_main undef patterns counters file =
     map_option (\<lambda>f. tscheck_loop TS_SIZE_ONCE patterns counters [] f (check_init undef)) file"

section \<open>The generator\<close>

text \<open>
  \<open>writePSI\<close>: a section is its bytes from \<open>p_data\<close> to \<open>p_end\<close>. The \<open>fwrite\<close> calls that would
  set \<open>i_bytes_written\<close> are commented out in the code, so it is 0 and the function returns after
  the first packet of the first section.
\<close>

definition writePSI :: "byte list \<Rightarrow> byte list list \<Rightarrow> byte list" where
  "writePSI pkt sections =
     (let pkt = pkt[0 := 0x47]
      in case sections of
           [] \<Rightarrow> pkt
         | sec # _ \<Rightarrow>
             let pkt = pkt[1 := pkt ! 1 OR 0x40];
                 pkt = pkt[3 := (pkt ! 3 AND 0x0f) OR 0x10, 4 := 0x00];
                 body = take 183 sec
             in take 5 pkt @ body @ replicate (183 - length body) 0xff)"

abbreviation PMT_PID :: nat where "PMT_PID \<equiv> 1305"
abbreviation PCR_PID :: nat where "PCR_PID \<equiv> 0x200"
abbreviation USEC_STEP :: u64 where "USEC_STEP \<equiv> 20000"

definition generate_pat_tsgen :: "byte list list \<Rightarrow> byte list \<Rightarrow> byte list" where
  "generate_pat_tsgen sections pkt =
     writePSI (pkt[0 := 0x47, 1 := 0, 2 := 0, 3 := 0]) sections"

definition generate_pmt_tsgen :: "byte list list \<Rightarrow> byte list \<Rightarrow> byte list" where
  "generate_pmt_tsgen sections pkt =
     writePSI (pkt[0 := 0x47, 1 := of_nat (PMT_PID div 256) AND 0x0f, 2 := of_nat PMT_PID, 3 := 0]) sections"

text \<open>\<open>pcr_usec\<close> is a static counter; the arithmetic is on 64-bit integers.\<close>

definition generate_pcr :: "byte list \<Rightarrow> u64 \<Rightarrow> byte list \<times> u64" where
  "generate_pcr pkt pcr_usec =
     (let pcr_27m = pcr_usec * 27;
          pcr_90k = (word_of_int (sint pcr_27m sdiv 300) :: u64);
          pcr = push_bit 9 pcr_90k;
          pkt = pkt[0 := 0x47, 1 := of_nat (PCR_PID div 256) AND 0x1F, 2 := of_nat PCR_PID,
                    3 := 0x20, 4 := 0x07, 5 := 0x10,
                    6 := ucast (signed_drop_bit 34 pcr), 7 := ucast (signed_drop_bit 26 pcr),
                    8 := ucast (signed_drop_bit 18 pcr), 9 := ucast (signed_drop_bit 10 pcr),
                    10 := 0x7e OR ucast (drop_bit 2 (pcr AND push_bit 9 1))
                            OR ucast (drop_bit 8 (pcr AND push_bit 8 1)),
                    11 := ucast pcr]
      in (pkt, pcr_usec + USEC_STEP))"

definition pattern_packet :: "int \<Rightarrow> int \<Rightarrow> byte list" where
  "pattern_packet counter pattern =
     [0x47, 0x01, 0x77, 0x10 OR word_of_int counter] @ replicate (TS_SIZE - 4) (word_of_int pattern)"

text \<open>\<open>n\<close> more packets of the loop; the packets written, in order.\<close>

fun tsgen_loop :: "byte list \<Rightarrow> byte list \<Rightarrow> nat \<Rightarrow> int \<Rightarrow> int \<Rightarrow> byte list \<Rightarrow> u64 \<Rightarrow> byte list list" where
  "tsgen_loop pat pmt 0 counter pattern pcr pcr_usec = []"
| "tsgen_loop pat pmt (Suc n) counter pattern pcr pcr_usec =
     (let pkt = pattern_packet counter pattern;
          pattern = pattern + 1;
          counter = (if counter + 1 > 0x0F then 0 else counter + 1)
      in if pattern > 0xFF then
           let (pcr, pcr_usec) = generate_pcr pcr pcr_usec
           in [pat, pmt, pcr, pkt] @ tsgen_loop pat pmt n counter 0 pcr pcr_usec
         else pkt # tsgen_loop pat pmt n counter pattern pcr pcr_usec)"

definition tsgen_main :: "byte list list \<Rightarrow> byte list list \<Rightarrow> nat \<Rightarrow> byte list list" where
  "tsgen_main pat_sections pmt_sections sz =
     (let zero = replicate TS_SIZE 0;
          pat = generate_pat_tsgen pat_sections zero;
          pmt = generate_pmt_tsgen pmt_sections zero;
          (pcr, pcr_usec) = generate_pcr zero 0;
          n = 256 * (sz div 256)
      in [pcr, pat, pmt] @ tsgen_loop pat pmt n 0 0 pcr pcr_usec)"

section \<open>Receiving in the library\<close>

text \<open>
  The loops of \<open>validate_ts\<close> and \<open>save_ts\<close> read the stream again and again; the results of
  their reads are a list (an error code, or the bytes), and \<open>validate_ts\<close> stops at its deadline,
  the end of the list.
\<close>

definition validate_pkt :: "byte list \<Rightarrow> int \<times> int \<times> int \<Rightarrow> int \<times> int \<times> int" where
  "validate_pkt pkt s =
     (let (lastp, err_count, total_count) = s
      in if ts_pid (pkt ! 1) (pkt ! 2) = 0x177 then
           let (r, lastp) = check_pattern pkt lastp
           in (lastp, if r \<noteq> 0 then err_count + 1 else err_count, total_count + 1)
         else (lastp, err_count, total_count))"

fun validate_loop :: "(int + byte list) list \<Rightarrow> int \<times> int \<times> int \<Rightarrow> int \<times> int \<times> int" where
  "validate_loop [] s = s"
| "validate_loop (Inl _ # rs) s = validate_loop rs s"
| "validate_loop (Inr buf # rs) s = validate_loop rs (fold validate_pkt (ts_packets buf) s)"

definition validate_ts :: "(int + byte list) list \<Rightarrow> int \<Rightarrow> int \<Rightarrow> int \<Rightarrow> int \<times> int" where
  "validate_ts reads lastp min_count max_err =
     (let (lastp, err_count, total_count) = validate_loop reads (lastp, 0, 0)
      in (if err_count < max_err \<and> total_count > min_count then 0 else - EIO, lastp))"

text \<open>
  \<open>save_ts\<close> with a limit: the bytes written and the total returned; \<open>None\<close> when the reads end
  before the limit is reached (the call is still waiting). A negative result is added to the
  total like a length.
\<close>

fun save_ts_loop :: "int \<Rightarrow> (int + byte list) list \<Rightarrow> byte list \<Rightarrow> int \<Rightarrow> (byte list \<times> int) option" where
  "save_ts_loop limit reads out total_len =
     (if limit = 0 \<or> limit > 0 \<and> total_len < limit then
        (case reads of
           [] \<Rightarrow> None
         | Inl e # reads \<Rightarrow> save_ts_loop limit reads out (total_len + e)
         | Inr b # reads \<Rightarrow> save_ts_loop limit reads (out @ b) (total_len + int (length b)))
      else Some (out, total_len))"

declare save_ts_loop.simps [simp del]

definition save_ts :: "int \<Rightarrow> (int + byte list) list \<Rightarrow> (byte list \<times> int) option" where
  "save_ts limit reads = save_ts_loop limit reads [] 0"

section \<open>The scan does not depend on the reads\<close>

lemma scan_buf_nil [simp]: "scan_buf p c [] st = (st, [])"
  by (subst scan_buf.simps) simp

lemma scan_buf_append:
  "scan_buf p c (xs @ ys) st =
     (let (st', t) = scan_buf p c xs st in scan_buf p c (t @ ys) st')"
proof (induction p c xs st rule: scan_buf.induct)
  case (1 p c xs st)
  note unf = scan_buf.simps [of p c xs st]
  consider (nil) "xs = []" | (pkt) "xs \<noteq> []" "xs ! 0 = 0x47" "TS_SIZE \<le> length xs"
    | (short) "xs \<noteq> []" "length xs < TS_SIZE" | (skip) "xs \<noteq> []" "xs ! 0 \<noteq> 0x47" "TS_SIZE \<le> length xs"
    by linarith
  then show ?case
  proof cases
    case pkt
    then have "scan_buf p c (xs @ ys) st =
        scan_buf p c (drop TS_SIZE xs @ ys) (check_packet p c (take TS_SIZE xs) st)"
      by (subst scan_buf.simps) (simp add: nth_append)
    with 1(1) pkt show ?thesis by (simp add: unf)
  next
    case skip
    then have "scan_buf p c (xs @ ys) st = scan_buf p c (tl xs @ ys) (st\<lparr>cs_off := cs_off st + 1\<rparr>)"
      by (subst scan_buf.simps) (simp add: nth_append)
    with 1(2) skip show ?thesis by (simp add: unf)
  next
    case short
    then have "scan_buf p c xs st = (st, xs)" by (simp add: unf)
    then show ?thesis by simp
  next
    case nil
    then show ?thesis by simp
  qed
qed

lemma scan_buf_tail: "length (snd (scan_buf p c xs st)) < TS_SIZE"
  by (induction p c xs st rule: scan_buf.induct) (subst scan_buf.simps, auto)

lemma tscheck_loop_scan:
  "TS_SIZE \<le> once \<Longrightarrow> length t < TS_SIZE \<Longrightarrow> fl \<noteq> [] \<or> t = [] \<Longrightarrow>
     tscheck_loop once p c t fl st = fst (scan_buf p c (t @ fl) st)"
proof (induction once p c t fl st rule: tscheck_loop.induct)
  case (1 once p c t fl st)
  define n where "n = min (once - length t) (length fl)"
  show ?case
  proof (cases "n = 0")
    case True
    with 1(2,3) have "fl = []" by (auto simp: n_def min_def split: if_splits)
    with 1(4) show ?thesis by (simp add: tscheck_loop.simps scan_buf.simps)
  next
    case False
    obtain st' t' where s: "scan_buf p c (t @ take n fl) st = (st', t')" by fastforce
    have t': "length t' < TS_SIZE" using scan_buf_tail [of p c "t @ take n fl" st] s by simp
    have whole: "scan_buf p c (t @ fl) st = scan_buf p c (t' @ drop n fl) st'"
      using scan_buf_append [of p c "t @ take n fl" "drop n fl" st] s by simp
    have step: "tscheck_loop once p c t fl st = tscheck_loop once p c t' (drop n fl) st'"
      using False by (subst tscheck_loop.simps) (simp add: n_def [symmetric] s Let_def)
    show ?thesis
    proof (cases "drop n fl = []")
      case True
      then have "tscheck_loop once p c t' (drop n fl) st' = st'" by (simp add: tscheck_loop.simps)
      moreover have "fst (scan_buf p c t' st') = st'"
        using t' by (subst scan_buf.simps) simp
      ultimately show ?thesis using step whole True by simp
    next
      case F: False
      have "tscheck_loop once p c t' (drop n fl) st' = fst (scan_buf p c (t' @ drop n fl) st')"
        by (rule 1(1) [OF n_def False s [symmetric] refl 1(2) t']) (use F in simp)
      with step whole show ?thesis by simp
    qed
  qed
qed

lemma tscheck_main_scan:
  "tscheck_main undef p c (Some f) = Some (fst (scan_buf p c f (check_init undef)))"
  by (simp add: tscheck_main_def tscheck_loop_scan)

lemma scan_buf_packets:
  "list_all is_pkt pkts \<Longrightarrow> scan_buf p c (concat pkts) st = (fold (check_packet p c) pkts st, [])"
proof (induction pkts arbitrary: st)
  case Nil
  then show ?case by simp
next
  case (Cons q qs)
  then have q: "length q = TS_SIZE" "q ! 0 = TS_SYNC" by (simp_all add: is_pkt_def)
  have qs: "list_all is_pkt qs" using Cons.prems by simp
  have "q \<noteq> []" using q(1) by auto
  then show ?case using q Cons.IH [OF qs] by (subst scan_buf.simps) (simp add: nth_append)
qed

section \<open>Checking a generated stream\<close>

definition quiet_pkt :: "byte list \<Rightarrow> bool" where
  "quiet_pkt p \<longleftrightarrow> is_pkt p \<and> pkt_pid p \<noteq> 0x177"

lemma check_packet_quiet:
  "quiet_pkt p \<Longrightarrow> check_packet True False p st = st\<lparr>cs_off := cs_off st + int TS_SIZE\<rparr>"
  by (simp add: quiet_pkt_def check_packet_def pkt_pid_def)

lemma pattern_packet_nth:
  "pattern_packet c p ! 0 = 0x47" "pattern_packet c p ! 1 = 0x01" "pattern_packet c p ! 2 = 0x77"
  "4 \<le> i \<Longrightarrow> i < TS_SIZE \<Longrightarrow> pattern_packet c p ! i = word_of_int p"
  by (simp_all add: pattern_packet_def nth_append numeral_2_eq_2)

lemma is_pkt_pattern_packet: "is_pkt (pattern_packet c p)"
  by (simp add: is_pkt_def pattern_packet_nth) (simp add: pattern_packet_def)

lemma payload_ok_pattern_packet: "payload_ok (word_of_int p) (pattern_packet c p)"
  by (auto simp: payload_ok_def list_all_iff pattern_packet_nth)

lemma check_packet_pattern:
  assumes "0 \<le> p" and "p \<le> 0xff"
  shows "check_packet True False (pattern_packet c p) st =
    (let st' = st\<lparr>last_pattern := (if p = 0xff then - 1 else p), cs_off := cs_off st + int TS_SIZE\<rparr>
     in if p = last_pattern st + 1 then st'\<lparr>success_pattern := success_pattern st + 1\<rparr>
        else st'\<lparr>fail_pattern := fail_pattern st + 1\<rparr>)"
proof -
  define b where "b = (word_of_int p :: byte)"
  define q where "q = pattern_packet c p"
  have u: "uint b = p" using assms by (simp add: b_def uint_word_of_int)
  then have e: "(b = 0xff) = (p = 0xff)" by (auto simp: word_uint_eq_iff)
  have q: "q ! 4 = b" "payload_ok b q" "ts_pid (q ! 1) (q ! 2) = 0x177"
    using payload_ok_pattern_packet [of p c]
    by (simp_all only: q_def b_def pattern_packet_nth) (simp_all add: ts_pid_def)
  have "check_packet True False q st = (checkts q st)\<lparr>cs_off := cs_off (checkts q st) + int TS_SIZE\<rparr>"
    unfolding check_packet_def q(3) Let_def by simp
  then show ?thesis unfolding q_def [symmetric]
    by (simp add: checkts_def q(1,2) next_last_def u e Let_def)
qed

lemma length_generate_pcr [simp]: "length (fst (generate_pcr pkt us)) = length pkt"
  by (simp add: generate_pcr_def Let_def)

lemma quiet_generate_pcr:
  "length pkt = TS_SIZE \<Longrightarrow> quiet_pkt (fst (generate_pcr pkt us))"
  by (simp add: quiet_pkt_def is_pkt_def generate_pcr_def Let_def pkt_pid_def ts_pid_def)

lemma writePSI_head:
  assumes "length pkt = TS_SIZE"
  shows "length (writePSI pkt secs) = TS_SIZE" and "writePSI pkt secs ! 0 = 0x47"
    and "writePSI pkt secs ! 2 = pkt ! 2"
    and "writePSI pkt secs ! 1 = pkt ! 1 \<or> writePSI pkt secs ! 1 = pkt ! 1 OR 0x40"
  using assms by (auto simp: writePSI_def Let_def nth_append split: list.split)

lemma quiet_generate_pat: "quiet_pkt (generate_pat_tsgen secs (replicate TS_SIZE 0))"
  and quiet_generate_pmt: "quiet_pkt (generate_pmt_tsgen secs (replicate TS_SIZE 0))"
proof -
  let ?a = "(replicate TS_SIZE (0::byte))[0 := 0x47, 1 := 0, 2 := 0, 3 := 0]"
  let ?m = "(replicate TS_SIZE (0::byte))[0 := 0x47, 1 := of_nat (PMT_PID div 256) AND 0x0f, 2 := of_nat PMT_PID, 3 := 0]"
  have "length ?a = TS_SIZE" "length ?m = TS_SIZE" by simp_all
  note w = writePSI_head [OF this(1), of secs] writePSI_head [OF this(2), of secs]
  show "quiet_pkt (generate_pat_tsgen secs (replicate TS_SIZE 0))"
    using w(1-4) by (auto simp: quiet_pkt_def is_pkt_def generate_pat_tsgen_def pkt_pid_def ts_pid_def)
  show "quiet_pkt (generate_pmt_tsgen secs (replicate TS_SIZE 0))"
    using w(5-8) by (auto simp: quiet_pkt_def is_pkt_def generate_pmt_tsgen_def pkt_pid_def ts_pid_def)
qed

lemma tsgen_loop_checks:
  assumes "quiet_pkt pat" and "quiet_pkt pmt" and "length pcr = TS_SIZE"
    and "0 \<le> pattern" and "pattern \<le> 0xff" and "last_pattern st = pattern - 1"
  shows "let st' = fold (check_packet True False) (tsgen_loop pat pmt n counter pattern pcr us) st
    in success_pattern st' = success_pattern st + int n \<and> fail_pattern st' = fail_pattern st"
  using assms
proof (induction n arbitrary: counter pattern pcr us st)
  case (Suc n)
  let ?c = "if counter + 1 > 0x0F then 0 else counter + 1"
  let ?st = "check_packet True False (pattern_packet counter pattern)"
  have pk: "?st s = s\<lparr>last_pattern := (if pattern = 0xff then - 1 else pattern),
      cs_off := cs_off s + int TS_SIZE, success_pattern := success_pattern s + 1\<rparr>"
    if "last_pattern s = pattern - 1" for s
    using that check_packet_pattern [OF Suc.prems(4,5), of counter s] by (simp add: Let_def)
  show ?case
  proof (cases "pattern = 0xff")
    case True
    obtain pcr' us' where g: "generate_pcr pcr us = (pcr', us')" by fastforce
    have len: "length pcr' = TS_SIZE" and q: "quiet_pkt pcr'"
      using length_generate_pcr [of pcr us] quiet_generate_pcr [OF Suc.prems(3), of us] Suc.prems(3) g by simp_all
    have "tsgen_loop pat pmt (Suc n) counter pattern pcr us =
        [pat, pmt, pcr', pattern_packet counter pattern] @ tsgen_loop pat pmt n ?c 0 pcr' us'"
      using True by (simp add: Let_def g)
    with Suc.IH [OF Suc.prems(1,2) len, of 0] Suc.prems True q pk show ?thesis
      by (simp add: check_packet_quiet Let_def)
  next
    case False
    then have "tsgen_loop pat pmt (Suc n) counter pattern pcr us =
        pattern_packet counter pattern # tsgen_loop pat pmt n ?c (pattern + 1) pcr us"
      using Suc.prems by (simp add: Let_def)
    with Suc.IH [OF Suc.prems(1-3), of "pattern + 1"] Suc.prems False pk show ?thesis
      by (simp add: Let_def)
  qed
qed simp

lemma tsgen_loop_pkts:
  "quiet_pkt pat \<Longrightarrow> quiet_pkt pmt \<Longrightarrow> length pcr = TS_SIZE \<Longrightarrow>
     list_all is_pkt (tsgen_loop pat pmt n counter pattern pcr us)"
proof (induction n arbitrary: counter pattern pcr us)
  case (Suc n)
  have "is_pkt (fst (generate_pcr pcr us))" using quiet_generate_pcr [OF Suc.prems(3)] by (simp add: quiet_pkt_def)
  with Suc show ?case by (simp add: Let_def case_prod_beta is_pkt_pattern_packet quiet_pkt_def)
qed simp

section \<open>Properties\<close>

text \<open>tscheck_reads_irrelevant: the result of \<open>tscheck\<close> on a file is the result of one scan over
  the whole file: the buffer size and the tail carried from read to read do not show.\<close>

theorem tscheck_reads_irrelevant:
  "tscheck_main undef patterns counters (Some file) =
     Some (fst (scan_buf patterns counters file (check_init undef)))"
  by (rule tscheck_main_scan)

text \<open>tsgen_tscheck: a stream written by \<open>tsgen\<close> and checked with \<open>tscheck -p\<close> gives one failed
  pattern, the first packet (its pattern 0 is compared with \<open>last_pattern + 1 = 1\<close>), and every
  other pattern packet is counted as good.\<close>

theorem tsgen_tscheck:
  assumes "256 \<le> sz"
  shows "\<exists>st. tscheck_main undef True False (Some (concat (tsgen_main pat_secs pmt_secs sz))) = Some st
    \<and> fail_pattern st = 1 \<and> success_pattern st = int (256 * (sz div 256)) - 1"
proof -
  let ?z = "replicate TS_SIZE (0::byte)"
  let ?pat = "generate_pat_tsgen pat_secs ?z" and ?pmt = "generate_pmt_tsgen pmt_secs ?z"
  obtain pcr us where g: "generate_pcr ?z 0 = (pcr, us)" by fastforce
  have len: "length pcr = TS_SIZE" using length_generate_pcr [of ?z 0] g by simp
  have q: "quiet_pkt ?pat" "quiet_pkt ?pmt" "quiet_pkt pcr"
    using quiet_generate_pat quiet_generate_pmt quiet_generate_pcr [of ?z 0] g by simp_all
  have "0 < sz div 256" using assms div_le_mono [of 256 sz 256] by simp
  then have "0 < 256 * (sz div 256)" by simp
  then obtain m where m: "256 * (sz div 256) = Suc m" using gr0_implies_Suc by blast
  have loop: "tsgen_loop ?pat ?pmt (Suc m) 0 0 pcr us =
      pattern_packet 0 0 # tsgen_loop ?pat ?pmt m 1 1 pcr us" by (simp add: Let_def)
  let ?L = "tsgen_loop ?pat ?pmt (Suc m) 0 0 pcr us"
  have main: "tsgen_main pat_secs pmt_secs sz = [pcr, ?pat, ?pmt] @ ?L"
    unfolding tsgen_main_def Let_def m g by simp
  have pkts: "list_all is_pkt ([pcr, ?pat, ?pmt] @ ?L)"
    using q tsgen_loop_pkts [OF q(1,2) len] unfolding list_all_append by (simp add: quiet_pkt_def is_pkt_pattern_packet)
  let ?i = "(check_init undef)\<lparr>cs_off := 564\<rparr>"
  let ?s = "check_packet True False (pattern_packet 0 0) ?i"
  have s: "last_pattern ?s = 0" "success_pattern ?s = 0" "fail_pattern ?s = 1"
    using check_packet_pattern [of 0 0 ?i] by (simp_all add: check_init_def Let_def)
  have "fold (check_packet True False) ([pcr, ?pat, ?pmt] @ ?L) (check_init undef)
      = fold (check_packet True False) (tsgen_loop ?pat ?pmt m 1 1 pcr us) ?s"
    unfolding loop using q by (simp add: check_packet_quiet check_init_def)
  moreover have "let st' = fold (check_packet True False) (tsgen_loop ?pat ?pmt m 1 1 pcr us) ?s
      in success_pattern st' = success_pattern ?s + int m \<and> fail_pattern st' = fail_pattern ?s"
    by (rule tsgen_loop_checks [OF q(1,2) len]) (use s in simp_all)
  moreover have "tscheck_main undef True False (Some (concat ([pcr, ?pat, ?pmt] @ ?L))) =
      Some (fold (check_packet True False) ([pcr, ?pat, ?pmt] @ ?L) (check_init undef))"
    unfolding tscheck_main_scan scan_buf_packets [OF pkts] by simp
  ultimately show ?thesis using s m unfolding main by (simp add: Let_def)
qed

theorem tsgen_tscheck_witness:
  "\<exists>st. tscheck_main (\<lambda>_. 0) True False (Some (concat (tsgen_main [[0, 1]] [] 300))) = Some st
    \<and> success_pattern st = 255"
  using tsgen_tscheck [of 300 "\<lambda>_. 0" "[[0, 1]]" "[]"] by auto

text \<open>check_pattern_agrees: the check in the library and the check in \<open>tscheck\<close> are the same
  check: from the same last pattern, \<open>check_pattern\<close> returns 0 exactly when \<open>checkts\<close> counts a
  success, it returns an error exactly when \<open>checkts\<close> counts a failure, and both keep the same
  last pattern.\<close>

theorem check_pattern_agrees:
  "checkts pkt st =
     (let (r, lastp) = check_pattern pkt (last_pattern st); st' = st\<lparr>last_pattern := lastp\<rparr>
      in if r = 0 then st'\<lparr>success_pattern := success_pattern st + 1\<rparr>
         else st'\<lparr>fail_pattern := fail_pattern st + 1\<rparr>)"
  by (simp add: checkts_def check_pattern_def Let_def)

lemma save_ts_loop_complete:
  "save_ts_loop limit (map Inr bs) out (int (length out)) = Some (out', n) \<Longrightarrow> 0 < limit \<Longrightarrow>
     prefix out' (out @ concat bs) \<and> n = int (length out') \<and> limit \<le> n"
proof (induction bs arbitrary: out)
  case Nil
  then show ?case by (subst (asm) save_ts_loop.simps) (auto split: if_splits)
next
  case (Cons b bs)
  show ?case
  proof (cases "int (length out) < limit")
    case True
    then have "save_ts_loop limit (map Inr bs) (out @ b) (int (length (out @ b))) = Some (out', n)"
      using Cons.prems by (subst (asm) save_ts_loop.simps) (simp split: if_splits)
    from Cons.IH [OF this Cons.prems(2)] show ?thesis by simp
  next
    case False
    then have "out' = out \<and> n = int (length out)"
      using Cons.prems by (subst (asm) save_ts_loop.simps) (auto split: if_splits)
    with False show ?thesis by (simp add: prefix_def)
  qed
qed

text \<open>save_ts_complete: with a positive limit and reads that all succeed, what \<open>save_ts\<close> writes is
  the start of the stream it read, its return value is the number of bytes written, and at least
  the limit has been written.\<close>

theorem save_ts_complete:
  assumes "0 < limit" and "save_ts limit (map Inr bs) = Some (out, n)"
  shows "prefix out (concat bs) \<and> n = int (length out) \<and> limit \<le> n"
  using save_ts_loop_complete [of limit bs "[]" out n] assms by (simp add: save_ts_def)

theorem save_ts_complete_witness:
  "\<exists>out n. save_ts 3 (map Inr [[1, 2], [3, 4], [5]]) = Some (out, n) \<and> prefix out [1, 2, 3, 4, 5] \<and> 3 \<le> n"
proof -
  obtain out n where s: "save_ts 3 (map Inr [[1::byte, 2], [3, 4], [5]]) = Some (out, n)"
    by (simp add: save_ts_def save_ts_loop.simps)
  with save_ts_complete [OF _ s] show ?thesis by auto
qed

end
