(* ===== verification/PsiGen.thy ===== *)
theory PsiGen
  imports TsRead
begin

text \<open>
  \<open>src/joker_ts.c\<close>, the parts that need no parser state: cutting PSI sections into TS packets
  (\<open>psi_pkts_generate\<close>) and the conversion of DVB text to UTF-8. The text converter \<open>iconv\<close> of
  the C library is an argument. A write past a 128-byte name buffer, or a read past the data
  of a descriptor, is the value \<open>None\<close>.
\<close>

section \<open>Sections to packets\<close>

text \<open>
  A section is its bytes from \<open>p_data\<close> to \<open>p_end\<close>. The buffer is a list of packets, and
  \<open>p_packet\<close> always points at the last one.
\<close>

definition psi_first_pkt :: "nat \<Rightarrow> byte list \<Rightarrow> byte list" where
  "psi_first_pkt pid body =
     [0x47, 0x40 OR (of_nat (pid div 256) AND 0x1f), of_nat pid, 0x10, 0x00]
       @ body @ replicate (183 - length body) 0xff"

definition psi_next_pkt :: "nat \<Rightarrow> byte list \<Rightarrow> byte list" where
  "psi_next_pkt pid body =
     [0x47, of_nat (pid div 256) AND 0x1f, of_nat pid, 0x10] @ body @ replicate (184 - length body) 0xff"

definition zero_pkt :: "byte list" where
  "zero_pkt = replicate TS_SIZE 0"

text \<open>The loop \<open>while (p_byte < p_end)\<close>: every pass fills the packet \<open>p_packet\<close> points at.\<close>

function psi_next_loop :: "nat \<Rightarrow> byte list \<Rightarrow> byte list list \<Rightarrow> byte list list" where
  "psi_next_loop pid rest pkts =
     (if rest = [] then pkts
      else psi_next_loop pid (drop 184 rest) (butlast pkts @ [psi_next_pkt pid (take 184 rest)]))"
  by pat_completeness auto
termination
  by (relation "measure (\<lambda>(pid, rest, pkts). length rest)") auto

declare psi_next_loop.simps [simp del]

definition psi_section_pkts :: "nat \<Rightarrow> byte list \<Rightarrow> byte list list \<Rightarrow> byte list list" where
  "psi_section_pkts pid sec pkts =
     (let pkts = butlast pkts @ [psi_first_pkt pid (take 183 sec)];
          rest = drop 183 sec;
          pkts = (if rest \<noteq> [] then pkts @ [zero_pkt] else pkts)
      in psi_next_loop pid rest pkts)"

definition psi_pkts_generate :: "byte list list \<Rightarrow> nat \<Rightarrow> byte list list" where
  "psi_pkts_generate sections pid = fold (psi_section_pkts pid) sections [zero_pkt]"

text \<open>How a section is carried by the standard: one packet per 184 bytes after the first.\<close>

function next_pkts :: "nat \<Rightarrow> byte list \<Rightarrow> byte list list" where
  "next_pkts pid rest = (if rest = [] then [] else psi_next_pkt pid (take 184 rest) # next_pkts pid (drop 184 rest))"
  by pat_completeness auto
termination
  by (relation "measure (\<lambda>(pid, rest). length rest)") auto

declare next_pkts.simps [simp del]

definition packetize :: "nat \<Rightarrow> byte list \<Rightarrow> byte list list" where
  "packetize pid sec = psi_first_pkt pid (take 183 sec) # next_pkts pid (drop 183 sec)"

lemma psi_next_loop_last:
  "rest \<noteq> [] \<Longrightarrow> psi_next_loop pid rest (xs @ [p]) = xs @ [last (next_pkts pid rest)]"
proof (induction pid rest arbitrary: p rule: next_pkts.induct)
  case (1 pid rest)
  show ?case
  proof (cases "drop 184 rest = []")
    case True
    with 1(2) show ?thesis
      by (simp add: psi_next_loop.simps [of pid rest] psi_next_loop.simps [of pid "[]"] next_pkts.simps [of pid rest] next_pkts.simps [of pid "[]"])
  next
    case False
    have ne: "next_pkts pid (drop 184 rest) \<noteq> []" using False by (subst next_pkts.simps) simp
    have "psi_next_loop pid rest (xs @ [p]) = psi_next_loop pid (drop 184 rest) (xs @ [psi_next_pkt pid (take 184 rest)])"
      using 1(2) by (subst psi_next_loop.simps) simp
    also have "\<dots> = xs @ [last (next_pkts pid (drop 184 rest))]" using 1(1) [OF 1(2) False] .
    also have "last (next_pkts pid (drop 184 rest)) = last (next_pkts pid rest)"
      using 1(2) ne by (subst (2) next_pkts.simps) simp
    finally show ?thesis .
  qed
qed

lemma psi_section_pkts_eq:
  "psi_section_pkts pid sec (xs @ [p]) =
     (if length sec \<le> 183 then xs @ [psi_first_pkt pid sec]
      else xs @ [psi_first_pkt pid (take 183 sec), last (next_pkts pid (drop 183 sec))])"
proof (cases "length sec \<le> 183")
  case True
  then show ?thesis by (simp add: psi_section_pkts_def psi_next_loop.simps)
next
  case False
  then have "drop 183 sec \<noteq> []" by simp
  from psi_next_loop_last [OF this, of pid "xs @ [psi_first_pkt pid (take 183 sec)]" zero_pkt] False
  show ?thesis by (simp add: psi_section_pkts_def Let_def)
qed

section \<open>Text\<close>

definition get_charset_name :: "byte \<Rightarrow> string" where
  "get_charset_name codepage =
     (if codepage = 0x01 then ''ISO8859-5''
      else if codepage = 0x02 then ''ISO8859-6''
      else if codepage = 0x03 then ''ISO8859-7''
      else if codepage = 0x04 then ''ISO8859-8''
      else if codepage = 0x05 then ''ISO8859-9''
      else if codepage = 0x06 then ''ISO8859-10''
      else if codepage = 0x07 then ''ISO8859-11''
      else if codepage = 0x09 then ''ISO8859-13''
      else if codepage = 0x0a then ''ISO8859-14''
      else if codepage = 0x0b then ''ISO8859-15''
      else if codepage = 0x11 \<or> codepage = 0x14 then ''ISO-10646''
      else if codepage = 0x15 then ''UTF-8''
      else if codepage = 0x13 then ''GB2312''
      else ''ISO8859-1'')"

text \<open>
  \<open>iconv cs\<close> is \<open>None\<close> when \<open>iconv_open\<close> fails, else the converter: input and room to output.
  \<open>to_utf\<close> gives the return code and the content of the output buffer of \<open>maxlen\<close> bytes.
\<close>

type_synonym iconv_fn = "string \<Rightarrow> (byte list \<Rightarrow> nat \<Rightarrow> byte list) option"

definition to_utf :: "iconv_fn \<Rightarrow> byte list \<Rightarrow> byte list \<Rightarrow> nat \<Rightarrow> string \<Rightarrow> int \<times> byte list" where
  "to_utf iconv inbuf outbuf maxlen charset =
     (if maxlen = 0 then (- EINVAL, outbuf)
      else case iconv charset of
             None \<Rightarrow> (- EIO, outbuf)
           | Some conv \<Rightarrow> (0, put_bytes (replicate maxlen 0) 0 (conv inbuf maxlen)))"

text \<open>
  \<open>dvb_to_utf\<close>: \<open>char\<close> is signed, so \<open>buf[0] > 0\<close> excludes bytes from 0x80. An empty input
  with a code page byte behind it would make \<open>insize - 1\<close> wrap around: \<open>None\<close>.
\<close>

definition dvb_to_utf :: "iconv_fn \<Rightarrow> byte list \<Rightarrow> nat \<Rightarrow> byte list \<Rightarrow> nat \<Rightarrow> (int \<times> byte list) option" where
  "dvb_to_utf iconv buf insize outbuf maxlen =
     (if buf ! 0 > 0 \<and> buf ! 0 < 0x20 then
        if insize = 0 then None
        else Some (to_utf iconv (take (insize - 1) (tl buf)) outbuf maxlen (get_charset_name (buf ! 0)))
      else Some (to_utf iconv (take insize buf) outbuf maxlen ''ISO6937''))"

definition isprint :: "byte \<Rightarrow> bool" where
  "isprint b \<longleftrightarrow> 0x20 \<le> b \<and> b < 0x7f"

definition dvb_codepage :: "byte list \<Rightarrow> byte" where
  "dvb_codepage ptr = (if ptr ! 0 \<ge> 0x20 then 0x0 else ptr ! 0)"

text \<open>The bytes the copying loop keeps: all but the one-byte control codes of the charset.\<close>

definition dvb_keep :: "byte \<Rightarrow> byte \<Rightarrow> bool" where
  "dvb_keep codepage b \<longleftrightarrow> \<not> (b \<ge> 0x80 \<and> b \<le> 0x8B \<and> (codepage < 0x11 \<or> codepage > 0x15))"

fun dvb_copy_loop :: "byte \<Rightarrow> byte list \<Rightarrow> byte list \<Rightarrow> byte list" where
  "dvb_copy_loop codepage [] dst = dst"
| "dvb_copy_loop codepage (b # bs) dst =
     (if dvb_keep codepage b then dvb_copy_loop codepage bs (dst @ [b]) else dvb_copy_loop codepage bs dst)"

definition dvb_line_bytes :: "byte list \<Rightarrow> nat \<Rightarrow> byte list" where
  "dvb_line_bytes ptr len =
     dvb_copy_loop (dvb_codepage ptr) (drop (if isprint (ptr ! 0) then 0 else 1) (take len ptr)) []"

definition convert_dvb_line ::
  "iconv_fn \<Rightarrow> byte list \<Rightarrow> nat \<Rightarrow> nat \<Rightarrow> (int \<times> byte list) option" where
  "convert_dvb_line iconv ptr len maxlen =
     (let dst = dvb_line_bytes ptr len
      in if length dst > maxlen then None
         else Some (to_utf iconv dst (put_bytes (replicate maxlen 0) 0 dst) SERVICE_NAME_LEN
                      (get_charset_name (dvb_codepage ptr))))"

lemma dvb_copy_loop_filter: "dvb_copy_loop cp bs dst = dst @ filter (dvb_keep cp) bs"
  by (induction bs arbitrary: dst) simp_all

lemma dvb_line_bytes_eq:
  "dvb_line_bytes ptr len =
     filter (dvb_keep (dvb_codepage ptr)) (drop (if isprint (ptr ! 0) then 0 else 1) (take len ptr))"
  by (simp add: dvb_line_bytes_def dvb_copy_loop_filter)

section \<open>Properties\<close>

text \<open>psi_pkts_short_section: a single section of at most 367 bytes is cut into exactly the packets
  the standard asks for.\<close>

theorem psi_pkts_short_section:
  assumes "length sec \<le> 367"
  shows "psi_pkts_generate [sec] pid = packetize pid sec"
proof (cases "length sec \<le> 183")
  case True
  then show ?thesis using psi_section_pkts_eq [of pid sec "[]" zero_pkt]
    by (simp add: psi_pkts_generate_def packetize_def next_pkts.simps)
next
  case False
  then have "next_pkts pid (drop 183 sec) = [psi_next_pkt pid (drop 183 sec)]"
    using assms by (simp add: next_pkts.simps [of pid "drop 183 sec"] next_pkts.simps [of pid "[]"])
  with False show ?thesis using psi_section_pkts_eq [of pid sec "[]" zero_pkt]
    by (simp add: psi_pkts_generate_def packetize_def)
qed

theorem psi_pkts_short_section_witness:
  "length (psi_pkts_generate [replicate 200 1] 0x11) = 2"
proof -
  have "psi_pkts_generate [replicate 200 1] 0x11 = packetize 0x11 (replicate 200 1)"
    by (rule psi_pkts_short_section) simp
  then show ?thesis
    by (simp add: packetize_def next_pkts.simps [of _ "replicate 17 1"] next_pkts.simps [of _ "[]"])
qed

text \<open>psi_pkts_long_section: a longer section needs three packets or more, but the loop fills the
  same packet again and again: two packets come out, the first and the last, and the middle of the
  section is lost.\<close>

theorem psi_pkts_long_section:
  assumes "367 < length sec"
  shows "psi_pkts_generate [sec] pid = [hd (packetize pid sec), last (packetize pid sec)]
    \<and> 3 \<le> length (packetize pid sec)"
proof -
  have ne: "drop 183 sec \<noteq> []" "drop 184 (drop 183 sec) \<noteq> []" using assms by simp_all
  then have n: "next_pkts pid (drop 183 sec) \<noteq> []" by (subst next_pkts.simps) simp
  then have "psi_pkts_generate [sec] pid = [hd (packetize pid sec), last (packetize pid sec)]"
    using assms psi_section_pkts_eq [of pid sec "[]" zero_pkt]
    by (simp add: psi_pkts_generate_def packetize_def)
  moreover have "2 \<le> length (next_pkts pid (drop 183 sec))"
    using ne by (subst next_pkts.simps, simp only: if_False) (subst next_pkts.simps, simp)
  ultimately show ?thesis by (simp add: packetize_def)
qed

theorem psi_pkts_long_section_witness:
  "length (psi_pkts_generate [replicate 1000 1] 0) = 2 \<and> 3 \<le> length (packetize 0 (replicate 1000 1))"
  using psi_pkts_long_section [of "replicate 1000 1" 0] by simp

text \<open>convert_dvb_line_bound: the copy into the caller's buffer has no bound check. It stays within
  the 128 bytes exactly when at most 128 bytes of the text are kept, which every text of at most
  128 bytes satisfies; a printable text of 129 to 255 bytes, which a descriptor can carry, runs
  over the end.\<close>

theorem convert_dvb_line_bound:
  "convert_dvb_line iconv ptr len SERVICE_NAME_LEN = None \<longleftrightarrow>
     SERVICE_NAME_LEN < length (filter (dvb_keep (dvb_codepage ptr))
       (drop (if isprint (ptr ! 0) then 0 else 1) (take len ptr)))"
  by (simp add: convert_dvb_line_def dvb_line_bytes_eq Let_def)

text \<open>convert_dvb_line_first_byte: a text that starts with an accented character of the default
  table (first byte from 0xA0 on) loses that character: it is not printable in the C locale, so
  the loop skips it as if it were a code page byte.\<close>

theorem convert_dvb_line_first_byte:
  assumes "0xA0 \<le> b" and "length bs < SERVICE_NAME_LEN"
  shows "convert_dvb_line iconv (b # bs) (Suc (length bs)) SERVICE_NAME_LEN
    = Some (to_utf iconv (filter (dvb_keep 0) bs)
        (put_bytes (replicate SERVICE_NAME_LEN 0) 0 (filter (dvb_keep 0) bs)) SERVICE_NAME_LEN ''ISO8859-1'')"
proof -
  have "0x20 \<le> b" "\<not> isprint b" using assms(1) by (auto simp: isprint_def word_le_nat_alt word_less_nat_alt)
  moreover have "length (filter (dvb_keep 0) bs) < SERVICE_NAME_LEN"
    using assms(2) by (meson le_less_trans length_filter_le)
  ultimately show ?thesis
    by (simp add: convert_dvb_line_def dvb_line_bytes_eq Let_def dvb_codepage_def get_charset_name_def)
qed

definition copy_iconv :: iconv_fn where
  "copy_iconv cs = Some (\<lambda>inp n. take n inp)"

theorem convert_dvb_line_first_byte_witness:
  "\<exists>rest. convert_dvb_line copy_iconv [0xC1, 0x42] 2 SERVICE_NAME_LEN = Some (0, 0x42 # rest)"
proof -
  have "convert_dvb_line copy_iconv [0xC1, 0x42] (Suc (length [0x42::byte])) SERVICE_NAME_LEN
    = Some (to_utf copy_iconv (filter (dvb_keep 0) [0x42])
        (put_bytes (replicate SERVICE_NAME_LEN 0) 0 (filter (dvb_keep 0) [0x42])) SERVICE_NAME_LEN ''ISO8859-1'')"
    by (rule convert_dvb_line_first_byte) simp_all
  moreover have "Suc (length [0x42::byte]) = 2" by simp
  ultimately show ?thesis by (simp only: to_utf_def copy_iconv_def)
    (simp add: dvb_keep_def put_bytes_def)
qed

end
