(* ===== verification/Ci.thy ===== *)
theory Ci
  imports TsFilter Memmem
begin

text \<open>
  \<open>src/joker_ci.c\<close>: the Common Interface of the card. Reading and writing the registers and the
  memory of the CAM module, the link layer on top, the tuples that describe the module, its
  initialisation and the PCAP dump. The messages printed, the hex dumps and the waiting times
  are left out. An array access outside the array is the value \<open>None\<close>.
\<close>

section \<open>State\<close>

abbreviation TUPLE_MAX_SIZE :: nat where "TUPLE_MAX_SIZE \<equiv> 128"
abbreviation (input) CAID_MAX_COUNT :: nat where "CAID_MAX_COUNT \<equiv> 128"
abbreviation (input) JOKER_CI_IO :: int where "JOKER_CI_IO \<equiv> 1"
abbreviation (input) JOKER_CI_MEM :: int where "JOKER_CI_MEM \<equiv> 0"
abbreviation JOKER_CI_CTRL_READ :: byte where "JOKER_CI_CTRL_READ \<equiv> 0x01"
abbreviation JOKER_CI_CTRL_WRITE :: byte where "JOKER_CI_CTRL_WRITE \<equiv> 0x02"
abbreviation JOKER_CI_CTRL_IO :: byte where "JOKER_CI_CTRL_IO \<equiv> 0x04"
abbreviation JOKER_CI_CTRL_MEM :: byte where "JOKER_CI_CTRL_MEM \<equiv> 0x08"
abbreviation JOKER_CI_CTRL_BULK :: byte where "JOKER_CI_CTRL_BULK \<equiv> 0x10"
abbreviation JOKER_CI_CTRL_OK :: byte where "JOKER_CI_CTRL_OK \<equiv> 2"
abbreviation (input) CTRLIF_DATA :: nat where "CTRLIF_DATA \<equiv> 0"
abbreviation (input) CTRLIF_COMMAND :: nat where "CTRLIF_COMMAND \<equiv> 1"
abbreviation (input) CTRLIF_STATUS :: nat where "CTRLIF_STATUS \<equiv> 1"
abbreviation (input) CTRLIF_SIZE_LOW :: nat where "CTRLIF_SIZE_LOW \<equiv> 2"
abbreviation (input) CTRLIF_SIZE_HIGH :: nat where "CTRLIF_SIZE_HIGH \<equiv> 3"
abbreviation (input) CMDREG_SW :: byte where "CMDREG_SW \<equiv> 2"
abbreviation (input) CMDREG_SR :: byte where "CMDREG_SR \<equiv> 4"
abbreviation (input) CMDREG_RS :: byte where "CMDREG_RS \<equiv> 8"
abbreviation IRQEN :: byte where "IRQEN \<equiv> 0x80"
abbreviation (input) STATUSREG_RE :: byte where "STATUSREG_RE \<equiv> 1"
abbreviation (input) STATUSREG_FR :: byte where "STATUSREG_FR \<equiv> 0x40"
abbreviation (input) STATUSREG_DA :: byte where "STATUSREG_DA \<equiv> 0x80"
abbreviation OC_I2C_RESET_TPS_CI :: int where "OC_I2C_RESET_TPS_CI \<equiv> 64"

record ci_tuple_t =
  tp_type :: byte
  tp_size :: byte
  tp_data :: "byte list"

record joker_ci_t =
  ci_verbose :: bool
  manfid :: u16
  devid :: u16
  config_base :: u32
  config_option :: byte
  tuple_cur_offset :: nat
  cam_detected :: bool
  cam_validated :: bool
  cam_infostring :: "byte list"
  application_type :: byte
  application_manufacturer :: u16
  manufacturer_code :: u16
  menu_string :: "byte list"
  ca_ids :: "u16 list"

text \<open>
  The handle's fields for the CI. \<open>joker_ci_opaque\<close> is NULL or the CI state; the dump file is
  its content when it is open; \<open>wall_clock\<close> is what \<open>gettimeofday\<close> gives; \<open>shutdown_thread\<close>
  is set by another thread.
\<close>

record 'd joker_ci_h = "'d joker_ctl" +
  joker_ci_opaque :: "joker_ci_t option"
  ci_threading :: bool
  shutdown_thread :: bool
  ci_verbose_opt :: bool
  cam_pcap_filename :: bool
  cam_pcap_fd :: "byte list option"
  wall_clock :: "u32 \<times> u32"

definition zero_ci :: "bool \<Rightarrow> joker_ci_t" where
  "zero_ci v = \<lparr>ci_verbose = v, manfid = 0, devid = 0, config_base = 0, config_option = 0,
     tuple_cur_offset = 0, cam_detected = False, cam_validated = False,
     cam_infostring = replicate TUPLE_MAX_SIZE 0, application_type = 0, application_manufacturer = 0,
     manufacturer_code = 0, menu_string = replicate TUPLE_MAX_SIZE 0, ca_ids = replicate CAID_MAX_COUNT 0\<rparr>"

section \<open>Register and memory access\<close>

text \<open>
  \<open>joker_ci_rw\<close>: the return code, the caller's buffer afterwards, and the handle.
\<close>

definition joker_ci_rw ::
  "'d usb_dev \<Rightarrow> ('d, 'z) joker_ci_h_scheme \<Rightarrow> byte \<Rightarrow> u16 \<Rightarrow> byte list \<Rightarrow> nat
    \<Rightarrow> int \<times> byte list \<times> ('d, 'z) joker_ci_h_scheme" where
  "joker_ci_rw dev j command offset buf sz =
     (if joker_ci_opaque j = None then (- EINVAL, buf, j)
      else if sz > JCMD_BUF_LEN - 6 then (- EINVAL, buf, j)
      else
        let out_buf = [J_CMD_CI_RW, command, of_nat (sz div 256), of_nat sz,
                       ucast (drop_bit 8 offset), ucast offset] @ take sz buf;
            (ret, in_buf, j) = joker_cmd dev j out_buf (sz + 6) (stack_buf dev j JCMD_BUF_LEN) (sz + 4)
        in if ret \<noteq> 0 then (- EIO, buf, j)
           else if in_buf ! 1 = JOKER_CI_CTRL_OK then
             (256 * uint (in_buf ! 2) + uint (in_buf ! 3),
              if command AND JOKER_CI_CTRL_READ \<noteq> 0 then put_bytes buf 0 (take sz (drop 4 in_buf)) else buf,
              j)
           else (- EIO, buf, j))"

definition ci_area :: "int \<Rightarrow> byte" where
  "ci_area area = (if area = JOKER_CI_IO then JOKER_CI_CTRL_IO else JOKER_CI_CTRL_MEM)"

definition joker_ci_read ::
  "'d usb_dev \<Rightarrow> ('d, 'z) joker_ci_h_scheme \<Rightarrow> nat \<Rightarrow> int \<Rightarrow> int \<times> ('d, 'z) joker_ci_h_scheme" where
  "joker_ci_read dev j offset area =
     (if joker_ci_opaque j = None then (- EINVAL, j)
      else
        let (ret, buf, j) = joker_ci_rw dev j (JOKER_CI_CTRL_READ OR ci_area area) (of_nat offset)
                              (stack_buf dev j JCMD_BUF_LEN) 1
        in if ret < 0 then (ret, j) else (uint (buf ! 0), j))"

definition joker_ci_write ::
  "'d usb_dev \<Rightarrow> ('d, 'z) joker_ci_h_scheme \<Rightarrow> nat \<Rightarrow> int \<Rightarrow> byte \<Rightarrow> int \<times> ('d, 'z) joker_ci_h_scheme" where
  "joker_ci_write dev j offset area data =
     (if joker_ci_opaque j = None then (- EINVAL, j)
      else
        let (ret, _, j) = joker_ci_rw dev j (JOKER_CI_CTRL_WRITE OR ci_area area) (of_nat offset)
                              ((stack_buf dev j JCMD_BUF_LEN)[0 := data]) 1
        in (ret, j))"

text \<open>\<open>n\<close> polls of the status register.\<close>

fun ci_wait_loop ::
  "'d usb_dev \<Rightarrow> byte \<Rightarrow> nat \<Rightarrow> byte list \<Rightarrow> ('d, 'z) joker_ci_h_scheme \<Rightarrow> int \<times> ('d, 'z) joker_ci_h_scheme" where
  "ci_wait_loop dev waitfor 0 buf j = (- ETIMEDOUT, j)"
| "ci_wait_loop dev waitfor (Suc n) buf j =
     (let (ret, buf, j) = joker_ci_rw dev j (JOKER_CI_CTRL_READ OR JOKER_CI_CTRL_IO) (of_nat CTRLIF_STATUS) buf 1
      in if ret < 0 then (- EIO, j)
         else if buf ! 0 AND waitfor \<noteq> 0 then (0, j)
         else ci_wait_loop dev waitfor n buf j)"

definition joker_ci_wait_status ::
  "'d usb_dev \<Rightarrow> ('d, 'z) joker_ci_h_scheme \<Rightarrow> byte \<Rightarrow> nat \<Rightarrow> int \<times> ('d, 'z) joker_ci_h_scheme" where
  "joker_ci_wait_status dev j waitfor timeout =
     (if joker_ci_opaque j = None then (- EINVAL, j)
      else ci_wait_loop dev waitfor (timeout div 10) (stack_buf dev j JCMD_BUF_LEN) j)"

section \<open>The data channel\<close>

text \<open>\<open>n\<close> bytes from the data register, into \<open>buf\<close> from \<open>i\<close> on.\<close>

fun ci_data_loop ::
  "'d usb_dev \<Rightarrow> nat \<Rightarrow> nat \<Rightarrow> byte list \<Rightarrow> ('d, 'z) joker_ci_h_scheme
    \<Rightarrow> int \<times> byte list \<times> ('d, 'z) joker_ci_h_scheme" where
  "ci_data_loop dev 0 i buf j = (0, buf, j)"
| "ci_data_loop dev (Suc n) i buf j =
     (let (ret, j) = joker_ci_read dev j CTRLIF_DATA JOKER_CI_IO
      in if ret < 0 then (- EIO, buf, j)
         else ci_data_loop dev n (i + 1) (put_bytes buf i [word_of_int ret]) j)"

definition joker_ci_read_data ::
  "'d usb_dev \<Rightarrow> ('d, 'z) joker_ci_h_scheme \<Rightarrow> byte list \<Rightarrow> nat
    \<Rightarrow> int \<times> byte list \<times> ('d, 'z) joker_ci_h_scheme" where
  "joker_ci_read_data dev j buf sz =
     (if joker_ci_opaque j = None then (- EINVAL, buf, j)
      else
        let sz = (if sz > JCMD_BUF_LEN - 6 then JCMD_BUF_LEN - 6 else sz);
            (ret, j) = joker_ci_wait_status dev j STATUSREG_DA 1000
        in if ret \<noteq> 0 then (- EIO, buf, j)
           else let (hi, j) = joker_ci_read dev j CTRLIF_SIZE_HIGH JOKER_CI_IO
             in if hi < 0 then (- EIO, buf, j)
                else let (lo, j) = joker_ci_read dev j CTRLIF_SIZE_LOW JOKER_CI_IO
                  in if lo < 0 then (- EIO, buf, j)
                     else let bytes_read = nat (256 * hi + lo)
                       in if bytes_read > sz then (- ENOMEM, buf, j)
                          else let (ret, buf, j) = ci_data_loop dev bytes_read 0 buf j
                            in if ret \<noteq> 0 then (- EIO, buf, j)
                               else let (st, j) = joker_ci_read dev j CTRLIF_STATUS JOKER_CI_IO
                                 in if st < 0 then (- EIO, buf, j)
                                    else if (word_of_int st :: byte) AND STATUSREG_RE \<noteq> 0 then (- EIO, buf, j)
                                    else (int bytes_read, buf, j))"

definition joker_ci_write_data ::
  "'d usb_dev \<Rightarrow> ('d, 'z) joker_ci_h_scheme \<Rightarrow> byte list \<Rightarrow> nat \<Rightarrow> int \<times> ('d, 'z) joker_ci_h_scheme" where
  "joker_ci_write_data dev j buf sz =
     (if joker_ci_opaque j = None then (- EINVAL, j)
      else if sz > JCMD_BUF_LEN - 6 then (- EINVAL, j)
      else
        let (ret, _, j) = joker_ci_rw dev j (JOKER_CI_CTRL_WRITE OR JOKER_CI_CTRL_IO OR JOKER_CI_CTRL_BULK) 0 buf sz
        in if ret < 0 then (- EIO, j) else (int sz, j))"

section \<open>The PCAP dump\<close>

text \<open>Integers are written as a little-endian host stores them; \<open>be16\<close> is \<open>htons\<close>.\<close>

definition le16 :: "u16 \<Rightarrow> byte list" where
  "le16 w = [ucast w, ucast (drop_bit 8 w)]"

definition le32 :: "u32 \<Rightarrow> byte list" where
  "le32 w = [ucast w, ucast (drop_bit 8 w), ucast (drop_bit 16 w), ucast (drop_bit 24 w)]"

definition be16 :: "u16 \<Rightarrow> byte list" where
  "be16 w = [ucast (drop_bit 8 w), ucast w]"

definition pcap_append :: "byte list \<Rightarrow> ('d, 'z) joker_ci_h_scheme \<Rightarrow> ('d, 'z) joker_ci_h_scheme" where
  "pcap_append bs j = j\<lparr>cam_pcap_fd := map_option (\<lambda>f. f @ bs) (cam_pcap_fd j)\<rparr>"

abbreviation JOKER_LINKTYPE_DVB_CI :: u32 where "JOKER_LINKTYPE_DVB_CI \<equiv> 235"
abbreviation JOKER_PCAP_HW_EVT :: byte where "JOKER_PCAP_HW_EVT \<equiv> 0xFB"
abbreviation JOKER_PCAP_DATA_CAM_TO_HOST :: byte where "JOKER_PCAP_DATA_CAM_TO_HOST \<equiv> 0xFF"
abbreviation JOKER_PCAP_DATA_HOST_TO_CAM :: byte where "JOKER_PCAP_DATA_HOST_TO_CAM \<equiv> 0xFE"
abbreviation JOKER_PCAP_CIS_READ :: byte where "JOKER_PCAP_CIS_READ \<equiv> 0xFD"
abbreviation JOKER_PCAP_COR_WRITE :: byte where "JOKER_PCAP_COR_WRITE \<equiv> 0xFC"

definition pcap_header :: "byte list" where
  "pcap_header = le32 0xa1b2c3d4 @ le16 2 @ le16 4 @ le32 0 @ le32 0 @ le32 0xffffffff @ le32 JOKER_LINKTYPE_DVB_CI"

definition cam_pcap_write_header :: "('d, 'z) joker_ci_h_scheme \<Rightarrow> int \<times> ('d, 'z) joker_ci_h_scheme" where
  "cam_pcap_write_header j =
     (if cam_pcap_fd j = None then (- EINVAL, j) else (0, pcap_append pcap_header j))"

definition pcap_record :: "u32 \<times> u32 \<Rightarrow> byte \<Rightarrow> byte list \<Rightarrow> byte list" where
  "pcap_record tv event data =
     (let len = (of_nat (length data) :: u16); incl = (ucast len + 4 :: u32)
      in le32 (fst tv) @ le32 (snd tv) @ le32 incl @ le32 incl
         @ [0, event] @ be16 len @ take (unat len) data)"

definition cam_pcap_write_event ::
  "('d, 'z) joker_ci_h_scheme \<Rightarrow> byte \<Rightarrow> byte list \<Rightarrow> int \<times> ('d, 'z) joker_ci_h_scheme" where
  "cam_pcap_write_event j event data =
     (if cam_pcap_fd j = None then (- EINVAL, j)
      else (0, pcap_append (pcap_record (wall_clock j) event data) j))"

section \<open>Tuples\<close>

definition set_ci :: "(joker_ci_t \<Rightarrow> joker_ci_t) \<Rightarrow> ('d, 'z) joker_ci_h_scheme \<Rightarrow> ('d, 'z) joker_ci_h_scheme" where
  "set_ci f j = j\<lparr>joker_ci_opaque := map_option f (joker_ci_opaque j)\<rparr>"

definition skip_tuple_bytes :: "nat \<Rightarrow> joker_ci_t \<Rightarrow> joker_ci_t" where
  "skip_tuple_bytes n ci = ci\<lparr>tuple_cur_offset := tuple_cur_offset ci + n\<rparr>"

definition cur_offset :: "('d, 'z) joker_ci_h_scheme \<Rightarrow> nat" where
  "cur_offset j = (case joker_ci_opaque j of None \<Rightarrow> 0 | Some ci \<Rightarrow> tuple_cur_offset ci)"

definition empty_tuple :: ci_tuple_t where
  "empty_tuple = \<lparr>tp_type = 0, tp_size = 0, tp_data = replicate TUPLE_MAX_SIZE 0\<rparr>"

text \<open>A read of the attribute memory at the current tuple offset.\<close>

definition read_at_cur ::
  "'d usb_dev \<Rightarrow> ('d, 'z) joker_ci_h_scheme \<Rightarrow> byte list \<Rightarrow> nat
    \<Rightarrow> int \<times> byte list \<times> ('d, 'z) joker_ci_h_scheme" where
  "read_at_cur dev j buf sz =
     joker_ci_rw dev j (JOKER_CI_CTRL_READ OR JOKER_CI_CTRL_MEM) (of_nat (cur_offset j)) buf sz"

definition joker_ci_read_tuple ::
  "'d usb_dev \<Rightarrow> ('d, 'z) joker_ci_h_scheme \<Rightarrow> int \<times> ci_tuple_t \<times> ('d, 'z) joker_ci_h_scheme" where
  "joker_ci_read_tuple dev j =
     (if joker_ci_opaque j = None then (- EINVAL, empty_tuple, j)
      else
        let tuple = empty_tuple;
            (ret, buf, j) = read_at_cur dev j (stack_buf dev j JCMD_BUF_LEN) 1
        in if ret < 0 then (- EIO, tuple, j)
           else let j = set_ci (skip_tuple_bytes 2) j;
                    tuple = tuple\<lparr>tp_type := buf ! 0\<rparr>
             in if tp_type tuple = 0xFF then (0, tuple, j)
                else let (ret, buf, j) = read_at_cur dev j buf 1
                  in if ret < 0 then (- EIO, tuple, j)
                     else let j = set_ci (skip_tuple_bytes 2) j;
                              tuple = tuple\<lparr>tp_size := buf ! 0\<rparr>;
                              n = unat (tp_size tuple)
                       in if n > TUPLE_MAX_SIZE then (- EIO, tuple, j)
                          else let (ret, buf, j) = read_at_cur dev j buf (n * 2)
                            in if ret < 0 then (- EIO, tuple, j)
                               else let j = set_ci (skip_tuple_bytes (2 * n)) j;
                                        d = map (\<lambda>i. buf ! (i * 2)) [0..<n];
                                        tuple = tuple\<lparr>tp_data := put_bytes (tp_data tuple) 0 d\<rparr>;
                                        (_, j) = cam_pcap_write_event j JOKER_PCAP_CIS_READ
                                                   ([tp_type tuple, tp_size tuple] @ d)
                                 in (0, tuple, j))"

definition joker_ci_get_next_tuple ::
  "'d usb_dev \<Rightarrow> ('d, 'z) joker_ci_h_scheme \<Rightarrow> byte \<Rightarrow> nat \<Rightarrow> int \<times> ci_tuple_t \<times> ('d, 'z) joker_ci_h_scheme" where
  "joker_ci_get_next_tuple dev j ty sz =
     (if joker_ci_opaque j = None then (- EINVAL, empty_tuple, j)
      else
        let (ret, tuple, j) = joker_ci_read_tuple dev j
        in if ret \<noteq> 0 then (- EIO, tuple, j)
           else if ty \<noteq> 0 \<and> tp_type tuple \<noteq> ty then (- EIO, tuple, j)
           else if sz \<noteq> 0 \<and> sz \<noteq> unat (tp_size tuple) then (- EIO, tuple, j)
           else (0, tuple, j))"

section \<open>Frame facts\<close>

lemma joker_cmd_ci [frame_simps]:
  "joker_ci_opaque (snd (snd (joker_cmd dev j b n ib m))) = joker_ci_opaque j"
  "shutdown_thread (snd (snd (joker_cmd dev j b n ib m))) = shutdown_thread j"
  "cam_pcap_fd (snd (snd (joker_cmd dev j b n ib m))) = cam_pcap_fd j"
  by (simp_all add: joker_cmd_def joker_io_def Let_def split: prod.split)

lemma joker_ci_rw_frame [frame_simps]:
  "joker_ci_opaque (snd (snd (joker_ci_rw dev j c off buf n))) = joker_ci_opaque j"
  "cam_pcap_fd (snd (snd (joker_ci_rw dev j c off buf n))) = cam_pcap_fd j"
  by (simp_all add: joker_ci_rw_def Let_def case_prod_beta frame_simps)

lemma joker_ci_read_frame [frame_simps]:
  "joker_ci_opaque (snd (joker_ci_read dev j off a)) = joker_ci_opaque j"
  by (simp add: joker_ci_read_def case_prod_beta frame_simps)

lemma joker_ci_write_frame [frame_simps]:
  "joker_ci_opaque (snd (joker_ci_write dev j off a d)) = joker_ci_opaque j"
  by (simp add: joker_ci_write_def case_prod_beta frame_simps)

lemma ci_wait_loop_frame: "joker_ci_opaque (snd (ci_wait_loop dev w n buf j)) = joker_ci_opaque j"
  by (induction n arbitrary: buf j) (simp_all add: case_prod_beta Let_def frame_simps)

lemma joker_ci_wait_status_frame [frame_simps]:
  "joker_ci_opaque (snd (joker_ci_wait_status dev j w t)) = joker_ci_opaque j"
  by (simp add: joker_ci_wait_status_def ci_wait_loop_frame)

lemma cur_offset_rw [simp]: "cur_offset (snd (snd (joker_ci_rw dev j c off buf n))) = cur_offset j"
  by (simp add: cur_offset_def frame_simps)

lemma cur_offset_read_at [simp]: "cur_offset (snd (snd (read_at_cur dev j buf n))) = cur_offset j"
  by (simp add: read_at_cur_def)

lemma read_at_cur_frame [frame_simps]:
  "joker_ci_opaque (snd (snd (read_at_cur dev j buf n))) = joker_ci_opaque j"
  by (simp add: read_at_cur_def frame_simps)

lemma cur_offset_cong: "joker_ci_opaque j' = joker_ci_opaque j \<Longrightarrow> cur_offset j' = cur_offset j"
  by (simp add: cur_offset_def)

lemma cur_offset_skip: "joker_ci_opaque j \<noteq> None \<Longrightarrow> cur_offset (set_ci (skip_tuple_bytes n) j) = cur_offset j + n"
  by (auto simp: cur_offset_def set_ci_def skip_tuple_bytes_def)

lemma cur_offset_event [simp]: "cur_offset (snd (cam_pcap_write_event j e d)) = cur_offset j"
  by (simp add: cam_pcap_write_event_def pcap_append_def cur_offset_def)

text \<open>A tuple that is read moves the offset past its two header bytes and its data.\<close>

lemma read_tuple_offset:
  assumes "joker_ci_read_tuple dev j = (0, t, j')"
  shows "cur_offset j' = cur_offset j + (if tp_type t = 0xFF then 2 else 4 + 2 * unat (tp_size t))
    \<and> length (tp_data t) = TUPLE_MAX_SIZE"
proof -
  obtain r1 b1 j1 where 1: "read_at_cur dev j (stack_buf dev j JCMD_BUF_LEN) 1 = (r1, b1, j1)"
    by (metis prod_cases3)
  have ci: "joker_ci_opaque j \<noteq> None" using assms by (auto simp: joker_ci_read_tuple_def split: if_splits)
  have o1: "cur_offset j1 = cur_offset j" "joker_ci_opaque j1 \<noteq> None"
    using cur_offset_read_at [of dev j _ 1] read_at_cur_frame [of dev j _ 1] 1 ci by (metis snd_conv)+
  let ?j1 = "set_ci (skip_tuple_bytes 2) j1"
  have o1': "cur_offset ?j1 = cur_offset j + 2" "joker_ci_opaque ?j1 \<noteq> None"
    using o1 by (auto simp: cur_offset_skip) (auto simp: set_ci_def)
  show ?thesis
  proof (cases "b1 ! 0 = 0xFF")
    case True
    then have "t = empty_tuple\<lparr>tp_type := 0xFF\<rparr>" "j' = ?j1"
      using assms ci 1 by (auto simp: joker_ci_read_tuple_def Let_def split: if_splits)
    then show ?thesis using o1' by (simp add: empty_tuple_def)
  next
    case False
    obtain r2 b2 j2 where 2: "read_at_cur dev ?j1 b1 1 = (r2, b2, j2)" by (metis prod_cases3)
    have "joker_ci_opaque j2 = joker_ci_opaque ?j1"
      using read_at_cur_frame [of dev ?j1 b1 1] unfolding 2 by simp
    then have o2: "cur_offset j2 = cur_offset j + 2" "joker_ci_opaque j2 \<noteq> None"
      using o1' cur_offset_cong [of j2 ?j1] by simp_all
    let ?j2 = "set_ci (skip_tuple_bytes 2) j2"
    have o2': "cur_offset ?j2 = cur_offset j + 4" "joker_ci_opaque ?j2 \<noteq> None"
      using o2 by (auto simp: cur_offset_skip) (auto simp: set_ci_def)
    let ?n = "unat (b2 ! 0)"
    obtain r3 b3 j3 where 3: "read_at_cur dev ?j2 b2 (?n * 2) = (r3, b3, j3)" by (metis prod_cases3)
    have "joker_ci_opaque j3 = joker_ci_opaque ?j2"
      using read_at_cur_frame [of dev ?j2 b2 "?n * 2"] unfolding 3 by simp
    then have o3: "cur_offset j3 = cur_offset j + 4" "joker_ci_opaque j3 \<noteq> None"
      using o2' cur_offset_cong [of j3 ?j2] by simp_all
    let ?d = "map (\<lambda>i. b3 ! (i * 2)) [0..<?n]"
    have n: "?n \<le> TUPLE_MAX_SIZE"
      and t: "t = \<lparr>tp_type = b1 ! 0, tp_size = b2 ! 0, tp_data = put_bytes (replicate TUPLE_MAX_SIZE 0) 0 ?d\<rparr>"
      and j': "j' = snd (cam_pcap_write_event (set_ci (skip_tuple_bytes (2 * ?n)) j3) JOKER_PCAP_CIS_READ
          ([b1 ! 0, b2 ! 0] @ ?d))"
      using assms ci 1 2 3 False
      by (simp_all add: joker_ci_read_tuple_def Let_def case_prod_beta empty_tuple_def split: if_splits)
    have "cur_offset j' = cur_offset j + 4 + 2 * ?n"
      unfolding j' using o3 by (simp add: cur_offset_skip)
    then show ?thesis using n False by (simp add: t)
  qed
qed

lemma get_next_tuple_offset:
  assumes "joker_ci_get_next_tuple dev j ty sz = (0, t, j')"
  shows "cur_offset j + 2 \<le> cur_offset j'" and "length (tp_data t) = TUPLE_MAX_SIZE"
proof -
  have "joker_ci_read_tuple dev j = (0, t, j')"
    using assms by (auto simp: joker_ci_get_next_tuple_def Let_def case_prod_beta prod_eq_iff split: if_splits)
  then show "cur_offset j + 2 \<le> cur_offset j'" "length (tp_data t) = TUPLE_MAX_SIZE"
    using read_tuple_offset by force+
qed

section \<open>Module attributes\<close>

definition str_bytes :: "string \<Rightarrow> byte list" where
  "str_bytes s = map (\<lambda>c. of_nat (of_char c)) s"

text \<open>The C string at offset \<open>off\<close> of an array: \<open>None\<close> without a NUL before the end.\<close>

definition c_string :: "byte list \<Rightarrow> nat \<Rightarrow> byte list option" where
  "c_string data off = (if 0 \<in> set (drop off data) then Some (takeWhile (\<lambda>b. b \<noteq> 0) (drop off data)) else None)"

definition version_strings :: "byte list \<Rightarrow> byte list option" where
  "version_strings data =
     (case c_string data 2 of
        None \<Rightarrow> None
      | Some s0 \<Rightarrow>
          let off1 = length s0 + 2 + 1
          in case c_string data off1 of
               None \<Rightarrow> None
             | Some s1 \<Rightarrow>
                 let off2 = length s1 + off1 + 1
                 in map_option (\<lambda>s2. s0 @ str_bytes '' '' @ s1 @ str_bytes '' '' @ s2 @ [0]) (c_string data off2))"

definition config_base_of :: "byte list \<Rightarrow> nat \<Rightarrow> u32" where
  "config_base_of data rasz =
     fold (\<lambda>i b. b OR push_bit (8 * i) (ucast (data ! (2 + i)))) [0..<rasz + 1] 0"

text \<open>
  The loop over the remaining tuples: \<open>got\<close> is \<open>got_cftableentry\<close>. A failed read ends
  \<open>joker_ci_parse_attributes\<close>.
\<close>

function cftable_loop ::
  "'d usb_dev \<Rightarrow> bool \<Rightarrow> bool \<Rightarrow> ('d, 'z) joker_ci_h_scheme \<Rightarrow> int \<times> bool \<times> ('d, 'z) joker_ci_h_scheme" where
  "cftable_loop dev got end_chain j =
     (if \<not> end_chain \<and> cur_offset j < 0x1000 then
        let r = joker_ci_get_next_tuple dev j 0 0; t = fst (snd r); j' = snd (snd r)
        in if fst r \<noteq> 0 then (- EIO, got, j')
           else if tp_type t = 0x1B then
             if unat (tp_size t) < 2 + 11 + 17 \<or> got then cftable_loop dev got False j'
             else
               let j' = set_ci (\<lambda>ci. ci\<lparr>config_option := tp_data t ! 0 AND 0x3f\<rparr>) j';
                   d = take (unat (tp_size t)) (tp_data t)
               in if xmemmem d (str_bytes ''DVB_HOST'') = None
                     \<or> xmemmem d (str_bytes ''DVB_CI_MODULE'') = None
                  then cftable_loop dev got False j'
                  else cftable_loop dev True False j'
           else if tp_type t = 0xFF then cftable_loop dev got True j'
           else cftable_loop dev got False j'
      else (0, got, j))"
  by pat_completeness auto
termination
proof (relation "measure (\<lambda>(dev, got, e, j). (if e then 0 else 1) + (0x1000 - cur_offset j))", goal_cases)
  case 1
  show ?case by simp
next
  case (2 dev got e j r t j')
  then have "joker_ci_get_next_tuple dev j 0 0 = (0, t, j')" by (simp add: prod_eq_iff)
  from get_next_tuple_offset(1) [OF this] 2 show ?case by auto
next
  case (3 dev got e j r t j' j'' d)
  then have "joker_ci_get_next_tuple dev j 0 0 = (0, t, j')" by (simp add: prod_eq_iff)
  moreover have "cur_offset j'' = cur_offset j'"
    using 3 by (cases "joker_ci_opaque j'") (simp_all add: cur_offset_def set_ci_def)
  ultimately show ?case using get_next_tuple_offset(1) 3 by fastforce
next
  case (4 dev got e j r t j' j'' d)
  then have "joker_ci_get_next_tuple dev j 0 0 = (0, t, j')" by (simp add: prod_eq_iff)
  moreover have "cur_offset j'' = cur_offset j'"
    using 4 by (cases "joker_ci_opaque j'") (simp_all add: cur_offset_def set_ci_def)
  ultimately show ?case using get_next_tuple_offset(1) 4 by fastforce
next
  case (5 dev got e j r t j')
  then have "joker_ci_get_next_tuple dev j 0 0 = (0, t, j')" by (simp add: prod_eq_iff)
  from get_next_tuple_offset(1) [OF this] 5 show ?case by auto
next
  case (6 dev got e j r t j')
  then have "joker_ci_get_next_tuple dev j 0 0 = (0, t, j')" by (simp add: prod_eq_iff)
  from get_next_tuple_offset(1) [OF this] 6 show ?case by auto
qed

declare cftable_loop.simps [simp del]

text \<open>
  The part of \<open>joker_ci_parse_attributes\<close> from the CONFIG tuple on, with the tuple read.
\<close>

definition parse_config ::
  "'d usb_dev \<Rightarrow> ci_tuple_t \<Rightarrow> ('d, 'z) joker_ci_h_scheme \<Rightarrow> int \<times> ('d, 'z) joker_ci_h_scheme" where
  "parse_config dev tuple j =
     (let n = unat (tp_size tuple); data = tp_data tuple
      in if n < 3 then (- EIO, j)
         else let rasz = unat (data ! 0 AND 3)
           in if n < 3 + rasz + 14 then (- EIO, j)
              else let j = set_ci (\<lambda>ci. ci\<lparr>config_base := config_base_of data rasz\<rparr>) j
                in if xmemmem (take n data) (str_bytes ''DVB_CI_V'') = None then (- EIO, j)
                   else if xmemmem (take (n - 8) (drop 8 data)) (str_bytes ''1.0'') = None then (- EIO, j)
                   else let (ret, got, j) = cftable_loop dev False False j
                     in if ret \<noteq> 0 then (- EIO, j)
                        else if \<not> got then (- EIO, j)
                        else (0, set_ci (\<lambda>ci. ci\<lparr>cam_validated := True\<rparr>) j))"

definition joker_ci_parse_attributes ::
  "'d usb_dev \<Rightarrow> ('d, 'z) joker_ci_h_scheme \<Rightarrow> (int \<times> ('d, 'z) joker_ci_h_scheme) option" where
  "joker_ci_parse_attributes dev j =
     (if joker_ci_opaque j = None then Some (- EINVAL, j)
      else let (ret, _, j) = joker_ci_get_next_tuple dev j 0x1D 0
        in if ret \<noteq> 0 then Some (- EIO, j)
           else let (ret, _, j) = joker_ci_get_next_tuple dev j 0x1C 0
             in if ret \<noteq> 0 then Some (- EIO, j)
                else let (ret, tuple, j) = joker_ci_get_next_tuple dev j 0x15 0
                  in if ret \<noteq> 0 then Some (- EIO, j)
                     else case version_strings (tp_data tuple) of
                       None \<Rightarrow> None
                     | Some info \<Rightarrow>
                         let j = set_ci (\<lambda>ci. ci\<lparr>cam_infostring := put_bytes (cam_infostring ci) 0 info\<rparr>) j;
                             (ret, tuple, j) = joker_ci_get_next_tuple dev j 0x20 4
                         in if ret \<noteq> 0 then Some (- EIO, j)
                            else let d = tp_data tuple;
                                     j = set_ci (\<lambda>ci. ci\<lparr>manfid := push_bit 8 (ucast (d ! 1)) OR ucast (d ! 0),
                                                       devid := push_bit 8 (ucast (d ! 3)) OR ucast (d ! 2)\<rparr>) j;
                                     (ret, tuple, j) = joker_ci_get_next_tuple dev j 0x1A 0
                              in if ret \<noteq> 0 then Some (- EIO, j) else Some (parse_config dev tuple j))"

section \<open>Interface and link\<close>

definition ci_cfg :: "('d, 'z) joker_ci_h_scheme \<Rightarrow> u32 \<times> byte" where
  "ci_cfg j = (case joker_ci_opaque j of None \<Rightarrow> (0, 0) | Some ci \<Rightarrow> (config_base ci, config_option ci))"

definition joker_ci_init_interface ::
  "'d usb_dev \<Rightarrow> ('d, 'z) joker_ci_h_scheme \<Rightarrow> int \<times> ('d, 'z) joker_ci_h_scheme" where
  "joker_ci_init_interface dev j =
     (if joker_ci_opaque j = None then (- EINVAL, j)
      else let base = (ucast (fst (ci_cfg j)) :: u16); opt = snd (ci_cfg j);
               (ret, buf, j) = joker_ci_rw dev j (JOKER_CI_CTRL_READ OR JOKER_CI_CTRL_MEM) base
                                 (stack_buf dev j JCMD_BUF_LEN) 1
        in if ret < 0 then (- EIO, j)
           else let (ret, buf, j) = joker_ci_rw dev j (JOKER_CI_CTRL_WRITE OR JOKER_CI_CTRL_MEM) base (buf[0 := opt]) 1
             in if ret < 0 then (- EIO, j)
                else let (_, j) = cam_pcap_write_event j JOKER_PCAP_COR_WRITE (be16 base @ [opt]);
                         (ret, buf, j) = joker_ci_rw dev j (JOKER_CI_CTRL_READ OR JOKER_CI_CTRL_MEM) base buf 1
                  in if ret < 0 then (- EIO, j)
                     else if buf ! 0 \<noteq> opt then (- EIO, j)
                     else let (ret, buf, j) = joker_ci_rw dev j (JOKER_CI_CTRL_WRITE OR JOKER_CI_CTRL_IO)
                                                (of_nat CTRLIF_COMMAND) (buf[0 := CMDREG_RS]) 1
                       in if ret < 0 then (- EIO, j)
                          else let (ret, j) = joker_ci_wait_status dev j STATUSREG_FR 10000
                            in if ret \<noteq> 0 then (- EIO, j) else (0, j))"

definition joker_ci_link_init ::
  "'d usb_dev \<Rightarrow> ('d, 'z) joker_ci_h_scheme \<Rightarrow> int \<times> ('d, 'z) joker_ci_h_scheme" where
  "joker_ci_link_init dev j =
     (if joker_ci_opaque j = None then (- EINVAL, j)
      else let (_, j) = joker_ci_write dev j CTRLIF_COMMAND JOKER_CI_IO (IRQEN OR CMDREG_SR);
               (ret, j) = joker_ci_wait_status dev j STATUSREG_DA 1000
        in if ret \<noteq> 0 then (- EIO, j)
           else let (ret, buf, j) = joker_ci_read_data dev j (stack_buf dev j 128) 2
             in if ret \<noteq> 2 then (- EIO, j)
                else let (_, j) = joker_ci_write dev j CTRLIF_COMMAND JOKER_CI_IO IRQEN;
                         (_, j) = joker_ci_write dev j CTRLIF_COMMAND JOKER_CI_IO (IRQEN OR CMDREG_SW);
                         (ret, j) = joker_ci_wait_status dev j STATUSREG_FR 100
                  in if ret \<noteq> 0 then (- EIO, j)
                     else let (ret, j) = joker_ci_write_data dev j buf 2
                       in if ret \<noteq> 2 then (- EIO, j)
                          else let (_, j) = joker_ci_write dev j CTRLIF_COMMAND JOKER_CI_IO IRQEN
                            in (0, j))"

section \<open>Detection\<close>

text \<open>
  The polls of the CAM status after a power cycle, and the power cycles; the last reply is kept
  in \<open>in_buf\<close>. The first component is the return code of a failed command, else 0.
\<close>

abbreviation cam_bit :: "byte list \<Rightarrow> bool" where "cam_bit b \<equiv> b ! 1 AND 0x01 \<noteq> 0"

fun ci_status_loop ::
  "'d usb_dev \<Rightarrow> nat \<Rightarrow> byte list \<Rightarrow> ('d, 'z) joker_ci_h_scheme \<Rightarrow> int \<times> byte list \<times> ('d, 'z) joker_ci_h_scheme" where
  "ci_status_loop dev 0 in_buf j = (0, in_buf, j)"
| "ci_status_loop dev (Suc n) in_buf j =
     (if shutdown_thread j then (0, in_buf, j)
      else let (ret, in_buf, j) = joker_cmd dev j [J_CMD_CI_STATUS] 1 in_buf 2
        in if ret \<noteq> 0 then (ret, in_buf, j)
           else if cam_bit in_buf then (0, in_buf, j)
           else ci_status_loop dev n in_buf j)"

fun ci_power_loop ::
  "'d usb_dev \<Rightarrow> nat \<Rightarrow> byte list \<Rightarrow> ('d, 'z) joker_ci_h_scheme \<Rightarrow> int \<times> byte list \<times> ('d, 'z) joker_ci_h_scheme" where
  "ci_power_loop dev 0 in_buf j = (0, in_buf, j)"
| "ci_power_loop dev (Suc n) in_buf j =
     (if shutdown_thread j then (0, in_buf, j)
      else let (_, j) = joker_reset dev j OC_I2C_RESET_TPS_CI;
               (_, j) = joker_unreset dev j OC_I2C_RESET_TPS_CI;
               (ret, in_buf, j) = ci_status_loop dev 70 in_buf j
        in if ret \<noteq> 0 then (ret, in_buf, j)
           else if cam_bit in_buf then (0, in_buf, j)
           else ci_power_loop dev n in_buf j)"

text \<open>
  \<open>joker_ci_worker\<close>; \<open>en50221_start\<close> is \<open>joker_ci_en50221_start\<close>, whose result is ignored.
  A failed initialisation frees the CI state, a missing module does not.
\<close>

definition open_pcap :: "('d, 'z) joker_ci_h_scheme \<Rightarrow> ('d, 'z) joker_ci_h_scheme" where
  "open_pcap j =
     (if cam_pcap_filename j
      then snd (cam_pcap_write_header (j\<lparr>cam_pcap_fd := Some []\<rparr>)) else j)"

definition ci_fail_out :: "('d, 'z) joker_ci_h_scheme \<Rightarrow> (int \<times> ('d, 'z) joker_ci_h_scheme) option" where
  "ci_fail_out j = Some (- EIO, j\<lparr>joker_ci_opaque := None\<rparr>)"

definition joker_ci_worker ::
  "(('d, 'z) joker_ci_h_scheme \<Rightarrow> ('d, 'z) joker_ci_h_scheme) \<Rightarrow> 'd usb_dev
    \<Rightarrow> ('d, 'z) joker_ci_h_scheme \<Rightarrow> (int \<times> ('d, 'z) joker_ci_h_scheme) option" where
  "joker_ci_worker en50221_start dev j =
     (if joker_ci_opaque j \<noteq> None then Some (- EINVAL, j)
      else
        let j = j\<lparr>joker_ci_opaque := Some (zero_ci (ci_verbose_opt j))\<rparr>;
            (ret, in_buf, j) = ci_power_loop dev 10 (stack_buf dev j JCMD_BUF_LEN) j
        in if ret \<noteq> 0 then ci_fail_out j
           else if \<not> cam_bit in_buf then Some (- ENODEV, j)
           else
             let j = open_pcap j;
                 (_, j) = cam_pcap_write_event j JOKER_PCAP_HW_EVT [0x01];
                 (_, j) = cam_pcap_write_event j JOKER_PCAP_HW_EVT [0x03];
                 j = set_ci (\<lambda>ci. ci\<lparr>cam_detected := True\<rparr>) j;
                 j = (if ci_verbose_opt j
                      then snd (snd (joker_ci_rw dev j (JOKER_CI_CTRL_READ OR JOKER_CI_CTRL_MEM) 0
                                       (stack_buf dev j JCMD_BUF_LEN) 500))
                      else j)
             in case joker_ci_parse_attributes dev j of
                  None \<Rightarrow> None
                | Some (ret, j) \<Rightarrow>
                    if ret \<noteq> 0 then ci_fail_out j
                    else let (ret, j) = joker_ci_init_interface dev j
                      in if ret \<noteq> 0 then ci_fail_out j
                         else let (ret, j) = joker_ci_link_init dev j
                           in if ret \<noteq> 0 then ci_fail_out j
                              else Some (0, en50221_start j))"

text \<open>
  \<open>joker_ci\<close> starts the worker thread once; \<open>rc\<close> is the result of \<open>pthread_create\<close>.
  \<open>joker_ci_close\<close> stops it; \<open>en50221_stop\<close> is \<open>joker_ci_en50221_stop\<close>.
\<close>

definition joker_ci :: "int \<Rightarrow> ('d, 'z) joker_ci_h_scheme \<Rightarrow> int \<times> ('d, 'z) joker_ci_h_scheme" where
  "joker_ci rc j =
     (if \<not> ci_threading j then
        let j = j\<lparr>ci_threading := True, shutdown_thread := False\<rparr>
        in if rc \<noteq> 0 then (rc, j) else (0, j)
      else (0, j))"

definition joker_ci_close ::
  "(('d, 'z) joker_ci_h_scheme \<Rightarrow> ('d, 'z) joker_ci_h_scheme) \<Rightarrow> ('d, 'z) joker_ci_h_scheme
    \<Rightarrow> int \<times> ('d, 'z) joker_ci_h_scheme" where
  "joker_ci_close en50221_stop j =
     (if \<not> ci_threading j then (0, j)
      else let j = en50221_stop j;
               j = j\<lparr>shutdown_thread := True\<rparr>;
               j = j\<lparr>joker_ci_opaque := None\<rparr>;
               j = j\<lparr>cam_pcap_fd := None\<rparr>
        in (0, j))"

section \<open>Reading a dump back\<close>

definition un_le32 :: "byte list \<Rightarrow> u32" where
  "un_le32 b = ucast (b ! 0) OR push_bit 8 (ucast (b ! 1)) OR push_bit 16 (ucast (b ! 2)) OR push_bit 24 (ucast (b ! 3))"

lemma un_le32_le32: "un_le32 (le32 w @ xs) = w"
proof -
  have "ucast (ucast w :: byte) OR push_bit 8 (ucast (ucast (drop_bit 8 w) :: byte))
      OR push_bit 16 (ucast (ucast (drop_bit 16 w) :: byte))
      OR push_bit 24 (ucast (ucast (drop_bit 24 w) :: byte)) = w" (is "?l = w")
  proof (rule bit_word_eqI)
    fix n assume "n < LENGTH(32)"
    then have "n < 32" by simp
    then consider "n < 8" | "8 \<le> n" "n < 16" | "16 \<le> n" "n < 24" | "24 \<le> n" "n < 32" by linarith
    then show "bit ?l n = bit w n"
      by cases (auto simp: bit_simps)
  qed
  then show ?thesis by (simp add: un_le32_def le32_def numeral_2_eq_2 numeral_3_eq_3)
qed

text \<open>A reader of the record format: time stamp, event and data of each record.\<close>

function pcap_parse :: "byte list \<Rightarrow> ((u32 \<times> u32) \<times> byte \<times> byte list) list" where
  "pcap_parse bs =
     (if length bs < 20 then []
      else let incl = unat (un_le32 (drop 8 bs)); body = take incl (drop 16 bs)
        in ((un_le32 bs, un_le32 (drop 4 bs)), body ! 1, drop 4 body) # pcap_parse (drop (16 + incl) bs))"
  by pat_completeness auto
termination
  by (relation "measure length") auto

declare pcap_parse.simps [simp del]

lemma length_le [simp]: "length (le32 w) = 4" "length (be16 x) = 2"
  by (simp_all add: le32_def be16_def)

lemma pcap_parse_record:
  assumes "length data < 65536"
  shows "pcap_parse (pcap_record tv event data @ rest) = (tv, event, data) # pcap_parse rest"
proof -
  have len: "unat (of_nat (length data) :: u16) = length data"
    using assms by (simp add: unat_of_nat)
  define incl where "incl = (ucast (of_nat (length data) :: u16) + 4 :: u32)"
  have incl: "unat incl = length data + 4"
  proof -
    have "unat (ucast (of_nat (length data) :: u16) :: u32) = length data"
      using assms by (simp add: unsigned_ucast_eq unat_of_nat take_bit_nat_eq_self)
    then show ?thesis using assms unfolding incl_def
      by (subst unat_plus_simple [THEN iffD1]) (auto simp: word_le_nat_alt unat_word_ariths)
  qed
  define r where "r = le32 (fst tv) @ le32 (snd tv) @ le32 incl @ le32 incl @ [0, event]
      @ be16 (of_nat (length data)) @ data @ rest"
  have rec: "pcap_record tv event data @ rest = r"
    using assms by (simp add: pcap_record_def r_def len incl_def Let_def)
  have d: "un_le32 r = fst tv" "un_le32 (drop 4 r) = snd tv" "un_le32 (drop 8 r) = incl"
    "drop 16 r = [0, event] @ be16 (of_nat (length data)) @ data @ rest" "20 \<le> length r"
    by (simp_all add: r_def un_le32_le32)
  define A where "A = [0, event] @ be16 (of_nat (length data)) @ data"
  have A: "drop 16 r = A @ rest" "length A = length data + 4" unfolding d(4) A_def by simp_all
  then have body: "take (length data + 4) (drop 16 r) = A" by simp
  have "drop (16 + (length data + 4)) r = drop (length data + 4) (drop 16 r)" by (simp add: add.commute)
  also have "\<dots> = rest" unfolding A(1) using A(2) by simp
  finally have rest: "drop (16 + (length data + 4)) r = rest" .
  show ?thesis unfolding rec
    by (subst pcap_parse.simps) (use d body rest incl in \<open>simp add: Let_def A_def be16_def\<close>)
qed

section \<open>Bounds\<close>

lemma c_string_length:
  "c_string data off = Some s \<Longrightarrow> off + length s < length data"
proof -
  assume "c_string data off = Some s"
  then have z: "0 \<in> set (drop off data)" and s: "s = takeWhile (\<lambda>b. b \<noteq> 0) (drop off data)"
    by (auto simp: c_string_def split: if_splits)
  have "length s < length (drop off data)"
  proof (rule ccontr)
    assume "\<not> length s < length (drop off data)"
    then have "takeWhile (\<lambda>b. b \<noteq> 0) (drop off data) = drop off data"
      unfolding s by (metis le_neq_implies_less length_takeWhile_le takeWhile_eq_take take_all not_less)
    then have "\<forall>b\<in>set (drop off data). b \<noteq> 0" by (simp only: takeWhile_eq_all_conv)
    with z show False by blast
  qed
  then show ?thesis by simp
qed

lemma version_strings_fit:
  assumes "version_strings data = Some info" and "length data = TUPLE_MAX_SIZE"
  shows "length info \<le> TUPLE_MAX_SIZE"
proof -
  obtain s0 where 0: "c_string data 2 = Some s0"
    using assms(1) by (cases "c_string data 2") (auto simp: version_strings_def)
  let ?o1 = "length s0 + 2 + 1"
  obtain s1 where 1: "c_string data ?o1 = Some s1"
    using assms(1) 0 by (cases "c_string data ?o1") (auto simp: version_strings_def Let_def)
  let ?o2 = "length s1 + ?o1 + 1"
  obtain s2 where 2: "c_string data ?o2 = Some s2"
    using assms(1) 0 1 by (cases "c_string data ?o2") (auto simp: version_strings_def Let_def)
  have info: "info = s0 @ str_bytes '' '' @ s1 @ str_bytes '' '' @ s2 @ [0]"
    using assms(1) unfolding version_strings_def 0 option.case Let_def 1 2 by simp
  from c_string_length [OF 2] have "length s0 + length s1 + length s2 + 4 < TUPLE_MAX_SIZE"
    using assms(2) by simp
  then show ?thesis by (simp add: info str_bytes_def)
qed

lemma ci_data_loop_bounds:
  assumes "i + n \<le> length buf"
  shows "let (r, buf', j') = ci_data_loop dev n i buf j
    in length buf' = length buf \<and> drop (i + n) buf' = drop (i + n) buf"
  using assms
proof (induction n arbitrary: i buf j)
  case (Suc n)
  obtain ret j1 where r: "joker_ci_read dev j CTRLIF_DATA JOKER_CI_IO = (ret, j1)" by fastforce
  let ?b = "put_bytes buf i [word_of_int ret]"
  have len: "length ?b = length buf" using Suc.prems by simp
  have "drop (i + Suc n) ?b = drop (i + Suc n) buf"
    using Suc.prems by (simp add: put_bytes_def add.commute)
  then show ?case using Suc.IH [of "Suc i" ?b j1] Suc.prems len
    by (simp add: r case_prod_beta Let_def)
qed simp

section \<open>A module that answers\<close>

text \<open>
  A device for the witnesses: every access succeeds; the status register always has data, the
  data length is 1, everything else depends on the address only.
\<close>

definition cam_reply :: "byte \<Rightarrow> byte" where
  "cam_reply a = (if a = 1 then 0x80 else if a = 2 then 1 else if a = 0 then 0x55 else 0)"

definition cam_dev_of :: "(byte \<Rightarrow> byte) \<Rightarrow> byte list usb_dev" where
  "cam_dev_of reply = \<lparr>bulk_out = (\<lambda>_ b d. (0, length b, b)),
     bulk_in = (\<lambda>_ n d. (0, take n ([0, 2, 0, 1, reply (d ! 5)] @ replicate n 0), d)),
     undef_bytes = (\<lambda>_ _. 0)\<rparr>"

abbreviation cam_dev :: "byte list usb_dev" where "cam_dev \<equiv> cam_dev_of cam_reply"

definition cam_joker :: "byte list joker_ci_h" where
  "cam_joker = \<lparr>dev_st = [], usb_log = [], libusb_opaque = True, io_mux_opaq = True, i2c_opaque = True, reset = 0,
     joker_ci_opaque = Some (zero_ci False), ci_threading = True, shutdown_thread = False,
     ci_verbose_opt = False, cam_pcap_filename = False, cam_pcap_fd = None, wall_clock = (0, 0)\<rparr>"

lemma cam_rw:
  assumes "io_mux_opaq j" and "joker_ci_opaque j \<noteq> None" and "0 < sz" and "sz \<le> 256" and "sz \<le> length buf"
    and "cmd AND JOKER_CI_CTRL_READ \<noteq> 0"
  shows "\<exists>j'. joker_ci_rw (cam_dev_of r) j cmd off buf sz
      = (1, put_bytes buf 0 (r (ucast off) # replicate (sz - 1) 0), j')
    \<and> io_mux_opaq j' \<and> joker_ci_opaque j' = joker_ci_opaque j \<and> cam_pcap_fd j' = cam_pcap_fd j"
proof -
  let ?o = "[J_CMD_CI_RW, cmd, of_nat (sz div 256), of_nat sz, ucast (drop_bit 8 off), ucast off] @ take sz buf"
  let ?g = "take (sz + 4) ([0, 2, 0, 1, r (ucast off)] @ replicate (sz + 4) 0)"
  let ?ib = "put_bytes (stack_buf (cam_dev_of r) j JCMD_BUF_LEN) 0 ?g"
  have lo: "length ?o = sz + 6" using assms(5) by simp
  have lg: "length ?g = sz + 4" by simp
  have len: "length (stack_buf (cam_dev_of r) j JCMD_BUF_LEN) = JCMD_BUF_LEN" by simp
  obtain k where k: "sz = Suc k" using assms(3) gr0_implies_Suc by blast
  have "sz + 4 = Suc (Suc (Suc (Suc (Suc k))))" by (simp add: k)
  then have g: "?g = [0, 2, 0, 1, r (ucast off)] @ replicate k 0"
    by (simp only: take_Suc_Cons append_Cons append_Nil take_replicate) simp
  have nth: "?ib ! i = ?g ! i" if "i < sz + 4" for i
    using that assms(4) lg nth_put_bytes_in [of 0 i ?g "stack_buf (cam_dev_of r) j JCMD_BUF_LEN"] by simp
  have b: "?ib ! 1 = 2" "?ib ! 2 = 0" "?ib ! 3 = 1"
    using nth [of 1] nth [of 2] nth [of 3] assms(3) unfolding g by (simp_all add: numeral_2_eq_2 numeral_3_eq_3)
  have d: "take sz (drop 4 ?ib) = r (ucast off) # replicate k 0"
  proof -
    have "?ib = ?g @ drop (sz + 4) (stack_buf (cam_dev_of r) j JCMD_BUF_LEN)" using lg by (simp add: put_bytes_def)
    then have "drop 4 ?ib = (r (ucast off) # replicate k 0) @ drop (sz + 4) (stack_buf (cam_dev_of r) j JCMD_BUF_LEN)"
      unfolding g by simp
    then show ?thesis by (simp add: k)
  qed
  have "\<exists>j'. joker_cmd (cam_dev_of r) j ?o (sz + 6) (stack_buf (cam_dev_of r) j JCMD_BUF_LEN) (sz + 4) = (0, ?ib, j')
      \<and> io_mux_opaq j' \<and> joker_ci_opaque j' = joker_ci_opaque j \<and> cam_pcap_fd j' = cam_pcap_fd j"
    using assms(1) lo lg
    by (simp add: joker_cmd_def joker_io_def cam_dev_of_def Let_def stack_buf_def)
  then obtain j' where c: "joker_cmd (cam_dev_of r) j ?o (sz + 6) (stack_buf (cam_dev_of r) j JCMD_BUF_LEN) (sz + 4) = (0, ?ib, j')"
    "io_mux_opaq j'" "joker_ci_opaque j' = joker_ci_opaque j" "cam_pcap_fd j' = cam_pcap_fd j" by blast
  have "joker_ci_rw (cam_dev_of r) j cmd off buf sz = (1, put_bytes buf 0 (r (ucast off) # replicate k 0), j')"
    using assms(2,4,6) unfolding joker_ci_rw_def Let_def c(1) prod.case b d by simp
  then show ?thesis using c k by simp
qed

lemma cam_read:
  assumes "io_mux_opaq j" and "joker_ci_opaque j \<noteq> None"
  shows "\<exists>j'. joker_ci_read (cam_dev_of r) j off JOKER_CI_IO = (uint (r (of_nat off)), j')
    \<and> io_mux_opaq j' \<and> joker_ci_opaque j' = joker_ci_opaque j"
proof -
  have rd: "(JOKER_CI_CTRL_READ OR JOKER_CI_CTRL_IO) AND JOKER_CI_CTRL_READ \<noteq> (0::byte)" by simp
  obtain j' where "joker_ci_rw (cam_dev_of r) j (JOKER_CI_CTRL_READ OR JOKER_CI_CTRL_IO) (of_nat off) (stack_buf (cam_dev_of r) j JCMD_BUF_LEN) 1
      = (1, put_bytes (stack_buf (cam_dev_of r) j JCMD_BUF_LEN) 0 (r (ucast (of_nat off :: u16)) # replicate (1 - 1) 0), j')"
    "io_mux_opaq j'" "joker_ci_opaque j' = joker_ci_opaque j"
    using cam_rw [OF assms _ _ _ rd, of 1 "stack_buf (cam_dev_of r) j JCMD_BUF_LEN" r "of_nat off"] by auto
  moreover have "ucast (of_nat off :: u16) = (of_nat off :: byte)"
    by (rule bit_word_eqI) (simp add: bit_simps)
  ultimately show ?thesis using assms(2)
    by (auto simp: joker_ci_read_def ci_area_def put_bytes_def)
qed

lemma cam_data_loop:
  assumes "io_mux_opaq j" and "joker_ci_opaque j \<noteq> None" and "i + n \<le> length buf"
  shows "\<exists>j'. ci_data_loop (cam_dev_of r) n i buf j = (0, put_bytes buf i (replicate n (r 0)), j')
    \<and> io_mux_opaq j' \<and> joker_ci_opaque j' = joker_ci_opaque j"
  using assms
proof (induction n arbitrary: i buf j)
  case 0
  then show ?case by (simp add: put_bytes_def)
next
  case (Suc n)
  obtain j1 where 1: "joker_ci_read (cam_dev_of r) j 0 1 = (uint (r 0), j1)" "io_mux_opaq j1"
    "joker_ci_opaque j1 = joker_ci_opaque j" using cam_read [OF Suc.prems(1,2), of r 0] by auto
  let ?b = "put_bytes buf i [r 0]"
  have len: "Suc i + n \<le> length ?b" using Suc.prems(3) by simp
  obtain j2 where 2: "ci_data_loop (cam_dev_of r) n (Suc i) ?b j1 = (0, put_bytes ?b (Suc i) (replicate n (r 0)), j2)"
    "io_mux_opaq j2" "joker_ci_opaque j2 = joker_ci_opaque j1"
    using Suc.IH [OF 1(2) _ len] 1(3) Suc.prems(2) by auto
  have "put_bytes ?b (Suc i) (replicate n (r 0)) = put_bytes buf i (replicate (Suc n) (r 0))"
  proof -
    have "take (Suc i) ?b = take i buf @ [r 0]" "drop (Suc i + n) ?b = drop (i + Suc n) buf"
      using Suc.prems(3) by (simp_all add: put_bytes_def min_def add.commute)
    then show ?thesis by (simp add: put_bytes_def)
  qed
  then show ?case using 1 2 by simp
qed

lemma cam_read_data_of:
  assumes "io_mux_opaq j" and "joker_ci_opaque j \<noteq> None" and "r 1 = 0x80" and "r 3 = 0"
    and "unat (r 2) \<le> sz" and "unat (r 2) \<le> length buf"
  shows "\<exists>j'. joker_ci_read_data (cam_dev_of r) j buf sz
      = (uint (r 2), put_bytes buf 0 (replicate (unat (r 2)) (r 0)), j')
    \<and> io_mux_opaq j' \<and> joker_ci_opaque j' = joker_ci_opaque j"
proof -
  let ?d = "cam_dev_of r"
  have "(JOKER_CI_CTRL_READ OR JOKER_CI_CTRL_IO) AND JOKER_CI_CTRL_READ \<noteq> (0::byte)" by simp
  from cam_rw [OF assms(1,2) _ _ _ this, of 1 "stack_buf ?d j JCMD_BUF_LEN" r 1]
  obtain j1 where rw: "joker_ci_rw ?d j (JOKER_CI_CTRL_READ OR JOKER_CI_CTRL_IO) 1 (stack_buf ?d j JCMD_BUF_LEN) 1
      = (1, put_bytes (stack_buf ?d j JCMD_BUF_LEN) 0 [0x80], j1)"
    and 1: "io_mux_opaq j1" "joker_ci_opaque j1 = joker_ci_opaque j"
    using assms(3) by auto
  have w: "joker_ci_wait_status ?d j STATUSREG_DA 1000 = (0, j1)"
  proof -
    have h: "(1000::nat) div 10 = Suc 99" by simp
    have "of_nat CTRLIF_STATUS = (1 :: u16)" "STATUSREG_DA AND STATUSREG_DA \<noteq> 0" by simp_all
    then have "ci_wait_loop ?d STATUSREG_DA (Suc 99) (stack_buf ?d j JCMD_BUF_LEN) j = (0, j1)"
      unfolding ci_wait_loop.simps Let_def by (simp only: rw prod.case) (simp add: put_bytes_def)
    then show ?thesis using assms(2) unfolding joker_ci_wait_status_def h by (simp only: if_False)
  qed
  have o1: "joker_ci_opaque j1 \<noteq> None" using 1 assms(2) by simp
  obtain j2 where 2: "joker_ci_read ?d j1 3 1 = (0, j2)" "io_mux_opaq j2" "joker_ci_opaque j2 = joker_ci_opaque j1"
    using cam_read [OF 1(1) o1, of r 3] assms(4) by auto
  have o2: "joker_ci_opaque j2 \<noteq> None" using 2 o1 by simp
  obtain j3 where 3: "joker_ci_read ?d j2 2 1 = (uint (r 2), j3)" "io_mux_opaq j3" "joker_ci_opaque j3 = joker_ci_opaque j2"
    using cam_read [OF 2(2) o2, of r 2] by auto
  have o3: "joker_ci_opaque j3 \<noteq> None" using 3 o2 by simp
  obtain j4 where 4: "ci_data_loop ?d (unat (r 2)) 0 buf j3 = (0, put_bytes buf 0 (replicate (unat (r 2)) (r 0)), j4)"
    "io_mux_opaq j4" "joker_ci_opaque j4 = joker_ci_opaque j3"
    using cam_data_loop [OF 3(2) o3, of 0 "unat (r 2)" buf r] assms(6) by auto
  have o4: "joker_ci_opaque j4 \<noteq> None" using 4 o3 by simp
  obtain j5 where 5: "joker_ci_read ?d j4 1 1 = (0x80, j5)" "io_mux_opaq j5" "joker_ci_opaque j5 = joker_ci_opaque j4"
    using cam_read [OF 4(2) o4, of r 1] assms(3) by auto
  have n: "nat (256 * 0 + uint (r 2)) = unat (r 2)" by simp
  have lim: "\<not> unat (r 2) > (if sz > JCMD_BUF_LEN - 6 then JCMD_BUF_LEN - 6 else sz)"
  proof -
    have "unat (r 2) < 2 ^ LENGTH(8)" by (rule unsigned_less)
    then show ?thesis using assms(5) by simp
  qed
  have st: "(word_of_int 0x80 :: byte) AND STATUSREG_RE = 0" "\<not> (0x80::int) < 0" "\<not> uint (r 2) < 0" by simp_all
  have "joker_ci_read_data ?d j buf sz = (int (unat (r 2)), put_bytes buf 0 (replicate (unat (r 2)) (r 0)), j5)"
    using assms(2) unfolding joker_ci_read_data_def w prod.case 2(1) 3(1) Let_def n
    by (simp only: 4(1) 5(1) prod.case lim st if_False if_True simp_thms)
      (simp add: 5(1) [simplified])
  then show ?thesis using 1 2 3 4 5 by simp
qed

lemma cam_read_data:
  "\<exists>j'. joker_ci_read_data cam_dev cam_joker [0, 0] 2 = (1, [0x55, 0], j')"
  using cam_read_data_of [of cam_joker cam_reply 2 "[0, 0]"]
  by (auto simp: cam_reply_def cam_joker_def put_bytes_def)

lemma cam_read_tuple:
  "\<exists>t j'. joker_ci_read_tuple cam_dev cam_joker = (0, t, j') \<and> tp_type t = 0x55 \<and> tp_size t = 1
     \<and> tp_data t = replicate TUPLE_MAX_SIZE 0"
proof -
  let ?j = cam_joker
  let ?rm = "JOKER_CI_CTRL_READ OR JOKER_CI_CTRL_MEM"
  have rm: "?rm AND JOKER_CI_CTRL_READ \<noteq> (0::byte)" by simp
  have o: "io_mux_opaq ?j" "joker_ci_opaque ?j \<noteq> None" "cur_offset ?j = 0"
    by (simp_all add: cam_joker_def cur_offset_def zero_ci_def)
  let ?b0 = "stack_buf cam_dev ?j JCMD_BUF_LEN"
  obtain j1 where 1: "joker_ci_rw cam_dev ?j ?rm 0 ?b0 1 = (1, put_bytes ?b0 0 [0x55], j1)"
    "io_mux_opaq j1" "joker_ci_opaque j1 = joker_ci_opaque ?j" "cam_pcap_fd j1 = None"
    using cam_rw [OF o(1,2) _ _ _ rm, of 1 ?b0 cam_reply 0] by (auto simp: cam_reply_def cam_joker_def)
  let ?b1 = "put_bytes ?b0 0 [0x55]" and ?j1 = "set_ci (skip_tuple_bytes 2) j1"
  have o1: "io_mux_opaq ?j1" "joker_ci_opaque ?j1 \<noteq> None" "cur_offset ?j1 = 2" "cam_pcap_fd ?j1 = None"
    using 1 o cur_offset_cong [OF 1(3)] by (auto simp: set_ci_def cam_joker_def cur_offset_def skip_tuple_bytes_def)
  obtain j2 where 2: "joker_ci_rw cam_dev ?j1 ?rm 2 ?b1 1 = (1, put_bytes ?b1 0 [1], j2)"
    "io_mux_opaq j2" "joker_ci_opaque j2 = joker_ci_opaque ?j1" "cam_pcap_fd j2 = None"
    using cam_rw [OF o1(1,2) _ _ _ rm, of 1 ?b1 cam_reply 2] o1(4) by (auto simp: cam_reply_def)
  let ?b2 = "put_bytes ?b1 0 [1]" and ?j2 = "set_ci (skip_tuple_bytes 2) j2"
  have o2: "io_mux_opaq ?j2" "joker_ci_opaque ?j2 \<noteq> None" "cur_offset ?j2 = 4" "cam_pcap_fd ?j2 = None"
    using 2 o1 by (auto simp: set_ci_def cur_offset_def skip_tuple_bytes_def)
  have l: "length ?b2 = JCMD_BUF_LEN" "?b1 ! 0 = 0x55" "?b2 ! 0 = 1"
    by (simp_all add: put_bytes_def)
  obtain j3 where 3: "joker_ci_rw cam_dev ?j2 ?rm 4 ?b2 2 = (1, put_bytes ?b2 0 [0, 0], j3)"
    "cam_pcap_fd j3 = None"
    using cam_rw [OF o2(1,2) _ _ _ rm, of 2 ?b2 cam_reply 4] o2(4) l(1) by (auto simp: cam_reply_def)
  have "put_bytes ?b2 0 [0, 0] ! 0 = 0" by (simp add: put_bytes_def)
  moreover have "put_bytes (replicate TUPLE_MAX_SIZE 0) 0 [0] = replicate TUPLE_MAX_SIZE (0::byte)"
  proof -
    have "replicate TUPLE_MAX_SIZE (0::byte) = 0 # replicate 127 0" by (simp add: numeral_eq_Suc)
    then show ?thesis by (simp add: put_bytes_def)
  qed
  moreover have r1: "read_at_cur cam_dev ?j ?b0 1 = (1, ?b1, j1)"
    and r2: "read_at_cur cam_dev ?j1 ?b1 1 = (1, ?b2, j2)"
    and r3: "read_at_cur cam_dev ?j2 ?b2 2 = (1, put_bytes ?b2 0 [0, 0], j3)"
    using 1 2 3 o(3) o1(3) o2(3) by (simp_all add: read_at_cur_def)
  moreover have "cam_pcap_fd (set_ci (skip_tuple_bytes 2) j3) = None"
    using 3 by (simp add: set_ci_def)
  ultimately have "joker_ci_read_tuple cam_dev ?j = (0, \<lparr>tp_type = 0x55, tp_size = 1,
      tp_data = replicate TUPLE_MAX_SIZE 0\<rparr>, set_ci (skip_tuple_bytes 2) j3)"
    using o(2) l(2,3) unfolding joker_ci_read_tuple_def Let_def r1 prod.case
    by (simp add: r2 [simplified] r3 [simplified] empty_tuple_def cam_pcap_write_event_def)
  then show ?thesis by (intro exI conjI) auto
qed

section \<open>Properties\<close>

text \<open>ci_read_data_bounds: when \<open>joker_ci_read_data\<close> returns a count, the count is within the
  caller's size and within the 506 bytes of one command, and only that many bytes of the buffer
  have been written.\<close>

theorem ci_read_data_bounds:
  fixes j :: "('d, 'z) joker_ci_h_scheme"
  assumes "joker_ci_read_data dev j buf sz = (n, buf', j')" and "0 \<le> n" and "sz \<le> length buf"
  shows "nat n \<le> sz \<and> n \<le> 506 \<and> length buf' = length buf \<and> drop (nat n) buf' = drop (nat n) buf"
proof -
  let ?z = "if sz > JCMD_BUF_LEN - 6 then JCMD_BUF_LEN - 6 else sz"
  obtain m rest and j1 :: "('d, 'z) joker_ci_h_scheme" where m: "m \<le> ?z" "n = int m"
    and loop: "ci_data_loop dev m 0 buf j1 = (0, buf', rest)"
  proof -
    obtain r1 j1 where 1: "joker_ci_wait_status dev j STATUSREG_DA 1000 = (r1, j1)" by fastforce
    obtain hi j2 where 2: "joker_ci_read dev j1 CTRLIF_SIZE_HIGH JOKER_CI_IO = (hi, j2)" by fastforce
    obtain lo j3 where 3: "joker_ci_read dev j2 CTRLIF_SIZE_LOW JOKER_CI_IO = (lo, j3)" by fastforce
    let ?m = "nat (256 * hi + lo)"
    obtain r4 b4 j4 where 4: "ci_data_loop dev ?m 0 buf j3 = (r4, b4, j4)" by (metis prod_cases3)
    obtain st j5 where 5: "joker_ci_read dev j4 CTRLIF_STATUS JOKER_CI_IO = (st, j5)" by fastforce
    note eq = assms(1) [unfolded joker_ci_read_data_def Let_def 1 2 3 4 5 prod.case]
    have "?m \<le> ?z" "r4 = 0" "b4 = buf'" "n = int ?m"
      using eq assms(2) by (simp_all split: if_splits)
    then show ?thesis using that [of ?m j3 j4] 4 by simp
  qed
  have z: "?z \<le> sz" "?z \<le> 506" by auto
  have "0 + m \<le> length buf" using m(1) z assms(3) by linarith
  from ci_data_loop_bounds [OF this, of dev j1] loop
  have "length buf' = length buf" "drop m buf' = drop m buf" by simp_all
  moreover have "m \<le> sz" "int m \<le> 506" using m(1) z by linarith+
  ultimately show ?thesis using m(2) by simp
qed

theorem ci_read_data_bounds_witness:
  "fst (joker_ci_read_data cam_dev cam_joker [0, 0] 2) = 1
    \<and> length (fst (snd (joker_ci_read_data cam_dev cam_joker [0, 0] 2))) = 2"
proof -
  obtain j' where r: "joker_ci_read_data cam_dev cam_joker [0, 0] 2 = (1, [0x55, 0], j')"
    using cam_read_data by blast
  from ci_read_data_bounds [OF this] r show ?thesis by simp
qed

text \<open>tuple_walk: a tuple that \<open>joker_ci_read_tuple\<close> reads without error moves the offset by the
  two header bytes and its data, at every second address; the end tuple 0xFF has no size byte.\<close>

theorem tuple_walk:
  assumes "joker_ci_read_tuple dev j = (0, t, j')"
  shows "cur_offset j' = cur_offset j + (if tp_type t = 0xFF then 2 else 4 + 2 * unat (tp_size t))"
  using read_tuple_offset [OF assms] by simp

theorem tuple_walk_witness:
  "cur_offset (snd (snd (joker_ci_read_tuple cam_dev cam_joker))) = 6"
proof -
  obtain t j' where r: "joker_ci_read_tuple cam_dev cam_joker = (0, t, j')" "tp_type t = 0x55" "tp_size t = 1"
    using cam_read_tuple by blast
  have "cur_offset cam_joker = 0" by (simp add: cam_joker_def cur_offset_def zero_ci_def)
  with tuple_walk [OF r(1)] r show ?thesis by simp
qed

text \<open>cam_infostring_fits: the version strings of a tuple that is read never overflow the 128 bytes
  of \<open>cam_infostring\<close>, whatever the module sends.\<close>

theorem cam_infostring_fits:
  assumes "joker_ci_read_tuple dev j = (0, t, j')" and "version_strings (tp_data t) = Some info"
  shows "length info \<le> TUPLE_MAX_SIZE"
  using version_strings_fit [OF assms(2)] read_tuple_offset [OF assms(1)] by simp

theorem cam_infostring_fits_witness:
  "\<exists>info. version_strings (tp_data (fst (snd (joker_ci_read_tuple cam_dev cam_joker)))) = Some info
    \<and> length info \<le> TUPLE_MAX_SIZE"
proof -
  obtain t j' where r: "joker_ci_read_tuple cam_dev cam_joker = (0, t, j')"
    "tp_data t = replicate TUPLE_MAX_SIZE 0" using cam_read_tuple by blast
  have "c_string (replicate TUPLE_MAX_SIZE 0) off = Some []" if "off < TUPLE_MAX_SIZE" for off
    using that by (auto simp: c_string_def)
  then have "version_strings (tp_data t) = Some (str_bytes '' '' @ str_bytes '' '' @ [0])"
    unfolding r(2) by (simp add: version_strings_def)
  with cam_infostring_fits [OF r(1)] r(1) show ?thesis by simp
qed

text \<open>pcap_roundtrip: the records that \<open>cam_pcap_write_event\<close> appends to the dump are read back
  exactly: time stamp, event and data, for any sequence of events of less than 64 Kbytes each.\<close>

theorem pcap_roundtrip:
  assumes "list_all (\<lambda>(tv, e, d). length d < 65536) evs"
    and "cam_pcap_fd j = Some f"
  shows "\<exists>bs. cam_pcap_fd (fold (\<lambda>(tv, e, d) j. snd (cam_pcap_write_event (j\<lparr>wall_clock := tv\<rparr>) e d)) evs j)
      = Some (f @ bs) \<and> pcap_parse bs = evs"
  using assms
proof (induction evs arbitrary: j f)
  case Nil
  then show ?case by (simp add: pcap_parse.simps)
next
  case (Cons ev evs)
  obtain tv e d where ev: "ev = (tv, e, d)" by (metis prod_cases3)
  let ?j = "snd (cam_pcap_write_event (j\<lparr>wall_clock := tv\<rparr>) e d)"
  have "cam_pcap_fd ?j = Some (f @ pcap_record tv e d)"
    using Cons.prems(2) by (simp add: cam_pcap_write_event_def pcap_append_def)
  from Cons.IH [OF _ this] Cons.prems(1) obtain bs where
    "cam_pcap_fd (fold (\<lambda>(tv, e, d) j. snd (cam_pcap_write_event (j\<lparr>wall_clock := tv\<rparr>) e d)) evs ?j)
      = Some ((f @ pcap_record tv e d) @ bs)" "pcap_parse bs = evs" by auto
  then show ?case using Cons.prems(1)
    by (intro exI [of _ "pcap_record tv e d @ bs"]) (simp add: ev pcap_parse_record)
qed

theorem pcap_roundtrip_witness:
  "\<exists>bs. cam_pcap_fd (snd (cam_pcap_write_event (cam_joker\<lparr>cam_pcap_fd := Some [], wall_clock := (1, 2)\<rparr>) 0xFE [7, 8]))
      = Some bs \<and> pcap_parse bs = [((1, 2), 0xFE, [7, 8])]"
  using pcap_roundtrip [of "[((1, 2), 0xFE, [7, 8])]" "cam_joker\<lparr>cam_pcap_fd := Some []\<rparr>" "[]"]
  by (simp add: cam_joker_def)

text \<open>ci_worker_outcomes: \<open>joker_ci_worker\<close> leaves no CI state behind when the initialisation
  fails, but keeps it when no module is found, and then refuses to run again until
  \<open>joker_ci_close\<close>.\<close>

theorem ci_worker_outcomes:
  assumes "joker_ci_worker start dev j = Some (r, j')" and "joker_ci_opaque j = None"
  shows "(r = - EIO \<longrightarrow> joker_ci_opaque j' = None)
    \<and> (r = - ENODEV \<longrightarrow> joker_ci_opaque j' \<noteq> None \<and> joker_ci_worker start dev j' = Some (- EINVAL, j'))
    \<and> r \<in> {0, - EIO, - ENODEV}"
proof -
  define j0 where "j0 = j\<lparr>joker_ci_opaque := Some (zero_ci (ci_verbose_opt j))\<rparr>"
  obtain ret ib j1 where p: "ci_power_loop dev 10 (stack_buf dev j0 JCMD_BUF_LEN) j0 = (ret, ib, j1)"
    by (metis prod_cases3)
  have keep: "joker_ci_opaque (snd (snd (ci_power_loop dev n b h))) = joker_ci_opaque h" for n b h
  proof -
    have st: "joker_ci_opaque (snd (snd (ci_status_loop dev n b h))) = joker_ci_opaque h" for n b h
      by (induction n arbitrary: b h) (simp_all add: case_prod_beta Let_def frame_simps)
    have rs: "joker_ci_opaque (snd (joker_reset dev h m)) = joker_ci_opaque h"
      "joker_ci_opaque (snd (joker_unreset dev h m)) = joker_ci_opaque h" for h m
      by (simp_all add: joker_reset_def joker_unreset_def joker_reset_write_eq joker_cmd0_def
          case_prod_beta Let_def frame_simps)
    show ?thesis
      by (induction n arbitrary: b h) (simp_all add: case_prod_beta Let_def st rs)
  qed
  have j1: "joker_ci_opaque j1 \<noteq> None" using keep [of 10 "stack_buf dev j0 JCMD_BUF_LEN" j0, unfolded p] by (simp add: j0_def)
  have "r = - EIO \<and> joker_ci_opaque j' = None \<or> r = - ENODEV \<and> j' = j1 \<or> r = 0"
    using assms(1) unfolding joker_ci_worker_def ci_fail_out_def Let_def j0_def [symmetric] p prod.case assms(2)
    by (auto simp: case_prod_beta split: if_splits option.splits)
  moreover have "joker_ci_worker start dev j1 = Some (- EINVAL, j1)"
    using j1 by (simp add: joker_ci_worker_def)
  ultimately show ?thesis using j1 by auto
qed

definition no_cam_joker :: "unit joker_ci_h" where
  "no_cam_joker = \<lparr>dev_st = (), usb_log = [], libusb_opaque = True, io_mux_opaq = True, i2c_opaque = True, reset = 0,
     joker_ci_opaque = None, ci_threading = True, shutdown_thread = True,
     ci_verbose_opt = False, cam_pcap_filename = False, cam_pcap_fd = None, wall_clock = (0, 0)\<rparr>"

theorem ci_worker_outcomes_witness:
  "\<exists>j'. joker_ci_worker (\<lambda>j. j) quiet_dev no_cam_joker = Some (- ENODEV, j')
    \<and> joker_ci_worker (\<lambda>j. j) quiet_dev j' = Some (- EINVAL, j')"
proof -
  let ?j = "no_cam_joker\<lparr>joker_ci_opaque := Some (zero_ci False)\<rparr>"
  have stop: "ci_power_loop quiet_dev 10 b j = (0, b, j)" if "shutdown_thread j"
    for b and j :: "unit joker_ci_h"
    using ci_power_loop.simps(2) [of quiet_dev 9 b j] that by simp
  have bit: "stack_buf quiet_dev j JCMD_BUF_LEN ! 1 AND 0x01 = 0" for j :: "unit joker_ci_h"
    by (simp add: stack_buf_def quiet_dev_def)
  have fields: "joker_ci_opaque no_cam_joker = None" "ci_verbose_opt no_cam_joker = False"
    "shutdown_thread ?j" by (simp_all add: no_cam_joker_def)
  have w: "joker_ci_worker (\<lambda>j. j) quiet_dev no_cam_joker = Some (- ENODEV, ?j)"
    by (simp only: joker_ci_worker_def fields Let_def stop [OF fields(3)] prod.case bit
        simp_thms if_True if_False)
  from ci_worker_outcomes [OF w fields(1)] w show ?thesis by simp
qed

text \<open>ci_reopen_stays_closed: \<open>joker_ci_close\<close> does not clear \<open>ci_threading\<close>, so a later \<open>joker_ci\<close>
  on the same handle returns 0 without starting a worker.\<close>

theorem ci_reopen_stays_closed:
  assumes "ci_threading j"
    and "\<And>h. ci_threading (stop h) = ci_threading h"
  shows "joker_ci rc (snd (joker_ci_close stop j)) = (0, snd (joker_ci_close stop j))
    \<and> shutdown_thread (snd (joker_ci_close stop j))"
  using assms by (simp add: joker_ci_def joker_ci_close_def Let_def)

theorem ci_reopen_stays_closed_witness:
  "fst (joker_ci 0 (snd (joker_ci_close (\<lambda>h. h) cam_joker))) = 0
    \<and> shutdown_thread (snd (joker_ci_close (\<lambda>h. h) cam_joker))"
  using ci_reopen_stays_closed [of cam_joker "\<lambda>h. h" 0] by (simp add: cam_joker_def)

end
