(* ===== verification/Programs.thy ===== *)
theory Programs
  imports Prelude
begin

text \<open>
  The program table of \<open>include/joker_ts.h\<close>: programs, their elementary streams and conditional
  access entries, and the lookups over the linked lists that \<open>src/joker_ts.c\<close> and
  \<open>src/joker_en50221.c\<close> share. A list of pointers is the list of the records; a pointer into it
  is the position of the entry.
\<close>

section \<open>Data\<close>

datatype ci_program_status = CI_NONE | CI_INIT | CI_CAM_SENT

record program_es_t =
  es_type :: byte
  es_pid :: u16
  es_lang :: "byte list"

record program_ca_t =
  ca_pid :: u16
  ca_caid :: u16

text \<open>
  \<open>struct program_t\<close>; the back pointer to the handle and the unused \<open>capmt_sent\<close> are left out,
  \<open>pmt_dvbpsi\<close> and \<open>generated_sdt_pkt\<close> say whether the pointer is set.
\<close>

record program_t =
  number :: int
  name :: "byte list"
  provider_name :: "byte list"
  service_type :: byte
  pmt_pid :: int
  pcr_pid :: int
  pmt_dvbpsi :: bool
  es_list :: "program_es_t list"
  ca_list :: "program_ca_t list"
  has_video :: bool
  has_audio :: bool
  pmt :: "byte list option"
  pmt_len :: int
  ci_status :: ci_program_status
  i_version :: byte
  b_current_next :: bool
  generated_sdt_pkt :: bool

text \<open>\<open>calloc\<close> of a program.\<close>

definition zero_program :: program_t where
  "zero_program = \<lparr>number = 0, name = replicate SERVICE_NAME_LEN 0, provider_name = replicate SERVICE_NAME_LEN 0,
     service_type = 0, pmt_pid = 0, pcr_pid = 0, pmt_dvbpsi = False, es_list = [], ca_list = [],
     has_video = False, has_audio = False, pmt = None, pmt_len = 0, ci_status = CI_NONE,
     i_version = 0, b_current_next = False, generated_sdt_pkt = False\<rparr>"

section \<open>Tables with a key\<close>

text \<open>
  The idiom of the code: walk the list for an entry with the key, and append a new one when there
  is none. \<open>find_key\<close> is the walk, \<open>add_key\<close> the idiom; the result is the position of the entry.
\<close>

fun find_key :: "('a \<Rightarrow> 'k) \<Rightarrow> 'k \<Rightarrow> 'a list \<Rightarrow> nat option" where
  "find_key key k [] = None"
| "find_key key k (x # xs) = (if key x = k then Some 0 else map_option Suc (find_key key k xs))"

definition add_key :: "('a \<Rightarrow> 'k) \<Rightarrow> 'k \<Rightarrow> 'a \<Rightarrow> 'a list \<Rightarrow> nat \<times> 'a list" where
  "add_key key k fresh xs =
     (case find_key key k xs of Some i \<Rightarrow> (i, xs) | None \<Rightarrow> (length xs, xs @ [fresh]))"

lemma find_key_SomeD: "find_key key k xs = Some i \<Longrightarrow> i < length xs \<and> key (xs ! i) = k"
  by (induction xs arbitrary: i) (auto split: if_splits)

lemma find_key_None_iff: "find_key key k xs = None \<longleftrightarrow> k \<notin> key ` set xs"
  by (induction xs) auto

lemma find_key_unique:
  "distinct (map key xs) \<Longrightarrow> i < length xs \<Longrightarrow> find_key key (key (xs ! i)) xs = Some i"
proof (induction xs arbitrary: i)
  case (Cons x xs)
  show ?case
  proof (cases i)
    case (Suc m)
    with Cons.prems have "m < length xs" "key (xs ! m) \<noteq> key x"
      by (auto simp: image_iff) (metis nth_mem)
    with Cons Suc show ?thesis by auto
  qed simp
qed simp

text \<open>
  The contract of such a table: the walk finds exactly the entries, the key of an entry never
  changes, so the keys stay distinct and an entry is found again after any update.
\<close>

locale keyed_table =
  fixes key :: "'a \<Rightarrow> 'k" and new :: "'k \<Rightarrow> 'a" and lookup :: "'k \<Rightarrow> 'a list \<Rightarrow> nat option"
    and insert_new :: "'k \<Rightarrow> 'a list \<Rightarrow> nat \<times> 'a list"
  assumes key_new: "key (new k) = k"
    and lookup_found: "lookup k xs = Some i \<Longrightarrow> i < length xs \<and> key (xs ! i) = k"
    and lookup_missing: "lookup k xs = None \<longleftrightarrow> k \<notin> key ` set xs"
    and insert_old: "lookup k xs = Some i \<Longrightarrow> insert_new k xs = (i, xs)"
    and insert_fresh: "lookup k xs = None \<Longrightarrow> insert_new k xs = (length xs, xs @ [new k])"
begin

definition keys_ok :: "'a list \<Rightarrow> bool" where "keys_ok xs \<longleftrightarrow> distinct (map key xs)"

lemma insert_valid: "insert_new k xs = (i, ys) \<Longrightarrow> i < length ys \<and> key (ys ! i) = k"
  using lookup_found [of k xs] insert_old [of k xs] insert_fresh [of k xs] key_new [of k]
  by (cases "lookup k xs") auto

lemma insert_keys: "insert_new k xs = (i, ys) \<Longrightarrow> key ` set ys = insert k (key ` set xs)"
proof (cases "lookup k xs")
  case (Some i')
  moreover assume "insert_new k xs = (i, ys)"
  ultimately have "ys = xs" "k \<in> key ` set xs"
    using insert_old [OF Some] lookup_found [OF Some] by (auto simp: image_iff Bex_def) (metis nth_mem)
  then show ?thesis by (simp add: insert_absorb)
qed (use insert_fresh [of k xs] key_new in auto)

lemma insert_distinct: "keys_ok xs \<Longrightarrow> insert_new k xs = (i, ys) \<Longrightarrow> keys_ok ys"
  using insert_old [of k xs] insert_fresh [of k xs] lookup_missing [of k xs] key_new [of k]
  by (cases "lookup k xs") (auto simp: keys_ok_def)

lemma insert_prefix: "insert_new k xs = (i, ys) \<Longrightarrow> \<exists>zs. ys = xs @ zs"
  using insert_old [of k xs] insert_fresh [of k xs] by (cases "lookup k xs") auto

lemma map_key_update: "i < length xs \<Longrightarrow> key x = key (xs ! i) \<Longrightarrow> map key (xs[i := x]) = map key xs"
  by (metis list_update_id map_update)

lemma update_distinct: "keys_ok xs \<Longrightarrow> key x = key (xs ! i) \<Longrightarrow> keys_ok (xs[i := x])"
  unfolding keys_ok_def by (cases "i < length xs") (simp_all only: map_key_update list_update_beyond not_less)

lemma insert_again: "insert_new k xs = (i, ys) \<Longrightarrow> keys_ok xs \<Longrightarrow> insert_new k ys = (i, ys)"
proof -
  assume a: "insert_new k xs = (i, ys)" and d: "keys_ok xs"
  have v: "i < length ys" "key (ys ! i) = k" "keys_ok ys"
    using insert_valid [OF a] insert_distinct [OF d a] by auto
  have "k \<in> key ` set ys" using v(1,2) nth_mem by (metis image_eqI)
  then obtain m where m: "lookup k ys = Some m" using lookup_missing [of k ys] by (cases "lookup k ys") auto
  from lookup_found [OF m] v have "m = i"
    unfolding keys_ok_def by (metis length_map nth_eq_iff_index_eq nth_map)
  then show ?thesis using insert_old [OF m] by simp
qed

end

section \<open>The program table\<close>

definition new_program :: "int \<Rightarrow> program_t" where
  "new_program n = zero_program\<lparr>number := n\<rparr>"

definition program_add_or_find :: "int \<Rightarrow> program_t list \<Rightarrow> nat \<times> program_t list" where
  "program_add_or_find n ps = add_key number n (new_program n) ps"

interpretation progs: keyed_table number new_program "find_key number" program_add_or_find
  by unfold_locales
    (rule find_key_None_iff
      | simp add: new_program_def program_add_or_find_def add_key_def find_key_SomeD)+

text \<open>The entries that a predicate selects, with an update of one program by its position.\<close>

definition upd_nth :: "nat \<Rightarrow> ('a \<Rightarrow> 'a) \<Rightarrow> 'a list \<Rightarrow> 'a list" where
  "upd_nth i f xs = (if i < length xs then xs[i := f (xs ! i)] else xs)"

lemma length_upd_nth [simp]: "length (upd_nth i f xs) = length xs"
  by (simp add: upd_nth_def)

lemma nth_upd_nth: "k < length xs \<Longrightarrow> upd_nth i f xs ! k = (if k = i then f (xs ! k) else xs ! k)"
  by (auto simp: upd_nth_def)

lemma set_upd_nth: "i < length xs \<Longrightarrow> set (upd_nth i f xs) \<subseteq> insert (f (xs ! i)) (set xs)"
  by (simp add: upd_nth_def set_update_subset_insert)

lemma upd_nth_all:
  "(\<And>x. x \<in> set xs \<Longrightarrow> P x) \<Longrightarrow> (i < length xs \<Longrightarrow> P (xs ! i) \<Longrightarrow> P (f (xs ! i))) \<Longrightarrow> x \<in> set (upd_nth i f xs) \<Longrightarrow> P x"
  unfolding upd_nth_def by (auto split: if_splits dest!: set_update_subset_insert [THEN subsetD])

lemma upd_nth_keys:
  assumes "\<And>p. number (f p) = number p" shows "progs.keys_ok (upd_nth i f ps) = progs.keys_ok ps"
proof -
  have "map number (upd_nth i f ps) = map number ps"
    by (rule nth_equalityI) (auto simp: nth_upd_nth assms)
  then show ?thesis by (simp add: progs.keys_ok_def)
qed

end
