(* ===== verification/En50221.thy ===== *)
theory En50221
  imports Ci PsiGen Programs
begin

text \<open>
  \<open>src/joker_en50221.c\<close> and the command handling of \<open>src/joker_en50221_server.c\<close>: the link layer
  under the EN 50221 stack, the resources offered to the CAM module, the callbacks of the stack, the
  list of programs to descramble and its synchronisation with the module, and the menu. What the
  stack (libdvben50221) and the section parser (libucsi) answer is a parameter here, what is asked of
  them is logged; \<open>CaStack\<close> and \<open>AppHost\<close> put the models of the vendored code in its place. Messages
  are left out; the mutex around the program list makes each operation one step.
\<close>

section \<open>The stack below\<close>

abbreviation (input) CA_LIST_MANAGEMENT_MORE :: byte where "CA_LIST_MANAGEMENT_MORE \<equiv> 0x00"
abbreviation (input) CA_LIST_MANAGEMENT_FIRST :: byte where "CA_LIST_MANAGEMENT_FIRST \<equiv> 0x01"
abbreviation (input) CA_LIST_MANAGEMENT_LAST :: byte where "CA_LIST_MANAGEMENT_LAST \<equiv> 0x02"
abbreviation (input) CA_LIST_MANAGEMENT_ONLY :: byte where "CA_LIST_MANAGEMENT_ONLY \<equiv> 0x03"
abbreviation (input) CA_LIST_MANAGEMENT_UPDATE :: byte where "CA_LIST_MANAGEMENT_UPDATE \<equiv> 0x05"
abbreviation (input) CA_PMT_CMD_ID_OK_DESCRAMBLING :: byte where "CA_PMT_CMD_ID_OK_DESCRAMBLING \<equiv> 0x01"
abbreviation (input) CA_PMT_CMD_ID_QUERY :: byte where "CA_PMT_CMD_ID_QUERY \<equiv> 0x03"
abbreviation (input) MMI_ANSW_ID_ANSWER :: byte where "MMI_ANSW_ID_ANSWER \<equiv> 0x01"
abbreviation (input) MMI_DISPLAY_CONTROL_CMD_ID_SET_MMI_MODE :: byte where
  "MMI_DISPLAY_CONTROL_CMD_ID_SET_MMI_MODE \<equiv> 0x01"
abbreviation (input) MAX_EN50221_BUF :: nat where "MAX_EN50221_BUF \<equiv> 4096"

text \<open>
  The calls into the stack, with the session they are for. The CA PMT call records, beside the
  object it sends, the list management and the command the object was formatted with.
\<close>

datatype en_call =
    rm_enq int
  | rm_reply int "u32 list"
  | rm_changed int
  | datetime_send int int int
  | ai_enquiry int
  | ai_entermenu int
  | ca_info_enq int
  | ca_pmt int byte byte "byte list"
  | mmi_menu_answ int int
  | mmi_answ int byte "byte list"
  | mmi_display_reply int byte
  | user_mmi "byte list"

text \<open>
  \<open>call_res\<close> is the result of the last call of a history. \<open>format_pmt pmt listmgmt cmd\<close> is
  \<open>en50221_ca_format_pmt\<close>, \<open>None\<close> for a negative size. \<open>pmt_codec\<close> is the chain of section codecs
  (\<open>joker_en50221_parse_pmt\<close>): \<open>None\<close> when it reads outside the section, \<open>Some None\<close> when it refuses it, else the
  version number, the current/next indicator, and the section as the codecs leave it in place.
\<close>

record en_lib =
  call_res :: "en_call list \<Rightarrow> int"
  format_pmt :: "byte list \<Rightarrow> byte \<Rightarrow> byte \<Rightarrow> byte list option"
  pmt_codec :: "byte list \<Rightarrow> (byte \<times> bool \<times> byte list) option option"

section \<open>State\<close>

datatype en_handler = rm_message | datetime_message | ai_message | ca_message | mmi_message

record public_resource_id =
  resource_class :: u16
  resource_type :: u16
  resource_version :: byte

record resource =
  resid :: public_resource_id
  binary_resource_id :: u32
  callback :: en_handler

text \<open>\<open>resources\<close> are the first \<open>resources_count\<close> entries of the array of 20.\<close>

record joker_en50221_t =
  tl_set :: bool
  shutdown_stackthread :: bool
  in_menu :: bool
  in_enq :: bool
  ca_connected :: bool
  ca_session_number :: int
  datetime_session_number :: int
  ai_session_numbers :: "u16 list"
  mmi_session_number :: u16
  resources :: "resource list"
  resource_ids_count :: nat
  slot_id :: int
  mmi_entered :: bool
  mmi_cb :: bool
  programs :: "program_t list"
  datetime_response_interval :: byte
  datetime_next_send :: int
  datetime_dvbtime :: int

record 'd joker_en_h = "'d joker_ci_h" +
  joker_en50221_opaque :: "joker_en50221_t option"
  ci_ts_enable :: int
  cam_query_send :: bool
  en_log :: "en_call list"

definition zero_jen :: joker_en50221_t where
  "zero_jen = \<lparr>tl_set = False, shutdown_stackthread = False, in_menu = False, in_enq = False,
     ca_connected = False, ca_session_number = 0, datetime_session_number = 0,
     ai_session_numbers = replicate 5 0, mmi_session_number = 0, resources = [], resource_ids_count = 0,
     slot_id = 0, mmi_entered = False, mmi_cb = False, programs = [], datetime_response_interval = 0,
     datetime_next_send = 0, datetime_dvbtime = 0\<rparr>"

definition set_jen :: "(joker_en50221_t \<Rightarrow> joker_en50221_t) \<Rightarrow> ('d, 'z) joker_en_h_scheme \<Rightarrow> ('d, 'z) joker_en_h_scheme" where
  "set_jen f j = j\<lparr>joker_en50221_opaque := map_option f (joker_en50221_opaque j)\<rparr>"

definition en_do :: "en_lib \<Rightarrow> en_call \<Rightarrow> ('d, 'z) joker_en_h_scheme \<Rightarrow> int \<times> ('d, 'z) joker_en_h_scheme" where
  "en_do lib c j = (let l = en_log j @ [c] in (call_res lib l, j\<lparr>en_log := l\<rparr>))"

definition joker_ci_en50221_init :: "('d, 'z) joker_en_h_scheme \<Rightarrow> int \<times> ('d, 'z) joker_en_h_scheme" where
  "joker_ci_en50221_init j =
     (if joker_en50221_opaque j \<noteq> None then (0, j)
      else (0, j\<lparr>joker_en50221_opaque := Some zero_jen\<rparr>))"

text \<open>The stack thread that \<open>stop\<close> joins clears the flag when it leaves its loop.\<close>

definition joker_ci_en50221_stop ::
  "(('d, 'z) joker_en_h_scheme \<Rightarrow> ('d, 'z) joker_en_h_scheme) \<Rightarrow> ('d, 'z) joker_en_h_scheme
    \<Rightarrow> int \<times> ('d, 'z) joker_en_h_scheme" where
  "joker_ci_en50221_stop thread_join j =
     (if joker_en50221_opaque j = None then (- EINVAL, j)
      else (0, thread_join (set_jen (\<lambda>n. n\<lparr>shutdown_stackthread := True\<rparr>) j)))"

section \<open>Resources\<close>

definition MKRID :: "u32 \<Rightarrow> u32 \<Rightarrow> u32 \<Rightarrow> u32" where
  "MKRID c t v = push_bit 16 (c AND 0xffff) OR push_bit 6 (t AND 0x3ff) OR (v AND 0x3f)"

abbreviation (input) EN50221_APP_RM_RESOURCEID :: u32 where "EN50221_APP_RM_RESOURCEID \<equiv> MKRID 1 1 1"
abbreviation (input) EN50221_APP_AI_RESOURCEID :: u32 where "EN50221_APP_AI_RESOURCEID \<equiv> MKRID 2 1 1"
abbreviation (input) EN50221_APP_CA_RESOURCEID :: u32 where "EN50221_APP_CA_RESOURCEID \<equiv> MKRID 3 1 1"
abbreviation (input) EN50221_APP_DATETIME_RESOURCEID :: u32 where "EN50221_APP_DATETIME_RESOURCEID \<equiv> MKRID 36 1 1"
abbreviation (input) EN50221_APP_MMI_RESOURCEID :: u32 where "EN50221_APP_MMI_RESOURCEID \<equiv> MKRID 64 1 1"

definition resource_ids :: "u32 list" where
  "resource_ids = [MKRID 128 1 1, MKRID 112 (1 AND 0x0f) 1, EN50221_APP_RM_RESOURCEID, EN50221_APP_MMI_RESOURCEID,
     MKRID 96 (push_bit 2 1 OR (1 AND 0x03)) 1, MKRID 120 1 1, MKRID 32 1 1, EN50221_APP_CA_RESOURCEID,
     EN50221_APP_DATETIME_RESOURCEID, MKRID 16 1 1, EN50221_APP_AI_RESOURCEID]"

definition decode_resource_id :: "u32 \<Rightarrow> public_resource_id option" where
  "decode_resource_id rid =
     (if rid AND 0xc0000000 = 0xc0000000 then None
      else Some \<lparr>resource_class = ucast (drop_bit 16 rid AND 0xffff),
                 resource_type = ucast (drop_bit 6 rid AND 0x3ff),
                 resource_version = ucast (rid AND 0x3f)\<rparr>)"

text \<open>One resource of \<open>joker_ci_en50221_start\<close>; \<open>None\<close> when the array of 20 is full.\<close>

definition add_resource :: "u32 \<times> en_handler \<Rightarrow> joker_en50221_t \<Rightarrow> joker_en50221_t option" where
  "add_resource r jen =
     (if length (resources jen) \<ge> 20 then None
      else case decode_resource_id (fst r) of
             None \<Rightarrow> None
           | Some rid \<Rightarrow> Some (jen\<lparr>resources := resources jen @
               [\<lparr>resid = rid, binary_resource_id = fst r, callback = snd r\<rparr>]\<rparr>))"

fun add_resources :: "(u32 \<times> en_handler) list \<Rightarrow> joker_en50221_t \<Rightarrow> joker_en50221_t option" where
  "add_resources [] jen = Some jen"
| "add_resources (r # rs) jen =
     (case add_resource r jen of None \<Rightarrow> None | Some jen \<Rightarrow> add_resources rs jen)"

definition host_resources :: "(u32 \<times> en_handler) list" where
  "host_resources = [(EN50221_APP_RM_RESOURCEID, rm_message), (EN50221_APP_DATETIME_RESOURCEID, datetime_message),
     (EN50221_APP_AI_RESOURCEID, ai_message), (EN50221_APP_CA_RESOURCEID, ca_message),
     (EN50221_APP_MMI_RESOURCEID, mmi_message)]"

text \<open>
  \<open>joker_ci_en50221_start\<close>: \<open>tl_ok\<close> and \<open>sl_ok\<close> say whether the transport and the session layer could be
  created, \<open>slot\<close> is the result of the slot registration.
\<close>

definition joker_ci_en50221_start ::
  "bool \<Rightarrow> int \<Rightarrow> bool \<Rightarrow> ('d, 'z) joker_en_h_scheme \<Rightarrow> (int \<times> ('d, 'z) joker_en_h_scheme) option" where
  "joker_ci_en50221_start tl_ok slot sl_ok j =
     (case joker_en50221_opaque j of
        None \<Rightarrow> Some (- EINVAL, j)
      | Some jen \<Rightarrow>
          let jen = jen\<lparr>resource_ids_count := length resource_ids\<rparr>
          in if \<not> tl_ok then Some (- EIO, j\<lparr>joker_en50221_opaque := Some jen\<rparr>)
             else let jen = jen\<lparr>slot_id := slot\<rparr>
               in if slot < 0 then Some (- EIO, j\<lparr>joker_en50221_opaque := Some jen\<rparr>)
                  else if \<not> sl_ok then Some (- EIO, j\<lparr>joker_en50221_opaque := Some jen\<rparr>)
                  else map_option (\<lambda>jen. (0, j\<lparr>joker_en50221_opaque := Some (jen\<lparr>tl_set := True\<rparr>)\<rparr>))
                         (add_resources host_resources jen))"

fun lookup_loop :: "public_resource_id \<Rightarrow> resource list \<Rightarrow> (en_handler \<times> u32) option" where
  "lookup_loop rid [] = None"
| "lookup_loop rid (r # rs) =
     (if resource_class rid = resource_class (resid r) \<and> resource_type rid = resource_type (resid r)
      then Some (callback r, binary_resource_id r) else lookup_loop rid rs)"

definition test_lookup_callback ::
  "('d, 'z) joker_en_h_scheme \<Rightarrow> u32 \<Rightarrow> int \<times> (en_handler \<times> u32) option" where
  "test_lookup_callback j requested =
     (case joker_en50221_opaque j of
        None \<Rightarrow> (- EINVAL, None)
      | Some jen \<Rightarrow>
          (case decode_resource_id requested of
             None \<Rightarrow> (- 1, None)
           | Some rid \<Rightarrow>
               (case lookup_loop rid (resources jen) of Some r \<Rightarrow> (0, Some r) | None \<Rightarrow> (- 1, None))))"

section \<open>Programs to descramble\<close>

text \<open>The programs that \<open>joker_en50221_sync_cam\<close> sends: wanted, and with a PMT.\<close>

definition to_send :: "program_t \<Rightarrow> bool" where
  "to_send p \<longleftrightarrow> ci_status p \<noteq> CI_NONE \<and> pmt p \<noteq> None"

definition sync_listmgmt :: "nat \<Rightarrow> nat \<Rightarrow> byte" where
  "sync_listmgmt count i =
     (if count = 1 then CA_LIST_MANAGEMENT_ONLY
      else if i = 0 then CA_LIST_MANAGEMENT_FIRST
      else if i + 1 = count then CA_LIST_MANAGEMENT_LAST
      else CA_LIST_MANAGEMENT_MORE)"

text \<open>
  Formatting and sending of one CA PMT: \<open>en50221_ca_format_pmt\<close>, then \<open>en50221_app_ca_pmt\<close>;
  whether both succeeded.
\<close>

definition send_ca_pmt ::
  "en_lib \<Rightarrow> int \<Rightarrow> byte \<Rightarrow> byte \<Rightarrow> byte list \<Rightarrow> ('d, 'z) joker_en_h_scheme \<Rightarrow> bool \<times> ('d, 'z) joker_en_h_scheme" where
  "send_ca_pmt lib sess listmgmt cmd sec j =
     (case format_pmt lib sec listmgmt cmd of
        None \<Rightarrow> (False, j)
      | Some capmt \<Rightarrow> let (r, j) = en_do lib (ca_pmt sess listmgmt cmd capmt) j in (r = 0, j))"

text \<open>The sending loop over the program list; \<open>i\<close> counts the programs sent so far.\<close>

fun sync_send_loop ::
  "en_lib \<Rightarrow> int \<Rightarrow> nat \<Rightarrow> nat \<Rightarrow> program_t list \<Rightarrow> ('d, 'z) joker_en_h_scheme
    \<Rightarrow> program_t list \<times> ('d, 'z) joker_en_h_scheme" where
  "sync_send_loop lib sess count i [] j = ([], j)"
| "sync_send_loop lib sess count i (p # ps) j =
     (if to_send p then
        let (sent, j) = send_ca_pmt lib sess (sync_listmgmt count i) CA_PMT_CMD_ID_OK_DESCRAMBLING (the (pmt p)) j
        in if sent
           then let (ps, j) = sync_send_loop lib sess count (i + 1) ps j in (p\<lparr>ci_status := CI_CAM_SENT\<rparr> # ps, j)
           else let (ps, j) = sync_send_loop lib sess count i ps j in (p # ps, j)
      else let (ps, j) = sync_send_loop lib sess count i ps j in (p # ps, j))"

fun sync_query_loop ::
  "en_lib \<Rightarrow> int \<Rightarrow> program_t list \<Rightarrow> ('d, 'z) joker_en_h_scheme \<Rightarrow> ('d, 'z) joker_en_h_scheme" where
  "sync_query_loop lib sess [] j = j"
| "sync_query_loop lib sess (p # ps) j =
     (if to_send p
      then sync_query_loop lib sess ps
             (snd (send_ca_pmt lib sess CA_LIST_MANAGEMENT_ONLY CA_PMT_CMD_ID_QUERY (the (pmt p)) j))
      else sync_query_loop lib sess ps j)"

definition joker_en50221_sync_cam ::
  "en_lib \<Rightarrow> 'd usb_dev \<Rightarrow> ('d, 'z) joker_en_h_scheme \<Rightarrow> int \<times> ('d, 'z) joker_en_h_scheme" where
  "joker_en50221_sync_cam lib dev j =
     (case joker_en50221_opaque j of
        None \<Rightarrow> (- EINVAL, j)
      | Some jen \<Rightarrow>
          if \<not> ca_connected jen then (0, j)
          else
            let count = length (filter to_send (programs jen));
                (ps, j) = sync_send_loop lib (ca_session_number jen) count 0 (programs jen) j;
                j = set_jen (\<lambda>n. n\<lparr>programs := ps\<rparr>) j;
                j = (if count > 0 \<and> cam_query_send j then sync_query_loop lib (ca_session_number jen) ps j else j);
                (ret, j) = joker_cmd0 dev j [J_CMD_CI_TS, word_of_int (ci_ts_enable j)]
            in if ret \<noteq> 0 then (- EIO, j) else (0, j))"

definition joker_en50221_descramble_add ::
  "int \<Rightarrow> ('d, 'z) joker_en_h_scheme \<Rightarrow> int \<times> ('d, 'z) joker_en_h_scheme" where
  "joker_en50221_descramble_add program_num j =
     (let (_, j) = joker_ci_en50221_init j;
          j = set_jen (\<lambda>n. let (i, ps) = program_add_or_find program_num (programs n)
                           in n\<lparr>programs := upd_nth i (\<lambda>p. p\<lparr>ci_status := CI_INIT\<rparr>) ps\<rparr>) j
      in (0, j))"

definition joker_en50221_descramble_clear :: "('d, 'z) joker_en_h_scheme \<Rightarrow> int \<times> ('d, 'z) joker_en_h_scheme" where
  "joker_en50221_descramble_clear j =
     (let (_, j) = joker_ci_en50221_init j
      in (0, set_jen (\<lambda>n. n\<lparr>programs := map (\<lambda>p. p\<lparr>ci_status := CI_NONE\<rparr>) (programs n)\<rparr>) j))"

text \<open>
  \<open>joker_en50221_pmt_update\<close> for program \<open>num\<close>: \<open>sec\<close> are the \<open>len + 3\<close> bytes of the raw section.
  \<open>pmt_update_parsed\<close> is what follows the parsing. The PMT that is kept is the section as the codecs left it.
\<close>

definition pmt_update_parsed ::
  "en_lib \<Rightarrow> 'd usb_dev \<Rightarrow> int \<Rightarrow> (byte \<times> bool \<times> byte list) option \<Rightarrow> ('d, 'z) joker_en_h_scheme
    \<Rightarrow> int \<times> ('d, 'z) joker_en_h_scheme" where
  "pmt_update_parsed lib dev num parsed j =
     (case (parsed, joker_en50221_opaque j) of
        (Some (version, current_next, sec), Some jen) \<Rightarrow>
          let (i, ps) = program_add_or_find num (programs jen);
              j = set_jen (\<lambda>n. n\<lparr>programs := ps\<rparr>) j;
              p = ps ! i
          in if i_version p \<noteq> version \<or> b_current_next p \<noteq> current_next then
               let p = p\<lparr>pmt := Some sec, pmt_len := int (length sec),
                         i_version := version, b_current_next := current_next\<rparr>;
                   j = set_jen (\<lambda>n. n\<lparr>programs := ps[i := p]\<rparr>) j
               in if ci_status p = CI_CAM_SENT then
                    let (sent, j) = send_ca_pmt lib (ca_session_number jen) CA_LIST_MANAGEMENT_UPDATE
                                      CA_PMT_CMD_ID_OK_DESCRAMBLING sec j
                    in if sent then (0, j) else (- EIO, j)
                  else if ci_status p = CI_INIT then (0, snd (joker_en50221_sync_cam lib dev j))
                  else (0, j)
             else (0, j)
      | _ \<Rightarrow> (- EINVAL, j))"

definition joker_en50221_pmt_update ::
  "en_lib \<Rightarrow> 'd usb_dev \<Rightarrow> int \<Rightarrow> byte list \<Rightarrow> ('d, 'z) joker_en_h_scheme
    \<Rightarrow> (int \<times> ('d, 'z) joker_en_h_scheme) option" where
  "joker_en50221_pmt_update lib dev num sec j =
     (let (_, j) = joker_ci_en50221_init j
      in case pmt_codec lib sec of
           None \<Rightarrow> None
         | Some parsed \<Rightarrow> Some (pmt_update_parsed lib dev num parsed j))"

section \<open>Callbacks of the stack\<close>

definition jen_of :: "('d, 'z) joker_en_h_scheme \<Rightarrow> joker_en50221_t" where
  "jen_of j = the (joker_en50221_opaque j)"

definition test_rm_enq_callback :: "en_lib \<Rightarrow> int \<Rightarrow> ('d, 'z) joker_en_h_scheme \<Rightarrow> int \<times> ('d, 'z) joker_en_h_scheme" where
  "test_rm_enq_callback lib sess j =
     (if joker_en50221_opaque j = None then (- EINVAL, j)
      else (0, snd (en_do lib (rm_reply sess (take (resource_ids_count (jen_of j)) resource_ids)) j)))"

definition test_rm_reply_callback :: "en_lib \<Rightarrow> int \<Rightarrow> ('d, 'z) joker_en_h_scheme \<Rightarrow> int \<times> ('d, 'z) joker_en_h_scheme" where
  "test_rm_reply_callback lib sess j =
     (if joker_en50221_opaque j = None then (- EINVAL, j) else (0, snd (en_do lib (rm_changed sess) j)))"

definition test_rm_changed_callback :: "en_lib \<Rightarrow> int \<Rightarrow> ('d, 'z) joker_en_h_scheme \<Rightarrow> int \<times> ('d, 'z) joker_en_h_scheme" where
  "test_rm_changed_callback lib sess j =
     (if joker_en50221_opaque j = None then (- EINVAL, j) else (0, snd (en_do lib (rm_enq sess) j)))"

definition test_datetime_enquiry_callback ::
  "en_lib \<Rightarrow> int \<Rightarrow> int \<Rightarrow> byte \<Rightarrow> ('d, 'z) joker_en_h_scheme \<Rightarrow> int \<times> ('d, 'z) joker_en_h_scheme" where
  "test_datetime_enquiry_callback lib now sess interval j =
     (if joker_en50221_opaque j = None then (- EINVAL, j)
      else let (_, j) = en_do lib (datetime_send sess now (- 1)) j
        in (0, set_jen (\<lambda>n. n\<lparr>datetime_response_interval := interval\<rparr>) j))"

datatype session_reason =
    CAMCONNECTING | CAMCONNECTED | CAMCONNECTFAIL | CONNECTED | CONNECTFAIL | CLOSE | TC_CONNECT | TC_CAMCONNECT

definition test_session_callback ::
  "en_lib \<Rightarrow> session_reason \<Rightarrow> int \<Rightarrow> u32 \<Rightarrow> ('d, 'z) joker_en_h_scheme \<Rightarrow> int \<times> ('d, 'z) joker_en_h_scheme" where
  "test_session_callback lib reason sess rid j =
     (if joker_en50221_opaque j = None then (- EINVAL, j)
      else case reason of
        CAMCONNECTED \<Rightarrow>
          (0, if rid = EN50221_APP_RM_RESOURCEID then snd (en_do lib (rm_enq sess) j)
              else if rid = EN50221_APP_DATETIME_RESOURCEID
              then set_jen (\<lambda>n. n\<lparr>datetime_session_number := sess\<rparr>) j
              else if rid = EN50221_APP_AI_RESOURCEID then snd (en_do lib (ai_enquiry sess) j)
              else if rid = EN50221_APP_CA_RESOURCEID
              then set_jen (\<lambda>n. n\<lparr>ca_session_number := sess\<rparr>) (snd (en_do lib (ca_info_enq sess) j))
              else j)
      | CLOSE \<Rightarrow>
          (0, if rid = EN50221_APP_DATETIME_RESOURCEID
              then set_jen (\<lambda>n. n\<lparr>datetime_session_number := - 1\<rparr>) j
              else if rid = EN50221_APP_CA_RESOURCEID
              then set_jen (\<lambda>n. n\<lparr>ca_session_number := - 1\<rparr>) j
              else j)
      | _ \<Rightarrow> (0, j))"

text \<open>
  The application info: \<open>menu\<close> is the menu string with its 8-bit length. The user's callback,
  which may call back into the library, is \<open>info_cb\<close>. \<open>None\<close>: a slot past the five sessions.
\<close>

definition menu_string_of :: "byte list \<Rightarrow> byte list" where
  "menu_string_of menu =
     (let len = (if length menu > TUPLE_MAX_SIZE then TUPLE_MAX_SIZE - 1 else length menu)
      in put_bytes (replicate TUPLE_MAX_SIZE 0) 0 (take len menu))"

definition test_ai_callback ::
  "(('d, 'z) joker_en_h_scheme \<Rightarrow> ('d, 'z) joker_en_h_scheme) \<Rightarrow> nat \<Rightarrow> u16 \<Rightarrow> byte \<Rightarrow> u16 \<Rightarrow> u16 \<Rightarrow> byte list
    \<Rightarrow> ('d, 'z) joker_en_h_scheme \<Rightarrow> (int \<times> ('d, 'z) joker_en_h_scheme) option" where
  "test_ai_callback info_cb slot sess ty manufacturer code menu j =
     (if joker_ci_opaque j = None \<or> joker_en50221_opaque j = None then Some (- EINVAL, j)
      else
        let j = set_ci (\<lambda>ci. ci\<lparr>application_type := ty, application_manufacturer := manufacturer,
                               manufacturer_code := code, menu_string := menu_string_of menu\<rparr>) j;
            j = info_cb j
        in if slot \<ge> 5 then None
           else Some (0, set_jen (\<lambda>n. n\<lparr>ai_session_numbers := (ai_session_numbers n)[slot := sess]\<rparr>) j))"

text \<open>
  The CA info: the CA ids replace the start of the array \<open>ca_ids\<close> of 128, and the terminator goes
  to index \<open>count + 1\<close>. \<open>None\<close>: a write past the array.
\<close>

definition test_ca_info_callback ::
  "en_lib \<Rightarrow> 'd usb_dev \<Rightarrow> (('d, 'z) joker_en_h_scheme \<Rightarrow> ('d, 'z) joker_en_h_scheme) \<Rightarrow> u16 list
    \<Rightarrow> ('d, 'z) joker_en_h_scheme \<Rightarrow> (int \<times> ('d, 'z) joker_en_h_scheme) option" where
  "test_ca_info_callback lib dev caid_cb ids j =
     (if joker_ci_opaque j = None \<or> joker_en50221_opaque j = None then Some (- EINVAL, j)
      else if length ids + 1 \<ge> CAID_MAX_COUNT then None
      else
        let j = set_ci (\<lambda>ci. ci\<lparr>ca_ids := (put_bytes (ca_ids ci) 0 ids)[length ids + 1 := 0]\<rparr>) j;
            j = caid_cb j;
            j = set_jen (\<lambda>n. n\<lparr>ca_connected := True\<rparr>) j;
            (_, j) = joker_en50221_sync_cam lib dev j
        in Some (0, j))"

section \<open>The menu\<close>

definition test_mmi_display_control_callback ::
  "en_lib \<Rightarrow> int \<Rightarrow> byte \<Rightarrow> byte \<Rightarrow> ('d, 'z) joker_en_h_scheme \<Rightarrow> int \<times> ('d, 'z) joker_en_h_scheme" where
  "test_mmi_display_control_callback lib sess cmd_id mmi_mode j =
     (if joker_en50221_opaque j = None then (- EINVAL, j)
      else (0, if cmd_id = MMI_DISPLAY_CONTROL_CMD_ID_SET_MMI_MODE
               then snd (en_do lib (mmi_display_reply sess mmi_mode) j) else j))"

definition test_mmi_enq_callback :: "u16 \<Rightarrow> ('d, 'z) joker_en_h_scheme \<Rightarrow> int \<times> ('d, 'z) joker_en_h_scheme" where
  "test_mmi_enq_callback sess j =
     (if joker_en50221_opaque j = None then (- EINVAL, j)
      else (0, set_jen (\<lambda>n. n\<lparr>mmi_session_number := sess, in_enq := True\<rparr>) j))"

definition test_app_mmi_list_callback :: "u16 \<Rightarrow> ('d, 'z) joker_en_h_scheme \<Rightarrow> int \<times> ('d, 'z) joker_en_h_scheme" where
  "test_app_mmi_list_callback sess j =
     (if joker_en50221_opaque j = None then (- EINVAL, j)
      else (0, set_jen (\<lambda>n. n\<lparr>mmi_session_number := sess, in_menu := True\<rparr>) j))"

fun dec_digits :: "nat \<Rightarrow> byte list" where
  "dec_digits n = (if n < 10 then [of_nat (48 + n)] else dec_digits (n div 10) @ [of_nat (48 + n mod 10)])"

declare dec_digits.simps [simp del]

text \<open>
  One line of the menu: the text converted into \<open>utf_buf\<close>, then printed as a C string after
  \<open>pre\<close>. The state is \<open>utf_buf\<close> and the bytes printed so far into the buffer of 4096; \<open>None\<close>
  is a string without an end or a write past that buffer.
\<close>

definition menu_line ::
  "iconv_fn \<Rightarrow> byte list \<Rightarrow> byte list \<Rightarrow> byte list \<times> byte list \<Rightarrow> (byte list \<times> byte list) option" where
  "menu_line iconv pre txt st =
     (let (utf_buf, buf) = st
      in case dvb_to_utf iconv txt (length txt) utf_buf MAX_EN50221_BUF of
           None \<Rightarrow> None
         | Some (_, utf_buf) \<Rightarrow>
             (case c_string utf_buf 0 of
                None \<Rightarrow> None
              | Some s \<Rightarrow>
                  let buf = buf @ pre @ s @ [10]
                  in if length buf \<ge> MAX_EN50221_BUF then None else Some (utf_buf, buf)))"

fun menu_lines ::
  "iconv_fn \<Rightarrow> (byte list \<times> byte list) list \<Rightarrow> byte list \<times> byte list \<Rightarrow> (byte list \<times> byte list) option" where
  "menu_lines iconv [] st = Some st"
| "menu_lines iconv ((pre, txt) # ls) st =
     (case menu_line iconv pre txt st of None \<Rightarrow> None | Some st \<Rightarrow> menu_lines iconv ls st)"

definition menu_prefix :: "nat \<Rightarrow> byte list" where
  "menu_prefix i = str_bytes ''    '' @ dec_digits (i + 1) @ str_bytes '': ''"

definition menu_items :: "byte list list \<Rightarrow> (byte list \<times> byte list) list" where
  "menu_items items = zip (map menu_prefix [0..<length items]) items"

definition test_mmi_menu_callback ::
  "iconv_fn \<Rightarrow> byte list \<Rightarrow> u16 \<Rightarrow> byte list \<Rightarrow> byte list \<Rightarrow> byte list \<Rightarrow> byte list list
    \<Rightarrow> ('d, 'z) joker_en_h_scheme \<Rightarrow> (int \<times> ('d, 'z) joker_en_h_scheme) option" where
  "test_mmi_menu_callback iconv undef sess title sub_title bottom items j =
     (if joker_en50221_opaque j = None then Some (- EINVAL, j)
      else
        let two = str_bytes ''  '';
            ls = [(two, title), (two, sub_title), (two, bottom)] @ menu_items items
        in case menu_lines iconv ls (undef, [10]) of
             None \<Rightarrow> None
           | Some (_, buf) \<Rightarrow>
               let j = (if mmi_cb (jen_of j) then j\<lparr>en_log := en_log j @ [user_mmi buf]\<rparr> else j)
               in Some (0, set_jen (\<lambda>n. n\<lparr>mmi_session_number := sess, in_menu := True\<rparr>) j))"

definition joker_en50221_mmi_enter :: "en_lib \<Rightarrow> ('d, 'z) joker_en_h_scheme \<Rightarrow> int \<times> ('d, 'z) joker_en_h_scheme" where
  "joker_en50221_mmi_enter lib j =
     (if joker_en50221_opaque j = None then (- EINVAL, j)
      else
        let j = set_jen (\<lambda>n. n\<lparr>mmi_cb := True\<rparr>) j;
            (_, j) = en_do lib (ai_entermenu (uint (ai_session_numbers (jen_of j) ! nat (slot_id (jen_of j))))) j
        in (0, set_jen (\<lambda>n. n\<lparr>mmi_entered := True\<rparr>) j))"

text \<open>
  \<open>atoi\<close> of the C library on the array it is given: \<open>None\<close> when the digits run to the end of the
  array. A value outside of \<open>int\<close> is undefined in C; it is the mathematical value here.
\<close>

definition c_isspace :: "byte \<Rightarrow> bool" where "c_isspace b \<longleftrightarrow> b = 0x20 \<or> 9 \<le> b \<and> b \<le> 13"
definition c_isdigit :: "byte \<Rightarrow> bool" where "c_isdigit b \<longleftrightarrow> 48 \<le> b \<and> b \<le> 57"

definition digits_val :: "byte list \<Rightarrow> int" where
  "digits_val ds = foldl (\<lambda>n d. 10 * n + (uint d - 48)) 0 ds"

definition atoi :: "byte list \<Rightarrow> int option" where
  "atoi buf =
     (let b = dropWhile c_isspace buf;
          (neg, b) = (if b \<noteq> [] \<and> hd b = 45 then (True, tl b)
                      else if b \<noteq> [] \<and> hd b = 43 then (False, tl b) else (False, b));
          v = digits_val (takeWhile c_isdigit b)
      in if dropWhile c_isdigit b = [] then None else Some (if neg then - v else v))"

text \<open>\<open>joker_en50221_mmi_call\<close> reads its buffer as a C string; its \<open>len\<close> argument is not used.\<close>

definition joker_en50221_mmi_call ::
  "en_lib \<Rightarrow> byte list \<Rightarrow> ('d, 'z) joker_en_h_scheme \<Rightarrow> (int \<times> ('d, 'z) joker_en_h_scheme) option" where
  "joker_en50221_mmi_call lib buf j =
     (case atoi buf of
        None \<Rightarrow> None
      | Some choice \<Rightarrow>
          if joker_en50221_opaque j = None then Some (- EINVAL, j)
          else
            let sess = uint (mmi_session_number (jen_of j));
                j = (if in_menu (jen_of j)
                     then set_jen (\<lambda>n. n\<lparr>in_menu := False\<rparr>) (snd (en_do lib (mmi_menu_answ sess choice) j)) else j)
            in if in_enq (jen_of j) then
                 (case c_string buf 0 of
                    None \<Rightarrow> None
                  | Some s \<Rightarrow>
                      let j = snd (en_do lib (mmi_answ sess MMI_ANSW_ID_ANSWER (takeWhile c_isdigit s)) j)
                      in Some (0, set_jen (\<lambda>n. n\<lparr>in_enq := False\<rparr>) j))
               else Some (0, j))"

text \<open>
  One client of the TCP server of \<open>joker_en50221_server_worker\<close>: the menu is entered, then every
  \<open>recv\<close> puts its bytes at the start of the same buffer. An \<open>Inl\<close> is a failed \<open>recv\<close>; an empty
  message ends the connection.
\<close>

fun server_client_loop ::
  "en_lib \<Rightarrow> byte list \<Rightarrow> (int + byte list) list \<Rightarrow> ('d, 'z) joker_en_h_scheme \<Rightarrow> ('d, 'z) joker_en_h_scheme option" where
  "server_client_loop lib buf [] j = Some j"
| "server_client_loop lib buf (Inl _ # rs) j = server_client_loop lib buf rs j"
| "server_client_loop lib buf (Inr msg # rs) j =
     (if msg = [] then Some j
      else let buf = put_bytes buf 0 msg
        in case joker_en50221_mmi_call lib buf j of
             None \<Rightarrow> None
           | Some (_, j) \<Rightarrow> server_client_loop lib buf rs j)"

definition server_client ::
  "en_lib \<Rightarrow> byte list \<Rightarrow> (int + byte list) list \<Rightarrow> ('d, 'z) joker_en_h_scheme \<Rightarrow> (int \<times> ('d, 'z) joker_en_h_scheme) option" where
  "server_client lib buf rs j =
     (let (ret, j) = joker_en50221_mmi_enter lib j
      in if ret \<noteq> 0 then Some (- EIO, j)
         else map_option (Pair 0) (server_client_loop lib buf rs j))"

section \<open>The stack thread\<close>

definition joker_en50221_set_dvbtime :: "int \<Rightarrow> ('d, 'z) joker_en_h_scheme \<Rightarrow> ('d, 'z) joker_en_h_scheme" where
  "joker_en50221_set_dvbtime t j = set_jen (\<lambda>n. n\<lparr>datetime_dvbtime := t\<rparr>) j"

text \<open>
  One round of \<open>ci_poll_func\<close>: \<open>poll\<close> is what \<open>en50221_tl_poll\<close> does, callbacks included; then the
  date and time are sent when they are due.
\<close>

definition ci_poll_round ::
  "en_lib \<Rightarrow> (('d, 'z) joker_en_h_scheme \<Rightarrow> ('d, 'z) joker_en_h_scheme) \<Rightarrow> int \<Rightarrow> ('d, 'z) joker_en_h_scheme \<Rightarrow> ('d, 'z) joker_en_h_scheme" where
  "ci_poll_round lib poll cur_time j =
     (let j = poll j; n = jen_of j
      in if datetime_session_number n \<noteq> - 1 \<and> datetime_response_interval n \<noteq> 0
            \<and> datetime_dvbtime n \<noteq> 0 \<and> cur_time > datetime_next_send n
         then set_jen (\<lambda>n. n\<lparr>datetime_next_send := cur_time + uint (datetime_response_interval n)\<rparr>)
                (snd (en_do lib (datetime_send (datetime_session_number n) (datetime_dvbtime n) 0) j))
         else j)"

fun ci_poll_loop ::
  "en_lib \<Rightarrow> ((('d, 'z) joker_en_h_scheme \<Rightarrow> ('d, 'z) joker_en_h_scheme) \<times> int) list
    \<Rightarrow> ('d, 'z) joker_en_h_scheme \<Rightarrow> ('d, 'z) joker_en_h_scheme" where
  "ci_poll_loop lib [] j = j"
| "ci_poll_loop lib ((poll, t) # rounds) j =
     (if shutdown_stackthread (jen_of j) then set_jen (\<lambda>n. n\<lparr>shutdown_stackthread := False\<rparr>) j
      else ci_poll_loop lib rounds (ci_poll_round lib poll t j))"

definition ci_poll_func ::
  "en_lib \<Rightarrow> ((('d, 'z) joker_en_h_scheme \<Rightarrow> ('d, 'z) joker_en_h_scheme) \<times> int) list
    \<Rightarrow> ('d, 'z) joker_en_h_scheme \<Rightarrow> int \<times> ('d, 'z) joker_en_h_scheme" where
  "ci_poll_func lib rounds j =
     (case joker_en50221_opaque j of
        None \<Rightarrow> (- EINVAL, j)
      | Some n \<Rightarrow> if \<not> tl_set n then (- EINVAL, j) else (0, ci_poll_loop lib rounds j))"

text \<open>\<open>joker_ci_poll\<close>: 1 when the module has data, 0 otherwise.\<close>

definition joker_ci_poll :: "'d usb_dev \<Rightarrow> nat \<Rightarrow> ('d, 'z) joker_ci_h_scheme \<Rightarrow> int \<times> ('d, 'z) joker_ci_h_scheme" where
  "joker_ci_poll dev timeout j =
     (let (ret, j) = joker_ci_wait_status dev j STATUSREG_DA timeout in if ret = 0 then (1, j) else (0, j))"

section \<open>The link layer\<close>

text \<open>The length \<open>data_length + 2\<close> is computed as an \<open>int\<close> and does not wrap.\<close>

definition dvbca_link_write ::
  "'d usb_dev \<Rightarrow> byte \<Rightarrow> byte list \<Rightarrow> ('d, 'z) joker_ci_h_scheme \<Rightarrow> int \<times> ('d, 'z) joker_ci_h_scheme" where
  "dvbca_link_write dev connection_id data j =
     (let buf = [connection_id, 0x0] @ data;
          (ret, j) = joker_ci_write_data dev j buf (length data + 2)
      in if ret < 0 then (- EIO, j)
         else let (_, j) = cam_pcap_write_event j JOKER_PCAP_DATA_HOST_TO_CAM buf in (ret, j))"

text \<open>
  \<open>dvbca_link_read\<close> collects fragments as long as the module announces more. \<open>rd\<close> reads one
  fragment into the buffer \<open>buf\<close> of \<open>data_length\<close> bytes; the value \<open>link_fault\<close> is a copy outside
  of an array, and \<open>None\<close> of the option is a loop that never ends.
\<close>

datatype 'h link_result = link_fault | link_done int byte "byte list" 'h

partial_function (option) link_read_loop ::
  "('h \<Rightarrow> byte list \<Rightarrow> nat \<Rightarrow> int \<times> byte list \<times> 'h) \<Rightarrow> (byte list \<Rightarrow> 'h \<Rightarrow> 'h) \<Rightarrow> nat \<Rightarrow> byte list \<Rightarrow> byte list \<Rightarrow> byte
    \<Rightarrow> 'h \<Rightarrow> 'h link_result option" where
  "link_read_loop rd dump data_length buf data conn j =
     (case rd j buf data_length of
        (sz, buf, j) \<Rightarrow>
          if sz < 0 then Some (link_done (- EIO) conn data j)
          else if sz < 2 \<or> length data + nat sz - 2 > data_length then Some link_fault
          else
            let conn = buf ! 0;
                data = data @ take (nat sz - 2) (drop 2 buf);
                j = dump (take (nat sz) buf) j
            in if buf ! 1 AND 0x80 \<noteq> 0 then link_read_loop rd dump data_length buf data conn j
               else Some (link_done (int (length data)) conn data j))"

definition dvbca_link_read ::
  "'d usb_dev \<Rightarrow> nat \<Rightarrow> byte list \<Rightarrow> byte \<Rightarrow> ('d, 'z) joker_ci_h_scheme
    \<Rightarrow> ('d, 'z) joker_ci_h_scheme link_result option" where
  "dvbca_link_read dev data_length undef conn j =
     link_read_loop (joker_ci_read_data dev)
       (\<lambda>d j. snd (cam_pcap_write_event j JOKER_PCAP_DATA_CAM_TO_HOST d))
       data_length (take data_length undef) [] conn j"

end
