(* ===== verification/CamSync.thy ===== *)
theory CamSync
  imports En50221
begin

text \<open>
  The descramble list of \<open>src/joker_en50221.c\<close> as a state machine: what one synchronisation sends
  to the module, in which order and with which list management codes; the invariant of the program
  list over every interleaving of API calls and stack callbacks; and the way of a program from
  \<open>descramble_add\<close> to the module.
\<close>

section \<open>What a synchronisation changes\<close>

definition is_ca_pmt :: "en_call \<Rightarrow> bool" where
  "is_ca_pmt c \<longleftrightarrow> (case c of ca_pmt _ _ _ _ \<Rightarrow> True | _ \<Rightarrow> False)"

lemma is_ca_pmt_simps [simp]:
  "is_ca_pmt (ca_pmt s l c b)" "\<not> is_ca_pmt (rm_enq s)" "\<not> is_ca_pmt (rm_reply s ids)"
  "\<not> is_ca_pmt (rm_changed s)" "\<not> is_ca_pmt (datetime_send s t off)" "\<not> is_ca_pmt (ai_enquiry s)"
  "\<not> is_ca_pmt (ca_info_enq s)" "\<not> is_ca_pmt (ai_entermenu s)" "\<not> is_ca_pmt (mmi_menu_answ s choice)"
  "\<not> is_ca_pmt (mmi_answ s aid txt)" "\<not> is_ca_pmt (mmi_display_reply s mode)" "\<not> is_ca_pmt (user_mmi txt)"
  by (simp_all add: is_ca_pmt_def)

text \<open>Every call into the stack only extends the log.\<close>

lemma en_do_eq: "snd (en_do lib c j) = j\<lparr>en_log := en_log j @ [c]\<rparr>"
  by (simp add: en_do_def Let_def)

lemma send_ca_pmt_eq:
  "send_ca_pmt lib sess lm cmd sec j =
     (case format_pmt lib sec lm cmd of
        None \<Rightarrow> (False, j)
      | Some x \<Rightarrow> (call_res lib (en_log j @ [ca_pmt sess lm cmd x]) = 0,
                   j\<lparr>en_log := en_log j @ [ca_pmt sess lm cmd x]\<rparr>))"
  by (simp add: send_ca_pmt_def en_do_def Let_def split: option.split)

lemma send_ca_pmt_log:
  "\<exists>cs. snd (send_ca_pmt lib sess lm cmd sec j) = j\<lparr>en_log := en_log j @ cs\<rparr>
     \<and> list_all (\<lambda>c. \<exists>x. c = ca_pmt sess lm cmd x) cs \<and> length cs \<le> 1"
proof (cases "format_pmt lib sec lm cmd")
  case None
  then show ?thesis by (intro exI [of _ "[]"]) (simp add: send_ca_pmt_eq)
next
  case (Some x)
  then show ?thesis by (intro exI [of _ "[ca_pmt sess lm cmd x]"]) (simp add: send_ca_pmt_eq)
qed

text \<open>The programs after the sending loop: only the status of a program that was to be sent changes.\<close>

definition sent_upd :: "program_t \<Rightarrow> program_t \<Rightarrow> bool" where
  "sent_upd p q \<longleftrightarrow> q = p \<or> to_send p \<and> q = p\<lparr>ci_status := CI_CAM_SENT\<rparr>"

lemma sync_send_loop_programs:
  "list_all2 sent_upd ps (fst (sync_send_loop lib sess count i ps j))"
  by (induction ps arbitrary: i j)
    (auto simp: sent_upd_def Let_def send_ca_pmt_eq case_prod_beta split: option.split)

lemma sync_send_loop_log:
  "\<exists>cs. snd (sync_send_loop lib sess count i ps j) = j\<lparr>en_log := en_log j @ cs\<rparr>
     \<and> list_all (\<lambda>c. \<exists>lm x. c = ca_pmt sess lm CA_PMT_CMD_ID_OK_DESCRAMBLING x) cs
     \<and> length cs \<le> length (filter to_send ps)"
proof (induction ps arbitrary: i j)
  case Nil
  show ?case by (intro exI [of _ "[]"]) simp
next
  case (Cons p ps)
  obtain b j1 where s: "send_ca_pmt lib sess (sync_listmgmt count i) CA_PMT_CMD_ID_OK_DESCRAMBLING (the (pmt p)) j = (b, j1)"
    by fastforce
  obtain c1 where c1: "j1 = j\<lparr>en_log := en_log j @ c1\<rparr>" "length c1 \<le> 1"
    "list_all (\<lambda>c. \<exists>x. c = ca_pmt sess (sync_listmgmt count i) CA_PMT_CMD_ID_OK_DESCRAMBLING x) c1"
    using send_ca_pmt_log [of lib sess "sync_listmgmt count i" CA_PMT_CMD_ID_OK_DESCRAMBLING "the (pmt p)" j] s by auto
  have c1': "list_all (\<lambda>c. \<exists>lm x. c = ca_pmt sess lm CA_PMT_CMD_ID_OK_DESCRAMBLING x) c1"
    using c1(3) by (rule list.pred_mono_strong) blast
  show ?case
  proof (cases "to_send p")
    case True
    obtain cs where cs: "snd (sync_send_loop lib sess count (if b then i + 1 else i) ps j1) = j1\<lparr>en_log := en_log j1 @ cs\<rparr>"
      "list_all (\<lambda>c. \<exists>lm x. c = ca_pmt sess lm CA_PMT_CMD_ID_OK_DESCRAMBLING x) cs" "length cs \<le> length (filter to_send ps)"
      using Cons.IH by blast
    show ?thesis using True s c1 c1' cs
      by (intro exI [of _ "c1 @ cs"]) (simp add: case_prod_beta split: if_splits)
  next
    case False
    with Cons.IH [of i j] show ?thesis by (simp add: case_prod_beta)
  qed
qed

lemma sync_query_loop_log:
  "\<exists>cs. sync_query_loop lib sess ps j = j\<lparr>en_log := en_log j @ cs\<rparr>
     \<and> list_all (\<lambda>c. \<exists>x. c = ca_pmt sess CA_LIST_MANAGEMENT_ONLY CA_PMT_CMD_ID_QUERY x) cs"
proof (induction ps arbitrary: j)
  case Nil
  show ?case by (intro exI [of _ "[]"]) simp
next
  case (Cons p ps)
  let ?j = "snd (send_ca_pmt lib sess CA_LIST_MANAGEMENT_ONLY CA_PMT_CMD_ID_QUERY (the (pmt p)) j)"
  obtain c1 where c1: "?j = j\<lparr>en_log := en_log j @ c1\<rparr>"
    "list_all (\<lambda>c. \<exists>x. c = ca_pmt sess CA_LIST_MANAGEMENT_ONLY CA_PMT_CMD_ID_QUERY x) c1"
    using send_ca_pmt_log by blast
  obtain c2 where c2: "sync_query_loop lib sess ps ?j = ?j\<lparr>en_log := en_log ?j @ c2\<rparr>"
    "list_all (\<lambda>c. \<exists>x. c = ca_pmt sess CA_LIST_MANAGEMENT_ONLY CA_PMT_CMD_ID_QUERY x) c2"
    using Cons.IH [of ?j] by blast
  show ?case
  proof (cases "to_send p")
    case True
    with c1 c2 show ?thesis by (intro exI [of _ "c1 @ c2"]) simp
  qed (use Cons.IH [of j] in simp)
qed

section \<open>List management codes\<close>

text \<open>The codes that EN 50221 asks for when \<open>n\<close> programs are sent one after the other.\<close>

definition list_codes :: "nat \<Rightarrow> byte list" where
  "list_codes n =
     (if n = 0 then [] else if n = 1 then [CA_LIST_MANAGEMENT_ONLY]
      else CA_LIST_MANAGEMENT_FIRST # replicate (n - 2) CA_LIST_MANAGEMENT_MORE @ [CA_LIST_MANAGEMENT_LAST])"

lemma list_codes_eq: "map (sync_listmgmt n) [0..<n] = list_codes n"
proof (cases "n \<le> 1")
  case True
  then have "n = 0 \<or> n = 1" by auto
  then show ?thesis by (auto simp: list_codes_def sync_listmgmt_def)
next
  case False
  then obtain m where n: "n = Suc (Suc m)" by (metis One_nat_def le_SucE less_or_eq_imp_le not_less old.nat.exhaust le0)
  show ?thesis
  proof (rule nth_equalityI)
    show "length (map (sync_listmgmt n) [0..<n]) = length (list_codes n)" by (simp add: n list_codes_def)
    fix k assume "k < length (map (sync_listmgmt n) [0..<n])"
    then have "k < Suc (Suc m)" by (simp add: n)
    then show "map (sync_listmgmt n) [0..<n] ! k = list_codes n ! k"
      by (cases k) (auto simp: n list_codes_def sync_listmgmt_def nth_append simp del: upt_Suc)
  qed
qed

text \<open>A library that formats and accepts every CA PMT.\<close>

definition cam_accepts :: "en_lib \<Rightarrow> program_t list \<Rightarrow> bool" where
  "cam_accepts lib ps \<longleftrightarrow> (\<forall>h. call_res lib h = 0)
     \<and> (\<forall>p\<in>set ps. \<forall>lm cmd. to_send p \<longrightarrow> format_pmt lib (the (pmt p)) lm cmd \<noteq> None)"

definition sync_calls :: "en_lib \<Rightarrow> int \<Rightarrow> byte list \<Rightarrow> program_t list \<Rightarrow> en_call list" where
  "sync_calls lib sess lms ps =
     map (\<lambda>(lm, p). ca_pmt sess lm CA_PMT_CMD_ID_OK_DESCRAMBLING
            (the (format_pmt lib (the (pmt p)) lm CA_PMT_CMD_ID_OK_DESCRAMBLING)))
       (zip lms (filter to_send ps))"

definition mark_sent :: "program_t \<Rightarrow> program_t" where
  "mark_sent p = (if to_send p then p\<lparr>ci_status := CI_CAM_SENT\<rparr> else p)"

lemma sync_send_loop_accepted:
  assumes "cam_accepts lib ps"
  shows "sync_send_loop lib sess count i ps j =
    (map mark_sent ps, j\<lparr>en_log := en_log j @
       sync_calls lib sess (map (sync_listmgmt count) [i..<i + length (filter to_send ps)]) ps\<rparr>)"
  using assms
proof (induction ps arbitrary: i j)
  case Nil
  show ?case by (simp add: sync_calls_def)
next
  case (Cons p ps)
  have rest: "cam_accepts lib ps" using Cons.prems by (simp add: cam_accepts_def)
  show ?case
  proof (cases "to_send p")
    case True
    then obtain x where x: "format_pmt lib (the (pmt p)) (sync_listmgmt count i) CA_PMT_CMD_ID_OK_DESCRAMBLING = Some x"
      using Cons.prems by (fastforce simp: cam_accepts_def)
    have up: "[i..<Suc (i + k)] = i # [Suc i..<Suc (i + k)]" for k by (simp add: upt_conv_Cons)
    have ok: "call_res lib h = 0" for h using Cons.prems by (simp add: cam_accepts_def)
    from True x ok Cons.IH [OF rest, of "i + 1"] show ?thesis
      by (simp add: send_ca_pmt_eq mark_sent_def sync_calls_def up del: upt_Suc)
  next
    case False
    with Cons.IH [OF rest, of i] show ?thesis by (simp add: mark_sent_def sync_calls_def)
  qed
qed

section \<open>A list that is never closed\<close>

definition is_last :: "en_call \<Rightarrow> bool" where
  "is_last c \<longleftrightarrow> (\<exists>sess cmd x. c = ca_pmt sess CA_LIST_MANAGEMENT_LAST cmd x)"

lemma send_log_no_last:
  "lm \<noteq> CA_LIST_MANAGEMENT_LAST \<Longrightarrow>
     \<exists>cs. snd (send_ca_pmt lib sess lm cmd sec j) = j\<lparr>en_log := en_log j @ cs\<rparr> \<and> list_all (\<lambda>c. \<not> is_last c) cs"
  using send_ca_pmt_log [of lib sess lm cmd sec j]
  by (auto simp: is_last_def list_all_iff)

text \<open>Once a program has failed, the counter can no longer reach the last position.\<close>

lemma sync_send_loop_behind:
  assumes "i + length (filter to_send ps) < count"
  shows "\<exists>cs. snd (sync_send_loop lib sess count i ps j) = j\<lparr>en_log := en_log j @ cs\<rparr>
    \<and> list_all (\<lambda>c. \<not> is_last c) cs"
  using assms
proof (induction ps arbitrary: i j)
  case Nil
  show ?case by (intro exI [of _ "[]"]) simp
next
  case (Cons p ps)
  show ?case
  proof (cases "to_send p")
    case True
    with Cons.prems have "sync_listmgmt count i \<noteq> CA_LIST_MANAGEMENT_LAST"
      by (simp add: sync_listmgmt_def)
    from send_log_no_last [OF this, of lib sess CA_PMT_CMD_ID_OK_DESCRAMBLING "the (pmt p)" j]
    obtain b j1 c1 where s: "send_ca_pmt lib sess (sync_listmgmt count i) CA_PMT_CMD_ID_OK_DESCRAMBLING (the (pmt p)) j = (b, j1)"
      "j1 = j\<lparr>en_log := en_log j @ c1\<rparr>" "list_all (\<lambda>c. \<not> is_last c) c1"
      by (metis snd_conv surj_pair)
    have "(if b then i + 1 else i) + length (filter to_send ps) < count" using True Cons.prems by simp
    from Cons.IH [OF this, of j1] s True show ?thesis
      by (elim exE conjE) (rule exI, auto simp: case_prod_beta split: if_splits)
  next
    case False
    with Cons.IH [of i j] Cons.prems show ?thesis by (simp add: case_prod_beta)
  qed
qed

text \<open>A program whose CA PMT cannot be formatted.\<close>

definition unformattable :: "en_lib \<Rightarrow> program_t \<Rightarrow> bool" where
  "unformattable lib p \<longleftrightarrow> to_send p \<and> (\<forall>lm cmd. format_pmt lib (the (pmt p)) lm cmd = None)"

lemma sync_send_loop_open:
  assumes "i + length (filter to_send ps) = count" and "2 \<le> count" and "\<exists>p\<in>set ps. unformattable lib p"
  shows "\<exists>cs. snd (sync_send_loop lib sess count i ps j) = j\<lparr>en_log := en_log j @ cs\<rparr>
    \<and> list_all (\<lambda>c. \<not> is_last c) cs"
  using assms
proof (induction ps arbitrary: i j)
  case (Cons p ps)
  show ?case
  proof (cases "unformattable lib p")
    case True
    then have "send_ca_pmt lib sess lm cmd (the (pmt p)) j = (False, j)" for lm cmd
      by (simp add: unformattable_def send_ca_pmt_eq)
    moreover have "to_send p" using True by (simp add: unformattable_def)
    moreover have "i + length (filter to_send ps) < count" using Cons.prems(1) \<open>to_send p\<close> by simp
    ultimately show ?thesis
      using sync_send_loop_behind [of i ps count lib sess j] by (simp add: case_prod_beta)
  next
    case False
    then have bad: "\<exists>p\<in>set ps. unformattable lib p" using Cons.prems(3) by auto
    then have pos: "0 < length (filter to_send ps)"
      by (auto simp: unformattable_def filter_empty_conv)
    show ?thesis
    proof (cases "to_send p")
      case True
      with Cons.prems pos have "sync_listmgmt count i \<noteq> CA_LIST_MANAGEMENT_LAST"
        by (auto simp: sync_listmgmt_def)
      from send_log_no_last [OF this, of lib sess CA_PMT_CMD_ID_OK_DESCRAMBLING "the (pmt p)" j]
      obtain b j1 c1 where s: "send_ca_pmt lib sess (sync_listmgmt count i) CA_PMT_CMD_ID_OK_DESCRAMBLING (the (pmt p)) j = (b, j1)"
        "j1 = j\<lparr>en_log := en_log j @ c1\<rparr>" "list_all (\<lambda>c. \<not> is_last c) c1"
        by (metis snd_conv surj_pair)
      have "\<exists>cs. snd (sync_send_loop lib sess count (if b then i + 1 else i) ps j1) = j1\<lparr>en_log := en_log j1 @ cs\<rparr>
          \<and> list_all (\<lambda>c. \<not> is_last c) cs"
        using Cons.IH [of "i + 1" j1] sync_send_loop_behind [of i ps count lib sess j1] Cons.prems True bad
        by simp
      with s True show ?thesis
        by (elim exE conjE) (rule exI, auto simp: case_prod_beta split: if_splits)
    next
      case False
      with Cons.IH [of i j] Cons.prems bad show ?thesis by (simp add: case_prod_beta)
    qed
  qed
qed simp

section \<open>The invariant of the program list\<close>

text \<open>
  The numbers are distinct; a program marked as sent has a PMT, and is only marked after the module's
  CA resource has answered; before that no CA PMT has gone out.
\<close>

definition cam_inv :: "('d, 'z) joker_en_h_scheme \<Rightarrow> bool" where
  "cam_inv j \<longleftrightarrow> (case joker_en50221_opaque j of
      None \<Rightarrow> \<not> list_ex is_ca_pmt (en_log j)
    | Some n \<Rightarrow> progs.keys_ok (programs n)
        \<and> list_all (\<lambda>p. ci_status p = CI_CAM_SENT \<longrightarrow> pmt p \<noteq> None \<and> ca_connected n) (programs n)
        \<and> (\<not> ca_connected n \<longrightarrow> \<not> list_ex is_ca_pmt (en_log j)))"

lemma cam_inv_some:
  "joker_en50221_opaque j = Some n \<Longrightarrow> cam_inv j \<longleftrightarrow> progs.keys_ok (programs n)
     \<and> list_all (\<lambda>p. ci_status p = CI_CAM_SENT \<longrightarrow> pmt p \<noteq> None \<and> ca_connected n) (programs n)
     \<and> (\<not> ca_connected n \<longrightarrow> \<not> list_ex is_ca_pmt (en_log j))"
  by (simp add: cam_inv_def)

text \<open>Operations that touch neither the program list nor the connection, and send no CA PMT.\<close>

lemma cam_inv_cong:
  assumes "joker_en50221_opaque j' = map_option f (joker_en50221_opaque j)"
    and "\<And>n. programs (f n) = programs n" and "\<And>n. ca_connected (f n) = ca_connected n"
    and "en_log j' = en_log j @ cs" and "\<not> list_ex is_ca_pmt cs" and "cam_inv j"
  shows "cam_inv j'"
  using assms by (auto simp: cam_inv_def split: option.splits)

lemma cam_inv_init: "cam_inv j \<Longrightarrow> cam_inv (snd (joker_ci_en50221_init j))"
  by (auto simp: cam_inv_def joker_ci_en50221_init_def zero_jen_def progs.keys_ok_def split: option.splits)

lemma init_some: "\<exists>n. joker_en50221_opaque (snd (joker_ci_en50221_init j)) = Some n"
  by (cases "joker_en50221_opaque j") (simp_all add: joker_ci_en50221_init_def)

lemma sent_upd_keys: "list_all2 sent_upd ps qs \<Longrightarrow> map number qs = map number ps"
  by (induction rule: list_all2_induct) (auto simp: sent_upd_def)

text \<open>The handle after a synchronisation.\<close>

lemma joker_cmd0_en [frame_simps]:
  "joker_en50221_opaque (snd (joker_cmd0 dev j b)) = joker_en50221_opaque j"
  "en_log (snd (joker_cmd0 dev j b)) = en_log j"
  "joker_ci_opaque (snd (joker_cmd0 dev j b)) = joker_ci_opaque j"
  by (simp_all add: joker_cmd0_def joker_cmd_def joker_io_def Let_def split: prod.split)

lemma sync_cam_unfold:
  assumes "joker_en50221_opaque j = Some n" and "ca_connected n"
    and "sync_send_loop lib (ca_session_number n) (length (filter to_send (programs n))) 0 (programs n) j = (ps, j1)"
  shows "\<exists>cq. list_all (\<lambda>c. \<exists>x. c = ca_pmt (ca_session_number n) CA_LIST_MANAGEMENT_ONLY CA_PMT_CMD_ID_QUERY x) cq
    \<and> joker_en50221_opaque (snd (joker_en50221_sync_cam lib dev j))
        = map_option (\<lambda>n. n\<lparr>programs := ps\<rparr>) (joker_en50221_opaque j1)
    \<and> en_log (snd (joker_en50221_sync_cam lib dev j)) = en_log j1 @ cq"
proof -
  let ?j2 = "set_jen (\<lambda>n. n\<lparr>programs := ps\<rparr>) j1"
  define m where "m = length (filter to_send (programs n))"
  obtain cq where cq: "sync_query_loop lib (ca_session_number n) ps ?j2 = ?j2\<lparr>en_log := en_log ?j2 @ cq\<rparr>"
    "list_all (\<lambda>c. \<exists>x. c = ca_pmt (ca_session_number n) CA_LIST_MANAGEMENT_ONLY CA_PMT_CMD_ID_QUERY x) cq"
    using sync_query_loop_log by blast
  define j3 where "j3 = (if 0 < m \<and> cam_query_send ?j2 then sync_query_loop lib (ca_session_number n) ps ?j2 else ?j2)"
  have "snd (joker_en50221_sync_cam lib dev j) = snd (joker_cmd0 dev j3 [J_CMD_CI_TS, word_of_int (ci_ts_enable j3)])"
    unfolding joker_en50221_sync_cam_def assms(1) option.case Let_def m_def [symmetric] assms(3) [folded m_def] prod.case
      j3_def [symmetric] using assms(2) by (simp add: case_prod_beta)
  then show ?thesis using cq
    by (intro exI [of _ "if 0 < m \<and> cam_query_send ?j2 then cq else []"]) (simp add: frame_simps j3_def set_jen_def)
qed

lemma sync_cam_state:
  assumes "joker_en50221_opaque j = Some n" and "ca_connected n"
  shows "\<exists>ps. list_all2 sent_upd (programs n) ps
    \<and> joker_en50221_opaque (snd (joker_en50221_sync_cam lib dev j)) = Some (n\<lparr>programs := ps\<rparr>)"
proof -
  define m where "m = length (filter to_send (programs n))"
  obtain ps j1 where l: "sync_send_loop lib (ca_session_number n) m 0 (programs n) j = (ps, j1)" by fastforce
  obtain cs where "j1 = j\<lparr>en_log := en_log j @ cs\<rparr>"
    using sync_send_loop_log [of lib "ca_session_number n" m 0 "programs n" j] l by auto
  then show ?thesis
    using sync_send_loop_programs [of "programs n" lib "ca_session_number n" m 0 j] l
      sync_cam_unfold [OF assms l [unfolded m_def], of dev] assms(1) by auto
qed

lemma cam_inv_sync: "cam_inv j \<Longrightarrow> cam_inv (snd (joker_en50221_sync_cam lib dev j))"
proof (cases "joker_en50221_opaque j")
  case (Some n)
  assume inv: "cam_inv j"
  show ?thesis
  proof (cases "ca_connected n")
    case True
    from sync_cam_state [OF Some True, of lib dev] obtain ps where ps: "list_all2 sent_upd (programs n) ps"
      "joker_en50221_opaque (snd (joker_en50221_sync_cam lib dev j)) = Some (n\<lparr>programs := ps\<rparr>)" by blast
    have "list_all (\<lambda>p. ci_status p = CI_CAM_SENT \<longrightarrow> pmt p \<noteq> None) (programs n)"
      using inv Some by (auto simp: cam_inv_some list_all_iff)
    with ps(1) have "list_all (\<lambda>p. ci_status p = CI_CAM_SENT \<longrightarrow> pmt p \<noteq> None) ps"
      by (induction rule: list_all2_induct) (auto simp: sent_upd_def to_send_def)
    moreover have "progs.keys_ok ps"
      using sent_upd_keys [OF ps(1)] inv Some by (simp add: cam_inv_some progs.keys_ok_def)
    ultimately show ?thesis using True by (simp add: cam_inv_some [OF ps(2)] list_all_iff)
  qed (use inv Some in \<open>simp add: joker_en50221_sync_cam_def\<close>)
qed (simp add: joker_en50221_sync_cam_def)

text \<open>The list after \<open>program_add_or_find\<close>.\<close>

lemma add_or_find_inv:
  assumes "program_add_or_find k ps = (i, qs)" and "progs.keys_ok ps" and "list_all P ps" and "P (new_program k)"
  shows "progs.keys_ok qs" "list_all P qs" "i < length qs" "number (qs ! i) = k"
proof -
  show "progs.keys_ok qs" by (rule progs.insert_distinct [OF assms(2,1)])
  show "i < length qs" "number (qs ! i) = k" using progs.insert_valid [OF assms(1)] by auto
  show "list_all P qs"
    using assms(1,3,4) by (auto simp: program_add_or_find_def add_key_def split: option.splits)
qed

lemma cam_inv_programs:
  assumes "cam_inv j" and "joker_en50221_opaque j = Some n" and "progs.keys_ok ps"
    and "list_all (\<lambda>p. ci_status p = CI_CAM_SENT \<longrightarrow> pmt p \<noteq> None \<and> ca_connected n) ps"
  shows "cam_inv (set_jen (\<lambda>n. n\<lparr>programs := ps\<rparr>) j)"
  using assms by (auto simp: cam_inv_def set_jen_def)

lemma new_program_status [simp]:
  "ci_status (new_program k) = CI_NONE" "i_version (new_program k) = 0" "\<not> b_current_next (new_program k)"
  "pmt (new_program k) = None" "number (new_program k) = k"
  by (simp_all add: new_program_def zero_program_def)

lemma cam_inv_add:
  assumes "cam_inv j" shows "cam_inv (snd (joker_en50221_descramble_add k j))"
proof -
  define j0 where "j0 = snd (joker_ci_en50221_init j)"
  obtain n where n: "joker_en50221_opaque j0 = Some n" using init_some j0_def by metis
  have inv: "cam_inv j0" using cam_inv_init [OF assms] by (simp add: j0_def)
  obtain i ps where a: "program_add_or_find k (programs n) = (i, ps)" by fastforce
  let ?P = "\<lambda>p. ci_status p = CI_CAM_SENT \<longrightarrow> pmt p \<noteq> None \<and> ca_connected n"
  have P: "progs.keys_ok (programs n)" "list_all ?P (programs n)" using inv n by (auto simp: cam_inv_some)
  note ps = add_or_find_inv [OF a P, simplified]
  have "snd (joker_en50221_descramble_add k j)
      = set_jen (\<lambda>n. n\<lparr>programs := upd_nth i (\<lambda>p. p\<lparr>ci_status := CI_INIT\<rparr>) ps\<rparr>) j0"
    using n by (simp add: joker_en50221_descramble_add_def case_prod_beta j0_def [symmetric] set_jen_def a)
  moreover have "list_all ?P (upd_nth i (\<lambda>p. p\<lparr>ci_status := CI_INIT\<rparr>) ps)"
    unfolding list_all_iff by (intro ballI, erule upd_nth_all [rotated 2]) (use ps(2) in \<open>auto simp: list_all_iff\<close>)
  ultimately show ?thesis using cam_inv_programs [OF inv n] ps(1) upd_nth_keys by simp
qed

lemma cam_inv_clear:
  assumes "cam_inv j" shows "cam_inv (snd (joker_en50221_descramble_clear j))"
proof -
  define j0 where "j0 = snd (joker_ci_en50221_init j)"
  obtain n where n: "joker_en50221_opaque j0 = Some n" using init_some j0_def by metis
  have inv: "cam_inv j0" using cam_inv_init [OF assms] by (simp add: j0_def)
  let ?ps = "map (\<lambda>p. p\<lparr>ci_status := CI_NONE\<rparr>) (programs n)"
  have "snd (joker_en50221_descramble_clear j) = set_jen (\<lambda>n. n\<lparr>programs := ?ps\<rparr>) j0"
    using n by (simp add: joker_en50221_descramble_clear_def case_prod_beta j0_def [symmetric] set_jen_def)
  moreover have "map number ?ps = map number (programs n)" by simp
  then have "progs.keys_ok ?ps" using inv n unfolding cam_inv_some [OF n] progs.keys_ok_def by (simp only:)
  ultimately show ?thesis using cam_inv_programs [OF inv n] by (simp add: list_all_iff)
qed

lemma set_jen_twice:
  "set_jen (\<lambda>n. n\<lparr>programs := qs\<rparr>) (set_jen (\<lambda>n. n\<lparr>programs := ps\<rparr>) h) = set_jen (\<lambda>n. n\<lparr>programs := qs\<rparr>) h"
  by (simp add: set_jen_def option.map_comp o_def)

text \<open>The two steps of a PMT update: the list entry, and what is sent.\<close>

definition pmt_entry :: "byte \<Rightarrow> bool \<Rightarrow> byte list \<Rightarrow> program_t \<Rightarrow> program_t" where
  "pmt_entry v c sec p = p\<lparr>pmt := Some sec, pmt_len := int (length sec), i_version := v, b_current_next := c\<rparr>"

lemma pmt_entry_simps [simp]:
  "number (pmt_entry v c sec p) = number p" "ci_status (pmt_entry v c sec p) = ci_status p"
  "pmt (pmt_entry v c sec p) = Some sec" "i_version (pmt_entry v c sec p) = v"
  "b_current_next (pmt_entry v c sec p) = c"
  by (simp_all add: pmt_entry_def)

lemma pmt_update_cases:
  assumes "pmt_codec lib sec = Some (Some (v, c, sec'))" and "joker_en50221_opaque (snd (joker_ci_en50221_init j)) = Some n"
    and "program_add_or_find num (programs n) = (i, ps)" and "j0 = snd (joker_ci_en50221_init j)"
    and "j1 = set_jen (\<lambda>n. n\<lparr>programs := ps[i := pmt_entry v c sec' (ps ! i)]\<rparr>) j0"
    and "s = send_ca_pmt lib (ca_session_number n) CA_LIST_MANAGEMENT_UPDATE CA_PMT_CMD_ID_OK_DESCRAMBLING sec' j1"
  shows "joker_en50221_pmt_update lib dev num sec j = Some
    (if i_version (ps ! i) \<noteq> v \<or> b_current_next (ps ! i) \<noteq> c then
       if ci_status (ps ! i) = CI_CAM_SENT then (if fst s then 0 else - EIO, snd s)
       else if ci_status (ps ! i) = CI_INIT then (0, snd (joker_en50221_sync_cam lib dev j1))
       else (0, j1)
     else (0, set_jen (\<lambda>n. n\<lparr>programs := ps\<rparr>) j0))"
  unfolding assms(6,5,4) using assms(1,2,3)
  by (simp add: joker_en50221_pmt_update_def pmt_update_parsed_def case_prod_beta Let_def pmt_entry_def [symmetric] set_jen_twice)

lemma pmt_update_refused:
  "pmt_codec lib sec = Some None \<Longrightarrow> joker_en50221_pmt_update lib dev num sec j = Some (- EINVAL, snd (joker_ci_en50221_init j))"
  by (simp add: joker_en50221_pmt_update_def pmt_update_parsed_def case_prod_beta)

lemma pmt_update_some:
  assumes "joker_en50221_pmt_update lib dev num sec j = Some r"
  obtains "pmt_codec lib sec = Some None" | v c sec' where "pmt_codec lib sec = Some (Some (v, c, sec'))"
proof (cases "pmt_codec lib sec")
  case (Some w)
  then show thesis using that by (cases w) auto
qed (use assms in \<open>simp add: joker_en50221_pmt_update_def case_prod_beta\<close>)

lemma pmt_update_none: "joker_en50221_pmt_update lib dev num sec j = None \<longleftrightarrow> pmt_codec lib sec = None"
  by (simp add: joker_en50221_pmt_update_def case_prod_beta split: option.split)

lemma pmt_update_total:
  assumes "pmt_codec lib sec \<noteq> None" obtains r j' where "joker_en50221_pmt_update lib dev num sec j = Some (r, j')"
  using assms pmt_update_none [of lib dev num sec j] by (cases "joker_en50221_pmt_update lib dev num sec j") auto

lemma cam_inv_pmt_update:
  assumes "joker_en50221_pmt_update lib dev num sec j = Some (r, j')" and "cam_inv j" shows "cam_inv j'"
proof -
  define j0 where "j0 = snd (joker_ci_en50221_init j)"
  obtain n where n: "joker_en50221_opaque j0 = Some n" using init_some j0_def by metis
  have inv: "cam_inv j0" using cam_inv_init [OF assms(2)] by (simp add: j0_def)
  from assms(1) show ?thesis
  proof (cases rule: pmt_update_some)
    case 1
    then show ?thesis using inv pmt_update_refused [OF 1, of dev num j] assms(1) by (simp add: j0_def)
  next
    case w: (2 v c sec')
    obtain i ps where a: "program_add_or_find num (programs n) = (i, ps)" by fastforce
    let ?P = "\<lambda>p. ci_status p = CI_CAM_SENT \<longrightarrow> pmt p \<noteq> None \<and> ca_connected n"
    have P: "progs.keys_ok (programs n)" "list_all ?P (programs n)" using inv n by (auto simp: cam_inv_some)
    note ps = add_or_find_inv [OF a P, simplified]
    let ?qs = "ps[i := pmt_entry v c sec' (ps ! i)]"
    have qs: "progs.keys_ok ?qs" "list_all ?P ?qs"
      using ps progs.update_distinct [OF ps(1), of "pmt_entry v c sec' (ps ! i)" i]
      by (auto simp: list_all_iff dest!: set_update_subset_insert [THEN subsetD] nth_mem)
    define j1 where "j1 = set_jen (\<lambda>n. n\<lparr>programs := ?qs\<rparr>) j0"
    have inv1: "cam_inv j1" unfolding j1_def by (rule cam_inv_programs [OF inv n qs])
    have n1: "joker_en50221_opaque j1 = Some (n\<lparr>programs := ?qs\<rparr>)" using n by (simp add: j1_def set_jen_def)
    define s where "s = send_ca_pmt lib (ca_session_number n) CA_LIST_MANAGEMENT_UPDATE CA_PMT_CMD_ID_OK_DESCRAMBLING sec' j1"
    have "cam_inv (snd s)" if "ci_status (ps ! i) = CI_CAM_SENT"
    proof -
      have "ca_connected n" using that ps(2) nth_mem [OF ps(3)] by (auto simp: list_all_iff)
      moreover obtain cs where "snd s = j1\<lparr>en_log := en_log j1 @ cs\<rparr>" unfolding s_def using send_ca_pmt_log by blast
      ultimately show ?thesis using inv1 n1 by (simp add: cam_inv_def)
    qed
    moreover note pmt_update_cases [OF w n [unfolded j0_def] a j0_def j1_def s_def, of dev]
    moreover have "cam_inv (set_jen (\<lambda>n. n\<lparr>programs := ps\<rparr>) j0)"
      using cam_inv_programs [OF inv n ps(1)] ps(2) by simp
    ultimately show ?thesis using cam_inv_sync [OF inv1] inv1 assms(1) by (auto split: if_splits)
  qed
qed

section \<open>The machine\<close>

text \<open>
  One step is one API call, one callback of the stack or one round of the stack thread, in any
  order; the user's callbacks only look.
\<close>

inductive en_step ::
  "en_lib \<Rightarrow> 'd usb_dev \<Rightarrow> ('d, 'z) joker_en_h_scheme \<Rightarrow> ('d, 'z) joker_en_h_scheme \<Rightarrow> bool" for lib dev where
  st_init: "en_step lib dev j (snd (joker_ci_en50221_init j))"
| st_start: "joker_ci_en50221_start tl_ok slot sl_ok j = Some (r, j') \<Longrightarrow> en_step lib dev j j'"
| st_add: "en_step lib dev j (snd (joker_en50221_descramble_add num j))"
| st_clear: "en_step lib dev j (snd (joker_en50221_descramble_clear j))"
| st_pmt: "joker_en50221_pmt_update lib dev num sec j = Some (r, j') \<Longrightarrow> en_step lib dev j j'"
| st_session: "en_step lib dev j (snd (test_session_callback lib reason sess rid j))"
| st_rm_enq: "en_step lib dev j (snd (test_rm_enq_callback lib sess j))"
| st_rm_reply: "en_step lib dev j (snd (test_rm_reply_callback lib sess j))"
| st_rm_changed: "en_step lib dev j (snd (test_rm_changed_callback lib sess j))"
| st_datetime: "en_step lib dev j (snd (test_datetime_enquiry_callback lib now sess interval j))"
| st_ai: "test_ai_callback (\<lambda>h. h) slot sn ty man code menu j = Some (r, j') \<Longrightarrow> en_step lib dev j j'"
| st_ca_info: "test_ca_info_callback lib dev (\<lambda>h. h) ids j = Some (r, j') \<Longrightarrow> en_step lib dev j j'"
| st_enq: "en_step lib dev j (snd (test_mmi_enq_callback sn j))"
| st_list: "en_step lib dev j (snd (test_app_mmi_list_callback sn j))"
| st_display: "en_step lib dev j (snd (test_mmi_display_control_callback lib sess cmd mode j))"
| st_menu: "test_mmi_menu_callback iconv undef sn title sub_title bottom items j = Some (r, j') \<Longrightarrow> en_step lib dev j j'"
| st_enter: "en_step lib dev j (snd (joker_en50221_mmi_enter lib j))"
| st_call: "joker_en50221_mmi_call lib buf j = Some (r, j') \<Longrightarrow> en_step lib dev j j'"
| st_dvbtime: "en_step lib dev j (joker_en50221_set_dvbtime t j)"
| st_poll: "en_step lib dev j (ci_poll_round lib (\<lambda>h. h) t j)"

inductive_cases en_stepE: "en_step lib dev j j'"

lemma add_resources_frame:
  "add_resources rs n = Some n' \<Longrightarrow> programs n' = programs n \<and> ca_connected n' = ca_connected n"
  by (induction rs arbitrary: n) (fastforce simp: add_resource_def split: option.splits if_splits)+

lemma cam_inv_start:
  assumes "joker_ci_en50221_start t s l j = Some (r, j')" and "cam_inv j" shows "cam_inv j'"
  using assms unfolding joker_ci_en50221_start_def Let_def cam_inv_def
  by (auto split: option.splits if_splits dest!: add_resources_frame)

lemma cam_inv_ca_info:
  assumes "test_ca_info_callback lib dev (\<lambda>h. h) ids j = Some (r, j')" and "cam_inv j" shows "cam_inv j'"
proof (cases "joker_ci_opaque j = None \<or> joker_en50221_opaque j = None")
  case True
  with assms show ?thesis by (simp add: test_ca_info_callback_def)
next
  case False
  let ?j = "set_jen (\<lambda>n. n\<lparr>ca_connected := True\<rparr>) (set_ci (\<lambda>ci. ci\<lparr>ca_ids := (put_bytes (ca_ids ci) 0 ids)[length ids + 1 := 0]\<rparr>) j)"
  from False assms(1) have "j' = snd (joker_en50221_sync_cam lib dev ?j)"
    by (auto simp: test_ca_info_callback_def case_prod_beta Let_def split: if_splits)
  moreover have "cam_inv ?j"
    using assms(2) False by (auto simp: cam_inv_def set_jen_def set_ci_def list_all_iff)
  ultimately show ?thesis using cam_inv_sync by simp
qed

lemma cam_inv_step: "en_step lib dev j j' \<Longrightarrow> cam_inv j \<Longrightarrow> cam_inv j'"
proof (induction rule: en_step.induct)
  case (st_ai slot sn ty man code menu j r j')
  then show ?case
    by (auto simp: test_ai_callback_def cam_inv_def set_jen_def set_ci_def Let_def split: if_splits option.splits)
next
  case (st_session j reason sess rid)
  then show ?case
    by (auto simp: test_session_callback_def cam_inv_def set_jen_def en_do_eq split: session_reason.splits if_splits option.splits)
next
  case (st_menu iconv undef sn title sub_title bottom items j r j')
  then show ?case
    by (auto simp: test_mmi_menu_callback_def cam_inv_def set_jen_def Let_def split: option.splits if_splits)
next
  case (st_enter j)
  then show ?case
    by (auto simp: joker_en50221_mmi_enter_def cam_inv_def set_jen_def en_do_eq Let_def case_prod_beta split: option.splits)
next
  case (st_call buf j r j')
  then show ?case
    by (auto simp: joker_en50221_mmi_call_def cam_inv_def set_jen_def jen_of_def en_do_eq Let_def split: option.splits if_splits)
next
  case (st_poll j t)
  then show ?case
    by (auto simp: ci_poll_round_def cam_inv_def set_jen_def en_do_eq Let_def split: option.splits)
qed (auto simp: cam_inv_init cam_inv_start cam_inv_add cam_inv_clear cam_inv_pmt_update cam_inv_ca_info,
     auto simp: cam_inv_def set_jen_def en_do_eq test_rm_enq_callback_def test_rm_reply_callback_def
       test_rm_changed_callback_def test_datetime_enquiry_callback_def test_mmi_display_control_callback_def test_mmi_enq_callback_def
       test_app_mmi_list_callback_def joker_en50221_set_dvbtime_def case_prod_beta split: option.splits)

interpretation cam: machine "en_step lib dev" cam_inv for lib dev
  by unfold_locales (rule cam_inv_step)

section \<open>One entry of the list\<close>

text \<open>The program with number \<open>k\<close> is in the list and satisfies \<open>P\<close>.\<close>

definition entry :: "('d, 'z) joker_en_h_scheme \<Rightarrow> int \<Rightarrow> (program_t \<Rightarrow> bool) \<Rightarrow> bool" where
  "entry j k P \<longleftrightarrow> (\<exists>n i. joker_en50221_opaque j = Some n \<and> i < length (programs n)
     \<and> number (programs n ! i) = k \<and> P (programs n ! i))"

lemma add_or_find_present:
  assumes "progs.keys_ok ps" and "i < length ps" and "number (ps ! i) = k"
  shows "program_add_or_find k ps = (i, ps)"
  using progs.insert_old [OF find_key_unique [of number ps i, unfolded assms(3)]] assms(1,2)
  by (simp add: progs.keys_ok_def)

lemma set_jen_same: "joker_en50221_opaque j = Some n \<Longrightarrow> set_jen (\<lambda>n'. n'\<lparr>programs := programs n\<rparr>) j = j"
  by (simp add: set_jen_def)

lemma entry_sync:
  assumes "entry j k P" and "\<And>p. P p \<Longrightarrow> P (p\<lparr>ci_status := CI_CAM_SENT\<rparr>)"
  shows "entry (snd (joker_en50221_sync_cam lib dev j)) k P"
proof -
  obtain n i where n: "joker_en50221_opaque j = Some n" "i < length (programs n)"
    "number (programs n ! i) = k" "P (programs n ! i)" using assms(1) by (auto simp: entry_def)
  show ?thesis
  proof (cases "ca_connected n")
    case True
    from sync_cam_state [OF n(1) True, of lib dev] obtain ps where ps: "list_all2 sent_upd (programs n) ps"
      "joker_en50221_opaque (snd (joker_en50221_sync_cam lib dev j)) = Some (n\<lparr>programs := ps\<rparr>)" by blast
    have "sent_upd (programs n ! i) (ps ! i)" "i < length ps"
      using ps(1) n(2) list_all2_nthD list_all2_lengthD by (fastforce, fastforce)
    then show ?thesis using n assms(2) ps(2) by (auto simp: entry_def sent_upd_def)
  qed (use assms(1) n(1) in \<open>simp add: joker_en50221_sync_cam_def\<close>)
qed

text \<open>A program whose list entry is up to date is left alone by an update.\<close>

lemma pmt_current:
  assumes "cam_inv j" and "pmt_codec lib sec = Some (Some (v, c, sec'))"
    and "entry j k (\<lambda>p. i_version p = v \<and> b_current_next p = c)"
  shows "joker_en50221_pmt_update lib dev k sec j = Some (0, j)"
proof -
  obtain n i where n: "joker_en50221_opaque j = Some n" "i < length (programs n)" "number (programs n ! i) = k"
    "i_version (programs n ! i) = v" "b_current_next (programs n ! i) = c"
    using assms(3) by (auto simp: entry_def)
  have "progs.keys_ok (programs n)" using assms(1) by (simp add: cam_inv_some [OF n(1)])
  from add_or_find_present [OF this n(2,3)] n have a: "program_add_or_find k (programs n) = (i, programs n)" by simp
  have i: "snd (joker_ci_en50221_init j) = j" using n(1) by (simp add: joker_ci_en50221_init_def)
  have "joker_en50221_opaque (snd (joker_ci_en50221_init j)) = Some n" using n(1) i by simp
  from pmt_update_cases [OF assms(2) this a refl refl refl, of dev] n(4,5) show ?thesis
    by (simp add: i set_jen_same [OF n(1)])
qed

lemma pmt_update_entry:
  assumes "joker_en50221_pmt_update lib dev k sec j = Some (r, j')" and "pmt_codec lib sec = Some (Some (v, c, sec'))"
  shows "entry j' k (\<lambda>p. i_version p = v \<and> b_current_next p = c)"
proof -
  define j0 where "j0 = snd (joker_ci_en50221_init j)"
  obtain n where n: "joker_en50221_opaque j0 = Some n" using init_some j0_def by metis
  obtain i ps where a: "program_add_or_find k (programs n) = (i, ps)" by fastforce
  have i: "i < length ps" "number (ps ! i) = k" using progs.insert_valid [OF a] by auto
  define j1 where "j1 = set_jen (\<lambda>n. n\<lparr>programs := ps[i := pmt_entry v c sec' (ps ! i)]\<rparr>) j0"
  define s where "s = send_ca_pmt lib (ca_session_number n) CA_LIST_MANAGEMENT_UPDATE CA_PMT_CMD_ID_OK_DESCRAMBLING sec' j1"
  let ?P = "\<lambda>p. i_version p = v \<and> b_current_next p = c"
  have e1: "entry j1 k ?P" using n i by (auto simp: entry_def j1_def set_jen_def)
  moreover have "entry (snd s) k ?P"
  proof -
    obtain cs where "snd s = j1\<lparr>en_log := en_log j1 @ cs\<rparr>" unfolding s_def using send_ca_pmt_log by blast
    then show ?thesis using e1 by (simp add: entry_def)
  qed
  moreover have "entry (snd (joker_en50221_sync_cam lib dev j1)) k ?P" by (rule entry_sync [OF e1]) simp
  moreover have "entry (set_jen (\<lambda>n. n\<lparr>programs := ps\<rparr>) j0) k ?P"
    if "i_version (ps ! i) = v" "b_current_next (ps ! i) = c"
    using that n i by (auto simp: entry_def set_jen_def)
  ultimately show ?thesis
    using assms(1) unfolding pmt_update_cases [OF assms(2) n [unfolded j0_def] a j0_def j1_def s_def] by (auto split: if_splits)
qed

section \<open>Properties\<close>

text \<open>A library and handles for the witnesses.\<close>

definition ok_lib :: en_lib where
  "ok_lib = \<lparr>call_res = (\<lambda>_. 0), format_pmt = (\<lambda>sec lm cmd. if sec = [] then None else Some ([lm, cmd] @ sec)),
     pmt_codec = (\<lambda>sec. Some (if sec = [] then None else Some (hd sec, True, sec)))\<rparr>"

definition en_joker :: "joker_en50221_t option \<Rightarrow> unit joker_en_h" where
  "en_joker n = \<lparr>dev_st = (), usb_log = [], libusb_opaque = True, io_mux_opaq = True, i2c_opaque = True, reset = 0,
     joker_ci_opaque = Some (zero_ci False), ci_threading = True, shutdown_thread = False,
     ci_verbose_opt = False, cam_pcap_filename = False, cam_pcap_fd = None, wall_clock = (0, 0),
     joker_en50221_opaque = n, ci_ts_enable = 1, cam_query_send = False, en_log = []\<rparr>"

definition wanted :: "int \<Rightarrow> byte list \<Rightarrow> program_t" where
  "wanted k sec = (new_program k)\<lparr>pmt := Some sec, ci_status := CI_INIT\<rparr>"

lemma wanted_simps [simp]:
  "number (wanted k sec) = k" "pmt (wanted k sec) = Some sec" "ci_status (wanted k sec) = CI_INIT" "to_send (wanted k sec)"
  by (simp_all add: wanted_def to_send_def)

lemma en_joker_simps [simp]:
  "joker_en50221_opaque (en_joker n) = n" "cam_query_send (en_joker n) = False" "en_log (en_joker n) = []"
  "joker_ci_opaque (en_joker n) = Some (zero_ci False)"
  by (simp_all add: en_joker_def)

lemmas ok_lib_simps [simp] = ok_lib_def [THEN arg_cong, of call_res, simplified]
  ok_lib_def [THEN arg_cong, of format_pmt, simplified] ok_lib_def [THEN arg_cong, of pmt_codec, simplified]



text \<open>sync_cam_open: if one of two or more wanted programs has a PMT that cannot be formatted, the
  list is never closed: no CA PMT with the code "last" is sent, because the position counts only
  the programs that were sent.\<close>

theorem sync_cam_open:
  assumes "joker_en50221_opaque j = Some n" and "ca_connected n"
    and "2 \<le> length (filter to_send (programs n))" and "\<exists>p\<in>set (programs n). unformattable lib p"
  shows "\<exists>cs. en_log (snd (joker_en50221_sync_cam lib dev j)) = en_log j @ cs \<and> list_all (\<lambda>c. \<not> is_last c) cs"
proof -
  define m where "m = length (filter to_send (programs n))"
  obtain ps j1 where l: "sync_send_loop lib (ca_session_number n) m 0 (programs n) j = (ps, j1)" by fastforce
  from sync_send_loop_open [of 0 "programs n" m lib "ca_session_number n" j] assms(3,4) l
  obtain c1 where c1: "j1 = j\<lparr>en_log := en_log j @ c1\<rparr>" "list_all (\<lambda>c. \<not> is_last c) c1"
    by (auto simp: m_def)
  from sync_cam_unfold [OF assms(1,2) l [unfolded m_def], of dev] obtain c2 where c2:
    "list_all (\<lambda>c. \<exists>x. c = ca_pmt (ca_session_number n) CA_LIST_MANAGEMENT_ONLY CA_PMT_CMD_ID_QUERY x) c2"
    "en_log (snd (joker_en50221_sync_cam lib dev j)) = en_log j @ c1 @ c2" using c1(1) by auto
  have "list_all (\<lambda>c. \<not> is_last c) c2" using c2(1) by (rule list.pred_mono_strong) (auto simp: is_last_def)
  with c1(2) c2(2) show ?thesis by auto
qed

theorem sync_cam_open_witness:
  "\<exists>cs. en_log (snd (joker_en50221_sync_cam ok_lib quiet_dev
      (en_joker (Some (zero_jen\<lparr>ca_connected := True, programs := [wanted 1 [7], wanted 2 []]\<rparr>))))) = cs
    \<and> list_all (\<lambda>c. \<not> is_last c) cs"
  using sync_cam_open [of "en_joker (Some (zero_jen\<lparr>ca_connected := True, programs := [wanted 1 [7], wanted 2 []]\<rparr>))"
      "zero_jen\<lparr>ca_connected := True, programs := [wanted 1 [7], wanted 2 []]\<rparr>" ok_lib quiet_dev]
  by (simp add: unformattable_def)

text \<open>C7 (cam_reachable): in every state that any interleaving of API calls, stack callbacks and rounds
  of the stack thread reaches from a fresh handle, the program numbers are distinct, every program
  marked as sent has a PMT and was sent after the module's CA resource answered, and before that
  answer no CA PMT has gone out.\<close>

theorem cam_reachable:
  assumes "(en_step lib dev)\<^sup>*\<^sup>* j0 j" and "joker_en50221_opaque j0 = None" and "en_log j0 = []"
  shows "cam_inv j"
  by (rule cam.reach_inv [OF assms(1)]) (simp add: cam_inv_def assms(2,3))

theorem cam_reachable_witness:
  "\<exists>r j. joker_en50221_pmt_update ok_lib quiet_dev 5 [1, 2] (snd (joker_en50221_descramble_add 5 (en_joker None))) = Some (r, j)
     \<and> cam_inv j"
proof -
  obtain r j where p: "joker_en50221_pmt_update ok_lib quiet_dev 5 [1, 2] (snd (joker_en50221_descramble_add 5 (en_joker None))) = Some (r, j)"
    by (rule pmt_update_total [of ok_lib]) simp
  have "(en_step ok_lib quiet_dev)\<^sup>*\<^sup>* (en_joker None) j"
    by (rule rtranclp.rtrancl_into_rtrancl [OF r_into_rtranclp [of "en_step ok_lib quiet_dev", OF st_add] st_pmt [OF p]])
  from cam_reachable [OF this] p show ?thesis by simp
qed

text \<open>pmt_update_once: a second update with the same PMT does nothing, and returns 0: nothing is sent
  again, also when the first update could not be sent to the module.\<close>

theorem pmt_update_once:
  assumes "joker_en50221_pmt_update lib dev num sec j = Some (r, j')" and "cam_inv j" and "pmt_codec lib sec \<noteq> Some None"
  shows "joker_en50221_pmt_update lib dev num sec j' = Some (0, j')"
proof -
  from assms(1) obtain v c sec' where w: "pmt_codec lib sec = Some (Some (v, c, sec'))"
    using assms(3) by (cases rule: pmt_update_some) auto
  show ?thesis by (rule pmt_current [OF cam_inv_pmt_update [OF assms(1,2)] w pmt_update_entry [OF assms(1) w]])
qed

theorem pmt_update_once_witness:
  "\<exists>r j. joker_en50221_pmt_update ok_lib quiet_dev 5 [1] (en_joker None) = Some (r, j)
     \<and> joker_en50221_pmt_update ok_lib quiet_dev 5 [1] j = Some (0, j)"
proof -
  obtain r j where p: "joker_en50221_pmt_update ok_lib quiet_dev 5 [1] (en_joker None) = Some (r, j)"
    by (rule pmt_update_total [of ok_lib]) simp
  have "cam_inv (en_joker None)" by (simp add: cam_inv_def)
  from pmt_update_once [OF p this] p show ?thesis by simp
qed

text \<open>The way of a program to the module.\<close>

lemma sync_cam_accepted:
  assumes "joker_en50221_opaque j = Some n" and "ca_connected n" and "cam_accepts lib (programs n)"
  shows "(\<exists>cq. en_log (snd (joker_en50221_sync_cam lib dev j)) = en_log j
      @ sync_calls lib (ca_session_number n) (list_codes (length (filter to_send (programs n)))) (programs n) @ cq)
    \<and> joker_en50221_opaque (snd (joker_en50221_sync_cam lib dev j)) = Some (n\<lparr>programs := map mark_sent (programs n)\<rparr>)"
proof -
  have "sync_send_loop lib (ca_session_number n) (length (filter to_send (programs n))) 0 (programs n) j
      = (map mark_sent (programs n), j\<lparr>en_log := en_log j @
          sync_calls lib (ca_session_number n) (list_codes (length (filter to_send (programs n)))) (programs n)\<rparr>)"
    using sync_send_loop_accepted [OF assms(3), of "ca_session_number n" _ 0 j] list_codes_eq by simp
  from sync_cam_unfold [OF assms(1,2) this, of dev] assms(1) show ?thesis by auto
qed

lemma length_list_codes [simp]: "length (list_codes n) = n"
  by (auto simp: list_codes_def)

lemma sync_calls_mem:
  assumes "p \<in> set ps" and "to_send p"
  shows "\<exists>lm. ca_pmt sess lm CA_PMT_CMD_ID_OK_DESCRAMBLING
      (the (format_pmt lib (the (pmt p)) lm CA_PMT_CMD_ID_OK_DESCRAMBLING))
    \<in> set (sync_calls lib sess (list_codes (length (filter to_send ps))) ps)"
proof -
  have "p \<in> set (filter to_send ps)" using assms by simp
  then obtain lm where "(lm, p) \<in> set (zip (list_codes (length (filter to_send ps))) (filter to_send ps))"
    by (metis in_set_impl_in_set_zip2 length_list_codes)
  then show ?thesis unfolding sync_calls_def by (intro exI [of _ lm]) (force simp: image_iff)
qed

definition ready_to_send :: "byte list \<Rightarrow> program_t \<Rightarrow> bool" where
  "ready_to_send sec p \<longleftrightarrow> ci_status p \<noteq> CI_NONE \<and> pmt p = Some sec"

lemma add_then_pmt_ready:
  assumes "cam_inv j" and "pmt_codec lib sec = Some (Some (v, c, sec'))" and "v \<noteq> 0 \<or> c"
    and "\<And>n. joker_en50221_opaque j = Some n \<Longrightarrow> num \<notin> number ` set (programs n)"
  shows "\<exists>k. joker_en50221_pmt_update lib dev num sec (snd (joker_en50221_descramble_add num j)) = Some (0, k)
    \<and> entry k num (ready_to_send sec')"
proof -
  define j0 where "j0 = snd (joker_ci_en50221_init j)"
  obtain n where n: "joker_en50221_opaque j0 = Some n" using init_some j0_def by metis
  have fresh: "num \<notin> number ` set (programs n)"
    using assms(4) n by (cases "joker_en50221_opaque j") (auto simp: j0_def joker_ci_en50221_init_def zero_jen_def)
  let ?p = "(new_program num)\<lparr>ci_status := CI_INIT\<rparr>"
  let ?i = "length (programs n)" and ?ps = "programs n @ [?p]"
  define j1 where "j1 = snd (joker_en50221_descramble_add num j)"
  have "program_add_or_find num (programs n) = (?i, programs n @ [new_program num])"
    using fresh find_key_None_iff [of number num "programs n"] by (simp add: program_add_or_find_def add_key_def)
  then have j1: "joker_en50221_opaque j1 = Some (n\<lparr>programs := ?ps\<rparr>)"
    using n by (simp add: j1_def joker_en50221_descramble_add_def case_prod_beta j0_def [symmetric] set_jen_def
        upd_nth_def)
  then have i1: "snd (joker_ci_en50221_init j1) = j1" by (simp add: joker_ci_en50221_init_def)
  have "progs.keys_ok ?ps" using cam_inv_add [OF assms(1), of num] j1 by (simp add: j1_def [symmetric] cam_inv_some)
  then have a: "program_add_or_find num (programs (n\<lparr>programs := ?ps\<rparr>)) = (?i, ?ps)"
    by (simp add: add_or_find_present)
  define j2 where "j2 = set_jen (\<lambda>n. n\<lparr>programs := ?ps[?i := pmt_entry v c sec' (?ps ! ?i)]\<rparr>) j1"
  have e2: "entry j2 num (ready_to_send sec')"
    using j1 by (auto simp: entry_def j2_def set_jen_def ready_to_send_def)
  have "joker_en50221_opaque (snd (joker_ci_en50221_init j1)) = Some (n\<lparr>programs := ?ps\<rparr>)" using i1 j1 by simp
  from pmt_update_cases [OF assms(2) this a i1 [symmetric] j2_def refl, of dev] assms(3)
  have "joker_en50221_pmt_update lib dev num sec j1 = Some (0, snd (joker_en50221_sync_cam lib dev j2))" by simp
  moreover have "entry (snd (joker_en50221_sync_cam lib dev j2)) num (ready_to_send sec')"
    by (rule entry_sync [OF e2]) (simp add: ready_to_send_def)
  ultimately show ?thesis by (simp add: j1_def)
qed

text \<open>A program that can be formatted is sent, whatever becomes of the others.\<close>

lemma sync_send_loop_sends:
  assumes "\<And>h. call_res lib h = 0" and "k < length ps" and "to_send (ps ! k)"
    and "\<And>lm. format_pmt lib (the (pmt (ps ! k))) lm CA_PMT_CMD_ID_OK_DESCRAMBLING = Some (x lm)"
  shows "fst (sync_send_loop lib sess count i ps j) ! k = mark_sent (ps ! k)
    \<and> (\<exists>cs lm. snd (sync_send_loop lib sess count i ps j) = j\<lparr>en_log := en_log j @ cs\<rparr>
         \<and> ca_pmt sess lm CA_PMT_CMD_ID_OK_DESCRAMBLING (x lm) \<in> set cs)"
  using assms(2-4)
proof (induction ps arbitrary: i j k)
  case (Cons p ps)
  show ?case
  proof (cases k)
    case 0
    let ?lm = "sync_listmgmt count i"
    have s: "send_ca_pmt lib sess ?lm CA_PMT_CMD_ID_OK_DESCRAMBLING (the (pmt p)) j
        = (True, j\<lparr>en_log := en_log j @ [ca_pmt sess ?lm CA_PMT_CMD_ID_OK_DESCRAMBLING (x ?lm)]\<rparr>)"
      using Cons.prems(3) 0 assms(1) by (simp add: send_ca_pmt_eq)
    obtain cs where cs: "snd (sync_send_loop lib sess count (i + 1) ps (snd (True, j\<lparr>en_log := en_log j @ [ca_pmt sess ?lm CA_PMT_CMD_ID_OK_DESCRAMBLING (x ?lm)]\<rparr>)))
        = j\<lparr>en_log := en_log j @ [ca_pmt sess ?lm CA_PMT_CMD_ID_OK_DESCRAMBLING (x ?lm)] @ cs\<rparr>"
      using sync_send_loop_log [of lib sess count "i + 1" ps "j\<lparr>en_log := en_log j @ [ca_pmt sess ?lm CA_PMT_CMD_ID_OK_DESCRAMBLING (x ?lm)]\<rparr>"]
      by auto
    have "to_send p" using Cons.prems(2) 0 by simp
    then show ?thesis using cs
      by (auto simp: 0 s case_prod_beta mark_sent_def intro!: exI [of _ "[ca_pmt sess ?lm CA_PMT_CMD_ID_OK_DESCRAMBLING (x ?lm)] @ cs"])
  next
    case (Suc k')
    have prems: "k' < length ps" "to_send (ps ! k')"
      "\<And>lm. format_pmt lib (the (pmt (ps ! k'))) lm CA_PMT_CMD_ID_OK_DESCRAMBLING = Some (x lm)"
      using Cons.prems by (simp_all add: Suc)
    obtain b j1 where s: "send_ca_pmt lib sess (sync_listmgmt count i) CA_PMT_CMD_ID_OK_DESCRAMBLING (the (pmt p)) j = (b, j1)"
      by fastforce
    obtain c1 where c1: "j1 = j\<lparr>en_log := en_log j @ c1\<rparr>"
      using send_ca_pmt_log [of lib sess "sync_listmgmt count i" CA_PMT_CMD_ID_OK_DESCRAMBLING "the (pmt p)" j] s by auto
    have r: "fst (sync_send_loop lib sess count (if b then i + 1 else i) ps j1) ! k' = mark_sent (ps ! k')
      \<and> (\<exists>cs lm. snd (sync_send_loop lib sess count (if b then i + 1 else i) ps j1) = j1\<lparr>en_log := en_log j1 @ cs\<rparr>
         \<and> ca_pmt sess lm CA_PMT_CMD_ID_OK_DESCRAMBLING (x lm) \<in> set cs)"
      by (rule Cons.IH [OF prems])
    then obtain cs lm where cs: "snd (sync_send_loop lib sess count (if b then i + 1 else i) ps j1) = j\<lparr>en_log := en_log j @ c1 @ cs\<rparr>"
      "ca_pmt sess lm CA_PMT_CMD_ID_OK_DESCRAMBLING (x lm) \<in> set (c1 @ cs)"
      by (auto simp: c1)
    show ?thesis
    proof (cases "to_send p")
      case True
      have "snd (sync_send_loop lib sess count i (p # ps) j) = snd (sync_send_loop lib sess count (if b then i + 1 else i) ps j1)"
        using True s by (simp add: case_prod_beta)
      moreover have "fst (sync_send_loop lib sess count i (p # ps) j) ! Suc k' = fst (sync_send_loop lib sess count (if b then i + 1 else i) ps j1) ! k'"
        using True s by (simp add: case_prod_beta)
      ultimately show ?thesis using r cs unfolding Suc by (metis nth_Cons_Suc)
    next
      case False
      have "fst (sync_send_loop lib sess count i ps j) ! k' = mark_sent (ps ! k')
        \<and> (\<exists>cs lm. snd (sync_send_loop lib sess count i ps j) = j\<lparr>en_log := en_log j @ cs\<rparr>
           \<and> ca_pmt sess lm CA_PMT_CMD_ID_OK_DESCRAMBLING (x lm) \<in> set cs)"
        by (rule Cons.IH [OF prems])
      then show ?thesis using False by (simp add: Suc case_prod_beta)
    qed
  qed
qed simp

lemma sync_cam_sends:
  assumes "joker_en50221_opaque j = Some n" and "ca_connected n" and "\<And>h. call_res lib h = 0"
    and "i < length (programs n)" and "to_send (programs n ! i)"
    and "\<And>lm. format_pmt lib (the (pmt (programs n ! i))) lm CA_PMT_CMD_ID_OK_DESCRAMBLING = Some (x lm)"
  shows "entry (snd (joker_en50221_sync_cam lib dev j)) (number (programs n ! i)) (\<lambda>q. q = mark_sent (programs n ! i))
    \<and> (\<exists>cs sess lm. en_log (snd (joker_en50221_sync_cam lib dev j)) = en_log j @ cs
         \<and> ca_pmt sess lm CA_PMT_CMD_ID_OK_DESCRAMBLING (x lm) \<in> set cs)"
proof -
  let ?c = "length (filter to_send (programs n))"
  obtain ps j1 where l: "sync_send_loop lib (ca_session_number n) ?c 0 (programs n) j = (ps, j1)" by fastforce
  note snt = sync_send_loop_sends [OF assms(3) assms(4,5,6), of "ca_session_number n" ?c 0 j, unfolded l]
  then obtain cs lm where cs: "ps ! i = mark_sent (programs n ! i)" "j1 = j\<lparr>en_log := en_log j @ cs\<rparr>"
    "ca_pmt (ca_session_number n) lm CA_PMT_CMD_ID_OK_DESCRAMBLING (x lm) \<in> set cs" by auto
  obtain cq where cq: "joker_en50221_opaque (snd (joker_en50221_sync_cam lib dev j)) = map_option (\<lambda>n. n\<lparr>programs := ps\<rparr>) (joker_en50221_opaque j1)"
    "en_log (snd (joker_en50221_sync_cam lib dev j)) = en_log j1 @ cq"
    using sync_cam_unfold [OF assms(1,2) l, of dev] by blast
  have len: "length ps = length (programs n)"
    using sync_send_loop_programs [of "programs n" lib "ca_session_number n" ?c 0 j, unfolded l] by (simp add: list_all2_lengthD)
  have "number (mark_sent p) = number p" for p by (simp add: mark_sent_def)
  then have "entry (snd (joker_en50221_sync_cam lib dev j)) (number (programs n ! i)) (\<lambda>q. q = mark_sent (programs n ! i))"
    unfolding entry_def
    by (intro exI [of _ "n\<lparr>programs := ps\<rparr>"] exI [of _ i]) (use cq(1) cs(1,2) len assms(1,4) in simp)
  moreover have "en_log (snd (joker_en50221_sync_cam lib dev j)) = en_log j @ cs @ cq"
    using cq(2) by (simp add: cs(2))
  ultimately show ?thesis using cs(3) by (metis UnCI set_append)
qed

lemma entry_mono: "entry j k P \<Longrightarrow> (\<And>p. P p \<Longrightarrow> Q p) \<Longrightarrow> entry j k Q"
  unfolding entry_def by blast

lemma ca_info_sends:
  assumes "entry j num (ready_to_send sec)" and "joker_ci_opaque j \<noteq> None" and "length ids + 1 < CAID_MAX_COUNT"
    and "\<And>h. call_res lib h = 0" and "\<And>lm. format_pmt lib sec lm CA_PMT_CMD_ID_OK_DESCRAMBLING = Some (x lm)"
  shows "\<exists>j' cs. test_ca_info_callback lib dev (\<lambda>h. h) ids j = Some (0, j')
    \<and> entry j' num (\<lambda>p. ci_status p = CI_CAM_SENT \<and> pmt p = Some sec) \<and> en_log j' = en_log j @ cs
    \<and> (\<exists>sess lm. ca_pmt sess lm CA_PMT_CMD_ID_OK_DESCRAMBLING (x lm) \<in> set cs)"
proof -
  obtain n i where n: "joker_en50221_opaque j = Some n" "i < length (programs n)" "number (programs n ! i) = num"
    "ready_to_send sec (programs n ! i)" using assms(1) by (auto simp: entry_def)
  let ?n = "n\<lparr>ca_connected := True\<rparr>"
  let ?j = "set_jen (\<lambda>n. n\<lparr>ca_connected := True\<rparr>) (set_ci (\<lambda>ci. ci\<lparr>ca_ids := (put_bytes (ca_ids ci) 0 ids)[length ids + 1 := 0]\<rparr>) j)"
  have j: "joker_en50221_opaque ?j = Some ?n" "en_log ?j = en_log j" using n(1) by (simp_all add: set_jen_def set_ci_def)
  have snt: "to_send (programs n ! i)" "pmt (programs n ! i) = Some sec"
    using n(4) by (auto simp: ready_to_send_def to_send_def)
  have f: "format_pmt lib (the (pmt (programs n ! i))) lm CA_PMT_CMD_ID_OK_DESCRAMBLING = Some (x lm)" for lm
    using assms(5) snt(2) by simp
  have s: "entry (snd (joker_en50221_sync_cam lib dev ?j)) num (\<lambda>q. q = mark_sent (programs n ! i))"
    "\<exists>cs sess lm. en_log (snd (joker_en50221_sync_cam lib dev ?j)) = en_log j @ cs \<and> ca_pmt sess lm CA_PMT_CMD_ID_OK_DESCRAMBLING (x lm) \<in> set cs"
    using sync_cam_sends [OF j(1) _ assms(4), of i x dev] n(2,3) snt(1) f j(2) by simp_all
  have e: "entry (snd (joker_en50221_sync_cam lib dev ?j)) num (\<lambda>p. ci_status p = CI_CAM_SENT \<and> pmt p = Some sec)"
    by (rule entry_mono [OF s(1)]) (use snt in \<open>simp add: mark_sent_def\<close>)
  have r: "test_ca_info_callback lib dev (\<lambda>h. h) ids j = Some (0, snd (joker_en50221_sync_cam lib dev ?j))"
    using assms(2,3) n(1) by (simp add: test_ca_info_callback_def case_prod_beta Let_def)
  from s(2) obtain cs where "en_log (snd (joker_en50221_sync_cam lib dev ?j)) = en_log j @ cs
    \<and> (\<exists>sess lm. ca_pmt sess lm CA_PMT_CMD_ID_OK_DESCRAMBLING (x lm) \<in> set cs)" by blast
  with r e show ?thesis by blast
qed

lemma sync_cam_ci: "joker_ci_opaque (snd (joker_en50221_sync_cam lib dev j)) = joker_ci_opaque j"
proof -
  have l: "joker_ci_opaque (snd (sync_send_loop lib s c i ps h)) = joker_ci_opaque h" for s c i ps and h :: "('a, 'b) joker_en_h_scheme"
    using sync_send_loop_log [of lib s c i ps h] by auto
  have q: "joker_ci_opaque (sync_query_loop lib s ps h) = joker_ci_opaque h" for s ps and h :: "('a, 'b) joker_en_h_scheme"
    using sync_query_loop_log [of lib s ps h] by auto
  show ?thesis
    by (simp add: joker_en50221_sync_cam_def case_prod_beta Let_def frame_simps l q set_jen_def split: option.split)
qed

lemma add_ci: "joker_ci_opaque (snd (joker_en50221_descramble_add num j)) = joker_ci_opaque j"
  by (simp add: joker_en50221_descramble_add_def joker_ci_en50221_init_def case_prod_beta set_jen_def)

lemma pmt_ci:
  "joker_en50221_pmt_update lib dev num sec j = Some (r, j') \<Longrightarrow> joker_ci_opaque j' = joker_ci_opaque j"
  by (auto simp: joker_ci_en50221_init_def joker_en50221_pmt_update_def pmt_update_parsed_def
      case_prod_beta Let_def set_jen_def sync_cam_ci send_ca_pmt_eq split: option.splits if_splits)

lemma descramble_sends:
  assumes "cam_inv j" and "joker_ci_opaque j \<noteq> None" and "pmt_codec lib sec = Some (Some (v, c, sec'))" and "v \<noteq> 0 \<or> c"
    and "\<And>n. joker_en50221_opaque j = Some n \<Longrightarrow> num \<notin> number ` set (programs n)"
    and "\<And>h. call_res lib h = 0" and "\<And>lm. format_pmt lib sec' lm CA_PMT_CMD_ID_OK_DESCRAMBLING = Some (x lm)"
    and "length ids < 127"
  shows "\<exists>k j' cs. joker_en50221_pmt_update lib dev num sec (snd (joker_en50221_descramble_add num j)) = Some (0, k)
    \<and> test_ca_info_callback lib dev (\<lambda>h. h) ids k = Some (0, j')
    \<and> entry j' num (\<lambda>p. ci_status p = CI_CAM_SENT \<and> pmt p = Some sec') \<and> en_log j' = en_log k @ cs
    \<and> (\<exists>sess lm. ca_pmt sess lm CA_PMT_CMD_ID_OK_DESCRAMBLING (x lm) \<in> set cs)"
proof -
  from add_then_pmt_ready [OF assms(1,3-5), of dev] obtain k where k: "entry k num (ready_to_send sec')"
    "joker_en50221_pmt_update lib dev num sec (snd (joker_en50221_descramble_add num j)) = Some (0, k)" by blast
  have "joker_ci_opaque k \<noteq> None" using pmt_ci [OF k(2)] assms(2) by (simp add: add_ci)
  then have "\<exists>j' cs. test_ca_info_callback lib dev (\<lambda>h. h) ids k = Some (0, j')
    \<and> entry j' num (\<lambda>p. ci_status p = CI_CAM_SENT \<and> pmt p = Some sec') \<and> en_log j' = en_log k @ cs
    \<and> (\<exists>sess lm. ca_pmt sess lm CA_PMT_CMD_ID_OK_DESCRAMBLING (x lm) \<in> set cs)"
    by (rule ca_info_sends [OF k(1) _ _ assms(6,7)]) (use assms(8) in simp)
  with k(2) show ?thesis by blast
qed

end
