(* ===== verification/EnProps.thy ===== *)
theory EnProps
  imports CamSync
begin

text \<open>
  What the rest of \<open>src/joker_en50221.c\<close> and the command server promise: the resource lookup, the
  link layer, the CA ids and the menu string kept for the user, the answers to menus, and the rate
  of the date and time messages.
\<close>

section \<open>Resource lookup\<close>

text \<open>Class and type together are the bits of the resource id above the 6-bit version.\<close>

lemma class_type_eq:
  "ucast (drop_bit 16 a AND 0xffff) = (ucast (drop_bit 16 b AND 0xffff) :: u16)
     \<and> ucast (drop_bit 6 a AND 0x3ff) = (ucast (drop_bit 6 b AND 0x3ff) :: u16)
   \<longleftrightarrow> drop_bit 6 a = drop_bit 6 b" for a b :: u32
proof
  assume eq: "ucast (drop_bit 16 a AND 0xffff) = (ucast (drop_bit 16 b AND 0xffff) :: u16)
     \<and> ucast (drop_bit 6 a AND 0x3ff) = (ucast (drop_bit 6 b AND 0x3ff) :: u16)"
  have m: "(0xffff :: u32) = mask 16" "(0x3ff :: u32) = mask 10" by (simp_all add: mask_eq_exp_minus_1)
  show "drop_bit 6 a = drop_bit 6 b"
  proof (rule bit_word_eqI)
    fix n :: nat assume "n < LENGTH(32)"
    show "bit (drop_bit 6 a) n = bit (drop_bit 6 b) n"
    proof (cases "n < 10")
      case True
      have "bit (ucast (drop_bit 6 a AND 0x3ff) :: u16) n = bit (ucast (drop_bit 6 b AND 0x3ff) :: u16) n"
        using eq by simp
      then show ?thesis using True unfolding m by (auto simp: bit_simps)
    next
      case False
      have "bit (ucast (drop_bit 16 a AND 0xffff) :: u16) (n - 10) = bit (ucast (drop_bit 16 b AND 0xffff) :: u16) (n - 10)"
        using eq by simp
      moreover have "16 + (n - 10) = 6 + n" using False by simp
      ultimately show ?thesis using False \<open>n < LENGTH(32)\<close> unfolding m
        by (cases "n < 26") (auto simp: bit_simps dest: bit_imp_le_length)
    qed
  qed
next
  assume e: "drop_bit 6 a = drop_bit 6 b"
  have "drop_bit 16 x = drop_bit 10 (drop_bit 6 x)" for x :: u32 by (simp add: drop_bit_drop_bit)
  with e show "ucast (drop_bit 16 a AND 0xffff) = (ucast (drop_bit 16 b AND 0xffff) :: u16)
     \<and> ucast (drop_bit 6 a AND 0x3ff) = (ucast (drop_bit 6 b AND 0x3ff) :: u16)" by metis
qed

lemma decode_match:
  assumes "decode_resource_id a = Some x" and "decode_resource_id b = Some y"
  shows "resource_class x = resource_class y \<and> resource_type x = resource_type y \<longleftrightarrow> drop_bit 6 a = drop_bit 6 b"
  using assms class_type_eq [of a b] by (auto simp: decode_resource_id_def split: if_splits)

lemma decode_private:
  "decode_resource_id a = None \<Longrightarrow> decode_resource_id b = Some y \<Longrightarrow> drop_bit 6 a \<noteq> drop_bit 6 b"
proof
  assume a: "decode_resource_id a = None" and b: "decode_resource_id b = Some y" and e: "drop_bit 6 a = drop_bit 6 b"
  have "x AND 0xc0000000 = push_bit 6 (drop_bit 6 x) AND 0xc0000000" for x :: u32
  proof -
    have c: "(0xc0000000 :: u32) = push_bit 30 (mask 2)" by (simp add: mask_eq_exp_minus_1)
    show ?thesis unfolding c by (rule bit_word_eqI) (auto simp: bit_simps)
  qed
  with e have "a AND 0xc0000000 = b AND 0xc0000000" by metis
  with a b show False by (auto simp: decode_resource_id_def split: if_splits)
qed

text \<open>The resources of the start, as the table the lookup searches.\<close>

fun all_public :: "(u32 \<times> en_handler) list \<Rightarrow> bool" where
  "all_public [] = True"
| "all_public ((b, h) # rs) = (decode_resource_id b \<noteq> None \<and> all_public rs)"

lemma add_resources_list:
  assumes "all_public rs" and "length (resources n) + length rs \<le> 20"
  shows "\<exists>n'. add_resources rs n = Some n'
    \<and> resources n' = resources n @ map (\<lambda>(b, h). \<lparr>resid = the (decode_resource_id b), binary_resource_id = b, callback = h\<rparr>) rs"
  using assms
proof (induction rs arbitrary: n)
  case (Cons r rs)
  obtain b h where r: "r = (b, h)" by fastforce
  from Cons.prems r obtain rid where rid: "decode_resource_id b = Some rid" by auto
  let ?n = "n\<lparr>resources := resources n @ [\<lparr>resid = rid, binary_resource_id = b, callback = h\<rparr>]\<rparr>"
  have "add_resource r n = Some ?n" using Cons.prems(2) by (simp add: add_resource_def r rid)
  with Cons.IH [of ?n] Cons.prems r rid show ?case by auto
qed simp

lemma lookup_loop_find:
  assumes "decode_resource_id q = Some rid" and "all_public rs"
  shows "lookup_loop rid (map (\<lambda>(b, h). \<lparr>resid = the (decode_resource_id b), binary_resource_id = b, callback = h\<rparr>) rs)
    = map_option (\<lambda>(b, h). (h, b)) (find (\<lambda>(b, h). drop_bit 6 q = drop_bit 6 b) rs)"
  using assms(2)
proof (induction rs)
  case (Cons r rs)
  obtain b h where r: "r = (b, h)" by fastforce
  with Cons.prems obtain y where "decode_resource_id b = Some y" by auto
  with Cons decode_match [OF assms(1) this] r show ?case by auto
qed simp

lemma host_resources_public: "all_public host_resources"
  by (simp add: host_resources_def MKRID_def decode_resource_id_def)

text \<open>lookup_host_resource: after the first start, \<open>test_lookup_callback\<close> finds exactly the five
  resources the host offers: a request is connected to the one that agrees with it in class and
  type, whatever its version; every other request, a private one too, is refused.\<close>

theorem lookup_host_resource:
  assumes "joker_ci_en50221_start True slot True j = Some (0, j')" and "0 \<le> slot"
    and "joker_en50221_opaque j = Some n" and "resources n = []"
  shows "test_lookup_callback j' requested =
    (case find (\<lambda>(b, h). drop_bit 6 requested = drop_bit 6 b) host_resources of
       Some (b, h) \<Rightarrow> (0, Some (h, b)) | None \<Rightarrow> (- 1, None))"
proof -
  let ?n = "n\<lparr>resource_ids_count := length resource_ids, slot_id := slot\<rparr>"
  have "length host_resources = 5" by (simp add: host_resources_def)
  then obtain n' where n': "add_resources host_resources ?n = Some n'"
    "resources n' = map (\<lambda>(b, h). \<lparr>resid = the (decode_resource_id b), binary_resource_id = b, callback = h\<rparr>) host_resources"
    using add_resources_list [OF host_resources_public, of ?n] assms(4) by auto
  then have j': "joker_en50221_opaque j' = Some (n'\<lparr>tl_set := True\<rparr>)"
    using assms(1,2,3) by (auto simp: joker_ci_en50221_start_def)
  show ?thesis
  proof (cases "decode_resource_id requested")
    case None
    have "find (\<lambda>(b, h). drop_bit 6 requested = drop_bit 6 b) rs = None" if "all_public rs" for rs
      using that decode_private [OF None] by (induction rs rule: all_public.induct) auto
    with None j' host_resources_public show ?thesis by (simp add: test_lookup_callback_def)
  next
    case (Some rid)
    with lookup_loop_find [OF Some host_resources_public] j' n' show ?thesis
      by (simp add: test_lookup_callback_def split: option.split prod.split)
  qed
qed

theorem lookup_host_resource_witness:
  "\<exists>j'. joker_ci_en50221_start True 0 True (en_joker (Some zero_jen)) = Some (0, j')
    \<and> test_lookup_callback j' (MKRID 3 1 2) = (0, Some (ca_message, MKRID 3 1 1))"
proof -
  have "length host_resources = 5" by (simp add: host_resources_def)
  then obtain n' where "add_resources host_resources (zero_jen\<lparr>resource_ids_count := length resource_ids, slot_id := 0\<rparr>) = Some n'"
    using add_resources_list [OF host_resources_public, of "zero_jen\<lparr>resource_ids_count := length resource_ids, slot_id := 0\<rparr>"]
    by (auto simp: zero_jen_def)
  then obtain j' where s: "joker_ci_en50221_start True 0 True (en_joker (Some zero_jen)) = Some (0, j')"
    by (simp add: joker_ci_en50221_start_def)
  have "resources zero_jen = []" by (simp add: zero_jen_def)
  from lookup_host_resource [OF s _ _ this, of "MKRID 3 1 2"] s show ?thesis
    by (simp add: host_resources_def MKRID_def)
qed

section \<open>The link layer\<close>

text \<open>
  The fragments that a reader hands out one after the other, each left in the buffer; all but the
  last one announce more.
\<close>

inductive fragments ::
  "('h \<Rightarrow> byte list \<Rightarrow> nat \<Rightarrow> int \<times> byte list \<times> 'h) \<Rightarrow> (byte list \<Rightarrow> 'h \<Rightarrow> 'h) \<Rightarrow> nat \<Rightarrow> 'h \<Rightarrow> byte list \<Rightarrow> byte list list \<Rightarrow> 'h \<Rightarrow> bool"
  for rd dump n where
  fr_last: "rd j buf n = (int (length f), buf', j') \<Longrightarrow> 2 \<le> length f \<Longrightarrow> take (length f) buf' = f
    \<Longrightarrow> f ! 1 AND 0x80 = 0 \<Longrightarrow> fragments rd dump n j buf [f] (dump f j')"
| fr_more: "rd j buf n = (int (length f), buf', j') \<Longrightarrow> 2 \<le> length f \<Longrightarrow> take (length f) buf' = f
    \<Longrightarrow> f ! 1 AND 0x80 \<noteq> 0 \<Longrightarrow> fragments rd dump n (dump f j') buf' fs j''
    \<Longrightarrow> fragments rd dump n j buf (f # fs) j''"

inductive_simps fragments_single: "fragments rd dump n j buf [f] j'"

definition payload :: "byte list list \<Rightarrow> byte list" where
  "payload fs = concat (map (drop 2) fs)"

lemma frag_head:
  assumes "2 \<le> length f" and "take (length f) buf = f"
  shows "buf ! 0 = f ! 0" "buf ! 1 = f ! 1" "take (length f - 2) (drop 2 buf) = drop 2 f"
proof -
  have nth: "buf ! i = f ! i" if "i < 2" for i
  proof -
    have "take (length f) buf ! i = buf ! i" using that assms(1) by simp
    then show ?thesis using assms(2) by simp
  qed
  show "buf ! 0 = f ! 0" "buf ! 1 = f ! 1" by (simp_all add: nth)
  have "take (length f - 2) (drop 2 buf) = drop 2 (take (length f) buf)" by (simp add: drop_take)
  then show "take (length f - 2) (drop 2 buf) = drop 2 f" using assms(2) by simp
qed

lemma link_read_fragments:
  assumes "fragments rd dump n j buf fs j'" and "length data + length (payload fs) \<le> n"
  shows "link_read_loop rd dump n buf data conn j
    = Some (link_done (int (length data + length (payload fs))) (last fs ! 0) (data @ payload fs) j')"
  using assms
proof (induction arbitrary: data conn rule: fragments.induct)
  case (fr_last j buf f buf' j')
  note h = frag_head [OF fr_last(2,3)]
  have "\<not> length data + length f - 2 > n" using fr_last.prems fr_last(2) by (simp add: payload_def)
  then show ?case using fr_last h
    by (subst link_read_loop.simps) (simp add: payload_def Let_def)
next
  case (fr_more j buf f buf' j' fs j'')
  note h = frag_head [OF fr_more(2,3)]
  have fs: "fs \<noteq> []" using fr_more(5) by (cases rule: fragments.cases) auto
  have le: "\<not> length data + length f - 2 > n" using fr_more.prems fr_more(2) by (simp add: payload_def)
  have "length (data @ drop 2 f) + length (payload fs) \<le> n" using fr_more.prems by (simp add: payload_def)
  from fr_more.IH [OF this, of "f ! 0"] have ih:
    "link_read_loop rd dump n buf' (data @ drop 2 f) (f ! 0) (dump f j')
      = Some (link_done (int (length (data @ drop 2 f) + length (payload fs))) (last fs ! 0) ((data @ drop 2 f) @ payload fs) j'')" .
  have "link_read_loop rd dump n buf data conn j = link_read_loop rd dump n buf' (data @ drop 2 f) (f ! 0) (dump f j')"
    using fr_more(1-4) h le by (subst link_read_loop.simps) (simp add: Let_def)
  then show ?case unfolding ih using fs fr_more(2) by (simp add: payload_def)
qed

abbreviation cam_dump :: "byte list \<Rightarrow> ('d, 'z) joker_ci_h_scheme \<Rightarrow> ('d, 'z) joker_ci_h_scheme" where
  "cam_dump \<equiv> \<lambda>d j. snd (cam_pcap_write_event j JOKER_PCAP_DATA_CAM_TO_HOST d)"

text \<open>C39 (link_read_reassembles): when the module hands out the fragments \<open>fs\<close> of a message, each of at least the
  two bytes of its header, and their payloads together fit the caller's buffer, \<open>dvbca_link_read\<close> returns the
  concatenated payloads, their length, and the connection id of the last fragment. The code checks neither
  condition.\<close>

theorem link_read_reassembles:
  assumes "fragments (joker_ci_read_data dev) cam_dump n j (take n undef) fs j'" and "length (payload fs) \<le> n"
  shows "dvbca_link_read dev n undef conn j = Some (link_done (int (length (payload fs))) (last fs ! 0) (payload fs) j')"
  using link_read_fragments [OF assms(1), of "[]" conn] assms(2) by (simp add: dvbca_link_read_def)

text \<open>
  A module for the witness: it always has data, announces three bytes and hands out the bytes of its
  queue one after the other. Its state is the last command and the queue.
\<close>

definition module_reg :: "byte \<Rightarrow> byte list \<Rightarrow> byte" where
  "module_reg a q = (if a = 1 then 0x80 else if a = 2 then 3 else if a = 0 then hd q else 0)"

definition module_dev :: "(byte list \<times> byte list) usb_dev" where
  "module_dev = \<lparr>bulk_out = (\<lambda>_ b (_, q). (0, length b, (b, q))),
     bulk_in = (\<lambda>_ n (c, q). (0, take n ([0, 2, 0, 1, module_reg (c ! 5) q] @ replicate n 0),
       (c, if c ! 5 = 0 then tl q else q))),
     undef_bytes = (\<lambda>_ _. 0)\<rparr>"

definition module_joker :: "byte list \<Rightarrow> (byte list \<times> byte list) joker_ci_h" where
  "module_joker q = \<lparr>dev_st = ([], q), usb_log = [], libusb_opaque = True, io_mux_opaq = True, i2c_opaque = True, reset = 0,
     joker_ci_opaque = Some (zero_ci False), ci_threading = True, shutdown_thread = False,
     ci_verbose_opt = False, cam_pcap_filename = False, cam_pcap_fd = None, wall_clock = (0, 0)\<rparr>"

definition module_at :: "byte list \<Rightarrow> (byte list \<times> byte list, 'z) joker_ci_h_scheme \<Rightarrow> bool" where
  "module_at q j \<longleftrightarrow> io_mux_opaq j \<and> joker_ci_opaque j \<noteq> None \<and> snd (dev_st j) = q \<and> cam_pcap_fd j = None"

lemma module_rw:
  assumes "module_at q j" and "buf \<noteq> []"
  shows "\<exists>j'. joker_ci_rw module_dev j (JOKER_CI_CTRL_READ OR JOKER_CI_CTRL_IO) off buf 1
      = (1, put_bytes buf 0 [module_reg (ucast off) q], j') \<and> module_at (if (ucast off :: byte) = 0 then tl q else q) j'"
proof -
  let ?c = "JOKER_CI_CTRL_READ OR JOKER_CI_CTRL_IO"
  let ?o = "[J_CMD_CI_RW, ?c, of_nat (1 div 256), of_nat 1, ucast (drop_bit 8 off), ucast off] @ take 1 buf"
  let ?s = "stack_buf module_dev j JCMD_BUF_LEN"
  let ?g = "[0, 2, 0, 1, module_reg (ucast off) q]"
  have lo: "length ?o = 7" using assms(2) by (cases buf) auto
  have nth: "put_bytes ?s 0 ?g ! i = ?g ! i" if "i < 5" for i
    using that nth_put_bytes_in [of 0 i ?g ?s] by simp
  have b: "put_bytes ?s 0 ?g ! 1 = 2" "put_bytes ?s 0 ?g ! 2 = 0" "put_bytes ?s 0 ?g ! 3 = 1"
    using nth [of 1] nth [of 2] nth [of 3] by (simp_all add: numeral_2_eq_2 numeral_3_eq_3)
  have d: "take 1 (drop 4 (put_bytes ?s 0 ?g)) = [module_reg (ucast off) q]"
    by (simp add: put_bytes_def)
  obtain c q' where ds: "dev_st j = (c, q')" by fastforce
  have o5: "?o ! 5 = ucast off" by simp
  have t5: "take 5 ([0, 2, 0, 1, v] @ replicate 5 0) = [0, 2, 0, 1, v :: byte]" for v by simp
  have "\<exists>j'. joker_cmd module_dev j ?o 7 ?s 5 = (0, put_bytes ?s 0 ?g, j') \<and> module_at (if (ucast off :: byte) = 0 then tl q else q) j'
      \<and> joker_ci_opaque j' = joker_ci_opaque j"
    using assms(1) lo o5 ds unfolding joker_cmd_def joker_io_def module_at_def
    by (simp add: module_dev_def Let_def t5 take_all del: append_Cons take_append)
  then obtain j' where c: "joker_cmd module_dev j ?o 7 ?s 5 = (0, put_bytes ?s 0 ?g, j')"
    "module_at (if (ucast off :: byte) = 0 then tl q else q) j'" "joker_ci_opaque j' = joker_ci_opaque j" by blast
  have "joker_ci_rw module_dev j ?c off buf 1 = (1, put_bytes buf 0 [module_reg (ucast off) q], j')"
    using assms(1) unfolding joker_ci_rw_def Let_def module_at_def
    by (simp add: c(1) [simplified] b [simplified] d [simplified])
  with c(2) show ?thesis by blast
qed

lemma module_read:
  assumes "module_at q j"
  shows "\<exists>j'. joker_ci_read module_dev j off JOKER_CI_IO = (uint (module_reg (of_nat off) q), j')
    \<and> module_at (if (of_nat off :: byte) = 0 then tl q else q) j'"
proof -
  have w: "ucast (of_nat off :: u16) = (of_nat off :: byte)"
    by (rule bit_word_eqI) (simp add: bit_simps)
  have "stack_buf module_dev j JCMD_BUF_LEN \<noteq> []" by (simp add: stack_buf_def)
  from module_rw [OF assms this, of "of_nat off", unfolded w] assms show ?thesis
    by (auto simp: joker_ci_read_def ci_area_def put_bytes_def module_at_def)
qed

lemma module_read_data:
  assumes "module_at (a # b # c # q) j" and "length buf = 4"
  shows "\<exists>j'. joker_ci_read_data module_dev j buf 4 = (3, [a, b, c, buf ! 3], j') \<and> module_at q j'"
proof -
  let ?q = "a # b # c # q" and ?s = "stack_buf module_dev j JCMD_BUF_LEN"
  have ne: "?s \<noteq> []" by (simp add: stack_buf_def)
  obtain j1 where 1: "joker_ci_rw module_dev j (JOKER_CI_CTRL_READ OR JOKER_CI_CTRL_IO) 1 ?s 1 = (1, put_bytes ?s 0 [0x80], j1)"
    "module_at ?q j1"
    using module_rw [OF assms(1) ne, of 1] by (auto simp: module_reg_def)
  have w: "joker_ci_wait_status module_dev j STATUSREG_DA 1000 = (0, j1)"
  proof -
    have h: "(1000::nat) div 10 = Suc 99" by simp
    have "of_nat CTRLIF_STATUS = (1 :: u16)" "STATUSREG_DA AND STATUSREG_DA \<noteq> 0" by simp_all
    then have "ci_wait_loop module_dev STATUSREG_DA (Suc 99) ?s j = (0, j1)"
      unfolding ci_wait_loop.simps Let_def by (simp only: 1(1) prod.case) (simp add: put_bytes_def)
    then show ?thesis using assms(1) unfolding joker_ci_wait_status_def h module_at_def by (simp only: if_False)
  qed
  obtain j2 where 2: "joker_ci_read module_dev j1 3 JOKER_CI_IO = (0, j2)" "module_at ?q j2"
    using module_read [OF 1(2), of 3] by (auto simp: module_reg_def)
  obtain j3 where 3: "joker_ci_read module_dev j2 2 JOKER_CI_IO = (3, j3)" "module_at ?q j3"
    using module_read [OF 2(2), of 2] by (auto simp: module_reg_def)
  obtain j4 where 4: "joker_ci_read module_dev j3 0 JOKER_CI_IO = (uint a, j4)" "module_at (b # c # q) j4"
    using module_read [OF 3(2), of 0] by (auto simp: module_reg_def)
  obtain j5 where 5: "joker_ci_read module_dev j4 0 JOKER_CI_IO = (uint b, j5)" "module_at (c # q) j5"
    using module_read [OF 4(2), of 0] by (auto simp: module_reg_def)
  obtain j6 where 6: "joker_ci_read module_dev j5 0 JOKER_CI_IO = (uint c, j6)" "module_at q j6"
    using module_read [OF 5(2), of 0] by (auto simp: module_reg_def)
  obtain j7 where 7: "joker_ci_read module_dev j6 1 JOKER_CI_IO = (0x80, j7)" "module_at q j7"
    using module_read [OF 6(2), of 1] by (auto simp: module_reg_def)
  obtain x y z v where buf: "buf = [x, y, z, v]"
    using assms(2) by (auto simp: eval_nat_numeral length_Suc_conv)
  have loop: "ci_data_loop module_dev 3 0 buf j3 = (0, [a, b, c, v], j6)"
    by (simp add: eval_nat_numeral 4(1) [simplified] 5(1) [simplified] 6(1) [simplified] put_bytes_def buf)
  have "joker_ci_opaque j \<noteq> None" using assms(1) by (simp add: module_at_def)
  then have "joker_ci_read_data module_dev j buf 4 = (3, [a, b, c, v], j7)"
    unfolding joker_ci_read_data_def w Let_def prod.case
    by (simp add: 2(1) [simplified] 3(1) [simplified] loop [simplified] 7(1) [simplified])
  then show ?thesis using 7(2) by (simp add: buf)
qed

text \<open>Two fragments of three bytes each.\<close>

theorem link_read_reassembles_witness:
  "\<exists>j'. dvbca_link_read module_dev 4 [0, 0, 0, 0] 9 (module_joker [7, 0x80, 1, 7, 0, 2]) = Some (link_done 2 7 [1, 2] j')"
proof -
  let ?rd = "joker_ci_read_data module_dev" and ?j = "module_joker [7, 0x80, 1, 7, 0, 2]"
  have dump: "module_at q (cam_dump d j)" if "module_at q j" for q d and j :: "(byte list \<times> byte list, 'a) joker_ci_h_scheme"
    using that by (simp add: cam_pcap_write_event_def module_at_def)
  have "module_at [7, 0x80, 1, 7, 0, 2] ?j" by (simp add: module_at_def module_joker_def)
  from module_read_data [OF this, of "[0, 0, 0, 0]"] obtain j1 where
    1: "?rd ?j [0, 0, 0, 0] 4 = (int (length [7, 0x80, 1 :: byte]), [7, 0x80, 1, 0], j1)" "module_at [7, 0, 2] j1" by auto
  from module_read_data [OF dump [OF 1(2)], of "[7, 0x80, 1, 0]" "[7, 0x80, 1]"] obtain j2 where
    2: "?rd (cam_dump [7, 0x80, 1] j1) [7, 0x80, 1, 0] 4 = (int (length [7, 0, 2 :: byte]), [7, 0, 2, 0], j2)" by auto
  from fr_last [where dump = cam_dump and rd = ?rd, OF 2]
  have "fragments ?rd cam_dump 4 (cam_dump [7, 0x80, 1] j1) [7, 0x80, 1, 0] [[7, 0, 2]] (cam_dump [7, 0, 2] j2)" by simp
  from fr_more [where dump = cam_dump and rd = ?rd, OF 1(1) _ _ _ this]
  have "fragments ?rd cam_dump 4 ?j (take 4 [0, 0, 0, 0]) [[7, 0x80, 1], [7, 0, 2]] (cam_dump [7, 0, 2] j2)" by simp
  from link_read_reassembles [OF this, of 9] show ?thesis by (simp add: payload_def)
qed

text \<open>link_read_short_fragment: a fragment shorter than its header makes \<open>dvbca_link_read\<close> copy
  \<open>size - 2\<close> bytes, a negative number taken as a huge unsigned one.\<close>

theorem link_read_short_fragment:
  assumes "joker_ci_read_data dev j (take n undef) n = (sz, buf', j')" and "sz = 0 \<or> sz = 1"
  shows "dvbca_link_read dev n undef conn j = Some link_fault"
  using assms by (auto simp: dvbca_link_read_def link_read_loop.simps)

theorem link_read_short_fragment_witness:
  "dvbca_link_read cam_dev 2 [0, 0] 9 cam_joker = Some link_fault"
proof -
  obtain j' where "joker_ci_read_data cam_dev cam_joker [0, 0] 2 = (1, [0x55, 0], j')"
    using cam_read_data by blast
  then show ?thesis using link_read_short_fragment [of cam_dev cam_joker 2 "[0, 0]"] by simp
qed

text \<open>link_write_outcomes: \<open>dvbca_link_write\<close> sends nothing when the message with its header is
  longer than the 506 bytes of one command; otherwise it returns the length with the header, not
  the 0 its comment promises, or an error.\<close>

theorem link_write_outcomes:
  shows "fst (dvbca_link_write dev conn data j) \<in> {- EIO, int (length data) + 2}
    \<and> (504 < length data \<longrightarrow> dvbca_link_write dev conn data j = (- EIO, j))"
  by (auto simp: dvbca_link_write_def joker_ci_write_data_def case_prod_beta Let_def)

theorem link_write_outcomes_witness:
  "dvbca_link_write cam_dev 1 (replicate 505 0) cam_joker = (- EIO, cam_joker)"
  using link_write_outcomes [of cam_dev 1 "replicate 505 0" cam_joker] by simp

section \<open>What the user is told about the module\<close>

text \<open>ca_info_stale_id: the terminator of the CA id list is written one place too far, so the id
  that an earlier, longer list had behind the new one stays in the list.\<close>

theorem ca_info_stale_id:
  assumes "test_ca_info_callback lib dev (\<lambda>h. h) ids j = Some (0, j')" and "joker_ci_opaque j = Some ci"
    and "joker_en50221_opaque j \<noteq> None" and "length (ca_ids ci) = CAID_MAX_COUNT"
  shows "\<exists>ci'. joker_ci_opaque j' = Some ci' \<and> take (length ids) (ca_ids ci') = ids
    \<and> ca_ids ci' ! length ids = ca_ids ci ! length ids \<and> ca_ids ci' ! (length ids + 1) = 0"
proof -
  let ?l = "(put_bytes (ca_ids ci) 0 ids)[length ids + 1 := 0]"
  from assms(1,2,3) have fit: "length ids + 1 < CAID_MAX_COUNT"
    and j': "joker_ci_opaque j' = Some (ci\<lparr>ca_ids := ?l\<rparr>)"
    by (auto simp: test_ca_info_callback_def case_prod_beta Let_def sync_cam_ci set_jen_def set_ci_def
        split: if_splits)
  have "?l ! length ids = ca_ids ci ! length ids" "take (length ids) ?l = ids" "?l ! (length ids + 1) = 0"
    using fit assms(4) by (simp_all add: put_bytes_def nth_append)
  with j' show ?thesis by simp
qed

theorem ca_info_stale_id_witness:
  "\<exists>j1 j2 ci. test_ca_info_callback ok_lib quiet_dev (\<lambda>h. h) [0x0b00, 0x0500] (en_joker (Some zero_jen)) = Some (0, j1)
    \<and> test_ca_info_callback ok_lib quiet_dev (\<lambda>h. h) [0x0100] j1 = Some (0, j2)
    \<and> joker_ci_opaque j2 = Some ci \<and> ca_ids ci ! 1 = 0x0500"
proof -
  have run: "\<exists>j'. test_ca_info_callback ok_lib quiet_dev (\<lambda>h. h) ids j = Some (0, j')
      \<and> (\<exists>n'. joker_en50221_opaque j' = Some n')
      \<and> joker_ci_opaque j' = Some (ci\<lparr>ca_ids := (put_bytes (ca_ids ci) 0 ids)[length ids + 1 := 0]\<rparr>)"
    if "joker_ci_opaque j = Some ci" "joker_en50221_opaque j = Some n" "length ids + 1 < CAID_MAX_COUNT"
    for j :: "unit joker_en_h" and ci ids n
  proof -
    let ?j = "set_jen (\<lambda>n. n\<lparr>ca_connected := True\<rparr>) (set_ci (\<lambda>ci. ci\<lparr>ca_ids := (put_bytes (ca_ids ci) 0 ids)[length ids + 1 := 0]\<rparr>) j)"
    have j: "joker_en50221_opaque ?j = Some (n\<lparr>ca_connected := True\<rparr>)" using that(2) by (simp add: set_jen_def set_ci_def)
    obtain ps where "joker_en50221_opaque (snd (joker_en50221_sync_cam ok_lib quiet_dev ?j)) = Some (n\<lparr>ca_connected := True, programs := ps\<rparr>)"
      using sync_cam_state [OF j, of ok_lib quiet_dev] by auto
    moreover have "joker_ci_opaque (snd (joker_en50221_sync_cam ok_lib quiet_dev ?j)) = Some (ci\<lparr>ca_ids := (put_bytes (ca_ids ci) 0 ids)[length ids + 1 := 0]\<rparr>)"
      using that(1) by (simp add: sync_cam_ci set_jen_def set_ci_def)
    ultimately show ?thesis using that
      by (intro exI [of _ "snd (joker_en50221_sync_cam ok_lib quiet_dev ?j)"])
        (simp add: test_ca_info_callback_def case_prod_beta Let_def)
  qed
  let ?c = "zero_ci False" and ?ids = "[0x0b00, 0x0500 :: u16]"
  obtain j1 n1 where 1: "test_ca_info_callback ok_lib quiet_dev (\<lambda>h. h) ?ids (en_joker (Some zero_jen)) = Some (0, j1)"
    "joker_en50221_opaque j1 = Some n1"
    "joker_ci_opaque j1 = Some (?c\<lparr>ca_ids := (put_bytes (ca_ids ?c) 0 ?ids)[3 := 0]\<rparr>)"
    using run [of "en_joker (Some zero_jen)" ?c zero_jen ?ids] by (auto simp: numeral_3_eq_3)
  have len: "length (ca_ids ?c) = CAID_MAX_COUNT" by (simp add: zero_ci_def)
  then have nth: "((put_bytes (ca_ids ?c) 0 ?ids)[3 := 0]) ! 1 = 0x0500" by (simp add: put_bytes_def)
  obtain j2 where 2: "test_ca_info_callback ok_lib quiet_dev (\<lambda>h. h) [0x0100] j1 = Some (0, j2)"
    using run [OF 1(3,2), of "[0x0100]"] by auto
  from ca_info_stale_id [OF 2 1(3)] 1(2) len obtain ci where
    "joker_ci_opaque j2 = Some ci" "ca_ids ci ! 1 = ((put_bytes (ca_ids ?c) 0 ?ids)[3 := 0]) ! 1"
    by auto
  with 1(1) 2 nth show ?thesis by auto
qed

text \<open>ai_menu_string: the menu string that is kept is cut to the 128 bytes of its array and is
  terminated, except when the module sends exactly 128 bytes: then no terminator is left.\<close>

theorem ai_menu_string:
  "length (menu_string_of menu) = TUPLE_MAX_SIZE
   \<and> (0 \<in> set (menu_string_of menu) \<longleftrightarrow> length menu \<noteq> TUPLE_MAX_SIZE \<or> 0 \<in> set menu)"
proof -
  consider "length menu < TUPLE_MAX_SIZE" | "length menu = TUPLE_MAX_SIZE" | "TUPLE_MAX_SIZE < length menu" by linarith
  then show ?thesis
  proof cases
    case 1
    then have "menu_string_of menu = menu @ replicate (TUPLE_MAX_SIZE - length menu) 0"
      by (simp add: menu_string_of_def put_bytes_def Let_def)
    with 1 show ?thesis by auto
  next
    case 2
    then show ?thesis by (simp add: menu_string_of_def put_bytes_def Let_def)
  next
    case 3
    then have "menu_string_of menu = take 127 menu @ replicate 1 0"
      by (simp add: menu_string_of_def put_bytes_def Let_def min_def)
    with 3 show ?thesis by auto
  qed
qed

section \<open>Answers to a menu\<close>

lemma digit_not_space: "c_isdigit d \<Longrightarrow> \<not> c_isspace d \<and> d \<noteq> 45 \<and> d \<noteq> 43"
  by (auto simp: c_isdigit_def c_isspace_def word_le_nat_alt)

lemma atoi_digits:
  assumes "ds \<noteq> []" and "\<forall>d\<in>set ds. c_isdigit d" and "\<not> c_isdigit x"
  shows "atoi (ds @ x # rest) = Some (digits_val ds)"
proof -
  obtain d es where ds: "ds = d # es" using assms(1) by (cases ds) auto
  have "c_isdigit d" using assms(2) ds by simp
  then have d: "\<not> c_isspace d" "d \<noteq> 45" "d \<noteq> 43" using digit_not_space by auto
  have "takeWhile c_isdigit (ds @ x # rest) = ds" "dropWhile c_isdigit (ds @ x # rest) = x # rest"
    using assms(2,3) by (simp_all add: takeWhile_append2 dropWhile_append2)
  then show ?thesis using d assms(3) by (simp add: atoi_def ds Let_def)
qed

lemma foldl_digits: "foldl (\<lambda>n d. 10 * n + (uint d - 48)) a ds = a * 10 ^ length ds + digits_val ds"
proof (induction ds arbitrary: a)
  case (Cons d ds)
  have "digits_val (d # ds) = (uint d - 48) * 10 ^ length ds + digits_val ds"
    unfolding digits_val_def foldl_Cons using Cons.IH [of "10 * 0 + (uint d - 48)", unfolded digits_val_def] by simp
  with Cons.IH [of "10 * a + (uint d - 48)"] show ?case by (simp add: algebra_simps)
qed (simp add: digits_val_def)

lemma digits_val_snoc: "digits_val (ds @ [d]) = 10 * digits_val ds + (uint d - 48)"
  by (simp add: digits_val_def)

lemma digit_byte:
  assumes "n < 10" shows "uint (of_nat (48 + n) :: byte) = 48 + int n" "c_isdigit (of_nat (48 + n))"
proof -
  have "n = 0 \<or> n = 1 \<or> n = 2 \<or> n = 3 \<or> n = 4 \<or> n = 5 \<or> n = 6 \<or> n = 7 \<or> n = 8 \<or> n = 9"
    using assms by presburger
  then show "uint (of_nat (48 + n) :: byte) = 48 + int n" "c_isdigit (of_nat (48 + n))"
    by (elim disjE; simp add: c_isdigit_def)+
qed

lemma dec_digits_val: "digits_val (dec_digits n) = int n"
proof (induction n rule: dec_digits.induct)
  case (1 n)
  show ?case
  proof (cases "n < 10")
    case True
    then show ?thesis using digit_byte(1) [of n] by (subst dec_digits.simps) (simp add: digits_val_def)
  next
    case False
    then have "digits_val (dec_digits n) = 10 * int (n div 10) + int (n mod 10)"
      using 1 [OF False] digit_byte(1) [of "n mod 10"] by (subst dec_digits.simps) (simp add: digits_val_snoc)
    then show ?thesis by presburger
  qed
qed

lemma dec_digits_ok: "dec_digits n \<noteq> [] \<and> (\<forall>d\<in>set (dec_digits n). c_isdigit d)"
proof (induction n rule: dec_digits.induct)
  case (1 n)
  show ?case using 1 digit_byte(2) [of n] digit_byte(2) [of "n mod 10"] by (subst (1 2) dec_digits.simps) auto
qed

text \<open>A menu answer is one call into the stack.\<close>

lemma mmi_call_in_menu:
  assumes "atoi buf = Some v" and "joker_en50221_opaque j = Some n" and "in_menu n" and "\<not> in_enq n"
  shows "joker_en50221_mmi_call lib buf j = Some (0, set_jen (\<lambda>n. n\<lparr>in_menu := False\<rparr>)
    (j\<lparr>en_log := en_log j @ [mmi_menu_answ (uint (mmi_session_number n)) v]\<rparr>))"
  using assms by (simp add: joker_en50221_mmi_call_def jen_of_def Let_def en_do_eq set_jen_def)

text \<open>menu_choice_roundtrip: a user who types the number that \<open>test_mmi_menu_callback\<close> printed in
  front of an item, and ends the line, chooses that item, whatever the buffer of the server held
  before; the menu is then answered once.\<close>

theorem menu_choice_roundtrip:
  assumes "joker_en50221_opaque j = Some n" and "in_menu n" and "\<not> in_enq n"
  shows "menu_prefix i = str_bytes ''    '' @ dec_digits (i + 1) @ str_bytes '': ''
    \<and> server_client_loop lib buf [Inr (dec_digits (i + 1) @ [10])] j
      = Some (set_jen (\<lambda>n. n\<lparr>in_menu := False\<rparr>)
          (j\<lparr>en_log := en_log j @ [mmi_menu_answ (uint (mmi_session_number n)) (int i + 1)]\<rparr>))"
proof -
  have "atoi (put_bytes buf 0 (dec_digits (i + 1) @ [10])) = Some (int i + 1)"
    using atoi_digits [of "dec_digits (i + 1)" 10 "drop (length (dec_digits (i + 1) @ [10])) buf"] dec_digits_ok [of "i + 1"]
    by (simp add: put_bytes_def dec_digits_val c_isdigit_def)
  from mmi_call_in_menu [OF this assms, of lib] show ?thesis by (simp add: menu_prefix_def Let_def)
qed

theorem menu_choice_roundtrip_witness:
  "server_client_loop ok_lib [55, 55] [Inr (dec_digits 3 @ [10])] (en_joker (Some (zero_jen\<lparr>in_menu := True\<rparr>)))
    = Some (set_jen (\<lambda>n. n\<lparr>in_menu := False\<rparr>)
        ((en_joker (Some (zero_jen\<lparr>in_menu := True\<rparr>)))\<lparr>en_log := [mmi_menu_answ 0 3]\<rparr>))"
  using menu_choice_roundtrip [of "en_joker (Some (zero_jen\<lparr>in_menu := True\<rparr>))" "zero_jen\<lparr>in_menu := True\<rparr>" 2 ok_lib "[55, 55]"]
  by (simp add: zero_jen_def numeral_3_eq_3)

text \<open>menu_choice_stale: without the end of line the choice runs on into the digits of an earlier,
  longer message that are still in the buffer, because the length of the message is not used.\<close>

theorem menu_choice_stale:
  assumes "joker_en50221_opaque j = Some n" and "in_menu n" and "\<not> in_enq n"
    and "ds \<noteq> []" and "\<forall>d\<in>set (ds @ es). c_isdigit d" and "\<not> c_isdigit x" and "drop (length ds) buf = es @ x # rest"
  shows "server_client_loop lib buf [Inr ds] j
      = Some (set_jen (\<lambda>n. n\<lparr>in_menu := False\<rparr>)
          (j\<lparr>en_log := en_log j @ [mmi_menu_answ (uint (mmi_session_number n)) (digits_val (ds @ es))]\<rparr>))"
proof -
  have "atoi (put_bytes buf 0 ds) = Some (digits_val (ds @ es))"
    using atoi_digits [of "ds @ es" x rest] assms(4-7) by (simp add: put_bytes_def)
  from mmi_call_in_menu [OF this assms(1-3), of lib] assms(4) show ?thesis by (simp add: Let_def)
qed

theorem menu_choice_stale_witness:
  "server_client_loop ok_lib [50, 51, 10] [Inr [49]] (en_joker (Some (zero_jen\<lparr>in_menu := True\<rparr>)))
    = Some (set_jen (\<lambda>n. n\<lparr>in_menu := False\<rparr>)
        ((en_joker (Some (zero_jen\<lparr>in_menu := True\<rparr>)))\<lparr>en_log := [mmi_menu_answ 0 13]\<rparr>))"
  using menu_choice_stale [of "en_joker (Some (zero_jen\<lparr>in_menu := True\<rparr>))" "zero_jen\<lparr>in_menu := True\<rparr>" "[49]" "[51]" 10 "[50, 51, 10]" "[]" ok_lib]
  by (simp add: zero_jen_def c_isdigit_def digits_val_def)

section \<open>Date and time\<close>

definition is_datetime :: "en_call \<Rightarrow> bool" where
  "is_datetime c \<longleftrightarrow> (\<exists>s t off. c = datetime_send s t off)"

definition datetimes :: "('d, 'z) joker_en_h_scheme \<Rightarrow> nat" where
  "datetimes j = length (filter is_datetime (en_log j))"

text \<open>A poll that leaves the handle's stack state and log alone.\<close>

definition idle_poll :: "(('d, 'z) joker_en_h_scheme \<Rightarrow> ('d, 'z) joker_en_h_scheme) \<Rightarrow> bool" where
  "idle_poll poll \<longleftrightarrow> (\<forall>h. joker_en50221_opaque (poll h) = joker_en50221_opaque h \<and> en_log (poll h) = en_log h)"

text \<open>One round: nothing is sent, or one message, which moves the next time by the interval.\<close>

lemma poll_round_cases:
  assumes "idle_poll poll" and "joker_en50221_opaque j = Some n"
  shows "(\<exists>n'. joker_en50221_opaque (ci_poll_round lib poll t j) = Some n'
      \<and> datetime_response_interval n' = datetime_response_interval n \<and> shutdown_stackthread n' = shutdown_stackthread n
      \<and> (datetimes (ci_poll_round lib poll t j) = datetimes j \<and> datetime_next_send n' = datetime_next_send n
       \<or> datetimes (ci_poll_round lib poll t j) = datetimes j + 1 \<and> datetime_next_send n < t
         \<and> datetime_next_send n' = t + uint (datetime_response_interval n)))"
  using assms
  by (auto simp: ci_poll_round_def Let_def jen_of_def set_jen_def en_do_eq idle_poll_def datetimes_def is_datetime_def)

lemma poll_loop_quiet:
  assumes "joker_en50221_opaque j = Some n" and "\<forall>(poll, t)\<in>set rounds. idle_poll poll \<and> t \<le> datetime_next_send n"
  shows "datetimes (ci_poll_loop lib rounds j) = datetimes j"
  using assms
proof (induction rounds arbitrary: j n)
  case (Cons r rounds)
  obtain poll t where r: "r = (poll, t)" by fastforce
  with Cons.prems have "idle_poll poll" "t \<le> datetime_next_send n" by auto
  from poll_round_cases [OF this(1) Cons.prems(1), of lib t] this(2) obtain n' where
    n': "joker_en50221_opaque (ci_poll_round lib poll t j) = Some n'" "datetime_next_send n' = datetime_next_send n"
    "datetimes (ci_poll_round lib poll t j) = datetimes j" by auto
  from Cons.IH [OF n'(1)] Cons.prems n' r show ?case
    by (simp add: datetimes_def set_jen_def)
qed simp

text \<open>datetime_rate: over rounds of the stack thread that span no more than the response interval
  the module asked for, the date and time are sent at most once.\<close>

theorem datetime_rate:
  assumes "joker_en50221_opaque j = Some n" and "list_all (\<lambda>(poll, t). idle_poll poll) rounds"
    and "list_all (\<lambda>(poll, t). t0 \<le> t \<and> t \<le> t0 + uint (datetime_response_interval n)) rounds"
  shows "datetimes (ci_poll_loop lib rounds j) \<le> datetimes j + 1"
  using assms
proof (induction rounds arbitrary: j n)
  case (Cons r rounds)
  obtain poll t where r: "r = (poll, t)" by fastforce
  with Cons.prems have p: "idle_poll poll" "t0 \<le> t" by auto
  from poll_round_cases [OF p(1) Cons.prems(1), of lib t] obtain n' where
    n': "joker_en50221_opaque (ci_poll_round lib poll t j) = Some n'"
      "datetime_response_interval n' = datetime_response_interval n"
    and c: "datetimes (ci_poll_round lib poll t j) = datetimes j
      \<or> datetimes (ci_poll_round lib poll t j) = datetimes j + 1 \<and> datetime_next_send n' = t + uint (datetime_response_interval n)"
    by blast
  show ?case
  proof (cases "datetimes (ci_poll_round lib poll t j) = datetimes j")
    case True
    with Cons.IH [OF n'(1)] Cons.prems n' r show ?thesis by (simp add: datetimes_def set_jen_def)
  next
    case False
    with c p(2) Cons.prems n' have "\<forall>(poll, t)\<in>set rounds. idle_poll poll \<and> t \<le> datetime_next_send n'"
      by (fastforce simp: list_all_iff)
    from poll_loop_quiet [OF n'(1) this, of lib] c False r show ?thesis by (simp add: datetimes_def set_jen_def)
  qed
qed simp

theorem datetime_rate_witness:
  "datetimes (ci_poll_loop ok_lib [((\<lambda>h. h), 100), ((\<lambda>h. h), 103)]
      (en_joker (Some (zero_jen\<lparr>datetime_response_interval := 5, datetime_dvbtime := 7\<rparr>)))) \<le> 1"
  using datetime_rate [of "en_joker (Some (zero_jen\<lparr>datetime_response_interval := 5, datetime_dvbtime := 7\<rparr>))"
      "zero_jen\<lparr>datetime_response_interval := 5, datetime_dvbtime := 7\<rparr>" "[((\<lambda>h. h), 100), ((\<lambda>h. h), 103)]" 100 ok_lib]
  by (simp add: idle_poll_def datetimes_def)

end
