(* ===== verification/Klist.thy ===== *)
theory Klist
  imports Prelude
begin

text \<open>
  The intrusive doubly linked list of \<open>include/joker_list.h\<close> on a heap of links, and its
  refinement to HOL lists: every other component models a \<open>list_head\<close> as the list of its
  entries, which the lemmas here justify. An address stands for an entry and for the
  \<open>list_head\<close> embedded in it.
\<close>

section \<open>The code\<close>

record 'a links =
  nxt :: "'a \<Rightarrow> 'a"
  prv :: "'a \<Rightarrow> 'a"

definition INIT_LIST_HEAD :: "'a \<Rightarrow> 'a links \<Rightarrow> 'a links" where
  "INIT_LIST_HEAD l h =
     (let h = h\<lparr>nxt := (nxt h)(l := l)\<rparr> in h\<lparr>prv := (prv h)(l := l)\<rparr>)"

definition list_add_between :: "'a \<Rightarrow> 'a \<Rightarrow> 'a \<Rightarrow> 'a links \<Rightarrow> 'a links" where
  "list_add_between item before after h =
     (let h = h\<lparr>prv := (prv h)(after := item)\<rparr>;
          h = h\<lparr>nxt := (nxt h)(item := after)\<rparr>;
          h = h\<lparr>prv := (prv h)(item := before)\<rparr>
      in h\<lparr>nxt := (nxt h)(before := item)\<rparr>)"

definition list_add_tail :: "'a \<Rightarrow> 'a \<Rightarrow> 'a links \<Rightarrow> 'a links" where
  "list_add_tail item head h = list_add_between item (prv h head) head h"

definition list_empty :: "'a \<Rightarrow> 'a links \<Rightarrow> bool" where
  "list_empty head h \<longleftrightarrow> nxt h head = head"

definition list_first_entry :: "'a \<Rightarrow> 'a links \<Rightarrow> 'a" where
  "list_first_entry head h = nxt h head"

definition list_del_between :: "'a \<Rightarrow> 'a \<Rightarrow> 'a links \<Rightarrow> 'a links" where
  "list_del_between before after h =
     (let h = h\<lparr>prv := (prv h)(after := before)\<rparr> in h\<lparr>nxt := (nxt h)(before := after)\<rparr>)"

text \<open>\<open>list_del\<close> leaves the two poison addresses in the entry.\<close>

definition list_del :: "'a \<Rightarrow> 'a \<Rightarrow> 'a \<Rightarrow> 'a links \<Rightarrow> 'a links" where
  "list_del poison1 poison2 entry h =
     (let h = list_del_between (prv h entry) (nxt h entry) h;
          h = h\<lparr>nxt := (nxt h)(entry := poison1)\<rparr>
      in h\<lparr>prv := (prv h)(entry := poison2)\<rparr>)"

text \<open>
  \<open>list_for_each_entry\<close> from \<open>pos\<close> on: the entries in the order of the visits; \<open>None\<close> is a walk
  that never comes back to the head. \<open>list_for_each_entry_safe\<close> has the next entry in \<open>n\<close>
  before the body runs on \<open>pos\<close>, and reads the one after it when the body is done.
\<close>

partial_function (option) walk :: "'a links \<Rightarrow> 'a \<Rightarrow> 'a \<Rightarrow> 'a list option" where
  "walk h head pos =
     (if pos = head then Some []
      else Option.bind (walk h head (nxt h pos)) (\<lambda>xs. Some (pos # xs)))"

definition list_for_each_entry :: "'a links \<Rightarrow> 'a \<Rightarrow> 'a list option" where
  "list_for_each_entry h head = walk h head (nxt h head)"

partial_function (option) walk_safe ::
  "('a \<Rightarrow> 'a links \<Rightarrow> 'a links) \<Rightarrow> 'a \<Rightarrow> 'a \<Rightarrow> 'a \<Rightarrow> 'a links \<Rightarrow> 'a links option" where
  "walk_safe body head pos n h =
     (if pos = head then Some h
      else let h = body pos h in walk_safe body head n (nxt h n) h)"

definition list_for_each_entry_safe :: "('a \<Rightarrow> 'a links \<Rightarrow> 'a links) \<Rightarrow> 'a links \<Rightarrow> 'a \<Rightarrow> 'a links option" where
  "list_for_each_entry_safe body h head =
     (let pos = nxt h head in walk_safe body head pos (nxt h pos) h)"

section \<open>Rings\<close>

text \<open>\<open>linked h a xs b\<close>: from \<open>a\<close> over \<open>xs\<close> to \<open>b\<close>, forwards and backwards.\<close>

fun linked :: "'a links \<Rightarrow> 'a \<Rightarrow> 'a list \<Rightarrow> 'a \<Rightarrow> bool" where
  "linked h a [] b \<longleftrightarrow> nxt h a = b \<and> prv h b = a"
| "linked h a (x # xs) b \<longleftrightarrow> nxt h a = x \<and> prv h x = a \<and> linked h x xs b"

definition ring :: "'a \<Rightarrow> 'a links \<Rightarrow> 'a list \<Rightarrow> bool" where
  "ring head h xs \<longleftrightarrow> linked h head xs head \<and> distinct (head # xs)"

lemma linked_append:
  "linked h a (xs @ y # ys) b \<longleftrightarrow> linked h a xs y \<and> linked h y ys b"
  by (induction xs arbitrary: a) auto

lemma linked_first: "linked h a xs b \<Longrightarrow> nxt h a = hd (xs @ [b])"
  by (cases xs) auto

lemma linked_last: "linked h a xs b \<Longrightarrow> prv h b = last (a # xs)"
  by (induction xs arbitrary: a) auto

text \<open>Only the forward links of \<open>a # xs\<close> and the backward links of \<open>xs @ [b]\<close> count.\<close>

lemma linked_cong:
  assumes "\<And>x. x \<in> insert a (set xs) \<Longrightarrow> nxt h' x = nxt h x"
    and "\<And>x. x \<in> insert b (set xs) \<Longrightarrow> prv h' x = prv h x"
  shows "linked h' a xs b = linked h a xs b"
  using assms by (induction xs arbitrary: a) auto

lemma ring_unique: "ring head h xs \<Longrightarrow> ring head h ys \<Longrightarrow> xs = ys"
proof -
  have "linked h a xs b \<Longrightarrow> linked h a ys b \<Longrightarrow> b \<notin> set xs \<Longrightarrow> b \<notin> set ys \<Longrightarrow> xs = ys" for a b
  proof (induction xs arbitrary: a ys)
    case Nil
    then show ?case by (cases ys) auto
  next
    case (Cons x xs)
    then show ?case by (cases ys) auto
  qed
  then show "ring head h xs \<Longrightarrow> ring head h ys \<Longrightarrow> xs = ys" unfolding ring_def by auto
qed

text \<open>A change away from the ring leaves it alone.\<close>

lemma ring_frame:
  assumes "\<And>x. x \<in> insert head (set xs) \<Longrightarrow> nxt h' x = nxt h x \<and> prv h' x = prv h x"
  shows "ring head h' xs = ring head h xs"
  using assms linked_cong [of head xs h' h head] by (auto simp: ring_def)

section \<open>The operations on rings\<close>

lemma ring_init: "ring head (INIT_LIST_HEAD head h) []"
  by (simp add: ring_def INIT_LIST_HEAD_def Let_def)

lemma ring_empty: "ring head h xs \<Longrightarrow> list_empty head h \<longleftrightarrow> xs = []"
  by (cases xs) (auto simp: ring_def list_empty_def)

lemma ring_first: "ring head h (x # xs) \<Longrightarrow> list_first_entry head h = x"
  by (simp add: ring_def list_first_entry_def)

lemma ring_add_tail:
  assumes "ring head h xs" and "item \<notin> insert head (set xs)"
  shows "ring head (list_add_tail item head h) (xs @ [item])"
proof -
  let ?h = "list_add_tail item head h"
  have l: "linked h head xs head" and d: "distinct (head # xs)" using assms(1) by (auto simp: ring_def)
  have "linked ?h head xs item \<and> linked ?h item [] head"
  proof (cases xs rule: rev_cases)
    case Nil
    with l assms(2) show ?thesis by (auto simp: list_add_tail_def list_add_between_def Let_def)
  next
    case (snoc ys y)
    then have ly: "linked h head ys y" "linked h y [] head" using l by (auto simp: linked_append)
    have y: "y \<noteq> head" "y \<notin> set ys" "head \<notin> set ys" using d snoc by auto
    have "linked ?h head ys y"
      using ly y assms(2) snoc
      by (subst linked_cong [of head ys ?h h y]) (auto simp: list_add_tail_def list_add_between_def Let_def)
    moreover have "nxt ?h y = item" "prv ?h item = y" "nxt ?h item = head" "prv ?h head = item"
      using ly y assms(2) snoc by (auto simp: list_add_tail_def list_add_between_def Let_def)
    ultimately show ?thesis using snoc by (simp add: linked_append)
  qed
  then show ?thesis using d assms(2) by (auto simp: ring_def linked_append)
qed

lemma ring_del:
  assumes "ring head h (xs @ e # ys)"
  shows "ring head (list_del p1 p2 e h) (xs @ ys)"
proof -
  let ?h = "list_del p1 p2 e h"
  have l: "linked h head xs e" "linked h e ys head" and d: "distinct (head # xs @ e # ys)"
    using assms by (auto simp: ring_def linked_append)
  define before where "before = last (head # xs)"
  define after where "after = hd (ys @ [head])"
  have ba: "prv h e = before" "nxt h e = after"
    using linked_last [OF l(1)] linked_first [OF l(2)] by (auto simp: before_def after_def)
  have e: "before \<noteq> e" "after \<noteq> e" using d by (auto simp: before_def after_def hd_append)
  have n: "nxt ?h x = (if x = e then p1 else if x = before then after else nxt h x)"
    and p: "prv ?h x = (if x = e then p2 else if x = after then before else prv h x)" for x
    using e ba by (auto simp: list_del_def list_del_between_def Let_def)
  have "linked ?h head (xs @ ys) head"
  proof (cases ys)
    case Nil
    show ?thesis
    proof (cases xs rule: rev_cases)
      case Nil
      with \<open>ys = []\<close> n p e show ?thesis by (simp add: before_def after_def)
    next
      case (snoc zs z)
      have "linked ?h head zs z"
        using l(1) d snoc Nil n p by (subst linked_cong [of head zs ?h h z]) (auto simp: before_def after_def linked_append)
      with snoc Nil n p e show ?thesis by (simp add: linked_append before_def after_def)
    qed
  next
    case (Cons y zs)
    then have ly: "linked h y zs head" "after = y" using l(2) by (auto simp: after_def)
    have b: "before \<notin> insert y (set zs)" using d Cons by (cases xs rule: rev_cases) (auto simp: before_def)
    have "linked ?h y zs head"
      using ly d Cons n p b by (subst linked_cong [of y zs ?h h head]) auto
    moreover have "linked ?h head xs y"
    proof (cases xs rule: rev_cases)
      case Nil
      with n p e ly(2) show ?thesis by (simp add: before_def)
    next
      case (snoc zs' z)
      have "linked ?h head zs' z"
        using l(1) d snoc Cons n p ly(2)
        by (subst linked_cong [of head zs' ?h h z]) (auto simp: before_def linked_append)
      with snoc n p e ly(2) show ?thesis by (simp add: linked_append before_def)
    qed
    ultimately show ?thesis using Cons by (simp add: linked_append)
  qed
  then show ?thesis using d by (auto simp: ring_def)
qed

lemma walk_linked:
  "linked h a xs head \<Longrightarrow> head \<notin> set xs \<Longrightarrow> walk h head (nxt h a) = Some xs"
proof (induction xs arbitrary: a)
  case Nil
  then show ?case by (subst walk.simps) simp
next
  case (Cons x xs)
  then have "walk h head (nxt h x) = Some xs" by auto
  with Cons.prems show ?case by (subst walk.simps) auto
qed

lemma ring_for_each: "ring head h xs \<Longrightarrow> list_for_each_entry h head = Some xs"
  using walk_linked [of h head xs head] by (simp add: ring_def list_for_each_entry_def)

text \<open>The safe walk with a body that unlinks the entry it is called on.\<close>

lemma walk_safe_del:
  assumes "ring head h (x # xs)"
  shows "\<exists>h'. walk_safe (list_del p1 p2) head x (nxt h x) h = Some h' \<and> ring head h' []"
  using assms
proof (induction xs arbitrary: x h)
  case Nil
  then have "x \<noteq> head" "nxt h x = head" by (auto simp: ring_def)
  moreover have "ring head (list_del p1 p2 x h) []" using ring_del [of head h "[]" x "[]"] Nil by simp
  ultimately show ?case by (subst walk_safe.simps, subst walk_safe.simps) simp
next
  case (Cons y xs)
  then have "x \<noteq> head" "nxt h x = y" by (auto simp: ring_def)
  moreover have "ring head (list_del p1 p2 x h) (y # xs)" using ring_del [of head h "[]" x "y # xs"] Cons.prems by simp
  ultimately show ?case using Cons.IH [of "list_del p1 p2 x h" y]
    by (subst walk_safe.simps) (simp add: Let_def)
qed

section \<open>The queue contract\<close>

text \<open>
  What the code needs of a list: entries are appended, any entry can be removed, and the walk
  gives the entries in order. The lemmas of a client that only appends and takes the first
  entry, as the TS lists of the pool do, follow from the contract.
\<close>

locale entry_list =
  fixes inv :: "'h \<Rightarrow> bool" and elems :: "'h \<Rightarrow> 'a list" and fresh :: "'a \<Rightarrow> bool"
    and add :: "'a \<Rightarrow> 'h \<Rightarrow> 'h" and del :: "'a \<Rightarrow> 'h \<Rightarrow> 'h" and is_empty :: "'h \<Rightarrow> bool" and first :: "'h \<Rightarrow> 'a"
  assumes add_elems: "inv h \<Longrightarrow> fresh x \<Longrightarrow> x \<notin> set (elems h) \<Longrightarrow> inv (add x h) \<and> elems (add x h) = elems h @ [x]"
    and del_elems: "inv h \<Longrightarrow> x \<in> set (elems h) \<Longrightarrow> inv (del x h) \<and> elems (del x h) = remove1 x (elems h)"
    and empty_elems: "inv h \<Longrightarrow> is_empty h \<longleftrightarrow> elems h = []"
    and first_elems: "inv h \<Longrightarrow> elems h \<noteq> [] \<Longrightarrow> first h = hd (elems h)"
begin

definition take_first :: "'h \<Rightarrow> ('a \<times> 'h) option" where
  "take_first h = (if is_empty h then None else Some (first h, del (first h) h))"

lemma take_first_fifo:
  assumes "inv h"
  shows "take_first h = None \<and> elems h = []
    \<or> (\<exists>h'. take_first h = Some (hd (elems h), h') \<and> inv h' \<and> elems h' = tl (elems h))"
proof (cases "elems h")
  case Nil
  then show ?thesis using empty_elems [OF assms] by (simp add: take_first_def)
next
  case (Cons x xs)
  then show ?thesis
    using empty_elems [OF assms] first_elems [OF assms] del_elems [OF assms, of x] by (simp add: take_first_def)
qed

lemma fold_add:
  assumes "inv h" and "distinct (elems h @ xs)" and "\<forall>x\<in>set xs. fresh x"
  shows "inv (fold add xs h) \<and> elems (fold add xs h) = elems h @ xs"
  using assms
proof (induction xs arbitrary: h)
  case (Cons x xs)
  then have "inv (add x h)" "elems (add x h) = elems h @ [x]" using add_elems [of h x] by auto
  with Cons show ?case by simp
qed simp

end

definition on_heap :: "'a \<Rightarrow> 'a links \<Rightarrow> bool" where
  "on_heap head h \<longleftrightarrow> Ex (ring head h)"

definition entries :: "'a \<Rightarrow> 'a links \<Rightarrow> 'a list" where
  "entries head h = the (list_for_each_entry h head)"

lemma entries_ring: "ring head h xs \<Longrightarrow> on_heap head h \<and> entries head h = xs"
  using ring_for_each by (fastforce simp: on_heap_def entries_def)

lemma on_heap_ring: "on_heap head h \<Longrightarrow> ring head h (entries head h)"
  using entries_ring unfolding on_heap_def by metis

interpretation klist: entry_list "on_heap head" "entries head" "\<lambda>x. x \<noteq> head"
    "\<lambda>x. list_add_tail x head" "list_del p1 p2" "list_empty head" "list_first_entry head" for head p1 p2
proof
  fix h x assume h: "on_heap head h"
  note r = on_heap_ring [OF h]
  show "x \<noteq> head \<Longrightarrow> x \<notin> set (entries head h) \<Longrightarrow> on_heap head (list_add_tail x head h)
      \<and> entries head (list_add_tail x head h) = entries head h @ [x]"
    using entries_ring [OF ring_add_tail [OF r, of x]] by simp
  show "list_empty head h = (entries head h = [])" by (rule ring_empty [OF r])
  show "entries head h \<noteq> [] \<Longrightarrow> list_first_entry head h = hd (entries head h)"
    using r ring_first by (metis list.collapse)
  assume "x \<in> set (entries head h)"
  then obtain xs ys where s: "entries head h = xs @ x # ys" "x \<notin> set xs" by (meson split_list_first)
  then show "on_heap head (list_del p1 p2 x h) \<and> entries head (list_del p1 p2 x h) = remove1 x (entries head h)"
    using entries_ring [OF ring_del [of head h xs x ys p1 p2]] r by (simp add: remove1_append)
qed

text \<open>The model that the other components use: a list is its entries.\<close>

interpretation hol_list: entry_list distinct "\<lambda>xs. xs" "\<lambda>_. True" "\<lambda>x xs. xs @ [x]" remove1 "\<lambda>xs. xs = []" hd
  by unfold_locales auto

section \<open>Properties\<close>

text \<open>Histories of list operations, on the heap and on HOL lists.\<close>

datatype 'a list_op = op_add 'a | op_del 'a

fun heap_op :: "'a \<Rightarrow> 'a \<Rightarrow> 'a \<Rightarrow> 'a list_op \<Rightarrow> 'a links \<Rightarrow> 'a links" where
  "heap_op p1 p2 head (op_add x) h = list_add_tail x head h"
| "heap_op p1 p2 head (op_del x) h = list_del p1 p2 x h"

fun abs_op :: "'a list_op \<Rightarrow> 'a list \<Rightarrow> 'a list" where
  "abs_op (op_add x) xs = xs @ [x]"
| "abs_op (op_del x) xs = remove1 x xs"

text \<open>Entries are added while they are in no list, and removed while they are in this one.\<close>

fun ops_ok :: "'a \<Rightarrow> 'a list_op list \<Rightarrow> 'a list \<Rightarrow> bool" where
  "ops_ok head [] xs = True"
| "ops_ok head (op_add x # os) xs = (x \<noteq> head \<and> x \<notin> set xs \<and> ops_ok head os (xs @ [x]))"
| "ops_ok head (op_del x # os) xs = (x \<in> set xs \<and> ops_ok head os (remove1 x xs))"

lemma ops_simulate:
  assumes "on_heap head h" and "ops_ok head os (entries head h)"
  shows "on_heap head (fold (heap_op p1 p2 head) os h)
    \<and> entries head (fold (heap_op p1 p2 head) os h) = fold abs_op os (entries head h)"
  using assms
proof (induction os arbitrary: h)
  case (Cons a os)
  show ?case
  proof (cases a)
    case (op_add x)
    with Cons klist.add_elems [of head h x] show ?thesis by auto
  next
    case (op_del x)
    with Cons klist.del_elems [of head h x p1 p2] show ?thesis by auto
  qed
qed simp

text \<open>C10 (klist_refines_list): any history of additions at the tail and deletions on an initialised list
  head simulates the same history on a HOL list: afterwards \<open>list_for_each_entry\<close> ends and visits
  exactly the entries of the HOL list, in its order.\<close>

theorem klist_refines_list:
  assumes "ops_ok head os []"
  shows "list_for_each_entry (fold (heap_op p1 p2 head) os (INIT_LIST_HEAD head h)) head = Some (fold abs_op os [])"
proof -
  have "on_heap head (INIT_LIST_HEAD head h) \<and> entries head (INIT_LIST_HEAD head h) = []"
    by (rule entries_ring [OF ring_init])
  with ops_simulate [of head "INIT_LIST_HEAD head h" os p1 p2] assms
  have "on_heap head (fold (heap_op p1 p2 head) os (INIT_LIST_HEAD head h))"
    "entries head (fold (heap_op p1 p2 head) os (INIT_LIST_HEAD head h)) = fold abs_op os []" by auto
  then show ?thesis using ring_for_each [OF on_heap_ring] by metis
qed

theorem klist_refines_list_witness:
  "list_for_each_entry (fold (heap_op 100 101 (0::nat)) [op_add 1, op_add 2, op_del 1, op_add 3]
      (INIT_LIST_HEAD 0 \<lparr>nxt = (\<lambda>_. 7), prv = (\<lambda>_. 7)\<rparr>)) 0 = Some [2, 3]"
  using klist_refines_list [of "0::nat" "[op_add 1, op_add 2, op_del 1, op_add 3]" 100 101 "\<lparr>nxt = (\<lambda>_. 7), prv = (\<lambda>_. 7)\<rparr>"]
  by simp

text \<open>safe_walk_drops_all: \<open>list_for_each_entry_safe\<close> survives a body that unlinks every entry it is
  called on: it visits all of them, ends, and leaves an empty list.\<close>

theorem safe_walk_drops_all:
  assumes "ring head h xs"
  shows "\<exists>h'. list_for_each_entry_safe (list_del p1 p2) h head = Some h' \<and> list_empty head h'
    \<and> list_for_each_entry h' head = Some []"
proof (cases xs)
  case Nil
  then have n: "nxt h head = head" using assms by (simp add: ring_def)
  then have "list_for_each_entry_safe (list_del p1 p2) h head = Some h"
    unfolding list_for_each_entry_safe_def Let_def by (subst walk_safe.simps) simp
  then show ?thesis using ring_empty [OF assms] ring_for_each [OF assms] Nil by simp
next
  case (Cons x xs')
  then have "ring head h (x # xs')" "nxt h head = x" using assms by (auto simp: ring_def)
  from walk_safe_del [OF this(1), of p1 p2] this(2) obtain h' where
    "list_for_each_entry_safe (list_del p1 p2) h head = Some h'" "ring head h' []"
    by (auto simp: list_for_each_entry_safe_def)
  moreover from this(2) have "list_empty head h'" "list_for_each_entry h' head = Some []"
    using ring_empty [of head h' "[]"] ring_for_each [of head h' "[]"] by auto
  ultimately show ?thesis by blast
qed

theorem safe_walk_drops_all_witness:
  "\<exists>h'. list_for_each_entry_safe (list_del 100 101)
      (list_add_tail (2::nat) 0 (list_add_tail 1 0 (INIT_LIST_HEAD 0 \<lparr>nxt = (\<lambda>_. 7), prv = (\<lambda>_. 7)\<rparr>))) 0 = Some h'
    \<and> list_empty 0 h'"
proof -
  have "ring (0::nat) (list_add_tail 2 0 (list_add_tail 1 0 (INIT_LIST_HEAD 0 \<lparr>nxt = (\<lambda>_. 7), prv = (\<lambda>_. 7)\<rparr>))) ([] @ [1] @ [2])"
    unfolding append_assoc [symmetric] by (intro ring_add_tail ring_init) simp_all
  from safe_walk_drops_all [OF this, of 100 101] show ?thesis by blast
qed

end
