(* ===== verification/PsiParse.thy ===== *)
theory PsiParse
  imports En50221
begin

text \<open>
  The rest of \<open>src/joker_ts.c\<close>: the handlers that libdvbpsi calls with the decoded tables (PAT,
  PMT, CAT, SDT, ATSC VCT, NIT, TOT), the generated PAT and SDT packets, and \<open>get_programs\<close>.
  libdvbpsi is outside the repository: a decoded table is an argument with the fields the code
  reads, its constructors' success, its section generator and the memory \<open>malloc\<close> returns are the
  parameter \<open>psi_lib\<close>. Allocation succeeds. A read past the data of a descriptor, or a PID beyond
  the 8192 hooks, is the value \<open>None\<close>. The name lookup of elementary stream types is complete;
  debug output is left out.
\<close>

section \<open>State\<close>

text \<open>A descriptor of the library; \<open>i_length\<close> is the length of the data.\<close>

record psi_descriptor =
  i_tag :: byte
  p_data :: "byte list"

record psi_es =
  t_es_type :: byte
  t_es_pid :: u16
  t_es_descriptors :: "psi_descriptor list"

record psi_pmt =
  t_program_number :: u16
  t_pcr_pid :: u16
  t_descriptors :: "psi_descriptor list"
  t_es :: "psi_es list"

record psi_sdt =
  t_version :: byte
  t_current_next :: bool
  t_extension :: u16
  t_network_id :: u16
  t_services :: "(u16 \<times> psi_descriptor list) list"

text \<open>The fields of \<open>struct big_pool_t\<close> that belong to the tables.\<close>

record psi_pool = big_pool_t +
  selected_programs_list :: "program_t list"
  programs_list :: "program_t list"
  service_name_callback :: bool
  pat_dvbpsi :: bool
  cat_dvbpsi :: bool
  si_dvbpsi :: bool
  sdt_dvbpsi :: bool
  generated_pat :: "(u16 \<times> u16) list option"
  pool_ca_list :: "program_ca_t list"
  stored_sdt :: "psi_sdt option"
  network_name :: "byte list option"
  nit_network_id :: int
  network_id :: int
  ts_id :: int
  nit_list :: "(u16 \<times> u16) list"
  named_log :: "program_t list"

text \<open>
  \<open>psi_new n\<close> and \<open>psi_attach n\<close>: whether the \<open>n\<close>-th decoder of the pool is allocated and
  attached; \<open>pmt_new\<close> and \<open>pmt_attach\<close> the same for the PMT decoder of the \<open>n\<close>-th program;
  \<open>malloc_program n\<close> is the indeterminate content of its memory. \<open>pat_sections\<close> is the section
  generator of the PAT.
\<close>

record psi_lib =
  psi_new :: "nat \<Rightarrow> bool"
  psi_attach :: "nat \<Rightarrow> bool"
  pmt_new :: "nat \<Rightarrow> bool"
  pmt_attach :: "nat \<Rightarrow> bool"
  malloc_program :: "nat \<Rightarrow> program_t"
  pat_sections :: "(u16 \<times> u16) list \<Rightarrow> byte list list"

definition is_program_selected :: "psi_pool \<Rightarrow> int \<Rightarrow> bool" where
  "is_program_selected pool n = list_ex (\<lambda>p. number p = n) (selected_programs_list pool)"

section \<open>Program map table\<close>

text \<open>\<open>parse_type\<close>: the name, and the audio and video flags, which are set or left alone.\<close>

definition parse_type :: "byte \<Rightarrow> bool \<Rightarrow> bool \<Rightarrow> string \<times> bool \<times> bool" where
  "parse_type t audio video =
     (if t = 0x00 then (''Reserved'', audio, video)
      else if t = 0x01 then (''ISO/IEC 11172 Video'', audio, True)
      else if t = 0x02 then (''ISO/IEC 13818-2 Video'', audio, True)
      else if t = 0x03 then (''ISO/IEC 11172 Audio'', True, video)
      else if t = 0x04 then (''ISO/IEC 13818-3 Audio'', True, video)
      else if t = 0x05 then (''ISO/IEC 13818-1 Private Section'', audio, video)
      else if t = 0x06 then (''ISO/IEC 13818-1 Private PES data packets'', audio, video)
      else if t = 0x07 then (''ISO/IEC 13522 MHEG'', audio, video)
      else if t = 0x08 then (''ISO/IEC 13818-1 Annex A DSM CC'', audio, video)
      else if t = 0x09 then (''H222.1'', audio, video)
      else if t = 0x0A then (''ISO/IEC 13818-6 type A'', audio, video)
      else if t = 0x0B then (''ISO/IEC 13818-6 type B'', audio, video)
      else if t = 0x0C then (''ISO/IEC 13818-6 type C'', audio, video)
      else if t = 0x0D then (''ISO/IEC 13818-6 type D'', audio, video)
      else if t = 0x0E then (''ISO/IEC 13818-1 auxillary'', audio, video)
      else if t = 0x1B then
        (''AVC video stream as defined in ITU-T Rec. H.264 | ISO/IEC 14496-10 Video'', audio, True)
      else if t = 0x81 then (''AC-3 Audio'', True, video)
      else if t = 0x87 then (''E-AC-3 Audio'', True, video)
      else if t < 0x80 then (''ISO/IEC 13818-1 reserved'', audio, video)
      else (''User Private'', audio, video))"

text \<open>The language descriptors of a stream; the last one wins.\<close>

fun es_lang_loop :: "psi_descriptor list \<Rightarrow> byte list \<Rightarrow> byte list" where
  "es_lang_loop [] lang = lang"
| "es_lang_loop (d # ds) lang =
     (if (i_tag d = 0x0a \<or> i_tag d = 0x56) \<and> length (p_data d) \<ge> 3
      then es_lang_loop ds (put_bytes lang 0 (take 3 (p_data d)))
      else es_lang_loop ds lang)"

text \<open>\<open>ts_filter_one(joker, TS_FILTER_UNBLOCK, pid)\<close>, its result unused, when \<open>sel\<close> holds.\<close>

definition unblock_if :: "'d usb_dev \<Rightarrow> bool \<Rightarrow> u16 \<Rightarrow> ('d, 'z) joker_en_h_scheme \<Rightarrow> ('d, 'z) joker_en_h_scheme" where
  "unblock_if dev sel pid j = (if sel then snd (ts_filter_one dev j False (uint pid)) else j)"

definition pmt_es_step ::
  "'d usb_dev \<Rightarrow> bool \<Rightarrow> psi_es \<Rightarrow> program_t \<times> ('d, 'z) joker_en_h_scheme \<Rightarrow> program_t \<times> ('d, 'z) joker_en_h_scheme" where
  "pmt_es_step dev sel e s =
     (let (p, j) = s
      in if list_ex (\<lambda>es. es_pid es = t_es_pid e) (es_list p) then (p, j)
         else
           let es = \<lparr>es_type = t_es_type e, es_pid = t_es_pid e,
                     es_lang = es_lang_loop (t_es_descriptors e) (replicate 4 0)\<rparr>;
               (_, audio, video) = parse_type (t_es_type e) False False;
               p = (if video then p\<lparr>has_video := True\<rparr> else p);
               p = (if audio then p\<lparr>has_audio := True\<rparr> else p);
               p = p\<lparr>es_list := es_list p @ [es]\<rparr>
           in (p, unblock_if dev sel (t_es_pid e) j))"

text \<open>One descriptor of the loops over CA descriptors, in the PMT and in the CAT.\<close>

definition ca_step ::
  "'d usb_dev \<Rightarrow> bool \<Rightarrow> psi_descriptor \<Rightarrow> program_ca_t list \<times> ('d, 'z) joker_en_h_scheme
    \<Rightarrow> (program_ca_t list \<times> ('d, 'z) joker_en_h_scheme) option" where
  "ca_step dev sel d s =
     (let (cas, j) = s
      in if i_tag d = 0x09 then
           if length (p_data d) < 4 then None
           else
             let pid = push_bit 8 (ucast (p_data d ! 2 AND 0x1F)) OR ucast (p_data d ! 3);
                 caid = push_bit 8 (ucast (p_data d ! 0)) OR ucast (p_data d ! 1)
             in if list_ex (\<lambda>ca. ca_pid ca = pid \<and> ca_caid ca = caid) cas then Some (cas, j)
                else let j = unblock_if dev sel pid j
                     in Some (cas @ [\<lparr>ca_pid = pid, ca_caid = caid\<rparr>], j)
         else Some (cas, j))"

text \<open>
  \<open>DumpPMT\<close> for the program at position \<open>i\<close> of the program list; \<open>raw\<close> is the section the decoder
  holds.
\<close>

type_synonym ('d, 'z) psi_st = "psi_pool \<times> ('d, 'z) joker_en_h_scheme"

definition DumpPMT ::
  "en_lib \<Rightarrow> 'd usb_dev \<Rightarrow> nat \<Rightarrow> psi_pmt \<Rightarrow> byte list \<Rightarrow> ('d, 'z) psi_st \<Rightarrow> ('d, 'z) psi_st option" where
  "DumpPMT lib dev i t raw s =
     (let (pool, j) = s;
          sel = is_program_selected pool (uint (t_program_number t));
          p = (programs_list pool ! i)\<lparr>pcr_pid := uint (t_pcr_pid t)\<rparr>;
          (p, j) = fold (pmt_es_step dev sel) (t_es t) (p, j)
      in case fold_opt (ca_step dev sel) (t_descriptors t) (ca_list p, j) of
           None \<Rightarrow> None
         | Some (cas, j) \<Rightarrow>
             let p = p\<lparr>ca_list := cas\<rparr>;
                 pool = pool\<lparr>programs_list := (programs_list pool)[i := p]\<rparr>
             in case joker_en50221_pmt_update lib dev (number p) raw j of
                  None \<Rightarrow> None
                | Some (_, j) \<Rightarrow> Some (pool, j))"


section \<open>Program association table\<close>

text \<open>\<open>add_program_to_pat\<close>; its success path has no \<open>return\<close>, and the callers use no result.\<close>

definition add_program_to_pat :: "u16 \<Rightarrow> u16 \<Rightarrow> psi_pool \<Rightarrow> psi_pool" where
  "add_program_to_pat num pid pool =
     (let pool = (case generated_pat pool of
                    None \<Rightarrow> pool\<lparr>generated_pat := Some []\<rparr> | Some _ \<Rightarrow> pool)
      in pool\<lparr>generated_pat := map_option (\<lambda>ps. ps @ [(num, pid)]) (generated_pat pool)\<rparr>)"

definition generate_pat_pkt :: "psi_lib \<Rightarrow> bool \<Rightarrow> psi_pool \<Rightarrow> int \<times> psi_pool" where
  "generate_pat_pkt plib new_ok pool =
     (case generated_pat pool of
        None \<Rightarrow> (- EINVAL, pool)
      | Some pat \<Rightarrow>
          if generated_pat_pkt pool \<noteq> None then (0, pool)
          else if \<not> new_ok then (- ENOMEM, pool)
          else let pkts = psi_pkts_generate (pat_sections plib pat) 0x00
               in (0, pool\<lparr>generated_pat_pkt := Some (concat pkts)\<rparr>))"

text \<open>
  One entry of the PAT. The new program keeps what \<open>malloc\<close> returned in the fields the code does
  not set.
\<close>

definition pat_program :: "psi_lib \<Rightarrow> nat \<Rightarrow> u16 \<Rightarrow> u16 \<Rightarrow> program_t" where
  "pat_program plib k num pid =
     (malloc_program plib k)\<lparr>name := replicate SERVICE_NAME_LEN 0, provider_name := replicate SERVICE_NAME_LEN 0,
        number := uint num, es_list := [], ca_list := [], pmt_pid := uint pid, pmt_dvbpsi := pmt_new plib k\<rparr>"

definition pat_step ::
  "psi_lib \<Rightarrow> 'd usb_dev \<Rightarrow> u16 \<times> u16 \<Rightarrow> ('d, 'z) psi_st \<Rightarrow> ('d, 'z) psi_st option" where
  "pat_step plib dev e s =
     (let (num, pid) = e; (pool, j) = s
      in if list_ex (\<lambda>p. number p = uint num) (programs_list pool) \<or> num = 0x0 \<and> pid = 0x10 then Some (pool, j)
         else
           let k = length (programs_list pool);
               pool = pool\<lparr>programs_list := programs_list pool @ [pat_program plib k num pid]\<rparr>
           in if \<not> pmt_new plib k then Some (pool, j)
              else if \<not> pmt_attach plib k then Some (pool, j)
              else
                let sel = is_program_selected pool (uint num);
                    j = unblock_if dev sel pid j;
                    pool = (if sel then add_program_to_pat num pid pool else pool)
                in if unat pid \<ge> 8192 then None
                   else Some (pool\<lparr>hooks := (hooks pool)(unat pid := Some pmt_hook),
                                   hooks_opaque := (hooks_opaque pool)(unat pid := Some k)\<rparr>, j))"

definition DumpPAT ::
  "psi_lib \<Rightarrow> 'd usb_dev \<Rightarrow> (u16 \<times> u16) list \<Rightarrow> ('d, 'z) psi_st \<Rightarrow> ('d, 'z) psi_st option" where
  "DumpPAT plib dev pat s = fold_opt (pat_step plib dev) pat s"

definition DumpCAT ::
  "'d usb_dev \<Rightarrow> psi_descriptor list \<Rightarrow> ('d, 'z) psi_st \<Rightarrow> ('d, 'z) psi_st option" where
  "DumpCAT dev ds s =
     (let (pool, j) = s; sel = (selected_programs_list pool \<noteq> [])
      in case fold_opt (ca_step dev sel) ds (pool_ca_list pool, j) of
           None \<Rightarrow> None
         | Some (cas, j) \<Rightarrow> Some (pool\<lparr>pool_ca_list := cas\<rparr>, j))"

section \<open>Service names\<close>

text \<open>\<open>convert_dvb_line\<close> into a name that was zeroed, with a read past the descriptor as a fault.\<close>

definition dvb_name :: "iconv_fn \<Rightarrow> byte list \<Rightarrow> nat \<Rightarrow> byte list option" where
  "dvb_name iconv ptr len =
     (if len = 0 then Some (replicate SERVICE_NAME_LEN 0)
      else if length ptr < len then None
      else map_option snd (convert_dvb_line iconv ptr len SERVICE_NAME_LEN))"

definition service_descriptor :: "iconv_fn \<Rightarrow> psi_descriptor \<Rightarrow> program_t \<Rightarrow> program_t option" where
  "service_descriptor iconv d p =
     (if i_tag d = 0x48 then
        let data = p_data d
        in if length data < 2 then None
           else
             let plen = unat (data ! 1)
             in if length data \<le> plen + 2 then None
                else
                  let nlen = unat (data ! (plen + 2))
                  in case dvb_name iconv (drop 2 data) plen of
                       None \<Rightarrow> None
                     | Some provider \<Rightarrow>
                         (case dvb_name iconv (drop (plen + 3) data) nlen of
                            None \<Rightarrow> None
                          | Some nm \<Rightarrow> Some (p\<lparr>service_type := data ! 0, provider_name := provider, name := nm\<rparr>))
      else Some p)"

definition get_service_name :: "iconv_fn \<Rightarrow> psi_descriptor list \<Rightarrow> program_t \<Rightarrow> program_t option" where
  "get_service_name iconv ds p = fold_opt (service_descriptor iconv) ds p"

text \<open>
  The walk over the program list that the service and the channel tables share: every program with
  the number is renamed, and the callback, when there is one, sees it.
\<close>

fun rename_loop ::
  "(program_t \<Rightarrow> program_t option) \<Rightarrow> int \<Rightarrow> program_t list \<Rightarrow> (program_t list \<times> program_t list) option" where
  "rename_loop f n [] = Some ([], [])"
| "rename_loop f n (p # ps) =
     (if number p = n then
        (case f p of
           None \<Rightarrow> None
         | Some p \<Rightarrow>
             (case rename_loop f n ps of None \<Rightarrow> None | Some (ps, seen) \<Rightarrow> Some (p # ps, p # seen)))
      else (case rename_loop f n ps of None \<Rightarrow> None | Some (ps, seen) \<Rightarrow> Some (p # ps, seen)))"

definition rename_programs :: "(program_t \<Rightarrow> program_t option) \<Rightarrow> int \<Rightarrow> psi_pool \<Rightarrow> psi_pool option" where
  "rename_programs f n pool =
     (case rename_loop f n (programs_list pool) of
        None \<Rightarrow> None
      | Some (ps, seen) \<Rightarrow>
          Some (pool\<lparr>programs_list := ps,
                     named_log := named_log pool @ (if service_name_callback pool then seen else [])\<rparr>))"

definition DumpSDT :: "iconv_fn \<Rightarrow> psi_sdt \<Rightarrow> psi_pool \<Rightarrow> psi_pool option" where
  "DumpSDT iconv t pool =
     (if (case stored_sdt pool of
            None \<Rightarrow> False
          | Some old \<Rightarrow> t_version old = t_version t \<or> t_current_next old \<and> \<not> t_current_next t)
      then Some pool
      else
        let pool = pool\<lparr>network_id := uint (t_network_id t), ts_id := uint (t_extension t)\<rparr>
        in case fold_opt (\<lambda>(sid, ds). rename_programs (get_service_name iconv ds) (uint sid)) (t_services t) pool of
             None \<Rightarrow> None
           | Some pool \<Rightarrow> Some (pool\<lparr>stored_sdt := Some t\<rparr>))"

text \<open>A channel of the ATSC table: program number and the 14 bytes of the short name.\<close>

definition vct_name :: "iconv_fn \<Rightarrow> byte list \<Rightarrow> program_t \<Rightarrow> program_t option" where
  "vct_name iconv short_name p =
     (let p = p\<lparr>name := put_bytes (name p) 0 (take 14 short_name)\<rparr>
      in Some (p\<lparr>name := snd (to_utf iconv (take 14 (name p)) (name p) SERVICE_NAME_LEN ''UTF-16BE'')\<rparr>))"

definition DumpAtscVCTChannels :: "iconv_fn \<Rightarrow> (u16 \<times> byte list) list \<Rightarrow> psi_pool \<Rightarrow> psi_pool option" where
  "DumpAtscVCTChannels iconv chans pool =
     fold_opt (\<lambda>(num, short_name). rename_programs (vct_name iconv short_name) (uint num)) chans pool"

text \<open>\<open>generate_sdt_pkt\<close> for the program at position \<open>i\<close>; the success path has no \<open>return\<close>.\<close>

definition generate_sdt_pkt :: "byte list list \<Rightarrow> bool \<Rightarrow> nat \<Rightarrow> psi_pool \<Rightarrow> int option \<times> psi_pool" where
  "generate_sdt_pkt sections new_ok i pool =
     (if generated_sdt_pkt (programs_list pool ! i) then (Some 0, pool)
      else if \<not> new_ok then (Some (- ENOMEM), pool)
      else
        let pkts = psi_pkts_generate sections 0x11;
            pool = pool\<lparr>programs_list := (programs_list pool)[i := (programs_list pool ! i)\<lparr>generated_sdt_pkt := True\<rparr>]\<rparr>;
            old = (case sdt_pkt_array pool of None \<Rightarrow> [] | Some arr \<Rightarrow> arr)
        in (None, pool\<lparr>sdt_pkt_array := Some (take (TS_SIZE * sdt_count pool) old @ concat pkts),
                       sdt_count := sdt_count pool + length pkts\<rparr>))"

section \<open>Network and time\<close>

fun nit_name_loop :: "iconv_fn \<Rightarrow> psi_descriptor list \<Rightarrow> byte list option \<Rightarrow> byte list option option" where
  "nit_name_loop iconv [] nm = Some nm"
| "nit_name_loop iconv (d # ds) nm =
     (if i_tag d = 0x40 then
        (case if p_data d = [] then None else convert_dvb_line iconv (p_data d) (length (p_data d)) SERVICE_NAME_LEN of
           None \<Rightarrow> None
         | Some (_, nm) \<Rightarrow> nit_name_loop iconv ds (Some nm))
      else nit_name_loop iconv ds nm)"

definition DumpNIT ::
  "iconv_fn \<Rightarrow> u16 \<Rightarrow> psi_descriptor list \<Rightarrow> (u16 \<times> u16) list \<Rightarrow> psi_pool \<Rightarrow> psi_pool option" where
  "DumpNIT iconv nid ds tss pool =
     (let pool = pool\<lparr>nit_network_id := uint nid\<rparr>
      in case nit_name_loop iconv ds (network_name pool) of
           None \<Rightarrow> None
         | Some nm \<Rightarrow> Some (pool\<lparr>network_name := nm, nit_list := nit_list pool @ tss\<rparr>))"

text \<open>The five bytes of the 40-bit time; \<open>to_unix\<close> is \<open>dvbdate_to_unixtime\<close> of libucsi.\<close>

definition dvbdate_bytes :: "u64 \<Rightarrow> byte list" where
  "dvbdate_bytes t = [ucast (drop_bit 32 t AND 0xFF), ucast (drop_bit 24 t AND 0xFF), ucast (drop_bit 16 t AND 0xFF),
     ucast (drop_bit 8 t AND 0xFF), ucast (t AND 0xFF)]"

definition DumpTOT :: "(byte list \<Rightarrow> int) \<Rightarrow> u64 \<Rightarrow> ('d, 'z) joker_en_h_scheme \<Rightarrow> ('d, 'z) joker_en_h_scheme" where
  "DumpTOT to_unix utc j = joker_en50221_set_dvbtime (to_unix (dvbdate_bytes utc)) j"

text \<open>\<open>NewSubtable\<close>: the decoder that is attached for a table id.\<close>

datatype subtable = sub_nit | sub_sdt | sub_tot | sub_vct

definition NewSubtable :: "byte \<Rightarrow> subtable option" where
  "NewSubtable table_id =
     (if table_id = 0x40 \<or> table_id = 0x41 then Some sub_nit
      else if table_id = 0x42 then Some sub_sdt
      else if table_id = 0x70 \<or> table_id = 0x73 then Some sub_tot
      else if table_id = 0xC8 \<or> table_id = 0xC9 then Some sub_vct
      else None)"

text \<open>The hooks: the decoder a packet is pushed into; the opaque pointer of a PMT hook is a program.\<close>

datatype psi_decoder = dec_pat | dec_cat | dec_sdt | dec_si | dec_pmt nat

fun hook_decoder :: "ts_hook \<Rightarrow> nat option \<Rightarrow> psi_decoder option" where
  "hook_decoder pat_hook data = Some dec_pat"
| "hook_decoder cat_hook data = Some dec_cat"
| "hook_decoder sdt_hook data = Some dec_sdt"
| "hook_decoder atsc_hook data = Some dec_si"
| "hook_decoder si_hook data = Some dec_si"
| "hook_decoder pmt_hook data = map_option dec_pmt data"

section \<open>The program list\<close>

text \<open>
  \<open>get_programs\<close> waits for the tables while the TS thread runs: \<open>tick\<close> is what happens during
  \<open>usleep(50000)\<close>. The result is \<open>None\<close> where the code gives libdvbpsi a decoder that was not
  allocated, else whether the list is returned.
\<close>

fun wait_until :: "('s \<Rightarrow> bool) \<Rightarrow> ('s \<Rightarrow> 's) \<Rightarrow> nat \<Rightarrow> 's \<Rightarrow> 's" where
  "wait_until ready tick 0 s = s"
| "wait_until ready tick (Suc n) s = (if ready s then s else wait_until ready tick n (tick s))"

definition pmts_parsed :: "psi_pool \<Rightarrow> bool" where
  "pmts_parsed pool = list_all (\<lambda>p. es_list p \<noteq> []) (programs_list pool)"

definition install_hooks :: "psi_pool \<Rightarrow> psi_pool" where
  "install_hooks pool =
     pool\<lparr>hooks := (hooks pool)(0x00 := Some pat_hook, 0x01 := Some cat_hook, 0x14 := Some si_hook, 0x10 := Some si_hook)\<rparr>"

definition get_programs ::
  "psi_lib \<Rightarrow> (('d, 'z) psi_st \<Rightarrow> ('d, 'z) psi_st) \<Rightarrow> bool \<Rightarrow> ('d, 'z) psi_st \<Rightarrow> (bool \<times> ('d, 'z) psi_st) option" where
  "get_programs plib tick pat_new_ok s =
     (let (pool, j) = s;
          pool = pool\<lparr>pat_dvbpsi := psi_new plib 0\<rparr>
      in if \<not> psi_new plib 0 then Some (False, pool, j)
      else if \<not> psi_attach plib 0 then Some (False, pool, j)
      else let pool = pool\<lparr>si_dvbpsi := psi_new plib 1\<rparr>
           in if \<not> psi_new plib 1 then Some (False, pool, j)
      else if \<not> psi_attach plib 1 then Some (False, pool, j)
      else let pool = pool\<lparr>sdt_dvbpsi := psi_new plib 2\<rparr>
           in if \<not> psi_new plib 2 then Some (False, pool, j)
      else if \<not> psi_attach plib 2 then Some (False, pool, j)
      else let pool = pool\<lparr>cat_dvbpsi := psi_new plib 3\<rparr>
           in if \<not> psi_new plib 3 then None
      else if \<not> psi_attach plib 3 then Some (False, pool, j)
      else
        let pool = install_hooks pool;
            (pool, j) = wait_until (\<lambda>(pool, _). programs_list pool \<noteq> []) tick 20 (pool, j);
            (pool, j) = wait_until (\<lambda>(pool, _). pmts_parsed pool) tick 20 (pool, j);
            pool = pool\<lparr>hooks := (hooks pool)(0x11 := Some sdt_hook, 0x1FFB := Some atsc_hook)\<rparr>;
            pool = (if selected_programs_list pool \<noteq> [] then snd (generate_pat_pkt plib pat_new_ok pool) else pool)
        in Some (True, pool, j))"

end
