(* ===== verification/PsiProps.thy ===== *)
theory PsiProps
  imports PsiParse CamSync
begin

text \<open>
  Properties of the table handlers of \<open>PsiParse\<close>: over every interleaving of tables and CAM
  activity the program list is consistent, and the PID filter of the device passes exactly the
  service PIDs and the PIDs of the selected programs.
\<close>

section \<open>The filter of the device\<close>

text \<open>The PIDs the device passes after the commands of the log.\<close>

definition filter_of :: "('d, 'z) joker_t_scheme \<Rightarrow> nat \<Rightarrow> bool" where
  "filter_of j = filter_run (usb_log j) (\<lambda>_. True)"

lemma cmd_pid_mod: "cmd_pid (pid_hi p) (pid_lo p) = nat (p mod 8192)"
proof -
  have "drop_bit 8 p AND 0x1f = p div 256 mod 32"
    using take_bit_eq_mask [of 5 "p div 256"] by (simp add: take_bit_eq_mod drop_bit_eq_div mask_eq_exp_minus_1)
  moreover have "p AND 0xff = p mod 256"
    using take_bit_eq_mask [of 8 p] by (simp add: take_bit_eq_mod mask_eq_exp_minus_1)
  ultimately have "int (cmd_pid (pid_hi p) (pid_lo p)) = p div 256 mod 32 * 256 + p mod 256"
    by (simp add: cmd_pid_def pid_hi_def pid_lo_def uint_word_of_int)
  also have "\<dots> = p mod 8192" using zmod_zmult2_eq [of 32 p 256] by simp
  finally show ?thesis by (metis nat_int)
qed

text \<open>Steps that leave the filter alone: they keep the channel and send no filter command.\<close>

definition no_filter_cmd :: "('d, 'z) joker_t_scheme \<Rightarrow> ('d, 'z) joker_t_scheme \<Rightarrow> bool" where
  "no_filter_cmd j j' \<longleftrightarrow> io_mux_opaq j' = io_mux_opaq j \<and> filter_of j' = filter_of j"

lemma no_filter_same: "usb_log j' = usb_log j \<Longrightarrow> io_mux_opaq j' = io_mux_opaq j \<Longrightarrow> no_filter_cmd j j'"
  by (simp add: no_filter_cmd_def filter_of_def)

lemma no_filter_trans: "no_filter_cmd j k \<Longrightarrow> no_filter_cmd k l \<Longrightarrow> no_filter_cmd j l"
  by (simp add: no_filter_cmd_def)

lemma no_filter_set_jen [simp]: "no_filter_cmd k (set_jen f j) = no_filter_cmd k j"
  by (simp add: no_filter_cmd_def filter_of_def set_jen_def)

lemma no_filter_ci_opaque [simp]: "no_filter_cmd k (j\<lparr>joker_ci_opaque := x\<rparr>) = no_filter_cmd k j"
  by (simp add: no_filter_cmd_def filter_of_def)

lemma no_filter_en_do [simp]: "no_filter_cmd k (snd (en_do lib c j)) = no_filter_cmd k j"
  by (simp add: no_filter_cmd_def filter_of_def en_do_def Let_def)

lemma no_filter_refl [simp]: "no_filter_cmd j j"
  by (simp add: no_filter_cmd_def)

lemma no_filter_send [simp]: "no_filter_cmd k (snd (send_ca_pmt lib s l c sec j)) = no_filter_cmd k j"
  using no_filter_en_do [of k lib _ j] by (simp add: send_ca_pmt_def case_prod_beta split: option.split)

lemma no_filter_send_loop [simp]:
  "no_filter_cmd k (snd (sync_send_loop lib s c i ps j)) = no_filter_cmd k j"
  by (induction ps arbitrary: i j) (auto simp: case_prod_beta)

lemma no_filter_query_loop [simp]: "no_filter_cmd k (sync_query_loop lib s ps j) = no_filter_cmd k j"
  by (induction ps arbitrary: j) auto

lemma no_filter_ci_ts: "no_filter_cmd k (snd (joker_cmd0 dev j [J_CMD_CI_TS, x])) = no_filter_cmd k j"
  by (simp add: no_filter_cmd_def filter_of_def log_simps frame_simps)

lemma no_filter_sync [simp]: "no_filter_cmd k (snd (joker_en50221_sync_cam lib dev j)) = no_filter_cmd k j"
  by (auto simp: joker_en50221_sync_cam_def case_prod_beta Let_def no_filter_ci_ts split: option.split)

lemma no_filter_init [simp]: "no_filter_cmd k (snd (joker_ci_en50221_init j)) = no_filter_cmd k j"
  by (simp add: joker_ci_en50221_init_def no_filter_cmd_def filter_of_def)

lemma no_filter_pmt_update:
  assumes "joker_en50221_pmt_update lib dev num sec j = Some (r, j')" shows "no_filter_cmd j j'"
proof -
  obtain r k where k: "joker_ci_en50221_init j = (r, k)" by fastforce
  then have n: "no_filter_cmd j k" using no_filter_init [of j j] by simp
  have p: "no_filter_cmd j (snd (pmt_update_parsed lib dev num parsed k))" for parsed
    using n by (auto simp: pmt_update_parsed_def case_prod_beta Let_def split: option.split)
  show ?thesis
  proof (cases "pmt_codec lib sec")
    case (Some parsed)
    with p [of parsed] assms show ?thesis by (simp add: joker_en50221_pmt_update_def k)
  qed (use assms in \<open>simp add: joker_en50221_pmt_update_def k\<close>)
qed

lemma no_filter_start:
  "joker_ci_en50221_start t s l j = Some (r, j') \<Longrightarrow> no_filter_cmd j j'"
  using no_filter_init [of j j]
  by (auto simp: joker_ci_en50221_start_def no_filter_cmd_def filter_of_def set_jen_def case_prod_beta Let_def split: option.splits if_splits)

text \<open>No call of the API, no callback and no poll of the EN 50221 layer touches the filter.\<close>

lemma no_filter_en_step: "en_step lib dev j j' \<Longrightarrow> no_filter_cmd j j'"
proof (induction rule: en_step.induct)
  case (st_start t s l j r j')
  then show ?case by (rule no_filter_start)
next
  case (st_ai slot sn ty man code menu j r j')
  then show ?case
    by (auto simp: test_ai_callback_def set_jen_def set_ci_def Let_def no_filter_cmd_def filter_of_def split: if_splits option.splits)
next
  case (st_ca_info ids j r j')
  then show ?case
    by (auto simp: test_ca_info_callback_def set_ci_def Let_def case_prod_beta split: if_splits option.splits)
next
  case (st_menu iconv undef sn title sub_title bottom items j r j')
  then show ?case
    by (auto simp: test_mmi_menu_callback_def set_jen_def Let_def no_filter_cmd_def filter_of_def split: option.splits if_splits)
next
  case (st_call buf j r j')
  then show ?case
    by (auto simp: joker_en50221_mmi_call_def set_jen_def jen_of_def en_do_eq Let_def no_filter_cmd_def filter_of_def
        split: option.splits if_splits)
next
  case (st_enter j)
  then show ?case
    by (auto simp: joker_en50221_mmi_enter_def set_jen_def en_do_eq Let_def case_prod_beta no_filter_cmd_def filter_of_def
        split: option.splits)
qed (auto simp: test_mmi_display_control_callback_def no_filter_pmt_update test_session_callback_def test_rm_enq_callback_def test_rm_reply_callback_def
       test_rm_changed_callback_def test_datetime_enquiry_callback_def test_mmi_enq_callback_def
       test_app_mmi_list_callback_def joker_en50221_set_dvbtime_def joker_en50221_descramble_add_def
       joker_en50221_descramble_clear_def ci_poll_round_def case_prod_beta Let_def
     split: option.splits session_reason.splits)


section \<open>What the tables say\<close>

definition pid13 :: "u16 \<Rightarrow> nat" where
  "pid13 pid = unat pid mod 8192"

definition es_pids :: "program_t \<Rightarrow> nat set" where
  "es_pids p = pid13 ` es_pid ` set (es_list p)"

definition ca_pids :: "program_ca_t list \<Rightarrow> nat set" where
  "ca_pids cas = pid13 ` ca_pid ` set cas"

definition attached :: "psi_lib \<Rightarrow> nat \<Rightarrow> bool" where
  "attached plib k \<longleftrightarrow> pmt_new plib k \<and> pmt_attach plib k"

text \<open>Number and PMT PID of the programs, with their positions.\<close>

definition pat_rows :: "psi_pool \<Rightarrow> (nat \<times> int \<times> int) list" where
  "pat_rows pool = enumerate 0 (map (\<lambda>p. (number p, pmt_pid p)) (programs_list pool))"

definition selected_rows :: "psi_lib \<Rightarrow> psi_pool \<Rightarrow> (int \<times> int) list" where
  "selected_rows plib pool =
     map snd (filter (\<lambda>(k, num, pid). attached plib k \<and> is_program_selected pool num) (pat_rows pool))"

definition wanted_pids :: "psi_lib \<Rightarrow> psi_pool \<Rightarrow> nat \<Rightarrow> bool" where
  "wanted_pids plib pool n \<longleftrightarrow>
     n \<in> (\<lambda>(num, pid). nat (pid mod 8192)) ` set (selected_rows plib pool)
     \<or> (\<exists>p\<in>set (programs_list pool). is_program_selected pool (number p) \<and> n \<in> es_pids p \<union> ca_pids (ca_list p))
     \<or> selected_programs_list pool \<noteq> [] \<and> n \<in> ca_pids (pool_ca_list pool)"

definition pat_for_selected :: "psi_lib \<Rightarrow> psi_pool \<Rightarrow> (u16 \<times> u16) list option" where
  "pat_for_selected plib pool =
     (if selected_rows plib pool = [] then None
      else Some (map (\<lambda>(num, pid). (word_of_int num, word_of_int pid)) (selected_rows plib pool)))"

definition streams_ok :: "program_t \<Rightarrow> bool" where
  "streams_ok p \<longleftrightarrow> distinct (map es_pid (es_list p)) \<and> distinct (map (\<lambda>c. (ca_pid c, ca_caid c)) (ca_list p))"

definition tables_ok :: "psi_lib \<Rightarrow> psi_pool \<Rightarrow> bool" where
  "tables_ok plib pool \<longleftrightarrow>
     progs.keys_ok (programs_list pool) \<and> list_all streams_ok (programs_list pool)
     \<and> (\<forall>n. hooks pool n = Some pmt_hook \<longrightarrow>
          (\<exists>k<length (programs_list pool). hooks_opaque pool n = Some k \<and> attached plib k))"

definition pid_wanted :: "psi_lib \<Rightarrow> psi_pool \<Rightarrow> nat \<Rightarrow> bool" where
  "pid_wanted plib pool n \<longleftrightarrow> service_pid n \<or> wanted_pids plib pool n"

text \<open>Nothing but the wanted PIDs passes; all of them do if the device takes every command.\<close>

definition filter_ok :: "'d usb_dev \<Rightarrow> psi_lib \<Rightarrow> psi_pool \<Rightarrow> ('d, 'z) joker_en_h_scheme \<Rightarrow> bool" where
  "filter_ok dev plib pool j \<longleftrightarrow> io_mux_opaq j \<and> (\<forall>n. filter_of j n \<longrightarrow> pid_wanted plib pool n)
     \<and> (usb_ok dev \<longrightarrow> (\<forall>n. pid_wanted plib pool n \<longrightarrow> filter_of j n))"

definition psi_inv :: "'d usb_dev \<Rightarrow> psi_lib \<Rightarrow> ('d, 'z) psi_st \<Rightarrow> bool" where
  "psi_inv dev plib s \<longleftrightarrow>
     tables_ok plib (fst s) \<and> generated_pat (fst s) = pat_for_selected plib (fst s) \<and> filter_ok dev plib (fst s) (snd s)"

section \<open>One elementary stream, one CA descriptor\<close>

lemma unblock_if_frame [simp]: "io_mux_opaq (unblock_if dev sel pid j) = io_mux_opaq j"
  by (simp add: unblock_if_def ts_filter_one_eq frame_simps)

lemma cmd_pid13: "cmd_pid (pid_hi (uint pid)) (pid_lo (uint pid)) = pid13 pid"
  using nat_mod_distrib [of "uint pid" 8192] by (simp add: cmd_pid_mod pid13_def)

lemma filter_of_unblock:
  shows "filter_of (unblock_if dev sel pid j) n \<Longrightarrow> filter_of j n \<or> sel \<and> n = pid13 pid"
    and "filter_of j n \<Longrightarrow> filter_of (unblock_if dev sel pid j) n"
    and "usb_ok dev \<Longrightarrow> io_mux_opaq j \<Longrightarrow> sel \<Longrightarrow> filter_of (unblock_if dev sel pid j) (pid13 pid)"
  by (auto simp: unblock_if_def ts_filter_one_eq log_simps filter_of_def ts_filter_one_buf_def cmd_pid13 usb_ok_cmd0 split: if_splits)

text \<open>
  A step that puts the PIDs of \<open>B - A\<close> into the tables and opens the filter for them, and for no others,
  when the program is selected and the device takes the commands.
\<close>

definition opens ::
  "'d usb_dev \<Rightarrow> bool \<Rightarrow> nat set \<Rightarrow> nat set \<Rightarrow> ('d, 'z) joker_t_scheme \<Rightarrow> ('d, 'z) joker_t_scheme \<Rightarrow> bool" where
  "opens dev sel A B j k \<longleftrightarrow> A \<subseteq> B \<and> io_mux_opaq k = io_mux_opaq j
     \<and> (\<forall>n. filter_of k n \<longrightarrow> filter_of j n \<or> sel \<and> n \<in> B) \<and> (\<forall>n. filter_of j n \<longrightarrow> filter_of k n)
     \<and> (usb_ok dev \<longrightarrow> io_mux_opaq j \<longrightarrow> sel \<longrightarrow> (\<forall>n\<in>B - A. filter_of k n))"

lemma opens_refl [simp]: "opens dev sel A A j j"
  by (auto simp: opens_def)

lemma opens_trans: "opens dev sel A B j k \<Longrightarrow> opens dev sel B C k l \<Longrightarrow> opens dev sel A C j l"
  unfolding opens_def by (safe; blast)

lemma opens_unblock: "opens dev sel A (insert (pid13 pid) A) j (unblock_if dev sel pid j)"
  using filter_of_unblock [where dev = dev and sel = sel and pid = pid and j = j] by (auto simp: opens_def)

lemma opens_filter:
  assumes "opens dev sel A B j k"
  shows "filter_of k n \<Longrightarrow> filter_of j n \<or> sel \<and> n \<in> B"
    and "usb_ok dev \<Longrightarrow> io_mux_opaq j \<Longrightarrow> (sel \<and> n \<in> A \<longrightarrow> filter_of j n) \<Longrightarrow> filter_of j n \<or> sel \<and> n \<in> B \<Longrightarrow> filter_of k n"
  using assms unfolding opens_def by blast+

lemma pmt_es_step_cases:
  assumes "pmt_es_step dev sel e (p, j) = (p', j')"
  shows "p' = p \<and> j' = j
    \<or> number p' = number p \<and> pmt_pid p' = pmt_pid p \<and> ca_list p' = ca_list p
      \<and> map es_pid (es_list p') = map es_pid (es_list p) @ [t_es_pid e] \<and> t_es_pid e \<notin> es_pid ` set (es_list p)
      \<and> j' = unblock_if dev sel (t_es_pid e) j"
  using assms by (auto simp: pmt_es_step_def case_prod_beta Let_def list_ex_iff split: if_splits)

lemma es_pids_map: "es_pids p = pid13 ` set (map es_pid (es_list p))"
  by (simp add: es_pids_def)

lemma pmt_es_step_frame:
  assumes "pmt_es_step dev sel e (p, j) = (p', j')"
  shows "number p' = number p \<and> pmt_pid p' = pmt_pid p \<and> ca_list p' = ca_list p
    \<and> (distinct (map es_pid (es_list p)) \<longrightarrow> distinct (map es_pid (es_list p')))
    \<and> opens dev sel (es_pids p) (es_pids p') j j'"
  using pmt_es_step_cases [OF assms]
proof (elim disjE)
  assume a: "number p' = number p \<and> pmt_pid p' = pmt_pid p \<and> ca_list p' = ca_list p
      \<and> map es_pid (es_list p') = map es_pid (es_list p) @ [t_es_pid e] \<and> t_es_pid e \<notin> es_pid ` set (es_list p)
      \<and> j' = unblock_if dev sel (t_es_pid e) j"
  then have "es_pids p' = insert (pid13 (t_es_pid e)) (es_pids p)"
    unfolding es_pids_map by simp
  with a opens_unblock [of dev sel "es_pids p" "t_es_pid e" j] show ?thesis by simp
qed simp

lemma pmt_es_loop:
  assumes "fold (pmt_es_step dev sel) es (p, j) = (p', j')"
  shows "number p' = number p \<and> pmt_pid p' = pmt_pid p \<and> ca_list p' = ca_list p
    \<and> (distinct (map es_pid (es_list p)) \<longrightarrow> distinct (map es_pid (es_list p')))
    \<and> opens dev sel (es_pids p) (es_pids p') j j'"
  using assms
proof (induction es arbitrary: p j)
  case (Cons e es)
  obtain p1 j1 where e: "pmt_es_step dev sel e (p, j) = (p1, j1)" by fastforce
  with Cons.prems have "fold (pmt_es_step dev sel) es (p1, j1) = (p', j')" by simp
  from Cons.IH [OF this] pmt_es_step_frame [OF e] show ?case by (auto intro: opens_trans)
qed simp

abbreviation ca_key :: "program_ca_t \<Rightarrow> u16 \<times> u16" where "ca_key c \<equiv> (ca_pid c, ca_caid c)"

lemma ca_step_cases:
  assumes "ca_step dev sel d (cas, j) = Some (cas', j')"
  shows "cas' = cas \<and> j' = j
    \<or> (\<exists>c. cas' = cas @ [c] \<and> ca_key c \<notin> ca_key ` set cas \<and> j' = unblock_if dev sel (ca_pid c) j)"
proof -
  define pid :: u16 where "pid = push_bit 8 (ucast (p_data d ! 2 AND 0x1F)) OR ucast (p_data d ! 3)"
  define caid :: u16 where "caid = push_bit 8 (ucast (p_data d ! 0)) OR ucast (p_data d ! 1)"
  have "cas' = cas \<and> j' = j \<or> \<not> list_ex (\<lambda>ca. ca_pid ca = pid \<and> ca_caid ca = caid) cas
      \<and> cas' = cas @ [\<lparr>ca_pid = pid, ca_caid = caid\<rparr>] \<and> j' = unblock_if dev sel pid j"
    using assms unfolding ca_step_def Let_def prod.case pid_def [symmetric] caid_def [symmetric]
    by (auto split: if_splits)
  then show ?thesis by (fastforce simp: list_ex_iff)
qed

lemma ca_step_frame:
  assumes "ca_step dev sel d (cas, j) = Some (cas', j')"
  shows "(distinct (map ca_key cas) \<longrightarrow> distinct (map ca_key cas')) \<and> opens dev sel (ca_pids cas) (ca_pids cas') j j'"
  using ca_step_cases [OF assms]
proof (elim disjE exE)
  fix c assume a: "cas' = cas @ [c] \<and> ca_key c \<notin> ca_key ` set cas \<and> j' = unblock_if dev sel (ca_pid c) j"
  then have "ca_pids cas' = insert (pid13 (ca_pid c)) (ca_pids cas)" by (auto simp: ca_pids_def)
  with a opens_unblock [of dev sel "ca_pids cas" "ca_pid c" j] show ?thesis by simp
qed simp

text \<open>The loop of both tables over CA descriptors.\<close>

lemma ca_loop:
  assumes "fold_opt (ca_step dev sel) ds (cas, j) = Some (cas', j')"
  shows "(distinct (map ca_key cas) \<longrightarrow> distinct (map ca_key cas')) \<and> opens dev sel (ca_pids cas) (ca_pids cas') j j'"
  using assms
proof (induction ds arbitrary: cas j)
  case (Cons d ds)
  then obtain cas1 j1 where d: "ca_step dev sel d (cas, j) = Some (cas1, j1)"
      and r: "fold_opt (ca_step dev sel) ds (cas1, j1) = Some (cas', j')" by (auto split: option.splits)
  from Cons.IH [OF r] ca_step_frame [OF d] show ?case by (auto intro: opens_trans)
qed simp


section \<open>The handlers keep the invariant\<close>

text \<open>The invariant sees a program through these fields.\<close>

definition core :: "program_t \<Rightarrow> int \<times> int \<times> program_es_t list \<times> program_ca_t list" where
  "core p = (number p, pmt_pid p, es_list p, ca_list p)"

lemma core_eqD: "core p = core q \<Longrightarrow> number p = number q \<and> pmt_pid p = pmt_pid q \<and> es_list p = es_list q \<and> ca_list p = ca_list q"
  by (simp add: core_def)

lemma core_map: "map core ps = map core qs \<Longrightarrow> map (\<lambda>p. f (core p)) ps = map (\<lambda>p. f (core p)) qs"
proof -
  assume "map core ps = map core qs"
  then have "map f (map core ps) = map f (map core qs)" by (rule arg_cong)
  then show ?thesis by (simp add: comp_def)
qed

lemma core_bex:
  assumes "map core ps = map core qs" and "\<And>p q. core p = core q \<Longrightarrow> P p = P q"
  shows "(\<exists>p\<in>set ps. P p) = (\<exists>q\<in>set qs. P q)"
proof -
  have "\<exists>q\<in>set qs. P q" if m: "map core ps = map core qs" and p: "p \<in> set ps" "P p" for ps qs p
  proof -
    have "core p \<in> set (map core qs)" using p(1) unfolding m [symmetric] by simp
    then obtain q where "q \<in> set qs" "core p = core q" by auto
    with p(2) assms(2) [of p q] show ?thesis by blast
  qed
  then show ?thesis using assms(1) by metis
qed

text \<open>Two pools that agree in what the invariant sees.\<close>

definition same_core :: "psi_pool \<Rightarrow> psi_pool \<Rightarrow> bool" where
  "same_core pool pool' \<longleftrightarrow> map core (programs_list pool') = map core (programs_list pool)
     \<and> selected_programs_list pool' = selected_programs_list pool \<and> pool_ca_list pool' = pool_ca_list pool
     \<and> generated_pat pool' = generated_pat pool
     \<and> (\<forall>n. hooks pool' n = Some pmt_hook \<longrightarrow> hooks pool n = Some pmt_hook) \<and> hooks_opaque pool' = hooks_opaque pool"

lemma same_core_rows:
  assumes "map core (programs_list pool') = map core (programs_list pool)"
    and "selected_programs_list pool' = selected_programs_list pool"
  shows "selected_rows plib pool' = selected_rows plib pool"
proof -
  have "map (\<lambda>p. (number p, pmt_pid p)) (programs_list pool') = map (\<lambda>p. (number p, pmt_pid p)) (programs_list pool)"
    using core_map [OF assms(1), of "\<lambda>(a, b, _). (a, b)"] by (simp add: core_def)
  then show ?thesis
    unfolding selected_rows_def pat_rows_def is_program_selected_def assms(2) by simp
qed

lemma same_core_wanted:
  assumes "same_core pool pool'" shows "wanted_pids plib pool' = wanted_pids plib pool"
proof
  fix n
  from assms have m: "map core (programs_list pool') = map core (programs_list pool)"
    and sp: "selected_programs_list pool' = selected_programs_list pool" "pool_ca_list pool' = pool_ca_list pool"
    by (auto simp: same_core_def)
  have s: "is_program_selected pool' = is_program_selected pool"
    by (simp add: is_program_selected_def sp fun_eq_iff)
  have "(\<exists>p\<in>set (programs_list pool'). is_program_selected pool (number p) \<and> n \<in> es_pids p \<union> ca_pids (ca_list p))
      = (\<exists>p\<in>set (programs_list pool). is_program_selected pool (number p) \<and> n \<in> es_pids p \<union> ca_pids (ca_list p))"
    by (rule core_bex [OF m]) (auto simp: es_pids_def dest!: core_eqD)
  then show "wanted_pids plib pool' n = wanted_pids plib pool n"
    unfolding wanted_pids_def same_core_rows [OF m sp(1)] s sp by simp
qed

lemma psi_inv_core:
  assumes "psi_inv dev plib (pool, j)" and "same_core pool pool'" and "no_filter_cmd j j'"
  shows "psi_inv dev plib (pool', j')"
proof -
  from assms(2) have m: "map core (programs_list pool') = map core (programs_list pool)"
    and g: "generated_pat pool' = generated_pat pool" "selected_programs_list pool' = selected_programs_list pool"
    and h: "hooks_opaque pool' = hooks_opaque pool" "\<And>n. hooks pool' n = Some pmt_hook \<Longrightarrow> hooks pool n = Some pmt_hook"
    by (auto simp: same_core_def)
  have "map number (programs_list pool') = map number (programs_list pool)"
    using core_map [OF m, of fst] by (simp add: core_def)
  moreover have "(\<exists>p\<in>set (programs_list pool'). \<not> streams_ok p) = (\<exists>p\<in>set (programs_list pool). \<not> streams_ok p)"
    by (rule core_bex [OF m]) (auto simp: streams_ok_def dest!: core_eqD)
  moreover have "length (programs_list pool') = length (programs_list pool)" using map_eq_imp_length_eq [OF m] .
  ultimately have "tables_ok plib pool'"
    using assms(1) h by (auto simp: psi_inv_def tables_ok_def progs.keys_ok_def list_all_iff)
  then show ?thesis
    using assms(1,3) same_core_wanted [OF assms(2)] same_core_rows [OF m g(2), of plib] g(1)
    by (simp add: psi_inv_def filter_ok_def pid_wanted_def no_filter_cmd_def pat_for_selected_def)
qed

lemma rename_loop_core:
  assumes "rename_loop f n ps = Some (qs, seen)" and "\<And>p q. f p = Some q \<Longrightarrow> core q = core p"
  shows "map core qs = map core ps"
  using assms(1)
proof (induction ps arbitrary: qs seen)
  case (Cons p ps)
  then show ?case using assms(2) by (auto split: if_splits option.splits)
qed simp

lemma rename_programs_core:
  assumes "rename_programs f n pool = Some pool'" and "\<And>p q. f p = Some q \<Longrightarrow> core q = core p"
  shows "same_core pool pool'"
  using assms(1) rename_loop_core [of f n "programs_list pool", OF _ assms(2)]
  by (auto simp: rename_programs_def same_core_def split: option.splits)

lemma same_core_refl [simp]: "same_core pool pool"
  by (simp add: same_core_def)

lemma same_core_trans: "same_core a b \<Longrightarrow> same_core b c \<Longrightarrow> same_core a c"
  by (simp add: same_core_def)

lemma rename_all_core:
  assumes "fold_opt (\<lambda>x. rename_programs (f x) (g x)) xs pool = Some pool'"
    and "\<And>x p q. f x p = Some q \<Longrightarrow> core q = core p"
  shows "same_core pool pool'"
  by (rule fold_opt_inv [OF assms(1), of "same_core pool"])
    (auto intro: same_core_trans rename_programs_core assms(2))

lemma service_name_core: "get_service_name iconv ds p = Some q \<Longrightarrow> core q = core p"
  unfolding get_service_name_def
  by (erule fold_opt_inv [where I = "\<lambda>q. core q = core p"])
    (auto simp: service_descriptor_def core_def Let_def split: if_splits option.splits)

lemma vct_name_core: "vct_name iconv sn p = Some q \<Longrightarrow> core q = core p"
  by (auto simp: vct_name_def core_def Let_def)

lemma DumpSDT_core: "DumpSDT iconv t pool = Some pool' \<Longrightarrow> same_core pool pool'"
proof -
  have loop: "same_core pool pool2"
    if "fold_opt (\<lambda>(sid, ds). rename_programs (get_service_name iconv ds) (uint sid)) xs pool1 = Some pool2"
      and "same_core pool pool1" for xs pool1 pool2
    using same_core_trans [OF that(2) rename_all_core [OF that(1) [unfolded case_prod_beta]]] service_name_core by blast
  assume "DumpSDT iconv t pool = Some pool'"
  then consider "pool' = pool" | pool2 where
      "fold_opt (\<lambda>(sid, ds). rename_programs (get_service_name iconv ds) (uint sid)) (t_services t)
         (pool\<lparr>network_id := uint (t_network_id t), ts_id := uint (t_extension t)\<rparr>) = Some pool2"
      "pool' = pool2\<lparr>stored_sdt := Some t\<rparr>"
    unfolding DumpSDT_def Let_def by (auto split: if_splits option.splits)
  then show ?thesis
  proof cases
    case 2
    from loop [OF 2(1)] have "same_core pool pool2" by (simp add: same_core_def)
    with 2(2) show ?thesis by (simp add: same_core_def)
  qed simp
qed

lemma DumpVCT_core: "DumpAtscVCTChannels iconv t pool = Some pool' \<Longrightarrow> same_core pool pool'"
  unfolding DumpAtscVCTChannels_def case_prod_beta
  by (rule rename_all_core [where f = "\<lambda>x. vct_name iconv (snd x)" and g = "\<lambda>x. uint (fst x)"]) (auto dest: vct_name_core)

lemma DumpNIT_core: "DumpNIT iconv nid ds tss pool = Some pool' \<Longrightarrow> same_core pool pool'"
  by (auto simp: DumpNIT_def same_core_def Let_def split: option.splits)


lemma bex_update_mono:
  assumes "i < length xs" and "P (xs ! i) \<Longrightarrow> P y"
  shows "(\<exists>x\<in>set (xs[i := y]). P x) \<longleftrightarrow> (\<exists>x\<in>set xs. P x) \<or> P y"
proof -
  have "set (xs[i := y]) \<union> {xs ! i} = insert y (set xs)"
    using assms(1) set_update_subset_insert [of xs i y]
    by (auto simp: in_set_conv_nth nth_list_update) metis+
  then have m: "x \<in> insert y (set xs) \<longleftrightarrow> x \<in> set (xs[i := y]) \<or> x = xs ! i" for x by blast
  show ?thesis
  proof
    assume "\<exists>x\<in>set (xs[i := y]). P x"
    then obtain x where "x \<in> set (xs[i := y])" "P x" by blast
    with m [of x] show "(\<exists>x\<in>set xs. P x) \<or> P y" by auto
  next
    assume "(\<exists>x\<in>set xs. P x) \<or> P y"
    then show "\<exists>x\<in>set (xs[i := y]). P x" using m assms(2) set_update_memI [OF assms(1), of y] by auto
  qed
qed

lemma psi_inv_PMT:
  assumes inv: "psi_inv dev plib (pool, j)" and d: "DumpPMT lib dev i t raw (pool, j) = Some (pool', j')"
    and i: "i < length (programs_list pool)" and n: "uint (t_program_number t) = number (programs_list pool ! i)"
  shows "psi_inv dev plib (pool', j')"
proof -
  define p0 where "p0 = programs_list pool ! i"
  define sel where "sel = is_program_selected pool (number p0)"
  obtain p1 j1 where es: "fold (pmt_es_step dev sel) (t_es t) (p0\<lparr>pcr_pid := uint (t_pcr_pid t)\<rparr>, j) = (p1, j1)"
    by fastforce
  obtain cas j2 where ca: "fold_opt (ca_step dev sel) (t_descriptors t) (ca_list p1, j1) = Some (cas, j2)"
    and pool': "pool' = pool\<lparr>programs_list := (programs_list pool)[i := p1\<lparr>ca_list := cas\<rparr>]\<rparr>"
    and j': "\<exists>r. joker_en50221_pmt_update lib dev (number p1) raw j2 = Some (r, j')"
    using d unfolding DumpPMT_def Let_def prod.case n p0_def [symmetric] sel_def [symmetric] es
    by (auto simp: case_prod_beta split: option.splits)
  define p' where "p' = p1\<lparr>ca_list := cas\<rparr>"
  let ?ps = "programs_list pool"
  have p0: "p0 \<in> set ?ps" using i by (simp add: p0_def)
  have same: "number p' = number p0" "pmt_pid p' = pmt_pid p0" "ca_list p1 = ca_list p0"
    and o1: "opens dev sel (es_pids p0) (es_pids p') j j1"
    using pmt_es_loop [OF es] by (auto simp: p'_def es_pids_def)
  have o2: "opens dev sel (ca_pids (ca_list p0)) (ca_pids (ca_list p')) j1 j2"
    using ca_loop [OF ca] same(3) by (simp add: p'_def)
  have nf: "no_filter_cmd j2 j'" using j' no_filter_pmt_update by blast
  from inv have io: "io_mux_opaq j" and f: "\<And>n. filter_of j n \<Longrightarrow> pid_wanted plib pool n"
      "\<And>n. usb_ok dev \<Longrightarrow> pid_wanted plib pool n \<Longrightarrow> filter_of j n"
    by (auto simp: psi_inv_def filter_ok_def)
  have io1: "io_mux_opaq j1" using o1 io by (simp add: opens_def)
  have w: "sel \<and> n \<in> es_pids p0 \<union> ca_pids (ca_list p0) \<longrightarrow> pid_wanted plib pool n" for n
    using p0 by (auto simp: pid_wanted_def wanted_pids_def sel_def)
  have f2: "filter_of j' n \<Longrightarrow> filter_of j n \<or> sel \<and> n \<in> es_pids p' \<union> ca_pids (ca_list p')" for n
    using opens_filter(1) [OF o2, of n] opens_filter(1) [OF o1, of n] nf by (auto simp: no_filter_cmd_def)
  have f3: "filter_of j' n" if "usb_ok dev" "pid_wanted plib pool n \<or> sel \<and> n \<in> es_pids p' \<union> ca_pids (ca_list p')" for n
    using that f(2) [OF that(1)] w opens_filter(2) [OF o1 that(1) io, of n] opens_filter(2) [OF o2 that(1) io1, of n]
      nf o1 by (auto simp: no_filter_cmd_def opens_def)
  have ps': "programs_list pool' = ?ps[i := p']" by (simp add: pool' p'_def)
  have rows: "map (\<lambda>p. (number p, pmt_pid p)) (?ps[i := p']) = map (\<lambda>p. (number p, pmt_pid p)) ?ps"
    using i same by (simp add: map_update p0_def list_update_same_conv [THEN iffD2])
  have sr: "selected_rows plib pool' = selected_rows plib pool"
    unfolding selected_rows_def pat_rows_def ps' rows by (simp add: pool' is_program_selected_def)
  have "(\<exists>p\<in>set (?ps[i := p']). is_program_selected pool (number p) \<and> n \<in> es_pids p \<union> ca_pids (ca_list p))
      \<longleftrightarrow> (\<exists>p\<in>set ?ps. is_program_selected pool (number p) \<and> n \<in> es_pids p \<union> ca_pids (ca_list p))
        \<or> is_program_selected pool (number p') \<and> n \<in> es_pids p' \<union> ca_pids (ca_list p')" for n
    using o1 o2 by (intro bex_update_mono [OF i]) (auto simp: opens_def same p0_def [symmetric])
  then have w': "wanted_pids plib pool' n \<longleftrightarrow> wanted_pids plib pool n \<or> sel \<and> n \<in> es_pids p' \<union> ca_pids (ca_list p')" for n
    unfolding wanted_pids_def sr ps' by (auto simp: sel_def same is_program_selected_def pool')
  have "io_mux_opaq j'" using o1 o2 nf io by (simp add: opens_def no_filter_cmd_def)
  moreover have "tables_ok plib pool'"
  proof -
    have t: "tables_ok plib pool" using inv by (simp add: psi_inv_def)
    then have s0: "streams_ok p0" using p0 by (simp add: tables_ok_def list_all_iff)
    have "streams_ok p'" using s0 pmt_es_loop [OF es] ca_loop [OF ca] by (simp add: streams_ok_def p'_def)
    then have "list_all streams_ok (?ps[i := p'])"
      using t set_update_subset_insert [of ?ps i p'] by (auto simp: tables_ok_def list_all_iff)
    moreover have "progs.keys_ok (?ps[i := p'])"
      using t progs.update_distinct [of ?ps p' i] same(1) by (simp add: tables_ok_def p0_def)
    ultimately show ?thesis using t by (simp add: tables_ok_def ps') (simp add: pool')
  qed
  moreover have "generated_pat pool' = pat_for_selected plib pool'"
    using inv by (simp add: psi_inv_def pat_for_selected_def sr) (simp add: pool')
  ultimately show ?thesis
    using f(1) f2 f3 by (auto simp: psi_inv_def filter_ok_def w' pid_wanted_def)
qed


lemma psi_inv_CAT:
  assumes inv: "psi_inv dev plib (pool, j)" and d: "DumpCAT dev ds (pool, j) = Some (pool', j')"
  shows "psi_inv dev plib (pool', j')"
proof -
  define sel where "sel \<longleftrightarrow> selected_programs_list pool \<noteq> []"
  from d obtain cas where ca: "fold_opt (ca_step dev sel) ds (pool_ca_list pool, j) = Some (cas, j')"
    and pool': "pool' = pool\<lparr>pool_ca_list := cas\<rparr>"
    unfolding DumpCAT_def Let_def prod.case sel_def [symmetric] by (auto split: option.splits)
  have o1: "opens dev sel (ca_pids (pool_ca_list pool)) (ca_pids cas) j j'" using ca_loop [OF ca] by simp
  from inv have io: "io_mux_opaq j" and f: "\<And>n. filter_of j n \<Longrightarrow> pid_wanted plib pool n"
      "\<And>n. usb_ok dev \<Longrightarrow> pid_wanted plib pool n \<Longrightarrow> filter_of j n"
    by (auto simp: psi_inv_def filter_ok_def)
  have "sel \<and> n \<in> ca_pids (pool_ca_list pool) \<longrightarrow> pid_wanted plib pool n" for n by (auto simp: pid_wanted_def wanted_pids_def sel_def)
  then have f2: "filter_of j' n \<Longrightarrow> pid_wanted plib pool n \<or> sel \<and> n \<in> ca_pids cas"
    "usb_ok dev \<Longrightarrow> pid_wanted plib pool n \<or> sel \<and> n \<in> ca_pids cas \<Longrightarrow> filter_of j' n" for n
    using f opens_filter [OF o1, of n] io by blast+
  moreover have "selected_rows plib pool' = selected_rows plib pool"
    by (simp add: pool' selected_rows_def pat_rows_def is_program_selected_def)
  moreover from this have "wanted_pids plib pool' n \<longleftrightarrow> wanted_pids plib pool n \<or> sel \<and> n \<in> ca_pids cas" for n
    using o1 by (auto simp: wanted_pids_def sel_def pool' is_program_selected_def opens_def)
  ultimately show ?thesis
    using inv o1 by (auto simp: psi_inv_def filter_ok_def pid_wanted_def pat_for_selected_def opens_def tables_ok_def pool')
qed

lemma selected_rows_snoc:
  assumes "programs_list pool' = programs_list pool @ [p]" and "selected_programs_list pool' = selected_programs_list pool"
  shows "selected_rows plib pool' = selected_rows plib pool
    @ (if attached plib (length (programs_list pool)) \<and> is_program_selected pool (number p) then [(number p, pmt_pid p)] else [])"
  using assms by (simp add: selected_rows_def pat_rows_def is_program_selected_def enumerate_append_eq)

lemma psi_inv_pat_step:
  assumes inv: "psi_inv dev plib s" and d: "pat_step plib dev e s = Some s'"
  shows "psi_inv dev plib s'"
proof -
  obtain num pid where e: "e = (num, pid)" by fastforce
  obtain pool j where s: "s = (pool, j)" by fastforce
  let ?k = "length (programs_list pool)"
  let ?p = "pat_program plib ?k num pid"
  define pool1 where "pool1 = pool\<lparr>programs_list := programs_list pool @ [?p]\<rparr>"
  define sel where "sel = is_program_selected pool (uint num)"
  show ?thesis
  proof (cases "list_ex (\<lambda>p. number p = uint num) (programs_list pool) \<or> num = 0x0 \<and> pid = 0x10")
    case True
    with d inv show ?thesis by (simp add: pat_step_def e s)
  next
    case False
    from inv have io: "io_mux_opaq j" and f: "\<And>n. filter_of j n \<Longrightarrow> pid_wanted plib pool n"
          "\<And>n. usb_ok dev \<Longrightarrow> pid_wanted plib pool n \<Longrightarrow> filter_of j n"
        and t: "tables_ok plib pool" and g: "generated_pat pool = pat_for_selected plib pool"
      by (auto simp: psi_inv_def filter_ok_def s)
    have sel1: "is_program_selected pool1 = is_program_selected pool"
      by (simp add: pool1_def is_program_selected_def fun_eq_iff)
    have p: "number ?p = uint num" "pmt_pid ?p = uint pid" "es_list ?p = []" "ca_list ?p = []"
      by (simp_all add: pat_program_def)
    have t1: "progs.keys_ok (programs_list pool @ [?p]) \<and> list_all streams_ok (programs_list pool @ [?p])"
      using t False by (auto simp: tables_ok_def progs.keys_ok_def p streams_ok_def list_ex_iff)
    have rows: "selected_rows plib q = selected_rows plib pool @ (if attached plib ?k \<and> sel then [(uint num, uint pid)] else [])"
      if "programs_list q = programs_list pool1" "selected_programs_list q = selected_programs_list pool1" for q
      using selected_rows_snoc [of q pool ?p plib] that p by (simp add: pool1_def sel_def)
    have w: "wanted_pids plib q n \<longleftrightarrow> wanted_pids plib pool n \<or> attached plib ?k \<and> sel \<and> n = pid13 pid"
      if "programs_list q = programs_list pool1" "selected_programs_list q = selected_programs_list pool1"
        "pool_ca_list q = pool_ca_list pool1" for q n
      using nat_mod_distrib [of "uint pid" 8192] that
      unfolding wanted_pids_def rows [OF that(1,2)]
      by (auto simp: pool1_def is_program_selected_def es_pids_def ca_pids_def p pid13_def)
    show ?thesis
    proof (cases "attached plib ?k")
      case na: False
      with d False have "s' = (pool1, j)"
        by (auto simp: pat_step_def e s attached_def pool1_def Let_def split: if_splits)
      with na g rows [of pool1] w [of pool1] io f t t1 show ?thesis
        by (auto simp: psi_inv_def filter_ok_def pid_wanted_def tables_ok_def pool1_def pat_for_selected_def less_Suc_eq)
    next
      case at: True
      define pool2 where "pool2 = (if sel then add_program_to_pat num pid pool1 else pool1)"
      have s': "s' = (pool2\<lparr>hooks := (hooks pool2)(unat pid := Some pmt_hook),
            hooks_opaque := (hooks_opaque pool2)(unat pid := Some ?k)\<rparr>, unblock_if dev sel pid j)"
        using d False at unfolding pat_step_def e s prod.case Let_def pool1_def [symmetric] sel1 sel_def [symmetric] pool2_def
        by (auto simp: attached_def split: if_splits)
      have fr: "programs_list pool2 = programs_list pool1" "selected_programs_list pool2 = selected_programs_list pool1"
        "pool_ca_list pool2 = pool_ca_list pool1" "hooks pool2 = hooks pool" "hooks_opaque pool2 = hooks_opaque pool"
        by (auto simp: pool2_def add_program_to_pat_def Let_def pool1_def split: option.split)
      have "generated_pat pool2 = pat_for_selected plib pool2"
        using g at unfolding pat_for_selected_def rows [OF fr(1,2)]
        by (auto simp: pool2_def add_program_to_pat_def pool1_def)
      moreover have "tables_ok plib (fst s')"
        using t t1 at by (auto simp: s' tables_ok_def fr pool1_def less_Suc_eq)
      moreover have "pid_wanted plib (fst s') n \<longleftrightarrow> pid_wanted plib pool n \<or> sel \<and> n = pid13 pid" for n
        using w [of "fst s'" n] at fr(1-3) by (auto simp: pid_wanted_def s')
      then have "filter_ok dev plib (fst s') (snd s')"
        using io f filter_of_unblock [where dev = dev and sel = sel and pid = pid and j = j] by (auto simp: filter_ok_def s')
      ultimately show ?thesis
        using rows [of "fst s'"] rows [OF fr(1,2)] fr(1-3)
        by (auto simp: psi_inv_def s' pat_for_selected_def)
    qed
  qed
qed

lemma psi_inv_PAT:
  assumes "psi_inv dev plib s" and "DumpPAT plib dev pat s = Some s'" shows "psi_inv dev plib s'"
  by (rule fold_opt_inv [where I = "psi_inv dev plib", OF assms(2) [unfolded DumpPAT_def] assms(1)])
    (rule psi_inv_pat_step)


section \<open>Every interleaving\<close>

text \<open>
  The steps: libdvbpsi delivers a table (a PMT only to the program it was attached for), the hooks
  are installed, an SDT packet is generated, or the EN 50221 layer does anything it can do.
\<close>

inductive psi_step ::
  "psi_lib \<Rightarrow> en_lib \<Rightarrow> 'd usb_dev \<Rightarrow> ('d, 'z) psi_st \<Rightarrow> ('d, 'z) psi_st \<Rightarrow> bool" for plib lib dev where
  ps_pat: "DumpPAT plib dev pat s = Some s' \<Longrightarrow> psi_step plib lib dev s s'"
| ps_pmt: "i < length (programs_list pool) \<Longrightarrow> uint (t_program_number t) = number (programs_list pool ! i) \<Longrightarrow>
    DumpPMT lib dev i t raw (pool, j) = Some s' \<Longrightarrow> psi_step plib lib dev (pool, j) s'"
| ps_cat: "DumpCAT dev ds s = Some s' \<Longrightarrow> psi_step plib lib dev s s'"
| ps_sdt: "DumpSDT iconv sdt pool = Some pool' \<Longrightarrow> psi_step plib lib dev (pool, j) (pool', j)"
| ps_vct: "DumpAtscVCTChannels iconv chans pool = Some pool' \<Longrightarrow> psi_step plib lib dev (pool, j) (pool', j)"
| ps_nit: "DumpNIT iconv nid ds tss pool = Some pool' \<Longrightarrow> psi_step plib lib dev (pool, j) (pool', j)"
| ps_tot: "psi_step plib lib dev (pool, j) (pool, DumpTOT to_unix utc j)"
| ps_hooks: "psi_step plib lib dev (pool, j) (install_hooks pool, j)"
| ps_sdt_pkt: "psi_step plib lib dev (pool, j) (snd (generate_sdt_pkt secs ok i pool), j)"
| ps_en: "en_step lib dev j j' \<Longrightarrow> psi_step plib lib dev (pool, j) (pool, j')"

inductive_cases psi_stepE: "psi_step plib lib dev s s'"

lemma generate_core:
  "same_core pool (snd (generate_pat_pkt plib ok pool))"
  "same_core pool (snd (generate_sdt_pkt secs ok i pool))"
  "same_core pool (install_hooks pool)"
proof -
  have "core (p\<lparr>generated_sdt_pkt := True\<rparr>) = core p" for p by (simp add: core_def)
  then have "map core ((programs_list pool)[i := (programs_list pool ! i)\<lparr>generated_sdt_pkt := True\<rparr>]) = map core (programs_list pool)"
    by (metis list_update_id map_update)
  then show "same_core pool (snd (generate_sdt_pkt secs ok i pool))"
    by (simp add: generate_sdt_pkt_def same_core_def Let_def)
qed (auto simp: generate_pat_pkt_def install_hooks_def same_core_def split: option.split)

lemma psi_inv_step: "psi_step plib lib dev s s' \<Longrightarrow> psi_inv dev plib s \<Longrightarrow> psi_inv dev plib s'"
proof (induction rule: psi_step.induct)
  case (ps_pmt i pool t raw j s')
  then show ?case by (cases s') (auto intro: psi_inv_PMT)
next
  case (ps_cat ds s s')
  then show ?case by (cases s; cases s') (auto intro: psi_inv_CAT)
next
  case (ps_tot pool to_unix utc j)
  then show ?case
    by (rule psi_inv_core) (simp_all add: DumpTOT_def joker_en50221_set_dvbtime_def)
next
  case (ps_en j j' pool)
  then show ?case by (auto intro: psi_inv_core no_filter_en_step)
qed (auto intro: psi_inv_PAT psi_inv_core DumpSDT_core DumpVCT_core DumpNIT_core generate_core)

interpretation psi: machine "psi_step plib lib dev" "psi_inv dev plib" for plib lib dev
  by unfold_locales (rule psi_inv_step)

text \<open>A pool before the first table.\<close>

definition no_tables :: "psi_pool \<Rightarrow> bool" where
  "no_tables pool \<longleftrightarrow> programs_list pool = [] \<and> pool_ca_list pool = [] \<and> generated_pat pool = None
     \<and> (\<forall>n. hooks pool n = None)"

lemma filter_of_service:
  assumes "ts_filter_only_service_pids dev j = (0, k)" shows "io_mux_opaq k \<and> filter_of k = service_pid"
proof -
  have ok: "fst (send_seq (joker_cmd0 dev) service_script j) = 0" and k: "k = snd (send_seq (joker_cmd0 dev) service_script j)"
    using assms by (auto simp: only_service_pids_seq to_eio_def case_prod_beta split: if_splits)
  have "io_mux_opaq j"
  proof (rule ccontr)
    assume n: "\<not> io_mux_opaq j"
    obtain c cs where "service_script = c # cs" by (simp add: service_script_def)
    with ok have "fst (send_seq (joker_cmd0 dev) (c # cs) j) = 0" by simp
    with cmdch.cmd_not_ready [OF n, of dev c] show False by (auto simp: case_prod_beta Let_def split: if_splits)
  qed
  then show ?thesis
    using cmdch.seq_ok_sent [OF ok] cmdch.seq_ready [of dev service_script j]
    by (simp add: k filter_of_def filter_run_service)
qed

lemma psi_inv_start:
  assumes "ts_filter_only_service_pids dev j = (0, k)" and "no_tables pool" shows "psi_inv dev plib (pool, k)"
  using filter_of_service [OF assms(1)] assms(2)
  by (auto simp: psi_inv_def no_tables_def tables_ok_def filter_ok_def pid_wanted_def pat_for_selected_def selected_rows_def pat_rows_def
      wanted_pids_def progs.keys_ok_def ca_pids_def fun_eq_iff)

section \<open>Properties\<close>

text \<open>C2 (psi_filter_exact): from a filter that is closed but for the service PIDs, and in every interleaving of
  tables with CAM activity, the device passes nothing but the service PIDs, the PMT, stream and CA PIDs of
  the selected programs, and the CA PIDs of the CAT when a program is selected, whichever commands fail; and
  if the device takes every command it passes all of them. (The handlers drop the result of the command that
  opens a PID, so without this condition a PID of a selected program can stay closed.)\<close>

theorem psi_filter_exact:
  assumes "ts_filter_only_service_pids dev j0 = (0, j)" and "no_tables pool0"
    and "(psi_step plib lib dev)\<^sup>*\<^sup>* (pool0, j) (pool, j')"
  shows "(filter_of j' n \<longrightarrow> service_pid n \<or> wanted_pids plib pool n)
    \<and> (usb_ok dev \<longrightarrow> (filter_of j' n \<longleftrightarrow> service_pid n \<or> wanted_pids plib pool n))"
  using psi.reach_inv [OF assms(3) psi_inv_start [OF assms(1,2)]] by (auto simp: psi_inv_def filter_ok_def pid_wanted_def)

text \<open>C16 (psi_tables_consistent): in every interleaving no program and no elementary stream is listed twice, no CA
  entry is repeated within a program, and every hooked PMT PID has the program its decoder belongs to.\<close>

theorem psi_tables_consistent:
  assumes "ts_filter_only_service_pids dev j0 = (0, j)" and "no_tables pool0"
    and "(psi_step plib lib dev)\<^sup>*\<^sup>* (pool0, j) (pool, j')"
  shows "distinct (map number (programs_list pool)) \<and> list_all streams_ok (programs_list pool)
    \<and> (hooks pool n = Some pmt_hook \<longrightarrow> (\<exists>k<length (programs_list pool). hooks_opaque pool n = Some k \<and> attached plib k))"
  using psi.reach_inv [OF assms(3) psi_inv_start [OF assms(1,2)]]
  by (simp add: psi_inv_def tables_ok_def progs.keys_ok_def)

text \<open>No handler touches the packet of the PAT.\<close>

lemma fold_pat_pkt:
  "DumpPAT plib dev pat s = Some s' \<Longrightarrow> generated_pat_pkt (fst s') = generated_pat_pkt (fst s)"
  unfolding DumpPAT_def
  by (erule fold_opt_inv [where I = "\<lambda>t. generated_pat_pkt (fst t) = generated_pat_pkt (fst s)"])
    (auto simp: pat_step_def add_program_to_pat_def Let_def split: if_splits prod.splits option.splits)

lemma rename_pat_pkt:
  "fold_opt (\<lambda>(x, y). rename_programs (f y) (g x)) xs pool = Some pool' \<Longrightarrow> generated_pat_pkt pool' = generated_pat_pkt pool"
  by (erule fold_opt_inv [where I = "\<lambda>q. generated_pat_pkt q = generated_pat_pkt pool"])
    (auto simp: rename_programs_def split: option.splits)

definition pat_pkt_is :: "byte list option \<Rightarrow> ('d, 'z) psi_st \<Rightarrow> bool" where
  "pat_pkt_is p s \<longleftrightarrow> generated_pat_pkt (fst s) = p"

interpretation psi_pkt: machine "psi_step plib lib dev" "pat_pkt_is p" for plib lib dev p
proof
  fix s t :: "('a, 'b) psi_st"
  show "psi_step plib lib dev s t \<Longrightarrow> pat_pkt_is p s \<Longrightarrow> pat_pkt_is p t"
    by (induction rule: psi_step.induct)
      (auto simp: pat_pkt_is_def fold_pat_pkt DumpPMT_def DumpCAT_def DumpSDT_def DumpAtscVCTChannels_def DumpNIT_def
        install_hooks_def generate_sdt_pkt_def Let_def case_prod_beta
        split: if_splits option.splits prod.splits dest!: rename_pat_pkt)
qed


text \<open>What \<open>get_programs\<close> returns when the TS thread makes any steps while it waits.\<close>

lemma wait_until_reach:
  assumes "\<And>s. r\<^sup>*\<^sup>* s (tick s)" shows "r\<^sup>*\<^sup>* s (wait_until ready tick n s)"
proof (induction n arbitrary: s)
  case (Suc n)
  then show ?case using assms [of s] by (auto intro: rtranclp_trans)
qed simp

definition late_hooks :: "psi_pool \<Rightarrow> psi_pool" where
  "late_hooks pool = pool\<lparr>hooks := (hooks pool)(0x11 := Some sdt_hook, 0x1FFB := Some atsc_hook)\<rparr>"

lemma get_programs_reach:
  fixes pool0 :: psi_pool and j0 :: "('d, 'z) joker_en_h_scheme"
  assumes "get_programs plib tick ok (pool0, j0) = Some (True, pool, j)"
    and "\<And>s. (psi_step plib lib dev)\<^sup>*\<^sup>* s (tick s)"
  shows "\<exists>pool1 pool2. (psi_step plib lib dev)\<^sup>*\<^sup>*
      (pool0\<lparr>pat_dvbpsi := True, si_dvbpsi := True, sdt_dvbpsi := True, cat_dvbpsi := True\<rparr>, j0) (pool1, j)
    \<and> pool2 = late_hooks pool1
    \<and> pool = (if selected_programs_list pool2 \<noteq> [] then snd (generate_pat_pkt plib ok pool2) else pool2)"
proof -
  define q where "q = pool0\<lparr>pat_dvbpsi := True, si_dvbpsi := True, sdt_dvbpsi := True, cat_dvbpsi := True\<rparr>"
  define w1 where "w1 = wait_until (\<lambda>(pool, _). programs_list pool \<noteq> []) tick 20 (install_hooks q, j0)"
  define w2 where "w2 = wait_until (\<lambda>(pool, _). pmts_parsed pool) tick 20 w1"
  have "(psi_step plib lib dev)\<^sup>*\<^sup>* (q, j0) (install_hooks q, j0)" by (intro r_into_rtranclp ps_hooks)
  also have "(psi_step plib lib dev)\<^sup>*\<^sup>* (install_hooks q, j0) w1" unfolding w1_def by (rule wait_until_reach [OF assms(2)])
  also have "(psi_step plib lib dev)\<^sup>*\<^sup>* w1 w2" unfolding w2_def by (rule wait_until_reach [OF assms(2)])
  finally have r: "(psi_step plib lib dev)\<^sup>*\<^sup>* (q, j0) w2" .
  have ok: "psi_new plib 0 \<and> psi_new plib 1 \<and> psi_new plib 2 \<and> psi_new plib 3
      \<and> psi_attach plib 0 \<and> psi_attach plib 1 \<and> psi_attach plib 2 \<and> psi_attach plib 3"
    using assms(1) unfolding get_programs_def by (simp add: Let_def case_prod_beta split: if_splits)
  obtain p1 j1 p2 j2 where w: "w1 = (p1, j1)" "w2 = (p2, j2)" by fastforce
  have "wait_until (\<lambda>(pool, _). programs_list pool \<noteq> []) tick 20
      (install_hooks (pool0\<lparr>pat_dvbpsi := True, si_dvbpsi := True, sdt_dvbpsi := True, cat_dvbpsi := True\<rparr>), j0) = (p1, j1)"
    "wait_until (\<lambda>(pool, _). pmts_parsed pool) tick 20 (p1, j1) = (p2, j2)"
    using w by (simp_all add: w1_def w2_def q_def)
  then have "pool = (if selected_programs_list (late_hooks p2) \<noteq> [] then snd (generate_pat_pkt plib ok (late_hooks p2)) else late_hooks p2)
      \<and> j = j2"
    using assms(1) ok unfolding get_programs_def by (auto simp: Let_def late_hooks_def)
  with r w show ?thesis by (intro exI [of _ p2] exI [of _ "late_hooks p2"]) (simp add: q_def)
qed

text \<open>C8 (get_programs_pat): on a pool without tables and without a generated PAT packet, as the first start leaves it
  (a restart keeps the old packet), after the filter for the service PIDs was set: when \<open>get_programs\<close> returns the
  list, whatever tables came while it waited, the PAT packet it leaves for the outgoing stream is generated from
  exactly the selected programs in the list, with their PMT PIDs, in the order of the PAT; without such a program
  there is none.\<close>

theorem get_programs_pat:
  assumes "ts_filter_only_service_pids dev j0 = (0, j)" and "no_tables pool0" and "generated_pat_pkt pool0 = None"
    and "get_programs plib tick True (pool0, j) = Some (True, pool, j')"
    and "\<And>s. (psi_step plib lib dev)\<^sup>*\<^sup>* s (tick s)"
  shows "generated_pat_pkt pool
    = (if selected_rows plib pool = [] then None
       else Some (concat (psi_pkts_generate (pat_sections plib (the (pat_for_selected plib pool))) 0)))"
proof -
  define q where "q = pool0\<lparr>pat_dvbpsi := True, si_dvbpsi := True, sdt_dvbpsi := True, cat_dvbpsi := True\<rparr>"
  from get_programs_reach [OF assms(4,5)] obtain pool1 where r: "(psi_step plib lib dev)\<^sup>*\<^sup>* (q, j) (pool1, j')"
    and p: "pool = (if selected_programs_list (late_hooks pool1) \<noteq> [] then snd (generate_pat_pkt plib True (late_hooks pool1)) else late_hooks pool1)"
    unfolding q_def by blast
  have "psi_inv dev plib (q, j)" by (rule psi_inv_start [OF assms(1)]) (use assms(2) in \<open>simp add: no_tables_def q_def\<close>)
  from psi.reach_inv [OF r this] have g: "generated_pat pool1 = pat_for_selected plib pool1" by (simp add: psi_inv_def)
  have n: "generated_pat_pkt pool1 = None"
    using psi_pkt.reach_inv [OF r, of None] assms(3) by (simp add: pat_pkt_is_def q_def)
  have l: "same_core pool1 (late_hooks pool1)" "generated_pat_pkt (late_hooks pool1) = None"
      "generated_pat (late_hooks pool1) = generated_pat pool1"
    by (auto simp: same_core_def late_hooks_def n)
  have "same_core pool1 pool" using same_core_trans [OF l(1) generate_core(1)] l(1) p by simp
  then have rows: "selected_rows plib pool = selected_rows plib pool1" by (intro same_core_rows) (auto simp: same_core_def)
  have "selected_rows plib pool1 \<noteq> [] \<Longrightarrow> selected_programs_list pool1 \<noteq> []"
    by (auto simp: selected_rows_def is_program_selected_def)
  then show ?thesis
    using p l g rows by (auto simp: generate_pat_pkt_def pat_for_selected_def late_hooks_def)
qed


section \<open>Faults and flaws\<close>

text \<open>pmt_fault_iff: a PMT makes its handler read out of bounds exactly when one of its program descriptors is a CA
  descriptor of less than four bytes (the length is not checked there, as it is for the language
  descriptors), or when the codecs read behind the raw section.\<close>

lemma ca_loop_fault:
  "fold_opt (ca_step dev sel) ds s = None \<longleftrightarrow> (\<exists>d\<in>set ds. i_tag d = 0x09 \<and> length (p_data d) < 4)"
proof (induction ds arbitrary: s)
  case (Cons d ds)
  have "ca_step dev sel d s = None \<longleftrightarrow> i_tag d = 0x09 \<and> length (p_data d) < 4"
    by (simp add: ca_step_def case_prod_beta Let_def)
  with Cons show ?case by (auto split: option.split)
qed simp

theorem pmt_fault_iff:
  "DumpPMT lib dev i t raw (pool, j) = None \<longleftrightarrow>
     (\<exists>d\<in>set (t_descriptors t). i_tag d = 0x09 \<and> length (p_data d) < 4) \<or> pmt_codec lib raw = None"
proof -
  define sel where "sel = is_program_selected pool (uint (t_program_number t))"
  obtain p1 j1 where es: "fold (pmt_es_step dev sel) (t_es t) ((programs_list pool ! i)\<lparr>pcr_pid := uint (t_pcr_pid t)\<rparr>, j) = (p1, j1)"
    by fastforce
  have "DumpPMT lib dev i t raw (pool, j) = None \<longleftrightarrow>
      fold_opt (ca_step dev sel) (t_descriptors t) (ca_list p1, j1) = None \<or> pmt_codec lib raw = None"
  proof (cases "fold_opt (ca_step dev sel) (t_descriptors t) (ca_list p1, j1)")
    case (Some w)
    then show ?thesis
      using pmt_update_none [of lib dev "number p1" raw "snd w"]
      unfolding DumpPMT_def Let_def prod.case sel_def [symmetric] es
      by (cases "joker_en50221_pmt_update lib dev (number p1) raw (snd w)") (simp_all add: case_prod_beta)
  qed (simp add: DumpPMT_def Let_def sel_def [symmetric] es)
  then show ?thesis unfolding ca_loop_fault .
qed

text \<open>sdt_hook_gets_program: a PAT that puts a PMT on PID 0x11 leaves the program as the opaque pointer of that
  PID; when \<open>get_programs\<close> installs the SDT hook there, the hook is called with a program where it
  expects the pool.\<close>

theorem sdt_hook_gets_program:
  assumes "num \<noteq> 0" and "programs_list pool = []" and "attached plib 0"
  shows "\<exists>pool' j'. DumpPAT plib dev [(num, 0x11)] (pool, j) = Some (pool', j')
    \<and> hooks (late_hooks pool') 0x11 = Some sdt_hook \<and> hooks_opaque (late_hooks pool') 0x11 = Some 0"
  using assms by (simp add: DumpPAT_def pat_step_def Let_def attached_def late_hooks_def)

text \<open>fresh_program_flags: the memory of a new program is not cleared: after its PAT entry and its PMT, a program
  whose streams are all of other types still has the audio and video flags that \<open>malloc\<close> returned.\<close>

lemma es_loop_flags:
  assumes "\<forall>e\<in>set es. snd (parse_type (t_es_type e) False False) = (False, False)"
  shows "has_audio (fst (fold (pmt_es_step dev sel) es (p, j))) = has_audio p
    \<and> has_video (fst (fold (pmt_es_step dev sel) es (p, j))) = has_video p"
  using assms
proof (induction es arbitrary: p j)
  case (Cons e es)
  obtain p1 j1 where e: "pmt_es_step dev sel e (p, j) = (p1, j1)" by fastforce
  then have "has_audio p1 = has_audio p" "has_video p1 = has_video p"
    using Cons.prems by (auto simp: pmt_es_step_def case_prod_beta Let_def split: if_splits)
  with Cons e show ?case by simp
qed simp

theorem fresh_program_flags:
  assumes "num \<noteq> 0" and "pid < 8192" and "programs_list pool = []"
    and "\<forall>e\<in>set (t_es t). snd (parse_type (t_es_type e) False False) = (False, False)"
    and "DumpPAT plib dev [(num, pid)] (pool, j) = Some (pool1, j1)"
    and "DumpPMT lib dev 0 t raw (pool1, j1) = Some (pool2, j2)"
  shows "has_audio (programs_list pool2 ! 0) = has_audio (malloc_program plib 0)
    \<and> has_video (programs_list pool2 ! 0) = has_video (malloc_program plib 0)"
proof -
  have "\<exists>p. programs_list pool1 = [p] \<and> has_audio p = has_audio (malloc_program plib 0) \<and> has_video p = has_video (malloc_program plib 0)"
    using assms(1,3,5)
    by (auto simp: DumpPAT_def pat_step_def pat_program_def Let_def add_program_to_pat_def split: if_splits option.splits)
  then obtain p where p: "programs_list pool1 = [p]" "has_audio p = has_audio (malloc_program plib 0)"
    "has_video p = has_video (malloc_program plib 0)" by blast
  define r where "r = fold (pmt_es_step dev (is_program_selected pool1 (uint (t_program_number t)))) (t_es t)
      (p\<lparr>pcr_pid := uint (t_pcr_pid t)\<rparr>, j1)"
  have r: "has_audio (fst r) = has_audio p \<and> has_video (fst r) = has_video p"
    using es_loop_flags [OF assms(4), of dev "is_program_selected pool1 (uint (t_program_number t))" "p\<lparr>pcr_pid := uint (t_pcr_pid t)\<rparr>" j1]
    by (simp add: r_def)
  have "\<exists>cas. programs_list pool2 ! 0 = (fst r)\<lparr>ca_list := cas\<rparr>"
    using assms(6) p(1) by (auto simp: DumpPMT_def Let_def case_prod_beta r_def split: option.splits)
  with r p show ?thesis by auto
qed

text \<open>sdt_once: an SDT whose version is the stored one changes nothing, so handling a table twice is
  handling it once.\<close>

theorem sdt_once:
  assumes "DumpSDT iconv t pool = Some pool'" shows "DumpSDT iconv t pool' = Some pool'"
proof -
  from assms have "\<exists>old. stored_sdt pool' = Some old \<and>
      (t_version old = t_version t \<or> t_current_next old \<and> \<not> t_current_next t)"
    by (auto simp: DumpSDT_def Let_def split: if_splits option.splits)
  then show ?thesis by (auto simp: DumpSDT_def)
qed


section \<open>Service names\<close>

text \<open>A name in the table-00 characters that are ASCII.\<close>

definition ascii_name :: "byte list \<Rightarrow> bool" where
  "ascii_name nm \<longleftrightarrow> length nm \<le> SERVICE_NAME_LEN \<and> list_all isprint nm"

definition name_buf :: "byte list \<Rightarrow> byte list" where
  "name_buf nm = nm @ replicate (SERVICE_NAME_LEN - length nm) 0"

lemma isprint_keep: "isprint b \<Longrightarrow> dvb_keep 0 b"
proof -
  assume "isprint b"
  then have "\<not> (0x80 \<le> b)" by (auto simp: isprint_def word_le_nat_alt word_less_nat_alt)
  then show ?thesis by (simp add: dvb_keep_def)
qed

lemma dvb_name_ascii:
  assumes "ascii_name nm" and "iconv ''ISO8859-1'' = Some conv" and "\<And>xs. list_all isprint xs \<Longrightarrow> conv xs SERVICE_NAME_LEN = xs"
  shows "dvb_name iconv (nm @ rest) (length nm) = Some (name_buf nm)"
proof (cases nm)
  case Nil
  then show ?thesis by (simp add: dvb_name_def name_buf_def)
next
  case (Cons b bs)
  have b: "isprint b" "0x20 \<le> b" using assms(1) Cons by (auto simp: ascii_name_def isprint_def)
  have cp: "dvb_codepage (nm @ rest) = 0" using b(2) Cons by (simp add: dvb_codepage_def)
  have "filter (dvb_keep 0) nm = nm"
    using assms(1) isprint_keep by (auto simp: ascii_name_def list_all_iff intro!: filter_True)
  then have "dvb_line_bytes (nm @ rest) (length nm) = nm"
    using b(1) Cons by (simp add: dvb_line_bytes_eq cp [unfolded Cons, simplified] del: filter.simps)
  moreover have "get_charset_name 0 = ''ISO8859-1''" by (simp add: get_charset_name_def)
  ultimately show ?thesis
    using assms Cons cp by (simp add: dvb_name_def convert_dvb_line_def to_utf_def ascii_name_def put_bytes_def name_buf_def)
qed

text \<open>service_descriptor_roundtrip: a service descriptor laid out as EN 300 468 says, with ASCII provider and
  service names of at most 128 bytes, gives the program exactly its type and names, when iconv leaves
  ASCII text alone.\<close>

theorem service_descriptor_roundtrip:
  assumes "ascii_name prov" and "ascii_name nm"
    and "iconv ''ISO8859-1'' = Some conv" and "\<And>xs. list_all isprint xs \<Longrightarrow> conv xs SERVICE_NAME_LEN = xs"
  shows "get_service_name iconv
      [\<lparr>i_tag = 0x48, p_data = [ty, of_nat (length prov)] @ prov @ [of_nat (length nm)] @ nm\<rparr>] p
    = Some (p\<lparr>service_type := ty, provider_name := name_buf prov, name := name_buf nm\<rparr>)"
proof -
  have l: "unat (of_nat (length prov) :: byte) = length prov" "unat (of_nat (length nm) :: byte) = length nm"
    using assms(1,2) by (simp_all add: ascii_name_def unat_of_nat)
  have d: "([ty, of_nat (length prov)] @ prov @ [of_nat (length nm)] @ nm) ! (length prov + 2) = of_nat (length nm)"
    by (simp add: nth_append)
  have e: "drop (length prov + 3) ([ty, of_nat (length prov)] @ prov @ [of_nat (length nm)] @ nm) = nm"
    by (simp add: eval_nat_numeral)
  note n = dvb_name_ascii [of prov iconv conv "of_nat (length nm) # nm", OF assms(1,3,4)]
    dvb_name_ascii [of nm iconv conv "[]", OF assms(2,3,4)]
  show ?thesis
    using n by (simp add: get_service_name_def service_descriptor_def Let_def l d [simplified] e [simplified])
qed

section \<open>Witnesses\<close>

definition demo_lib :: psi_lib where
  "demo_lib = \<lparr>psi_new = (\<lambda>_. True), psi_attach = (\<lambda>_. True), pmt_new = (\<lambda>_. True), pmt_attach = (\<lambda>_. True),
     malloc_program = (\<lambda>_. zero_program\<lparr>has_video := True\<rparr>), pat_sections = (\<lambda>ps. [map (\<lambda>p. ucast (fst p)) ps])\<rparr>"

text \<open>Program 5 is selected.\<close>

definition demo_pool :: psi_pool where
  "demo_pool = big_pool_t.extend quiet_pool
     \<lparr>selected_programs_list = [new_program 5], programs_list = [], service_name_callback = False,
      pat_dvbpsi = False, cat_dvbpsi = False, si_dvbpsi = False, sdt_dvbpsi = False, generated_pat = None,
      pool_ca_list = [], stored_sdt = None, network_name = None, nit_network_id = 0, network_id = 0, ts_id = 0,
      nit_list = [], named_log = []\<rparr>"

definition demo_joker :: "unit joker_en_h" where
  "demo_joker = snd (ts_filter_only_service_pids quiet_dev (en_joker None))"

lemma demo_joker: "ts_filter_only_service_pids quiet_dev (en_joker None) = (0, demo_joker)"
proof -
  have "fst (joker_cmd0 quiet_dev s c) = 0" if "io_mux_opaq s" for s :: "unit joker_en_h" and c
    using that by (simp add: joker_cmd0_def joker_cmd_def joker_io_def quiet_dev_def)
  then have "fst (ts_filter_only_service_pids quiet_dev (en_joker None)) = 0"
    using cmdch.seq_ok_iff_ready_all [where dev = quiet_dev and s = "en_joker None"]
    by (simp add: only_service_pids_seq to_eio_def en_joker_def)
  then show ?thesis by (simp add: demo_joker_def prod_eq_iff)
qed

lemma demo_pool_simps [simp]:
  "selected_programs_list demo_pool = [new_program 5]" "programs_list demo_pool = []" "generated_pat demo_pool = None"
  "pool_ca_list demo_pool = []" "hooks demo_pool = (\<lambda>_. None)" "generated_pat_pkt demo_pool = None"
  "hooks_opaque demo_pool = (\<lambda>_. None)"
  by (simp_all add: demo_pool_def big_pool_t.defs quiet_pool_def)

lemma no_tables_demo: "no_tables demo_pool"
  by (simp add: no_tables_def)

text \<open>The pool and the handle after a PAT with program 5 on PID 0x100 and program 6 on PID 0x200.\<close>

definition demo_pat :: "(unit, unit) psi_st" where
  "demo_pat = the (DumpPAT demo_lib quiet_dev [(5, 0x100), (6, 0x200)] (demo_pool, demo_joker))"

lemma demo_pat: "DumpPAT demo_lib quiet_dev [(5, 0x100), (6, 0x200)] (demo_pool, demo_joker) = Some demo_pat"
  by (simp add: demo_pat_def DumpPAT_def pat_step_def Let_def demo_lib_def is_program_selected_def new_program_def
      add_program_to_pat_def pat_program_def)

lemma demo_pat_reach: "(psi_step demo_lib ok_lib quiet_dev)\<^sup>*\<^sup>* (demo_pool, demo_joker) (fst demo_pat, snd demo_pat)"
  by (simp, intro r_into_rtranclp ps_pat [OF demo_pat])

lemma demo_pat_programs:
  "map number (programs_list (fst demo_pat)) = [5, 6]" "selected_rows demo_lib (fst demo_pat) = [(5, 0x100)]"
  by (simp_all add: demo_pat_def DumpPAT_def pat_step_def Let_def demo_lib_def is_program_selected_def new_program_def
      add_program_to_pat_def pat_program_def selected_rows_def pat_rows_def attached_def)

theorem psi_filter_exact_witness:
  "filter_of (snd demo_pat) 0x100 \<and> \<not> filter_of (snd demo_pat) 0x200"
proof -
  have "wanted_pids demo_lib (fst demo_pat) n \<longleftrightarrow> n = 0x100" for n
    unfolding wanted_pids_def demo_pat_programs
    by (simp add: demo_pat_def DumpPAT_def pat_step_def Let_def demo_lib_def is_program_selected_def new_program_def
      add_program_to_pat_def pat_program_def es_pids_def ca_pids_def)
  then show ?thesis
    using psi_filter_exact [OF demo_joker no_tables_demo demo_pat_reach] quiet_usb_ok by (simp add: service_pid_def)
qed

theorem psi_tables_consistent_witness: "distinct (map number (programs_list (fst demo_pat)))"
  using psi_tables_consistent [OF demo_joker no_tables_demo demo_pat_reach] by blast


text \<open>A TS thread that delivers the PAT again and again.\<close>

definition demo_tick :: "(unit, unit) psi_st \<Rightarrow> (unit, unit) psi_st" where
  "demo_tick s = (case DumpPAT demo_lib quiet_dev [(5, 0x100), (6, 0x200)] s of None \<Rightarrow> s | Some s' \<Rightarrow> s')"

lemma demo_tick_steps: "(psi_step demo_lib ok_lib quiet_dev)\<^sup>*\<^sup>* s (demo_tick s)"
  by (auto simp: demo_tick_def intro!: ps_pat split: option.split)

theorem get_programs_pat_witness:
  "\<exists>pool j. get_programs demo_lib demo_tick True (demo_pool, demo_joker) = Some (True, pool, j)
     \<and> generated_pat_pkt pool = (if selected_rows demo_lib pool = [] then None
         else Some (concat (psi_pkts_generate (pat_sections demo_lib (the (pat_for_selected demo_lib pool))) 0)))"
proof -
  have "\<exists>pool j. get_programs demo_lib demo_tick True (demo_pool, demo_joker) = Some (True, pool, j)"
    by (simp add: get_programs_def demo_lib_def Let_def case_prod_beta)
  then obtain pool j where g: "get_programs demo_lib demo_tick True (demo_pool, demo_joker) = Some (True, pool, j)" by blast
  from get_programs_pat [OF demo_joker no_tables_demo _ g demo_tick_steps] g show ?thesis by auto
qed

theorem sdt_hook_gets_program_witness:
  "\<exists>pool' j'. DumpPAT demo_lib quiet_dev [(5, 0x11)] (demo_pool, demo_joker) = Some (pool', j')
     \<and> hooks (late_hooks pool') 0x11 = Some sdt_hook \<and> hooks_opaque (late_hooks pool') 0x11 = Some 0"
  by (rule sdt_hook_gets_program) (simp_all add: attached_def demo_lib_def)

definition data_pmt :: psi_pmt where
  "data_pmt = \<lparr>t_program_number = 5, t_pcr_pid = 0x101, t_descriptors = [],
     t_es = [\<lparr>t_es_type = 0x05, t_es_pid = 0x101, t_es_descriptors = []\<rparr>]\<rparr>"

theorem fresh_program_flags_witness:
  "\<exists>pool2 j2. DumpPMT ok_lib quiet_dev 0 data_pmt [1] (the (DumpPAT demo_lib quiet_dev [(5, 0x100)] (demo_pool, demo_joker)))
      = Some (pool2, j2) \<and> has_video (programs_list pool2 ! 0)"
proof -
  obtain pool1 j1 where 1: "DumpPAT demo_lib quiet_dev [(5, 0x100)] (demo_pool, demo_joker) = Some (pool1, j1)"
    by (simp add: DumpPAT_def pat_step_def Let_def demo_lib_def)
  have "DumpPMT ok_lib quiet_dev 0 data_pmt [1] (pool1, j1) \<noteq> None"
    by (simp add: pmt_fault_iff data_pmt_def)
  then obtain pool2 j2 where 2: "DumpPMT ok_lib quiet_dev 0 data_pmt [1] (pool1, j1) = Some (pool2, j2)" by auto
  have "has_video (programs_list pool2 ! 0) = has_video (malloc_program demo_lib 0)"
    using fresh_program_flags [OF _ _ _ _ 1 2] by (simp add: data_pmt_def parse_type_def)
  then show ?thesis using 1 2 by (simp add: demo_lib_def)
qed

theorem sdt_once_witness:
  "\<exists>pool'. DumpSDT (\<lambda>_. None) \<lparr>t_version = 3, t_current_next = True, t_extension = 1, t_network_id = 2, t_services = []\<rparr> demo_pool = Some pool'
     \<and> DumpSDT (\<lambda>_. None) \<lparr>t_version = 3, t_current_next = True, t_extension = 1, t_network_id = 2, t_services = []\<rparr> pool' = Some pool'"
proof -
  let ?t = "\<lparr>t_version = 3, t_current_next = True, t_extension = 1, t_network_id = 2, t_services = []\<rparr>"
  have "stored_sdt demo_pool = None" by (simp add: demo_pool_def big_pool_t.defs)
  then obtain pool' where "DumpSDT (\<lambda>_. None) ?t demo_pool = Some pool'" by (simp add: DumpSDT_def)
  with sdt_once [OF this] show ?thesis by blast
qed


theorem service_descriptor_roundtrip_witness:
  "get_service_name (\<lambda>_. Some (\<lambda>xs _. xs)) [\<lparr>i_tag = 0x48, p_data = [1, 2] @ [0x41, 0x42] @ [1] @ [0x43]\<rparr>] zero_program
   = Some (zero_program\<lparr>service_type := 1, provider_name := name_buf [0x41, 0x42], name := name_buf [0x43]\<rparr>)"
  using service_descriptor_roundtrip [of "[0x41, 0x42]" "[0x43]" "\<lambda>_. Some (\<lambda>xs _. xs)" "\<lambda>xs _. xs" 1 zero_program]
  by (simp add: ascii_name_def isprint_def)

theorem pmt_fault_iff_witness:
  "DumpPMT ok_lib quiet_dev 0 (data_pmt\<lparr>t_descriptors := [\<lparr>i_tag = 9, p_data = [1, 2]\<rparr>]\<rparr>) [1] demo_pat = None"
  using pmt_fault_iff [of ok_lib quiet_dev 0 "data_pmt\<lparr>t_descriptors := [\<lparr>i_tag = 9, p_data = [1, 2]\<rparr>]\<rparr>" "[1]" "fst demo_pat" "snd demo_pat"]
  by simp

end
