(* ===== verification/Tune.thy ===== *)
theory Tune
  imports En50221
begin

text \<open>
  \<open>src/u_drv_tune.c\<close>: tuning, the DiSEqC script, LNB control and the service thread. The frontend
  drivers are Linux kernel code the program is linked with: \<open>fe_lib\<close> is what they answer, a
  parameter, and what is asked of them is logged in the order of the calls; the I2C traffic they
  cause is modelled in \<open>I2c\<close>. The mutex of the service thread makes each operation one step. Memory
  allocation succeeds. An access outside a buffer is the value \<open>None\<close>.
\<close>

section \<open>State\<close>

datatype delivery_system =
    JOKER_SYS_UNDEFINED | JOKER_SYS_DVBC_ANNEX_A | JOKER_SYS_DVBC_ANNEX_B | JOKER_SYS_DVBT | JOKER_SYS_DSS
  | JOKER_SYS_DVBS | JOKER_SYS_DVBS2 | JOKER_SYS_DVBH | JOKER_SYS_ISDBT | JOKER_SYS_ISDBS | JOKER_SYS_ISDBC
  | JOKER_SYS_ATSC | JOKER_SYS_ATSCMH | JOKER_SYS_DTMB | JOKER_SYS_CMMB | JOKER_SYS_DAB | JOKER_SYS_DVBT2
  | JOKER_SYS_TURBO | JOKER_SYS_DVBC_ANNEX_C

datatype fe_modulation =
    JOKER_QPSK | JOKER_QAM_16 | JOKER_QAM_32 | JOKER_QAM_64 | JOKER_QAM_128 | JOKER_QAM_256 | JOKER_QAM_AUTO
  | JOKER_VSB_8 | JOKER_VSB_16 | JOKER_PSK_8 | JOKER_APSK_16 | JOKER_APSK_32 | JOKER_DQPSK | JOKER_QAM_4_NR

datatype sec_voltage = JOKER_SEC_VOLTAGE_13 | JOKER_SEC_VOLTAGE_18 | JOKER_SEC_VOLTAGE_OFF
datatype sec_tone = JOKER_SEC_TONE_ON | JOKER_SEC_TONE_OFF
datatype sec_mini = JOKER_SEC_MINI_A | JOKER_SEC_MINI_B

record lnb_t =
  lowfreq :: int
  highfreq :: int
  switchfreq :: int
  selected_freq :: int

record tune_info_t =
  ti_system :: delivery_system
  ti_modulation :: fe_modulation
  ti_voltage :: sec_voltage
  ti_tone :: sec_tone
  ti_coderate :: nat
  lnb :: lnb_t
  frequency :: u64
  symbol_rate :: u32
  symbol_rate_rounded :: u32
  bandwidth_hz :: u32

record stat_t =
  stat_cancel :: int
  refresh_enable :: int
  refresh_ms :: int
  status :: int
  rf_level :: int
  snr :: int
  ucblocks :: int
  signal_quality :: int
  bit_error :: int
  bit_count :: int
  lnb_err :: int
  avg_rf_level :: int
  avg_ucblocks :: int
  avg_snr :: int
  avg_count :: int

definition zero_stat :: stat_t where
  "zero_stat = \<lparr>stat_cancel = 0, refresh_enable = 0, refresh_ms = 0, status = 0, rf_level = 0, snr = 0, ucblocks = 0,
     signal_quality = 0, bit_error = 0, bit_count = 0, lnb_err = 0,
     avg_rf_level = 0, avg_ucblocks = 0, avg_snr = 0, avg_count = 0\<rparr>"

abbreviation (input) JOKER_LOCK :: int where "JOKER_LOCK \<equiv> 0"
abbreviation (input) JOKER_NOLOCK :: int where "JOKER_NOLOCK \<equiv> 11"
abbreviation (input) SIGNAL_BAD :: int where "SIGNAL_BAD \<equiv> 0"
abbreviation (input) SIGNAL_WEAK :: int where "SIGNAL_WEAK \<equiv> 1"
abbreviation (input) SIGNAL_GOOD :: int where "SIGNAL_GOOD \<equiv> 2"
abbreviation (input) LNB_HEALTH_INTERVAL :: int where "LNB_HEALTH_INTERVAL \<equiv> 2"

text \<open>
  A frontend: the demodulator, the operations that are set, and its property cache.
\<close>

datatype fe_chip = lgdt3306a | atbm888x | cxd2841er_tc | cxd2841er_s

record dtv_props =
  dp_system :: delivery_system
  dp_bandwidth_hz :: u32
  dp_modulation :: fe_modulation
  dp_symbol_rate :: u32
  dp_frequency :: u32

record frontend =
  fe_chip :: fe_chip
  has_set_voltage :: bool
  has_master_cmd :: bool
  has_send_burst :: bool
  has_get_rssi :: bool
  fe_props :: dtv_props

datatype fe_call =
    fe_attach fe_chip
  | fe_helene bool
  | fe_tps65233
  | fe_init
  | fe_set_tone sec_tone
  | fe_set_voltage sec_voltage
  | fe_master_cmd "byte list"
  | fe_burst sec_mini
  | fe_usleep u32
  | fe_tune u32
  | fe_blind_scan int int int int bool

text \<open>The readings of a frontend, as the drivers store them.\<close>

record fe_readings =
  rd_status :: nat
  rd_snr :: u16
  rd_ber :: u32
  rd_ucblocks :: u32
  rd_strength :: u64
  rd_cnr :: u64
  rd_block_error :: u64
  rd_post_bit_error :: u64
  rd_post_bit_count :: u64
  rd_rssi :: int

text \<open>
  \<open>fe_res\<close> is the result of the last call of a history, \<open>fe_read\<close> what can be read after it.
  \<open>fe_new\<close> is the demodulator an attach function returns, \<open>fe_tuner\<close> the effect of attaching the
  tuner (\<open>True\<close> for satellite) and \<open>fe_lnb\<close> that of attaching the LNB controller.
\<close>

record fe_lib =
  fe_res :: "fe_call list \<Rightarrow> int"
  fe_read :: "fe_call list \<Rightarrow> fe_readings"
  fe_new :: "fe_chip \<Rightarrow> frontend option"
  fe_tuner :: "bool \<Rightarrow> frontend \<Rightarrow> frontend"
  fe_lnb :: "frontend \<Rightarrow> frontend option"

record 'd joker_tune = "'d joker_en_h" +
  fe_opaque :: "frontend option"
  service_threading :: bool
  service_cancel :: bool
  stat :: stat_t
  info :: "tune_info_t option"
  diseqc_script :: "string option"
  blind_scan_mode :: bool
  fe_log :: "fe_call list"

definition fe_do :: "fe_lib \<Rightarrow> fe_call \<Rightarrow> ('d, 'z) joker_tune_scheme \<Rightarrow> int \<times> ('d, 'z) joker_tune_scheme" where
  "fe_do lib c j = (let l = fe_log j @ [c] in (fe_res lib l, j\<lparr>fe_log := l\<rparr>))"

definition fe_run :: "fe_lib \<Rightarrow> fe_call \<Rightarrow> ('d, 'z) joker_tune_scheme \<Rightarrow> ('d, 'z) joker_tune_scheme" where
  "fe_run lib c j = snd (fe_do lib c j)"

text \<open>\<open>mdelay\<close>, \<open>msleep\<close> and \<open>__const_udelay\<close>: the argument of \<open>usleep\<close>.\<close>

definition msleep_msecs :: "u32 \<Rightarrow> u32" where
  "msleep_msecs msecs = 1000 * msecs"

definition const_udelay :: "u64 \<Rightarrow> u64" where
  "const_udelay xloops = xloops div 0x10c7"

section \<open>Numbers in a script\<close>

text \<open>\<open>strtol\<close> of the C library, with its clamping to 64 bits, and \<open>atoi\<close> on top of it.\<close>

definition isspace :: "char \<Rightarrow> bool" where
  "isspace c \<longleftrightarrow> (let n = (of_char c :: nat) in n = 32 \<or> 9 \<le> n \<and> n \<le> 13)"

definition digit_val :: "char \<Rightarrow> nat" where
  "digit_val c =
     (let n = (of_char c :: nat)
      in if 48 \<le> n \<and> n \<le> 57 then n - 48
         else if 65 \<le> n \<and> n \<le> 90 then n - 55
         else if 97 \<le> n \<and> n \<le> 122 then n - 87
         else 99)"

definition strtol :: "nat \<Rightarrow> string \<Rightarrow> int" where
  "strtol base s =
     (let s = dropWhile isspace s;
          (neg, s) = (case s of [] \<Rightarrow> (False, s)
                      | c # r \<Rightarrow> if c = CHR ''-'' then (True, r) else if c = CHR ''+'' then (False, r) else (False, s));
          s = (if base = 16 \<and> length s > 2 \<and> s ! 0 = CHR ''0'' \<and> (s ! 1 = CHR ''x'' \<or> s ! 1 = CHR ''X'') \<and> digit_val (s ! 2) < 16
               then drop 2 s else s);
          v = foldl (\<lambda>a c. int base * a + int (digit_val c)) 0 (takeWhile (\<lambda>c. digit_val c < base) s)
      in if neg then max (- (2 ^ 63)) (- v) else min (2 ^ 63 - 1) v)"

definition atoi_script :: "string \<Rightarrow> u32" where
  "atoi_script s = word_of_int (strtol 10 s)"


section \<open>DiSEqC\<close>

definition send_diseqc_message ::
  "fe_lib \<Rightarrow> byte list \<Rightarrow> ('d, 'z) joker_tune_scheme \<Rightarrow> int \<times> ('d, 'z) joker_tune_scheme" where
  "send_diseqc_message lib message j =
     (case fe_opaque j of
        None \<Rightarrow> (- EINVAL, j)
      | Some fe \<Rightarrow>
          if length message < 3 \<or> length message > 6 then (- EINVAL, j)
          else if has_master_cmd fe then
            let (ret, j) = fe_do lib (fe_master_cmd message) j
            in if ret \<noteq> 0 then (- EIO, j) else (0, j)
          else (0, j))"

definition send_burst :: "fe_lib \<Rightarrow> sec_mini \<Rightarrow> ('d, 'z) joker_tune_scheme \<Rightarrow> int \<times> ('d, 'z) joker_tune_scheme" where
  "send_burst lib burst j =
     (case fe_opaque j of
        None \<Rightarrow> (- EINVAL, j)
      | Some fe \<Rightarrow>
          if has_send_burst fe then
            let (ret, j) = fe_do lib (fe_burst burst) j in if ret \<noteq> 0 then (- EIO, j) else (0, j)
          else (0, j))"

text \<open>
  The bytes of a line: \<open>diseqc\<close> has room for six. The byte after the last space is stored without
  a test of the room; the pointer that is freed afterwards is then not the one that was allocated
  either.
\<close>

definition after_space :: "string \<Rightarrow> string option" where
  "after_space s = (case dropWhile (\<lambda>c. c \<noteq> CHR '' '') s of [] \<Rightarrow> None | _ # r \<Rightarrow> Some r)"

lemma after_space_shorter: "after_space s = Some r \<Longrightarrow> length r < length s"
proof -
  assume "after_space s = Some r"
  then have "\<exists>c. dropWhile (\<lambda>c. c \<noteq> CHR '' '') s = c # r" by (auto simp: after_space_def split: list.splits)
  then show ?thesis using length_dropWhile_le [of "\<lambda>c. c \<noteq> CHR '' ''" s] by auto
qed

function diseqc_tokens :: "string \<Rightarrow> byte list \<Rightarrow> byte list option" where
  "diseqc_tokens start diseqc =
     (case after_space start of
        Some rest \<Rightarrow>
          if length diseqc < 6 then diseqc_tokens rest (diseqc @ [word_of_int (strtol 16 start)])
          else None
      | None \<Rightarrow>
          if length diseqc < 6 then Some (diseqc @ [word_of_int (strtol 16 start)]) else None)"
  by pat_completeness auto
termination
  by (relation "measure (\<lambda>(s, d). length s)") (auto dest: after_space_shorter)

declare diseqc_tokens.simps [simp del]

text \<open>
  One line without its newline; \<open>junk\<close> is the burst variable, not set when the letter is another
  one.
\<close>

definition diseqc_do_line ::
  "fe_lib \<Rightarrow> sec_mini \<Rightarrow> string \<Rightarrow> ('d, 'z) joker_tune_scheme \<Rightarrow> ('d, 'z) joker_tune_scheme option" where
  "diseqc_do_line lib junk line j =
     (if line = [] \<or> hd line = CHR ''#'' then Some j
      else if length line > 6 \<and> take 6 line = ''msleep'' then
        Some (fe_run lib (fe_usleep (msleep_msecs (atoi_script (drop 6 line)))) j)
      else if length line > 5 \<and> take 5 line = ''burst'' then
        let burst = (if take 1 (drop 6 line) = ''A'' then JOKER_SEC_MINI_A
                     else if take 1 (drop 6 line) = ''B'' then JOKER_SEC_MINI_B else junk)
        in Some (snd (send_burst lib burst j))
      else case diseqc_tokens line [] of
             None \<Rightarrow> None
           | Some diseqc \<Rightarrow> Some (snd (send_diseqc_message lib diseqc j)))"

text \<open>The lines that end in a newline; what follows the last newline is not processed.\<close>

fun script_lines :: "string \<Rightarrow> string \<Rightarrow> string list" where
  "script_lines cur [] = []"
| "script_lines cur (c # cs) =
     (if c = CHR ''\<newline>'' then cur # script_lines [] cs else script_lines (cur @ [c]) cs)"

definition diseqc_process ::
  "fe_lib \<Rightarrow> sec_mini \<Rightarrow> ('d, 'z) joker_tune_scheme \<Rightarrow> (int \<times> ('d, 'z) joker_tune_scheme) option" where
  "diseqc_process lib junk j =
     (case (fe_opaque j, diseqc_script j) of
        (Some fe, Some script) \<Rightarrow>
          if script = [] then Some (- EINVAL, j)
          else
            let j = fe_run lib (fe_set_tone JOKER_SEC_TONE_OFF) j;
                j = fe_run lib (fe_usleep (msleep_msecs 10)) j
            in case fold_opt (diseqc_do_line lib junk) (script_lines [] script) j of
                 None \<Rightarrow> None
               | Some j \<Rightarrow> Some (0, fe_run lib (fe_set_tone JOKER_SEC_TONE_ON) j)
      | _ \<Rightarrow> Some (- EINVAL, j))"

section \<open>Status and signal\<close>

definition joker_i2c_gate_ctrl :: "'d usb_dev \<Rightarrow> bool \<Rightarrow> ('d, 'z) joker_tune_scheme \<Rightarrow> int \<times> ('d, 'z) joker_tune_scheme" where
  "joker_i2c_gate_ctrl dev enable j =
     (0, snd (if enable then joker_unreset dev j 0x80 else joker_reset dev j 0x80))"

definition read_status :: "fe_lib \<Rightarrow> ('d, 'z) joker_tune_scheme \<Rightarrow> int" where
  "read_status lib j =
     (case fe_opaque j of
        None \<Rightarrow> - EINVAL
      | Some fe \<Rightarrow> if rd_status (fe_read lib (fe_log j)) = 0x1f then JOKER_LOCK else JOKER_NOLOCK)"

text \<open>A 64-bit reading stored into a 32-bit signed field.\<close>

definition to_i32 :: "u64 \<Rightarrow> int" where
  "to_i32 w = signed_take_bit 31 (uint w)"

definition signal_decision :: "stat_t \<Rightarrow> int" where
  "signal_decision st =
     (if ucblocks st > 0 \<or> rf_level st < - 70000 then SIGNAL_BAD
      else if rf_level st > - 40000 then SIGNAL_GOOD
      else SIGNAL_WEAK)"

definition read_signal_stat ::
  "fe_lib \<Rightarrow> 'd usb_dev \<Rightarrow> stat_t \<Rightarrow> ('d, 'z) joker_tune_scheme \<Rightarrow> int \<times> stat_t \<times> ('d, 'z) joker_tune_scheme" where
  "read_signal_stat lib dev st j =
     (case fe_opaque j of
        None \<Rightarrow> (- EINVAL, st, j)
      | Some fe \<Rightarrow>
          let sys = dp_system (fe_props fe);
              rd = fe_read lib (fe_log j);
              st = (if sys = JOKER_SYS_ATSC \<or> sys = JOKER_SYS_DVBC_ANNEX_B
                    then st\<lparr>snr := 100 * uint (rd_snr rd), bit_error := signed_take_bit 31 (uint (rd_ber rd)),
                            bit_count := 1, ucblocks := signed_take_bit 31 (uint (rd_ucblocks rd))\<rparr>
                    else st\<lparr>rf_level := to_i32 (rd_strength rd), snr := to_i32 (rd_cnr rd),
                            ucblocks := to_i32 (rd_block_error rd), bit_error := to_i32 (rd_post_bit_error rd),
                            bit_count := to_i32 (rd_post_bit_count rd)\<rparr>);
              (st, j) = (if has_get_rssi fe
                    then let (_, j) = joker_i2c_gate_ctrl dev True j;
                             (_, j) = joker_i2c_gate_ctrl dev False j
                         in (st\<lparr>rf_level := rd_rssi rd\<rparr>, j)
                    else (st, j));
              st = st\<lparr>signal_quality := signal_decision st\<rparr>
          in (0, st, j))"

definition set_refresh :: "int \<Rightarrow> ('d, 'z) joker_tune_scheme \<Rightarrow> int \<times> ('d, 'z) joker_tune_scheme" where
  "set_refresh enable j =
     (if \<not> service_threading j then (- EINVAL, j)
      else (0, j\<lparr>stat := (stat j)\<lparr>refresh_enable := enable\<rparr>\<rparr>))"

definition set_lnb_voltage ::
  "fe_lib \<Rightarrow> sec_voltage \<Rightarrow> ('d, 'z) joker_tune_scheme \<Rightarrow> int \<times> ('d, 'z) joker_tune_scheme" where
  "set_lnb_voltage lib voltage j =
     (case fe_opaque j of
        None \<Rightarrow> (- EINVAL, j)
      | Some fe \<Rightarrow>
          if has_set_voltage fe then
            let (ret, j) = fe_do lib (fe_set_voltage voltage) j;
                j = j\<lparr>stat := (stat j)\<lparr>lnb_err := ret\<rparr>,
                      info := map_option (\<lambda>i. i\<lparr>ti_voltage := voltage\<rparr>) (info j)\<rparr>
            in (ret, j)
          else (- EINVAL, j))"

section \<open>The service thread\<close>

text \<open>
  One round of \<open>process_service\<close> once it holds the lock and the refresh is enabled: the state, the
  time of the last LNB check, and whether the status callback is set, which is called with the
  handle. \<open>None\<close> is the end of the loop.
\<close>

definition process_service_round ::
  "fe_lib \<Rightarrow> 'd usb_dev \<Rightarrow> (('d, 'z) joker_tune_scheme \<Rightarrow> ('d, 'z) joker_tune_scheme) \<Rightarrow> int \<Rightarrow> int
    \<Rightarrow> ('d, 'z) joker_tune_scheme \<Rightarrow> (int \<times> ('d, 'z) joker_tune_scheme) option" where
  "process_service_round lib dev status_callback now last_check j =
     (if service_cancel j then None
      else
        let j = j\<lparr>stat := (stat j)\<lparr>status := read_status lib j\<rparr>\<rparr>;
            (_, st, j) = read_signal_stat lib dev (stat j) j;
            j = j\<lparr>stat := st\<rparr>;
            (last_check, j) =
              (if now - last_check > LNB_HEALTH_INTERVAL then
                 (now, case (fe_opaque j, info j) of
                         (Some fe, Some i) \<Rightarrow>
                           if has_set_voltage fe
                           then let (ret, j) = fe_do lib (fe_set_voltage (ti_voltage i)) j
                                in j\<lparr>stat := (stat j)\<lparr>lnb_err := ret\<rparr>\<rparr>
                           else j
                       | _ \<Rightarrow> j)
               else (last_check, j))
        in Some (last_check, status_callback j))"

text \<open>The deadline of the wait between two rounds: seconds and nanoseconds.\<close>

definition service_deadline :: "int \<Rightarrow> u64 \<Rightarrow> u64 \<Rightarrow> u64 \<times> u64" where
  "service_deadline ms sec usec =
     (let new_nsec = (of_int (ms div 1000) + sec) * 1000 * 1000 * 1000 + (1000 * of_int (ms mod 1000) + usec) * 1000
      in (new_nsec div (1000 * 1000 * 1000), new_nsec mod (1000 * 1000 * 1000)))"

definition stop_service_thread :: "('d, 'z) joker_tune_scheme \<Rightarrow> int option \<times> ('d, 'z) joker_tune_scheme" where
  "stop_service_thread j =
     (if \<not> service_threading j then (Some (- EINVAL), j) else (None, j\<lparr>service_cancel := True\<rparr>))"


section \<open>Tuning\<close>

abbreviation (input) OC_I2C_RESET_GATE :: int where "OC_I2C_RESET_GATE \<equiv> 0x80"
abbreviation (input) OC_I2C_RESET_ATBM :: int where "OC_I2C_RESET_ATBM \<equiv> 0x08"
abbreviation (input) OC_I2C_RESET_LG :: int where "OC_I2C_RESET_LG \<equiv> 0x04"
abbreviation (input) OC_I2C_RESET_TUNER :: int where "OC_I2C_RESET_TUNER \<equiv> 0x02"
abbreviation (input) OC_I2C_RESET_SONY :: int where "OC_I2C_RESET_SONY \<equiv> 0x01"
abbreviation (input) J_INSEL_SONY :: byte where "J_INSEL_SONY \<equiv> 0"
abbreviation (input) J_INSEL_ATBM :: byte where "J_INSEL_ATBM \<equiv> 1"
abbreviation (input) J_INSEL_LG :: byte where "J_INSEL_LG \<equiv> 2"

text \<open>The first switch: the chips to take out of reset, and the TS input.\<close>

definition tune_input :: "delivery_system \<Rightarrow> (int \<times> byte) option" where
  "tune_input sys =
     (case sys of
        JOKER_SYS_ATSC \<Rightarrow> Some (OC_I2C_RESET_GATE OR OC_I2C_RESET_TUNER OR OC_I2C_RESET_LG, J_INSEL_LG)
      | JOKER_SYS_DVBC_ANNEX_B \<Rightarrow> Some (OC_I2C_RESET_GATE OR OC_I2C_RESET_TUNER OR OC_I2C_RESET_LG, J_INSEL_LG)
      | JOKER_SYS_DTMB \<Rightarrow> Some (OC_I2C_RESET_GATE OR OC_I2C_RESET_TUNER OR OC_I2C_RESET_ATBM, J_INSEL_ATBM)
      | JOKER_SYS_DVBS \<Rightarrow> Some (OC_I2C_RESET_GATE OR OC_I2C_RESET_TUNER OR OC_I2C_RESET_SONY, J_INSEL_SONY)
      | JOKER_SYS_DVBS2 \<Rightarrow> Some (OC_I2C_RESET_GATE OR OC_I2C_RESET_TUNER OR OC_I2C_RESET_SONY, J_INSEL_SONY)
      | JOKER_SYS_DVBC_ANNEX_A \<Rightarrow> Some (OC_I2C_RESET_GATE OR OC_I2C_RESET_TUNER OR OC_I2C_RESET_SONY, J_INSEL_SONY)
      | JOKER_SYS_DVBT \<Rightarrow> Some (OC_I2C_RESET_GATE OR OC_I2C_RESET_TUNER OR OC_I2C_RESET_SONY, J_INSEL_SONY)
      | JOKER_SYS_DVBT2 \<Rightarrow> Some (OC_I2C_RESET_GATE OR OC_I2C_RESET_TUNER OR OC_I2C_RESET_SONY, J_INSEL_SONY)
      | JOKER_SYS_ISDBT \<Rightarrow> Some (OC_I2C_RESET_GATE OR OC_I2C_RESET_TUNER OR OC_I2C_RESET_SONY, J_INSEL_SONY)
      | _ \<Rightarrow> None)"

definition need_lnb :: "delivery_system \<Rightarrow> bool" where
  "need_lnb sys \<longleftrightarrow> sys = JOKER_SYS_DVBS \<or> sys = JOKER_SYS_DVBS2"

text \<open>The second switch: the demodulator, and the code returned when it cannot be attached.\<close>

definition tune_demod :: "delivery_system \<Rightarrow> fe_chip \<times> int" where
  "tune_demod sys =
     (if sys = JOKER_SYS_ATSC \<or> sys = JOKER_SYS_DVBC_ANNEX_B then (lgdt3306a, - ENODEV)
      else if sys = JOKER_SYS_DTMB then (atbm888x, ENODEV)
      else if need_lnb sys then (cxd2841er_s, ENODEV)
      else (cxd2841er_tc, ENODEV))"

text \<open>
  The frequency behind the LNB and the tone that selects its band. The products with 1000 are products
  of \<open>int\<close>s, so a value beyond 32 bits is undefined: a fault. \<open>lo_freq\<close> is subtracted from a 64-bit
  unsigned value, \<open>abs\<close> takes an \<open>int\<close> (its value for the least one, which is undefined, is caught by
  the product), and the product is stored as 32 bits.
\<close>

definition c_int :: "int \<Rightarrow> int option" where
  "c_int x = (if - (2 ^ 31) \<le> x \<and> x < 2 ^ 31 then Some x else None)"

definition lnb_band :: "tune_info_t \<Rightarrow> (int \<times> tune_info_t) option" where
  "lnb_band ti =
     (if switchfreq (lnb ti) \<noteq> 0 then
        (case c_int (switchfreq (lnb ti) * 1000) of
           None \<Rightarrow> None
         | Some switch \<Rightarrow>
             if frequency ti div 1000 > word_of_int switch
             then map_option (\<lambda>lo_freq. (lo_freq, ti\<lparr>ti_tone := JOKER_SEC_TONE_ON\<rparr>)) (c_int (highfreq (lnb ti) * 1000))
             else map_option (\<lambda>lo_freq. (lo_freq, ti)) (c_int (lowfreq (lnb ti) * 1000)))
      else map_option (\<lambda>lo_freq. (lo_freq, ti)) (c_int (lowfreq (lnb ti) * 1000)))"

definition lnb_frequency :: "u64 \<Rightarrow> int \<Rightarrow> u32 option" where
  "lnb_frequency freq lo_freq =
     map_option word_of_int (c_int (\<bar>signed_take_bit 31 (uint (freq div 1000 - word_of_int lo_freq))\<bar> * 1000))"

definition upd_props :: "(dtv_props \<Rightarrow> dtv_props) \<Rightarrow> ('d, 'z) joker_tune_scheme \<Rightarrow> ('d, 'z) joker_tune_scheme" where
  "upd_props f j = j\<lparr>fe_opaque := map_option (\<lambda>fe. fe\<lparr>fe_props := f (fe_props fe)\<rparr>) (fe_opaque j)\<rparr>"

text \<open>The end of a successful \<open>tune\<close>.\<close>

definition tune_go :: "fe_lib \<Rightarrow> 'd usb_dev \<Rightarrow> ('d, 'z) joker_tune_scheme \<Rightarrow> ('d, 'z) joker_tune_scheme" where
  "tune_go lib dev j =
     (let j = fe_run lib (fe_tune (case fe_opaque j of None \<Rightarrow> 0 | Some fe \<Rightarrow> dp_frequency (fe_props fe))) j;
          (_, j) = joker_i2c_gate_ctrl dev False j
      in j\<lparr>stat := (stat j)\<lparr>refresh_enable := 1\<rparr>\<rparr>)"

text \<open>
  The block \<open>if (need_lnb)\<close>: the return code when it returns, else the call goes on with the tune
  information it may have changed.
\<close>

definition tune_lnb ::
  "fe_lib \<Rightarrow> sec_mini \<Rightarrow> frontend \<Rightarrow> tune_info_t \<Rightarrow> ('d, 'z) joker_tune_scheme
    \<Rightarrow> (int option \<times> tune_info_t \<times> ('d, 'z) joker_tune_scheme) option" where
  "tune_lnb lib junk fe ti j =
     (case fe_lnb lib fe of
        None \<Rightarrow> Some (Some (- 1), ti, fe_run lib fe_tps65233 j)
      | Some fe \<Rightarrow>
          let j = fe_run lib fe_tps65233 (j\<lparr>fe_opaque := Some fe\<rparr>);
              j = fe_run lib (fe_set_voltage (ti_voltage ti)) j
          in case diseqc_process lib junk j of
               None \<Rightarrow> None
             | Some (_, j) \<Rightarrow>
                 if blind_scan_mode j then Some (Some 0, ti, j)
                 else
                   case lnb_band ti of
                     None \<Rightarrow> None
                   | Some (lo_freq, ti) \<Rightarrow>
                       (case lnb_frequency (frequency ti) lo_freq of
                          None \<Rightarrow> None
                        | Some freq \<Rightarrow>
                            let j = upd_props (\<lambda>p. p\<lparr>dp_frequency := freq\<rparr>) j;
                                j = fe_run lib (fe_set_tone (ti_tone ti)) j;
                                j = fe_run lib (fe_set_voltage (ti_voltage ti)) j
                            in Some (None, ti, j)))"

text \<open>Before the first switch: the information is kept, the service thread started and paused.\<close>

definition tune_start ::
  "int \<Rightarrow> 'd usb_dev \<Rightarrow> tune_info_t \<Rightarrow> ('d, 'z) joker_tune_scheme \<Rightarrow> int option \<times> ('d, 'z) joker_tune_scheme" where
  "tune_start rc dev ti j =
     (if \<not> i2c_opaque j then (Some EINVAL, j)
      else
        let j = j\<lparr>info := Some ti\<rparr>;
            started = \<not> service_threading j;
            j = (if started then j\<lparr>service_threading := True, service_cancel := False,
                                   stat := zero_stat\<lparr>refresh_ms := 200, refresh_enable := 0\<rparr>\<rparr>
                 else j)
        in if started \<and> rc \<noteq> 0 then (Some rc, j)
           else
             let j = j\<lparr>stat := (stat j)\<lparr>status := JOKER_NOLOCK\<rparr>\<rparr>;
                 (_, j) = joker_clean_ts dev j
             in (None, j\<lparr>stat := (stat j)\<lparr>refresh_enable := 0\<rparr>\<rparr>))"

definition tune ::
  "fe_lib \<Rightarrow> int \<Rightarrow> sec_mini \<Rightarrow> 'd usb_dev \<Rightarrow> tune_info_t \<Rightarrow> ('d, 'z) joker_tune_scheme
    \<Rightarrow> (int \<times> tune_info_t \<times> ('d, 'z) joker_tune_scheme) option" where
  "tune lib rc junk dev ti j =
     (case tune_start rc dev ti j of
        (Some ret, j) \<Rightarrow> Some (ret, ti, j)
      | (None, j) \<Rightarrow>
          (case tune_input (ti_system ti) of
             None \<Rightarrow> Some (ENODEV, ti, j)
           | Some (chips, insel) \<Rightarrow>
               let (_, j) = joker_unreset dev j chips;
                   j = fe_run lib (fe_usleep (msleep_msecs 50)) j;
                   (ret, j) = joker_cmd0 dev j [J_CMD_TS_INSEL_WRITE, insel]
               in if ret \<noteq> 0 then Some (ret, ti, j)
                  else
                    let (chip, err) = tune_demod (ti_system ti);
                        j = fe_run lib (fe_attach chip) j
                    in (case fe_new lib chip of
                          None \<Rightarrow> Some (err, ti, j)
                        | Some fe \<Rightarrow>
                            let fe = fe_tuner lib (need_lnb (ti_system ti)) fe;
                                j = fe_run lib (fe_helene (need_lnb (ti_system ti))) j;
                                (_, j) = joker_i2c_gate_ctrl dev True j;
                                j = j\<lparr>fe_opaque := Some fe\<rparr>;
                                j = fe_run lib fe_init j;
                                fe = fe\<lparr>fe_props := \<lparr>dp_system = ti_system ti, dp_bandwidth_hz = bandwidth_hz ti,
                                          dp_modulation = ti_modulation ti, dp_symbol_rate = symbol_rate ti,
                                          dp_frequency = ucast (frequency ti)\<rparr>\<rparr>;
                                j = j\<lparr>fe_opaque := Some fe\<rparr>
                            in if need_lnb (ti_system ti) then
                                 (case tune_lnb lib junk fe ti j of
                                    None \<Rightarrow> None
                                  | Some (Some ret, ti, j) \<Rightarrow> Some (ret, ti, j)
                                  | Some (None, ti, j) \<Rightarrow> Some (0, ti, tune_go lib dev j))
                               else Some (0, ti, tune_go lib dev j))))"

end
