(* ===== verification/TuneProps.thy ===== *)
theory TuneProps
  imports Tune
begin

text \<open>Properties of \<open>Tune\<close>: the DiSEqC script language, the band selection of the LNB, the pausing of the
  service thread and its deadline.\<close>

section \<open>Printed bytes\<close>

definition hexdig :: "nat \<Rightarrow> char" where
  "hexdig n = (if n < 10 then char_of (48 + n) else char_of (87 + n))"

definition hex_byte :: "byte \<Rightarrow> string" where
  "hex_byte b = [hexdig (unat b div 16), hexdig (unat b mod 16)]"

text \<open>A line of bytes separated by single spaces.\<close>

fun hex_line :: "byte list \<Rightarrow> string" where
  "hex_line [] = []"
| "hex_line [b] = hex_byte b"
| "hex_line (b # bs) = hex_byte b @ CHR '' '' # hex_line bs"

lemma of_char_hexdig: "n < 16 \<Longrightarrow> (of_char (hexdig n) :: nat) = (if n < 10 then 48 + n else 87 + n)"
  by (simp add: hexdig_def)

lemma digit_val_hexdig [simp]: "n < 16 \<Longrightarrow> digit_val (hexdig n) = n"
  by (simp add: digit_val_def of_char_hexdig Let_def)

lemma hexdig_not: "n < 16 \<Longrightarrow> (of_char c :: nat) < 48 \<or> 57 < (of_char c :: nat) \<and> (of_char c :: nat) < 97 \<or> 102 < (of_char c :: nat) \<Longrightarrow> hexdig n \<noteq> c"
  using of_char_hexdig [of n] by (auto split: if_splits)

lemma isspace_hexdig [simp]: "n < 16 \<Longrightarrow> \<not> isspace (hexdig n)"
  by (simp add: isspace_def of_char_hexdig Let_def)

lemma strtol_hex_byte:
  assumes "rest = [] \<or> hd rest = CHR '' ''"
  shows "strtol 16 (hex_byte b @ rest) = int (unat b)"
proof -
  have b: "unat b div 16 < 16" "unat b mod 16 < 16" using unat_byte [of b] by auto
  have ns: "hexdig (unat b div 16) \<noteq> CHR ''-''" "hexdig (unat b div 16) \<noteq> CHR ''+''"
    "hexdig (unat b mod 16) \<noteq> CHR ''x''" "hexdig (unat b mod 16) \<noteq> CHR ''X''"
    using b by (simp_all add: hexdig_not)
  have sp: "digit_val CHR '' '' = 99" by (simp add: digit_val_def)
  have tw: "takeWhile (\<lambda>c. digit_val c < 16) (hex_byte b @ rest) = hex_byte b"
    using assms b sp by (cases rest) (auto simp: hex_byte_def)
  have "int (unat b) < 256" using unat_byte [of b] by linarith
  moreover have "(256 :: int) \<le> 2 ^ 63 - 1" by simp
  ultimately have le: "int (unat b) \<le> 2 ^ 63 - 1" by linarith
  have v: "16 * int (unat b div 16) + int (unat b mod 16) = int (unat b)" by presburger
  show ?thesis
    using b ns tw le v by (simp add: strtol_def hex_byte_def Let_def)
qed

lemma after_space_hex:
  "after_space (hex_byte b @ CHR '' '' # rest) = Some rest" "after_space (hex_byte b) = None"
proof -
  have "unat b div 16 < 16" "unat b mod 16 < 16" using unat_byte [of b] by auto
  then have "hexdig (unat b div 16) \<noteq> CHR '' ''" "hexdig (unat b mod 16) \<noteq> CHR '' ''"
    by (simp_all add: hexdig_not)
  then show "after_space (hex_byte b @ CHR '' '' # rest) = Some rest" "after_space (hex_byte b) = None"
    by (simp_all add: after_space_def hex_byte_def)
qed

lemma word_of_int_unat: "(word_of_int (int (unat b)) :: byte) = b"
  by simp

lemma diseqc_tokens_hex:
  assumes "bs \<noteq> []" and "length acc + length bs \<le> 6"
  shows "diseqc_tokens (hex_line bs) acc = Some (acc @ bs)"
  using assms
proof (induction bs arbitrary: acc rule: hex_line.induct)
  case (2 b)
  then show ?case
    using strtol_hex_byte [of "[]" b] by (subst diseqc_tokens.simps) (simp add: after_space_hex)
next
  case (3 b c cs)
  have "strtol 16 (hex_line (b # c # cs)) = int (unat b)"
    using strtol_hex_byte [of "CHR '' '' # hex_line (c # cs)" b] by simp
  then show ?case
    using 3 by (subst diseqc_tokens.simps) (simp add: after_space_hex)
qed simp

text \<open>diseqc_roundtrip: a script line that prints three to six bytes in hexadecimal, separated by single
  spaces, sends exactly this DiSEqC message.\<close>

theorem diseqc_roundtrip:
  assumes "3 \<le> length bs" and "length bs \<le> 6" and "fe_opaque j = Some fe" and "has_master_cmd fe"
  shows "diseqc_do_line lib junk (hex_line bs) j = Some (j\<lparr>fe_log := fe_log j @ [fe_master_cmd bs]\<rparr>)"
proof -
  obtain b c cs where bs: "bs = b # c # cs" using assms(1) by (metis One_nat_def Suc_1 list.exhaust list.size(3) list.size(4) not_less_eq_eq numeral_3_eq_3 add_0 add_Suc_right le0 Nat.add_0_right)
  have b: "unat b div 16 < 16" "unat b mod 16 < 16" using unat_byte [of b] by auto
  then have ne: "hexdig (unat b div 16) \<noteq> CHR ''#''" "hexdig (unat b div 16) \<noteq> CHR ''m''" "hexdig (unat b mod 16) \<noteq> CHR ''u''"
    by (simp_all add: hexdig_not)
  have k: "hex_line bs = hexdig (unat b div 16) # hexdig (unat b mod 16) # CHR '' '' # hex_line (c # cs)"
    by (simp add: bs hex_byte_def)
  have nk: "take 6 (hex_line bs) \<noteq> ''msleep''" "take 5 (hex_line bs) \<noteq> ''burst''" "hex_line bs \<noteq> []"
      "hd (hex_line bs) \<noteq> CHR ''#''"
    using ne by (simp_all add: k)
  have "bs \<noteq> []" by (simp add: bs)
  then have t: "diseqc_tokens (hex_line bs) [] = Some bs" using diseqc_tokens_hex [of bs "[]"] assms(2) by simp
  show ?thesis
    unfolding diseqc_do_line_def using nk t assms
    by (simp add: send_diseqc_message_def fe_do_def Let_def)
qed

text \<open>diseqc_line_fault_iff: a line overflows the six bytes on the stack exactly when it is neither a comment
  nor a keyword and has six spaces or more: a space behind a full message is enough.\<close>

lemma after_space_count:
  "length (filter (\<lambda>c. c = CHR '' '') s)
    = (case after_space s of None \<Rightarrow> 0 | Some r \<Rightarrow> Suc (length (filter (\<lambda>c. c = CHR '' '') r)))"
  by (induction s) (auto simp: after_space_def)

lemma diseqc_tokens_fault:
  "length acc \<le> 6 \<Longrightarrow> diseqc_tokens s acc = None \<longleftrightarrow> length acc + length (filter (\<lambda>c. c = CHR '' '') s) \<ge> 6"
proof (induction s acc rule: diseqc_tokens.induct)
  case (1 s acc)
  show ?case
  proof (cases "after_space s")
    case None
    then show ?thesis using after_space_count [of s] 1(2) by (subst diseqc_tokens.simps) auto
  next
    case (Some r)
    then show ?thesis using after_space_count [of s] 1 by (subst diseqc_tokens.simps) auto
  qed
qed

definition plain_line :: "string \<Rightarrow> bool" where
  "plain_line line \<longleftrightarrow> line \<noteq> [] \<and> hd line \<noteq> CHR ''#'' \<and> \<not> (length line > 6 \<and> take 6 line = ''msleep'')
     \<and> \<not> (length line > 5 \<and> take 5 line = ''burst'')"

theorem diseqc_line_fault_iff:
  "diseqc_do_line lib junk line j = None \<longleftrightarrow> plain_line line \<and> length (filter (\<lambda>c. c = CHR '' '') line) \<ge> 6"
  using diseqc_tokens_fault [of "[]" line]
  by (auto simp: diseqc_do_line_def plain_line_def Let_def split: option.split)


section \<open>Scripts\<close>

lemma script_lines_snoc:
  "CHR ''\<newline>'' \<notin> set line \<Longrightarrow> script_lines cur (line @ CHR ''\<newline>'' # rest) = (cur @ line) # script_lines [] rest"
  by (induction line arbitrary: cur) auto

lemma script_lines_tail: "CHR ''\<newline>'' \<notin> set rest \<Longrightarrow> script_lines cur rest = []"
  by (induction rest arbitrary: cur) auto

lemma script_lines_concat:
  assumes "\<forall>l\<in>set ls. CHR ''\<newline>'' \<notin> set l" and "CHR ''\<newline>'' \<notin> set rest"
  shows "script_lines [] (concat (map (\<lambda>l. l @ ''\<newline>'') ls) @ rest) = ls"
  using assms by (induction ls) (simp_all add: script_lines_snoc script_lines_tail)

lemma diseqc_process_frame:
  "diseqc_do_line lib junk line j = Some k \<Longrightarrow>
     fe_opaque k = fe_opaque j \<and> stat k = stat j \<and> blind_scan_mode k = blind_scan_mode j
     \<and> service_threading k = service_threading j \<and> info k = info j \<and> usb_log k = usb_log j"
  by (auto simp: diseqc_do_line_def fe_run_def fe_do_def send_burst_def send_diseqc_message_def Let_def
      split: if_splits option.splits)

lemma script_sends:
  assumes "fe_opaque j = Some fe" and "has_master_cmd fe" and "\<forall>m\<in>set ms. 3 \<le> length m \<and> length m \<le> 6"
  shows "fold_opt (diseqc_do_line lib junk) (map hex_line ms) j = Some (j\<lparr>fe_log := fe_log j @ map fe_master_cmd ms\<rparr>)"
  using assms
proof (induction ms arbitrary: j)
  case (Cons m ms)
  then show ?case using diseqc_roundtrip [of m j fe lib junk] by simp
qed simp

lemma newline_hex_line: "CHR ''\<newline>'' \<notin> set (hex_line m)"
proof (induction m rule: hex_line.induct)
  case (2 b)
  have "unat b div 16 < 16" "unat b mod 16 < 16" using unat_byte [of b] by auto
  then show ?case by (auto simp: hex_byte_def hexdig_not [THEN not_sym])
next
  case (3 b c cs)
  have "unat b div 16 < 16" "unat b mod 16 < 16" using unat_byte [of b] by auto
  with 3 show ?case by (auto simp: hex_byte_def hexdig_not [THEN not_sym])
qed simp

text \<open>C21 (diseqc_script_order): a script of messages is sent in its order between switching the tone off and on;
  text behind the last newline is not sent.\<close>

theorem diseqc_script_order:
  assumes "fe_opaque j = Some fe" and "has_master_cmd fe" and "\<forall>m\<in>set ms. 3 \<le> length m \<and> length m \<le> 6"
    and "diseqc_script j = Some (concat (map (\<lambda>m. hex_line m @ ''\<newline>'') ms) @ rest)" and "ms \<noteq> []"
    and "CHR ''\<newline>'' \<notin> set rest"
  shows "\<exists>k. diseqc_process lib junk j = Some (0, k)
    \<and> fe_log k = fe_log j @ [fe_set_tone JOKER_SEC_TONE_OFF, fe_usleep 10000] @ map fe_master_cmd ms @ [fe_set_tone JOKER_SEC_TONE_ON]"
proof -
  let ?s = "concat (map (\<lambda>m. hex_line m @ ''\<newline>'') ms) @ rest"
  let ?j = "fe_run lib (fe_usleep (msleep_msecs 10)) (fe_run lib (fe_set_tone JOKER_SEC_TONE_OFF) j)"
  have ne: "?s \<noteq> []" using assms(5) by (cases ms) auto
  have l: "script_lines [] ?s = map hex_line ms"
    using script_lines_concat [of "map hex_line ms" rest] assms(6) newline_hex_line by (simp add: comp_def)
  have f: "fe_opaque ?j = Some fe" "fe_log ?j = fe_log j @ [fe_set_tone JOKER_SEC_TONE_OFF, fe_usleep 10000]"
    using assms(1) by (simp_all add: fe_run_def fe_do_def Let_def msleep_msecs_def)
  have "fold_opt (diseqc_do_line lib junk) (map hex_line ms) ?j = Some (?j\<lparr>fe_log := fe_log ?j @ map fe_master_cmd ms\<rparr>)"
    by (rule script_sends [OF f(1) assms(2,3)])
  then show ?thesis
    using assms(1,4) ne by (simp add: diseqc_process_def l Let_def f) (simp add: fe_run_def fe_do_def Let_def)
qed

section \<open>The band of the LNB\<close>

lemma c_int_eq: "c_int x = Some y \<longleftrightarrow> x = y \<and> - (2 ^ 31) \<le> x \<and> x < 2 ^ 31"
  by (auto simp: c_int_def)

lemma lnb_frequency_exact:
  assumes "0 \<le> lo_freq" and "lo_freq < 2 ^ 31" and "lo_freq \<le> uint freq div 1000" and "uint freq div 1000 - lo_freq < 2 ^ 31"
  shows "lnb_frequency freq lo_freq = (if uint freq div 1000 - lo_freq \<le> 2147483
    then Some (word_of_int ((uint freq div 1000 - lo_freq) * 1000)) else None)"
proof -
  have f: "uint (freq div 1000) = uint freq div 1000" by (simp add: uint_div)
  have l: "uint (word_of_int lo_freq :: u64) = lo_freq" using assms(1,2) by (simp add: uint_word_of_int)
  have d: "uint (freq div 1000 - word_of_int lo_freq) = uint freq div 1000 - lo_freq"
    using assms(3) by (simp add: uint_sub_if' f l)
  have s: "signed_take_bit 31 (uint freq div 1000 - lo_freq) = uint freq div 1000 - lo_freq"
    using assms(3,4) by (intro signed_take_bit_int_eq_self) auto
  show ?thesis using assms(3) unfolding lnb_frequency_def d s c_int_def by simp
qed

lemma lnb_band_exact:
  assumes "0 < switchfreq (lnb ti)" and "switchfreq (lnb ti) \<le> 2147483"
  shows "lnb_band ti = (if uint (frequency ti) div 1000 > switchfreq (lnb ti) * 1000
      then map_option (\<lambda>lo. (lo, ti\<lparr>ti_tone := JOKER_SEC_TONE_ON\<rparr>)) (c_int (highfreq (lnb ti) * 1000))
      else map_option (\<lambda>lo. (lo, ti)) (c_int (lowfreq (lnb ti) * 1000)))"
proof -
  have f: "uint (frequency ti div 1000) = uint (frequency ti) div 1000" by (simp add: uint_div)
  have sw: "uint (word_of_int (switchfreq (lnb ti) * 1000) :: u64) = switchfreq (lnb ti) * 1000"
    using assms unfolding uint_word_of_int by simp
  have c: "frequency ti div 1000 > word_of_int (switchfreq (lnb ti) * 1000) \<longleftrightarrow> uint (frequency ti) div 1000 > switchfreq (lnb ti) * 1000"
    unfolding word_less_def f sw ..
  have "c_int (switchfreq (lnb ti) * 1000) = Some (switchfreq (lnb ti) * 1000)" using assms by (simp add: c_int_def)
  then show ?thesis using assms(1) c unfolding lnb_band_def by simp
qed

text \<open>C20 (tune_lband): with a two-band LNB every sky frequency above the local oscillator of its band is turned into
  the intermediate frequency behind it, in Hz rounded down to kHz, when that is at most 2147483 kHz; above
  the switch frequency the tone is on. From 2147484 kHz on, which the L band up to 2150000 kHz includes, the
  product overflows.\<close>

theorem tune_lband:
  assumes "0 < switchfreq (lnb ti)" and "switchfreq (lnb ti) \<le> 2147483" and "0 < lowfreq (lnb ti)" and "0 < highfreq (lnb ti)"
    and "lnb_band ti = Some (lo_freq, ti')" and "lo_freq \<le> uint (frequency ti) div 1000"
    and "uint (frequency ti) div 1000 - lo_freq < 2 ^ 31"
  shows "(case lnb_frequency (frequency ti) lo_freq of
       Some f \<Rightarrow> uint f = (uint (frequency ti) div 1000 - lo_freq) * 1000 \<and> uint (frequency ti) div 1000 - lo_freq \<le> 2147483
     | None \<Rightarrow> uint (frequency ti) div 1000 - lo_freq \<ge> 2147484)
    \<and> (if uint (frequency ti) div 1000 > switchfreq (lnb ti) * 1000
       then lo_freq = highfreq (lnb ti) * 1000 \<and> ti' = ti\<lparr>ti_tone := JOKER_SEC_TONE_ON\<rparr>
       else lo_freq = lowfreq (lnb ti) * 1000 \<and> ti' = ti)"
proof -
  note b = lnb_band_exact [OF assms(1,2)]
  have lo: "0 \<le> lo_freq" "lo_freq < 2 ^ 31" using assms(3,4,5) by (auto simp: b c_int_eq split: if_splits)
  have u: "uint (word_of_int (x * 1000) :: u32) = x * 1000" if "0 \<le> x" "x \<le> 2147483" for x
    using that unfolding uint_word_of_int by simp
  have "case lnb_frequency (frequency ti) lo_freq of
       Some f \<Rightarrow> uint f = (uint (frequency ti) div 1000 - lo_freq) * 1000 \<and> uint (frequency ti) div 1000 - lo_freq \<le> 2147483
     | None \<Rightarrow> uint (frequency ti) div 1000 - lo_freq \<ge> 2147484"
    unfolding lnb_frequency_exact [OF lo assms(6,7)] using assms(6) u [of "uint (frequency ti) div 1000 - lo_freq"] by auto
  moreover have "if uint (frequency ti) div 1000 > switchfreq (lnb ti) * 1000
       then lo_freq = highfreq (lnb ti) * 1000 \<and> ti' = ti\<lparr>ti_tone := JOKER_SEC_TONE_ON\<rparr>
       else lo_freq = lowfreq (lnb ti) * 1000 \<and> ti' = ti"
    using assms(5) by (auto simp: b c_int_eq split: if_splits)
  ultimately show ?thesis by blast
qed

section \<open>The service thread\<close>

text \<open>tune_resumes: once the service thread runs, \<open>tune\<close> leaves its refresh enabled exactly when it has
  configured the frontend: after an error, and in the blind scan mode of a satellite, it stays paused.\<close>

lemma fe_run_frame [simp]:
  "stat (fe_run lib c j) = stat j" "service_threading (fe_run lib c j) = service_threading j"
  "blind_scan_mode (fe_run lib c j) = blind_scan_mode j" "io_mux_opaq (fe_run lib c j) = io_mux_opaq j"
  by (simp_all add: fe_run_def fe_do_def Let_def)

lemma joker_cmd0_tune [simp]:
  fixes j :: "('d, 'z) joker_tune_scheme"
  shows "stat (snd (joker_cmd0 dev j c)) = stat j" "blind_scan_mode (snd (joker_cmd0 dev j c)) = blind_scan_mode j"
  by (simp_all add: joker_cmd0_def joker_cmd_def joker_io_def Let_def split: prod.split)

lemma reset_tune [simp]:
  fixes j :: "('d, 'z) joker_tune_scheme"
  shows "stat (snd (joker_unreset dev j m)) = stat j" "blind_scan_mode (snd (joker_unreset dev j m)) = blind_scan_mode j"
    "stat (snd (joker_reset dev j m)) = stat j" "blind_scan_mode (snd (joker_reset dev j m)) = blind_scan_mode j"
  by (simp_all add: joker_unreset_def joker_reset_def joker_reset_write_eq case_prod_beta Let_def)

lemma process_stat:
  assumes "diseqc_process lib junk j = Some (r, k)" shows "stat k = stat j \<and> blind_scan_mode k = blind_scan_mode j"
proof -
  have l: "fold_opt (diseqc_do_line lib junk) ls h = Some h' \<Longrightarrow> stat h' = stat h \<and> blind_scan_mode h' = blind_scan_mode h" for ls h h'
    by (rule fold_opt_inv [where I = "\<lambda>k. stat k = stat h \<and> blind_scan_mode k = blind_scan_mode h"]) (auto dest: diseqc_process_frame)
  show ?thesis using assms
    by (auto simp: diseqc_process_def Let_def split: option.splits if_splits dest!: l)
qed

lemma tune_lnb_stat:
  assumes "tune_lnb lib junk fe ti j = Some (r, ti', k)"
  shows "stat k = stat j \<and> (r = Some 0 \<longrightarrow> blind_scan_mode j) \<and> (r = None \<longrightarrow> \<not> blind_scan_mode j)"
  using assms
  by (auto simp: tune_lnb_def Let_def case_prod_beta upd_props_def split: option.splits if_splits dest!: process_stat)

lemma tune_start_stat:
  assumes "tune_start rc dev ti j = (r, k)" and "i2c_opaque j" and "service_threading j \<or> rc = 0"
  shows "r = None \<and> refresh_enable (stat k) = 0 \<and> blind_scan_mode k = blind_scan_mode j"
proof -
  have b: "blind_scan_mode (snd (joker_clean_ts dev h)) = blind_scan_mode h" for h :: "('a, 'b) joker_tune_scheme"
    by (simp add: joker_clean_ts_def case_prod_beta Let_def)
  show ?thesis using assms by (auto simp: tune_start_def Let_def case_prod_beta b split: if_splits)
qed

lemma tune_go_refresh: "refresh_enable (stat (tune_go lib dev j)) = 1"
  by (simp add: tune_go_def Let_def case_prod_beta)

theorem tune_resumes:
  assumes "tune lib rc junk dev ti j = Some (ret, ti', k)" and "i2c_opaque j" and "service_threading j \<or> rc = 0"
  shows "refresh_enable (stat k) = (if ret = 0 \<and> \<not> (need_lnb (ti_system ti) \<and> blind_scan_mode j) then 1 else 0)"
proof -
  obtain h where h: "tune_start rc dev ti j = (None, h)" "refresh_enable (stat h) = 0" "blind_scan_mode h = blind_scan_mode j"
    using tune_start_stat [OF _ assms(2,3), of dev ti] by (cases "tune_start rc dev ti j") auto
  have err: "snd (tune_demod sys) \<noteq> 0" for sys by (simp add: tune_demod_def)
  show ?thesis
    using assms(1) h(2,3) err
    unfolding tune_def h(1)
    by (auto simp: Let_def case_prod_beta joker_i2c_gate_ctrl_def tune_go_refresh
        split: option.splits if_splits dest!: tune_lnb_stat)
qed

text \<open>\<open>tune\<close> never clears the flag that ends the service thread.\<close>

definition service_flags :: "('d, 'z) joker_tune_scheme \<Rightarrow> bool \<times> bool" where
  "service_flags j = (service_threading j, service_cancel j)"

lemma service_flags_frame [simp]:
  "service_flags (fe_run lib c j) = service_flags j" "service_flags (snd (joker_cmd0 dev j b)) = service_flags j"
  "service_flags (snd (joker_unreset dev j m)) = service_flags j" "service_flags (snd (joker_reset dev j m)) = service_flags j"
  "service_flags (j\<lparr>fe_opaque := fe\<rparr>) = service_flags j" "service_flags (j\<lparr>stat := st\<rparr>) = service_flags j"
  "service_flags (j\<lparr>info := i\<rparr>) = service_flags j" "service_flags (upd_props f j) = service_flags j"
  "service_flags (snd (joker_clean_ts dev j)) = service_flags j"
  by (simp_all add: service_flags_def fe_run_def fe_do_def joker_unreset_def joker_reset_def joker_reset_write_eq
      joker_clean_ts_def upd_props_def joker_cmd0_def joker_cmd_def joker_io_def case_prod_beta Let_def)

lemma process_flags:
  assumes "diseqc_process lib junk j = Some (r, k)" shows "service_flags k = service_flags j"
proof -
  have d: "diseqc_do_line lib junk line h = Some k \<Longrightarrow> service_flags k = service_flags h" for line h k
    by (auto simp: service_flags_def diseqc_do_line_def fe_run_def fe_do_def send_burst_def send_diseqc_message_def Let_def
      split: if_splits option.splits)
  have l: "fold_opt (diseqc_do_line lib junk) ls h = Some h' \<Longrightarrow> service_flags h' = service_flags h" for ls h h'
    by (rule fold_opt_inv [where I = "\<lambda>k. service_flags k = service_flags h"]) (auto dest: d)
  show ?thesis using assms
    by (auto simp: diseqc_process_def Let_def split: option.splits if_splits dest!: l)
qed

lemma tune_lnb_flags:
  "tune_lnb lib junk fe ti j = Some (r, ti', k) \<Longrightarrow> service_flags k = service_flags j"
  by (auto simp: tune_lnb_def Let_def case_prod_beta split: option.splits if_splits dest!: process_flags)

lemma tune_start_flags:
  assumes "tune_start rc dev ti j = (r, k)" and "service_threading j" shows "service_flags k = service_flags j"
  using assms by (auto simp: tune_start_def Let_def case_prod_beta split: if_splits)

lemma tune_flags:
  assumes "tune lib rc junk dev ti j = Some (ret, ti', k)" and "service_threading j"
  shows "service_flags k = service_flags j"
proof (cases "tune_start rc dev ti j")
  case (Pair r h)
  note h = tune_start_flags [OF Pair assms(2)]
  show ?thesis
    using assms(1) h unfolding tune_def Pair
    by (auto simp: Let_def case_prod_beta joker_i2c_gate_ctrl_def tune_go_def
        split: option.splits if_splits dest!: tune_lnb_flags)
qed

text \<open>service_deadline_exact: the deadline of the wait between two status rounds is the current time plus the
  refresh interval, to the microsecond, in a normalised \<open>timespec\<close>.\<close>

theorem service_deadline_exact:
  assumes "0 \<le> ms" and "ms < 2 ^ 31" and "uint sec < 2 ^ 33" and "uint usec < 1000000"
    and "service_deadline ms sec usec = (s, ns)"
  shows "uint s * 1000000000 + uint ns = (uint sec * 1000000 + uint usec + ms * 1000) * 1000 \<and> uint ns < 1000000000"
proof -
  define N where "N = (ms div 1000 + uint sec) * 1000 * 1000 * 1000 + (1000 * (ms mod 1000) + uint usec) * 1000"
  define n :: u64 where "n = word_of_int N"
  have "ms div 1000 < 2147484" "ms div 1000 \<ge> 0" "ms mod 1000 < 1000" "ms mod 1000 \<ge> 0" using assms(1,2) by auto
  moreover have "uint sec \<ge> 0" "uint usec \<ge> 0" by simp_all
  ultimately have N: "0 \<le> N" "N < 2 ^ 64" using assms(3,4) unfolding N_def by (auto intro: order_less_le_trans)
  then have un: "uint n = N" unfolding n_def uint_word_of_int by simp
  have "(of_int (ms div 1000) + sec) * 1000 * 1000 * 1000 + (1000 * of_int (ms mod 1000) + usec) * 1000 = n"
    by (simp add: n_def N_def)
  then have "s = n div (1000 * 1000 * 1000)" "ns = n mod (1000 * 1000 * 1000)"
    using assms(5) by (auto simp: service_deadline_def Let_def)
  then have "uint s = N div 1000000000" "uint ns = N mod 1000000000"
    by (simp_all add: uint_div uint_mod un)
  moreover have "ms = ms div 1000 * 1000 + ms mod 1000" by simp
  then have "N = (uint sec * 1000000 + uint usec + ms * 1000) * 1000" unfolding N_def by presburger
  ultimately show ?thesis by simp
qed


section \<open>Witnesses\<close>

definition demo_fe :: frontend where
  "demo_fe = \<lparr>fe_chip = cxd2841er_s, has_set_voltage = True, has_master_cmd = True, has_send_burst = True, has_get_rssi = False,
     fe_props = \<lparr>dp_system = JOKER_SYS_DVBS, dp_bandwidth_hz = 0, dp_modulation = JOKER_QPSK, dp_symbol_rate = 0, dp_frequency = 0\<rparr>\<rparr>"

definition demo_fe_lib :: fe_lib where
  "demo_fe_lib = \<lparr>fe_res = (\<lambda>_. 0), fe_read = (\<lambda>_. \<lparr>rd_status = 0x1f, rd_snr = 0, rd_ber = 0, rd_ucblocks = 0, rd_strength = 0,
       rd_cnr = 0, rd_block_error = 0, rd_post_bit_error = 0, rd_post_bit_count = 0, rd_rssi = 0\<rparr>),
     fe_new = (\<lambda>c. Some (demo_fe\<lparr>fe_chip := c\<rparr>)), fe_tuner = (\<lambda>_ fe. fe), fe_lnb = Some\<rparr>"

text \<open>A handle with a script of one message and an unfinished line.\<close>

definition tune_joker :: "unit joker_tune" where
  "tune_joker = \<lparr>dev_st = (), usb_log = [], libusb_opaque = True, io_mux_opaq = True, i2c_opaque = True, reset = 0xff,
     joker_ci_opaque = None, ci_threading = False, shutdown_thread = False, ci_verbose_opt = False,
     cam_pcap_filename = False, cam_pcap_fd = None, wall_clock = (0, 0), joker_en50221_opaque = None,
     ci_ts_enable = 0, cam_query_send = False, en_log = [],
     fe_opaque = Some demo_fe, service_threading = True, service_cancel = False, stat = zero_stat, info = None,
     diseqc_script = Some (hex_line [0xe0, 0x10, 0x38, 0xf0] @ ''\<newline>'' @ ''e0''), blind_scan_mode = False, fe_log = []\<rparr>"

text \<open>A transponder at 12.363 GHz behind a universal LNB.\<close>

definition demo_ti :: tune_info_t where
  "demo_ti = \<lparr>ti_system = JOKER_SYS_DVBS2, ti_modulation = JOKER_PSK_8, ti_voltage = JOKER_SEC_VOLTAGE_18, ti_tone = JOKER_SEC_TONE_OFF,
     ti_coderate = 0, lnb = \<lparr>lowfreq = 9750, highfreq = 10600, switchfreq = 11700, selected_freq = 0\<rparr>,
     frequency = 12363000000, symbol_rate = 27500000, symbol_rate_rounded = 0, bandwidth_hz = 0\<rparr>"

theorem diseqc_roundtrip_witness:
  "diseqc_do_line demo_fe_lib JOKER_SEC_MINI_A ''e0 10 38 f0'' tune_joker
    = Some (tune_joker\<lparr>fe_log := [fe_master_cmd [0xe0, 0x10, 0x38, 0xf0]]\<rparr>)"
proof -
  have "hex_line [0xe0, 0x10, 0x38, 0xf0] = ''e0 10 38 f0''" by (simp add: hex_byte_def hexdig_def) code_simp
  then show ?thesis
    using diseqc_roundtrip [of "[0xe0, 0x10, 0x38, 0xf0]" tune_joker demo_fe demo_fe_lib JOKER_SEC_MINI_A]
    by (simp add: tune_joker_def demo_fe_def)
qed

theorem diseqc_script_order_witness:
  "\<exists>k. diseqc_process demo_fe_lib JOKER_SEC_MINI_A tune_joker = Some (0, k)
    \<and> fe_log k = [fe_set_tone JOKER_SEC_TONE_OFF, fe_usleep 10000, fe_master_cmd [0xe0, 0x10, 0x38, 0xf0], fe_set_tone JOKER_SEC_TONE_ON]"
  using diseqc_script_order [of tune_joker demo_fe "[[0xe0, 0x10, 0x38, 0xf0]]" "''e0''" demo_fe_lib JOKER_SEC_MINI_A]
  by (simp add: tune_joker_def demo_fe_def)

theorem tune_lband_witness:
  "lnb_frequency (frequency demo_ti) 10600000 = Some 1763000000
   \<and> lnb_frequency (frequency (demo_ti\<lparr>frequency := 12748000000\<rparr>)) 10600000 = None"
  using tune_lband [of demo_ti 10600000 "demo_ti\<lparr>ti_tone := JOKER_SEC_TONE_ON\<rparr>"]
    tune_lband [of "demo_ti\<lparr>frequency := 12748000000\<rparr>" 10600000 "demo_ti\<lparr>frequency := 12748000000, ti_tone := JOKER_SEC_TONE_ON\<rparr>"]
  by (simp add: demo_ti_def lnb_band_def c_int_def word_uint_eq_iff split: option.splits)

theorem tune_resumes_witness:
  "\<exists>ret ti k. tune demo_fe_lib 0 JOKER_SEC_MINI_A quiet_dev (demo_ti\<lparr>ti_system := JOKER_SYS_DVBT\<rparr>) tune_joker = Some (ret, ti, k)
     \<and> refresh_enable (stat k) = 1"
proof -
  let ?ti = "demo_ti\<lparr>ti_system := JOKER_SYS_DVBT\<rparr>"
  have "fst (joker_cmd0 quiet_dev s c) = 0" if "io_mux_opaq s" for s :: "unit joker_tune" and c
    using that by (simp add: joker_cmd0_def joker_cmd_def joker_io_def quiet_dev_def)
  note ok = this
  have "\<exists>ti k. tune demo_fe_lib 0 JOKER_SEC_MINI_A quiet_dev ?ti tune_joker = Some (0, ti, k)"
    by (simp add: tune_def tune_start_def tune_joker_def demo_ti_def tune_input_def demo_fe_lib_def need_lnb_def case_prod_beta Let_def
        ok joker_clean_ts_def frame_simps)
  then obtain ti k where t: "tune demo_fe_lib 0 JOKER_SEC_MINI_A quiet_dev ?ti tune_joker = Some (0, ti, k)" by blast
  from tune_resumes [OF this] t show ?thesis by (auto simp: tune_joker_def demo_ti_def need_lnb_def)
qed

theorem service_deadline_exact_witness:
  "uint (fst (service_deadline 200 1700000000 999999)) * 1000000000 + uint (snd (service_deadline 200 1700000000 999999))
     = 1700000001199999000"
  using service_deadline_exact [of 200 1700000000 999999 "fst (service_deadline 200 1700000000 999999)" "snd (service_deadline 200 1700000000 999999)"]
  by simp

end
