(* ===== verification/Blind.thy ===== *)
theory Blind
  imports TuneProps Programs
begin

text \<open>
  \<open>src/joker_blind_scan.c\<close>: the quadrants of a satellite blind scan and what is recorded of a found
  transponder. The scan itself is the operation \<open>blind_scan\<close> of the Sony driver, logged with its
  range; the symbol rate coefficient is floating point, so the rounded rate is an argument. The
  files that are written are left out, except for their failure to open.
\<close>

section \<open>Quadrants\<close>

text \<open>The range of a quadrant in kHz behind the LNB.\<close>

definition quadrant_range :: "lnb_t \<Rightarrow> sec_tone \<Rightarrow> int \<times> int" where
  "quadrant_range l tone =
     (let freq_min = 950000; freq_max = 2150000
      in if switchfreq l \<noteq> 0 then
           (if tone = JOKER_SEC_TONE_ON then (1000 * (switchfreq l - highfreq l), freq_max)
            else (freq_min, 1000 * (switchfreq l - lowfreq l)))
         else (freq_min, freq_max))"

definition selected_lo :: "lnb_t \<Rightarrow> sec_tone \<Rightarrow> int" where
  "selected_lo l tone =
     (let f = (if tone = JOKER_SEC_TONE_ON then highfreq l else lowfreq l)
      in if lowfreq l < 6000 then f * -1 else f)"

definition blind_scan_do_quadrant ::
  "fe_lib \<Rightarrow> bool \<Rightarrow> sec_tone \<Rightarrow> sec_voltage \<Rightarrow> tune_info_t \<times> ('d, 'z) joker_tune_scheme
    \<Rightarrow> tune_info_t \<times> ('d, 'z) joker_tune_scheme" where
  "blind_scan_do_quadrant lib power_file tone voltage s =
     (let (ti, j) = s;
          (freq_min, freq_max) = quadrant_range (lnb ti) tone;
          j = fe_run lib (fe_set_tone tone) j;
          j = fe_run lib (fe_set_voltage voltage) j;
          ti = ti\<lparr>lnb := (lnb ti)\<lparr>selected_freq := selected_lo (lnb ti) tone\<rparr>, ti_voltage := voltage, ti_tone := tone\<rparr>;
          j = j\<lparr>info := Some ti\<rparr>;
          j = fe_run lib (fe_blind_scan freq_min freq_max 1000 45000 power_file) j
      in (ti, j))"

text \<open>
  \<open>out_file\<close> is \<open>None\<close> when no result file is wanted, else whether it can be opened: \<open>fopen\<close> gives
  NULL for a failure, which the test \<open>< 0\<close> does not catch, and the header is written to it.
\<close>

definition blind_scan ::
  "fe_lib \<Rightarrow> bool \<Rightarrow> bool option \<Rightarrow> tune_info_t \<Rightarrow> ('d, 'z) joker_tune_scheme
    \<Rightarrow> (int \<times> tune_info_t \<times> ('d, 'z) joker_tune_scheme) option" where
  "blind_scan lib power_file out_file ti j =
     (if out_file = Some False then None
      else
        let s = blind_scan_do_quadrant lib power_file JOKER_SEC_TONE_OFF JOKER_SEC_VOLTAGE_13 (ti, j);
            s = blind_scan_do_quadrant lib power_file JOKER_SEC_TONE_OFF JOKER_SEC_VOLTAGE_18 s
        in if switchfreq (lnb (fst s)) \<noteq> 0 then
             let s = blind_scan_do_quadrant lib power_file JOKER_SEC_TONE_ON JOKER_SEC_VOLTAGE_13 s;
                 s = blind_scan_do_quadrant lib power_file JOKER_SEC_TONE_ON JOKER_SEC_VOLTAGE_18 s
             in Some (0, s)
           else Some (0, s))"

section \<open>A found transponder\<close>

record blind_param =
  bp_dvbs :: bool
  centerFreqKHz :: u32
  symbolRateKSps :: u32
  bp_modulation :: nat
  bp_codeRate :: nat
  bp_coderate :: nat

definition DVBS2_CodeRate2joker :: "nat list" where
  "DVBS2_CodeRate2joker = [1, 13, 12, 1, 10, 2, 3, 4, 5, 8, 11, 7, 0, 0, 0, 0]"

definition DVBS_CodeRate2joker :: "nat list" where
  "DVBS_CodeRate2joker = [1, 2, 3, 5, 7]"

text \<open>
  The lookup in a table of \<open>int\<close>: the index is compared with the size in bytes, so that the entry
  behind the table is read for some indices.
\<close>

definition code_rate_of :: "nat list \<Rightarrow> nat \<Rightarrow> nat option" where
  "code_rate_of table i =
     (if i > 4 * length table then Some 0
      else if i < length table then Some (table ! i) else None)"

definition blind_sky_mhz :: "u32 \<Rightarrow> int \<Rightarrow> int" where
  "blind_sky_mhz center selected = \<bar>signed_take_bit 31 (uint (center div 1000 + word_of_int selected))\<bar>"

definition blind_modulation :: "nat \<Rightarrow> fe_modulation" where
  "blind_modulation m =
     (if m = 1 then JOKER_PSK_8 else if m = 2 then JOKER_APSK_16 else if m = 3 then JOKER_APSK_32 else JOKER_QPSK)"

definition blind_found :: "(u32 \<Rightarrow> u32) \<Rightarrow> blind_param \<Rightarrow> tune_info_t \<Rightarrow> tune_info_t option" where
  "blind_found round_sr bp ti =
     (let sr = round_sr (symbolRateKSps bp);
          ti = ti\<lparr>frequency := word_of_int (1000 * 1000 * blind_sky_mhz (centerFreqKHz bp) (selected_freq (lnb ti))),
                  symbol_rate := 1000 * symbolRateKSps bp, symbol_rate_rounded := 1000 * sr, bandwidth_hz := 0\<rparr>
      in if bp_dvbs bp then
           (case code_rate_of DVBS_CodeRate2joker (bp_coderate bp) of
              None \<Rightarrow> None
            | Some c \<Rightarrow> Some (ti\<lparr>ti_system := JOKER_SYS_DVBS, ti_modulation := JOKER_QPSK, ti_coderate := c\<rparr>))
         else
           (case code_rate_of DVBS2_CodeRate2joker (bp_codeRate bp) of
              None \<Rightarrow> None
            | Some c \<Rightarrow>
                Some (ti\<lparr>ti_system := JOKER_SYS_DVBS2, ti_modulation := blind_modulation (bp_modulation bp), ti_coderate := c\<rparr>)))"

text \<open>
  The wait for the names: every program of the list has a non-empty name, tried twenty times;
  \<open>tick\<close> is what the TS thread does during \<open>msleep(500)\<close>. The list that \<open>get_programs\<close> returned
  is not tested for NULL.
\<close>

definition all_named :: "program_t list \<Rightarrow> bool" where
  "all_named ps = list_all (\<lambda>p. hd (name p) \<noteq> 0) ps"

fun wait_names :: "('s \<Rightarrow> 's) \<Rightarrow> ('s \<Rightarrow> program_t list option) \<Rightarrow> nat \<Rightarrow> 's \<Rightarrow> 's option" where
  "wait_names tick programs_of 0 s = Some s"
| "wait_names tick programs_of (Suc n) s =
     (case programs_of s of
        None \<Rightarrow> None
      | Some ps \<Rightarrow> if all_named ps then Some s else wait_names tick programs_of n (tick s))"

section \<open>Properties\<close>

text \<open>quadrants_cover: for a two-band LNB the two ranges of a polarisation, taken to the sky, meet at the switch
  frequency and together cover exactly the two bands of the LNB: nothing is scanned twice or left out.\<close>

theorem quadrants_cover:
  assumes "quadrant_range l JOKER_SEC_TONE_OFF = (lo_min, lo_max)" and "quadrant_range l JOKER_SEC_TONE_ON = (hi_min, hi_max)"
    and "switchfreq l \<noteq> 0" and "lowfreq l + 950 \<le> switchfreq l" and "switchfreq l \<le> highfreq l + 2150"
  shows "{lowfreq l * 1000 + lo_min .. lowfreq l * 1000 + lo_max} \<union> {highfreq l * 1000 + hi_min .. highfreq l * 1000 + hi_max}
      = {lowfreq l * 1000 + 950000 .. highfreq l * 1000 + 2150000}
    \<and> {lowfreq l * 1000 + lo_min ..< lowfreq l * 1000 + lo_max} \<inter> {highfreq l * 1000 + hi_min ..< highfreq l * 1000 + hi_max} = {}"
  using assms by (auto simp: quadrant_range_def)

text \<open>blind_scan_order: a scan asks the driver for the ranges of both polarisations, low band first, each behind
  its tone and voltage.\<close>

definition quadrant_calls :: "lnb_t \<Rightarrow> bool \<Rightarrow> sec_tone \<Rightarrow> sec_voltage \<Rightarrow> fe_call list" where
  "quadrant_calls l pf tone v =
     [fe_set_tone tone, fe_set_voltage v, fe_blind_scan (fst (quadrant_range l tone)) (snd (quadrant_range l tone)) 1000 45000 pf]"

lemma quadrant_step:
  assumes "blind_scan_do_quadrant lib pf tone v (ti, j) = (ti', j')"
  shows "fe_log j' = fe_log j @ quadrant_calls (lnb ti) pf tone v \<and> info j' = Some ti'
    \<and> ti' = ti\<lparr>lnb := (lnb ti)\<lparr>selected_freq := selected_lo (lnb ti) tone\<rparr>, ti_voltage := v, ti_tone := tone\<rparr>"
  using assms
  by (auto simp: blind_scan_do_quadrant_def quadrant_calls_def fe_run_def fe_do_def Let_def case_prod_beta)

lemma quadrant_calls_selected: "quadrant_calls (l\<lparr>selected_freq := x\<rparr>) pf tone v = quadrant_calls l pf tone v"
  by (simp add: quadrant_calls_def quadrant_range_def)

theorem blind_scan_order:
  assumes "out_file \<noteq> Some False"
  shows "\<exists>ti' k. blind_scan lib pf out_file ti j = Some (0, ti', k) \<and> info k = Some ti'
    \<and> fe_log k = fe_log j @ quadrant_calls (lnb ti) pf JOKER_SEC_TONE_OFF JOKER_SEC_VOLTAGE_13
        @ quadrant_calls (lnb ti) pf JOKER_SEC_TONE_OFF JOKER_SEC_VOLTAGE_18
        @ (if switchfreq (lnb ti) \<noteq> 0
           then quadrant_calls (lnb ti) pf JOKER_SEC_TONE_ON JOKER_SEC_VOLTAGE_13
             @ quadrant_calls (lnb ti) pf JOKER_SEC_TONE_ON JOKER_SEC_VOLTAGE_18 else [])"
proof -
  obtain t1 j1 where 1: "blind_scan_do_quadrant lib pf JOKER_SEC_TONE_OFF JOKER_SEC_VOLTAGE_13 (ti, j) = (t1, j1)" by fastforce
  obtain t2 j2 where 2: "blind_scan_do_quadrant lib pf JOKER_SEC_TONE_OFF JOKER_SEC_VOLTAGE_18 (t1, j1) = (t2, j2)" by fastforce
  obtain t3 j3 where 3: "blind_scan_do_quadrant lib pf JOKER_SEC_TONE_ON JOKER_SEC_VOLTAGE_13 (t2, j2) = (t3, j3)" by fastforce
  obtain t4 j4 where 4: "blind_scan_do_quadrant lib pf JOKER_SEC_TONE_ON JOKER_SEC_VOLTAGE_18 (t3, j3) = (t4, j4)" by fastforce
  note q = quadrant_step [OF 1] quadrant_step [OF 2] quadrant_step [OF 3] quadrant_step [OF 4]
  show ?thesis
    using assms q unfolding blind_scan_def Let_def 1 2 3 4 by (auto simp: quadrant_calls_selected)
qed

text \<open>C38 (blind_retune): with a two-band Ku LNB, a transponder found in a quadrant, not in the first MHz of its range
  and below 2148 MHz, is recorded with the sky frequency from which \<open>tune\<close> computes back the band of the
  quadrant and the frequency behind the LNB, truncated to MHz. At 2148 MHz and above \<open>tune\<close> overflows.\<close>

theorem blind_retune:
  assumes "quadrant_range (lnb ti) tone = (fmin, fmax)" and "fmin + 1000 \<le> uint c" and "uint c \<le> fmax" and "fmax \<le> 2150000"
    and "6000 \<le> lowfreq (lnb ti)" and "lowfreq (lnb ti) < highfreq (lnb ti)" and "highfreq (lnb ti) < 2 ^ 20"
    and "lowfreq (lnb ti) + 950 \<le> switchfreq (lnb ti)" and "highfreq (lnb ti) \<le> switchfreq (lnb ti)"
    and "switchfreq (lnb ti) < 2 ^ 20" and "selected_freq (lnb ti) = selected_lo (lnb ti) tone"
    and "blind_found round_sr bp ti = Some ti'" and "centerFreqKHz bp = c"
  shows "\<exists>ti''. lnb_band ti' = Some (selected_freq (lnb ti) * 1000, ti'')
    \<and> lnb_frequency (frequency ti') (selected_freq (lnb ti) * 1000)
        = (if uint c < 2148000 then Some (word_of_int (uint c div 1000 * 1000000)) else None)"
proof -
  define lo where "lo = selected_freq (lnb ti)"
  define m where "m = uint c div 1000"
  have lo: "lo = (if tone = JOKER_SEC_TONE_ON then highfreq (lnb ti) else lowfreq (lnb ti))"
    using assms(5,11) by (auto simp: lo_def selected_lo_def)
  have sw: "0 < switchfreq (lnb ti)" "switchfreq (lnb ti) \<le> 2147483" using assms(5,8,10) by simp_all
  have m: "0 \<le> m" "m \<le> 2150" using assms(3,4) by (auto simp: m_def pos_imp_zdiv_nonneg_iff)
  have lo_b: "6000 \<le> lo" "lo < 2 ^ 20" using lo assms(5,6,7) by auto
  have c: "uint (c div 1000) = m" by (simp add: m_def uint_div)
  have cw: "c div 1000 = word_of_int m" using c word_of_int_uint [of "c div 1000"] by simp
  have "uint (c div 1000 + word_of_int lo) = m + lo"
    unfolding cw of_int_add [symmetric] uint_word_of_int using m lo_b by simp
  then have sky: "blind_sky_mhz c lo = m + lo"
    using m lo_b by (simp add: blind_sky_mhz_def signed_take_bit_int_eq_self)
  have l': "lnb ti' = lnb ti" "frequency ti' = word_of_int (1000 * 1000 * (m + lo))"
    using assms(12,13) sky by (auto simp: blind_found_def Let_def lo_def split: if_splits option.splits)
  have f: "uint (frequency ti') = 1000 * 1000 * (m + lo)"
    unfolding l'(2) uint_word_of_int using m lo_b by simp
  then have fk: "uint (frequency ti') div 1000 = 1000 * (m + lo)" by simp
  have "uint (frequency ti') div 1000 > switchfreq (lnb ti') * 1000 \<longleftrightarrow> tone = JOKER_SEC_TONE_ON"
  proof -
    have "m \<ge> switchfreq (lnb ti) - highfreq (lnb ti) + 1" if "tone = JOKER_SEC_TONE_ON"
      using assms(1,2) sw that by (auto simp: quadrant_range_def m_def)
    moreover have "m \<le> switchfreq (lnb ti) - lowfreq (lnb ti)" if "tone \<noteq> JOKER_SEC_TONE_ON"
      using assms(1,3) sw that by (auto simp: quadrant_range_def m_def)
    ultimately show ?thesis unfolding fk l'(1) lo by auto
  qed
  moreover have "c_int (lo * 1000) = Some (lo * 1000)" using lo_b by (simp add: c_int_def)
  ultimately have b: "\<exists>ti''. lnb_band ti' = Some (lo * 1000, ti'')"
    using lnb_band_exact [of ti'] sw lo by (cases "tone = JOKER_SEC_TONE_ON") (simp_all add: l'(1))
  have "lnb_frequency (frequency ti') (lo * 1000) = (if m * 1000 \<le> 2147483 then Some (word_of_int (m * 1000000)) else None)"
    using lnb_frequency_exact [of "lo * 1000" "frequency ti'"] m lo_b by (simp add: fk)
  moreover have "m * 1000 \<le> 2147483 \<longleftrightarrow> uint c < 2148000"
  proof -
    have "uint c = 1000 * m + uint c mod 1000" "0 \<le> uint c mod 1000" "uint c mod 1000 < 1000" by (simp_all add: m_def)
    then show ?thesis by (cases "m \<le> 2147") simp_all
  qed
  ultimately show ?thesis using b by (simp add: m_def lo_def)
qed

text \<open>code_rate_overrun: the code rate of a DVB-S transponder is read behind its table for the value the driver
  uses for an invalid rate.\<close>

theorem code_rate_overrun:
  "bp_dvbs bp \<Longrightarrow> bp_coderate bp = 5 \<Longrightarrow> blind_found round_sr bp ti = None"
  by (simp add: blind_found_def code_rate_of_def DVBS_CodeRate2joker_def Let_def)


section \<open>Witnesses\<close>

definition universal :: lnb_t where
  "universal = \<lparr>lowfreq = 9750, highfreq = 10600, switchfreq = 11700, selected_freq = 10600\<rparr>"

definition found_param :: blind_param where
  "found_param = \<lparr>bp_dvbs = False, centerFreqKHz = 1763000, symbolRateKSps = 27500, bp_modulation = 1, bp_codeRate = 5, bp_coderate = 0\<rparr>"

theorem quadrants_cover_witness:
  "{10700000 .. 11700000} \<union> {11700000 .. 12750000} = {10700000 .. (12750000 :: int)}"
  using quadrants_cover [of universal 950000 1950000 1100000 2150000]
  by (simp add: universal_def quadrant_range_def)

theorem blind_scan_order_witness:
  "\<exists>ti' k. blind_scan demo_fe_lib False None (demo_ti\<lparr>lnb := universal\<lparr>switchfreq := 0\<rparr>\<rparr>) tune_joker = Some (0, ti', k)
     \<and> fe_log k = [fe_set_tone JOKER_SEC_TONE_OFF, fe_set_voltage JOKER_SEC_VOLTAGE_13, fe_blind_scan 950000 2150000 1000 45000 False,
         fe_set_tone JOKER_SEC_TONE_OFF, fe_set_voltage JOKER_SEC_VOLTAGE_18, fe_blind_scan 950000 2150000 1000 45000 False]"
  using blind_scan_order [of None demo_fe_lib False "demo_ti\<lparr>lnb := universal\<lparr>switchfreq := 0\<rparr>\<rparr>" tune_joker]
  by (auto simp: quadrant_calls_def quadrant_range_def universal_def tune_joker_def)

theorem blind_retune_witness:
  "\<exists>ti'. blind_found (\<lambda>x. x) found_param (demo_ti\<lparr>lnb := universal\<rparr>) = Some ti'
     \<and> (\<exists>ti''. lnb_band ti' = Some (10600000, ti'')) \<and> lnb_frequency (frequency ti') 10600000 = Some 1763000000"
proof -
  have "\<exists>ti'. blind_found (\<lambda>x. x) found_param (demo_ti\<lparr>lnb := universal\<rparr>) = Some ti'"
    by (simp add: blind_found_def found_param_def code_rate_of_def DVBS2_CodeRate2joker_def Let_def)
  then obtain ti' where t: "blind_found (\<lambda>x. x) found_param (demo_ti\<lparr>lnb := universal\<rparr>) = Some ti'" by blast
  have "(\<exists>ti''. lnb_band ti' = Some (10600000, ti'')) \<and> lnb_frequency (frequency ti') 10600000 = Some 1763000000"
    using blind_retune [of "demo_ti\<lparr>lnb := universal\<rparr>" JOKER_SEC_TONE_ON 1100000 2150000 1763000 "\<lambda>x. x" found_param ti', OF _ _ _ _ _ _ _ _ _ _ _ t]
    by (auto simp: universal_def quadrant_range_def selected_lo_def found_param_def)
  with t show ?thesis by blast
qed

theorem code_rate_overrun_witness:
  "blind_found (\<lambda>x. x) (found_param\<lparr>bp_dvbs := True, bp_coderate := 5\<rparr>) demo_ti = None"
  using code_rate_overrun [of "found_param\<lparr>bp_dvbs := True, bp_coderate := 5\<rparr>" "\<lambda>x. x" demo_ti] by simp

end
