(* ===== verification/Device.thy ===== *)
theory Device
  imports TuneProps
begin

text \<open>
  The life of a handle: \<open>joker_open\<close>, \<open>joker_close\<close> and \<open>joker_devices_print\<close> of
  \<open>src/joker_fpga.c\<close>, over the whole handle, which the components before have built up record by
  record. The USB host of libusb is the parameter \<open>usb_host\<close>; what is opened, claimed, released and
  closed on it is logged.
\<close>

section \<open>The USB host\<close>

record usb_desc =
  idVendor :: u16
  idProduct :: u16
  bcdDevice :: u16

text \<open>
  A listed device: what reading its descriptor does to the variable of the caller (nothing is
  promised of it when the read fails, and the code goes on with it), its place, and the result of
  opening it.
\<close>

record usb_device =
  ud_desc :: "usb_desc \<Rightarrow> usb_desc"
  ud_bus :: int
  ud_port :: int
  ud_open :: int

record usb_host =
  uh_init :: int
  uh_devs :: "usb_device list"
  uh_claim :: int
  uh_release :: int

datatype usb_ev = ue_open nat | ue_claim | ue_release | ue_close

record 'd joker_dev = "'d joker_tune" +
  force_device_selection :: bool
  usb_bus_id :: int
  usb_port_id :: int
  fw_ver :: u16
  high_bandwidth_isoc_support :: bool
  max_isoc_packets_size :: nat
  max_isoc_packets_count :: nat
  usb_evs :: "usb_ev list"

abbreviation NETUP_VID :: u16 where "NETUP_VID \<equiv> 0x2D6B"
abbreviation JOKER_TV_PID :: u16 where "JOKER_TV_PID \<equiv> 0x7777"
abbreviation (input) ISOC_TRANSFER_SIZE :: int where "ISOC_TRANSFER_SIZE \<equiv> 1024"
abbreviation (input) USB_PACKET_SIZE :: nat where "USB_PACKET_SIZE \<equiv> 1024"
abbreviation (input) USB_PACKET_SIZE_HIGH_BW_ISOC :: nat where "USB_PACKET_SIZE_HIGH_BW_ISOC \<equiv> 3072"
abbreviation (input) NUM_USB_PACKETS :: nat where "NUM_USB_PACKETS \<equiv> 128"
abbreviation (input) NUM_USB_PACKETS_HIGH_BW_ISOC :: nat where "NUM_USB_PACKETS_HIGH_BW_ISOC \<equiv> 128"

definition is_joker_tv :: "usb_desc \<Rightarrow> bool" where
  "is_joker_tv d \<longleftrightarrow> idVendor d = NETUP_VID \<and> idProduct d = JOKER_TV_PID"

definition usb_event :: "usb_ev \<Rightarrow> ('d, 'z) joker_dev_scheme \<Rightarrow> ('d, 'z) joker_dev_scheme" where
  "usb_event e j = j\<lparr>usb_evs := usb_evs j @ [e]\<rparr>"

section \<open>Opening\<close>

text \<open>
  The search: whether a handle was opened. The first Joker TV that is not skipped ends it, also
  when it cannot be opened. \<open>i\<close> is the index of the head of the list.
\<close>

fun open_loop ::
  "nat \<Rightarrow> usb_device list \<Rightarrow> usb_desc \<Rightarrow> ('d, 'z) joker_dev_scheme \<Rightarrow> bool \<times> ('d, 'z) joker_dev_scheme" where
  "open_loop i [] desc j = (False, j)"
| "open_loop i (d # ds) desc j =
     (let desc = ud_desc d desc
      in if is_joker_tv desc then
           if force_device_selection j \<and> (usb_bus_id j \<noteq> ud_bus d \<or> usb_port_id j \<noteq> ud_port d)
           then open_loop (i + 1) ds desc j
           else
             let r = ud_open d;
                 j = (if r = 0 then usb_event (ue_open i) j else j)
             in (r = 0, j\<lparr>fw_ver := bcdDevice desc\<rparr>)
         else open_loop (i + 1) ds desc j)"

definition isoc_limits :: "('d, 'z) joker_dev_scheme \<Rightarrow> ('d, 'z) joker_dev_scheme" where
  "isoc_limits j =
     (if fw_ver j \<ge> 0x2d
      then j\<lparr>high_bandwidth_isoc_support := True, max_isoc_packets_size := USB_PACKET_SIZE_HIGH_BW_ISOC,
             max_isoc_packets_count := NUM_USB_PACKETS_HIGH_BW_ISOC\<rparr>
      else j\<lparr>max_isoc_packets_size := USB_PACKET_SIZE, max_isoc_packets_count := NUM_USB_PACKETS\<rparr>)"

text \<open>The cleanup of EP1: a transfer whose result is not used.\<close>

definition drain :: "'d usb_dev \<Rightarrow> ('d, 'z) joker_t_scheme \<Rightarrow> ('d, 'z) joker_t_scheme" where
  "drain dev j = (let (_, _, d) = bulk_in dev USB_EP1_IN JCMD_BUF_LEN (dev_st j) in j\<lparr>dev_st := d\<rparr>)"

text \<open>The commands after the interface is claimed.\<close>

definition open_setup :: "'d usb_dev \<Rightarrow> ('d, 'z) joker_dev_scheme \<Rightarrow> int \<times> ('d, 'z) joker_dev_scheme" where
  "open_setup dev j =
     (let j = drain dev (drain dev (drain dev j));
          (ret, j) = joker_cmd0 dev j [J_CMD_ISOC_LEN_WRITE_HI, word_of_int (drop_bit 8 ISOC_TRANSFER_SIZE AND 0x7)]
      in if ret \<noteq> 0 then (ret, j)
         else
           let (ret, j) = joker_cmd0 dev j [J_CMD_ISOC_LEN_WRITE_LO, word_of_int (ISOC_TRANSFER_SIZE AND 0xFF)]
           in if ret \<noteq> 0 then (ret, j)
              else
                let (ret, j) = joker_i2c_init dev j
                in if ret \<noteq> 0 then (ret, j)
                   else
                     let (_, j) = joker_reset dev j 0xFF;
                         (ret, j) = joker_ci_en50221_init j
                     in if ret \<noteq> 0 then (- EIO, j) else (0, j))"

text \<open>\<open>junk\<close> is the descriptor variable before the first read.\<close>

definition joker_open ::
  "usb_host \<Rightarrow> 'd usb_dev \<Rightarrow> usb_desc \<Rightarrow> ('d, 'z) joker_dev_scheme \<Rightarrow> int \<times> ('d, 'z) joker_dev_scheme" where
  "joker_open host dev junk j =
     (if uh_init host < 0 then (ENODEV, j)
      else
        let (found, j) = open_loop 0 (uh_devs host) junk j
        in if \<not> found then (ENODEV, j)
           else
             let j = isoc_limits j
             in if uh_claim host < 0 then (EIO, usb_event ue_close j)
                else
                  let j = usb_event ue_claim j;
                      j = j\<lparr>libusb_opaque := True, io_mux_opaq := True\<rparr>
                  in open_setup dev j)"

section \<open>Closing\<close>

text \<open>
  \<open>thread_join\<close> is what the EN 50221 stack thread does until it ends. The success path has no
  \<open>return\<close>: its result is \<open>None\<close>.
\<close>

definition joker_close ::
  "(('d, 'z) joker_dev_scheme \<Rightarrow> ('d, 'z) joker_dev_scheme) \<Rightarrow> ('d, 'z) joker_dev_scheme
    \<Rightarrow> int option \<times> ('d, 'z) joker_dev_scheme" where
  "joker_close thread_join j =
     (let (_, j) = joker_ci_close (\<lambda>j. snd (joker_ci_en50221_stop thread_join j)) j;
          (_, j) = stop_service_thread j;
          (ret, j) = joker_i2c_close j
      in if ret \<noteq> 0 then (Some ret, j)
         else
           let j = usb_event ue_release j;
               j = (if libusb_opaque j then usb_event ue_close j else j)
           in (None, j\<lparr>libusb_opaque := False\<rparr>))"

section \<open>Listing\<close>

text \<open>What is printed: bus and port of every Joker TV.\<close>

fun print_loop :: "usb_device list \<Rightarrow> usb_desc \<Rightarrow> (int \<times> int) list" where
  "print_loop [] desc = []"
| "print_loop (d # ds) desc =
     (let desc = ud_desc d desc
      in (if is_joker_tv desc then [(ud_bus d, ud_port d)] else []) @ print_loop ds desc)"

definition joker_devices_print :: "usb_host \<Rightarrow> usb_desc \<Rightarrow> int \<times> (int \<times> int) list" where
  "joker_devices_print host junk =
     (if uh_init host < 0 then (- ENODEV, []) else (0, print_loop (uh_devs host) junk))"

section \<open>Which device is opened\<close>

text \<open>A device whose descriptor can be read; the one the search takes.\<close>

definition readable :: "usb_device \<Rightarrow> bool" where
  "readable d \<longleftrightarrow> ud_desc d = (\<lambda>_. ud_desc d undefined)"

definition wanted_dev :: "('d, 'z) joker_dev_scheme \<Rightarrow> usb_device \<Rightarrow> bool" where
  "wanted_dev j d \<longleftrightarrow> is_joker_tv (ud_desc d undefined)
     \<and> (force_device_selection j \<longrightarrow> usb_bus_id j = ud_bus d \<and> usb_port_id j = ud_port d)"

definition first_wanted :: "('d, 'z) joker_dev_scheme \<Rightarrow> usb_device list \<Rightarrow> (nat \<times> usb_device) option" where
  "first_wanted j ds = List.find (\<lambda>(i, d). wanted_dev j d) (List.enumerate 0 ds)"

lemma readableD: "readable d \<Longrightarrow> ud_desc d x = ud_desc d undefined"
  unfolding readable_def by (rule fun_cong)

lemma open_loop_eq:
  assumes "list_all readable ds"
  shows "open_loop i ds desc j =
    (case List.find (\<lambda>(i, d). wanted_dev j d) (List.enumerate i ds) of
       None \<Rightarrow> (False, j)
     | Some (k, d) \<Rightarrow>
         (ud_open d = 0,
          (if ud_open d = 0 then usb_event (ue_open k) j else j)\<lparr>fw_ver := bcdDevice (ud_desc d undefined)\<rparr>))"
  using assms
proof (induction ds arbitrary: i desc)
  case (Cons d ds)
  have r: "ud_desc d desc = ud_desc d undefined" by (rule readableD) (use Cons.prems in simp)
  have "list_all readable ds" using Cons.prems by simp
  note IH = Cons.IH [OF this]
  show ?case by (auto simp: IH r wanted_dev_def Let_def)
qed simp


section \<open>The commands of an opened handle\<close>

lemma cmd0_ok:
  assumes "usb_ok dev" and "io_mux_opaq j"
  shows "\<exists>d. joker_cmd0 dev j b = (0, j\<lparr>dev_st := d, usb_log := usb_log j @ [b]\<rparr>)"
proof -
  obtain e where "bulk_out dev USB_EP2_OUT b (dev_st j) = (0, length b, e)"
    using assms(1) by (auto simp: usb_ok_def)
  then show ?thesis
    using assms(2) by (simp add: joker_cmd0_def joker_cmd_def joker_io_def Let_def) (rule exI, rule refl)
qed

lemma i2c_write_cmd_ok:
  assumes "usb_ok dev" and "io_mux_opaq j"
  shows "\<exists>d. joker_i2c_write_cmd dev j x y = (0, j\<lparr>dev_st := d, usb_log := usb_log j @ [[J_CMD_I2C_WRITE, x, y]]\<rparr>)"
proof -
  obtain e where "bulk_out dev USB_EP2_OUT [J_CMD_I2C_WRITE, x, y] (dev_st j) = (0, 3, e)"
    using assms(1) unfolding usb_ok_def by (metis length_Cons list.size(3) numeral_3_eq_3)
  then show ?thesis
    using assms(2) by (simp add: joker_i2c_write_cmd_def joker_io_def Let_def) (rule exI, rule refl)
qed

definition i2c_setup_log :: "byte list list" where
  "i2c_setup_log = [[J_CMD_I2C_WRITE, 0, 0x18], [J_CMD_I2C_WRITE, 1, 0], [J_CMD_I2C_WRITE, 2, 0xC0]]"

definition open_log :: "int \<Rightarrow> byte list list" where
  "open_log r = [[J_CMD_ISOC_LEN_WRITE_HI, 4], [J_CMD_ISOC_LEN_WRITE_LO, 0]] @ i2c_setup_log
     @ [[J_CMD_RESET_CTRL_WRITE, word_of_int (r OR 0xFF)]]"

lemma i2c_init_ok:
  assumes "usb_ok dev" and "io_mux_opaq j"
  shows "\<exists>d. joker_i2c_init dev j = (0, j\<lparr>i2c_opaque := True, dev_st := d, usb_log := usb_log j @ i2c_setup_log\<rparr>)"
proof -
  let ?j = "j\<lparr>i2c_opaque := True\<rparr>"
  obtain d1 where 1: "joker_i2c_write_cmd dev ?j OC_I2C_PRELO OC_I2C_400K = (0, ?j\<lparr>dev_st := d1, usb_log := usb_log j @ [[J_CMD_I2C_WRITE, 0, 0x18]]\<rparr>)"
    (is "_ = (0, ?j1)") using i2c_write_cmd_ok [OF assms(1), of ?j] assms(2) by force
  obtain d2 where 2: "joker_i2c_write_cmd dev ?j1 OC_I2C_PREHI 0 = (0, ?j\<lparr>dev_st := d2, usb_log := usb_log j @ [[J_CMD_I2C_WRITE, 0, 0x18], [J_CMD_I2C_WRITE, 1, 0]]\<rparr>)"
    (is "_ = (0, ?j2)") using i2c_write_cmd_ok [OF assms(1), of ?j1] assms(2) by force
  obtain d3 where 3: "joker_i2c_write_cmd dev ?j2 OC_I2C_CTR (OC_I2C_CORE_ENABLE OR OC_I2C_IRQ_ENABLE) = (0, ?j\<lparr>dev_st := d3, usb_log := usb_log j @ i2c_setup_log\<rparr>)"
    using i2c_write_cmd_ok [OF assms(1), of ?j2] assms(2) unfolding i2c_setup_log_def by force
  show ?thesis using 1 2 3 by (simp add: joker_i2c_init_def Let_def) (rule exI, rule refl)
qed

lemma drain_eq: "\<exists>d. drain dev j = j\<lparr>dev_st := d\<rparr>"
  by (simp add: drain_def case_prod_beta) (rule exI, rule refl)

lemma reset_ok:
  assumes "usb_ok dev" and "io_mux_opaq j"
  shows "\<exists>d. joker_reset dev j m
    = (None, j\<lparr>reset := reset j OR m, dev_st := d, usb_log := usb_log j @ [[J_CMD_RESET_CTRL_WRITE, word_of_int (reset j OR m)]]\<rparr>)"
proof -
  have "io_mux_opaq (j\<lparr>reset := reset j OR m\<rparr>)" using assms(2) by simp
  from cmd0_ok [OF assms(1) this, of "[J_CMD_RESET_CTRL_WRITE, word_of_int (reset j OR m)]"]
  show ?thesis by (auto simp: joker_reset_def joker_reset_write_def Let_def)
qed

lemma open_setup_ok:
  assumes "usb_ok dev" and "io_mux_opaq j"
  shows "\<exists>k. open_setup dev j = (0, k) \<and> usb_evs k = usb_evs j \<and> usb_log k = usb_log j @ open_log (reset j)
    \<and> libusb_opaque k = libusb_opaque j \<and> io_mux_opaq k \<and> i2c_opaque k \<and> joker_en50221_opaque k \<noteq> None
    \<and> reset k = reset j OR 0xFF \<and> ci_threading k = ci_threading j \<and> service_threading k = service_threading j
    \<and> fw_ver k = fw_ver j \<and> max_isoc_packets_size k = max_isoc_packets_size j"
proof -
  obtain d0 where 0: "drain dev (drain dev (drain dev j)) = j\<lparr>dev_st := d0\<rparr>"
    using drain_eq [of dev j] drain_eq [of dev] by (metis (no_types, lifting) joker_t.update_convs(1) joker_t.surjective)
  let ?j = "j\<lparr>dev_st := d0\<rparr>"
  have n: "word_of_int (drop_bit 8 ISOC_TRANSFER_SIZE AND 0x7) = (4 :: byte)" "word_of_int (ISOC_TRANSFER_SIZE AND 0xFF) = (0 :: byte)"
    by simp_all
  obtain d1 where 1: "joker_cmd0 dev ?j [J_CMD_ISOC_LEN_WRITE_HI, 4]
      = (0, ?j\<lparr>dev_st := d1, usb_log := usb_log j @ [[J_CMD_ISOC_LEN_WRITE_HI, 4]]\<rparr>)" (is "_ = (0, ?j1)")
    using cmd0_ok [OF assms(1), of ?j] assms(2) by force
  obtain d2 where 2: "joker_cmd0 dev ?j1 [J_CMD_ISOC_LEN_WRITE_LO, 0]
      = (0, ?j1\<lparr>dev_st := d2, usb_log := usb_log ?j1 @ [[J_CMD_ISOC_LEN_WRITE_LO, 0]]\<rparr>)" (is "_ = (0, ?j2)")
    using cmd0_ok [OF assms(1), of ?j1] assms(2) by force
  obtain d3 where 3: "joker_i2c_init dev ?j2 = (0, ?j2\<lparr>i2c_opaque := True, dev_st := d3, usb_log := usb_log ?j2 @ i2c_setup_log\<rparr>)"
    (is "_ = (0, ?j3)") using i2c_init_ok [OF assms(1), of ?j2] assms(2) by force
  obtain d4 where 4: "joker_reset dev ?j3 0xFF = (None, ?j3\<lparr>reset := reset ?j3 OR 0xFF, dev_st := d4,
      usb_log := usb_log ?j3 @ [[J_CMD_RESET_CTRL_WRITE, word_of_int (reset ?j3 OR 0xFF)]]\<rparr>)" (is "_ = (None, ?j4)")
    using reset_ok [OF assms(1), of ?j3] assms(2) by force
  have "fst (joker_ci_en50221_init ?j4) = 0" by (simp add: joker_ci_en50221_init_def)
  then obtain k where 5: "joker_ci_en50221_init ?j4 = (0, k)" by (cases "joker_ci_en50221_init ?j4") simp
  have "open_setup dev j = (0, k)"
    by (simp only: open_setup_def Let_def 0 n 1 2 3 4 5 prod.case simp_thms if_False)
  moreover have "k = (if joker_en50221_opaque j = None then ?j4\<lparr>joker_en50221_opaque := Some zero_jen\<rparr> else ?j4)"
    using 5 by (auto simp: joker_ci_en50221_init_def)
  ultimately show ?thesis using assms(2) by (simp add: open_log_def)
qed

section \<open>Properties\<close>

lemma joker_open_ok:
  assumes "usb_ok dev" and "list_all readable (uh_devs host)" and "first_wanted j (uh_devs host) = Some (i, d)"
    and "ud_open d = 0" and "0 \<le> uh_init host" and "0 \<le> uh_claim host"
  shows "\<exists>k. joker_open host dev junk j = (0, k)
    \<and> usb_evs k = usb_evs j @ [ue_open i, ue_claim] \<and> usb_log k = usb_log j @ open_log (reset j)
    \<and> libusb_opaque k \<and> io_mux_opaq k \<and> i2c_opaque k \<and> joker_en50221_opaque k \<noteq> None
    \<and> ci_threading k = ci_threading j \<and> service_threading k = service_threading j
    \<and> fw_ver k = bcdDevice (ud_desc d undefined)
    \<and> max_isoc_packets_size k = (if fw_ver k \<ge> 0x2d then 3072 else 1024)"
proof -
  define j1 where "j1 = (usb_event (ue_open i) j)\<lparr>fw_ver := bcdDevice (ud_desc d undefined)\<rparr>"
  define j2 where "j2 = (usb_event ue_claim (isoc_limits j1))\<lparr>libusb_opaque := True, io_mux_opaq := True\<rparr>"
  have f: "open_loop 0 (uh_devs host) junk j = (True, j1)"
    using assms(3,4) by (simp add: open_loop_eq [OF assms(2)] first_wanted_def j1_def)
  have o: "joker_open host dev junk j = open_setup dev j2"
    using assms(5,6) by (simp add: joker_open_def f Let_def j2_def)
  have j2: "io_mux_opaq j2" "libusb_opaque j2" "usb_evs j2 = usb_evs j @ [ue_open i, ue_claim]" "usb_log j2 = usb_log j" "reset j2 = reset j"
    "ci_threading j2 = ci_threading j" "service_threading j2 = service_threading j"
    "fw_ver j2 = bcdDevice (ud_desc d undefined)" "max_isoc_packets_size j2 = (if fw_ver j2 \<ge> 0x2d then 3072 else 1024)"
    by (simp_all add: j2_def j1_def isoc_limits_def usb_event_def)
  show ?thesis using open_setup_ok [OF assms(1) j2(1)] o j2 by auto
qed

text \<open>open_sequence: when the first Joker TV at the selected place can be opened and the device takes every
  command, \<open>joker_open\<close> returns 0, has opened and claimed that device and no other one, and has sent
  the transfer length, the setup of the I2C core and the reset of all chips, in this order.\<close>

theorem open_sequence:
  assumes "usb_ok dev" and "list_all readable (uh_devs host)" and "first_wanted j (uh_devs host) = Some (i, d)"
    and "ud_open d = 0" and "0 \<le> uh_init host" and "0 \<le> uh_claim host"
  shows "\<exists>k. joker_open host dev junk j = (0, k)
    \<and> usb_evs k = usb_evs j @ [ue_open i, ue_claim] \<and> usb_log k = usb_log j @ open_log (reset j)
    \<and> libusb_opaque k \<and> i2c_opaque k \<and> joker_en50221_opaque k \<noteq> None
    \<and> max_isoc_packets_size k = (if bcdDevice (ud_desc d undefined) \<ge> 0x2d then 3072 else 1024)"
  using joker_open_ok [OF assms, of junk] by (elim exE conjE, intro exI conjI) (assumption | simp)+

text \<open>What closing keeps and changes, when the joined thread leaves the handle's USB state alone.\<close>

definition close_frame :: "(('d, 'z) joker_dev_scheme \<Rightarrow> ('d, 'z) joker_dev_scheme) \<Rightarrow> bool" where
  "close_frame tj \<longleftrightarrow> (\<forall>h. usb_evs (tj h) = usb_evs h \<and> i2c_opaque (tj h) = i2c_opaque h
     \<and> libusb_opaque (tj h) = libusb_opaque h \<and> service_flags (tj h) = service_flags h)"

lemma ci_close_frame:
  assumes "close_frame tj" and "joker_ci_close (\<lambda>j. snd (joker_ci_en50221_stop tj j)) j = (r, k)"
  shows "usb_evs k = usb_evs j \<and> i2c_opaque k = i2c_opaque j \<and> libusb_opaque k = libusb_opaque j \<and> service_flags k = service_flags j"
proof -
  have t: "usb_evs (tj h) = usb_evs h" "i2c_opaque (tj h) = i2c_opaque h" "libusb_opaque (tj h) = libusb_opaque h"
      "service_flags (tj h) = service_flags h" for h
    using assms(1) by (auto simp: close_frame_def)
  have c: "service_flags (set_jen f h) = service_flags h" "service_flags (h\<lparr>shutdown_thread := True, joker_ci_opaque := None, cam_pcap_fd := None\<rparr>) = service_flags h"
    for h :: "('a, 'b) joker_dev_scheme" and f
    by (simp_all add: service_flags_def set_jen_def)
  have "k = snd (joker_ci_close (\<lambda>j. snd (joker_ci_en50221_stop tj j)) j)" using assms(2) by simp
  then show ?thesis
    by (simp add: joker_ci_close_def joker_ci_en50221_stop_def Let_def t c) (simp add: set_jen_def)
qed

lemma joker_close_ok:
  assumes "close_frame tj" and "joker_close tj j = (r, k)"
  shows "r = (if i2c_opaque j then None else Some ENODEV)
    \<and> usb_evs k = usb_evs j @ (if i2c_opaque j then ue_release # (if libusb_opaque j then [ue_close] else []) else [])
    \<and> libusb_opaque k = (libusb_opaque j \<and> \<not> i2c_opaque j) \<and> \<not> i2c_opaque k
    \<and> service_threading k = service_threading j \<and> service_cancel k = (service_cancel j \<or> service_threading j)"
proof -
  obtain q h where h: "joker_ci_close (\<lambda>j. snd (joker_ci_en50221_stop tj j)) j = (q, h)" by fastforce
  note f = ci_close_frame [OF assms(1) h]
  show ?thesis
    using assms(2) f unfolding joker_close_def h
    by (auto simp: stop_service_thread_def joker_i2c_close_def usb_event_def service_flags_def Let_def split: if_splits)
qed

text \<open>C22 (open_close_balanced): after a successful \<open>joker_open\<close> a \<open>joker_close\<close> releases the interface and closes
  the handle, exactly once each and in this order.\<close>

theorem open_close_balanced:
  assumes "joker_open host dev junk j = (0, k)" and "usb_ok dev" and "list_all readable (uh_devs host)"
    and "first_wanted j (uh_devs host) = Some (i, d)" and "ud_open d = 0" and "0 \<le> uh_init host" and "0 \<le> uh_claim host"
    and "close_frame tj"
  shows "\<exists>m. joker_close tj k = (None, m) \<and> usb_evs m = usb_evs j @ [ue_open i, ue_claim, ue_release, ue_close]
    \<and> \<not> libusb_opaque m \<and> \<not> i2c_opaque m"
proof -
  obtain r m where m: "joker_close tj k = (r, m)" by fastforce
  show ?thesis
    using joker_open_ok [OF assms(2-7), of junk] joker_close_ok [OF assms(8) m] assms(1) m by auto
qed

text \<open>failed_open_leaks: when the device refuses its commands, \<open>joker_open\<close> fails with the device open and
  claimed, and \<open>joker_close\<close> then gives up before it releases anything.\<close>

theorem failed_open_leaks:
  assumes "\<And>b d. fst (bulk_out dev USB_EP2_OUT b d) < 0" and "list_all readable (uh_devs host)"
    and "first_wanted j (uh_devs host) = Some (i, d)" and "ud_open d = 0" and "0 \<le> uh_init host" and "0 \<le> uh_claim host"
    and "\<not> i2c_opaque j" and "close_frame tj"
  shows "\<exists>k m. joker_open host dev junk j = (- EIO, k) \<and> libusb_opaque k \<and> joker_close tj k = (Some ENODEV, m)
    \<and> libusb_opaque m \<and> usb_evs m = usb_evs j @ [ue_open i, ue_claim]"
proof -
  define j1 where "j1 = (usb_event (ue_open i) j)\<lparr>fw_ver := bcdDevice (ud_desc d undefined)\<rparr>"
  define j2 where "j2 = (usb_event ue_claim (isoc_limits j1))\<lparr>libusb_opaque := True, io_mux_opaq := True\<rparr>"
  have f: "open_loop 0 (uh_devs host) junk j = (True, j1)"
    using assms(3,4) by (simp add: open_loop_eq [OF assms(2)] first_wanted_def j1_def)
  have o: "joker_open host dev junk j = open_setup dev j2"
    using assms(5,6) by (simp add: joker_open_def f Let_def j2_def)
  have j2: "io_mux_opaq j2" "libusb_opaque j2" "usb_evs j2 = usb_evs j @ [ue_open i, ue_claim]" "\<not> i2c_opaque j2"
    using assms(7) by (simp_all add: j2_def j1_def isoc_limits_def usb_event_def)
  obtain e where e: "drain dev (drain dev (drain dev j2)) = j2\<lparr>dev_st := e\<rparr>"
    using drain_eq [of dev j2] drain_eq [of dev] by (metis (no_types, lifting) joker_t.update_convs(1) joker_t.surjective)
  have c: "\<exists>d'. joker_cmd0 dev h b = (- EIO, h\<lparr>dev_st := d'\<rparr>)" if "io_mux_opaq h"
    for h :: "('a, 'b) joker_dev_scheme" and b
    using that assms(1) [of b "dev_st h"] by (cases "bulk_out dev USB_EP2_OUT b (dev_st h)")
      (simp add: joker_cmd0_def joker_cmd_def joker_io_def Let_def, rule exI, rule refl)
  have "io_mux_opaq (j2\<lparr>dev_st := e\<rparr>)" using j2(1) by simp
  from c [OF this] obtain d' where "joker_cmd0 dev (j2\<lparr>dev_st := e\<rparr>)
      [J_CMD_ISOC_LEN_WRITE_HI, word_of_int (drop_bit 8 ISOC_TRANSFER_SIZE AND 0x7)] = (- EIO, j2\<lparr>dev_st := e, dev_st := d'\<rparr>)"
    (is "_ = (_, ?k)") by blast
  then have "open_setup dev j2 = (- EIO, ?k)"
    unfolding open_setup_def Let_def e by simp
  moreover obtain r m where m: "joker_close tj ?k = (r, m)" by fastforce
  ultimately show ?thesis using joker_close_ok [OF assms(8) m] j2 o m by auto
qed

text \<open>reopen_service_dead: closing ends the service thread but keeps its object, so no later \<open>tune\<close> on the
  handle starts a thread again: the next round of the old one ends it, and the status stays NOLOCK.\<close>

theorem reopen_service_dead:
  assumes "close_frame tj" and "service_threading j" and "joker_close tj j = (r, k)"
    and "service_flags (k' :: ('d, 'z) joker_dev_scheme) = service_flags k" and "tune lib rc junk dev ti k' = Some (ret, ti', m)"
  shows "process_service_round lib dev cb now last_check m = None"
proof -
  have k: "service_threading k" "service_cancel k" using joker_close_ok [OF assms(1,3)] assms(2) by auto
  then have "service_threading k'" using assms(4) by (simp add: service_flags_def)
  from tune_flags [OF assms(5) this] show ?thesis
    using k assms(4) by (simp add: service_flags_def process_service_round_def)
qed

lemma print_loop_eq:
  assumes "list_all readable ds"
  shows "print_loop ds desc = map (\<lambda>d. (ud_bus d, ud_port d)) (filter (\<lambda>d. is_joker_tv (ud_desc d undefined)) ds)"
  using assms
proof (induction ds arbitrary: desc)
  case (Cons d ds)
  have "ud_desc d desc = ud_desc d undefined" by (rule readableD) (use Cons.prems in simp)
  with Cons show ?case by (simp add: Let_def)
qed simp

lemma find_enumerate_ex: "x \<in> set xs \<Longrightarrow> P x \<Longrightarrow> \<exists>k y. List.find (\<lambda>(i, x). P x) (List.enumerate i xs) = Some (k, y) \<and> P y"
  by (induction xs arbitrary: i) auto

text \<open>printed_device_opens: a place that \<open>joker_devices_print\<close> prints can be selected: with it forced, the
  search stops at a Joker TV at exactly this bus and port.\<close>

theorem printed_device_opens:
  assumes "joker_devices_print host junk = (0, ps)" and "(b, p) \<in> set ps" and "list_all readable (uh_devs host)"
    and "force_device_selection j" and "usb_bus_id j = b" and "usb_port_id j = p"
  shows "\<exists>i d. first_wanted j (uh_devs host) = Some (i, d) \<and> is_joker_tv (ud_desc d undefined) \<and> ud_bus d = b \<and> ud_port d = p
    \<and> fst (open_loop 0 (uh_devs host) junk' j) = (ud_open d = 0)"
proof -
  have "ps = print_loop (uh_devs host) junk" using assms(1) by (auto simp: joker_devices_print_def split: if_splits)
  then obtain d where "d \<in> set (uh_devs host)" "wanted_dev j d"
    using assms(2,4-6) by (auto simp: print_loop_eq [OF assms(3)] wanted_dev_def)
  from find_enumerate_ex [where P = "wanted_dev j", OF this] obtain i d' where
    d': "List.find (\<lambda>(i, d). wanted_dev j d) (List.enumerate 0 (uh_devs host)) = Some (i, d')" "wanted_dev j d'" by blast
  have "fst (open_loop 0 (uh_devs host) junk' j) = (ud_open d' = 0)"
    by (simp add: open_loop_eq [OF assms(3)] d'(1))
  moreover have "is_joker_tv (ud_desc d' undefined)" "ud_bus d' = b" "ud_port d' = p"
    using d'(2) assms(4-6) by (auto simp: wanted_dev_def)
  ultimately show ?thesis using d'(1) unfolding first_wanted_def by blast
qed

section \<open>Witnesses\<close>

definition joker_desc :: usb_desc where "joker_desc = \<lparr>idVendor = 0x2D6B, idProduct = 0x7777, bcdDevice = 0x37\<rparr>"
definition mouse_desc :: usb_desc where "mouse_desc = \<lparr>idVendor = 0x046D, idProduct = 0xC077, bcdDevice = 0x7200\<rparr>"

text \<open>A mouse and two cards.\<close>

definition demo_host :: usb_host where
  "demo_host = \<lparr>uh_init = 0, uh_devs =
     [\<lparr>ud_desc = (\<lambda>_. mouse_desc), ud_bus = 1, ud_port = 1, ud_open = 0\<rparr>,
      \<lparr>ud_desc = (\<lambda>_. joker_desc), ud_bus = 1, ud_port = 2, ud_open = 0\<rparr>,
      \<lparr>ud_desc = (\<lambda>_. joker_desc), ud_bus = 3, ud_port = 4, ud_open = 0\<rparr>], uh_claim = 0, uh_release = 0\<rparr>"

definition closed_joker :: "unit joker_dev" where
  "closed_joker = joker_tune.extend (tune_joker\<lparr>libusb_opaque := False, i2c_opaque := False, reset := 0\<rparr>)
     (joker_dev.fields True 3 4 0 False 0 0 [])"

lemmas device_eval = closed_joker_def tune_joker_def joker_tune.extend_def joker_dev.fields_def

lemma demo_host_readable: "list_all readable (uh_devs demo_host)"
  by (simp add: demo_host_def readable_def)

lemma closed_fields: "force_device_selection closed_joker" "usb_bus_id closed_joker = 3" "usb_port_id closed_joker = 4"
  "usb_evs closed_joker = []" "usb_log closed_joker = []" "reset closed_joker = 0" "\<not> i2c_opaque closed_joker" "service_threading closed_joker"
  by (simp_all add: device_eval)

lemma demo_wanted: "first_wanted closed_joker (uh_devs demo_host)
    = Some (2, \<lparr>ud_desc = (\<lambda>_. joker_desc), ud_bus = 3, ud_port = 4, ud_open = 0\<rparr>)"
  by (simp add: first_wanted_def demo_host_def wanted_dev_def is_joker_tv_def mouse_desc_def joker_desc_def closed_fields)

lemma demo_oks: "usb_ok quiet_dev" "close_frame (\<lambda>h. h)" "0 \<le> uh_init demo_host" "0 \<le> uh_claim demo_host"
  by (simp_all add: usb_ok_def quiet_dev_def close_frame_def demo_host_def)

theorem open_sequence_witness:
  "\<exists>k. joker_open demo_host quiet_dev mouse_desc closed_joker = (0, k) \<and> usb_evs k = [ue_open 2, ue_claim]
     \<and> usb_log k = [[16, 4], [17, 0], [10, 0, 0x18], [10, 1, 0], [10, 2, 0xC0], [12, 0xFF]] \<and> max_isoc_packets_size k = 3072"
  using open_sequence [OF demo_oks(1) demo_host_readable demo_wanted _ demo_oks(3,4), of mouse_desc]
  by (auto simp: closed_fields joker_desc_def open_log_def i2c_setup_log_def)

theorem open_close_balanced_witness:
  "\<exists>k m. joker_open demo_host quiet_dev mouse_desc closed_joker = (0, k) \<and> joker_close (\<lambda>h. h) k = (None, m)
     \<and> usb_evs m = [ue_open 2, ue_claim, ue_release, ue_close]"
proof -
  obtain k where k: "joker_open demo_host quiet_dev mouse_desc closed_joker = (0, k)"
    using joker_open_ok [OF demo_oks(1) demo_host_readable demo_wanted _ demo_oks(3,4)] by auto
  from open_close_balanced [OF k demo_oks(1) demo_host_readable demo_wanted _ demo_oks(3,4,2)] k
  show ?thesis by (auto simp: closed_fields)
qed

theorem failed_open_leaks_witness:
  "\<exists>k m. joker_open demo_host dead_dev mouse_desc closed_joker = (- EIO, k) \<and> joker_close (\<lambda>h. h) k = (Some ENODEV, m)
     \<and> usb_evs m = [ue_open 2, ue_claim]"
proof -
  have "fst (bulk_out dead_dev USB_EP2_OUT b d) < 0" for b d by (simp add: dead_dev_def)
  from failed_open_leaks [OF this demo_host_readable demo_wanted _ demo_oks(3,4) closed_fields(7) demo_oks(2), of mouse_desc]
  show ?thesis by (auto simp: closed_fields)
qed

theorem reopen_service_dead_witness:
  "\<exists>ret ti m. tune demo_fe_lib 0 JOKER_SEC_MINI_A quiet_dev (demo_ti\<lparr>ti_system := JOKER_SYS_CMMB\<rparr>) (snd (joker_close (\<lambda>h. h) closed_joker))
       = Some (ret, ti, m) \<and> process_service_round demo_fe_lib quiet_dev (\<lambda>h. h) 10 0 m = None"
proof -
  let ?k = "snd (joker_close (\<lambda>h. h) closed_joker)"
  have "tune demo_fe_lib 0 JOKER_SEC_MINI_A quiet_dev (demo_ti\<lparr>ti_system := JOKER_SYS_CMMB\<rparr>) ?k \<noteq> None"
    by (simp add: tune_def demo_ti_def tune_input_def split: prod.split option.split)
  then obtain ret ti m where t: "tune demo_fe_lib 0 JOKER_SEC_MINI_A quiet_dev (demo_ti\<lparr>ti_system := JOKER_SYS_CMMB\<rparr>) ?k = Some (ret, ti, m)"
    by auto
  have "joker_close (\<lambda>h. h) closed_joker = (fst (joker_close (\<lambda>h. h) closed_joker), ?k)" by simp
  from reopen_service_dead [OF demo_oks(2) closed_fields(8) this refl t] t show ?thesis by blast
qed

theorem printed_device_opens_witness:
  "(3, 4) \<in> set (snd (joker_devices_print demo_host mouse_desc)) \<and> fst (open_loop 0 (uh_devs demo_host) mouse_desc closed_joker)"
proof -
  have p: "joker_devices_print demo_host mouse_desc = (0, [(1, 2), (3, 4)])"
    by (simp add: joker_devices_print_def demo_host_def is_joker_tv_def mouse_desc_def joker_desc_def)
  from printed_device_opens [OF p _ demo_host_readable closed_fields(1-3), of mouse_desc] p demo_wanted
  show ?thesis by auto
qed

end
