(* ===== verification/TsStart.thy ===== *)
theory TsStart
  imports Device PsiProps
begin

text \<open>
  Starting and stopping of the Transport Stream, \<open>start_ts\<close> and \<open>stop_ts\<close> of \<open>src/u_drv_data.c\<close>,
  and the loopback of a file, \<open>process_ts_loop\<close>, \<open>start_ts_loop\<close> and \<open>stop_ts_loop\<close>. The threads are
  states: what they do is in \<open>TsPool\<close> and \<open>PsiParse\<close>. Allocation succeeds; libusb and
  \<open>pthread_create\<close> are their results.
\<close>

section \<open>State\<close>

text \<open>
  The pool with its threads, and the transfers that libusb holds and whose callback runs on the pool:
  the index of the buffer, the number of its packets and their size. The pool keeps the handles of
  those \<open>in_flight\<close>; the handles of the \<open>lost\<close> ones were overwritten by a second start.
\<close>

record ts_run =
  rs_pool :: psi_pool
  usb_thread :: bool
  ts_thread :: bool
  in_flight :: "(nat \<times> nat \<times> nat) list"
  lost :: "(nat \<times> nat \<times> nat) list"

text \<open>\<open>pool_init\<close> with the lists of the tables; a selection that was never set up is the empty list.\<close>

definition psi_pool_init :: "psi_pool \<Rightarrow> int \<times> psi_pool" where
  "psi_pool_init pool =
     (let (r, pool) = pool_init pool
      in (r, pool\<lparr>programs_list := [], pool_ca_list := [], nit_list := []\<rparr>))"

section \<open>Isochronous transfers\<close>

text \<open>
  The number of packets is halved until the transfer is accepted: \<open>submit\<close> is the result of
  \<open>libusb_submit_transfer\<close> for a number of packets. \<open>None\<close>: no transfer.
\<close>

function alloc_transfer :: "(nat \<Rightarrow> int) \<Rightarrow> nat \<Rightarrow> nat option" where
  "alloc_transfer submit avail =
     (if avail > 4 then
        if submit avail \<noteq> 0 then alloc_transfer submit (avail div 2) else Some avail
      else None)"
  by pat_completeness auto
termination
  by (relation "measure snd") auto

declare alloc_transfer.simps [simp del]

fun alloc_transfers :: "(nat \<Rightarrow> nat \<Rightarrow> int) \<Rightarrow> nat \<Rightarrow> nat \<Rightarrow> nat list \<Rightarrow> (nat \<times> nat \<times> nat) list" where
  "alloc_transfers submit count sz [] = []"
| "alloc_transfers submit count sz (i # is) =
     (case alloc_transfer (submit i) count of
        None \<Rightarrow> alloc_transfers submit count sz is
      | Some n \<Rightarrow> (i, n, sz) # alloc_transfers submit count sz is)"

section \<open>Start and stop\<close>

text \<open>The commands: only the result of the last one is used.\<close>

definition start_cmds ::
  "'d usb_dev \<Rightarrow> bool \<Rightarrow> ('d, 'z) joker_dev_scheme \<Rightarrow> int \<times> ('d, 'z) joker_dev_scheme" where
  "start_cmds dev selected j =
     (let (_, j) = joker_clean_ts dev j;
          (_, j) = (if selected then ts_filter_only_service_pids dev j else ts_filter_all dev j False)
      in joker_cmd0 dev j [J_CMD_CI_TS, 0])"

definition submit_all ::
  "(nat \<Rightarrow> nat \<Rightarrow> int) \<Rightarrow> ('d, 'z) joker_dev_scheme \<Rightarrow> ts_run \<Rightarrow> ts_run" where
  "submit_all submit j run =
     (if max_isoc_packets_count j \<le> 4 then run
      else
        let ts = alloc_transfers submit (max_isoc_packets_count j) (max_isoc_packets_size j) [0..<NUM_USB_BUFS];
            pool = rs_pool run
        in run\<lparr>rs_pool := pool\<lparr>transfers := (\<lambda>i. if i < NUM_USB_BUFS then i \<in> fst ` set ts else transfers pool i)\<rparr>,
               in_flight := ts, lost := lost run @ in_flight run\<rparr>)"

text \<open>\<open>rc_usb\<close> and \<open>rc_ts\<close> are the results of \<open>pthread_create\<close>, \<open>now\<close> that of \<open>getus\<close>.\<close>

definition start_ts ::
  "'d usb_dev \<Rightarrow> (nat \<Rightarrow> nat \<Rightarrow> int) \<Rightarrow> int \<Rightarrow> int \<Rightarrow> int \<Rightarrow> ts_run \<Rightarrow> ('d, 'z) joker_dev_scheme
    \<Rightarrow> int \<times> ts_run \<times> ('d, 'z) joker_dev_scheme" where
  "start_ts dev submit rc_usb rc_ts now run j =
     (if \<not> libusb_opaque j then (EINVAL, run, j)
      else
        let (r, run) = (if initialized (rs_pool run) \<noteq> BIG_POOL_MAGIC then
                          let (r, pool) = psi_pool_init (rs_pool run)
                          in (r, run\<lparr>rs_pool := pool, in_flight := [], lost := lost run @ in_flight run\<rparr>)
                        else (0, run))
        in if r \<noteq> 0 then (EINVAL, run, j)
           else
             let (ret, j) = start_cmds dev (selected_programs_list (rs_pool run) \<noteq> []) j
             in if ret \<noteq> 0 then (ret, run, j)
                else
                  let run = submit_all submit j run;
                      pool = (rs_pool run)\<lparr>calls_count := 0, pkt_count := 0, pkt_count_complete := 0,
                                           start_time := now, bytes := 0, cancel := False\<rparr>;
                      run = run\<lparr>rs_pool := pool\<rparr>
                  in if rc_usb \<noteq> 0 then (rc_usb, run, j)
                     else
                       let run = run\<lparr>usb_thread := True\<rparr>
                       in if rc_ts \<noteq> 0
                          then (rc_ts, run\<lparr>rs_pool := pool\<lparr>cancel := True\<rparr>, usb_thread := False\<rparr>, j)
                          else (0, run\<lparr>ts_thread := True\<rparr>, j))"

text \<open>
  A cancelled transfer has lost its pool: its callback frees it. \<open>None\<close> is \<open>pthread_join\<close> of a thread
  that was never created, whose handle is the content of fresh memory, or that has been joined.
  \<open>rel\<close> and \<open>clm\<close> are the results of releasing and claiming the interface.
\<close>

definition stop_ts ::
  "int \<Rightarrow> int \<Rightarrow> ts_run \<Rightarrow> ('d, 'z) joker_dev_scheme \<Rightarrow> (int \<times> ts_run \<times> ('d, 'z) joker_dev_scheme) option" where
  "stop_ts rel clm run j =
     (let pool = rs_pool run
      in if initialized pool \<noteq> BIG_POOL_MAGIC \<or> cancel pool then Some (- EINVAL, run, j)
         else
           let (_, j) = set_refresh 0 j;
               run = run\<lparr>in_flight := filter (\<lambda>(i, _). \<not> transfers pool i) (in_flight run)\<rparr>;
               pool = pool\<lparr>transfers := (\<lambda>i. if i < NUM_USB_BUFS then False else transfers pool i), cancel := True\<rparr>
           in if \<not> usb_thread run \<or> \<not> ts_thread run then None
              else
                let run = run\<lparr>rs_pool := pool, usb_thread := False, ts_thread := False\<rparr>;
                    j = usb_event ue_release j
                in if rel \<noteq> 0 then Some (- EIO, run, j)
                   else
                     let j = usb_event ue_claim j
                     in if clm \<noteq> 0 then Some (- EIO, run, j)
                        else
                          let pool = pool\<lparr>ts_list_size := ts_list_size pool - (\<Sum>n\<leftarrow>ts_list_all pool. int (tn_size n)),
                                          ts_list_all := []\<rparr>;
                              (_, pool) = pool_uninit pool
                          in Some (0, run\<lparr>rs_pool := pool\<rparr>, j))"

section \<open>Loopback of a file\<close>

text \<open>
  \<open>cancel_at n\<close>: the thread was told to end before round \<open>n\<close>. The file is what is left to read; its end
  is reported like an error.
\<close>

abbreviation TS_LOOP_SIZE :: nat where "TS_LOOP_SIZE \<equiv> 16384"

function loop_rounds ::
  "(nat \<Rightarrow> bool) \<Rightarrow> 'd usb_dev \<Rightarrow> nat \<Rightarrow> byte list \<Rightarrow> ('d, 'z) joker_t_scheme \<Rightarrow> int \<times> ('d, 'z) joker_t_scheme" where
  "loop_rounds cancel_at dev n data j =
     (if cancel_at n then (0, j)
      else
        let buf = take TS_LOOP_SIZE data
        in if buf = [] then (- EIO, j)
           else
             let (ret, j) = joker_send_ts_loop dev j buf
             in if ret \<noteq> 0 then (- EIO, j) else loop_rounds cancel_at dev (n + 1) (drop TS_LOOP_SIZE data) j)"
  by pat_completeness auto
termination
  by (relation "measure (\<lambda>(c, dev, n, data, j). length data)") auto

declare loop_rounds.simps [simp del]

text \<open>\<open>f\<close>: no file name, a file that cannot be opened, or its content.\<close>

definition process_ts_loop ::
  "(nat \<Rightarrow> bool) \<Rightarrow> 'd usb_dev \<Rightarrow> byte list option option \<Rightarrow> ('d, 'z) joker_t_scheme \<Rightarrow> int \<times> ('d, 'z) joker_t_scheme" where
  "process_ts_loop cancel_at dev f j =
     (case f of
        None \<Rightarrow> (- EINVAL, j)
      | Some None \<Rightarrow> (- EIO, j)
      | Some (Some data) \<Rightarrow> loop_rounds cancel_at dev 0 data j)"

text \<open>The thread object: none, allocated without a thread, or with its thread.\<close>

datatype loop_obj = loop_none | loop_dead | loop_thread

definition start_ts_loop :: "int \<Rightarrow> loop_obj \<Rightarrow> int \<times> loop_obj" where
  "start_ts_loop rc l =
     (if l = loop_none then if rc \<noteq> 0 then (rc, loop_dead) else (0, loop_thread) else (0, l))"

text \<open>The function has no return statement; joining a thread that was not created is \<open>None\<close>.\<close>

definition stop_ts_loop :: "loop_obj \<Rightarrow> (int option \<times> loop_obj) option" where
  "stop_ts_loop l =
     (case l of
        loop_none \<Rightarrow> Some (Some (- EINVAL), l)
      | loop_dead \<Rightarrow> None
      | loop_thread \<Rightarrow> Some (None, loop_none))"

end
