(* ===== verification/TsStartProps.thy ===== *)
theory TsStartProps
  imports TsStart
begin

text \<open>Properties of \<open>TsStart\<close>: the size of the transfers, the PID filter and the tables after a start, what a
  stop leaves, and the loopback of a file.\<close>

section \<open>The transfers\<close>

lemma alloc_transfer_halves:
  "alloc_transfer submit m = Some n \<longleftrightarrow>
     (\<exists>k. n = m div 2 ^ k \<and> 4 < n \<and> submit n = 0 \<and> (\<forall>i < k. submit (m div 2 ^ i) \<noteq> 0))"
proof (induction submit m rule: alloc_transfer.induct)
  case (1 submit m)
  have half: "m div 2 div 2 ^ k = m div 2 ^ Suc k" for k by (simp add: div_mult2_eq)
  have small: "m div 2 ^ k \<le> 4" if "m \<le> 4" for k using that div_le_dividend [of m "2 ^ k"] by linarith
  show ?case
  proof (cases "4 < m")
    case False
    then show ?thesis using small by (subst alloc_transfer.simps) (auto simp: not_less [symmetric])
  next
    case m: True
    show ?thesis
    proof (cases "submit m = 0")
      case True
      then have z: "k = 0" if "\<forall>i < k. submit (m div 2 ^ i) \<noteq> 0" for k using that by (cases k) auto
      have "(\<exists>k. n = m div 2 ^ k \<and> 4 < n \<and> submit n = 0 \<and> (\<forall>i < k. submit (m div 2 ^ i) \<noteq> 0)) \<longleftrightarrow> n = m"
        using m True z by (metis div_by_1 power_0 not_less_zero)
      with m True show ?thesis by (subst alloc_transfer.simps) auto
    next
      case False
      have "alloc_transfer submit m = alloc_transfer submit (m div 2)" using m False by (subst alloc_transfer.simps) simp
      also have "\<dots> = Some n \<longleftrightarrow> (\<exists>k. n = m div 2 ^ Suc k \<and> 4 < n \<and> submit n = 0 \<and> (\<forall>i < k. submit (m div 2 ^ Suc i) \<noteq> 0))"
        using 1 m False by (simp add: half)
      also have "\<dots> \<longleftrightarrow> (\<exists>k. n = m div 2 ^ k \<and> 4 < n \<and> submit n = 0 \<and> (\<forall>i < k. submit (m div 2 ^ i) \<noteq> 0))"
      proof -
        have e: "(\<forall>i < Suc k. submit (m div 2 ^ i) \<noteq> 0) \<longleftrightarrow> (\<forall>i < k. submit (m div 2 ^ Suc i) \<noteq> 0)" for k
          using False by (auto simp: less_Suc_eq_0_disj)
        show ?thesis (is "?l \<longleftrightarrow> ?r")
        proof
          assume ?l
          then obtain k where "n = m div 2 ^ Suc k" "4 < n" "submit n = 0" "\<forall>i < k. submit (m div 2 ^ Suc i) \<noteq> 0" by blast
          then show ?r using e by blast
        next
          assume ?r
          then obtain k where k: "n = m div 2 ^ k" "4 < n" "submit n = 0" "\<forall>i < k. submit (m div 2 ^ i) \<noteq> 0" by blast
          with False have "k \<noteq> 0" by (cases k) auto
          then obtain k' where "k = Suc k'" by (cases k) auto
          with k e show ?l by blast
        qed
      qed
      finally show ?thesis .
    qed
  qed
qed

lemma alloc_transfer_fails: "(\<And>n. submit n \<noteq> 0) \<Longrightarrow> alloc_transfer submit m = None"
  using alloc_transfer_halves [of submit m] by (cases "alloc_transfer submit m") auto

lemma alloc_transfers_set:
  "(i, n, s) \<in> set (alloc_transfers submit m z is) \<longleftrightarrow> i \<in> set is \<and> alloc_transfer (submit i) m = Some n \<and> s = z"
  by (induction "is") (auto split: option.split)

section \<open>A start that succeeds\<close>

lemma psi_pool_init_simps [simp]:
  "fst (psi_pool_init p) = 0" "selected_programs_list (snd (psi_pool_init p)) = selected_programs_list p"
  "programs_list (snd (psi_pool_init p)) = []" "hooks (snd (psi_pool_init p)) = (\<lambda>_. None)"
  "pool_ca_list (snd (psi_pool_init p)) = []" "generated_pat (snd (psi_pool_init p)) = generated_pat p"
  "generated_pat_pkt (snd (psi_pool_init p)) = generated_pat_pkt p" "initialized (snd (psi_pool_init p)) = BIG_POOL_MAGIC"
  "cancel (snd (psi_pool_init p)) = cancel p" "transfers (snd (psi_pool_init p)) = (\<lambda>_. False)"
  by (simp_all add: psi_pool_init_def pool_init_def Let_def)

definition fresh_run :: "ts_run \<Rightarrow> ts_run" where
  "fresh_run run = (if initialized (rs_pool run) \<noteq> BIG_POOL_MAGIC
     then run\<lparr>rs_pool := snd (psi_pool_init (rs_pool run)), in_flight := [], lost := lost run @ in_flight run\<rparr> else run)"

definition started_run :: "(nat \<Rightarrow> nat \<Rightarrow> int) \<Rightarrow> int \<Rightarrow> ('d, 'z) joker_dev_scheme \<Rightarrow> ts_run \<Rightarrow> ts_run" where
  "started_run submit now j run =
     (let run = submit_all submit j (fresh_run run)
      in run\<lparr>rs_pool := (rs_pool run)\<lparr>calls_count := 0, pkt_count := 0, pkt_count_complete := 0,
               start_time := now, bytes := 0, cancel := False\<rparr>\<rparr>)"

lemma start_ts_eq:
  "start_ts dev submit rc_usb rc_ts now run j =
     (if \<not> libusb_opaque j then (EINVAL, run, j)
      else
        let (ret, j) = start_cmds dev (selected_programs_list (rs_pool run) \<noteq> []) j
        in if ret \<noteq> 0 then (ret, fresh_run run, j)
           else
             let run = started_run submit now j run
             in if rc_usb \<noteq> 0 then (rc_usb, run, j)
                else if rc_ts \<noteq> 0
                then (rc_ts, run\<lparr>rs_pool := (rs_pool run)\<lparr>cancel := True\<rparr>, usb_thread := False\<rparr>, j)
                else (0, run\<lparr>usb_thread := True, ts_thread := True\<rparr>, j))"
proof -
  have f: "(if initialized (rs_pool run) \<noteq> BIG_POOL_MAGIC then
        let (r, pool) = psi_pool_init (rs_pool run)
        in (r, run\<lparr>rs_pool := pool, in_flight := [], lost := lost run @ in_flight run\<rparr>) else (0, run)) = (0, fresh_run run)"
    by (simp add: fresh_run_def case_prod_beta)
  have s: "selected_programs_list (rs_pool (fresh_run run)) = selected_programs_list (rs_pool run)"
    by (simp add: fresh_run_def)
  show ?thesis
    unfolding start_ts_def f prod.case simp_thms if_False
    by (simp add: s started_run_def Let_def case_prod_beta)
qed

text \<open>The results of the first two calls are dropped, so only the last command is known to have got through.\<close>

lemma start_cmds_log:
  assumes "fst (start_cmds dev sel j) = 0"
  shows "\<exists>pre cs. usb_log (snd (start_cmds dev sel j)) = usb_log j @ pre @ cs @ [[J_CMD_CI_TS, 0]]
     \<and> set pre \<subseteq> {[J_CMD_CLEAR_TS_FIFO]}
     \<and> (if sel then \<exists>n. cs = take n service_script else set cs \<subseteq> {ts_filter_all_buf False})"
proof -
  define j1 where "j1 = snd (joker_clean_ts dev j)"
  obtain pre where pre: "usb_log j1 = usb_log j @ pre" "set pre \<subseteq> {[J_CMD_CLEAR_TS_FIFO]}"
  proof -
    have "usb_log j1 = usb_log j \<or> usb_log j1 = usb_log j @ [[J_CMD_CLEAR_TS_FIFO]]"
      by (simp add: j1_def joker_clean_ts_def case_prod_beta log_simps)
    then show thesis using that [of "[]"] that [of "[[J_CMD_CLEAR_TS_FIFO]]"] by auto
  qed
  define j2 where "j2 = snd (if sel then ts_filter_only_service_pids dev j1 else ts_filter_all dev j1 False)"
  obtain cs where cs: "usb_log j2 = usb_log j1 @ cs"
    "if sel then \<exists>n. cs = take n service_script else set cs \<subseteq> {ts_filter_all_buf False}"
  proof (cases sel)
    case True
    with only_service_pids_sent [where dev = dev and j = j1] that show thesis by (auto simp: j2_def)
  next
    case False
    then have "usb_log j2 = usb_log j1 \<or> usb_log j2 = usb_log j1 @ [ts_filter_all_buf False]"
      by (simp add: j2_def ts_filter_all_eq log_simps)
    with False that [of "[]"] that [of "[ts_filter_all_buf False]"] show thesis by auto
  qed
  have "start_cmds dev sel j = joker_cmd0 dev j2 [J_CMD_CI_TS, 0]"
    by (simp add: start_cmds_def case_prod_beta j1_def j2_def)
  with cs pre assms show ?thesis by (intro exI [of _ pre] exI [of _ cs]) (simp add: log_simps)
qed

text \<open>The commands change nothing of the handle but the channel.\<close>

lemma seq_more: "joker_t.more (snd (send_seq (joker_cmd0 dev) cs j)) = joker_t.more j"
  by (induction cs arbitrary: j) (simp_all add: case_prod_beta Let_def frame_simps)

lemma clean_more: "joker_t.more (snd (joker_clean_ts dev j)) = joker_t.more j"
  by (simp add: joker_clean_ts_def case_prod_beta frame_simps)

lemma only_service_more: "joker_t.more (snd (ts_filter_only_service_pids dev j)) = joker_t.more j"
  by (simp add: only_service_pids_seq to_eio_def seq_more)

lemma start_cmds_more: "joker_t.more (snd (start_cmds dev sel j)) = joker_t.more j"
  by (simp add: start_cmds_def case_prod_beta ts_filter_all_eq frame_simps clean_more only_service_more)

lemma more_fields:
  fixes j k :: "('d, 'z) joker_dev_scheme"
  assumes "joker_t.more j = joker_t.more k"
  shows "max_isoc_packets_count j = max_isoc_packets_count k" "max_isoc_packets_size j = max_isoc_packets_size k"
    "usb_evs j = usb_evs k" "service_threading j = service_threading k"
  using assms by (cases j; cases k; simp)+

lemmas start_frame = more_fields [OF start_cmds_more]

lemma start_ts_ok:
  assumes "start_ts dev submit rc_usb rc_ts now run j = (0, run', j')"
  shows "libusb_opaque j \<and> start_cmds dev (selected_programs_list (rs_pool run) \<noteq> []) j = (0, j')
    \<and> run' = (started_run submit now j' run)\<lparr>usb_thread := True, ts_thread := True\<rparr>"
  using assms unfolding start_ts_eq Let_def case_prod_beta by (auto split: if_splits simp: prod_eq_iff)

lemma started_simps [simp]:
  "cancel (rs_pool (started_run submit now j run)) = False"
  "selected_programs_list (rs_pool (started_run submit now j run)) = selected_programs_list (rs_pool run)"
  "generated_pat (rs_pool (started_run submit now j run)) = generated_pat (rs_pool run)"
  "generated_pat_pkt (rs_pool (started_run submit now j run)) = generated_pat_pkt (rs_pool run)"
  "initialized (rs_pool (started_run submit now j run)) = BIG_POOL_MAGIC" "usb_thread (started_run submit now j run) = usb_thread run"
  by (auto simp: started_run_def submit_all_def fresh_run_def Let_def)

lemma started_fresh:
  assumes "initialized (rs_pool run) \<noteq> BIG_POOL_MAGIC"
  shows "programs_list (rs_pool (started_run submit now j run)) = []" "pool_ca_list (rs_pool (started_run submit now j run)) = []"
    "hooks (rs_pool (started_run submit now j run)) = (\<lambda>_. None)"
  using assms by (auto simp: started_run_def submit_all_def fresh_run_def Let_def)

lemma started_transfers:
  assumes "4 < max_isoc_packets_count j"
  shows "in_flight (started_run submit now j run)
      = alloc_transfers submit (max_isoc_packets_count j) (max_isoc_packets_size j) [0..<NUM_USB_BUFS]"
    "i < NUM_USB_BUFS \<Longrightarrow> transfers (rs_pool (started_run submit now j run)) i
      \<longleftrightarrow> i \<in> fst ` set (in_flight (started_run submit now j run))"
  using assms by (simp_all add: started_run_def submit_all_def Let_def)

section \<open>Properties\<close>

text \<open>transfers_largest: after a start every buffer has one transfer with the largest of the halved packet counts
  that the host accepts, or none when it accepts none above four; all packets have the size of the
  device.\<close>

theorem transfers_largest:
  assumes "start_ts dev submit rc_usb rc_ts now run j = (0, run', j')" and "4 < max_isoc_packets_count j" and "i < NUM_USB_BUFS"
  shows "(i, n, sz) \<in> set (in_flight run') \<longleftrightarrow> sz = max_isoc_packets_size j \<and>
    (\<exists>k. n = max_isoc_packets_count j div 2 ^ k \<and> 4 < n \<and> submit i n = 0
       \<and> (\<forall>k' < k. submit i (max_isoc_packets_count j div 2 ^ k') \<noteq> 0))"
proof -
  have s: "start_cmds dev (selected_programs_list (rs_pool run) \<noteq> []) j = (0, j')"
    "run' = (started_run submit now j' run)\<lparr>usb_thread := True, ts_thread := True\<rparr>"
    using start_ts_ok [OF assms(1)] by simp_all
  have f: "max_isoc_packets_count j' = max_isoc_packets_count j" "max_isoc_packets_size j' = max_isoc_packets_size j"
    using start_frame(1,2) [of dev "selected_programs_list (rs_pool run) \<noteq> []" j] s(1) by simp_all
  show ?thesis
    using assms(2,3) by (auto simp: s(2) started_transfers f alloc_transfers_set alloc_transfer_halves)
qed

text \<open>start_ts_filter: a start that returns 0 has switched the TS of the CAM off last; with programs selected it
  has opened no PID outside of the service set, and without a selection it has closed none.\<close>

theorem start_ts_filter:
  assumes "start_ts dev submit rc_usb rc_ts now run j = (0, run', j')"
  shows "last (usb_log j') = [J_CMD_CI_TS, 0]
    \<and> (if selected_programs_list (rs_pool run) \<noteq> [] then filter_of j' p \<longrightarrow> service_pid p \<or> filter_of j p
       else filter_of j p \<longrightarrow> filter_of j' p)"
proof -
  have s: "start_cmds dev (selected_programs_list (rs_pool run) \<noteq> []) j = (0, j')" using start_ts_ok [OF assms(1)] by simp
  obtain pre cs where cs: "usb_log j' = usb_log j @ pre @ cs @ [[J_CMD_CI_TS, 0]]" "set pre \<subseteq> {[J_CMD_CLEAR_TS_FIFO]}"
    "if selected_programs_list (rs_pool run) \<noteq> [] then \<exists>n. cs = take n service_script else set cs \<subseteq> {ts_filter_all_buf False}"
    using start_cmds_log [of dev "selected_programs_list (rs_pool run) \<noteq> []" j] s by auto
  have pre: "filter_run pre f = f" for f using cs(2) by (induction pre) auto
  have all: "filter_run cs f p" if "set cs \<subseteq> {ts_filter_all_buf False}" "f p" for f
    using that by (induction cs arbitrary: f) auto
  have service: "service_pid p \<or> f p" if "\<exists>n. cs = take n service_script" "filter_run cs f p" for f
    using that filter_run_service_closed by blast
  have j': "filter_of j' p = filter_run cs (filter_of j) p" by (simp add: cs(1) filter_of_def pre)
  have "last (usb_log j') = [J_CMD_CI_TS, 0]" by (simp add: cs(1))
  then show ?thesis unfolding j' using cs(3) service all by auto
qed

lemma psi_inv_cmd:
  assumes "psi_inv dev plib (pool, j)" and "no_filter_cmd j k"
  shows "psi_inv dev plib (pool, k)"
  using assms by (auto simp: psi_inv_def filter_ok_def no_filter_cmd_def)

lemma only_service_ok:
  assumes "usb_ok dev" and "io_mux_opaq j"
  shows "fst (ts_filter_only_service_pids dev j) = 0"
proof -
  have "fst (joker_cmd0 dev k c) = 0" if "io_mux_opaq k" for k c
    using cmd0_ok [OF assms(1) that, of c] by auto
  from cmdch.seq_ok_iff_ready_all [where dev = dev, OF this assms(2)] show ?thesis
    by (simp add: only_service_pids_seq to_eio_def)
qed

lemma started_psi_inv:
  assumes "start_ts dev submit rc_usb rc_ts now run j = (0, run', j')" and "usb_ok dev" and "io_mux_opaq j"
    and "initialized (rs_pool run) \<noteq> BIG_POOL_MAGIC" and "generated_pat (rs_pool run) = None" and "selected_programs_list (rs_pool run) \<noteq> []"
  shows "psi_inv dev plib (rs_pool run', j')"
proof -
  have s: "start_cmds dev True j = (0, j')" "run' = (started_run submit now j' run)\<lparr>usb_thread := True, ts_thread := True\<rparr>"
    using start_ts_ok [OF assms(1)] assms(6) by simp_all
  define j1 where "j1 = snd (joker_clean_ts dev j)"
  have "io_mux_opaq j1" using assms(3) by (simp add: j1_def joker_clean_ts_def case_prod_beta frame_simps)
  then obtain j2 where j2: "ts_filter_only_service_pids dev j1 = (0, j2)"
    using only_service_ok [OF assms(2), of j1] by (cases "ts_filter_only_service_pids dev j1") auto
  have "no_tables (rs_pool run')"
    using assms(5) by (simp add: s(2) no_tables_def started_fresh [OF assms(4)])
  from psi_inv_start [OF j2 this] have "psi_inv dev plib (rs_pool run', j2)" .
  moreover have "j' = snd (joker_cmd0 dev j2 [J_CMD_CI_TS, 0])"
    using s(1) j2 by (simp add: start_cmds_def case_prod_beta j1_def prod_eq_iff)
  ultimately show ?thesis using psi_inv_cmd no_filter_ci_ts no_filter_refl by metis
qed

text \<open>C12 (started_filter_exact): from a start on a new pool with programs selected, and a device that takes the
  commands, through every interleaving of tables and CAM activity: the device passes exactly the
  service PIDs and the PIDs of the selected programs.\<close>

theorem started_filter_exact:
  assumes "start_ts dev submit rc_usb rc_ts now run j = (0, run', j')" and "usb_ok dev" and "io_mux_opaq j"
    and "initialized (rs_pool run) \<noteq> BIG_POOL_MAGIC" and "generated_pat (rs_pool run) = None" and "selected_programs_list (rs_pool run) \<noteq> []"
    and "(psi_step plib lib dev)\<^sup>*\<^sup>* (rs_pool run', j') (pool, k)"
  shows "filter_of k n \<longleftrightarrow> service_pid n \<or> wanted_pids plib pool n"
  using psi.reach_inv [OF assms(7) started_psi_inv [OF assms(1-6)]] assms(2) by (auto simp: psi_inv_def filter_ok_def pid_wanted_def)

lemma stop_ts_ok:
  assumes "initialized (rs_pool run) = BIG_POOL_MAGIC" and "\<not> cancel (rs_pool run)" and "usb_thread run" and "ts_thread run"
  shows "\<exists>run' j'. stop_ts 0 0 run j = Some (0, run', j')
    \<and> in_flight run' = filter (\<lambda>(i, _). \<not> transfers (rs_pool run) i) (in_flight run) \<and> lost run' = lost run
    \<and> \<not> usb_thread run' \<and> \<not> ts_thread run' \<and> initialized (rs_pool run') = 0 \<and> ts_list_all (rs_pool run') = []
    \<and> generated_pat_pkt (rs_pool run') = generated_pat_pkt (rs_pool run) \<and> usb_evs j' = usb_evs j @ [ue_release, ue_claim]"
  using assms
  by (simp add: stop_ts_def Let_def case_prod_beta pool_uninit_def usb_event_def set_refresh_def)

text \<open>C23 (start_stop_balanced): a stop after a start, with any processing in between, leaves no transfer and no thread that
  uses the pool, drops the stored nodes, gives the interface back and claims it again.\<close>

theorem start_stop_balanced:
  assumes "start_ts dev submit rc_usb rc_ts now run j = (0, run1, j1)" and "4 < max_isoc_packets_count j"
    and "lost run = []" and "in_flight run = []"
    and "cancel pool = cancel (rs_pool run1)" and "initialized pool = initialized (rs_pool run1)" and "transfers pool = transfers (rs_pool run1)"
  shows "\<exists>run' j'. stop_ts 0 0 (run1\<lparr>rs_pool := pool\<rparr>) j2 = Some (0, run', j') \<and> in_flight run' = [] \<and> lost run' = []
    \<and> \<not> usb_thread run' \<and> \<not> ts_thread run' \<and> initialized (rs_pool run') \<noteq> BIG_POOL_MAGIC \<and> ts_list_all (rs_pool run') = []
    \<and> usb_evs j' = usb_evs j2 @ [ue_release, ue_claim]"
proof -
  have s: "start_cmds dev (selected_programs_list (rs_pool run) \<noteq> []) j = (0, j1)"
    "run1 = (started_run submit now j1 run)\<lparr>usb_thread := True, ts_thread := True\<rparr>"
    using start_ts_ok [OF assms(1)] by simp_all
  have m: "4 < max_isoc_packets_count j1"
    using start_frame(1) [of dev "selected_programs_list (rs_pool run) \<noteq> []" j] s(1) assms(2) by simp
  have "transfers (rs_pool run1) i" if "(i, x) \<in> set (in_flight run1)" for i x
  proof -
    obtain n z where "x = (n, z)" by (cases x)
    with that have "i < NUM_USB_BUFS" by (simp add: s(2) started_transfers(1) [OF m] alloc_transfers_set)
    with that show ?thesis by (force simp: s(2) started_transfers(2) [OF m])
  qed
  then have "filter (\<lambda>(i, _). \<not> transfers (rs_pool run1) i) (in_flight run1) = []"
    by (auto simp: filter_empty_conv)
  moreover have "lost run1 = []" using assms(3,4) by (simp add: s(2) started_run_def submit_all_def fresh_run_def Let_def)
  ultimately show ?thesis
    using stop_ts_ok [of "run1\<lparr>rs_pool := pool\<rparr>" j2] assms(5-7) by (simp add: s(2)) fastforce
qed

text \<open>failed_start_not_stopped: after a start that failed on a new pool, a stop does not clean up. When the thread of the
  TS was not created it refuses and every submitted transfer keeps running on the pool; when an
  earlier step failed it joins threads that were never created.\<close>

theorem failed_start_not_stopped:
  assumes "start_ts dev submit rc_usb rc_ts now run j = (r, run', j')" and "r \<noteq> 0" and "libusb_opaque j"
    and "initialized (rs_pool run) \<noteq> BIG_POOL_MAGIC" and "\<not> cancel (rs_pool run)" and "\<not> usb_thread run"
  shows "if fst (start_cmds dev (selected_programs_list (rs_pool run) \<noteq> []) j) = 0 \<and> rc_usb = 0
    then stop_ts rel clm run' j' = Some (- EINVAL, run', j') \<and> in_flight run' = in_flight (started_run submit now j' run)
    else stop_ts rel clm run' j' = None"
proof -
  obtain ret k where c: "start_cmds dev (selected_programs_list (rs_pool run) \<noteq> []) j = (ret, k)"
    by (cases "start_cmds dev (selected_programs_list (rs_pool run) \<noteq> []) j")
  have u: "usb_thread (fresh_run run) = usb_thread run" "cancel (rs_pool (fresh_run run)) = cancel (rs_pool run)" "initialized (rs_pool (fresh_run run)) = BIG_POOL_MAGIC"
    by (simp_all add: fresh_run_def)
  show ?thesis
    using assms unfolding start_ts_eq c
    by (auto simp: stop_ts_def Let_def case_prod_beta u split: if_splits)
qed

text \<open>C24 (restart_stale_pat): a restart on the same pool forgets the programs but keeps the generated PAT packet: through
  every interleaving that follows, and the next \<open>get_programs\<close>, the output carries the PAT of the
  transponder before.\<close>

theorem restart_stale_pat:
  assumes "stop_ts 0 0 run j = Some (0, run1, j1)" and "generated_pat_pkt (rs_pool run) = Some pkt"
    and "start_ts dev submit rc_usb rc_ts now run1 j2 = (0, run2, j3)"
    and "(psi_step plib lib dev)\<^sup>*\<^sup>* (rs_pool run2, j3) (pool, j4)"
  shows "programs_list (rs_pool run2) = [] \<and> generated_pat_pkt pool = Some pkt \<and> snd (generate_pat_pkt plib ok pool) = pool"
proof -
  have s: "generated_pat_pkt (rs_pool run1) = Some pkt" "initialized (rs_pool run1) \<noteq> BIG_POOL_MAGIC"
    using assms(1,2) by (auto simp: stop_ts_def Let_def case_prod_beta pool_uninit_def split: if_splits)
  have run2: "run2 = (started_run submit now j3 run1)\<lparr>usb_thread := True, ts_thread := True\<rparr>" using start_ts_ok [OF assms(3)] by simp
  have "pat_pkt_is (Some pkt) (rs_pool run2, j3)" by (simp add: pat_pkt_is_def run2 s(1))
  from psi_pkt.reach_inv [OF assms(4) this] have p: "generated_pat_pkt pool = Some pkt" by (simp add: pat_pkt_is_def)
  then show ?thesis by (simp add: run2 started_fresh(1) [OF s(2)] generate_pat_pkt_def split: option.split)
qed

section \<open>Loopback of a file\<close>

lemma loop_rounds_all:
  assumes "\<And>b d. bulk_out dev USB_EP4_OUT b d = (0, length b, d @ b)"
  shows "loop_rounds (\<lambda>_. False) dev n data j = (- EIO, j\<lparr>dev_st := dev_st j @ data\<rparr>)"
proof (induction data arbitrary: n j rule: length_induct)
  case (1 data)
  show ?case
  proof (cases "data = []")
    case False
    let ?j = "j\<lparr>dev_st := dev_st j @ take TS_LOOP_SIZE data\<rparr>"
    have "loop_rounds (\<lambda>_. False) dev (n + 1) (drop TS_LOOP_SIZE data) ?j
        = (- EIO, ?j\<lparr>dev_st := dev_st ?j @ drop TS_LOOP_SIZE data\<rparr>)"
      using 1 False by simp
    moreover have "joker_send_ts_loop dev j (take TS_LOOP_SIZE data) = (0, ?j)"
      using assms by (simp add: joker_send_ts_loop_def)
    ultimately show ?thesis
      using False by (subst loop_rounds.simps) (simp add: Let_def)
  qed (simp add: loop_rounds.simps)
qed

text \<open>loop_sends_file: with a device that takes every transfer and nobody who stops the thread, exactly the bytes
  of the file are sent, in order, and the thread ends; its result is the one of a failure.\<close>

theorem loop_sends_file:
  assumes "\<And>b d. bulk_out dev USB_EP4_OUT b d = (0, length b, d @ b)"
  shows "process_ts_loop (\<lambda>_. False) dev (Some (Some data)) j = (- EIO, j\<lparr>dev_st := dev_st j @ data\<rparr>)"
  by (simp add: process_ts_loop_def loop_rounds_all [OF assms])

section \<open>Examples\<close>

definition loop_dev :: "byte list usb_dev" where
  "loop_dev = \<lparr>bulk_out = (\<lambda>_ b d. (0, length b, d @ b)), bulk_in = (\<lambda>_ _ d. (0, [], d)), undef_bytes = (\<lambda>_ _. 0)\<rparr>"

theorem loop_sends_file_witness:
  "dev_st (snd (process_ts_loop (\<lambda>_. False) loop_dev (Some (Some (replicate 20000 0x47)))
     \<lparr>dev_st = [], usb_log = [], libusb_opaque = True, io_mux_opaq = True\<rparr>)) = replicate 20000 0x47"
  by (subst loop_sends_file) (simp_all add: loop_dev_def)

text \<open>A handle that is open, a new pool with a selected program, and a host that accepts 32 packets.\<close>

definition open_joker :: "unit joker_dev" where
  "open_joker = closed_joker\<lparr>libusb_opaque := True, io_mux_opaq := True, max_isoc_packets_size := 1024, max_isoc_packets_count := 128\<rparr>"

definition new_run :: ts_run where
  "new_run = \<lparr>rs_pool = demo_pool\<lparr>initialized := 0, cancel := False\<rparr>, usb_thread = False, ts_thread = False, in_flight = [], lost = []\<rparr>"

definition accept32 :: "nat \<Rightarrow> nat \<Rightarrow> int" where
  "accept32 i n = (if n \<le> 32 then 0 else - 1)"

lemma open_joker_simps [simp]:
  "io_mux_opaq open_joker" "libusb_opaque open_joker" "max_isoc_packets_count open_joker = 128" "max_isoc_packets_size open_joker = 1024"
  by (simp_all add: open_joker_def)

lemma new_run_simps [simp]:
  "initialized (rs_pool new_run) = 0" "\<not> cancel (rs_pool new_run)" "\<not> usb_thread new_run" "in_flight new_run = []" "lost new_run = []"
  "selected_programs_list (rs_pool new_run) = [new_program 5]" "generated_pat (rs_pool new_run) = None"
  by (simp_all add: new_run_def)

lemma start_cmds_ok:
  assumes "usb_ok dev" and "io_mux_opaq j"
  shows "\<exists>k. start_cmds dev sel j = (0, k) \<and> io_mux_opaq k \<and> joker_t.more k = joker_t.more j"
proof -
  define j2 where "j2 = snd (if sel then ts_filter_only_service_pids dev (snd (joker_clean_ts dev j)) else ts_filter_all dev (snd (joker_clean_ts dev j)) False)"
  have j2: "io_mux_opaq j2"
    using assms(2) by (simp add: j2_def joker_clean_ts_def ts_filter_all_eq case_prod_beta frame_simps)
  have "start_cmds dev sel j = joker_cmd0 dev j2 [J_CMD_CI_TS, 0]"
    by (simp add: start_cmds_def case_prod_beta j2_def)
  with cmd0_ok [OF assms(1) j2, of "[J_CMD_CI_TS, 0]"] start_cmds_more [of dev sel j] j2 show ?thesis by auto
qed

lemma demo_start:
  "\<exists>j. start_ts quiet_dev accept32 0 0 0 new_run open_joker
     = (0, (started_run accept32 0 j new_run)\<lparr>usb_thread := True, ts_thread := True\<rparr>, j)
     \<and> max_isoc_packets_count j = 128 \<and> max_isoc_packets_size j = 1024 \<and> io_mux_opaq j"
proof -
  obtain k where k: "start_cmds quiet_dev True open_joker = (0, k)" "io_mux_opaq k" "joker_t.more k = joker_t.more open_joker"
    using start_cmds_ok [OF quiet_usb_ok, of open_joker True] by auto
  show ?thesis
    using k(1,2) more_fields(1,2) [OF k(3)] by (auto simp: start_ts_eq Let_def)
qed

theorem transfers_largest_witness:
  "\<exists>run j. start_ts quiet_dev accept32 0 0 0 new_run open_joker = (0, run, j) \<and> (3, 32, 1024) \<in> set (in_flight run)"
proof -
  obtain run j where s: "start_ts quiet_dev accept32 0 0 0 new_run open_joker = (0, run, j)" using demo_start by blast
  have "\<exists>k. (32 :: nat) = 128 div 2 ^ k \<and> (\<forall>k' < k. accept32 3 (128 div 2 ^ k') \<noteq> 0)"
    by (rule exI [of _ "2 :: nat"]) (auto simp: accept32_def less_2_cases_iff)
  with transfers_largest [OF s, of 3 32 1024] s show ?thesis by (auto simp: accept32_def)
qed

theorem start_ts_filter_witness:
  "\<exists>run j. start_ts quiet_dev accept32 0 0 0 new_run open_joker = (0, run, j) \<and> last (usb_log j) = [J_CMD_CI_TS, 0]"
proof -
  obtain run j where s: "start_ts quiet_dev accept32 0 0 0 new_run open_joker = (0, run, j)" using demo_start by blast
  with start_ts_filter [OF s, where p = "0x100"] show ?thesis by auto
qed

theorem started_filter_exact_witness:
  "\<exists>run j. start_ts quiet_dev accept32 0 0 0 new_run open_joker = (0, run, j)
     \<and> filter_of j 5 \<and> (filter_of j 0x100 \<longleftrightarrow> wanted_pids demo_lib (rs_pool run) 0x100)"
proof -
  obtain run j where s: "start_ts quiet_dev accept32 0 0 0 new_run open_joker = (0, run, j)" using demo_start by blast
  have "(psi_step demo_lib ok_lib quiet_dev)\<^sup>*\<^sup>* (rs_pool run, j) (rs_pool run, j)" by simp
  from started_filter_exact [OF s quiet_usb_ok _ _ _ _ this, of 5] started_filter_exact [OF s quiet_usb_ok _ _ _ _ this, of "0x100"] s
  show ?thesis by (auto simp: service_pid_def)
qed

lemma demo_stop:
  "\<exists>run1 j1 run2 j2. start_ts quiet_dev accept32 0 0 0 new_run open_joker = (0, run1, j1) \<and> stop_ts 0 0 run1 j1 = Some (0, run2, j2)"
proof -
  obtain j1 where s: "start_ts quiet_dev accept32 0 0 0 new_run open_joker
      = (0, (started_run accept32 0 j1 new_run)\<lparr>usb_thread := True, ts_thread := True\<rparr>, j1)"
    using demo_start by blast
  with stop_ts_ok [of "(started_run accept32 0 j1 new_run)\<lparr>usb_thread := True, ts_thread := True\<rparr>" j1] show ?thesis
    by auto
qed

theorem start_stop_balanced_witness:
  "\<exists>run1 j1 run2 j2. start_ts quiet_dev accept32 0 0 0 new_run open_joker = (0, run1, j1)
     \<and> stop_ts 0 0 run1 j1 = Some (0, run2, j2) \<and> in_flight run2 = [] \<and> \<not> usb_thread run2"
proof -
  obtain run1 j1 where s: "start_ts quiet_dev accept32 0 0 0 new_run open_joker = (0, run1, j1)" using demo_start by blast
  from start_stop_balanced [OF s _ _ _ refl refl refl, of j1] s show ?thesis by auto
qed

theorem failed_start_not_stopped_witness:
  "\<exists>run j. start_ts quiet_dev accept32 0 11 0 new_run open_joker = (11, run, j) \<and> stop_ts 0 0 run j = Some (- EINVAL, run, j)"
proof -
  obtain k where k: "start_cmds quiet_dev True open_joker = (0, k)"
    using start_cmds_ok [OF quiet_usb_ok, of open_joker True] by auto
  then obtain run where s: "start_ts quiet_dev accept32 0 11 0 new_run open_joker = (11, run, k)"
    by (simp add: start_ts_eq Let_def)
  with failed_start_not_stopped [OF s, of 0 0] k show ?thesis by auto
qed

text \<open>A pool that already has a generated packet.\<close>

definition tv_run :: ts_run where
  "tv_run = new_run\<lparr>rs_pool := (rs_pool new_run)\<lparr>initialized := BIG_POOL_MAGIC, generated_pat_pkt := Some [0x47]\<rparr>,
     usb_thread := True, ts_thread := True\<rparr>"

theorem restart_stale_pat_witness:
  "\<exists>run1 j1 run2 j2. stop_ts 0 0 tv_run open_joker = Some (0, run1, j1)
     \<and> start_ts quiet_dev accept32 0 0 0 run1 open_joker = (0, run2, j2) \<and> generated_pat_pkt (rs_pool run2) = Some [0x47]"
proof -
  obtain run1 j1 where 1: "stop_ts 0 0 tv_run open_joker = Some (0, run1, j1)"
    using stop_ts_ok [of tv_run open_joker] by (auto simp: tv_run_def)
  obtain k where "start_cmds quiet_dev (selected_programs_list (rs_pool run1) \<noteq> []) open_joker = (0, k)"
    using start_cmds_ok [OF quiet_usb_ok, of open_joker] by fastforce
  then obtain run2 j2 where 2: "start_ts quiet_dev accept32 0 0 0 run1 open_joker = (0, run2, j2)"
    by (simp add: start_ts_eq Let_def)
  have "(psi_step demo_lib ok_lib quiet_dev)\<^sup>*\<^sup>* (rs_pool run2, j2) (rs_pool run2, j2)" by simp
  from restart_stale_pat [OF 1 _ 2 this, of "[0x47]" True] 1 2 show ?thesis by (auto simp: tv_run_def)
qed

end
