(* ===== verification/Transport.thy ===== *)
theory Transport
  imports En50221
begin

text \<open>
  The transport layer of the EN 50221 stack, \<open>3party/libdvben50221/en50221_transport.c\<close>, with the
  ASN.1 length fields of \<open>asn_1.c\<close> and \<open>time_after\<close> of \<open>dvbmisc.h\<close>. The library was adapted to this
  program: the low level poll and the link layer are functions of \<open>src/joker_en50221.c\<close>. They are the
  fields of \<open>tl_env\<close>, with the clock and the callback of the session layer; \<open>joker_env\<close> is the
  environment the program sets up. The state is the layer and what lies below it. Locks make each
  operation one step, allocation succeeds, messages are left out. \<open>None\<close> is an access outside of an
  array, or a dangling pointer.
\<close>

section \<open>Length fields\<close>

text \<open>The length and the number of bytes it takes; \<open>None\<close> is the result -1.\<close>

definition asn_1_decode :: "byte list \<Rightarrow> (u16 \<times> nat) option" where
  "asn_1_decode a =
     (if length a < 1 then None
      else
        let length_field = a ! 0
        in if length_field < 0x80 then Some (ucast (length_field AND 0x7f), 1)
           else if length_field = 0x81 then
             if length a < 2 then None else Some (ucast (a ! 1), 2)
           else if length_field = 0x82 then
             if length a < 3 then None else Some (push_bit 8 (ucast (a ! 1)) OR ucast (a ! 2), 3)
           else None)"

text \<open>The bytes that are written into an array of the given size.\<close>

definition asn_1_encode :: "u16 \<Rightarrow> nat \<Rightarrow> byte list option" where
  "asn_1_encode l len =
     (if l < 0x80 then if len < 1 then None else Some [ucast (l AND 0x7f)]
      else if l < 0x100 then if len < 2 then None else Some [0x81, ucast l]
      else if len < 3 then None else Some [0x82, ucast (drop_bit 8 l), ucast l])"

section \<open>State\<close>

abbreviation (input) T_SB :: byte where "T_SB \<equiv> 0x80"
abbreviation (input) T_RCV :: byte where "T_RCV \<equiv> 0x81"
abbreviation (input) T_CREATE_T_C :: byte where "T_CREATE_T_C \<equiv> 0x82"
abbreviation (input) T_C_T_C_REPLY :: byte where "T_C_T_C_REPLY \<equiv> 0x83"
abbreviation (input) T_DELETE_T_C :: byte where "T_DELETE_T_C \<equiv> 0x84"
abbreviation (input) T_D_T_C_REPLY :: byte where "T_D_T_C_REPLY \<equiv> 0x85"
abbreviation (input) T_REQUEST_T_C :: byte where "T_REQUEST_T_C \<equiv> 0x86"
abbreviation (input) T_NEW_T_C :: byte where "T_NEW_T_C \<equiv> 0x87"
abbreviation (input) T_T_C_ERROR :: byte where "T_T_C_ERROR \<equiv> 0x77"
abbreviation (input) T_DATA_LAST :: byte where "T_DATA_LAST \<equiv> 0xA0"
abbreviation (input) T_DATA_MORE :: byte where "T_DATA_MORE \<equiv> 0xA1"

abbreviation (input) EN50221ERR_CAREAD :: int where "EN50221ERR_CAREAD \<equiv> - 1"
abbreviation (input) EN50221ERR_CAWRITE :: int where "EN50221ERR_CAWRITE \<equiv> - 2"
abbreviation (input) EN50221ERR_TIMEOUT :: int where "EN50221ERR_TIMEOUT \<equiv> - 3"
abbreviation (input) EN50221ERR_BADSLOTID :: int where "EN50221ERR_BADSLOTID \<equiv> - 4"
abbreviation (input) EN50221ERR_BADCONNECTIONID :: int where "EN50221ERR_BADCONNECTIONID \<equiv> - 5"
abbreviation (input) EN50221ERR_BADSTATE :: int where "EN50221ERR_BADSTATE \<equiv> - 6"
abbreviation (input) EN50221ERR_BADCAMDATA :: int where "EN50221ERR_BADCAMDATA \<equiv> - 7"
abbreviation (input) EN50221ERR_OUTOFMEMORY :: int where "EN50221ERR_OUTOFMEMORY \<equiv> - 8"
abbreviation (input) EN50221ERR_ASNENCODE :: int where "EN50221ERR_ASNENCODE \<equiv> - 9"
abbreviation (input) EN50221ERR_OUTOFCONNECTIONS :: int where "EN50221ERR_OUTOFCONNECTIONS \<equiv> - 10"
abbreviation (input) EN50221ERR_OUTOFSLOTS :: int where "EN50221ERR_OUTOFSLOTS \<equiv> - 11"

datatype conn_state =
  T_STATE_IDLE | T_STATE_ACTIVE | T_STATE_ACTIVE_DELETEQUEUED | T_STATE_IN_CREATION | T_STATE_IN_DELETION

text \<open>A time is seconds and microseconds. The length of the chain buffer is its \<open>buffer_length\<close>.\<close>

record en50221_connection =
  t_state :: conn_state
  tx_time :: "int \<times> int"
  last_poll_time :: "int \<times> int"
  chain_buffer :: "byte list option"
  send_queue :: "byte list list"

record en50221_slot =
  ca_hndl :: int
  cam_slot :: byte
  conns :: "en50221_connection list"
  response_timeout :: u32
  poll_delay :: u32

text \<open>\<open>revents\<close> are the results in \<open>slot_pollfds\<close>; \<open>tl_reads\<close> counts the readings of the clock.\<close>

record en50221_transport_layer =
  max_slots :: nat
  max_connections_per_slot :: nat
  slots :: "en50221_slot list"
  revents :: "u16 list"
  slots_changed :: bool
  tl_error :: int
  tl_error_slot :: int
  tl_callback :: bool
  tl_reads :: nat

abbreviation (input) POLLIN :: u16 where "POLLIN \<equiv> 1"
abbreviation (input) POLLPRI :: u16 where "POLLPRI \<equiv> 2"
abbreviation (input) POLLERR :: u16 where "POLLERR \<equiv> 8"

datatype tl_event =
    CONNECTIONOPEN nat nat
  | CAMCONNECTIONOPEN nat nat
  | T_DATA "byte list" nat nat
  | CONNECTIONCLOSE nat nat
  | SLOTCLOSE nat

type_synonym 'j tl_st = "en50221_transport_layer \<times> 'j"

text \<open>
  \<open>link_read n\<close> gives the result, the slot, the connection and the data of \<open>dvbca_link_read\<close> with a
  buffer of \<open>n\<close> bytes.
\<close>

record 'j tl_env =
  link_write :: "byte \<Rightarrow> byte list \<Rightarrow> 'j \<Rightarrow> int \<times> 'j"
  link_read :: "nat \<Rightarrow> 'j \<Rightarrow> (int \<times> byte \<times> byte \<times> byte list \<times> 'j) option"
  ll_poll :: "u16 list \<Rightarrow> 'j \<Rightarrow> int \<times> u16 list \<times> 'j"
  tl_clock :: "nat \<Rightarrow> int \<times> int"
  tl_cb :: "tl_event \<Rightarrow> 'j tl_st \<Rightarrow> 'j tl_st"

definition conn_at :: "en50221_transport_layer \<Rightarrow> nat \<Rightarrow> nat \<Rightarrow> en50221_connection" where
  "conn_at t s c = conns (slots t ! s) ! c"

definition upd_slot :: "nat \<Rightarrow> (en50221_slot \<Rightarrow> en50221_slot) \<Rightarrow> en50221_transport_layer \<Rightarrow> en50221_transport_layer" where
  "upd_slot s f t = t\<lparr>slots := (slots t)[s := f (slots t ! s)]\<rparr>"

definition upd_conn ::
  "nat \<Rightarrow> nat \<Rightarrow> (en50221_connection \<Rightarrow> en50221_connection) \<Rightarrow> en50221_transport_layer \<Rightarrow> en50221_transport_layer" where
  "upd_conn s c f t = upd_slot s (\<lambda>sl. sl\<lparr>conns := (conns sl)[c := f (conns sl ! c)]\<rparr>) t"

text \<open>\<open>tx_time.tv_sec = 0\<close>: no request is waiting for its response.\<close>

definition no_wait :: "en50221_connection \<Rightarrow> en50221_connection" where
  "no_wait k = k\<lparr>tx_time := (0, snd (tx_time k))\<rparr>"

definition waiting :: "en50221_connection \<Rightarrow> bool" where
  "waiting k \<longleftrightarrow> fst (tx_time k) \<noteq> 0"

definition gettimeofday :: "'j tl_env \<Rightarrow> en50221_transport_layer \<Rightarrow> (int \<times> int) \<times> en50221_transport_layer" where
  "gettimeofday env t = (tl_clock env (tl_reads t), t\<lparr>tl_reads := Suc (tl_reads t)\<rparr>)"

definition time_after :: "int \<times> int \<Rightarrow> u32 \<Rightarrow> int \<times> int \<Rightarrow> bool" where
  "time_after oldtime delta_ms nowtime \<longleftrightarrow>
     fst nowtime * 1000 + snd nowtime div 1000 > fst oldtime * 1000 + snd oldtime div 1000 + uint delta_ms"

definition tl_fail :: "int \<Rightarrow> int \<Rightarrow> 'j tl_st \<Rightarrow> int \<times> 'j tl_st" where
  "tl_fail slot err st = (- 1, (fst st)\<lparr>tl_error_slot := slot, tl_error := err\<rparr>, snd st)"

definition notify :: "'j tl_env \<Rightarrow> tl_event \<Rightarrow> 'j tl_st \<Rightarrow> 'j tl_st" where
  "notify env ev st = (if tl_callback (fst st) then tl_cb env ev st else st)"

section \<open>Slots\<close>

definition zero_conn :: en50221_connection where
  "zero_conn = \<lparr>t_state = T_STATE_IDLE, tx_time = (0, 0), last_poll_time = (0, 0), chain_buffer = None, send_queue = []\<rparr>"

text \<open>\<open>usec\<close> is the microsecond part of \<open>tx_time\<close>, which is not set; \<open>junk\<close> the slots before their registration.\<close>

definition en50221_tl_create :: "nat \<Rightarrow> nat \<Rightarrow> int \<Rightarrow> en50221_slot \<Rightarrow> en50221_transport_layer" where
  "en50221_tl_create ns nc usec junk =
     \<lparr>max_slots = ns, max_connections_per_slot = nc,
      slots = replicate ns (junk\<lparr>ca_hndl := - 1, conns := replicate nc (zero_conn\<lparr>tx_time := (0, usec)\<rparr>)\<rparr>),
      revents = replicate ns 0, slots_changed = True, tl_error = 0, tl_error_slot = 0, tl_callback = False, tl_reads = 0\<rparr>"

fun free_slot :: "nat \<Rightarrow> en50221_slot list \<Rightarrow> nat option" where
  "free_slot i [] = None"
| "free_slot i (s # ss) = (if ca_hndl s = - 1 then Some i else free_slot (i + 1) ss)"

definition en50221_tl_register_slot ::
  "int \<Rightarrow> byte \<Rightarrow> u32 \<Rightarrow> u32 \<Rightarrow> en50221_transport_layer \<Rightarrow> int \<times> en50221_transport_layer" where
  "en50221_tl_register_slot hndl slot timeout delay t =
     (case free_slot 0 (slots t) of
        None \<Rightarrow> (- 1, t\<lparr>tl_error := EN50221ERR_OUTOFSLOTS\<rparr>)
      | Some i \<Rightarrow>
          (int i, (upd_slot i (\<lambda>s. s\<lparr>ca_hndl := hndl, cam_slot := slot, response_timeout := timeout, poll_delay := delay\<rparr>) t)
                  \<lparr>slots_changed := True\<rparr>))"

definition en50221_tl_destroy_slot :: "'j tl_env \<Rightarrow> nat \<Rightarrow> 'j tl_st \<Rightarrow> 'j tl_st" where
  "en50221_tl_destroy_slot env sid st =
     (case st of (t, j) \<Rightarrow>
        if sid \<ge> max_slots t then (t, j)
        else
          let clear = (\<lambda>k. k\<lparr>t_state := T_STATE_IDLE, tx_time := (0, snd (tx_time k)), last_poll_time := (0, 0),
                             chain_buffer := None, send_queue := []\<rparr>);
              t = upd_slot sid (\<lambda>s. s\<lparr>ca_hndl := - 1, conns := map clear (conns s)\<rparr>) t;
              (t, j) = notify env (SLOTCLOSE sid) (t, j)
          in (t\<lparr>slots_changed := True\<rparr>, j))"

section \<open>Requests of the upper layer\<close>

definition queue_message :: "nat \<Rightarrow> nat \<Rightarrow> byte list \<Rightarrow> en50221_transport_layer \<Rightarrow> en50221_transport_layer" where
  "queue_message s c msg t = upd_conn s c (\<lambda>k. k\<lparr>send_queue := send_queue k @ [msg]\<rparr>) t"

text \<open>The guard of the operations on a slot and a connection; \<open>None\<close> lets the operation go on.\<close>

definition tl_guard :: "nat \<Rightarrow> nat option \<Rightarrow> en50221_transport_layer \<Rightarrow> en50221_transport_layer option" where
  "tl_guard sid conn t =
     (if sid \<ge> max_slots t then Some (t\<lparr>tl_error := EN50221ERR_BADSLOTID\<rparr>)
      else if ca_hndl (slots t ! sid) = - 1 then Some (t\<lparr>tl_error := EN50221ERR_BADSLOTID\<rparr>)
      else case conn of
             None \<Rightarrow> None
           | Some c \<Rightarrow>
               if c \<ge> max_connections_per_slot t
               then Some (t\<lparr>tl_error_slot := int sid, tl_error := EN50221ERR_BADCONNECTIONID\<rparr>) else None)"

text \<open>
  The length of a TPDU is computed with 32 bits and passed as 16 bits. \<open>send_datav\<close> is the same
  with the data in parts.
\<close>

definition data_tpdu :: "nat \<Rightarrow> byte list \<Rightarrow> byte list option" where
  "data_tpdu cid data =
     map_option (\<lambda>f. [T_DATA_LAST] @ f @ [word_of_nat cid] @ data)
       (asn_1_encode (word_of_nat (length data + 1)) 3)"

definition en50221_tl_send_data ::
  "nat \<Rightarrow> nat \<Rightarrow> byte list \<Rightarrow> en50221_transport_layer \<Rightarrow> int \<times> en50221_transport_layer" where
  "en50221_tl_send_data sid cid data t =
     (case tl_guard sid (Some cid) t of
        Some t \<Rightarrow> (- 1, t)
      | None \<Rightarrow>
          if t_state (conn_at t sid cid) \<noteq> T_STATE_ACTIVE
          then (- 1, t\<lparr>tl_error := EN50221ERR_BADCONNECTIONID\<rparr>)
          else
            (case data_tpdu cid data of
               None \<Rightarrow> (- 1, t\<lparr>tl_error_slot := int sid, tl_error := EN50221ERR_ASNENCODE\<rparr>)
             | Some msg \<Rightarrow> (0, queue_message sid cid msg t)))"

definition en50221_tl_send_datav ::
  "nat \<Rightarrow> nat \<Rightarrow> byte list list \<Rightarrow> en50221_transport_layer \<Rightarrow> int \<times> en50221_transport_layer" where
  "en50221_tl_send_datav sid cid vector t =
     (case tl_guard sid (Some cid) t of
        Some t \<Rightarrow> (- 1, t)
      | None \<Rightarrow>
          if t_state (conn_at t sid cid) \<noteq> T_STATE_ACTIVE
          then (- 1, t\<lparr>tl_error := EN50221ERR_BADCONNECTIONID\<rparr>)
          else
            let data_size = sum_list (map length vector)
            in (case asn_1_encode (word_of_nat (data_size + 1)) 3 of
                  None \<Rightarrow> (- 1, t\<lparr>tl_error_slot := int sid, tl_error := EN50221ERR_ASNENCODE\<rparr>)
                | Some f \<Rightarrow>
                    (0, queue_message sid cid
                          ([T_DATA_LAST] @ f @ [word_of_nat cid] @ concat vector) t)))"

text \<open>The search for an idle connection starts at 1.\<close>

fun idle_conn :: "nat \<Rightarrow> en50221_connection list \<Rightarrow> nat option" where
  "idle_conn i [] = None"
| "idle_conn i (k # ks) = (if t_state k = T_STATE_IDLE then Some i else idle_conn (i + 1) ks)"

definition en50221_tl_alloc_new_tc :: "nat \<Rightarrow> en50221_transport_layer \<Rightarrow> (nat \<times> en50221_transport_layer) option" where
  "en50221_tl_alloc_new_tc sid t =
     map_option (\<lambda>c. (c, upd_conn sid c (\<lambda>k. k\<lparr>t_state := T_STATE_IN_CREATION, chain_buffer := None\<rparr>) t))
       (idle_conn 1 (drop 1 (conns (slots t ! sid))))"

definition en50221_tl_new_tc :: "nat \<Rightarrow> en50221_transport_layer \<Rightarrow> int \<times> en50221_transport_layer" where
  "en50221_tl_new_tc sid t =
     (case tl_guard sid None t of
        Some t \<Rightarrow> (- 1, t)
      | None \<Rightarrow>
          (case en50221_tl_alloc_new_tc sid t of
             None \<Rightarrow> (- 1, t\<lparr>tl_error_slot := int sid, tl_error := EN50221ERR_OUTOFCONNECTIONS\<rparr>)
           | Some (conid, t) \<Rightarrow> (int conid, queue_message sid conid [T_CREATE_T_C, 1, word_of_nat conid] t)))"

definition en50221_tl_del_tc :: "nat \<Rightarrow> nat \<Rightarrow> en50221_transport_layer \<Rightarrow> int \<times> en50221_transport_layer" where
  "en50221_tl_del_tc sid cid t =
     (case tl_guard sid (Some cid) t of
        Some t \<Rightarrow> (- 1, t)
      | None \<Rightarrow>
          if t_state (conn_at t sid cid) \<notin> {T_STATE_ACTIVE, T_STATE_IN_DELETION}
          then (- 1, t\<lparr>tl_error_slot := int sid, tl_error := EN50221ERR_BADSTATE\<rparr>)
          else (0, upd_conn sid cid (\<lambda>k. k\<lparr>t_state := T_STATE_ACTIVE_DELETEQUEUED\<rparr>)
                     (queue_message sid cid [T_DELETE_T_C, 1, word_of_nat cid] t)))"

definition state_code :: "conn_state \<Rightarrow> int" where
  "state_code s =
     (case s of T_STATE_IDLE \<Rightarrow> 0x01 | T_STATE_ACTIVE \<Rightarrow> 0x02 | T_STATE_ACTIVE_DELETEQUEUED \<Rightarrow> 0x04
      | T_STATE_IN_CREATION \<Rightarrow> 0x08 | T_STATE_IN_DELETION \<Rightarrow> 0x10)"

definition en50221_tl_get_connection_state :: "nat \<Rightarrow> nat \<Rightarrow> en50221_transport_layer \<Rightarrow> int \<times> en50221_transport_layer" where
  "en50221_tl_get_connection_state sid cid t =
     (case tl_guard sid (Some cid) t of
        Some t \<Rightarrow> (- 1, t)
      | None \<Rightarrow> (state_code (t_state (conn_at t sid cid)), t))"

section \<open>TPDUs from the module\<close>

definition tl_write :: "'j tl_env \<Rightarrow> nat \<Rightarrow> byte list \<Rightarrow> 'j tl_st \<Rightarrow> int \<times> 'j tl_st" where
  "tl_write env cid data st =
     (case st of (t, j) \<Rightarrow> let (r, j) = link_write env (word_of_nat cid) data j in (r, t, j))"

definition upd_st :: "nat \<Rightarrow> nat \<Rightarrow> (en50221_connection \<Rightarrow> en50221_connection) \<Rightarrow> 'j tl_st \<Rightarrow> 'j tl_st" where
  "upd_st sid cid f st = (upd_conn sid cid f (fst st), snd st)"

text \<open>\<open>gettimeofday(&tx_time)\<close> and \<open>gettimeofday(&last_poll_time)\<close>.\<close>

definition stamp_tx :: "'j tl_env \<Rightarrow> nat \<Rightarrow> nat \<Rightarrow> 'j tl_st \<Rightarrow> 'j tl_st" where
  "stamp_tx env sid cid st =
     (let (now, t) = gettimeofday env (fst st) in upd_st sid cid (\<lambda>k. k\<lparr>tx_time := now\<rparr>) (t, snd st))"

definition stamp_poll :: "'j tl_env \<Rightarrow> nat \<Rightarrow> nat \<Rightarrow> 'j tl_st \<Rightarrow> 'j tl_st" where
  "stamp_poll env sid cid st =
     (let (now, t) = gettimeofday env (fst st) in upd_st sid cid (\<lambda>k. k\<lparr>last_poll_time := now\<rparr>) (t, snd st))"

definition st_conn :: "nat \<Rightarrow> nat \<Rightarrow> 'j tl_st \<Rightarrow> en50221_connection" where
  "st_conn sid cid st = conn_at (fst st) sid cid"

definition handle_create_tc_reply :: "'j tl_env \<Rightarrow> nat \<Rightarrow> nat \<Rightarrow> 'j tl_st \<Rightarrow> int \<times> 'j tl_st" where
  "handle_create_tc_reply env sid cid st =
     (if t_state (st_conn sid cid st) = T_STATE_IN_CREATION
      then (0, notify env (CONNECTIONOPEN sid cid) (upd_st sid cid (\<lambda>k. no_wait (k\<lparr>t_state := T_STATE_ACTIVE\<rparr>)) st))
      else tl_fail (int sid) EN50221ERR_BADCAMDATA st)"

definition handle_delete_tc :: "'j tl_env \<Rightarrow> nat \<Rightarrow> nat \<Rightarrow> 'j tl_st \<Rightarrow> int \<times> 'j tl_st" where
  "handle_delete_tc env sid cid st =
     (if t_state (st_conn sid cid st) \<in> {T_STATE_ACTIVE, T_STATE_IN_DELETION} then
        let st = upd_st sid cid (\<lambda>k. k\<lparr>t_state := T_STATE_IDLE, chain_buffer := None\<rparr>) st;
            (r, st) = tl_write env cid [T_D_T_C_REPLY, 1, word_of_nat cid] st
        in if r < 0 then tl_fail (int sid) EN50221ERR_CAWRITE st
           else (0, notify env (CONNECTIONCLOSE sid cid) st)
      else tl_fail (int sid) EN50221ERR_BADCAMDATA st)"

definition handle_delete_tc_reply :: "nat \<Rightarrow> nat \<Rightarrow> 'j tl_st \<Rightarrow> int \<times> 'j tl_st" where
  "handle_delete_tc_reply sid cid st =
     (if t_state (st_conn sid cid st) = T_STATE_IN_DELETION
      then (0, upd_st sid cid (\<lambda>k. k\<lparr>t_state := T_STATE_IDLE\<rparr>) st)
      else tl_fail (int sid) EN50221ERR_BADCAMDATA st)"

definition handle_request_tc :: "'j tl_env \<Rightarrow> nat \<Rightarrow> nat \<Rightarrow> 'j tl_st \<Rightarrow> int \<times> 'j tl_st" where
  "handle_request_tc env sid cid st =
     (case en50221_tl_alloc_new_tc sid (fst st) of
        None \<Rightarrow>
          let (r, st) = tl_write env cid [T_T_C_ERROR, 2, word_of_nat cid, 1] st
          in if r < 0 then tl_fail (int sid) EN50221ERR_CAWRITE st else (0, upd_st sid cid no_wait st)
      | Some (conid, t) \<Rightarrow>
          let (r, st) = tl_write env cid [T_NEW_T_C, 2, word_of_nat cid, word_of_nat conid] (t, snd st)
          in if r < 0
             then tl_fail (int sid) EN50221ERR_CAWRITE (upd_st sid conid (\<lambda>k. k\<lparr>t_state := T_STATE_IDLE\<rparr>) st)
             else
               let st = upd_st sid cid no_wait st;
                   (r, st) = tl_write env conid [T_CREATE_T_C, 1, word_of_nat conid] st
               in if r < 0
                  then tl_fail (int sid) EN50221ERR_CAWRITE (upd_st sid conid (\<lambda>k. k\<lparr>t_state := T_STATE_IDLE\<rparr>) st)
                  else (0, notify env (CAMCONNECTIONOPEN sid conid) (stamp_tx env sid conid st)))"

text \<open>
  \<open>realloc\<close> of an allocated buffer to size 0 frees it and returns NULL; the buffer pointer is then
  left dangling, which is the value \<open>None\<close>.
\<close>

definition chain_grow :: "byte list option \<Rightarrow> byte list \<Rightarrow> byte list option" where
  "chain_grow buf data =
     (case buf of None \<Rightarrow> Some data | Some b \<Rightarrow> if b @ data = [] then None else Some (b @ data))"

definition handle_data_more :: "nat \<Rightarrow> nat \<Rightarrow> byte list \<Rightarrow> 'j tl_st \<Rightarrow> (int \<times> 'j tl_st) option" where
  "handle_data_more sid cid data st =
     (if t_state (st_conn sid cid st) \<noteq> T_STATE_ACTIVE then Some (tl_fail (int sid) EN50221ERR_BADCAMDATA st)
      else
        let st = upd_st sid cid no_wait st
        in map_option (\<lambda>b. (0, upd_st sid cid (\<lambda>k. k\<lparr>chain_buffer := Some b\<rparr>) st))
             (chain_grow (chain_buffer (st_conn sid cid st)) data))"

definition handle_data_last :: "'j tl_env \<Rightarrow> nat \<Rightarrow> nat \<Rightarrow> byte list \<Rightarrow> 'j tl_st \<Rightarrow> (int \<times> 'j tl_st) option" where
  "handle_data_last env sid cid data st =
     (if t_state (st_conn sid cid st) \<noteq> T_STATE_ACTIVE then Some (tl_fail (int sid) EN50221ERR_BADCAMDATA st)
      else
        let st = upd_st sid cid no_wait st
        in (case chain_buffer (st_conn sid cid st) of
              None \<Rightarrow> Some (0, if data \<noteq> [] then notify env (T_DATA data sid cid) st else st)
            | Some b \<Rightarrow>
                map_option (\<lambda>whole.
                    let st = upd_st sid cid (\<lambda>k. k\<lparr>chain_buffer := None\<rparr>) st
                    in (0, if data \<noteq> [] then notify env (T_DATA whole sid cid) st else st))
                  (chain_grow (Some b) data)))"

definition handle_sb :: "'j tl_env \<Rightarrow> nat \<Rightarrow> nat \<Rightarrow> byte list \<Rightarrow> 'j tl_st \<Rightarrow> int \<times> 'j tl_st" where
  "handle_sb env sid cid data st =
     (if t_state (st_conn sid cid st) \<noteq> T_STATE_ACTIVE then tl_fail (int sid) EN50221ERR_BADCAMDATA st
      else if length data \<noteq> 1 then tl_fail (int sid) EN50221ERR_BADCAMDATA st
      else if data ! 0 AND 0x80 \<noteq> 0 then
        let (r, st) = tl_write env cid [T_RCV, 1, word_of_nat cid] st
        in if r < 0 then tl_fail (int sid) EN50221ERR_CAWRITE st else (0, stamp_tx env sid cid st)
      else (0, upd_st sid cid no_wait st))"

definition process_tpdu :: "'j tl_env \<Rightarrow> nat \<Rightarrow> byte \<Rightarrow> nat \<Rightarrow> byte list \<Rightarrow> 'j tl_st \<Rightarrow> (int \<times> 'j tl_st) option" where
  "process_tpdu env sid tag cid data st =
     (if tag = T_C_T_C_REPLY then Some (handle_create_tc_reply env sid cid st)
      else if tag = T_DELETE_T_C then Some (handle_delete_tc env sid cid st)
      else if tag = T_D_T_C_REPLY then Some (handle_delete_tc_reply sid cid st)
      else if tag = T_REQUEST_T_C then Some (handle_request_tc env sid cid st)
      else if tag = T_DATA_MORE then handle_data_more sid cid data st
      else if tag = T_DATA_LAST then handle_data_last env sid cid data st
      else if tag = T_SB then Some (handle_sb env sid cid data st)
      else Some (tl_fail (int sid) EN50221ERR_BADCAMDATA st))"

function en50221_tl_process_data :: "'j tl_env \<Rightarrow> nat \<Rightarrow> byte list \<Rightarrow> 'j tl_st \<Rightarrow> (int \<times> 'j tl_st) option" where
  "en50221_tl_process_data env sid data st =
     (if data = [] then Some (0, st)
      else
        (case asn_1_decode (drop 1 data) of
           None \<Rightarrow> Some (tl_fail (int sid) EN50221ERR_BADCAMDATA st)
         | Some (asn_data_length, n) \<Rightarrow>
             if asn_data_length < 1 \<or> unat asn_data_length > length data - (1 + n)
             then Some (tl_fail (int sid) EN50221ERR_BADCAMDATA st)
             else
               let cid = unat (data ! (1 + n));
                   rest = drop (1 + n + 1) data;
                   len = unat asn_data_length - 1
               in if cid \<ge> max_connections_per_slot (fst st)
                  then Some (tl_fail (int sid) EN50221ERR_BADCONNECTIONID st)
                  else
                    (case process_tpdu env sid (data ! 0) cid (take len rest) st of
                       None \<Rightarrow> None
                     | Some (r, st) \<Rightarrow>
                         if r < 0 then Some (- 1, st) else en50221_tl_process_data env sid (drop len rest) st)))"
  by pat_completeness auto
termination
  by (relation "measure (\<lambda>(env, sid, data, st). length data)") auto

declare en50221_tl_process_data.simps [simp del]

section \<open>Polling\<close>

text \<open>The branch of a slot that has something to read, or an error.\<close>

fun find_cam :: "nat \<Rightarrow> int \<Rightarrow> byte \<Rightarrow> en50221_slot list \<Rightarrow> nat option" where
  "find_cam i hndl r [] = None"
| "find_cam i hndl r (s # ss) = (if ca_hndl s = hndl \<and> cam_slot s = r then Some i else find_cam (i + 1) hndl r ss)"

definition poll_read :: "'j tl_env \<Rightarrow> nat \<Rightarrow> 'j tl_st \<Rightarrow> (int \<times> 'j tl_st) option" where
  "poll_read env sid st =
     (let re = revents (fst st) ! sid; sl = slots (fst st) ! sid
      in if re AND (POLLPRI OR POLLIN) \<noteq> 0 then
           (case link_read env 4096 (snd st) of
              None \<Rightarrow> None
            | Some (readcnt, r_slot, cid, data, j) \<Rightarrow>
                let st = (fst st, j)
                in if readcnt < 0 then Some (tl_fail (int sid) EN50221ERR_CAREAD st)
                   else if readcnt > 0 then
                     if cam_slot sl \<noteq> r_slot then
                       (case find_cam 0 (ca_hndl sl) r_slot (slots (fst st)) of
                          None \<Rightarrow> Some (- 1, (fst st)\<lparr>tl_error := EN50221ERR_BADSLOTID\<rparr>, j)
                        | Some sid' \<Rightarrow> en50221_tl_process_data env sid' (take (nat readcnt) data) st)
                     else en50221_tl_process_data env sid (take (nat readcnt) data) st
                   else Some (0, st))
         else if re AND POLLERR \<noteq> 0 then Some (tl_fail (int sid) EN50221ERR_CAREAD st)
         else Some (0, st))"

text \<open>A queued message: sent when no response is awaited, in the states that may send.\<close>

definition poll_send :: "'j tl_env \<Rightarrow> nat \<Rightarrow> nat \<Rightarrow> 'j tl_st \<Rightarrow> int \<times> 'j tl_st" where
  "poll_send env sid cid st =
     (let k = st_conn sid cid st
      in if t_state k \<in> {T_STATE_IN_CREATION, T_STATE_ACTIVE, T_STATE_ACTIVE_DELETEQUEUED} then
           (case send_queue k of
              msg # q \<Rightarrow>
                if \<not> waiting k then
                  let st = upd_st sid cid (\<lambda>k. k\<lparr>send_queue := q\<rparr>) st;
                      (r, st) = tl_write env cid msg st
                  in if r < 0 then tl_fail (int sid) EN50221ERR_CAWRITE st
                     else
                       let st = stamp_tx env sid cid st
                       in (0, if msg \<noteq> [] \<and> msg ! 0 = T_DELETE_T_C
                              then upd_st sid cid (\<lambda>k. k\<lparr>t_state := T_STATE_IN_DELETION, chain_buffer := None\<rparr>) st
                              else st)
                else (0, st)
            | [] \<Rightarrow> (0, st))
         else (0, st))"

definition en50221_tl_poll_tc :: "'j tl_env \<Rightarrow> nat \<Rightarrow> nat \<Rightarrow> 'j tl_st \<Rightarrow> int \<times> 'j tl_st" where
  "en50221_tl_poll_tc env sid cid st =
     (let (r, st) = tl_write env cid [T_DATA_LAST, 1, word_of_nat cid] (stamp_tx env sid cid st)
      in if r < 0 then tl_fail (int sid) EN50221ERR_CAWRITE st else (0, st))"

text \<open>The clock is read only when the condition before it holds.\<close>

definition poll_idle :: "'j tl_env \<Rightarrow> nat \<Rightarrow> nat \<Rightarrow> 'j tl_st \<Rightarrow> int \<times> 'j tl_st" where
  "poll_idle env sid cid st =
     (let k = st_conn sid cid st
      in if t_state k = T_STATE_ACTIVE \<and> \<not> waiting k then
           let (now, t) = gettimeofday env (fst st); st = (t, snd st)
           in if time_after (last_poll_time k) (poll_delay (slots t ! sid)) now
              then en50221_tl_poll_tc env sid cid (stamp_poll env sid cid st)
              else (0, st)
         else (0, st))"

definition poll_timeout :: "'j tl_env \<Rightarrow> nat \<Rightarrow> nat \<Rightarrow> 'j tl_st \<Rightarrow> int \<times> 'j tl_st" where
  "poll_timeout env sid cid st =
     (let k = st_conn sid cid st
      in if waiting k then
           let (now, t) = gettimeofday env (fst st); st = (t, snd st)
           in if time_after (tx_time k) (response_timeout (slots t ! sid)) now then
                if t_state k \<in> {T_STATE_IN_CREATION, T_STATE_IN_DELETION}
                then (0, upd_st sid cid (\<lambda>k. k\<lparr>t_state := T_STATE_IDLE\<rparr>) st)
                else if t_state k \<in> {T_STATE_ACTIVE, T_STATE_ACTIVE_DELETEQUEUED}
                then tl_fail (int sid) EN50221ERR_TIMEOUT st
                else (0, st)
              else (0, st)
         else (0, st))"

definition poll_conn :: "'j tl_env \<Rightarrow> nat \<Rightarrow> nat \<Rightarrow> 'j tl_st \<Rightarrow> int \<times> 'j tl_st" where
  "poll_conn env sid cid st =
     (if t_state (st_conn sid cid st) = T_STATE_IDLE then (0, st)
      else
        let (r, st) = poll_send env sid cid st
        in if r < 0 then (- 1, st)
           else
             let (r, st) = poll_idle env sid cid st
             in if r < 0 then (- 1, st) else poll_timeout env sid cid st)"

fun poll_conns :: "'j tl_env \<Rightarrow> nat \<Rightarrow> nat list \<Rightarrow> 'j tl_st \<Rightarrow> int \<times> 'j tl_st" where
  "poll_conns env sid [] st = (0, st)"
| "poll_conns env sid (c # cs) st =
     (let (r, st) = poll_conn env sid c st in if r < 0 then (- 1, st) else poll_conns env sid cs st)"

fun poll_slots :: "'j tl_env \<Rightarrow> nat list \<Rightarrow> 'j tl_st \<Rightarrow> (int \<times> 'j tl_st) option" where
  "poll_slots env [] st = Some (0, st)"
| "poll_slots env (s # ss) st =
     (if ca_hndl (slots (fst st) ! s) = - 1 then poll_slots env ss st
      else
        (case poll_read env s st of
           None \<Rightarrow> None
         | Some (r, st) \<Rightarrow>
             if r < 0 then Some (- 1, st)
             else
               let (r, st) = poll_conns env s [0..<max_connections_per_slot (fst st)] st
               in if r < 0 then Some (- 1, st) else poll_slots env ss st))"

definition en50221_tl_poll :: "'j tl_env \<Rightarrow> 'j tl_st \<Rightarrow> (int \<times> 'j tl_st) option" where
  "en50221_tl_poll env st =
     (case st of (t, j) \<Rightarrow>
        let t = (if slots_changed t then t\<lparr>revents := replicate (max_slots t) 0, slots_changed := False\<rparr> else t);
            (ret, re, j) = ll_poll env (revents t) j;
            t = t\<lparr>revents := re\<rparr>
        in if ret < 0 then Some (- 1, t\<lparr>tl_error_slot := - 1, tl_error := EN50221ERR_CAREAD\<rparr>, j)
           else poll_slots env [0..<max_slots t] (t, j))"

text \<open>
  The environment of the program: the poll and the link layer of \<open>joker_en50221.c\<close>. A copy outside
  of an array in the link layer, or reading that never ends, is no result.
\<close>

definition joker_env ::
  "'d usb_dev \<Rightarrow> (nat \<Rightarrow> int \<times> int) \<Rightarrow> byte list \<Rightarrow> (tl_event \<Rightarrow> ('d, 'z) joker_ci_h_scheme tl_st \<Rightarrow> ('d, 'z) joker_ci_h_scheme tl_st)
    \<Rightarrow> ('d, 'z) joker_ci_h_scheme tl_env" where
  "joker_env dev clock undef cb =
     \<lparr>link_write = dvbca_link_write dev,
      link_read = (\<lambda>n j. case dvbca_link_read dev n undef 0 j of
                            Some (link_done r c d j) \<Rightarrow> Some (r, 0, c, d, j)
                          | _ \<Rightarrow> None),
      ll_poll = (\<lambda>re j. let (r, j) = joker_ci_poll dev 10 j
                        in (r, re[0 := (if r = 1 then POLLPRI OR POLLIN else 0)], j)),
      tl_clock = clock, tl_cb = cb\<rparr>"

end
