(* ===== verification/Session.thy ===== *)
theory Session
  imports Transport
begin

text \<open>
  The session layer of the EN 50221 stack, \<open>3party/libdvben50221/en50221_session.c\<close>. Its state lies
  between the transport layer and what is below and above of both: the callbacks of the upper layer,
  which may change everything, are the fields of \<open>sl_env\<close>. A resource callback and its argument are
  the program's name for it, \<open>en_handler\<close>. Locks make each operation one step and allocation succeeds; messages are left out.
\<close>

section \<open>State\<close>

abbreviation (input) S_STATUS_OPEN :: int where "S_STATUS_OPEN \<equiv> 0x00"
abbreviation (input) S_STATUS_CLOSE_NO_RES :: int where "S_STATUS_CLOSE_NO_RES \<equiv> 0xF0"
abbreviation (input) S_STATUS_CLOSE_RES_UNAVAILABLE :: int where "S_STATUS_CLOSE_RES_UNAVAILABLE \<equiv> 0xF1"
abbreviation (input) S_STATUS_CLOSE_RES_LOW_VERSION :: int where "S_STATUS_CLOSE_RES_LOW_VERSION \<equiv> 0xF2"
abbreviation (input) S_STATUS_CLOSE_RES_BUSY :: int where "S_STATUS_CLOSE_RES_BUSY \<equiv> 0xF3"

abbreviation (input) ST_SESSION_NUMBER :: byte where "ST_SESSION_NUMBER \<equiv> 0x90"
abbreviation (input) ST_OPEN_SESSION_REQ :: byte where "ST_OPEN_SESSION_REQ \<equiv> 0x91"
abbreviation (input) ST_OPEN_SESSION_RES :: byte where "ST_OPEN_SESSION_RES \<equiv> 0x92"
abbreviation (input) ST_CREATE_SESSION :: byte where "ST_CREATE_SESSION \<equiv> 0x93"
abbreviation (input) ST_CREATE_SESSION_RES :: byte where "ST_CREATE_SESSION_RES \<equiv> 0x94"
abbreviation (input) ST_CLOSE_SESSION_REQ :: byte where "ST_CLOSE_SESSION_REQ \<equiv> 0x95"
abbreviation (input) ST_CLOSE_SESSION_RES :: byte where "ST_CLOSE_SESSION_RES \<equiv> 0x96"

abbreviation (input) EN50221ERR_BADSESSIONNUMBER :: int where "EN50221ERR_BADSESSIONNUMBER \<equiv> - 13"
abbreviation (input) EN50221ERR_OUTOFSESSIONS :: int where "EN50221ERR_OUTOFSESSIONS \<equiv> - 14"
abbreviation (input) EN50221ERR_IOVLIMIT :: int where "EN50221ERR_IOVLIMIT \<equiv> - 12"

datatype sess_state = S_STATE_IDLE | S_STATE_ACTIVE | S_STATE_IN_CREATION | S_STATE_IN_DELETION

record en50221_session =
  sn_state :: sess_state
  sn_resource_id :: u32
  sn_slot :: nat
  sn_conn :: nat
  sn_callback :: "en_handler option"

text \<open>\<open>lookup_set\<close> and \<open>session_set\<close>: whether the callback is registered.\<close>

record en50221_session_layer =
  max_sessions :: nat
  sessions :: "en50221_session list"
  sl_error :: int
  lookup_set :: bool
  session_set :: bool

type_synonym 'k sl_st = "(en50221_session_layer \<times> 'k) tl_st"

text \<open>
  \<open>sl_lookup\<close> gives the result, the callback and the identifier of the resource that is connected;
  \<open>sl_junk\<close> is that variable when nothing was looked up.
\<close>

record 'k sl_env =
  sl_lookup :: "nat \<Rightarrow> u32 \<Rightarrow> 'k sl_st \<Rightarrow> int \<times> en_handler option \<times> u32 \<times> 'k sl_st"
  sl_session :: "session_reason \<Rightarrow> nat \<Rightarrow> nat \<Rightarrow> u32 \<Rightarrow> 'k sl_st \<Rightarrow> int \<times> 'k sl_st"
  sl_resource :: "en_handler \<Rightarrow> nat \<Rightarrow> nat \<Rightarrow> u32 \<Rightarrow> byte list \<Rightarrow> 'k sl_st \<Rightarrow> 'k sl_st"
  sl_junk :: u32

definition slayer :: "'k sl_st \<Rightarrow> en50221_session_layer" where
  "slayer st = fst (snd st)"

definition set_slayer :: "(en50221_session_layer \<Rightarrow> en50221_session_layer) \<Rightarrow> 'k sl_st \<Rightarrow> 'k sl_st" where
  "set_slayer f st = (fst st, f (fst (snd st)), snd (snd st))"

definition sess_at :: "nat \<Rightarrow> 'k sl_st \<Rightarrow> en50221_session" where
  "sess_at n st = sessions (slayer st) ! n"

definition upd_sess :: "nat \<Rightarrow> (en50221_session \<Rightarrow> en50221_session) \<Rightarrow> 'k sl_st \<Rightarrow> 'k sl_st" where
  "upd_sess n f st = set_slayer (\<lambda>l. l\<lparr>sessions := (sessions l)[n := f (sessions l ! n)]\<rparr>) st"

definition set_sl_error :: "int \<Rightarrow> 'k sl_st \<Rightarrow> 'k sl_st" where
  "set_sl_error e st = set_slayer (\<lambda>l. l\<lparr>sl_error := e\<rparr>) st"

definition en50221_sl_create :: "nat \<Rightarrow> en50221_session \<Rightarrow> en50221_session_layer" where
  "en50221_sl_create n junk =
     \<lparr>max_sessions = n, sessions = replicate n (junk\<lparr>sn_state := S_STATE_IDLE, sn_callback := None\<rparr>),
      sl_error = 0, lookup_set = False, session_set = False\<rparr>"

text \<open>The callback of the upper layer, when it is registered.\<close>

definition inform :: "'k sl_env \<Rightarrow> session_reason \<Rightarrow> nat \<Rightarrow> nat \<Rightarrow> u32 \<Rightarrow> 'k sl_st \<Rightarrow> 'k sl_st" where
  "inform env reason slot n res st =
     (if session_set (slayer st) then snd (sl_session env reason slot n res st) else st)"

section \<open>Numbers in messages\<close>

definition res_bytes :: "u32 \<Rightarrow> byte list" where
  "res_bytes r = [ucast (drop_bit 24 r), ucast (drop_bit 16 r), ucast (drop_bit 8 r), ucast r]"

definition num_bytes :: "int \<Rightarrow> byte list" where
  "num_bytes n = [word_of_int (drop_bit 8 n), word_of_int n]"

definition num_of :: "byte \<Rightarrow> byte \<Rightarrow> nat" where
  "num_of hi lo = unat (push_bit 8 (ucast hi) OR ucast lo :: u16)"

definition res_of :: "byte \<Rightarrow> byte \<Rightarrow> byte \<Rightarrow> byte \<Rightarrow> u32" where
  "res_of a b c d = push_bit 24 (ucast a) OR push_bit 16 (ucast b) OR push_bit 8 (ucast c) OR ucast d"

section \<open>Requests of the upper layer\<close>

text \<open>The search for an idle session starts at 1.\<close>

fun idle_sess :: "nat \<Rightarrow> en50221_session list \<Rightarrow> nat option" where
  "idle_sess i [] = None"
| "idle_sess i (s # ss) = (if sn_state s = S_STATE_IDLE then Some i else idle_sess (i + 1) ss)"

definition en50221_sl_alloc_new_session ::
  "u32 \<Rightarrow> nat \<Rightarrow> nat \<Rightarrow> en_handler option \<Rightarrow> 'k sl_st \<Rightarrow> nat option \<times> 'k sl_st" where
  "en50221_sl_alloc_new_session res slot conn cb st =
     (case idle_sess 1 (drop 1 (sessions (slayer st))) of
        None \<Rightarrow> (None, set_sl_error EN50221ERR_OUTOFSESSIONS st)
      | Some n \<Rightarrow>
          (Some n, upd_sess n (\<lambda>_. \<lparr>sn_state = S_STATE_IN_CREATION, sn_resource_id = res, sn_slot = slot, sn_conn = conn,
                                     sn_callback = cb\<rparr>) st))"

definition sl_send :: "nat \<Rightarrow> nat \<Rightarrow> byte list \<Rightarrow> 'k sl_st \<Rightarrow> int \<times> 'k sl_st" where
  "sl_send slot conn msg st = (let (r, t) = en50221_tl_send_data slot conn msg (fst st) in (r, t, snd st))"

definition sl_sendv :: "nat \<Rightarrow> nat \<Rightarrow> byte list list \<Rightarrow> 'k sl_st \<Rightarrow> int \<times> 'k sl_st" where
  "sl_sendv slot conn vector st = (let (r, t) = en50221_tl_send_datav slot conn vector (fst st) in (r, t, snd st))"

definition tl_failed :: "'k sl_st \<Rightarrow> int \<times> 'k sl_st" where
  "tl_failed st = (- 1, set_sl_error (tl_error (fst st)) st)"

definition en50221_sl_create_session ::
  "nat \<Rightarrow> nat \<Rightarrow> u32 \<Rightarrow> en_handler option \<Rightarrow> 'k sl_st \<Rightarrow> int \<times> 'k sl_st" where
  "en50221_sl_create_session slot conn res cb st =
     (case en50221_sl_alloc_new_session res slot conn cb st of
        (None, st) \<Rightarrow> (- 1, st)
      | (Some n, st) \<Rightarrow>
          let (r, st) = sl_send slot conn ([ST_CREATE_SESSION, 6] @ res_bytes res @ num_bytes (int n)) st
          in if r \<noteq> 0 then
               tl_failed (if sn_state (sess_at n st) = S_STATE_IN_CREATION
                          then upd_sess n (\<lambda>s. s\<lparr>sn_state := S_STATE_IDLE\<rparr>) st else st)
             else (int n, st))"

definition en50221_sl_destroy_session :: "nat \<Rightarrow> 'k sl_st \<Rightarrow> int \<times> 'k sl_st" where
  "en50221_sl_destroy_session n st =
     (if n \<ge> max_sessions (slayer st) then (- 1, set_sl_error EN50221ERR_BADSESSIONNUMBER st)
      else if sn_state (sess_at n st) \<notin> {S_STATE_ACTIVE, S_STATE_IN_DELETION}
      then (- 1, set_sl_error EN50221ERR_BADSESSIONNUMBER st)
      else
        let st = upd_sess n (\<lambda>s. s\<lparr>sn_state := S_STATE_IN_DELETION\<rparr>) st;
            (r, st) = sl_send (sn_slot (sess_at n st)) (sn_conn (sess_at n st)) ([ST_CLOSE_SESSION_REQ, 2] @ num_bytes (int n)) st
        in if r \<noteq> 0 then
             tl_failed (if sn_state (sess_at n st) = S_STATE_IN_DELETION
                        then upd_sess n (\<lambda>s. s\<lparr>sn_state := S_STATE_IDLE\<rparr>) st else st)
           else (0, st))"

definition en50221_sl_send_data :: "nat \<Rightarrow> byte list \<Rightarrow> 'k sl_st \<Rightarrow> int \<times> 'k sl_st" where
  "en50221_sl_send_data n data st =
     (if n \<ge> max_sessions (slayer st) then (- 1, set_sl_error EN50221ERR_BADSESSIONNUMBER st)
      else if sn_state (sess_at n st) \<noteq> S_STATE_ACTIVE then (- 1, set_sl_error EN50221ERR_BADSESSIONNUMBER st)
      else
        let (r, st) = sl_sendv (sn_slot (sess_at n st)) (sn_conn (sess_at n st))
                        [[ST_SESSION_NUMBER, 2] @ num_bytes (int n), data] st
        in if r \<noteq> 0 then tl_failed st else (0, st))"

definition en50221_sl_send_datav :: "nat \<Rightarrow> byte list list \<Rightarrow> 'k sl_st \<Rightarrow> int \<times> 'k sl_st" where
  "en50221_sl_send_datav n vector st =
     (if n \<ge> max_sessions (slayer st) then (- 1, set_sl_error EN50221ERR_BADSESSIONNUMBER st)
      else if sn_state (sess_at n st) \<noteq> S_STATE_ACTIVE then (- 1, set_sl_error EN50221ERR_BADSESSIONNUMBER st)
      else if length vector > 9 then (- 1, set_sl_error EN50221ERR_IOVLIMIT st)
      else
        let (r, st) = sl_sendv (sn_slot (sess_at n st)) (sn_conn (sess_at n st))
                        (([ST_SESSION_NUMBER, 2] @ num_bytes (int n)) # vector) st
        in if r \<noteq> 0 then tl_failed st else (0, st))"

text \<open>\<open>slot = None\<close> is the slot -1: all slots.\<close>

fun broadcast_loop :: "nat option \<Rightarrow> u32 \<Rightarrow> byte list \<Rightarrow> nat list \<Rightarrow> 'k sl_st \<Rightarrow> 'k sl_st" where
  "broadcast_loop slot res data [] st = st"
| "broadcast_loop slot res data (i # is) st =
     (let s = sess_at i st
      in if sn_state s \<noteq> S_STATE_ACTIVE then broadcast_loop slot res data is st
         else if slot \<noteq> None \<and> slot \<noteq> Some (sn_slot s) then broadcast_loop slot res data is st
         else broadcast_loop slot res data is
                (if sn_resource_id s = res then snd (en50221_sl_send_data i data st) else st))"

definition en50221_sl_broadcast_data :: "nat option \<Rightarrow> u32 \<Rightarrow> byte list \<Rightarrow> 'k sl_st \<Rightarrow> int \<times> 'k sl_st" where
  "en50221_sl_broadcast_data slot res data st =
     (0, broadcast_loop slot res data [0..<max_sessions (slayer st)] st)"

section \<open>SPDUs from the module\<close>

definition lookup_status :: "int \<Rightarrow> int" where
  "lookup_status r =
     (if r = 0 then S_STATUS_OPEN else if r = - 1 then S_STATUS_CLOSE_NO_RES
      else if r = - 2 then S_STATUS_CLOSE_RES_LOW_VERSION else if r = - 3 then S_STATUS_CLOSE_RES_UNAVAILABLE else r)"

text \<open>The session for a resource that was found, and the answer of the upper layer.\<close>

definition open_session ::
  "'k sl_env \<Rightarrow> int \<Rightarrow> en_handler option \<Rightarrow> u32 \<Rightarrow> nat \<Rightarrow> nat \<Rightarrow> 'k sl_st \<Rightarrow> int \<times> nat option \<times> 'k sl_st" where
  "open_session env status cb res slot conn st =
     (if status \<noteq> S_STATUS_OPEN then (status, None, st)
      else
        (case en50221_sl_alloc_new_session res slot conn cb st of
           (None, st) \<Rightarrow> (S_STATUS_CLOSE_NO_RES, None, st)
         | (Some n, st) \<Rightarrow>
             if session_set (slayer st) then
               let (r, st) = sl_session env CAMCONNECTING slot n res st
               in (if r \<noteq> 0 then S_STATUS_CLOSE_RES_BUSY else status, Some n, st)
             else (S_STATUS_CLOSE_RES_UNAVAILABLE, Some n, st)))"

definition finish_open :: "'k sl_env \<Rightarrow> int \<Rightarrow> nat \<Rightarrow> nat \<Rightarrow> u32 \<Rightarrow> 'k sl_st \<Rightarrow> 'k sl_st" where
  "finish_open env status n slot res st =
     (let st = upd_sess n (\<lambda>s. s\<lparr>sn_state := (if status \<noteq> S_STATUS_OPEN then S_STATE_IDLE else S_STATE_ACTIVE)\<rparr>) st
      in if sn_state (sess_at n st) = S_STATE_ACTIVE then
           if status = S_STATUS_OPEN then inform env CAMCONNECTED slot n res st
           else inform env CAMCONNECTFAIL slot n res (upd_sess n (\<lambda>s. s\<lparr>sn_state := S_STATE_IDLE\<rparr>) st)
         else st)"

definition handle_open_session_request :: "'k sl_env \<Rightarrow> byte list \<Rightarrow> nat \<Rightarrow> nat \<Rightarrow> 'k sl_st \<Rightarrow> 'k sl_st" where
  "handle_open_session_request env data slot conn st =
     (if length data < 5 then st
      else if data ! 0 \<noteq> 4 then st
      else
        let req = res_of (data ! 1) (data ! 2) (data ! 3) (data ! 4);
            (status, cb, res, st) =
              (if lookup_set (slayer st) then
                 let (r, cb, res, st) = sl_lookup env slot req st in (lookup_status r, cb, res, st)
               else (S_STATUS_CLOSE_NO_RES, None, sl_junk env, st));
            (status, num, st) = open_session env status cb res slot conn st;
            nb = (case num of None \<Rightarrow> - 1 | Some n \<Rightarrow> int n);
            (r, st) = sl_send slot conn ([ST_OPEN_SESSION_RES, 7, word_of_int status] @ res_bytes res @ num_bytes nb) st;
            status = (if r \<noteq> 0 then S_STATUS_CLOSE_NO_RES else status)
        in (case num of None \<Rightarrow> st | Some n \<Rightarrow> finish_open env status n slot res st))"

definition handle_close_session_request :: "'k sl_env \<Rightarrow> byte list \<Rightarrow> nat \<Rightarrow> nat \<Rightarrow> 'k sl_st \<Rightarrow> 'k sl_st" where
  "handle_close_session_request env data slot conn st =
     (if length data < 3 then st
      else if data ! 0 \<noteq> 2 then st
      else
        let n = num_of (data ! 1) (data ! 2);
            s = sess_at n st;
            ok = (n < max_sessions (slayer st) \<and> slot = sn_slot s \<and> conn = sn_conn s
                  \<and> sn_state s \<in> {S_STATE_ACTIVE, S_STATE_IN_DELETION});
            code = (if ok then 0x00 else 0xF0);
            res = (if n < max_sessions (slayer st) then sn_resource_id s else 0);
            st = (if ok then upd_sess n (\<lambda>s. s\<lparr>sn_state := S_STATE_IDLE\<rparr>) st else st);
            (_, st) = sl_send slot conn ([ST_CLOSE_SESSION_RES, 3, code] @ num_bytes (int n)) st
        in if code = 0x00 then inform env CLOSE slot n res st else st)"

text \<open>The session of a message from the module, when it is in the state.\<close>

definition sess_ok :: "nat \<Rightarrow> sess_state \<Rightarrow> nat \<Rightarrow> nat \<Rightarrow> 'k sl_st \<Rightarrow> bool" where
  "sess_ok n s slot conn st \<longleftrightarrow> n < max_sessions (slayer st) \<and> slot = sn_slot (sess_at n st) \<and> conn = sn_conn (sess_at n st)
     \<and> sn_state (sess_at n st) = s"

definition handle_create_session_response :: "'k sl_env \<Rightarrow> byte list \<Rightarrow> nat \<Rightarrow> nat \<Rightarrow> 'k sl_st \<Rightarrow> 'k sl_st" where
  "handle_create_session_response env data slot conn st =
     (if length data < 8 then st
      else if data ! 0 \<noteq> 7 then st
      else
        let n = num_of (data ! 5) (data ! 6)
        in if \<not> sess_ok n S_STATE_IN_CREATION slot conn st then st
           else if data ! 1 \<noteq> 0 then
             let st = upd_sess n (\<lambda>s. s\<lparr>sn_state := S_STATE_IDLE\<rparr>) st
             in inform env CONNECTFAIL slot n (sn_resource_id (sess_at n st)) st
           else
             let st = upd_sess n (\<lambda>s. s\<lparr>sn_state := S_STATE_ACTIVE\<rparr>) st
             in inform env CONNECTED slot n (sn_resource_id (sess_at n st)) st)"

definition handle_close_session_response :: "byte list \<Rightarrow> nat \<Rightarrow> nat \<Rightarrow> 'k sl_st \<Rightarrow> 'k sl_st" where
  "handle_close_session_response data slot conn st =
     (if length data < 5 then st
      else if data ! 0 \<noteq> 4 then st
      else
        let n = num_of (data ! 2) (data ! 3)
        in if \<not> sess_ok n S_STATE_IN_DELETION slot conn st then st
           else upd_sess n (\<lambda>s. s\<lparr>sn_state := S_STATE_IDLE\<rparr>) st)"

text \<open>The APDUs of a session package, each with its tag and length field.\<close>

function apdu_loop ::
  "'k sl_env \<Rightarrow> en_handler option \<Rightarrow> nat \<Rightarrow> nat \<Rightarrow> u32 \<Rightarrow> byte list \<Rightarrow> 'k sl_st \<Rightarrow> 'k sl_st" where
  "apdu_loop env cb slot n res data st =
     (if data = [] then st
      else if length data < 3 then st
      else
        (case asn_1_decode (drop 3 data) of
           None \<Rightarrow> st
         | Some (asn_data_length, k) \<Rightarrow>
             let apdu_length = 3 + k + unat asn_data_length
             in if apdu_length > length data then st
                else
                  let st = (case cb of None \<Rightarrow> st | Some c \<Rightarrow> sl_resource env c slot n res (take apdu_length data) st)
                  in apdu_loop env cb slot n res (drop apdu_length data) st))"
  by pat_completeness auto
termination
  by (relation "measure (\<lambda>(env, cb, slot, n, res, data, st). length data)") auto

declare apdu_loop.simps [simp del]

definition handle_session_package :: "'k sl_env \<Rightarrow> byte list \<Rightarrow> nat \<Rightarrow> nat \<Rightarrow> 'k sl_st \<Rightarrow> 'k sl_st" where
  "handle_session_package env data slot conn st =
     (if length data < 3 then st
      else if data ! 0 \<noteq> 2 then st
      else
        let n = num_of (data ! 1) (data ! 2)
        in if \<not> sess_ok n S_STATE_ACTIVE slot conn st then st
           else apdu_loop env (sn_callback (sess_at n st)) slot n (sn_resource_id (sess_at n st)) (drop 3 data) st)"

section \<open>Events of the transport layer\<close>

text \<open>A closed connection is compared by its number only, whatever slot it is on.\<close>

fun close_loop :: "'k sl_env \<Rightarrow> (en50221_session \<Rightarrow> bool) \<Rightarrow> nat list \<Rightarrow> 'k sl_st \<Rightarrow> 'k sl_st" where
  "close_loop env closes [] st = st"
| "close_loop env closes (i # is) st =
     (let s = sess_at i st
      in if sn_state s = S_STATE_IDLE then close_loop env closes is st
         else if \<not> closes s then close_loop env closes is st
         else close_loop env closes is
                (inform env CLOSE (sn_slot s) i (sn_resource_id s) (upd_sess i (\<lambda>s. s\<lparr>sn_state := S_STATE_IDLE\<rparr>) st)))"

definition spdu :: "'k sl_env \<Rightarrow> byte list \<Rightarrow> nat \<Rightarrow> nat \<Rightarrow> 'k sl_st \<Rightarrow> 'k sl_st" where
  "spdu env data slot conn st =
     (if data = [] then st
      else if data ! 0 = ST_OPEN_SESSION_REQ then handle_open_session_request env (drop 1 data) slot conn st
      else if data ! 0 = ST_CLOSE_SESSION_REQ then handle_close_session_request env (drop 1 data) slot conn st
      else if data ! 0 = ST_SESSION_NUMBER then handle_session_package env (drop 1 data) slot conn st
      else if data ! 0 = ST_CREATE_SESSION_RES then handle_create_session_response env (drop 1 data) slot conn st
      else if data ! 0 = ST_CLOSE_SESSION_RES then handle_close_session_response (drop 1 data) slot conn st
      else st)"

definition en50221_sl_transport_callback :: "'k sl_env \<Rightarrow> tl_event \<Rightarrow> 'k sl_st \<Rightarrow> 'k sl_st" where
  "en50221_sl_transport_callback env ev st =
     (case ev of
        CONNECTIONOPEN slot conn \<Rightarrow> inform env TC_CONNECT slot conn 0 st
      | CAMCONNECTIONOPEN slot conn \<Rightarrow> inform env TC_CAMCONNECT slot conn 0 st
      | CONNECTIONCLOSE slot conn \<Rightarrow> close_loop env (\<lambda>s. sn_conn s = conn) [0..<max_sessions (slayer st)] st
      | SLOTCLOSE slot \<Rightarrow> close_loop env (\<lambda>s. sn_slot s = slot) [0..<max_sessions (slayer st)] st
      | T_DATA data slot conn \<Rightarrow> spdu env data slot conn st)"

section \<open>The stack of the program\<close>

text \<open>The layer as the callback of the transport layer, over a link \<open>e\<close>.\<close>

definition stack_env :: "'k tl_env \<Rightarrow> 'k sl_env \<Rightarrow> (en50221_session_layer \<times> 'k) tl_env" where
  "stack_env e env =
     \<lparr>link_write = (\<lambda>c b (l, k). let (r, k) = link_write e c b k in (r, l, k)),
      link_read = (\<lambda>n (l, k). map_option (\<lambda>(r, s, c, d, k). (r, s, c, d, l, k)) (link_read e n k)),
      ll_poll = (\<lambda>re (l, k). let (r, re, k) = ll_poll e re k in (r, re, l, k)),
      tl_clock = tl_clock e, tl_cb = en50221_sl_transport_callback env\<rparr>"

text \<open>The callbacks of the program; \<open>app\<close> is what its resource callbacks do with an APDU.\<close>

definition prog_sl_env ::
  "en_lib \<Rightarrow> (en_handler \<Rightarrow> nat \<Rightarrow> nat \<Rightarrow> u32 \<Rightarrow> byte list \<Rightarrow> ('d, 'z) joker_en_h_scheme sl_st \<Rightarrow> ('d, 'z) joker_en_h_scheme sl_st)
    \<Rightarrow> u32 \<Rightarrow> ('d, 'z) joker_en_h_scheme sl_env" where
  "prog_sl_env lib app junk =
     \<lparr>sl_lookup = (\<lambda>slot req st.
        let (r, x) = test_lookup_callback (snd (snd st)) req
        in (r, map_option fst x, (case x of None \<Rightarrow> junk | Some (h, res) \<Rightarrow> res), st)),
      sl_session = (\<lambda>reason slot n res st.
        let (r, j) = test_session_callback lib reason (int n) res (snd (snd st)) in (r, fst st, fst (snd st), j)),
      sl_resource = app, sl_junk = junk\<rparr>"

end
