(* ===== verification/TransportProps.thy ===== *)
theory TransportProps
  imports Transport
begin

text \<open>Properties of \<open>Transport\<close>: the codec of the length fields, the framing and chaining of TPDUs, the
  life of a connection, and the layer over the link layer of the program.\<close>

section \<open>Length fields\<close>

lemma unat_ucast_byte: "unat (ucast (w :: u16) :: byte) = unat w mod 256"
  by (simp add: unsigned_ucast_eq take_bit_eq_mod)

lemma unat_and_7f: "unat (l :: u16) < 128 \<Longrightarrow> l AND 0x7f = l"
  using less_mask_eq [of l 7] by (simp add: word_less_nat_alt mask_eq_exp_minus_1)

lemma ucast_up_down: "unat (l :: u16) < 256 \<Longrightarrow> ucast (ucast l :: byte) = l"
  by (rule word_unat_eq_iff [THEN iffD2]) (simp add: unsigned_ucast_eq take_bit_eq_mod unat_mod)

lemma word16_bytes: "push_bit 8 (ucast (ucast (drop_bit 8 l) :: byte)) OR ucast (ucast l :: byte) = (l :: u16)"
  by (rule bit_word_eqI) (auto simp: bit_simps)

lemma asn_1_encode_total: "\<exists>f. asn_1_encode l 3 = Some f \<and> 1 \<le> length f \<and> length f \<le> 3"
  by (simp add: asn_1_encode_def)

lemma asn_1_decode_encode:
  assumes "asn_1_encode l 3 = Some f"
  shows "asn_1_decode (f @ rest) = Some (l, length f)"
proof -
  consider "unat l < 128" | "128 \<le> unat l" "unat l < 256" | "256 \<le> unat l" by linarith
  then show ?thesis
  proof cases
    case 1
    then have "unat (ucast l :: byte) < 128" by (simp add: unat_ucast_byte)
    then have "(ucast l :: byte) < 0x80" "(ucast l :: byte) AND 0x7f = ucast l"
      using less_mask_eq [of "ucast l :: byte" 7] by (simp_all add: word_less_nat_alt mask_eq_exp_minus_1)
    with 1 assms show ?thesis
      by (auto simp: asn_1_encode_def asn_1_decode_def word_less_nat_alt unat_and_7f ucast_up_down)
  next
    case 2
    with assms show ?thesis
      by (auto simp: asn_1_encode_def asn_1_decode_def word_less_nat_alt ucast_up_down)
  next
    case 3
    with assms show ?thesis
      by (auto simp: asn_1_encode_def asn_1_decode_def word_less_nat_alt word16_bytes)
  qed
qed

text \<open>asn_1_roundtrip: the length field that is written into three bytes exists for every length and is read
  back with its size, whatever follows it.\<close>

theorem asn_1_roundtrip:
  "\<exists>f. asn_1_encode l 3 = Some f \<and> length f \<le> 3 \<and> asn_1_decode (f @ rest) = Some (l, length f)"
  using asn_1_encode_total [of l] asn_1_decode_encode by blast

text \<open>A link that accepts and records everything and brings nothing, and a layer with one slot, for the examples.\<close>

definition demo_env :: "byte list list tl_env" where
  "demo_env = \<lparr>link_write = \<lambda>_ b j. (0, j @ [b]), link_read = \<lambda>_ j. Some (0, 0, 0, [], j), ll_poll = \<lambda>re j. (0, re, j),
     tl_clock = \<lambda>_. (1, 0), tl_cb = \<lambda>_ st. st\<rparr>"

lemma demo_env_simps [simp]: "link_write demo_env c b j = (0, j @ [b])" "tl_clock demo_env n = (1, 0)" "tl_cb demo_env ev st = st"
  by (simp_all add: demo_env_def)

definition demo_tl :: "en50221_connection \<Rightarrow> en50221_transport_layer" where
  "demo_tl k = \<lparr>max_slots = 1, max_connections_per_slot = 2,
     slots = [\<lparr>ca_hndl = 3, cam_slot = 0, conns = [zero_conn, k], response_timeout = 1000, poll_delay = 100\<rparr>],
     revents = [0], slots_changed = False, tl_error = 0, tl_error_slot = 0, tl_callback = True, tl_reads = 0\<rparr>"

section \<open>The arrays of the layer\<close>

definition tl_wf :: "en50221_transport_layer \<Rightarrow> bool" where
  "tl_wf t \<longleftrightarrow> length (revents t) = max_slots t \<and> max_connections_per_slot t < 256
     \<and> map (\<lambda>s. length (conns s)) (slots t) = replicate (max_slots t) (max_connections_per_slot t)"

lemma tl_wf_lengths:
  assumes "tl_wf t"
  shows "length (slots t) = max_slots t" "s < max_slots t \<Longrightarrow> length (conns (slots t ! s)) = max_connections_per_slot t"
proof -
  have m: "map (\<lambda>s. length (conns s)) (slots t) = replicate (max_slots t) (max_connections_per_slot t)"
    using assms by (simp add: tl_wf_def)
  then show l: "length (slots t) = max_slots t" by (metis length_map length_replicate)
  assume "s < max_slots t"
  then show "length (conns (slots t ! s)) = max_connections_per_slot t"
    using m l by (metis nth_map nth_replicate)
qed

definition tl_here :: "nat \<Rightarrow> nat \<Rightarrow> en50221_transport_layer \<Rightarrow> bool" where
  "tl_here s c t \<longleftrightarrow> tl_wf t \<and> s < max_slots t \<and> c < max_connections_per_slot t"

lemma tl_hereD:
  assumes "tl_here s c t"
  shows "s < length (slots t)" "length (conns (slots t ! s)) = max_connections_per_slot t" "c < max_connections_per_slot t" "c < 256"
    "unat (word_of_nat c :: byte) = c"
proof -
  show "s < length (slots t)" "c < max_connections_per_slot t" using assms by (auto simp: tl_here_def tl_wf_lengths)
  show "length (conns (slots t ! s)) = max_connections_per_slot t" using assms by (auto simp: tl_here_def tl_wf_lengths)
  show c: "c < 256" using assms by (auto simp: tl_here_def tl_wf_def)
  then show "unat (word_of_nat c :: byte) = c" by (simp add: unat_of_nat)
qed

lemma upd_conn_simps [simp]:
  "max_slots (upd_conn s c f t) = max_slots t" "max_connections_per_slot (upd_conn s c f t) = max_connections_per_slot t"
  "tl_callback (upd_conn s c f t) = tl_callback t" "tl_reads (upd_conn s c f t) = tl_reads t" "revents (upd_conn s c f t) = revents t"
  "length (slots (upd_conn s c f t)) = length (slots t)"
  by (simp_all add: upd_conn_def upd_slot_def)

lemma upd_conn_slot:
  "\<exists>cs. length cs = length (conns (slots t ! i)) \<and> slots (upd_conn s c f t) ! i = (slots t ! i)\<lparr>conns := cs\<rparr>"
proof (cases "i = s \<and> s < length (slots t)")
  case True
  then show ?thesis
    by (intro exI [of _ "(conns (slots t ! i))[c := f (conns (slots t ! i) ! c)]"]) (simp add: upd_conn_def upd_slot_def)
next
  case False
  then have "slots (upd_conn s c f t) ! i = slots t ! i"
    by (auto simp: upd_conn_def upd_slot_def list_update_beyond)
  then show ?thesis by (intro exI [of _ "conns (slots t ! i)"]) simp
qed

lemma upd_conn_slot_simps [simp]:
  "ca_hndl (slots (upd_conn s c f t) ! i) = ca_hndl (slots t ! i)"
  "cam_slot (slots (upd_conn s c f t) ! i) = cam_slot (slots t ! i)"
  "response_timeout (slots (upd_conn s c f t) ! i) = response_timeout (slots t ! i)"
  "poll_delay (slots (upd_conn s c f t) ! i) = poll_delay (slots t ! i)"
  "length (conns (slots (upd_conn s c f t) ! i)) = length (conns (slots t ! i))"
  using upd_conn_slot [of t i s c f] by auto

lemma tl_wf_upd [simp]: "tl_wf (upd_conn s c f t) = tl_wf t"
proof -
  have "map (\<lambda>s. length (conns s)) (slots (upd_conn s c f t)) = map (\<lambda>s. length (conns s)) (slots t)"
    by (rule nth_equalityI) simp_all
  then show ?thesis unfolding tl_wf_def by simp
qed

lemma tl_here_upd [simp]: "tl_here s c (upd_conn s' c' f t) = tl_here s c t"
  by (simp add: tl_here_def)

lemma conn_at_upd: "tl_here s c t \<Longrightarrow> conn_at (upd_conn s c f t) s c = f (conn_at t s c)"
  using tl_hereD [of s c t] by (simp add: conn_at_def upd_conn_def upd_slot_def)

lemma conn_at_upd_other: "(s', c') \<noteq> (s, c) \<Longrightarrow> conn_at (upd_conn s c f t) s' c' = conn_at t s' c'"
  by (cases "s < length (slots t)"; cases "s = s'") (auto simp: conn_at_def upd_conn_def upd_slot_def list_update_beyond)

lemma upd_conn_twice: "upd_conn s c g (upd_conn s c f t) = upd_conn s c (\<lambda>k. g (f k)) t"
proof (cases "s < length (slots t)")
  case s: True
  show ?thesis
  proof (cases "c < length (conns (slots t ! s))")
    case True
    with s show ?thesis by (simp add: upd_conn_def upd_slot_def)
  next
    case False
    with s show ?thesis by (simp add: upd_conn_def upd_slot_def list_update_beyond)
  qed
qed (simp add: upd_conn_def upd_slot_def list_update_beyond)

lemma upd_conn_id: "f (conn_at t s c) = conn_at t s c \<Longrightarrow> upd_conn s c f t = t"
  by (simp add: upd_conn_def upd_slot_def conn_at_def)

abbreviation (input) demo_open :: en50221_connection where
  "demo_open \<equiv> zero_conn\<lparr>t_state := T_STATE_ACTIVE\<rparr>"

lemma demo_tl_simps [simp]:
  "tl_here 0 (Suc 0) (demo_tl k)" "tl_wf (demo_tl k)" "conn_at (demo_tl k) 0 (Suc 0) = k" "max_slots (demo_tl k) = 1" "tl_callback (demo_tl k)"
  "upd_conn 0 (Suc 0) f (demo_tl k) = demo_tl (f k)"
  by (simp_all add: tl_here_def tl_wf_def demo_tl_def conn_at_def zero_conn_def upd_conn_def upd_slot_def numeral_2_eq_2)

lemma demo_new_tc: "t_state k = T_STATE_IDLE \<Longrightarrow> \<exists>t. en50221_tl_new_tc 0 (demo_tl k) = (int 1, t)"
  by (simp add: en50221_tl_new_tc_def tl_guard_def en50221_tl_alloc_new_tc_def demo_tl_def)

section \<open>Framing\<close>

text \<open>A TPDU as the standard lays it out: tag, length, connection, data.\<close>

definition tpdu :: "byte \<Rightarrow> nat \<Rightarrow> byte list \<Rightarrow> byte list" where
  "tpdu tag c data = [tag] @ the (asn_1_encode (word_of_nat (length data + 1)) 3) @ [word_of_nat c] @ data"

lemma data_tpdu_eq: "data_tpdu c data = Some (tpdu T_DATA_LAST c data)"
  using asn_1_encode_total [of "word_of_nat (length data + 1)"] by (auto simp: data_tpdu_def tpdu_def)

lemma process_step:
  assumes "tl_here s c (fst st)" and "length data + 1 < 2 ^ 16"
  shows "en50221_tl_process_data env s (tpdu tag c data @ rest) st =
    (case process_tpdu env s tag c data st of
       None \<Rightarrow> None
     | Some (r, st) \<Rightarrow> if r < 0 then Some (- 1, st) else en50221_tl_process_data env s rest st)"
proof -
  define L :: u16 where "L = word_of_nat (length data + 1)"
  obtain f where f: "asn_1_encode L 3 = Some f" using asn_1_encode_total by blast
  have l: "unat L = Suc (length data)" using assms(2) by (simp add: L_def unat_of_nat del: of_nat_add of_nat_Suc)
  then have g: "L \<noteq> 0" by auto
  have d: "asn_1_decode (f @ word_of_nat c # data @ rest) = Some (L, length f)"
    by (rule asn_1_decode_encode [OF f])
  have m: "tpdu tag c data @ rest = tag # f @ word_of_nat c # data @ rest"
    unfolding tpdu_def L_def [symmetric] f by simp
  have c: "\<not> max_connections_per_slot (fst st) \<le> c" using tl_hereD [OF assms(1)] by simp
  show ?thesis
    unfolding m
    by (subst en50221_tl_process_data.simps)
      (simp add: d l g c tl_hereD [OF assms(1)] nth_append Let_def split: option.split)
qed

text \<open>tpdu_roundtrip: the message that \<open>en50221_tl_send_data\<close> queues is read by the TPDU parser of an active
  connection as exactly its data, and the parser goes on behind it.\<close>

theorem tpdu_roundtrip:
  assumes "tl_here s c (fst st)" and "t_state (st_conn s c st) = T_STATE_ACTIVE" and "chain_buffer (st_conn s c st) = None"
    and "data_tpdu c data = Some msg" and "data \<noteq> []" and "length data < 65535"
  shows "en50221_tl_process_data env s (msg @ rest) st
    = en50221_tl_process_data env s rest (notify env (T_DATA data s c) (upd_st s c no_wait st))"
proof -
  have "msg = tpdu T_DATA_LAST c data" using assms(4) data_tpdu_eq by simp
  moreover have "chain_buffer (st_conn s c (upd_st s c no_wait st)) = None"
    using assms(1,3) by (simp add: st_conn_def upd_st_def conn_at_upd no_wait_def)
  ultimately show ?thesis
    using assms by (simp add: process_step process_tpdu_def handle_data_last_def Let_def)
qed

theorem tpdu_roundtrip_witness:
  "data_tpdu 1 [1, 2, 3] = Some [0xA0, 4, 1, 1, 2, 3]
   \<and> en50221_tl_process_data demo_env 0 [0xA0, 4, 1, 1, 2, 3] (demo_tl demo_open, [])
     = Some (0, notify demo_env (T_DATA [1, 2, 3] 0 1) (demo_tl (no_wait demo_open), []))"
proof -
  have "data_tpdu 1 [1, 2, 3] = Some [0xA0, 4, 1, 1, 2, 3]" by (simp add: data_tpdu_def asn_1_encode_def)
  with tpdu_roundtrip [of 0 1 "(demo_tl demo_open, [])" "[1, 2, 3]" "[0xA0, 4, 1, 1, 2, 3]" demo_env "[]"] show ?thesis
    by (simp add: st_conn_def upd_st_def zero_conn_def en50221_tl_process_data.simps)
qed

text \<open>tpdu_wrap: for 65535 bytes and rest the length does not fit its 16 bits: the frame announces less than it
  holds.\<close>

theorem tpdu_wrap:
  assumes "data_tpdu c data = Some msg" and "65535 \<le> length data"
  shows "\<exists>l n. asn_1_decode (drop 1 msg) = Some (l, n) \<and> unat l < length data + 1"
proof -
  let ?l = "word_of_nat (length data + 1) :: u16"
  obtain f where f: "asn_1_encode ?l 3 = Some f" using asn_1_encode_total by blast
  have "msg = [T_DATA_LAST] @ f @ [word_of_nat c] @ data"
    using assms(1) unfolding data_tpdu_def f by simp
  then have "asn_1_decode (drop 1 msg) = Some (?l, length f)"
    using asn_1_decode_encode [OF f, of "word_of_nat c # data"] by simp
  moreover have "unat ?l < length data + 1"
    using assms(2) by (simp add: unat_of_nat del: of_nat_add of_nat_Suc)
  ultimately show ?thesis by blast
qed

theorem tpdu_wrap_witness:
  "\<exists>msg l n. data_tpdu 1 (replicate 65535 0) = Some msg \<and> asn_1_decode (drop 1 msg) = Some (l, n) \<and> unat l < 65536"
  using tpdu_wrap [of 1 "replicate 65535 0", OF data_tpdu_eq] data_tpdu_eq [of 1 "replicate 65535 0"] by auto

section \<open>Chained data\<close>

lemma st_conn_upd: "tl_here s c (fst st) \<Longrightarrow> st_conn s c (upd_st s c f st) = f (st_conn s c st)"
  by (simp add: st_conn_def upd_st_def conn_at_upd)

lemma upd_st_simps [simp]:
  "tl_here s c (fst (upd_st s' c' f st)) = tl_here s c (fst st)" "snd (upd_st s c f st) = snd st"
  "upd_st s c g (upd_st s c f st) = upd_st s c (\<lambda>k. g (f k)) st"
  by (simp_all add: upd_st_def upd_conn_twice)

lemma no_wait_simps [simp]:
  "t_state (no_wait k) = t_state k" "chain_buffer (no_wait k) = chain_buffer k" "send_queue (no_wait k) = send_queue k"
  "no_wait (no_wait k) = no_wait k" "no_wait (k\<lparr>chain_buffer := b\<rparr>) = (no_wait k)\<lparr>chain_buffer := b\<rparr>" "\<not> waiting (no_wait k)"
  by (simp_all add: no_wait_def waiting_def)

lemma upd_st_cong: "f (st_conn s c st) = g (st_conn s c st) \<Longrightarrow> upd_st s c f st = upd_st s c g st"
  by (simp add: upd_st_def upd_conn_def upd_slot_def st_conn_def conn_at_def)

text \<open>The state after the fragments \<open>fs\<close> have been chained behind \<open>b\<close>.\<close>

lemma chain_more:
  assumes "tl_here s c (fst st)" and "t_state (st_conn s c st) = T_STATE_ACTIVE"
    and "\<And>f. f \<in> set fs \<Longrightarrow> f \<noteq> [] \<and> length f < 65535" and "fs \<noteq> []"
  shows "en50221_tl_process_data env s (concat (map (tpdu T_DATA_MORE c) fs) @ rest) st
    = en50221_tl_process_data env s rest
        (upd_st s c (\<lambda>k. (no_wait k)\<lparr>chain_buffer := Some (case chain_buffer k of None \<Rightarrow> concat fs | Some b \<Rightarrow> b @ concat fs)\<rparr>) st)"
  using assms
proof (induction fs arbitrary: st)
  case (Cons f fs)
  let ?g = "\<lambda>k. (no_wait k)\<lparr>chain_buffer := Some (case chain_buffer k of None \<Rightarrow> f | Some b \<Rightarrow> b @ f)\<rparr>"
  have f: "f \<noteq> []" "length f < 65535" using Cons.prems(3) by auto
  have b: "chain_buffer (st_conn s c (upd_st s c no_wait st)) = chain_buffer (st_conn s c st)"
    using Cons.prems(1) by (simp add: st_conn_upd)
  have g: "chain_grow (chain_buffer (st_conn s c st)) f = Some (case chain_buffer (st_conn s c st) of None \<Rightarrow> f | Some b \<Rightarrow> b @ f)"
    using f(1) by (auto simp: chain_grow_def split: option.split)
  have u: "upd_st s c (\<lambda>k. (no_wait k)\<lparr>chain_buffer := Some (case chain_buffer (st_conn s c st) of None \<Rightarrow> f | Some b \<Rightarrow> b @ f)\<rparr>) st
      = upd_st s c ?g st"
    by (rule upd_st_cong) simp
  have one: "en50221_tl_process_data env s (tpdu T_DATA_MORE c f @ rest) st = en50221_tl_process_data env s rest (upd_st s c ?g st)" for rest
    using Cons.prems(1,2) f by (simp add: process_step process_tpdu_def handle_data_more_def Let_def b g u)
  show ?case
  proof (cases "fs = []")
    case False
    have "t_state (st_conn s c (upd_st s c ?g st)) = T_STATE_ACTIVE" using Cons.prems(1,2) by (simp add: st_conn_upd)
    with Cons.IH [of "upd_st s c ?g st"] Cons.prems False
    have "en50221_tl_process_data env s (concat (map (tpdu T_DATA_MORE c) (f # fs)) @ rest) st
      = en50221_tl_process_data env s rest (upd_st s c
          (\<lambda>k. (no_wait (?g k))\<lparr>chain_buffer := Some (case chain_buffer (?g k) of None \<Rightarrow> concat fs | Some b \<Rightarrow> b @ concat fs)\<rparr>) st)"
      by (simp add: one)
    moreover have "(\<lambda>k. (no_wait (?g k))\<lparr>chain_buffer := Some (case chain_buffer (?g k) of None \<Rightarrow> concat fs | Some b \<Rightarrow> b @ concat fs)\<rparr>)
      = (\<lambda>k. (no_wait k)\<lparr>chain_buffer := Some (case chain_buffer k of None \<Rightarrow> concat (f # fs) | Some b \<Rightarrow> b @ concat (f # fs))\<rparr>)"
      by (rule ext) (simp split: option.split)
    ultimately show ?thesis by simp
  qed (simp add: one cong: option.case_cong)
qed simp

text \<open>C25 (chain_reassembles): on an open connection without a chained message, fragments of a module that are announced
  as more, followed by a last one, all of them non-empty and shorter than 65535 bytes, reach the session layer as
  one message with all their bytes in order; nothing is left in the chain buffer. (An empty last fragment
  loses the message.)\<close>

theorem chain_reassembles:
  assumes "tl_here s c (fst st)" and "t_state (st_conn s c st) = T_STATE_ACTIVE" and "chain_buffer (st_conn s c st) = None"
    and "\<And>f. f \<in> set fs \<Longrightarrow> f \<noteq> [] \<and> length f < 65535" and "data \<noteq> []" and "length data < 65535"
  shows "en50221_tl_process_data env s (concat (map (tpdu T_DATA_MORE c) fs) @ tpdu T_DATA_LAST c data @ rest) st
    = en50221_tl_process_data env s rest (notify env (T_DATA (concat fs @ data) s c) (upd_st s c no_wait st))"
proof (cases "fs = []")
  case True
  then show ?thesis
    using assms by (simp add: process_step process_tpdu_def handle_data_last_def Let_def st_conn_upd)
next
  case False
  let ?g = "\<lambda>k. (no_wait k)\<lparr>chain_buffer := Some (case chain_buffer k of None \<Rightarrow> concat fs | Some b \<Rightarrow> b @ concat fs)\<rparr>"
  let ?st = "upd_st s c ?g st"
  have c: "t_state (st_conn s c ?st) = T_STATE_ACTIVE" "chain_buffer (st_conn s c ?st) = Some (concat fs)"
    using assms(1-3) by (simp_all add: st_conn_upd)
  have "upd_st s c (\<lambda>k. (no_wait (?g k))\<lparr>chain_buffer := None\<rparr>) st = upd_st s c no_wait st"
    by (rule upd_st_cong) (use assms(3) in \<open>cases "st_conn s c st", simp add: no_wait_def\<close>)
  with c assms(1,5,6) show ?thesis
    using chain_more [OF assms(1,2,4) False]
    by (simp add: process_step process_tpdu_def handle_data_last_def Let_def st_conn_upd chain_grow_def)
qed

theorem chain_reassembles_witness:
  "en50221_tl_process_data demo_env 0 [0xA1, 3, 1, 7, 8, 0xA0, 2, 1, 9] (demo_tl demo_open, [])
   = Some (0, notify demo_env (T_DATA [7, 8, 9] 0 1) (demo_tl (no_wait demo_open), []))"
  using chain_reassembles [of 0 1 "(demo_tl demo_open, [])" "[[7, 8]]" "[9]" demo_env "[]"]
  by (simp add: st_conn_def upd_st_def zero_conn_def tpdu_def asn_1_encode_def en50221_tl_process_data.simps [of _ _ "[]"])

section \<open>The life of a connection\<close>

lemma gettimeofday_simps [simp]:
  "fst (gettimeofday env t) = tl_clock env (tl_reads t)" "snd (gettimeofday env t) = t\<lparr>tl_reads := Suc (tl_reads t)\<rparr>"
  by (simp_all add: gettimeofday_def)

lemma reads_frame [simp]:
  "conn_at (t\<lparr>tl_reads := n\<rparr>) s c = conn_at t s c" "tl_here s c (t\<lparr>tl_reads := n\<rparr>) = tl_here s c t"
  "conn_at (t\<lparr>tl_error_slot := x, tl_error := y\<rparr>) s c = conn_at t s c" "tl_here s c (t\<lparr>tl_error_slot := x, tl_error := y\<rparr>) = tl_here s c t"
  by (simp_all add: conn_at_def tl_here_def tl_wf_def)

lemma tl_fail_simps [simp]:
  "fst (tl_fail x y st) = - 1" "snd (snd (tl_fail x y st)) = snd st" "st_conn s c (snd (tl_fail x y st)) = st_conn s c st"
  "tl_here s c (fst (snd (tl_fail x y st))) = tl_here s c (fst st)"
  by (simp_all add: tl_fail_def st_conn_def)

lemma tl_failD:
  assumes "tl_fail x y st = (r, st')"
  shows "r = - 1 \<and> snd st' = snd st \<and> st_conn s c st' = st_conn s c st \<and> tl_here s c (fst st') = tl_here s c (fst st)"
  using arg_cong [OF assms, of fst] arg_cong [OF assms, of snd, symmetric] by simp

lemma tl_write_simps [simp]:
  "fst (tl_write env c b st) = fst (link_write env (word_of_nat c) b (snd st))"
  "fst (snd (tl_write env c b st)) = fst st" "snd (snd (tl_write env c b st)) = snd (link_write env (word_of_nat c) b (snd st))"
  "st_conn s c' (snd (tl_write env c b st)) = st_conn s c' st"
  by (simp_all add: tl_write_def st_conn_def case_prod_beta)

lemma stamp_simps [simp]:
  "snd (stamp_tx env s c st) = snd st" "snd (stamp_poll env s c st) = snd st"
  "tl_here s c (fst (stamp_tx env s c st)) = tl_here s c (fst st)" "tl_here s c (fst (stamp_poll env s c st)) = tl_here s c (fst st)"
  by (simp_all add: stamp_tx_def stamp_poll_def case_prod_beta)

lemma stamp_conn:
  assumes "tl_here s c (fst st)"
  shows "st_conn s c (stamp_tx env s c st) = (st_conn s c st)\<lparr>tx_time := tl_clock env (tl_reads (fst st))\<rparr>"
    "st_conn s c (stamp_poll env s c st) = (st_conn s c st)\<lparr>last_poll_time := tl_clock env (tl_reads (fst st))\<rparr>"
  using assms by (simp_all add: stamp_tx_def stamp_poll_def case_prod_beta st_conn_upd) (simp_all add: st_conn_def)

lemma poll_timeout_frame:
  assumes "tl_here s c (fst st)" and "poll_timeout env s c st = (r, st')"
  shows "snd st' = snd st \<and> tl_here s c (fst st') \<and> tx_time (st_conn s c st') = tx_time (st_conn s c st)
    \<and> send_queue (st_conn s c st') = send_queue (st_conn s c st)
    \<and> (t_state (st_conn s c st') = t_state (st_conn s c st)
       \<or> t_state (st_conn s c st) \<in> {T_STATE_IN_CREATION, T_STATE_IN_DELETION} \<and> t_state (st_conn s c st') = T_STATE_IDLE)"
proof -
  let ?u = "((fst st)\<lparr>tl_reads := Suc (tl_reads (fst st))\<rparr>, snd st)"
  have u: "tl_here s c (fst ?u)" "st_conn s c ?u = st_conn s c st" using assms(1) by (simp_all add: st_conn_def)
  have st': "st' = snd (poll_timeout env s c st)" using assms(2) by simp
  show ?thesis
    unfolding st' poll_timeout_def Let_def case_prod_beta gettimeofday_simps
    using u assms(1) by (simp add: st_conn_upd)
qed

lemma poll_waiting:
  assumes "waiting (st_conn s c st)"
  shows "poll_conn env s c st = (if t_state (st_conn s c st) = T_STATE_IDLE then (0, st) else poll_timeout env s c st)"
proof -
  have "poll_send env s c st = (0, st)" using assms by (simp add: poll_send_def Let_def split: list.split)
  moreover have "poll_idle env s c st = (0, st)" using assms by (simp add: poll_idle_def)
  ultimately show ?thesis by (simp add: poll_conn_def)
qed

text \<open>What one step of a poll does to the link: nothing, or one message, after which a response is awaited.\<close>

definition one_write :: "'j tl_env \<Rightarrow> nat \<Rightarrow> nat \<Rightarrow> 'j tl_st \<Rightarrow> int \<Rightarrow> 'j tl_st \<Rightarrow> bool" where
  "one_write env s c st r st' \<longleftrightarrow>
     (\<exists>b. snd st' = snd (link_write env (word_of_nat c) b (snd st))) \<and> (r = 0 \<longrightarrow> waiting (st_conn s c st'))"

lemma poll_send_once:
  assumes "tl_here s c (fst st)" and "\<And>n. fst (tl_clock env n) \<noteq> 0" and "poll_send env s c st = (r, st')"
  shows "r \<in> {0, - 1} \<and> tl_here s c (fst st') \<and> (st' = st \<and> r = 0 \<or> \<not> waiting (st_conn s c st) \<and> one_write env s c st r st')"
proof (cases "t_state (st_conn s c st) \<in> {T_STATE_IN_CREATION, T_STATE_ACTIVE, T_STATE_ACTIVE_DELETEQUEUED} \<and> \<not> waiting (st_conn s c st)
    \<and> send_queue (st_conn s c st) \<noteq> []")
  case True
  then obtain msg q where q: "send_queue (st_conn s c st) = msg # q" by (cases "send_queue (st_conn s c st)") auto
  define w where "w = tl_write env c msg (upd_st s c (\<lambda>k. k\<lparr>send_queue := q\<rparr>) st)"
  have w: "tl_here s c (fst (snd w))" "snd (snd w) = snd (link_write env (word_of_nat c) msg (snd st))"
    using assms(1) by (simp_all add: w_def)
  have "poll_send env s c st = (if fst w < 0 then tl_fail (int s) EN50221ERR_CAWRITE (snd w)
     else (0, if msg \<noteq> [] \<and> msg ! 0 = T_DELETE_T_C
           then upd_st s c (\<lambda>k. k\<lparr>t_state := T_STATE_IN_DELETION, chain_buffer := None\<rparr>) (stamp_tx env s c (snd w))
           else stamp_tx env s c (snd w)))"
    using True q by (simp add: poll_send_def Let_def case_prod_beta w_def)
  with assms(3) True w assms(2) show ?thesis
    by (auto simp: one_write_def st_conn_upd stamp_conn waiting_def split: if_splits dest!: tl_failD [where s = s and c = c])
next
  case False
  then have "poll_send env s c st = (0, st)" by (auto simp: poll_send_def Let_def split: list.split)
  with assms(1,3) show ?thesis by simp
qed

lemma poll_idle_once:
  assumes "tl_here s c (fst st)" and "\<And>n. fst (tl_clock env n) \<noteq> 0" and "poll_idle env s c st = (r, st')"
  shows "r \<in> {0, - 1} \<and> tl_here s c (fst st')
    \<and> (snd st' = snd st \<and> tx_time (st_conn s c st') = tx_time (st_conn s c st) \<or> \<not> waiting (st_conn s c st) \<and> one_write env s c st r st')"
proof -
  define u where "u = ((fst st)\<lparr>tl_reads := Suc (tl_reads (fst st))\<rparr>, snd st)"
  have u: "tl_here s c (fst u)" "st_conn s c u = st_conn s c st" "snd u = snd st" using assms(1) by (simp_all add: st_conn_def u_def)
  define w where "w = tl_write env c [T_DATA_LAST, 1, word_of_nat c] (stamp_tx env s c (stamp_poll env s c u))"
  have w: "tl_here s c (fst (snd w))" "snd (snd w) = snd (link_write env (word_of_nat c) [T_DATA_LAST, 1, word_of_nat c] (snd st))"
      "waiting (st_conn s c (snd w))"
    using u assms(2) by (simp_all add: w_def stamp_conn waiting_def)
  have "poll_idle env s c st = (if t_state (st_conn s c st) = T_STATE_ACTIVE \<and> \<not> waiting (st_conn s c st) then
      (if time_after (last_poll_time (st_conn s c st)) (poll_delay (slots (fst st) ! s)) (tl_clock env (tl_reads (fst st)))
       then (if fst w < 0 then tl_fail (int s) EN50221ERR_CAWRITE (snd w) else (0, snd w)) else (0, u)) else (0, st))"
    by (simp add: poll_idle_def en50221_tl_poll_tc_def Let_def case_prod_beta u_def w_def)
  with assms(1,3) u w show ?thesis by (auto simp: one_write_def split: if_splits dest!: tl_failD [where s = s and c = c])
qed

text \<open>C26 (poll_half_duplex): a poll of a connection sends nothing while a response is awaited, and otherwise at most
  one message; after it has sent one, a response is awaited. So the module is never sent a request
  before it has answered the last one.\<close>

theorem poll_half_duplex:
  assumes "tl_here s c (fst st)" and "\<And>n. fst (tl_clock env n) \<noteq> 0" and "poll_conn env s c st = (r, st')"
  shows "snd st' = snd st \<or> \<not> waiting (st_conn s c st) \<and> (\<exists>b. snd st' = snd (link_write env (word_of_nat c) b (snd st)))
    \<and> (r = 0 \<longrightarrow> waiting (st_conn s c st'))"
proof (cases "t_state (st_conn s c st) = T_STATE_IDLE")
  case False
  obtain r1 st1 where 1: "poll_send env s c st = (r1, st1)" by (cases "poll_send env s c st")
  obtain r2 st2 where 2: "poll_idle env s c st1 = (r2, st2)" by (cases "poll_idle env s c st1")
  note p1 = poll_send_once [OF assms(1,2) 1]
  then have h1: "tl_here s c (fst st1)" by simp
  note p2 = poll_idle_once [OF h1 assms(2) 2]
  show ?thesis
  proof (cases "r1 < 0")
    case True
    with False 1 assms(3) p1 show ?thesis by (auto simp: poll_conn_def one_write_def)
  next
    case r1: False
    show ?thesis
    proof (cases "r2 < 0")
      case True
      with False r1 1 2 assms(3) p1 p2 show ?thesis by (auto simp: poll_conn_def one_write_def)
    next
      case r2: False
      then have 3: "poll_timeout env s c st2 = (r, st')" using assms(3) False r1 1 2 by (simp add: poll_conn_def)
      have "tl_here s c (fst st2)" using p2 by simp
      from poll_timeout_frame [OF this 3] p1 p2 r1 r2 show ?thesis
        by (auto simp: one_write_def waiting_def)
    qed
  qed
qed (use assms(3) in \<open>simp add: poll_conn_def\<close>)

theorem poll_half_duplex_witness:
  "let k = demo_open\<lparr>send_queue := [[0xA0, 2, 1, 9], [0xA0, 2, 1, 5]]\<rparr>; (r, st') = poll_conn demo_env 0 1 (demo_tl k, [])
   in snd st' = [] \<or> length (snd st') = 1 \<and> (r = 0 \<longrightarrow> waiting (st_conn 0 1 st'))"
  using poll_half_duplex [of 0 1 "(demo_tl (demo_open\<lparr>send_queue := [[0xA0, 2, 1, 9], [0xA0, 2, 1, 5]]\<rparr>), [])" demo_env]
  by (cases "poll_conn demo_env 0 1 (demo_tl (demo_open\<lparr>send_queue := [[0xA0, 2, 1, 9], [0xA0, 2, 1, 5]]\<rparr>), [])")
    (auto simp: Let_def demo_env_def)

lemma upd_st_conn_other: "(s', c') \<noteq> (s, c) \<Longrightarrow> st_conn s' c' (upd_st s c f st) = st_conn s' c' st"
  by (simp add: st_conn_def upd_st_def conn_at_upd_other)

lemma idle_conn_bound: "idle_conn i ks = Some c \<Longrightarrow> i \<le> c \<and> c < i + length ks \<and> t_state (ks ! (c - i)) = T_STATE_IDLE"
  by (induction ks arbitrary: i) (force simp: nth_Cons' split: if_splits)+

lemma new_tc_ok:
  assumes "tl_wf t" and "s < max_slots t" and "en50221_tl_new_tc s t = (int c, t')"
  shows "tl_here s c t \<and> 0 < c \<and> t_state (conn_at t s c) = T_STATE_IDLE
    \<and> t' = upd_conn s c (\<lambda>k. k\<lparr>t_state := T_STATE_IN_CREATION, chain_buffer := None,
        send_queue := send_queue k @ [[T_CREATE_T_C, 1, word_of_nat c]]\<rparr>) t"
proof -
  obtain d t1 where d: "en50221_tl_alloc_new_tc s t = Some (d, t1)" "c = d"
    "t' = queue_message s d [T_CREATE_T_C, 1, word_of_nat d] t1"
    using assms(3) by (auto simp: en50221_tl_new_tc_def split: option.splits prod.splits)
  have i: "idle_conn 1 (drop 1 (conns (slots t ! s))) = Some c"
    using d(1,2) by (auto simp: en50221_tl_alloc_new_tc_def)
  note b = idle_conn_bound [OF i]
  have l: "length (conns (slots t ! s)) = max_connections_per_slot t" using tl_wf_lengths(2) [OF assms(1,2)] .
  have h: "tl_here s c t" "0 < c" using b assms(1,2) l by (auto simp: tl_here_def)
  have "t_state (conn_at t s c) = T_STATE_IDLE" using b by (auto simp: conn_at_def)
  moreover have "t1 = upd_conn s c (\<lambda>k. k\<lparr>t_state := T_STATE_IN_CREATION, chain_buffer := None\<rparr>) t"
    using d(1,2) by (auto simp: en50221_tl_alloc_new_tc_def)
  ultimately show ?thesis using h d(2,3) by (simp add: queue_message_def upd_conn_twice)
qed

lemma creating_stuck:
  assumes "tl_here s c (fst st)" and "waiting (st_conn s c st)" and "t_state (st_conn s c st) \<in> {T_STATE_IN_CREATION, T_STATE_IDLE}"
  shows "let st' = ((\<lambda>st. snd (poll_conn env s c st)) ^^ n) st
    in snd st' = snd st \<and> t_state (st_conn s c st') \<in> {T_STATE_IN_CREATION, T_STATE_IDLE}
       \<and> tl_here s c (fst st') \<and> waiting (st_conn s c st')"
proof (induction n)
  case (Suc n)
  define u where "u = ((\<lambda>st. snd (poll_conn env s c st)) ^^ n) st"
  have u: "snd u = snd st" "t_state (st_conn s c u) \<in> {T_STATE_IN_CREATION, T_STATE_IDLE}" "tl_here s c (fst u)" "waiting (st_conn s c u)"
    using Suc.IH by (auto simp: u_def Let_def)
  obtain r v where v: "poll_timeout env s c u = (r, v)" by (cases "poll_timeout env s c u")
  show ?case
    using poll_waiting [OF u(4), of env] poll_timeout_frame [OF u(3) v] u v
    by (auto simp: u_def [symmetric] Let_def waiting_def)
qed (use assms in \<open>simp add: Let_def\<close>)

text \<open>deleted_connection_dead: a connection the host has deleted is never opened again: its request time is kept,
  so a new request on it waits for a response that nobody owes, is not sent by any number of polls,
  and ends as idle after the timeout.\<close>

theorem deleted_connection_dead:
  assumes "tl_here s c (fst st)" and "handle_delete_tc_reply s c st = (0, st1)" and "waiting (st_conn s c st)"
    and "en50221_tl_new_tc s (fst st1) = (int c, t2)"
  shows "let st' = ((\<lambda>st. snd (poll_conn env s c st)) ^^ n) (t2, snd st1)
    in snd st' = snd st \<and> t_state (st_conn s c st') \<in> {T_STATE_IN_CREATION, T_STATE_IDLE}"
proof -
  have st1: "st1 = upd_st s c (\<lambda>k. k\<lparr>t_state := T_STATE_IDLE\<rparr>) st"
    using assms(2) by (auto simp: handle_delete_tc_reply_def tl_fail_def split: if_splits)
  have h: "tl_wf (fst st1)" "s < max_slots (fst st1)" "tl_here s c (fst st1)"
    using assms(1) by (simp_all add: st1 tl_here_def upd_st_def)
  note n = new_tc_ok [OF h(1,2) assms(4)]
  have "st_conn s c (t2, snd st1) = (st_conn s c st1)\<lparr>t_state := T_STATE_IN_CREATION, chain_buffer := None,
      send_queue := send_queue (st_conn s c st1) @ [[T_CREATE_T_C, 1, word_of_nat c]]\<rparr>"
    using n by (simp add: st_conn_def conn_at_upd)
  then have w: "waiting (st_conn s c (t2, snd st1))" "t_state (st_conn s c (t2, snd st1)) = T_STATE_IN_CREATION"
    using assms(1,3) by (simp_all add: st1 waiting_def st_conn_upd)
  have "tl_here s c (fst (t2, snd st1))" using n by simp
  from creating_stuck [OF this w(1), where env = env and n = n] w(2) show ?thesis by (simp add: Let_def st1)
qed

theorem deleted_connection_dead_witness:
  "let k = zero_conn\<lparr>t_state := T_STATE_IN_DELETION, tx_time := (1, 0)\<rparr>;
       st1 = snd (handle_delete_tc_reply 0 1 (demo_tl k, [] :: byte list list));
       t2 = snd (en50221_tl_new_tc 0 (fst st1))
   in fst (en50221_tl_new_tc 0 (fst st1)) = 1
     \<and> t_state (st_conn 0 1 (((\<lambda>st. snd (poll_conn demo_env 0 1 st)) ^^ 5) (t2, []))) \<in> {T_STATE_IN_CREATION, T_STATE_IDLE}"
proof -
  let ?k = "zero_conn\<lparr>t_state := T_STATE_IN_DELETION, tx_time := (1, 0)\<rparr>"
  let ?st1 = "(demo_tl (?k\<lparr>t_state := T_STATE_IDLE\<rparr>), [] :: byte list list)"
  have d: "handle_delete_tc_reply 0 1 (demo_tl ?k, [] :: byte list list) = (0, ?st1)"
    by (simp add: handle_delete_tc_reply_def st_conn_def upd_st_def)
  obtain t2 where n: "en50221_tl_new_tc 0 (fst ?st1) = (int 1, t2)" using demo_new_tc by fastforce
  have "waiting (st_conn 0 1 (demo_tl ?k, [] :: byte list list))" by (simp add: waiting_def st_conn_def)
  from deleted_connection_dead [OF _ d this n, where env = demo_env and n = 5] d n show ?thesis by (simp add: Let_def)
qed

text \<open>tc_opens: a request for a connection that was never used is sent by the next poll, and the reply of the
  module makes it active and tells the session layer.\<close>

theorem tc_opens:
  assumes "tl_wf t" and "s < max_slots t" and "en50221_tl_new_tc s t = (int c, t1)"
    and "conn_at t s c = zero_conn" and "0 \<le> fst (link_write env (word_of_nat c) [T_CREATE_T_C, 1, word_of_nat c] j)"
    and "\<And>n. tl_clock env n = now" and "fst now \<noteq> 0"
  shows "\<exists>t2. let st2 = (t2, snd (link_write env (word_of_nat c) [T_CREATE_T_C, 1, word_of_nat c] j));
        st3 = upd_st s c (\<lambda>k. no_wait (k\<lparr>t_state := T_STATE_ACTIVE\<rparr>)) st2
    in poll_conn env s c (t1, j) = (0, st2)
      \<and> en50221_tl_process_data env s [T_C_T_C_REPLY, 1, word_of_nat c] st2 = Some (0, notify env (CONNECTIONOPEN s c) st3)
      \<and> t_state (st_conn s c st3) = T_STATE_ACTIVE"
proof -
  note n = new_tc_ok [OF assms(1-3)]
  let ?msg = "[T_CREATE_T_C, 1, word_of_nat c] :: byte list"
  let ?j = "snd (link_write env (word_of_nat c) ?msg j)"
  have h: "tl_here s c t1" using n by simp
  have k: "st_conn s c (t1, j) = zero_conn\<lparr>t_state := T_STATE_IN_CREATION, send_queue := [?msg]\<rparr>"
    using n assms(4) by (simp add: st_conn_def conn_at_upd zero_conn_def)
  define st2 where "st2 = stamp_tx env s c (upd_conn s c (\<lambda>k. k\<lparr>send_queue := []\<rparr>) t1, ?j)"
  have h2: "tl_here s c (fst st2)" "snd st2 = ?j" using h by (simp_all add: st2_def)
  have k2: "st_conn s c st2 = zero_conn\<lparr>t_state := T_STATE_IN_CREATION, send_queue := [], tx_time := now\<rparr>"
  proof -
    let ?u = "(upd_conn s c (\<lambda>k. k\<lparr>send_queue := []\<rparr>) t1, ?j)"
    have "st_conn s c ?u = (st_conn s c (t1, j))\<lparr>send_queue := []\<rparr>"
      using h by (simp add: st_conn_def conn_at_upd)
    then have "st_conn s c ?u = zero_conn\<lparr>t_state := T_STATE_IN_CREATION, send_queue := []\<rparr>" by (simp add: k)
    moreover have "tl_here s c (fst ?u)" using h by simp
    ultimately show ?thesis unfolding st2_def using stamp_conn(1) [of s c ?u env] assms(6) by simp
  qed
  have "poll_send env s c (t1, j) = (0, st2)"
    using k assms(5) by (simp add: poll_send_def Let_def case_prod_beta zero_conn_def waiting_def tl_write_def upd_st_def st2_def)
  moreover have "poll_idle env s c st2 = (0, st2)"
    using k2 by (simp add: poll_idle_def zero_conn_def)
  ultimately have p: "poll_conn env s c (t1, j) = poll_timeout env s c st2"
    using k by (simp add: poll_conn_def zero_conn_def)
  define t2 where "t2 = (fst st2)\<lparr>tl_reads := Suc (tl_reads (fst st2))\<rparr>"
  have "\<not> time_after now d now" for d by (simp add: time_after_def)
  then have "poll_timeout env s c st2 = (0, t2, ?j)"
    using k2 assms(6,7) h2 by (simp add: poll_timeout_def Let_def case_prod_beta waiting_def zero_conn_def t2_def)
  moreover have h3: "tl_here s c t2" "st_conn s c (t2, ?j) = st_conn s c st2" using h2 by (simp_all add: t2_def st_conn_def)
  have "[T_C_T_C_REPLY, 1, word_of_nat c] = tpdu T_C_T_C_REPLY c [] @ []" by (simp add: tpdu_def asn_1_encode_def)
  then have "en50221_tl_process_data env s [T_C_T_C_REPLY, 1, word_of_nat c] (t2, ?j)
      = Some (0, notify env (CONNECTIONOPEN s c) (upd_st s c (\<lambda>k. no_wait (k\<lparr>t_state := T_STATE_ACTIVE\<rparr>)) (t2, ?j)))"
    using h3 k2 process_step [of s c "(t2, ?j)" "[]" env T_C_T_C_REPLY "[]"]
    by (simp add: process_tpdu_def handle_create_tc_reply_def zero_conn_def en50221_tl_process_data.simps)
  ultimately show ?thesis
    using p h3 by (intro exI [of _ t2]) (simp add: Let_def st_conn_upd)
qed

theorem tc_opens_witness:
  "\<exists>t2. poll_conn demo_env 0 1 (snd (en50221_tl_new_tc 0 (demo_tl zero_conn)), []) = (0, t2, [[0x82, 1, 1]])
     \<and> (\<exists>st3. en50221_tl_process_data demo_env 0 [0x83, 1, 1] (t2, [[0x82, 1, 1]]) = Some (0, st3))"
proof -
  obtain t1 where n: "en50221_tl_new_tc 0 (demo_tl zero_conn) = (int 1, t1)" using demo_new_tc by (fastforce simp: zero_conn_def)
  from tc_opens [OF _ _ n, of demo_env "[]" "(1, 0)"] n show ?thesis
    by (auto simp: Let_def)
qed

section \<open>Over the link layer of the program\<close>

text \<open>big_message_lost: the link layer does not fragment: a message of more than 504 bytes is taken from the
  queue, nothing is sent to the module, and the poll fails.\<close>

theorem big_message_lost:
  assumes "tl_here s c (fst st)" and "send_queue (st_conn s c st) = msg # q" and "504 < length msg"
    and "t_state (st_conn s c st) = T_STATE_ACTIVE" and "\<not> waiting (st_conn s c st)"
  shows "\<exists>st'. poll_conn (joker_env dev clock undef cb) s c st = (- 1, st') \<and> snd st' = snd st
    \<and> send_queue (st_conn s c st') = q \<and> tl_error (fst st') = EN50221ERR_CAWRITE"
proof -
  have w: "tl_write (joker_env dev clock undef cb) c msg (upd_st s c (\<lambda>k. k\<lparr>send_queue := q\<rparr>) st)
      = (- EIO, upd_st s c (\<lambda>k. k\<lparr>send_queue := q\<rparr>) st)"
    using assms(3) by (simp add: tl_write_def joker_env_def dvbca_link_write_def joker_ci_write_data_def Let_def case_prod_beta upd_st_def)
  then have "poll_send (joker_env dev clock undef cb) s c st
      = tl_fail (int s) EN50221ERR_CAWRITE (upd_st s c (\<lambda>k. k\<lparr>send_queue := q\<rparr>) st)"
    using assms by (simp add: poll_send_def Let_def)
  with assms(1,4) show ?thesis
    by (simp add: poll_conn_def tl_fail_def st_conn_def upd_st_def conn_at_upd)
qed

theorem big_message_lost_witness:
  "\<exists>st'. poll_conn (joker_env cam_dev (\<lambda>_. (1, 0)) [] (\<lambda>_ st. st)) 0 1
       (demo_tl (demo_open\<lparr>send_queue := [replicate 600 0]\<rparr>), cam_joker) = (- 1, st') \<and> send_queue (st_conn 0 1 st') = []"
  using big_message_lost [of 0 1 "(demo_tl (demo_open\<lparr>send_queue := [replicate 600 0]\<rparr>), cam_joker)" "replicate 600 0" "[]"]
  by (fastforce simp: st_conn_def waiting_def zero_conn_def)

end
