(* ===== verification/TlInv.thy ===== *)
theory TlInv
  imports TransportProps
begin

section \<open>The invariant of the layer\<close>

text \<open>Data is chained only for an open connection, and connection 0 is never used.\<close>

definition conn_ok :: "nat \<Rightarrow> en50221_connection \<Rightarrow> bool" where
  "conn_ok c k \<longleftrightarrow> (chain_buffer k = None \<or> t_state k \<in> {T_STATE_ACTIVE, T_STATE_ACTIVE_DELETEQUEUED})
     \<and> (c = 0 \<longrightarrow> t_state k = T_STATE_IDLE)"

definition tl_inv :: "en50221_transport_layer \<Rightarrow> bool" where
  "tl_inv t \<longleftrightarrow> tl_wf t \<and> (\<forall>s < max_slots t. \<forall>c < max_connections_per_slot t. conn_ok c (conn_at t s c))"

text \<open>The low level poll returns an array of the same size; the callback keeps the invariant.\<close>

definition env_ok :: "'j tl_env \<Rightarrow> bool" where
  "env_ok env \<longleftrightarrow> (\<forall>re j. length (fst (snd (ll_poll env re j))) = length re)
     \<and> (\<forall>ev st. tl_inv (fst st) \<longrightarrow> tl_inv (fst (tl_cb env ev st)))"

definition tl_good :: "'j tl_env \<Rightarrow> 'j tl_st \<Rightarrow> bool" where
  "tl_good env st \<longleftrightarrow> env_ok env \<and> tl_inv (fst st)"

lemma tl_inv_conn: "tl_inv t \<Longrightarrow> s < max_slots t \<Longrightarrow> c < max_connections_per_slot t \<Longrightarrow> conn_ok c (conn_at t s c)"
  by (simp add: tl_inv_def)

lemma tl_inv_upd:
  assumes "tl_inv t" and "\<And>k. tl_here s c t \<Longrightarrow> conn_at t s c = k \<Longrightarrow> conn_ok c k \<Longrightarrow> conn_ok c (f k)"
  shows "tl_inv (upd_conn s c f t)"
proof -
  have "conn_ok c' (conn_at (upd_conn s c f t) s' c')" if "s' < max_slots t" "c' < max_connections_per_slot t" for s' c'
  proof (cases "(s', c') = (s, c)")
    case True
    with that assms(1) have "tl_here s c t" "conn_ok c (conn_at t s c)" by (auto simp: tl_here_def tl_inv_def)
    with True assms(2) show ?thesis by (simp add: conn_at_upd)
  next
    case False
    with that assms(1) show ?thesis by (simp add: conn_at_upd_other tl_inv_def)
  qed
  with assms(1) show ?thesis by (simp add: tl_inv_def)
qed

lemma tl_inv_upd_st:
  "tl_inv (fst st) \<Longrightarrow> (\<And>k. tl_here s c (fst st) \<Longrightarrow> st_conn s c st = k \<Longrightarrow> conn_ok c k \<Longrightarrow> conn_ok c (f k)) \<Longrightarrow> tl_inv (fst (upd_st s c f st))"
  by (simp add: upd_st_def st_conn_def tl_inv_upd)

lemma tl_inv_frame [simp]:
  "tl_inv (t\<lparr>tl_error_slot := x, tl_error := y\<rparr>) = tl_inv t" "tl_inv (t\<lparr>tl_error := y\<rparr>) = tl_inv t" "tl_inv (t\<lparr>tl_error_slot := x\<rparr>) = tl_inv t"
  "tl_inv (t\<lparr>tl_reads := n\<rparr>) = tl_inv t" "tl_inv (t\<lparr>slots_changed := b\<rparr>) = tl_inv t"
  by (simp_all add: tl_inv_def tl_wf_def conn_at_def)

lemma tl_inv_fail [simp]: "tl_inv (fst (snd (tl_fail i e st))) = tl_inv (fst st)"
  by (simp add: tl_fail_def)

lemma tl_inv_notify: "env_ok env \<Longrightarrow> tl_inv (fst st) \<Longrightarrow> tl_inv (fst (notify env ev st))"
  by (cases st) (simp add: notify_def env_ok_def)

lemma tl_inv_keep:
  "tl_inv (fst st) \<Longrightarrow> (\<And>k. t_state (f k) = t_state k) \<Longrightarrow> (\<And>k. chain_buffer (f k) = chain_buffer k) \<Longrightarrow> tl_inv (fst (upd_st s c f st))"
  by (rule tl_inv_upd_st) (simp_all add: conn_ok_def)

lemma tl_inv_stamp: "tl_inv (fst st) \<Longrightarrow> tl_inv (fst (stamp_tx env s c st))" "tl_inv (fst st) \<Longrightarrow> tl_inv (fst (stamp_poll env s c st))"
  unfolding stamp_tx_def stamp_poll_def gettimeofday_def Let_def prod.case by (simp_all add: tl_inv_keep)

lemma tl_inv_no_wait: "tl_inv (fst st) \<Longrightarrow> tl_inv (fst (upd_st s c no_wait st))"
  by (simp add: tl_inv_keep)

lemma tl_inv_close: "tl_inv (fst st) \<Longrightarrow> tl_inv (fst (upd_st s c (\<lambda>k. k\<lparr>t_state := T_STATE_IDLE, chain_buffer := None\<rparr>) st))"
  by (rule tl_inv_upd_st) (simp_all add: conn_ok_def)

lemma conn_at_upd_cases:
  "conn_at (upd_conn s c f t) s' c' = conn_at t s' c' \<or> (s', c') = (s, c) \<and> conn_at (upd_conn s c f t) s' c' = f (conn_at t s' c')"
proof (cases "(s', c') = (s, c) \<and> s < length (slots t) \<and> c < length (conns (slots t ! s))")
  case True
  then show ?thesis by (simp add: conn_at_def upd_conn_def upd_slot_def)
next
  case False
  show ?thesis
  proof (cases "(s', c') = (s, c)")
    case True
    with False have "conn_at (upd_conn s c f t) s' c' = conn_at t s' c'"
      by (cases "s < length (slots t)") (auto simp: conn_at_def upd_conn_def upd_slot_def list_update_beyond)
    then show ?thesis by simp
  qed (simp add: conn_at_upd_other)
qed

lemma alloc_new_tc_inv:
  assumes "en50221_tl_alloc_new_tc s t = Some (c, t')" and "tl_inv t"
  shows "tl_inv t' \<and> 0 < c"
proof -
  have "1 \<le> c" using assms(1) idle_conn_bound by (fastforce simp: en50221_tl_alloc_new_tc_def)
  moreover have "t' = upd_conn s c (\<lambda>k. k\<lparr>t_state := T_STATE_IN_CREATION, chain_buffer := None\<rparr>) t"
    using assms(1) by (auto simp: en50221_tl_alloc_new_tc_def)
  ultimately show ?thesis using assms(2) by (simp add: tl_inv_upd conn_ok_def)
qed

section \<open>Every operation keeps it\<close>

lemmas tl_inv_intros = tl_inv_notify tl_inv_stamp tl_inv_no_wait tl_inv_close tl_inv_keep

lemma opened_ok: "conn_ok c k \<Longrightarrow> t_state k \<in> {T_STATE_IN_CREATION, T_STATE_IN_DELETION} \<Longrightarrow> chain_buffer k = None \<and> c \<noteq> 0"
  by (auto simp: conn_ok_def)

lemma create_tc_reply_inv:
  assumes "env_ok env" and "tl_inv (fst st)"
  shows "tl_inv (fst (snd (handle_create_tc_reply env s c st)))"
proof (cases "t_state (st_conn s c st) = T_STATE_IN_CREATION")
  case True
  have "tl_inv (fst (upd_st s c (\<lambda>k. no_wait (k\<lparr>t_state := T_STATE_ACTIVE\<rparr>)) st))"
    by (rule tl_inv_upd_st [OF assms(2)]) (use True in \<open>auto simp: conn_ok_def\<close>)
  with True assms(1) show ?thesis by (simp add: handle_create_tc_reply_def tl_inv_notify)
qed (use assms in \<open>simp add: handle_create_tc_reply_def\<close>)

lemma delete_tc_inv:
  assumes "env_ok env" and "tl_inv (fst st)"
  shows "tl_inv (fst (snd (handle_delete_tc env s c st)))"
  unfolding handle_delete_tc_def Let_def case_prod_beta
  using assms by (simp add: tl_inv_notify tl_inv_close)

lemma tl_inv_idle:
  assumes "tl_inv (fst st)" and "tl_here s c (fst st) \<Longrightarrow> t_state (st_conn s c st) \<in> {T_STATE_IN_CREATION, T_STATE_IN_DELETION}"
  shows "tl_inv (fst (upd_st s c (\<lambda>k. k\<lparr>t_state := T_STATE_IDLE\<rparr>) st))"
  by (rule tl_inv_upd_st [OF assms(1)]) (use assms(2) in \<open>auto simp: conn_ok_def\<close>)

lemma delete_tc_reply_inv: "tl_inv (fst st) \<Longrightarrow> tl_inv (fst (snd (handle_delete_tc_reply s c st)))"
  by (simp add: handle_delete_tc_reply_def tl_inv_idle)

lemma request_tc_inv:
  assumes "env_ok env" and "tl_inv (fst st)"
  shows "tl_inv (fst (snd (handle_request_tc env s c st)))"
proof (cases "en50221_tl_alloc_new_tc s (fst st)")
  case None
  then show ?thesis
    unfolding handle_request_tc_def None Let_def case_prod_beta option.case
    using assms by (simp add: tl_inv_no_wait)
next
  case (Some a)
  obtain d t where a: "a = (d, t)" by (cases a)
  have t: "tl_inv t" using alloc_new_tc_inv assms(2) Some unfolding a by blast
  have t': "t = upd_conn s d (\<lambda>k. k\<lparr>t_state := T_STATE_IN_CREATION, chain_buffer := None\<rparr>) (fst st)"
    using Some by (auto simp: a en50221_tl_alloc_new_tc_def)
  have creating: "t_state (conn_at t s d) = T_STATE_IN_CREATION" if "tl_here s d t"
    using that by (simp add: t' conn_at_upd)
  then have "t_state (conn_at (upd_conn s c no_wait t) s d) = T_STATE_IN_CREATION" if "tl_here s d t"
    using conn_at_upd_cases [of s c no_wait t s d] that by auto
  moreover have nw: "tl_inv (upd_conn s c no_wait t)" using tl_inv_no_wait [of "(t, snd st)" s c] t by (simp add: upd_st_def)
  ultimately have idle: "tl_inv (fst (upd_st s d (\<lambda>k. k\<lparr>t_state := T_STATE_IDLE\<rparr>) u))"
    if "fst u = t \<or> fst u = upd_conn s c no_wait t" for u :: "'a tl_st"
    using that creating t by (intro tl_inv_idle) (auto simp: st_conn_def)
  show ?thesis
    unfolding handle_request_tc_def Some a option.case prod.case Let_def case_prod_beta
    using t assms(1) by (simp add: idle nw tl_inv_no_wait tl_inv_notify tl_inv_stamp upd_st_def [of s c])
qed

lemma data_more_inv: "handle_data_more s c data st = Some (r, st') \<Longrightarrow> tl_inv (fst st) \<Longrightarrow> tl_inv (fst st')"
proof -
  assume a: "handle_data_more s c data st = Some (r, st')" "tl_inv (fst st)"
  show ?thesis
  proof (cases "t_state (st_conn s c st) = T_STATE_ACTIVE")
    case True
    with a(1) obtain b where "st' = upd_st s c (\<lambda>k. (no_wait k)\<lparr>chain_buffer := Some b\<rparr>) st"
      by (auto simp: handle_data_more_def Let_def)
    moreover have "tl_inv (fst (upd_st s c (\<lambda>k. (no_wait k)\<lparr>chain_buffer := Some b\<rparr>) st))" for b
      by (rule tl_inv_upd_st [OF a(2)]) (use True in \<open>auto simp: conn_ok_def\<close>)
    ultimately show ?thesis by simp
  qed (use a tl_inv_fail in \<open>auto simp: handle_data_more_def tl_fail_def\<close>)
qed

lemma data_last_inv:
  assumes "handle_data_last env s c data st = Some (r, st')" and "env_ok env" and "tl_inv (fst st)"
  shows "tl_inv (fst st')"
proof -
  have "tl_inv (fst (upd_st s c (\<lambda>k. (no_wait k)\<lparr>chain_buffer := None\<rparr>) st))"
    by (rule tl_inv_upd_st [OF assms(3)]) (auto simp: conn_ok_def)
  then show ?thesis
    using assms tl_inv_no_wait [OF assms(3), of s c]
    by (auto simp: handle_data_last_def Let_def tl_fail_def tl_inv_notify split: if_splits option.splits)
qed

lemma sb_inv: "tl_inv (fst st) \<Longrightarrow> tl_inv (fst (snd (handle_sb env s c data st)))"
  unfolding handle_sb_def Let_def case_prod_beta by (simp add: tl_inv_stamp tl_inv_no_wait)

lemma process_tpdu_inv:
  assumes "process_tpdu env s tag c data st = Some (r, st')" and "env_ok env" and "tl_inv (fst st)"
  shows "tl_inv (fst st')"
proof -
  note i = create_tc_reply_inv [OF assms(2,3), of s c] delete_tc_inv [OF assms(2,3), of s c] delete_tc_reply_inv [OF assms(3), of s c]
    request_tc_inv [OF assms(2,3), of s c] sb_inv [OF assms(3), of env s c data]
  show ?thesis
    using assms(1) i data_more_inv [OF _ assms(3)] data_last_inv [OF _ assms(2,3)] assms(3)
    by (auto simp: process_tpdu_def tl_fail_def split: if_splits)
qed

text \<open>What every TPDU keeps, the whole message keeps.\<close>

lemma process_data_keeps:
  assumes step: "\<And>tag c data st r st'. process_tpdu env s tag c data st = Some (r, st') \<Longrightarrow> I st \<Longrightarrow> I st'"
    and fail: "\<And>i e st. I st \<Longrightarrow> I (snd (tl_fail i e st))"
  shows "en50221_tl_process_data env s data st = Some (r, st') \<Longrightarrow> I st \<Longrightarrow> I st'"
proof (induction "length data" arbitrary: data st rule: less_induct)
  case less
  show ?case
  proof (cases "data = []")
    case False
    show ?thesis
    proof (cases "asn_1_decode (drop 1 data)")
      case None
      with less.prems False fail [of st "int s" EN50221ERR_BADCAMDATA] show ?thesis
        by (subst (asm) en50221_tl_process_data.simps) simp
    next
      case (Some a)
      obtain l n where a: "a = (l, n)" by (cases a)
      show ?thesis
      proof (cases "(l < 1 \<or> unat l > length data - (1 + n)) \<or> max_connections_per_slot (fst st) \<le> unat (data ! (1 + n))")
        case True
        have "I st'" if "tl_fail i e st = (r, st')" for i e
          using fail [OF less.prems(2), of i e] that by simp
        with less.prems False Some True show ?thesis
          unfolding a by (subst (asm) en50221_tl_process_data.simps) (auto split: if_splits)
      next
        case go: False
        let ?rest = "drop (1 + n + 1) data" and ?c = "unat (data ! (1 + n))" and ?len = "unat l - 1"
        have eq: "en50221_tl_process_data env s data st =
            (case process_tpdu env s (data ! 0) ?c (take ?len ?rest) st of None \<Rightarrow> None
             | Some (r, st) \<Rightarrow> if r < 0 then Some (- 1, st) else en50221_tl_process_data env s (drop ?len ?rest) st)"
          using False Some go unfolding a by (subst en50221_tl_process_data.simps) (simp only: Let_def option.case prod.case if_False de_Morgan_disj simp_thms)
        obtain r1 st1 where p: "process_tpdu env s (data ! 0) ?c (take ?len ?rest) st = Some (r1, st1)"
          using less.prems(1) eq by (cases "process_tpdu env s (data ! 0) ?c (take ?len ?rest) st") auto
        have i: "I st1" by (rule step [OF p less.prems(2)])
        show ?thesis
        proof (cases "r1 < 0")
          case True
          with less.prems(1) eq p i show ?thesis by simp
        next
          case r1: False
          with less.prems(1) eq p have "en50221_tl_process_data env s (drop ?len ?rest) st1 = Some (r, st')" by simp
          moreover have "length (drop ?len ?rest) < length data" using False by simp
          ultimately show ?thesis using less.hyps i by blast
        qed
      qed
    qed
  qed (use less.prems in \<open>simp add: en50221_tl_process_data.simps\<close>)
qed

lemma process_data_inv:
  assumes "en50221_tl_process_data env s data st = Some (r, st')" and "env_ok env" and "tl_inv (fst st)"
  shows "tl_inv (fst st')"
  using assms process_data_keeps [where I = "\<lambda>st. tl_inv (fst st)"] process_tpdu_inv by (metis tl_inv_fail)

lemma poll_read_inv:
  assumes "poll_read env s st = Some (r, st')" and "env_ok env" and "tl_inv (fst st)"
  shows "tl_inv (fst st')"
  using assms
  by (auto simp: poll_read_def Let_def tl_fail_def split: if_splits option.splits prod.splits intro: process_data_inv)

lemma poll_send_inv:
  assumes "tl_inv (fst st)"
  shows "tl_inv (fst (snd (poll_send env s c st)))"
proof -
  have i: "tl_inv (fst (stamp_tx env s c (snd (tl_write env c msg (upd_st s c (\<lambda>k. k\<lparr>send_queue := q\<rparr>) st)))))" for msg q
    using assms by (simp add: tl_inv_stamp tl_inv_keep)
  have d: "tl_inv (fst (upd_st s c (\<lambda>k. k\<lparr>t_state := T_STATE_IN_DELETION, chain_buffer := None\<rparr>)
      (stamp_tx env s c (snd (tl_write env c msg (upd_st s c (\<lambda>k. k\<lparr>send_queue := q\<rparr>) st))))))"
    if "t_state (st_conn s c st) \<noteq> T_STATE_IDLE" for msg q
    by (rule tl_inv_upd_st [OF i]) (use that in \<open>auto simp: conn_ok_def stamp_conn st_conn_upd\<close>)
  show ?thesis
    unfolding poll_send_def Let_def case_prod_beta
    using assms i d by (auto simp: tl_inv_keep split: list.split)
qed

lemma poll_idle_inv: "tl_inv (fst st) \<Longrightarrow> tl_inv (fst (snd (poll_idle env s c st)))"
  unfolding poll_idle_def en50221_tl_poll_tc_def Let_def case_prod_beta by (simp add: tl_inv_stamp)

lemma poll_timeout_inv: "tl_inv (fst st) \<Longrightarrow> tl_inv (fst (snd (poll_timeout env s c st)))"
  unfolding poll_timeout_def Let_def case_prod_beta by (simp add: tl_inv_idle st_conn_def)

lemma poll_conn_inv: "tl_inv (fst st) \<Longrightarrow> tl_inv (fst (snd (poll_conn env s c st)))"
  unfolding poll_conn_def Let_def case_prod_beta by (simp add: poll_send_inv poll_idle_inv poll_timeout_inv)

lemma poll_conns_keeps:
  assumes "\<And>c st. I st \<Longrightarrow> I (snd (poll_conn env s c st))"
  shows "I st \<Longrightarrow> I (snd (poll_conns env s cs st))"
  using assms by (induction cs arbitrary: st) (simp_all add: Let_def case_prod_beta)

lemma poll_slots_keeps:
  assumes "\<And>s st r st'. poll_read env s st = Some (r, st') \<Longrightarrow> I st \<Longrightarrow> I st'" and "\<And>s c st. I st \<Longrightarrow> I (snd (poll_conn env s c st))"
  shows "poll_slots env ss st = Some (r, st') \<Longrightarrow> I st \<Longrightarrow> I st'"
proof (induction ss arbitrary: st)
  case (Cons s ss)
  show ?case
  proof (cases "ca_hndl (slots (fst st) ! s) = - 1")
    case True
    with Cons show ?thesis by auto
  next
    case False
    with Cons.prems(1) obtain r1 st1 where 1: "poll_read env s st = Some (r1, st1)" by (cases "poll_read env s st") auto
    obtain r2 st2 where 2: "poll_conns env s [0..<max_connections_per_slot (fst st1)] st1 = (r2, st2)"
      by (cases "poll_conns env s [0..<max_connections_per_slot (fst st1)] st1")
    have i1: "I st1" by (rule assms(1) [OF 1 Cons.prems(2)])
    then have "I st2" using poll_conns_keeps [of I env s st1, OF assms(2)] 2 by (metis snd_conv)
    with i1 1 2 False Cons.prems Cons.IH [of st2] show ?thesis by (simp split: if_splits)
  qed
qed simp

lemma poll_slots_inv:
  assumes "poll_slots env ss st = Some (r, st')" and "env_ok env" and "tl_inv (fst st)"
  shows "tl_inv (fst st')"
  by (rule poll_slots_keeps [where I = "\<lambda>st. tl_inv (fst st)", OF _ _ assms(1,3)])
    (use assms(2) poll_read_inv poll_conn_inv in blast)+

lemma poll_inv:
  assumes "en50221_tl_poll env st = Some (r, st')" and "env_ok env" and "tl_inv (fst st)"
  shows "tl_inv (fst st')"
proof -
  obtain t0 j0 where st: "st = (t0, j0)" by (cases st)
  define t where "t = (if slots_changed (fst st) then (fst st)\<lparr>revents := replicate (max_slots (fst st)) 0, slots_changed := False\<rparr> else fst st)"
  have t: "tl_inv t" using assms(3) by (simp add: t_def tl_inv_def tl_wf_def conn_at_def)
  obtain r1 re j where 1: "ll_poll env (revents t) (snd st) = (r1, re, j)" by (cases "ll_poll env (revents t) (snd st)")
  have "length re = length (revents t)" using assms(2) 1 unfolding env_ok_def by (metis fst_conv snd_conv)
  with t have i: "tl_inv (t\<lparr>revents := re\<rparr>)" by (simp add: tl_inv_def tl_wf_def conn_at_def)
  have "en50221_tl_poll env st = (if r1 < 0 then Some (- 1, t\<lparr>revents := re, tl_error_slot := - 1, tl_error := EN50221ERR_CAREAD\<rparr>, j)
      else poll_slots env [0..<max_slots (t\<lparr>revents := re\<rparr>)] (t\<lparr>revents := re\<rparr>, j))"
    using 1 unfolding st by (simp only: en50221_tl_poll_def Let_def prod.case fst_conv snd_conv t_def [unfolded st fst_conv, symmetric])
  with assms(1,2) i show ?thesis by (auto split: if_splits dest: poll_slots_inv)
qed

text \<open>The requests of the session layer and of the program, and a round of polling.\<close>

inductive tl_step :: "'j tl_env \<Rightarrow> 'j tl_st \<Rightarrow> 'j tl_st \<Rightarrow> bool" for env where
  ts_register: "tl_step env (t, j) (snd (en50221_tl_register_slot hndl slot timeout delay t), j)" if "hndl \<noteq> - 1"
| ts_destroy: "tl_step env st (en50221_tl_destroy_slot env s st)"
| ts_callback: "tl_step env (t, j) (t\<lparr>tl_callback := b\<rparr>, j)"
| ts_send_data: "tl_step env (t, j) (snd (en50221_tl_send_data s c data t), j)"
| ts_send_datav: "tl_step env (t, j) (snd (en50221_tl_send_datav s c vector t), j)"
| ts_new_tc: "tl_step env (t, j) (snd (en50221_tl_new_tc s t), j)"
| ts_del_tc: "tl_step env (t, j) (snd (en50221_tl_del_tc s c t), j)"
| ts_state: "tl_step env (t, j) (snd (en50221_tl_get_connection_state s c t), j)"
| ts_poll: "tl_step env st st'" if "en50221_tl_poll env st = Some (r, st')"

lemma tl_inv_queue: "tl_inv t \<Longrightarrow> tl_inv (queue_message s c msg t)"
  unfolding queue_message_def by (rule tl_inv_upd) (simp_all add: conn_ok_def)

lemma tl_guard_inv: "tl_guard s c t = Some t' \<Longrightarrow> tl_inv t \<Longrightarrow> tl_inv t'"
  by (auto simp: tl_guard_def split: if_splits option.splits)

lemma tl_inv_slot:
  assumes "tl_inv t" and "length (conns (f (slots t ! i))) = length (conns (slots t ! i))"
    and "\<And>c. c < length (conns (slots t ! i)) \<Longrightarrow> conn_ok c (conns (slots t ! i) ! c) \<Longrightarrow> conn_ok c (conns (f (slots t ! i)) ! c)"
  shows "tl_inv (upd_slot i f t)"
proof -
  have "length (conns ((slots t)[i := f (slots t ! i)] ! k)) = length (conns (slots t ! k))" if "k < length (slots t)" for k
    using that assms(2) by (cases "k = i") simp_all
  then have "map (\<lambda>s. length (conns s)) (slots (upd_slot i f t)) = map (\<lambda>s. length (conns s)) (slots t)"
    by (intro nth_equalityI) (simp_all add: upd_slot_def)
  then have w: "tl_wf (upd_slot i f t)" using assms(1) by (simp add: tl_inv_def tl_wf_def) (simp add: upd_slot_def)
  have "conn_ok c (conn_at (upd_slot i f t) s c)" if "s < max_slots t" "c < max_connections_per_slot t" for s c
    using that assms tl_wf_lengths [of t] unfolding tl_inv_def
    by (cases "s = i") (auto simp: conn_at_def upd_slot_def)
  with w show ?thesis by (simp add: tl_inv_def) (simp add: upd_slot_def)
qed

lemma destroy_inv: "env_ok env \<Longrightarrow> tl_inv (fst st) \<Longrightarrow> tl_inv (fst (en50221_tl_destroy_slot env s st))"
  unfolding en50221_tl_destroy_slot_def Let_def case_prod_beta
  by (auto intro!: tl_inv_notify tl_inv_slot simp: conn_ok_def)

lemma register_inv: "tl_inv t \<Longrightarrow> tl_inv (snd (en50221_tl_register_slot hndl slot timeout delay t))"
  by (auto simp: en50221_tl_register_slot_def split: option.split intro!: tl_inv_slot)

lemma send_inv:
  "tl_inv t \<Longrightarrow> tl_inv (snd (en50221_tl_send_data s c data t))"
  "tl_inv t \<Longrightarrow> tl_inv (snd (en50221_tl_send_datav s c vector t))"
  "tl_inv t \<Longrightarrow> tl_inv (snd (en50221_tl_get_connection_state s c t))"
  by (auto simp: en50221_tl_send_data_def en50221_tl_send_datav_def en50221_tl_get_connection_state_def Let_def
      split: option.split intro: tl_guard_inv tl_inv_queue)

lemma new_tc_inv: "tl_inv t \<Longrightarrow> tl_inv (snd (en50221_tl_new_tc s t))"
  by (auto simp: en50221_tl_new_tc_def split: option.split intro: tl_guard_inv tl_inv_queue dest: alloc_new_tc_inv)

lemma del_tc_inv:
  assumes "tl_inv t"
  shows "tl_inv (snd (en50221_tl_del_tc s c t))"
proof (cases "tl_guard s (Some c) t = None \<and> t_state (conn_at t s c) \<in> {T_STATE_ACTIVE, T_STATE_IN_DELETION}")
  case True
  let ?q = "queue_message s c [T_DELETE_T_C, 1, word_of_nat c] t"
  have "t_state (conn_at ?q s c) \<in> {T_STATE_ACTIVE, T_STATE_IN_DELETION}"
    using True conn_at_upd_cases [of s c "\<lambda>k. k\<lparr>send_queue := send_queue k @ [[T_DELETE_T_C, 1, word_of_nat c]]\<rparr>" t s c]
    by (auto simp: queue_message_def)
  then have "tl_inv (upd_conn s c (\<lambda>k. k\<lparr>t_state := T_STATE_ACTIVE_DELETEQUEUED\<rparr>) ?q)"
    by (intro tl_inv_upd tl_inv_queue [OF assms]) (auto simp: conn_ok_def)
  with True show ?thesis by (simp add: en50221_tl_del_tc_def)
qed (use assms tl_guard_inv in \<open>auto simp: en50221_tl_del_tc_def split: option.split\<close>)

lemma tl_good_step: "tl_step env st st' \<Longrightarrow> tl_good env st \<Longrightarrow> tl_good env st'"
proof (induction rule: tl_step.induct)
  case (ts_callback t j b)
  then show ?case by (simp add: tl_good_def tl_inv_def tl_wf_def conn_at_def)
next
  case (ts_poll st st' r)
  then show ?case by (auto simp: tl_good_def intro: poll_inv)
qed (simp_all add: tl_good_def register_inv destroy_inv send_inv new_tc_inv del_tc_inv)

interpretation trans: machine "tl_step env" "tl_good env" for env
  by unfold_locales (rule tl_good_step)

lemma tl_inv_create: "nc < 256 \<Longrightarrow> tl_inv (en50221_tl_create ns nc usec junk)"
  by (simp add: tl_inv_def tl_wf_def en50221_tl_create_def conn_at_def conn_ok_def zero_conn_def)

text \<open>chain_only_open: whatever the module sends and the program requests, in every reachable state of the layer a
  chained message is pending only on an open connection, and connection 0 is idle.\<close>

theorem chain_only_open:
  assumes "env_ok env" and "nc < 256"
    and "(tl_step env)\<^sup>*\<^sup>* (en50221_tl_create ns nc usec junk, j) st"
    and "s < max_slots (fst st)" and "c < max_connections_per_slot (fst st)"
  shows "(chain_buffer (st_conn s c st) \<noteq> None \<longrightarrow> t_state (st_conn s c st) \<in> {T_STATE_ACTIVE, T_STATE_ACTIVE_DELETEQUEUED})
    \<and> (c = 0 \<longrightarrow> t_state (st_conn s c st) = T_STATE_IDLE)"
proof -
  have "tl_good env st" by (rule trans.reach_inv [OF assms(3)]) (simp add: tl_good_def assms(1,2) tl_inv_create)
  then have "conn_ok c (st_conn s c st)" using assms(4,5) by (simp add: tl_good_def tl_inv_conn st_conn_def)
  then show ?thesis by (auto simp: conn_ok_def)
qed

theorem chain_only_open_witness:
  "\<exists>st. (tl_step demo_env)\<^sup>*\<^sup>* (en50221_tl_create 1 2 0 undefined, []) st
    \<and> t_state (st_conn 0 1 st) = T_STATE_IN_CREATION \<and> t_state (st_conn 0 0 st) = T_STATE_IDLE"
proof -
  define t0 where "t0 = en50221_tl_create 1 2 0 undefined"
  define t1 where "t1 = snd (en50221_tl_register_slot 3 0 1000 100 t0)"
  define t2 where "t2 = snd (en50221_tl_new_tc 0 t1)"
  have "tl_step demo_env (t0, []) (t1, [])" unfolding t1_def by (rule ts_register) simp
  moreover have "tl_step demo_env (t1, []) (t2, [])" unfolding t2_def by (rule ts_new_tc)
  ultimately have r: "(tl_step demo_env)\<^sup>*\<^sup>* (t0, []) (t2, [])" by simp
  have t2: "t_state (st_conn 0 1 (t2, [])) = T_STATE_IN_CREATION" "max_slots t2 = 1" "max_connections_per_slot t2 = 2"
    by (simp_all add: t0_def t1_def t2_def en50221_tl_create_def en50221_tl_register_slot_def en50221_tl_new_tc_def tl_guard_def
        en50221_tl_alloc_new_tc_def queue_message_def upd_conn_def upd_slot_def st_conn_def conn_at_def zero_conn_def numeral_2_eq_2)
  have "env_ok demo_env" by (simp add: env_ok_def demo_env_def)
  from chain_only_open [OF this _ r [unfolded t0_def], of 0 0] t2 r show ?thesis by (auto simp: t0_def)
qed

end
