(* ===== verification/SessionProps.thy ===== *)
theory SessionProps
  imports Session TlInv CamSync
begin

text \<open>Properties of \<open>Session\<close>: the messages of sessions, their opening and closing by the module, and the
  invariants of the stack of both layers.\<close>

section \<open>Numbers in messages\<close>

lemma num_of_bytes:
  assumes "n < 65536"
  shows "num_of (word_of_int (drop_bit 8 (int n))) (word_of_int (int n)) = n"
proof -
  have "push_bit 8 (ucast (word_of_int (drop_bit 8 (int n)) :: byte)) OR ucast (word_of_int (int n) :: byte) = (word_of_int (int n) :: u16)"
    by (rule bit_word_eqI) (auto simp: bit_simps)
  then show ?thesis using assms by (simp add: num_of_def unat_of_nat)
qed

lemma num_bytes_split: "num_bytes n = [word_of_int (drop_bit 8 n), word_of_int n]"
  by (simp add: num_bytes_def)


lemma unat_ucast_16: "unat (ucast (b :: byte) :: u16) = unat b"
  using unsigned_less [of b, where ?'a = nat] by (simp add: unsigned_ucast_eq take_bit_nat_eq_self)

section \<open>The session table\<close>

definition sl_ok :: "en50221_session_layer \<Rightarrow> bool" where
  "sl_ok l \<longleftrightarrow> length (sessions l) = max_sessions l \<and> max_sessions l \<le> 65536
     \<and> (0 < max_sessions l \<longrightarrow> sn_state (sessions l ! 0) = S_STATE_IDLE)"

lemma slayer_simps [simp]:
  "slayer (t, l, k) = l" "slayer (set_slayer f st) = f (slayer st)" "fst (set_slayer f st) = fst st" "snd (snd (set_slayer f st)) = snd (snd st)"
  by (simp_all add: slayer_def set_slayer_def)

lemma upd_sess_simps [simp]:
  "fst (upd_sess n f st) = fst st" "snd (snd (upd_sess n f st)) = snd (snd st)"
  "max_sessions (slayer (upd_sess n f st)) = max_sessions (slayer st)" "length (sessions (slayer (upd_sess n f st))) = length (sessions (slayer st))"
  "session_set (slayer (upd_sess n f st)) = session_set (slayer st)"
  by (simp_all add: upd_sess_def)

lemma sess_at_upd:
  assumes "n < length (sessions (slayer st))"
  shows "sess_at n (upd_sess n f st) = f (sess_at n st)"
  using assms by (simp add: sess_at_def upd_sess_def)

lemma sess_at_upd_other: "m \<noteq> n \<Longrightarrow> sess_at m (upd_sess n f st) = sess_at m st"
  by (simp add: sess_at_def upd_sess_def)

lemma set_sl_error_simps [simp]:
  "fst (set_sl_error e st) = fst st" "snd (snd (set_sl_error e st)) = snd (snd st)" "sess_at n (set_sl_error e st) = sess_at n st"
  "sl_ok (slayer (set_sl_error e st)) = sl_ok (slayer st)" "max_sessions (slayer (set_sl_error e st)) = max_sessions (slayer st)"
  by (simp_all add: set_sl_error_def sess_at_def sl_ok_def)

lemma sl_send_simps [simp]:
  "snd (snd (sl_send s c m st)) = snd st" "slayer (snd (sl_send s c m st)) = slayer st" "sess_at n (snd (sl_send s c m st)) = sess_at n st"
  by (simp_all add: sl_send_def slayer_def sess_at_def case_prod_beta)

lemma idle_sess_bound: "idle_sess i ss = Some n \<Longrightarrow> i \<le> n \<and> n < i + length ss \<and> sn_state (ss ! (n - i)) = S_STATE_IDLE"
  by (induction ss arbitrary: i) (force simp: nth_Cons' split: if_splits)+

lemma alloc_session:
  assumes "en50221_sl_alloc_new_session res slot conn cb st = (Some n, st')"
  shows "0 < n \<and> n < length (sessions (slayer st)) \<and> sn_state (sess_at n st) = S_STATE_IDLE
    \<and> st' = upd_sess n (\<lambda>_. \<lparr>sn_state = S_STATE_IN_CREATION, sn_resource_id = res, sn_slot = slot, sn_conn = conn, sn_callback = cb\<rparr>) st"
  using assms idle_sess_bound [of 1 "drop 1 (sessions (slayer st))" n]
  by (auto simp: en50221_sl_alloc_new_session_def sess_at_def split: option.splits)

text \<open>For the examples: two sessions, the second one \<open>x\<close>.\<close>

definition demo_sl :: "en50221_session \<Rightarrow> en50221_session_layer" where
  "demo_sl x = \<lparr>max_sessions = 2, sessions = [\<lparr>sn_state = S_STATE_IDLE, sn_resource_id = 0, sn_slot = 0, sn_conn = 0, sn_callback = None\<rparr>, x],
     sl_error = 0, lookup_set = True, session_set = True\<rparr>"

definition demo_sess :: en50221_session where
  "demo_sess = \<lparr>sn_state = S_STATE_ACTIVE, sn_resource_id = 0x00030041, sn_slot = 0, sn_conn = 1, sn_callback = Some ca_message\<rparr>"

definition demo_ca :: "unit joker_en_h" where
  "demo_ca = en_joker (Some (zero_jen\<lparr>resources :=
     [\<lparr>resid = the (decode_resource_id (MKRID 3 1 1)), binary_resource_id = MKRID 3 1 1, callback = ca_message\<rparr>]\<rparr>))"

text \<open>A resource callback that records the APDU.\<close>

definition demo_app :: "(byte list list) sl_env" where
  "demo_app = \<lparr>sl_lookup = (\<lambda>_ _ st. (- 1, None, 0, st)), sl_session = (\<lambda>_ _ _ _ st. (0, st)),
     sl_resource = (\<lambda>_ _ _ _ a (t, l, k). (t, l, k @ [a])), sl_junk = 0\<rparr>"

lemmas demo_stack = demo_sl_def demo_sess_def slayer_def sess_at_def

section \<open>Packages of APDUs\<close>

text \<open>An APDU as the standard lays it out: a tag of three bytes, the length, the body.\<close>

definition apdu :: "byte list \<times> byte list \<Rightarrow> byte list" where
  "apdu a = fst a @ the (asn_1_encode (word_of_nat (length (snd a))) 3) @ snd a"

definition apdu_ok :: "byte list \<times> byte list \<Rightarrow> bool" where
  "apdu_ok a \<longleftrightarrow> length (fst a) = 3 \<and> length (snd a) < 65536"

lemma apdu_loop_step:
  assumes "apdu_ok a"
  shows "apdu_loop env (Some h) slot n res (apdu a @ rest) st
    = apdu_loop env (Some h) slot n res rest (sl_resource env h slot n res (apdu a) st)"
proof -
  define L :: u16 where "L = word_of_nat (length (snd a))"
  have l: "unat L = length (snd a)" using assms by (simp add: L_def apdu_ok_def unat_of_nat)
  obtain f where f: "asn_1_encode L 3 = Some f" using asn_1_encode_total by blast
  have d: "asn_1_decode (f @ snd a @ rest) = Some (L, length f)" by (rule asn_1_decode_encode [OF f])
  obtain x y z where t: "fst a = [x, y, z]"
    using assms by (auto simp: apdu_ok_def length_Suc_conv numeral_3_eq_3)
  have e: "apdu a = x # y # z # f @ snd a" by (simp add: apdu_def t f L_def [symmetric])
  show ?thesis
    unfolding e by (subst apdu_loop.simps) (simp add: d l numeral_3_eq_3)
qed

lemma apdu_loop_all:
  assumes "list_all apdu_ok as"
  shows "apdu_loop env (Some h) slot n res (concat (map apdu as)) st = fold (sl_resource env h slot n res) (map apdu as) st"
  using assms by (induction "as" arbitrary: st) (simp_all add: apdu_loop_step, simp add: apdu_loop.simps)

text \<open>C27 (package_delivers_apdus): a session package of the module for an open session reaches the resource of the session
  APDU by APDU, each whole and in order, and nothing else happens.\<close>

theorem package_delivers_apdus:
  assumes "sess_ok n S_STATE_ACTIVE slot conn st" and "n < 65536" and "sn_callback (sess_at n st) = Some h" and "list_all apdu_ok as"
  shows "spdu env ([0x90, 2] @ num_bytes (int n) @ concat (map apdu as)) slot conn st
    = fold (sl_resource env h slot n (sn_resource_id (sess_at n st))) (map apdu as) st"
  using assms num_of_bytes [OF assms(2)]
  by (simp add: spdu_def handle_session_package_def num_bytes_def apdu_loop_all)

theorem package_delivers_apdus_witness:
  "spdu demo_app [0x90, 2, 0, 1, 0x9F, 0x80, 0x31, 1, 7, 0x9F, 0x80, 0x30, 0] 0 1 (demo_tl demo_open, demo_sl demo_sess, [])
   = (demo_tl demo_open, demo_sl demo_sess, [[0x9F, 0x80, 0x31, 1, 7], [0x9F, 0x80, 0x30, 0]])"
  using package_delivers_apdus [of 1 0 1 "(demo_tl demo_open, demo_sl demo_sess, [])" ca_message
      "[([0x9F, 0x80, 0x31], [7]), ([0x9F, 0x80, 0x30], [])]" demo_app]
  by (simp add: sess_ok_def demo_stack apdu_ok_def apdu_def asn_1_encode_def num_bytes_def demo_app_def)

text \<open>session_data_framed: what \<open>en50221_sl_send_data\<close> queues for an open session is the TPDU of a package with the
  number of the session and the data; on the other side the number is read back.\<close>

theorem session_data_framed:
  assumes "n < max_sessions (slayer st)" and "n < 65536" and "sn_state (sess_at n st) = S_STATE_ACTIVE"
    and "tl_guard (sn_slot (sess_at n st)) (Some (sn_conn (sess_at n st))) (fst st) = None"
    and "t_state (conn_at (fst st) (sn_slot (sess_at n st)) (sn_conn (sess_at n st))) = T_STATE_ACTIVE"
  shows "en50221_sl_send_data n data st = (0, queue_message (sn_slot (sess_at n st)) (sn_conn (sess_at n st))
      (tpdu T_DATA_LAST (sn_conn (sess_at n st)) ([0x90, 2] @ num_bytes (int n) @ data)) (fst st), snd st)
    \<and> num_of (num_bytes (int n) ! 0) (num_bytes (int n) ! 1) = n"
proof -
  have "sum_list (map length [[0x90, 2] @ num_bytes (int n), data]) + 1 = length ([0x90, 2] @ num_bytes (int n) @ data) + 1"
    by simp
  moreover obtain f where "asn_1_encode (word_of_nat (length ([0x90 :: byte, 2] @ num_bytes (int n) @ data) + 1)) 3 = Some f"
    using asn_1_encode_total by blast
  ultimately show ?thesis
    using assms num_of_bytes [OF assms(2)]
    by (simp add: en50221_sl_send_data_def sl_sendv_def en50221_tl_send_datav_def Let_def tpdu_def num_bytes_def
        del: of_nat_Suc of_nat_add)
qed

theorem session_data_framed_witness:
  "en50221_sl_send_data 1 [0x9F, 0x80, 0x30, 0] (demo_tl demo_open, demo_sl demo_sess, [] :: byte list list)
   = (0, queue_message 0 1 [0xA0, 9, 1, 0x90, 2, 0, 1, 0x9F, 0x80, 0x30, 0] (demo_tl demo_open), demo_sl demo_sess, [])"
proof -
  have "tl_guard 0 (Some 1) (demo_tl demo_open) = None" by (simp add: tl_guard_def) (simp add: demo_tl_def)
  then show ?thesis
    using session_data_framed [of 1 "(demo_tl demo_open, demo_sl demo_sess, [] :: byte list list)" "[0x9F, 0x80, 0x30, 0]"]
    by (simp add: demo_stack num_bytes_def tpdu_def asn_1_encode_def)
qed

section \<open>Opening and closing by the module\<close>


lemma sessions_twice: "(xs[n := a])[n := b] = xs[n := b]"
  by simp



text \<open>The callbacks of the program leave the table of sessions alone.\<close>

definition keeps_layer :: "'k sl_env \<Rightarrow> bool" where
  "keeps_layer env \<longleftrightarrow> (\<forall>r slot n res st. slayer (snd (sl_session env r slot n res st)) = slayer st \<and> fst (snd (sl_session env r slot n res st)) = fst st)"

definition closed_by :: "(en50221_session \<Rightarrow> bool) \<Rightarrow> en50221_session \<Rightarrow> en50221_session" where
  "closed_by P s = (if sn_state s \<noteq> S_STATE_IDLE \<and> P s then s\<lparr>sn_state := S_STATE_IDLE\<rparr> else s)"

lemma inform_keeps:
  "keeps_layer env \<Longrightarrow> slayer (inform env r slot n res st) = slayer st"
  "keeps_layer env \<Longrightarrow> fst (inform env r slot n res st) = fst st"
  by (cases st, simp add: inform_def keeps_layer_def)+

lemma prog_keeps: "keeps_layer (prog_sl_env lib app junk)"
  by (simp add: keeps_layer_def prog_sl_env_def case_prod_beta slayer_def)

lemma close_loop_sessions:
  assumes "keeps_layer env"
  shows "sessions (slayer (close_loop env P is st)) = fold (\<lambda>i ss. ss[i := closed_by P (ss ! i)]) is (sessions (slayer st))
    \<and> fst (close_loop env P is st) = fst st"
proof (induction "is" arbitrary: st)
  case (Cons i "is")
  show ?case
  proof (cases "sn_state (sess_at i st) \<noteq> S_STATE_IDLE \<and> P (sess_at i st)")
    case True
    then have "sessions (slayer (upd_sess i (\<lambda>s. s\<lparr>sn_state := S_STATE_IDLE\<rparr>) st)) = (sessions (slayer st))[i := closed_by P (sessions (slayer st) ! i)]"
      by (simp add: upd_sess_def closed_by_def sess_at_def)
    with True Cons.IH [of "inform env CLOSE (sn_slot (sess_at i st)) i (sn_resource_id (sess_at i st)) (upd_sess i (\<lambda>s. s\<lparr>sn_state := S_STATE_IDLE\<rparr>) st)"]
    show ?thesis by (simp add: Let_def inform_keeps [OF assms])
  next
    case False
    then have "close_loop env P (i # is) st = close_loop env P is st" by (auto simp: Let_def)
    moreover have "(sessions (slayer st))[i := closed_by P (sessions (slayer st) ! i)] = sessions (slayer st)"
      using False by (auto simp: closed_by_def sess_at_def)
    ultimately show ?thesis using Cons.IH by simp
  qed
qed simp

lemma fold_update_all: "n \<le> length ss \<Longrightarrow> fold (\<lambda>i ss. ss[i := f (ss ! i)]) [0..<n] ss = map f (take n ss) @ drop n ss"
proof (induction n)
  case (Suc n)
  then have e: "fold (\<lambda>i ss. ss[i := f (ss ! i)]) [0..<n] ss = map f (take n ss) @ ss ! n # drop (Suc n) ss"
    by (simp add: Cons_nth_drop_Suc)
  with Suc.prems show ?case
    by (simp add: nth_append list_update_append take_Suc_conv_app_nth)
qed simp

text \<open>connection_close_sessions: when a connection is closed exactly the open sessions with its number become idle, on
  every slot: a session of another CAM on a connection with the same number is closed with them.\<close>

theorem connection_close_sessions:
  assumes "length (sessions l) = max_sessions l"
  shows "sessions (slayer (en50221_sl_transport_callback (prog_sl_env lib app junk) (CONNECTIONCLOSE slot conn) (t, l, j)))
    = map (\<lambda>s. if sn_state s \<noteq> S_STATE_IDLE \<and> sn_conn s = conn then s\<lparr>sn_state := S_STATE_IDLE\<rparr> else s) (sessions l)"
proof -
  have "sessions (slayer (close_loop (prog_sl_env lib app junk) (\<lambda>s. sn_conn s = conn) [0..<max_sessions l] (t, l, j)))
    = map (closed_by (\<lambda>s. sn_conn s = conn)) (sessions l)"
    using close_loop_sessions [OF prog_keeps, of lib app junk "\<lambda>s. sn_conn s = conn" "[0..<max_sessions l]" "(t, l, j)"] assms
    by (simp add: fold_update_all)
  then show ?thesis by (simp add: en50221_sl_transport_callback_def closed_by_def cong: map_cong)
qed

theorem connection_close_sessions_witness:
  "sn_state (sess_at 1 (en50221_sl_transport_callback (prog_sl_env ok_lib (\<lambda>_ _ _ _ _ st. st) 0) (CONNECTIONCLOSE 3 1)
     (demo_tl demo_open, demo_sl demo_sess, demo_ca))) = S_STATE_IDLE \<and> sn_slot demo_sess = 0"
  using connection_close_sessions [of "demo_sl demo_sess" ok_lib "\<lambda>_ _ _ _ _ st. st" 0 3 1 "demo_tl demo_open" demo_ca]
  by (simp add: sess_at_def) (simp add: demo_sl_def demo_sess_def)

text \<open>created_session_never_open: the answer of a module to a session the host creates, laid out as the standard does
  (length, status, resource, session), is read one byte too early: with up to 256 sessions and a
  resource whose last byte is not 0 the answer changes nothing, and the session is never open.\<close>

theorem created_session_never_open:
  assumes "max_sessions (slayer st) \<le> 256" and "ucast res \<noteq> (0 :: byte)"
  shows "spdu env ([0x94, 7, status] @ res_bytes res @ num_bytes (int n)) slot conn st = st"
proof -
  have "max_sessions (slayer st) \<le> num_of (ucast res) b" for b
  proof -
    let ?w = "push_bit 8 (ucast (ucast res :: byte)) OR ucast b :: u16"
    have "drop_bit 8 ?w = ucast (ucast res :: byte)"
      by (rule bit_word_eqI) (auto simp: bit_simps dest: bit_imp_le_length)
    then have "unat ?w div 256 = unat (ucast (ucast res :: byte) :: u16)"
      using unat_drop_bit_eq [of 8 ?w] by (simp add: drop_bit_eq_div)
    moreover have "unat (ucast (ucast res :: byte) :: u16) = unat (ucast res :: byte)" by (rule unat_ucast_16)
    moreover have "1 \<le> unat (ucast res :: byte)" using assms(2) by (simp add: unat_gt_0 Suc_le_eq)
    ultimately have "256 \<le> unat ?w" by linarith
    then show ?thesis using assms(1) by (simp add: num_of_def)
  qed
  then show ?thesis
    by (simp add: spdu_def handle_create_session_response_def res_bytes_def num_bytes_def sess_ok_def not_less)
qed

theorem created_session_never_open_witness:
  "let st = (demo_tl demo_open, demo_sl (demo_sess\<lparr>sn_state := S_STATE_IN_CREATION\<rparr>), [])
   in spdu demo_app ([0x94, 7, 0] @ res_bytes 0x00030041 @ num_bytes 1) 0 1 st = st"
  using created_session_never_open [of "(demo_tl demo_open, demo_sl (demo_sess\<lparr>sn_state := S_STATE_IN_CREATION\<rparr>), [])" "0x00030041" demo_app 0 1 0 1]
  by (simp add: demo_sl_def slayer_def Let_def)

text \<open>deleted_session_stuck: the answer to a session the host closes is accepted only with a length field of 4; the
  answer of the standard, which is also the one this layer gives to the module, has 3, so the session
  stays in deletion.\<close>

theorem deleted_session_stuck:
  "handle_close_session_response ([3, status] @ num_bytes (int n)) slot conn st = st
    \<and> spdu env ([0x96, 3, status] @ num_bytes (int n)) slot conn st = st"
  by (simp add: spdu_def handle_close_session_response_def num_bytes_def)

end
