(* ===== verification/StackInv.thy ===== *)
theory StackInv
  imports SessionProps
begin

text \<open>
  The transport layer and the session layer together. \<open>tl_below\<close> is the interface of the transport
  layer to what it runs on and calls: a property of that state which the link layer and the callback
  keep is kept by every operation of the layer. The session layer of the program is an instance, so
  that both tables are well-formed in every reachable state of the stack.
\<close>

section \<open>The interface\<close>

locale tl_below =
  fixes K :: "'j \<Rightarrow> bool" and env :: "'j tl_env"
  assumes write_K: "K j \<Longrightarrow> K (snd (link_write env c b j))"
    and read_K: "K j \<Longrightarrow> link_read env n j = Some (r, s, c', d, j') \<Longrightarrow> K j'"
    and poll_K: "K j \<Longrightarrow> K (snd (snd (ll_poll env re j)))"
    and cb_K: "K (snd st) \<Longrightarrow> K (snd (tl_cb env ev st))"
begin

lemma notify_K: "K (snd st) \<Longrightarrow> K (snd (notify env ev st))"
  by (simp add: notify_def cb_K)

lemma tl_write_K: "K (snd st) \<Longrightarrow> K (snd (snd (tl_write env c b st)))"
  by (simp add: write_K)

lemma handlers_K:
  assumes "K (snd st)"
  shows "K (snd (snd (handle_create_tc_reply env s c st)))" "K (snd (snd (handle_delete_tc env s c st)))"
    "K (snd (snd (handle_delete_tc_reply s c st)))" "K (snd (snd (handle_sb env s c data st)))"
    "K (snd (snd (handle_request_tc env s c st)))"
proof -
  show "K (snd (snd (handle_create_tc_reply env s c st)))"
    using assms by (simp add: handle_create_tc_reply_def notify_K)
  show "K (snd (snd (handle_delete_tc env s c st)))"
    unfolding handle_delete_tc_def Let_def case_prod_beta using assms by (simp add: notify_K write_K)
  show "K (snd (snd (handle_delete_tc_reply s c st)))"
    using assms by (simp add: handle_delete_tc_reply_def)
  show "K (snd (snd (handle_sb env s c data st)))"
    unfolding handle_sb_def Let_def case_prod_beta using assms by (simp add: write_K)
  show "K (snd (snd (handle_request_tc env s c st)))"
    unfolding handle_request_tc_def Let_def case_prod_beta using assms by (simp add: notify_K write_K split: option.split)
qed

lemma data_K:
  assumes "K (snd st)"
  shows "handle_data_more s c data st = Some (r, st') \<Longrightarrow> K (snd st')"
    "handle_data_last env s c data st = Some (r, st') \<Longrightarrow> K (snd st')"
  using assms
  by (auto simp: handle_data_more_def handle_data_last_def Let_def tl_fail_def notify_K split: if_splits option.splits)

lemma process_tpdu_K:
  assumes "process_tpdu env s tag c data st = Some (r, st')" and "K (snd st)"
  shows "K (snd st')"
  using assms handlers_K(1,2,3,5) [OF assms(2), of s c] handlers_K(4) [OF assms(2), of s c data] data_K [OF assms(2)]
  by (auto simp: process_tpdu_def tl_fail_def split: if_splits)

lemma process_data_K:
  assumes "en50221_tl_process_data env s data st = Some (r, st')" and "K (snd st)"
  shows "K (snd st')"
  by (rule process_data_keeps [where I = "\<lambda>st. K (snd st)", OF _ _ assms]) (use process_tpdu_K in \<open>auto simp: tl_fail_def\<close>)

lemma read_process_K:
  "link_read env n j = Some (x, sl, c, d, j') \<Longrightarrow> en50221_tl_process_data env s data (t, j') = Some (r, st') \<Longrightarrow> K j \<Longrightarrow> K (snd st')"
  using process_data_K [of s data "(t, j')" r st'] read_K by simp

lemma poll_read_K:
  assumes "poll_read env s st = Some (r, st')" and "K (snd st)"
  shows "K (snd st')"
  using assms
  by (auto simp: poll_read_def Let_def tl_fail_def split: if_splits option.splits prod.splits
      dest: read_K read_process_K)

lemma poll_conn_K:
  assumes "K (snd st)"
  shows "K (snd (snd (poll_conn env s c st)))"
proof -
  have 1: "K (snd (snd (poll_send env s c st)))" if "K (snd st)" for st
    unfolding poll_send_def Let_def case_prod_beta using that by (simp add: write_K split: list.split)
  have 2: "K (snd (snd (poll_idle env s c st)))" if "K (snd st)" for st
    unfolding poll_idle_def en50221_tl_poll_tc_def Let_def case_prod_beta using that by (simp add: write_K)
  have 3: "K (snd (snd (poll_timeout env s c st)))" if "K (snd st)" for st
    unfolding poll_timeout_def Let_def case_prod_beta using that by simp
  show ?thesis
    unfolding poll_conn_def Let_def case_prod_beta using assms by (simp add: 1 2 3)
qed

lemma poll_K_all:
  assumes "en50221_tl_poll env st = Some (r, st')" and "K (snd st)"
  shows "K (snd st')"
proof -
  have *: "poll_slots env ss u = Some (q, u') \<Longrightarrow> K (snd u) \<Longrightarrow> K (snd u')" for ss u q u'
    by (rule poll_slots_keeps [where I = "\<lambda>st. K (snd st)"]) (use poll_read_K poll_conn_K in blast)+
  obtain t j where st: "st = (t, j)" by (cases st)
  define t1 where "t1 = (if slots_changed t then t\<lparr>revents := replicate (max_slots t) 0, slots_changed := False\<rparr> else t)"
  obtain q re j1 where p: "ll_poll env (revents t1) j = (q, re, j1)" by (cases "ll_poll env (revents t1) j")
  have j1: "K j1" using poll_K [of j "revents t1"] assms(2) p by (simp add: st)
  have "en50221_tl_poll env st = (if q < 0 then Some (- 1, t1\<lparr>revents := re, tl_error_slot := - 1, tl_error := EN50221ERR_CAREAD\<rparr>, j1)
      else poll_slots env [0..<max_slots (t1\<lparr>revents := re\<rparr>)] (t1\<lparr>revents := re\<rparr>, j1))"
    unfolding st en50221_tl_poll_def Let_def prod.case t1_def [symmetric] p by simp
  with assms(1) j1 show ?thesis by (auto split: if_splits dest: *)
qed

lemma step_K: "tl_step env st st' \<Longrightarrow> K (snd st) \<Longrightarrow> K (snd st')"
proof (induction rule: tl_step.induct)
  case (ts_destroy st s)
  then show ?case
    unfolding en50221_tl_destroy_slot_def Let_def case_prod_beta by (simp add: notify_K)
next
  case (ts_poll st st' r)
  then show ?case by (rule poll_K_all)
qed simp_all

end

section \<open>The session layer keeps both tables\<close>

text \<open>What the resource callbacks of the program may do: use the layers through their operations.\<close>

definition apps_ok ::
  "(en_handler \<Rightarrow> nat \<Rightarrow> nat \<Rightarrow> u32 \<Rightarrow> byte list \<Rightarrow> 'k sl_st \<Rightarrow> 'k sl_st) \<Rightarrow> bool" where
  "apps_ok app \<longleftrightarrow> (\<forall>h slot n res a st. (tl_inv (fst st) \<longrightarrow> tl_inv (fst (app h slot n res a st)))
     \<and> (sl_ok (slayer st) \<longrightarrow> sl_ok (slayer (app h slot n res a st))))"

lemma apps_okD:
  "apps_ok app \<Longrightarrow> tl_inv (fst st) \<Longrightarrow> tl_inv (fst (app h slot n res a st))"
  "apps_ok app \<Longrightarrow> sl_ok (slayer st) \<Longrightarrow> sl_ok (slayer (app h slot n res a st))"
  by (cases st, simp add: apps_ok_def)+

lemma sl_ok_upd:
  assumes "sl_ok (slayer st)" and "n = 0 \<Longrightarrow> sn_state (f (sess_at 0 st)) = S_STATE_IDLE"
  shows "sl_ok (slayer (upd_sess n f st))"
  using assms by (cases "n = 0") (auto simp: sl_ok_def upd_sess_def sess_at_def)

lemma sl_ok_idle: "sl_ok (slayer st) \<Longrightarrow> sl_ok (slayer (upd_sess n (\<lambda>s. s\<lparr>sn_state := S_STATE_IDLE\<rparr>) st))"
  by (simp add: sl_ok_upd)

lemma sess_ok_pos: "sess_ok n s slot conn st \<Longrightarrow> sl_ok (slayer st) \<Longrightarrow> s \<noteq> S_STATE_IDLE \<Longrightarrow> 0 < n"
  by (cases "n = 0") (auto simp: sess_ok_def sl_ok_def sess_at_def)

lemma sl_send_inv [simp]: "tl_inv (fst st) \<Longrightarrow> tl_inv (fst (snd (sl_send s c m st)))"
  by (simp add: sl_send_def case_prod_beta send_inv)

lemma alloc_session_inv:
  "tl_inv (fst st) \<Longrightarrow> tl_inv (fst (snd (en50221_sl_alloc_new_session res slot conn cb st)))"
  "sl_ok (slayer st) \<Longrightarrow> sl_ok (slayer (snd (en50221_sl_alloc_new_session res slot conn cb st)))"
  "en50221_sl_alloc_new_session res slot conn cb st = (Some n, st') \<Longrightarrow> 0 < n"
  using idle_sess_bound [of 1 "drop 1 (sessions (slayer st))"]
  by (auto simp: en50221_sl_alloc_new_session_def split: option.split option.splits intro!: sl_ok_upd)

lemma finish_open_inv:
  assumes "keeps_layer env"
  shows "tl_inv (fst st) \<Longrightarrow> tl_inv (fst (finish_open env status n slot res st))"
    "sl_ok (slayer st) \<Longrightarrow> 0 < n \<Longrightarrow> sl_ok (slayer (finish_open env status n slot res st))"
  unfolding finish_open_def Let_def using assms by (simp_all add: inform_keeps sl_ok_upd)

lemma open_session_inv:
  assumes "keeps_layer env"
  shows "tl_inv (fst st) \<Longrightarrow> tl_inv (fst (snd (snd (open_session env status cb res slot conn st))))"
    "sl_ok (slayer st) \<Longrightarrow> sl_ok (slayer (snd (snd (open_session env status cb res slot conn st))))"
    "fst (snd (open_session env status cb res slot conn st)) = Some n \<Longrightarrow> 0 < n"
proof -
  obtain x s1 where a: "en50221_sl_alloc_new_session res slot conn cb st = (x, s1)"
    by (cases "en50221_sl_alloc_new_session res slot conn cb st")
  have k: "fst (snd (sl_session env r s n q u)) = fst u" "slayer (snd (sl_session env r s n q u)) = slayer u" for r s n q u
    using assms by (cases u, simp add: keeps_layer_def)+
  note i = alloc_session_inv [where st = st and res = res and slot = slot and conn = conn and cb = cb, unfolded a]
  show "tl_inv (fst st) \<Longrightarrow> tl_inv (fst (snd (snd (open_session env status cb res slot conn st))))"
    "sl_ok (slayer st) \<Longrightarrow> sl_ok (slayer (snd (snd (open_session env status cb res slot conn st))))"
    "fst (snd (open_session env status cb res slot conn st)) = Some n \<Longrightarrow> 0 < n"
    using i by (auto simp: open_session_def a case_prod_beta k Let_def split: option.split option.splits if_splits)
qed

text \<open>The callback of the program, event by event.\<close>

lemma prog_lookup: "snd (snd (snd (sl_lookup (prog_sl_env lib app junk) slot req st))) = st"
  by (simp add: prog_sl_env_def case_prod_beta)

lemma open_request_inv:
  fixes lib app junk
  defines "env \<equiv> prog_sl_env lib app junk"
  shows "tl_inv (fst st) \<Longrightarrow> tl_inv (fst (handle_open_session_request env data slot conn st))"
    "sl_ok (slayer st) \<Longrightarrow> sl_ok (slayer (handle_open_session_request env data slot conn st))"
proof -
  have k: "keeps_layer env" by (simp add: env_def prog_keeps)
  define q where "q = (if lookup_set (slayer st)
     then let (r, cb, res, st) = sl_lookup env slot (res_of (data ! 1) (data ! 2) (data ! 3) (data ! 4)) st in (lookup_status r, cb, res, st)
     else (S_STATUS_CLOSE_NO_RES, None, sl_junk env, st))"
  obtain status cb res u where q': "q = (status, cb, res, u)" by (cases q)
  have u: "u = st"
    using q' prog_lookup [of lib app junk slot _ st] by (simp add: q_def env_def case_prod_beta split: if_splits) (metis snd_conv)
  obtain status' num st1 where o1: "open_session env status cb res slot conn st = (status', num, st1)"
    by (cases "open_session env status cb res slot conn st")
  note oi = open_session_inv [OF k, where st = st and status = status and cb = cb and res = res and slot = slot and conn = conn, unfolded o1]
  define nb where "nb = (case num of None \<Rightarrow> - 1 | Some n \<Rightarrow> int n)"
  define w where "w = sl_send slot conn ([ST_OPEN_SESSION_RES, 7, word_of_int status'] @ res_bytes res @ num_bytes nb) st1"
  have eq: "handle_open_session_request env data slot conn st = (if length data < 5 then st else if data ! 0 \<noteq> 4 then st
      else case num of None \<Rightarrow> snd w | Some n \<Rightarrow> finish_open env (if fst w \<noteq> 0 then S_STATUS_CLOSE_NO_RES else status') n slot res (snd w))"
    unfolding handle_open_session_request_def Let_def q_def [unfolded Let_def, symmetric] q' u prod.case o1 nb_def [symmetric] w_def [symmetric]
    by (simp add: case_prod_beta)
  show "tl_inv (fst st) \<Longrightarrow> tl_inv (fst (handle_open_session_request env data slot conn st))"
    unfolding eq using oi(1) by (simp add: w_def finish_open_inv [OF k] split: option.split)
  show "sl_ok (slayer st) \<Longrightarrow> sl_ok (slayer (handle_open_session_request env data slot conn st))"
    unfolding eq using oi(2,3) by (simp add: w_def finish_open_inv [OF k] split: option.split)
qed

lemma close_request_inv:
  assumes "keeps_layer env"
  shows "tl_inv (fst st) \<Longrightarrow> tl_inv (fst (handle_close_session_request env data slot conn st))"
    "sl_ok (slayer st) \<Longrightarrow> sl_ok (slayer (handle_close_session_request env data slot conn st))"
  unfolding handle_close_session_request_def Let_def case_prod_beta using assms by (simp_all add: inform_keeps sl_ok_idle)

lemma create_response_inv:
  assumes "keeps_layer env"
  shows "tl_inv (fst st) \<Longrightarrow> tl_inv (fst (handle_create_session_response env data slot conn st))"
    "sl_ok (slayer st) \<Longrightarrow> sl_ok (slayer (handle_create_session_response env data slot conn st))"
proof -
  show "tl_inv (fst st) \<Longrightarrow> tl_inv (fst (handle_create_session_response env data slot conn st))"
    unfolding handle_create_session_response_def Let_def using assms by (simp add: inform_keeps)
  assume s: "sl_ok (slayer st)"
  have p: "\<not> sess_ok 0 S_STATE_IN_CREATION slot conn st" using sess_ok_pos [OF _ s] by fastforce
  show "sl_ok (slayer (handle_create_session_response env data slot conn st))"
    unfolding handle_create_session_response_def Let_def using s p by (auto simp: inform_keeps [OF assms] intro!: sl_ok_upd)
qed

lemma close_response_inv:
  "tl_inv (fst st) \<Longrightarrow> tl_inv (fst (handle_close_session_response data slot conn st))"
  "sl_ok (slayer st) \<Longrightarrow> sl_ok (slayer (handle_close_session_response data slot conn st))"
  unfolding handle_close_session_response_def Let_def by (simp_all add: sl_ok_idle)

lemma apdu_loop_keeps:
  assumes "\<And>h slot n res a st. I st \<Longrightarrow> I (sl_resource env h slot n res a st)"
  shows "I st \<Longrightarrow> I (apdu_loop env cb slot n res data st)"
proof (induction "length data" arbitrary: data st rule: less_induct)
  case less
  show ?case
    using less assms by (subst apdu_loop.simps) (auto simp: Let_def split: option.split)
qed

lemma close_loop_inv:
  assumes "keeps_layer env"
  shows "tl_inv (fst st) \<Longrightarrow> tl_inv (fst (close_loop env P is st))" "sl_ok (slayer st) \<Longrightarrow> sl_ok (slayer (close_loop env P is st))"
  using assms by (induction "is" arbitrary: st) (simp_all add: Let_def inform_keeps sl_ok_idle)

lemma callback_inv:
  fixes lib app junk
  defines "env \<equiv> prog_sl_env lib app junk"
  assumes "apps_ok app"
  shows "tl_inv (fst st) \<Longrightarrow> tl_inv (fst (en50221_sl_transport_callback env ev st))"
    "sl_ok (slayer st) \<Longrightarrow> sl_ok (slayer (en50221_sl_transport_callback env ev st))"
proof -
  have k: "keeps_layer env" by (simp add: env_def prog_keeps)
  have r: "sl_resource env = app" by (simp add: env_def prog_sl_env_def)
  have t: "tl_inv (fst st) \<Longrightarrow> tl_inv (fst (spdu env data slot conn st))" for data slot conn
    using open_request_inv(1) [of st lib app junk, folded env_def] close_request_inv(1) [OF k] create_response_inv(1) [OF k]
      apdu_loop_keeps [where I = "\<lambda>st. tl_inv (fst st)" and env = env] apps_okD(1) [OF assms(2)]
    by (simp add: spdu_def handle_session_package_def close_response_inv Let_def r)
  have s: "sl_ok (slayer st) \<Longrightarrow> sl_ok (slayer (spdu env data slot conn st))" for data slot conn
    using open_request_inv(2) [of st lib app junk, folded env_def] close_request_inv(2) [OF k] create_response_inv(2) [OF k]
      apdu_loop_keeps [where I = "\<lambda>st. sl_ok (slayer st)" and env = env] apps_okD(2) [OF assms(2)]
    by (simp add: spdu_def handle_session_package_def close_response_inv Let_def r)
  show "tl_inv (fst st) \<Longrightarrow> tl_inv (fst (en50221_sl_transport_callback env ev st))"
    using t by (simp add: en50221_sl_transport_callback_def inform_keeps [OF k] close_loop_inv [OF k] split: tl_event.split)
  show "sl_ok (slayer st) \<Longrightarrow> sl_ok (slayer (en50221_sl_transport_callback env ev st))"
    using s by (simp add: en50221_sl_transport_callback_def inform_keeps [OF k] close_loop_inv [OF k] split: tl_event.split)
qed

section \<open>The stack\<close>

interpretation stack: tl_below "\<lambda>(l, k). apps_ok app \<and> sl_ok l" "stack_env e (prog_sl_env lib app junk)" for app e lib junk
proof
  fix st :: "(en50221_session_layer \<times> ('a, 'b) joker_en_h_scheme) tl_st" and ev
  assume "case snd st of (l, k) \<Rightarrow> apps_ok app \<and> sl_ok l"
  then show "case snd (tl_cb (stack_env e (prog_sl_env lib app junk)) ev st) of (l, k) \<Rightarrow> apps_ok app \<and> sl_ok l"
    using callback_inv(2) [of app st lib junk ev] by (simp add: stack_env_def slayer_def case_prod_beta)
qed (auto simp: stack_env_def case_prod_beta)

text \<open>The steps: those of the transport layer, and the requests of the program to the session layer.\<close>

inductive stack_step ::
  "('d, 'z) joker_en_h_scheme tl_env \<Rightarrow> ('d, 'z) joker_en_h_scheme sl_env \<Rightarrow> ('d, 'z) joker_en_h_scheme sl_st
    \<Rightarrow> ('d, 'z) joker_en_h_scheme sl_st \<Rightarrow> bool" for e env where
  ss_tl: "stack_step e env st st'" if "tl_step (stack_env e env) st st'"
| ss_create: "stack_step e env st (snd (en50221_sl_create_session slot conn res cb st))"
| ss_destroy: "stack_step e env st (snd (en50221_sl_destroy_session n st))"
| ss_send: "stack_step e env st (snd (en50221_sl_send_data n data st))"
| ss_sendv: "stack_step e env st (snd (en50221_sl_send_datav n vector st))"
| ss_broadcast: "stack_step e env st (snd (en50221_sl_broadcast_data slot' res data st))"
| ss_register: "stack_step e env st (set_slayer (\<lambda>l. l\<lparr>lookup_set := a, session_set := b\<rparr>) st)"
| ss_below: "stack_step e env (t, l, k) (t, l, k')"

lemma sl_sendv_simps [simp]:
  "tl_inv (fst st) \<Longrightarrow> tl_inv (fst (snd (sl_sendv s c m st)))" "slayer (snd (sl_sendv s c m st)) = slayer st"
  by (simp_all add: sl_sendv_def case_prod_beta send_inv slayer_def)

lemma tl_failed_simps [simp]:
  "fst (snd (tl_failed st)) = fst st" "sl_ok (slayer (snd (tl_failed st))) = sl_ok (slayer st)"
  by (simp_all add: tl_failed_def)

lemma create_session_inv:
  "tl_inv (fst st) \<Longrightarrow> tl_inv (fst (snd (en50221_sl_create_session slot conn res cb st)))"
  "sl_ok (slayer st) \<Longrightarrow> sl_ok (slayer (snd (en50221_sl_create_session slot conn res cb st)))"
proof -
  obtain x u where a: "en50221_sl_alloc_new_session res slot conn cb st = (x, u)"
    by (cases "en50221_sl_alloc_new_session res slot conn cb st")
  note i = alloc_session_inv(1,2) [where st = st and res = res and slot = slot and conn = conn and cb = cb, unfolded a]
  show "tl_inv (fst st) \<Longrightarrow> tl_inv (fst (snd (en50221_sl_create_session slot conn res cb st)))"
    "sl_ok (slayer st) \<Longrightarrow> sl_ok (slayer (snd (en50221_sl_create_session slot conn res cb st)))"
    unfolding en50221_sl_create_session_def a Let_def case_prod_beta using i by (simp_all add: sl_ok_idle split: option.split)
qed

lemma destroy_session_inv:
  "tl_inv (fst st) \<Longrightarrow> tl_inv (fst (snd (en50221_sl_destroy_session n st)))"
  "sl_ok (slayer st) \<Longrightarrow> sl_ok (slayer (snd (en50221_sl_destroy_session n st)))"
proof -
  show "tl_inv (fst st) \<Longrightarrow> tl_inv (fst (snd (en50221_sl_destroy_session n st)))"
    unfolding en50221_sl_destroy_session_def Let_def case_prod_beta by simp
  assume s: "sl_ok (slayer st)"
  have "n \<noteq> 0" if "n < max_sessions (slayer st)" "sn_state (sess_at n st) \<in> {S_STATE_ACTIVE, S_STATE_IN_DELETION}"
    using s that by (cases "n = 0") (auto simp: sl_ok_def sess_at_def)
  then show "sl_ok (slayer (snd (en50221_sl_destroy_session n st)))"
    unfolding en50221_sl_destroy_session_def Let_def case_prod_beta using s
    by (auto simp: sl_ok_idle sl_ok_upd)
qed

lemma sl_send_data_inv:
  "tl_inv (fst st) \<Longrightarrow> tl_inv (fst (snd (en50221_sl_send_data n data st)))"
  "sl_ok (slayer st) \<Longrightarrow> sl_ok (slayer (snd (en50221_sl_send_data n data st)))"
  "tl_inv (fst st) \<Longrightarrow> tl_inv (fst (snd (en50221_sl_send_datav n vector st)))"
  "sl_ok (slayer st) \<Longrightarrow> sl_ok (slayer (snd (en50221_sl_send_datav n vector st)))"
  unfolding en50221_sl_send_data_def en50221_sl_send_datav_def Let_def case_prod_beta by simp_all

lemma broadcast_loop_inv:
  "tl_inv (fst st) \<Longrightarrow> tl_inv (fst (broadcast_loop slot res data is st))"
  "sl_ok (slayer st) \<Longrightarrow> sl_ok (slayer (broadcast_loop slot res data is st))"
  by (induction "is" arbitrary: st) (simp_all add: Let_def sl_send_data_inv)

definition stack_good ::
  "('d, 'z) joker_en_h_scheme tl_env \<Rightarrow> (en_handler \<Rightarrow> nat \<Rightarrow> nat \<Rightarrow> u32 \<Rightarrow> byte list \<Rightarrow> ('d, 'z) joker_en_h_scheme sl_st \<Rightarrow> ('d, 'z) joker_en_h_scheme sl_st)
    \<Rightarrow> ('d, 'z) joker_en_h_scheme sl_st \<Rightarrow> bool" where
  "stack_good e app st \<longleftrightarrow> apps_ok app \<and> (\<forall>re j. length (fst (snd (ll_poll e re j))) = length re)
     \<and> tl_inv (fst st) \<and> sl_ok (slayer st)"

lemma env_ok_stack:
  assumes "apps_ok app" and "\<And>re j. length (fst (snd (ll_poll e re j))) = length re"
  shows "env_ok (stack_env e (prog_sl_env lib app junk))"
  using assms callback_inv(1) [OF assms(1)] by (auto simp: env_ok_def stack_env_def case_prod_beta)

lemma stack_good_step:
  "stack_step e (prog_sl_env lib app junk) st st' \<Longrightarrow> stack_good e app st \<Longrightarrow> stack_good e app st'"
proof (induction rule: stack_step.induct)
  case (ss_tl st st')
  let ?env = "stack_env e (prog_sl_env lib app junk)"
  have g: "apps_ok app" "env_ok ?env" "tl_inv (fst st)" "sl_ok (slayer st)"
    using ss_tl.prems env_ok_stack by (auto simp: stack_good_def)
  have "tl_inv (fst st')" using tl_good_step [OF ss_tl.hyps] g by (simp add: tl_good_def)
  moreover have "case snd st' of (l, k) \<Rightarrow> apps_ok app \<and> sl_ok l"
    by (rule stack.step_K [OF ss_tl.hyps]) (use g in \<open>simp add: slayer_def case_prod_beta\<close>)
  ultimately show ?case using ss_tl.prems by (simp add: stack_good_def slayer_def case_prod_beta)
next
  case (ss_register a b st)
  then show ?case by (simp add: stack_good_def sl_ok_def)
next
  case (ss_below t l k k')
  then show ?case by (simp add: stack_good_def)
qed (simp_all add: stack_good_def create_session_inv destroy_session_inv sl_send_data_inv broadcast_loop_inv en50221_sl_broadcast_data_def)

interpretation stack_machine: machine "stack_step e (prog_sl_env lib app junk)" "stack_good e app" for e lib app junk
  by unfold_locales (rule stack_good_step)

lemma stack_reach:
  assumes "apps_ok app" and "\<And>re j. length (fst (snd (ll_poll e re j))) = length re" and "nc < 256" and "0 < ms" and "ms \<le> 65536"
    and "(stack_step e (prog_sl_env lib app junk))\<^sup>*\<^sup>*
      (en50221_tl_create ns nc usec slot0, en50221_sl_create ms sess0, j) st"
    and "s < max_slots (fst st)" and "c < max_connections_per_slot (fst st)"
  shows "length (sessions (slayer st)) = max_sessions (slayer st)
    \<and> (0 < max_sessions (slayer st) \<longrightarrow> sn_state (sess_at 0 st) = S_STATE_IDLE)
    \<and> (chain_buffer (st_conn s c st) \<noteq> None \<longrightarrow> t_state (st_conn s c st) \<in> {T_STATE_ACTIVE, T_STATE_ACTIVE_DELETEQUEUED})
    \<and> (c = 0 \<longrightarrow> t_state (st_conn s c st) = T_STATE_IDLE)"
proof -
  have "sl_ok (en50221_sl_create ms sess0)" using assms(4,5) by (simp add: sl_ok_def en50221_sl_create_def)
  with assms(1-3) have "stack_good e app (en50221_tl_create ns nc usec slot0, en50221_sl_create ms sess0, j)"
    by (simp add: stack_good_def tl_inv_create)
  from stack_machine.reach_inv [OF assms(6) this] have g: "tl_inv (fst st)" "sl_ok (slayer st)" by (simp_all add: stack_good_def)
  from tl_inv_conn [OF g(1) assms(7,8)] g(2) show ?thesis
    by (auto simp: sl_ok_def sess_at_def st_conn_def conn_ok_def)
qed

end
