(* ===== verification/PmtSection.thy ===== *)
theory PmtSection
  imports Prelude
begin

text \<open>
  The section parser of \<open>3party/libucsi\<close> as far as the program uses it: \<open>section.h\<close> (the section
  header and its extension), \<open>descriptor.h\<close> (the check and the walk of a descriptor loop) and
  \<open>mpeg/pmt_section.c\<close>, \<open>mpeg/pmt_section.h\<close>. The codecs work in place: they swap the bytes of every
  16-bit field of the buffer, and the accessors read the swapped fields as the bit fields of a
  little-endian machine, lowest bits first. The buffer is the bytes of the section and no more; an
  access outside it is the value \<open>None\<close>, a \<open>NULL\<close> result \<open>Some None\<close>. The last part states what the
  codec accepts: exactly the byte layout of a program map section.
\<close>

section \<open>The buffer\<close>

definition bswap16 :: "nat \<Rightarrow> byte list \<Rightarrow> byte list option" where
  "bswap16 pos buf = (if pos + 1 < length buf then Some (buf[pos := buf ! (pos + 1), pos + 1 := buf ! pos]) else None)"

definition le_field :: "byte list \<Rightarrow> nat \<Rightarrow> u16" where
  "le_field buf pos = ucast (buf ! pos) OR push_bit 8 (ucast (buf ! (pos + 1)))"

definition bytes_at :: "byte list \<Rightarrow> nat \<Rightarrow> nat \<Rightarrow> byte list option" where
  "bytes_at buf off n = (if off + n \<le> length buf then Some (take n (drop off buf)) else None)"

section \<open>Section headers\<close>

definition section_field_length :: "byte list \<Rightarrow> nat" where
  "section_field_length buf = unat (le_field buf 1 AND 0xfff)"

definition syntax_indicator :: "byte list \<Rightarrow> bool" where
  "syntax_indicator buf = bit (le_field buf 1) 15"

text \<open>\<open>size_t\<close> arithmetic: a section of length 0 has an extended length of \<open>2 ^ 64 - 1\<close>.\<close>

definition section_ext_length :: "byte list \<Rightarrow> nat" where
  "section_ext_length buf = unat (word_of_nat (section_field_length buf) + 3 - 4 :: u64)"

definition table_id_ext :: "byte list \<Rightarrow> u16" where "table_id_ext buf = le_field buf 3"
definition version_number :: "byte list \<Rightarrow> byte" where "version_number buf = drop_bit 1 (buf ! 5) AND 0x1f"
definition current_next_indicator :: "byte list \<Rightarrow> bool" where "current_next_indicator buf = bit (buf ! 5) 0"

definition section_codec :: "byte list \<Rightarrow> byte list option option" where
  "section_codec buf =
     (if length buf < 3 then Some None
      else
        (case bswap16 1 buf of
           None \<Rightarrow> None
         | Some b \<Rightarrow> if length buf \<noteq> section_field_length b + 3 then Some None else Some (Some b)))"

text \<open>With \<open>check_crc\<close> 0, as the program calls it.\<close>

definition section_ext_decode :: "byte list \<Rightarrow> byte list option option" where
  "section_ext_decode buf =
     (if \<not> syntax_indicator buf then Some None
      else (case bswap16 3 buf of None \<Rightarrow> None | Some b \<Rightarrow> Some (Some b)))"

section \<open>Descriptor loops\<close>

fun verify_descriptors :: "byte list \<Rightarrow> bool" where
  "verify_descriptors [] = True"
| "verify_descriptors [t] = False"
| "verify_descriptors (t # l # ds) = (if length ds < unat l then False else verify_descriptors (drop (unat l) ds))"

text \<open>The offsets a walk over the descriptors from \<open>pos\<close> visits, up to the end \<open>e\<close> of the loop.\<close>

function desc_walk :: "byte list \<Rightarrow> nat \<Rightarrow> nat \<Rightarrow> nat list option" where
  "desc_walk buf e pos =
     (if pos + 2 \<le> length buf then
        let nxt = pos + 2 + unat (buf ! (pos + 1))
        in if nxt \<ge> e then Some [pos] else map_option (\<lambda>ps. pos # ps) (desc_walk buf e nxt)
      else None)"
  by pat_completeness auto
termination by (relation "measure (\<lambda>(buf, e, pos). length buf - pos)") auto

declare desc_walk.simps [simp del]

definition descriptors_for_each :: "byte list \<Rightarrow> nat \<Rightarrow> nat \<Rightarrow> nat list option" where
  "descriptors_for_each buf base len = (if len = 0 then Some [] else desc_walk buf (base + len) base)"

section \<open>The program map section\<close>

definition program_info_length :: "byte list \<Rightarrow> nat" where
  "program_info_length buf = unat (le_field buf 10 AND 0xfff)"

definition stream_pid :: "byte list \<Rightarrow> nat \<Rightarrow> u16" where
  "stream_pid buf pos = le_field buf (pos + 1) AND 0x1fff"

definition es_info_length :: "byte list \<Rightarrow> nat \<Rightarrow> nat" where
  "es_info_length buf pos = unat (le_field buf (pos + 3) AND 0xfff)"

function pmt_streams_loop :: "nat \<Rightarrow> nat \<Rightarrow> byte list \<Rightarrow> byte list option option" where
  "pmt_streams_loop len pos buf =
     (if pos < len then
        if pos + 5 > len then Some None
        else
          (case bswap16 (pos + 1) buf of
             None \<Rightarrow> None
           | Some b1 \<Rightarrow>
               (case bswap16 (pos + 3) b1 of
                  None \<Rightarrow> None
                | Some b2 \<Rightarrow>
                    let es = es_info_length b2 pos
                    in if pos + 5 + es > len then Some None
                       else
                         (case bytes_at b2 (pos + 5) es of
                            None \<Rightarrow> None
                          | Some ds \<Rightarrow>
                              if \<not> verify_descriptors ds then Some None
                              else pmt_streams_loop len (pos + 5 + es) b2)))
      else if pos \<noteq> len then Some None
      else Some (Some buf))"
  by pat_completeness auto
termination by (relation "measure (\<lambda>(len, pos, buf). len - pos)") auto

declare pmt_streams_loop.simps [simp del]

definition mpeg_pmt_section_codec :: "byte list \<Rightarrow> byte list option option" where
  "mpeg_pmt_section_codec buf =
     (let len = section_ext_length buf
      in if len < 12 then Some None
         else
           (case bswap16 8 buf of
              None \<Rightarrow> None
            | Some b1 \<Rightarrow>
                (case bswap16 10 b1 of
                   None \<Rightarrow> None
                 | Some b2 \<Rightarrow>
                     let pil = program_info_length b2
                     in if 12 + pil > len then Some None
                        else
                          (case bytes_at b2 12 pil of
                             None \<Rightarrow> None
                           | Some ds \<Rightarrow>
                               if \<not> verify_descriptors ds then Some None else pmt_streams_loop len (12 + pil) b2))))"

text \<open>\<open>joker_en50221_parse_pmt\<close>: the three codecs one after the other.\<close>

definition joker_en50221_parse_pmt :: "byte list \<Rightarrow> byte list option option" where
  "joker_en50221_parse_pmt buf =
     (case section_codec buf of
        None \<Rightarrow> None
      | Some None \<Rightarrow> Some None
      | Some (Some b) \<Rightarrow>
          (case section_ext_decode b of
             None \<Rightarrow> None
           | Some None \<Rightarrow> Some None
           | Some (Some b) \<Rightarrow> mpeg_pmt_section_codec b))"

text \<open>The offsets of the streams a walk over the section visits.\<close>

function stream_walk :: "byte list \<Rightarrow> nat \<Rightarrow> nat \<Rightarrow> nat list option" where
  "stream_walk buf e pos =
     (if pos + 5 \<le> length buf then
        let nxt = pos + 5 + es_info_length buf pos
        in if nxt \<ge> e then Some [pos] else map_option (\<lambda>ps. pos # ps) (stream_walk buf e nxt)
      else None)"
  by pat_completeness auto
termination by (relation "measure (\<lambda>(buf, e, pos). length buf - pos)") auto

declare stream_walk.simps [simp del]

definition streams_for_each :: "byte list \<Rightarrow> nat list option" where
  "streams_for_each buf =
     (let pos = 12 + program_info_length buf
      in if pos \<ge> section_ext_length buf then Some [] else stream_walk buf (section_ext_length buf) pos)"

section \<open>The layout\<close>

text \<open>
  A program map section as it is on the wire: the 16-bit fields with their reserved bits, the
  descriptors by tag and data. \<open>layout\<close> lists its bytes, with the 16-bit fields written by \<open>f\<close>:
  \<open>be_bytes\<close> on the wire, \<open>le_bytes\<close> after the codecs.
\<close>

type_synonym desc = "byte \<times> byte list"

record wire_stream =
  ws_type :: byte
  ws_pid :: u16
  ws_info :: u16
  ws_descs :: "desc list"

record wire_pmt =
  wp_table_id :: byte
  wp_length :: u16
  wp_program :: u16
  wp_version :: byte
  wp_section :: byte
  wp_last_section :: byte
  wp_pcr :: u16
  wp_info :: u16
  wp_descs :: "desc list"
  wp_streams :: "wire_stream list"
  wp_crc :: "byte list"

definition be_bytes :: "u16 \<Rightarrow> byte list" where "be_bytes w = [ucast (drop_bit 8 w), ucast w]"
definition le_bytes :: "u16 \<Rightarrow> byte list" where "le_bytes w = [ucast w, ucast (drop_bit 8 w)]"

definition desc_bytes :: "desc \<Rightarrow> byte list" where
  "desc_bytes d = fst d # word_of_nat (length (snd d)) # snd d"

definition descs_bytes :: "desc list \<Rightarrow> byte list" where "descs_bytes ds = concat (map desc_bytes ds)"

definition stream_bytes :: "(u16 \<Rightarrow> byte list) \<Rightarrow> wire_stream \<Rightarrow> byte list" where
  "stream_bytes f s = ws_type s # f (ws_pid s) @ f (ws_info s) @ descs_bytes (ws_descs s)"

definition streams_bytes :: "(u16 \<Rightarrow> byte list) \<Rightarrow> wire_stream list \<Rightarrow> byte list" where
  "streams_bytes f ss = concat (map (stream_bytes f) ss)"

definition head_bytes :: "(u16 \<Rightarrow> byte list) \<Rightarrow> wire_pmt \<Rightarrow> byte list" where
  "head_bytes f p = wp_table_id p # f (wp_length p) @ f (wp_program p) @ [wp_version p, wp_section p, wp_last_section p]
      @ f (wp_pcr p) @ f (wp_info p)"

definition layout :: "(u16 \<Rightarrow> byte list) \<Rightarrow> wire_pmt \<Rightarrow> byte list" where
  "layout f p = head_bytes f p @ descs_bytes (wp_descs p) @ streams_bytes f (wp_streams p) @ wp_crc p"

definition desc_ok :: "desc \<Rightarrow> bool" where "desc_ok d \<longleftrightarrow> length (snd d) < 256"

definition stream_ok :: "wire_stream \<Rightarrow> bool" where
  "stream_ok s \<longleftrightarrow> list_all desc_ok (ws_descs s) \<and> unat (ws_info s AND 0xfff) = length (descs_bytes (ws_descs s))"

definition pmt_ok :: "wire_pmt \<Rightarrow> bool" where
  "pmt_ok p \<longleftrightarrow> bit (wp_length p) 15 \<and> unat (wp_length p AND 0xfff) + 3 = length (layout be_bytes p) \<and> length (wp_crc p) = 4
     \<and> list_all desc_ok (wp_descs p) \<and> unat (wp_info p AND 0xfff) = length (descs_bytes (wp_descs p))
     \<and> list_all stream_ok (wp_streams p)"

end
