(* ===== verification/PmtSectionProps.thy ===== *)
theory PmtSectionProps
  imports PmtSection
begin

text \<open>
  What the section codec accepts. The in-place byte swaps and the accessors are read as operations
  on the layout of a section; then the codec accepts a buffer exactly if it is the layout of a
  well-formed program map section, and leaves the same layout with its fields in machine order.
\<close>

section \<open>Fields of a buffer\<close>

lemma u16_bytes: "ucast (b :: byte) OR push_bit 8 (ucast (a :: byte)) = (w :: u16) \<longleftrightarrow> b = ucast w \<and> a = ucast (drop_bit 8 w)"
proof
  assume "b = ucast w \<and> a = ucast (drop_bit 8 w)"
  then show "ucast b OR push_bit 8 (ucast a) = w"
    by (auto intro!: bit_word_eqI simp: bit_simps dest: bit_imp_le_length)
next
  assume w: "ucast b OR push_bit 8 (ucast a) = w"
  have "b = ucast (ucast b OR push_bit 8 (ucast a) :: u16)"
    by (rule bit_word_eqI) (auto simp: bit_simps)
  then have b: "b = ucast w" unfolding w .
  have "a = ucast (drop_bit 8 (ucast b OR push_bit 8 (ucast a) :: u16))"
    by (rule bit_word_eqI) (auto simp: bit_simps dest: bit_imp_le_length)
  then have "a = ucast (drop_bit 8 w)" unfolding w .
  with b show "b = ucast w \<and> a = ucast (drop_bit 8 w)" by (rule conjI)
qed

lemma length_fields [simp]: "length (be_bytes w) = 2" "length (le_bytes w) = 2"
  by (simp_all add: be_bytes_def le_bytes_def)

lemma bswap16_at:
  "length xs = pos \<Longrightarrow> bswap16 pos (xs @ be_bytes w @ ys) = Some (xs @ le_bytes w @ ys)"
  by (simp add: bswap16_def be_bytes_def le_bytes_def nth_append list_update_append)

lemma split_at2:
  assumes "pos + 1 < length buf"
  shows "\<exists>xs w ys. buf = xs @ be_bytes w @ ys \<and> length xs = pos"
proof -
  let ?w = "ucast (buf ! (pos + 1)) OR push_bit 8 (ucast (buf ! pos)) :: u16"
  have w: "buf ! (pos + 1) = ucast ?w \<and> buf ! pos = ucast (drop_bit 8 ?w)" using u16_bytes by blast
  have "buf = take pos buf @ buf ! pos # buf ! (pos + 1) # drop (pos + 2) buf"
    using assms by (simp add: Cons_nth_drop_Suc)
  then have "buf = take pos buf @ be_bytes ?w @ drop (pos + 2) buf" using w unfolding be_bytes_def by simp
  then show ?thesis using assms by (intro exI [of _ "take pos buf"] exI conjI) auto
qed

lemma bswap16_fields:
  assumes "bswap16 pos buf = Some b"
  obtains xs w ys where "buf = xs @ be_bytes w @ ys" "length xs = pos" "b = xs @ le_bytes w @ ys"
proof -
  have "pos + 1 < length buf" using assms by (simp add: bswap16_def split: if_splits)
  then obtain xs w ys where s: "buf = xs @ be_bytes w @ ys" "length xs = pos" using split_at2 by blast
  then have "b = xs @ le_bytes w @ ys" using assms bswap16_at [of xs pos w ys] by simp
  with s that show thesis by blast
qed

lemma le_field_at: "length xs = pos \<Longrightarrow> le_field (xs @ le_bytes w @ ys) pos = w"
  using u16_bytes [of "ucast w" "ucast (drop_bit 8 w)" w] by (simp add: le_field_def le_bytes_def nth_append)

lemma bytes_at_at: "length xs = off \<Longrightarrow> length ys = n \<Longrightarrow> bytes_at (xs @ ys @ zs) off n = Some ys"
  by (simp add: bytes_at_def)

lemma bytes_at_append:
  "length xs = off \<Longrightarrow> bytes_at (xs @ ys) off n = (if n \<le> length ys then Some (take n ys) else None)"
  by (simp add: bytes_at_def)

section \<open>Descriptor loops\<close>

lemma descs_bytes_simps [simp]:
  "descs_bytes [] = []"
  "descs_bytes (d # ds) = fst d # word_of_nat (length (snd d)) # snd d @ descs_bytes ds"
  by (simp_all add: descs_bytes_def desc_bytes_def)

lemma verify_layout: "list_all desc_ok ds \<Longrightarrow> verify_descriptors (descs_bytes ds)"
  by (induction ds) (simp_all add: desc_ok_def unat_of_nat)

lemma verify_is_layout: "verify_descriptors bs \<Longrightarrow> \<exists>ds. list_all desc_ok ds \<and> bs = descs_bytes ds"
proof (induction bs rule: verify_descriptors.induct)
  case (3 t l bs)
  then have len: "unat l \<le> length bs" and v: "verify_descriptors (drop (unat l) bs)" by (auto split: if_splits)
  then obtain ds where ds: "list_all desc_ok ds" "drop (unat l) bs = descs_bytes ds" using 3 by auto
  have "bs = take (unat l) bs @ descs_bytes ds" unfolding ds(2) [symmetric] by simp
  then have "t # l # bs = descs_bytes ((t, take (unat l) bs) # ds)" using len by (simp add: min_absorb2)
  moreover have "desc_ok (t, take (unat l) bs)" using unat_byte [of l] len by (simp add: desc_ok_def)
  ultimately show ?case using ds(1) by (intro exI [of _ "(t, take (unat l) bs) # ds"]) simp
qed (auto intro: exI [of _ "[]"])

lemma verify_iff: "verify_descriptors bs \<longleftrightarrow> (\<exists>ds. list_all desc_ok ds \<and> bs = descs_bytes ds)"
  using verify_layout verify_is_layout by blast

section \<open>The stream loop\<close>

lemma length_stream [simp]:
  "length (stream_bytes be_bytes s) = 5 + length (descs_bytes (ws_descs s))"
  "length (stream_bytes le_bytes s) = 5 + length (descs_bytes (ws_descs s))"
  by (simp_all add: stream_bytes_def)

lemma streams_simps [simp]:
  "streams_bytes f [] = []"
  "streams_bytes f (s # ss) = stream_bytes f s @ streams_bytes f ss"
  by (simp_all add: streams_bytes_def)

lemma length_streams: "length (streams_bytes le_bytes ss) = length (streams_bytes be_bytes ss)"
  by (induction ss) simp_all

text \<open>One turn of the loop on the layout of a stream.\<close>

lemma es_info_at:
  "length xs = pos \<Longrightarrow> es_info_length (xs @ t # le_bytes w @ le_bytes v @ ys) pos = unat (v AND 0xfff)"
  using le_field_at [of "xs @ t # le_bytes w" "pos + 3" v ys] by (simp add: es_info_length_def)

lemma loop_turn:
  assumes "length xs = pos" and "pos + 5 \<le> len"
  shows "pmt_streams_loop len pos (xs @ t # be_bytes w @ be_bytes v @ ys) =
     (let es = unat (v AND 0xfff); b = xs @ t # le_bytes w @ le_bytes v @ ys
      in if pos + 5 + es > len then Some None
         else (case bytes_at b (pos + 5) es of
                 None \<Rightarrow> None
               | Some ds \<Rightarrow> if \<not> verify_descriptors ds then Some None else pmt_streams_loop len (pos + 5 + es) b))"
proof -
  have 1: "bswap16 (pos + 1) (xs @ t # be_bytes w @ be_bytes v @ ys) = Some (xs @ t # le_bytes w @ be_bytes v @ ys)"
    using bswap16_at [of "xs @ [t]" "pos + 1" w "be_bytes v @ ys"] assms(1) by simp
  have 2: "bswap16 (pos + 3) (xs @ t # le_bytes w @ be_bytes v @ ys) = Some (xs @ t # le_bytes w @ le_bytes v @ ys)"
    using bswap16_at [of "xs @ t # le_bytes w" "pos + 3" v ys] assms(1) by simp
  show ?thesis
    using assms by (subst pmt_streams_loop.simps) (simp add: 1 [simplified] 2 es_info_at Let_def)
qed

lemma loop_layout:
  assumes "list_all stream_ok ss"
  shows "pmt_streams_loop (length xs + length (streams_bytes be_bytes ss)) (length xs) (xs @ streams_bytes be_bytes ss @ ys)
     = Some (Some (xs @ streams_bytes le_bytes ss @ ys))"
  using assms
proof (induction ss arbitrary: xs)
  case Nil
  show ?case by (subst pmt_streams_loop.simps) simp
next
  case (Cons s ss)
  let ?ds = "descs_bytes (ws_descs s)"
  let ?xs = "xs @ ws_type s # le_bytes (ws_pid s) @ le_bytes (ws_info s) @ ?ds"
  have ok: "list_all desc_ok (ws_descs s)" "unat (ws_info s AND 0xfff) = length ?ds"
    using Cons.prems by (simp_all add: stream_ok_def)
  have "bytes_at ((xs @ ws_type s # le_bytes (ws_pid s) @ le_bytes (ws_info s)) @ ?ds @ streams_bytes be_bytes ss @ ys)
      (length xs + 5) (length ?ds) = Some ?ds"
    by (rule bytes_at_at) simp_all
  then have "pmt_streams_loop (length xs + length (streams_bytes be_bytes (s # ss))) (length xs)
      (xs @ ws_type s # be_bytes (ws_pid s) @ be_bytes (ws_info s) @ ?ds @ streams_bytes be_bytes ss @ ys)
    = pmt_streams_loop (length ?xs + length (streams_bytes be_bytes ss)) (length ?xs) (?xs @ streams_bytes be_bytes ss @ ys)"
    by (subst loop_turn) (simp_all add: ok verify_layout Let_def eval_nat_numeral ac_simps)
  then show ?case using Cons.IH [of ?xs] Cons.prems by (simp add: stream_bytes_def)
qed

lemma split_stream:
  assumes "5 \<le> length zs"
  obtains t w v ys where "zs = t # be_bytes w @ be_bytes v @ ys"
proof -
  obtain xs w r where 1: "zs = xs @ be_bytes w @ r" "length xs = 1" using split_at2 [of 1 zs] assms by auto
  then obtain t where t: "xs = [t]" by (cases xs) auto
  obtain us v ys where "r = us @ be_bytes v @ ys" "length us = 0" using split_at2 [of 0 r] assms 1 by auto
  with 1 t that show thesis by simp
qed

lemma loop_is_layout:
  assumes "pmt_streams_loop len (length xs) (xs @ zs) = Some (Some b)" and "len \<le> length (xs @ zs)"
  shows "\<exists>ss ys. list_all stream_ok ss \<and> zs = streams_bytes be_bytes ss @ ys \<and> len = length xs + length (streams_bytes be_bytes ss)"
  using assms
proof (induction "len - length xs" arbitrary: xs zs rule: less_induct)
  case less
  show ?case
  proof (cases "length xs < len")
    case False
    then have "len = length xs" using less.prems(1) by (subst (asm) pmt_streams_loop.simps) (simp split: if_splits)
    then show ?thesis by (intro exI [of _ "[]"] exI [of _ zs]) simp
  next
    case True
    then have l5: "length xs + 5 \<le> len" using less.prems(1) by (subst (asm) pmt_streams_loop.simps) (simp split: if_splits)
    with less.prems(2) have "5 \<le> length zs" by simp
    then obtain t w v r where zs: "zs = t # be_bytes w @ be_bytes v @ r" by (rule split_stream)
    let ?h = "xs @ t # le_bytes w @ le_bytes v"
    let ?es = "unat (v AND 0xfff)"
    have "Some (Some b) = (if length xs + 5 + ?es > len then Some None
         else (case bytes_at (?h @ r) (length xs + 5) ?es of
                 None \<Rightarrow> None
               | Some ds \<Rightarrow> if \<not> verify_descriptors ds then Some None
                            else pmt_streams_loop len (length xs + 5 + ?es) (?h @ r)))"
      using less.prems(1) loop_turn [OF refl l5, of t w v r] unfolding zs Let_def by (simp only: append_assoc append_Cons)
    then have "\<exists>ds. bytes_at (?h @ r) (length xs + 5) ?es = Some ds \<and> verify_descriptors ds
        \<and> pmt_streams_loop len (length xs + 5 + ?es) (?h @ r) = Some (Some b)"
      by (cases "bytes_at (?h @ r) (length xs + 5) ?es") (auto split: if_splits)
    then obtain ds where ds: "bytes_at (?h @ r) (length xs + 5) ?es = Some ds" "verify_descriptors ds"
        "pmt_streams_loop len (length xs + 5 + ?es) (?h @ r) = Some (Some b)" by blast
    have "length ?h = length xs + 5" by simp
    from ds(1) bytes_at_append [OF this, of r ?es] have es: "?es \<le> length r" "ds = take ?es r"
      by (simp_all split: if_splits)
    obtain dd where dd: "list_all desc_ok dd" "ds = descs_bytes dd" using verify_is_layout [OF ds(2)] by blast
    define q where "q = drop ?es r"
    have r: "r = descs_bytes dd @ q" and ldd: "length (descs_bytes dd) = ?es"
      unfolding q_def dd(2) [symmetric] es(2) using es(1) by (simp_all add: min_absorb2)
    let ?xs = "?h @ descs_bytes dd"
    have lxs: "length ?xs = length xs + 5 + ?es" using ldd by simp
    have eq: "?h @ r = ?xs @ q" by (simp only: r append_assoc)
    have "\<exists>ss ys. list_all stream_ok ss \<and> q = streams_bytes be_bytes ss @ ys \<and> len = length ?xs + length (streams_bytes be_bytes ss)"
    proof (rule less.hyps)
      show "len - length ?xs < len - length xs" using l5 lxs by linarith
      show "pmt_streams_loop len (length ?xs) (?xs @ q) = Some (Some b)" using ds(3) by (simp only: eq lxs)
      show "len \<le> length (?xs @ q)" using less.prems(2) unfolding zs eq [symmetric] by simp
    qed
    then obtain ss ys where ss: "list_all stream_ok ss" "q = streams_bytes be_bytes ss @ ys" "len = length ?xs + length (streams_bytes be_bytes ss)"
      by blast
    let ?s = "\<lparr>ws_type = t, ws_pid = w, ws_info = v, ws_descs = dd\<rparr>"
    show ?thesis
    proof (intro exI conjI)
      show "list_all stream_ok (?s # ss)" using ss(1) dd(1) ldd by (simp add: stream_ok_def)
      show "zs = streams_bytes be_bytes (?s # ss) @ ys" using ss(2) by (simp add: zs r stream_bytes_def)
      show "len = length xs + length (streams_bytes be_bytes (?s # ss))" using ss(3) by simp
    qed
  qed
qed

section \<open>The codec\<close>

lemma ext_length:
  "section_ext_length buf = (if section_field_length buf = 0 then 2 ^ 64 - 1 else section_field_length buf - 1)"
proof -
  have "section_field_length buf < 2 ^ 16" unfolding section_field_length_def by (rule order.strict_trans2 [OF unsigned_less]) simp
  then show ?thesis unfolding section_ext_length_def
    by (cases "section_field_length buf") (simp_all add: unat_of_nat unsigned_minus_1_eq_mask mask_eq_exp_minus_1)
qed

lemma layout_head:
  "layout f p = wp_table_id p # f (wp_length p) @ f (wp_program p) @ [wp_version p, wp_section p, wp_last_section p]
      @ f (wp_pcr p) @ f (wp_info p) @ descs_bytes (wp_descs p) @ streams_bytes f (wp_streams p) @ wp_crc p"
  by (simp add: layout_def head_bytes_def)

lemma length_layout: "length (layout le_bytes p) = length (layout be_bytes p)"
  by (simp add: layout_head length_streams)

text \<open>The accessors on a decoded section.\<close>

lemma layout_fields:
  "section_field_length (layout le_bytes p) = unat (wp_length p AND 0xfff)"
  "table_id_ext (layout le_bytes p) = wp_program p"
  "program_info_length (layout le_bytes p) = unat (wp_info p AND 0xfff)"
  "version_number (layout le_bytes p) = drop_bit 1 (wp_version p) AND 0x1f"
  "current_next_indicator (layout le_bytes p) = bit (wp_version p) 0"
proof -
  show "section_field_length (layout le_bytes p) = unat (wp_length p AND 0xfff)"
    using le_field_at [of "[wp_table_id p]" 1 "wp_length p"] by (simp add: layout_head section_field_length_def)
  show "table_id_ext (layout le_bytes p) = wp_program p"
    using le_field_at [of "wp_table_id p # le_bytes (wp_length p)" 3 "wp_program p"] by (simp add: layout_head table_id_ext_def)
  show "program_info_length (layout le_bytes p) = unat (wp_info p AND 0xfff)"
    using le_field_at [of "wp_table_id p # le_bytes (wp_length p) @ le_bytes (wp_program p) @ [wp_version p, wp_section p, wp_last_section p]
      @ le_bytes (wp_pcr p)" 10 "wp_info p"] by (simp add: layout_head program_info_length_def)
qed (simp_all add: layout_head version_number_def current_next_indicator_def le_bytes_def)

definition head12 :: "(u16 \<Rightarrow> byte list) \<Rightarrow> byte \<Rightarrow> u16 \<Rightarrow> u16 \<Rightarrow> byte list \<Rightarrow> u16 \<Rightarrow> u16 \<Rightarrow> byte list" where
  "head12 f t w1 w2 vs w3 w4 = t # f w1 @ f w2 @ vs @ f w3 @ f w4"

lemma length_head12 [simp]:
  "length vs = 3 \<Longrightarrow> length (head12 be_bytes t w1 w2 vs w3 w4) = 12"
  "length vs = 3 \<Longrightarrow> length (head12 le_bytes t w1 w2 vs w3 w4) = 12"
  by (simp_all add: head12_def)

text \<open>The three codecs on a buffer with a full header, up to the descriptors.\<close>

lemma parse_head:
  fixes w1 :: u16
  assumes "length vs = 3" and "L = unat (w1 AND 0xfff)"
  shows "joker_en50221_parse_pmt (head12 be_bytes t w1 w2 vs w3 w4 @ r) =
     (if length r + 9 \<noteq> L \<or> \<not> bit w1 15 \<or> L < 13 then Some None
      else
        let pil = unat (w4 AND 0xfff); b = head12 le_bytes t w1 w2 vs w3 w4 @ r
        in if 13 + pil > L then Some None
           else (case bytes_at b 12 pil of
                   None \<Rightarrow> None
                 | Some ds \<Rightarrow> if \<not> verify_descriptors ds then Some None else pmt_streams_loop (L - 1) (12 + pil) b))"
proof -
  let ?b1 = "t # le_bytes w1 @ be_bytes w2 @ vs @ be_bytes w3 @ be_bytes w4 @ r"
  let ?b2 = "t # le_bytes w1 @ le_bytes w2 @ vs @ be_bytes w3 @ be_bytes w4 @ r"
  let ?b3 = "t # le_bytes w1 @ le_bytes w2 @ vs @ le_bytes w3 @ be_bytes w4 @ r"
  let ?b4 = "t # le_bytes w1 @ le_bytes w2 @ vs @ le_bytes w3 @ le_bytes w4 @ r"
  have L1: "le_field ?b1 1 = w1" "le_field ?b2 1 = w1" using le_field_at [of "[t]" 1 w1] by simp_all
  have f: "section_field_length ?b1 = L" "section_field_length ?b2 = L" "syntax_indicator ?b1 = bit w1 15"
    using L1 assms(2) by (simp_all add: section_field_length_def syntax_indicator_def)
  have s1: "bswap16 1 (head12 be_bytes t w1 w2 vs w3 w4 @ r) = Some ?b1"
    using bswap16_at [of "[t]" 1 w1 "be_bytes w2 @ vs @ be_bytes w3 @ be_bytes w4 @ r"] by (simp add: head12_def)
  have s2: "bswap16 3 ?b1 = Some ?b2" using bswap16_at [of "t # le_bytes w1" 3 w2] by simp
  have s3: "bswap16 8 ?b2 = Some ?b3" using bswap16_at [of "t # le_bytes w1 @ le_bytes w2 @ vs" 8 w3] assms(1) by simp
  have s4: "bswap16 10 ?b3 = Some ?b4"
    using bswap16_at [of "t # le_bytes w1 @ le_bytes w2 @ vs @ le_bytes w3" 10 w4] assms(1) by simp
  have p: "program_info_length ?b4 = unat (w4 AND 0xfff)"
    using le_field_at [of "t # le_bytes w1 @ le_bytes w2 @ vs @ le_bytes w3" 10 w4] assms(1) by (simp add: program_info_length_def)
  have b4: "head12 le_bytes t w1 w2 vs w3 w4 @ r = ?b4" by (simp add: head12_def)
  have sec: "section_codec (head12 be_bytes t w1 w2 vs w3 w4 @ r) = (if length r + 9 \<noteq> L then Some None else Some (Some ?b1))"
    using assms(1) s1 f(1) by (simp add: section_codec_def)
  show ?thesis
  proof (cases "length r + 9 = L")
    case True
    then have len: "section_ext_length ?b2 = L - 1" using f(2) by (simp add: ext_length)
    show ?thesis
      using True unfolding joker_en50221_parse_pmt_def sec section_ext_decode_def
      by (auto simp: f(3) s2 mpeg_pmt_section_codec_def len s3 s4 p b4 Let_def split: option.split)
  qed (simp add: joker_en50221_parse_pmt_def sec)
qed

lemma layout_head12:
  "layout f p = head12 f (wp_table_id p) (wp_length p) (wp_program p) [wp_version p, wp_section p, wp_last_section p]
      (wp_pcr p) (wp_info p) @ descs_bytes (wp_descs p) @ streams_bytes f (wp_streams p) @ wp_crc p"
  by (simp add: layout_head head12_def)

lemma parse_layout:
  assumes "pmt_ok p"
  shows "joker_en50221_parse_pmt (layout be_bytes p) = Some (Some (layout le_bytes p))"
proof -
  let ?vs = "[wp_version p, wp_section p, wp_last_section p]"
  let ?h = "head12 le_bytes (wp_table_id p) (wp_length p) (wp_program p) ?vs (wp_pcr p) (wp_info p)"
  let ?ds = "descs_bytes (wp_descs p)" and ?ss = "streams_bytes be_bytes (wp_streams p)"
  let ?L = "unat (wp_length p AND 0xfff)"
  have ok: "bit (wp_length p) 15" "?L = length ?ds + length ?ss + 13" "length (wp_crc p) = 4"
      "list_all desc_ok (wp_descs p)" "unat (wp_info p AND 0xfff) = length ?ds" "list_all stream_ok (wp_streams p)"
    using assms by (simp_all add: pmt_ok_def layout_head12)
  have b: "bytes_at (?h @ ?ds @ ?ss @ wp_crc p) 12 (length ?ds) = Some ?ds" by (rule bytes_at_at) simp_all
  have l: "pmt_streams_loop (12 + (length ?ds + length ?ss)) (12 + length ?ds) (?h @ ?ds @ ?ss @ wp_crc p) = Some (Some (layout le_bytes p))"
    using loop_layout [OF ok(6), of "?h @ ?ds" "wp_crc p"] by (simp add: layout_head12 ac_simps)
  have "joker_en50221_parse_pmt (head12 be_bytes (wp_table_id p) (wp_length p) (wp_program p) ?vs (wp_pcr p) (wp_info p) @ ?ds @ ?ss @ wp_crc p)
      = Some (Some (layout le_bytes p))"
    by (subst parse_head [OF _ refl]) (use ok(1-5) in \<open>simp_all add: Let_def b l verify_layout [OF ok(4)] del: One_nat_def\<close>)
  then show ?thesis by (simp add: layout_head12)
qed

lemma split_head:
  assumes "12 \<le> length buf"
  obtains t w1 w2 a b c w3 w4 r where "buf = head12 be_bytes t w1 w2 [a, b, c] w3 w4 @ r"
proof -
  obtain x1 w1 r1 where 1: "buf = x1 @ be_bytes w1 @ r1" "length x1 = 1" using split_at2 [of 1 buf] assms by auto
  obtain x2 w2 r2 where 2: "r1 = x2 @ be_bytes w2 @ r2" "length x2 = 0" using split_at2 [of 0 r1] assms 1 by auto
  obtain x3 w3 r3 where 3: "r2 = x3 @ be_bytes w3 @ r3" "length x3 = 3" using split_at2 [of 3 r2] assms 1 2 by auto
  obtain x4 w4 r where 4: "r3 = x4 @ be_bytes w4 @ r" "length x4 = 0" using split_at2 [of 0 r3] assms 1 2 3 by auto
  from 1(2) obtain t where t: "x1 = [t]" by (cases x1) auto
  from 3(2) obtain a b c where x3: "x3 = [a, b, c]" by (auto simp: numeral_3_eq_3 length_Suc_conv)
  show thesis by (rule that [of t w1 w2 a b c w3 w4 r]) (use 1 2 3 4 t x3 in \<open>simp add: head12_def\<close>)
qed

lemma section_codec_length:
  "section_codec buf = Some (Some b) \<Longrightarrow> length b = section_field_length b + 3"
  by (auto simp: section_codec_def bswap16_def split: option.splits if_splits)

lemma parse_long:
  assumes "joker_en50221_parse_pmt buf = Some (Some b)"
  shows "12 \<le> length buf"
proof -
  obtain b1 where b1: "section_codec buf = Some (Some b1)"
    using assms by (auto simp: joker_en50221_parse_pmt_def split: option.splits)
  obtain b2 where b2: "section_ext_decode b1 = Some (Some b2)" "mpeg_pmt_section_codec b2 = Some (Some b)"
    using assms b1 by (auto simp: joker_en50221_parse_pmt_def split: option.splits)
  have "length b1 = length buf" using b1 by (auto simp: section_codec_def bswap16_def split: option.splits if_splits)
  moreover have "length b2 = length b1" "section_field_length b2 = section_field_length b1" "4 < length b1"
    using b2(1) by (auto simp: section_ext_decode_def bswap16_def section_field_length_def le_field_def split: option.splits if_splits)
  moreover have "section_ext_length b2 \<ge> 12" using b2(2) by (auto simp: mpeg_pmt_section_codec_def Let_def split: if_splits)
  ultimately show ?thesis using section_codec_length [OF b1] by (auto simp: ext_length split: if_splits)
qed

lemma parse_is_layout:
  assumes "joker_en50221_parse_pmt buf = Some (Some b)"
  shows "\<exists>p. pmt_ok p \<and> buf = layout be_bytes p"
proof -
  obtain t w1 w2 a1 a2 a3 w3 w4 r where buf: "buf = head12 be_bytes t w1 w2 [a1, a2, a3] w3 w4 @ r"
    by (rule split_head [OF parse_long [OF assms]])
  let ?L = "unat (w1 AND 0xfff)" and ?pil = "unat (w4 AND 0xfff)"
  let ?h = "head12 le_bytes t w1 w2 [a1, a2, a3] w3 w4"
  have P: "(if length r + 9 \<noteq> ?L \<or> \<not> bit w1 15 \<or> ?L < 13 then Some None
      else let pil = ?pil; b = ?h @ r
        in if 13 + pil > ?L then Some None
           else (case bytes_at b 12 pil of None \<Rightarrow> None
                 | Some ds \<Rightarrow> if \<not> verify_descriptors ds then Some None else pmt_streams_loop (?L - 1) (12 + pil) b))
      = Some (Some b)"
    using assms parse_head [of "[a1, a2, a3]" ?L w1 t w2 w3 w4 r] unfolding buf by simp
  then have h: "?L = length r + 9" "bit w1 15" "4 + ?pil \<le> length r" by (auto simp: Let_def split: if_splits)
  have "\<exists>ds. bytes_at (?h @ r) 12 ?pil = Some ds \<and> verify_descriptors ds
      \<and> pmt_streams_loop (?L - 1) (12 + ?pil) (?h @ r) = Some (Some b)"
    using P by (cases "bytes_at (?h @ r) 12 ?pil") (auto simp: Let_def split: if_splits)
  then obtain ds where ds: "bytes_at (?h @ r) 12 ?pil = Some ds" "verify_descriptors ds"
      "pmt_streams_loop (?L - 1) (12 + ?pil) (?h @ r) = Some (Some b)" by blast
  have "ds = take ?pil r" using ds(1) bytes_at_append [of ?h 12 r ?pil] by (simp split: if_splits)
  then obtain dd where dd: "list_all desc_ok dd" "take ?pil r = descs_bytes dd" using verify_is_layout ds(2) by blast
  have r: "r = descs_bytes dd @ drop ?pil r" and ldd: "length (descs_bytes dd) = ?pil"
    unfolding dd(2) [symmetric] using h(3) by (simp_all add: min_absorb2)
  have eq: "?h @ r = (?h @ descs_bytes dd) @ drop ?pil r" by (subst r) simp
  have "\<exists>ss ys. list_all stream_ok ss \<and> drop ?pil r = streams_bytes be_bytes ss @ ys
      \<and> ?L - 1 = length (?h @ descs_bytes dd) + length (streams_bytes be_bytes ss)"
    by (rule loop_is_layout [where b = b]) (use ds(3) h ldd in \<open>simp_all add: eq [symmetric] del: append_assoc\<close>)
  then obtain ss ys where ss: "list_all stream_ok ss" "drop ?pil r = streams_bytes be_bytes ss @ ys"
      "?L - 1 = length (?h @ descs_bytes dd) + length (streams_bytes be_bytes ss)" by blast
  let ?p = "\<lparr>wp_table_id = t, wp_length = w1, wp_program = w2, wp_version = a1, wp_section = a2, wp_last_section = a3,
      wp_pcr = w3, wp_info = w4, wp_descs = dd, wp_streams = ss, wp_crc = ys\<rparr>"
  have r': "r = descs_bytes dd @ streams_bytes be_bytes ss @ ys" using r ss(2) by simp
  have buf': "buf = layout be_bytes ?p" by (simp add: layout_head12 buf r')
  have "length ys = 4" using ss(3) h(1) r' ldd by simp
  then have "pmt_ok ?p" using h ss(1) dd(1) ldd r' by (simp add: pmt_ok_def buf' [symmetric]) (simp add: buf)
  with buf' show ?thesis by blast
qed

text \<open>C14 (parse_pmt_accepts):
  the program takes a section over for descrambling exactly if its bytes are the layout of a program
  map section: a header with the syntax bit and the right length, descriptor loops of whole
  descriptors, whole streams, and four bytes of CRC, which are not checked. What it keeps is the same
  section with the 16-bit fields in machine order.\<close>

theorem parse_pmt_accepts:
  "joker_en50221_parse_pmt buf = Some (Some b) \<longleftrightarrow> (\<exists>p. pmt_ok p \<and> buf = layout be_bytes p \<and> b = layout le_bytes p)"
  using parse_layout parse_is_layout by (metis option.inject)

lemma bswap16_length: "bswap16 pos buf = Some b \<Longrightarrow> length b = length buf"
  by (auto simp: bswap16_def split: if_splits)

lemma bswap16_some: "pos + 1 < length buf \<Longrightarrow> \<exists>b. bswap16 pos buf = Some b \<and> length b = length buf"
  by (simp add: bswap16_def)

lemma loop_no_fault: "len \<le> length buf \<Longrightarrow> pmt_streams_loop len pos buf \<noteq> None"
proof (induction len pos buf rule: pmt_streams_loop.induct)
  case (1 len pos buf)
  show ?case
  proof (cases "pos < len \<and> pos + 5 \<le> len")
    case True
    obtain b1 where b1: "bswap16 (pos + 1) buf = Some b1" "length b1 = length buf"
      using bswap16_some [of "pos + 1" buf] True 1(2) by auto
    obtain b2 where b2: "bswap16 (pos + 3) b1 = Some b2" "length b2 = length buf"
      using bswap16_some [of "pos + 3" b1] True 1(2) b1 by auto
    let ?es = "es_info_length b2 pos"
    show ?thesis
    proof (cases "pos + 5 + ?es \<le> len")
      case es: True
      then have ds: "bytes_at b2 (pos + 5) ?es = Some (take ?es (drop (pos + 5) b2))"
        using b2 1(2) by (simp add: bytes_at_def)
      show ?thesis
      proof (cases "verify_descriptors (take ?es (drop (pos + 5) b2))")
        case v: True
        have "pmt_streams_loop len (pos + 5 + ?es) b2 \<noteq> None"
          using "1.IH" [OF conjunct1 [OF True] _ b1(1) b2(1) refl _ ds] True es v 1(2) b2 by simp
        then show ?thesis
          using True b1(1) b2(1) es ds v by (subst pmt_streams_loop.simps) (simp add: Let_def del: One_nat_def add_Suc_right)
      qed (use True b1(1) b2(1) es ds in \<open>subst pmt_streams_loop.simps, simp add: Let_def del: One_nat_def add_Suc_right\<close>)
    qed (use True b1(1) b2(1) in \<open>subst pmt_streams_loop.simps, simp add: Let_def del: One_nat_def add_Suc_right\<close>)
  qed (subst pmt_streams_loop.simps, auto)
qed

text \<open>parse_pmt_in_bounds:
  whatever bytes a section of five bytes or more holds, the codecs read and swap inside it only.\<close>

theorem parse_pmt_in_bounds:
  assumes "5 \<le> length buf"
  shows "joker_en50221_parse_pmt buf \<noteq> None"
proof (cases "12 \<le> length buf")
  case True
  obtain t w1 w2 a1 a2 a3 w3 w4 r where buf: "buf = head12 be_bytes t w1 w2 [a1, a2, a3] w3 w4 @ r"
    by (rule split_head [OF True])
  let ?L = "unat (w1 AND 0xfff)" and ?pil = "unat (w4 AND 0xfff)" and ?h = "head12 le_bytes t w1 w2 [a1, a2, a3] w3 w4"
  have "bytes_at (?h @ r) 12 ?pil \<noteq> None" if "length r + 9 = ?L" "13 + ?pil \<le> ?L"
    using that by (simp add: bytes_at_def)
  moreover have "pmt_streams_loop (?L - 1) (12 + ?pil) (?h @ r) \<noteq> None" if "length r + 9 = ?L"
    using that by (intro loop_no_fault) simp
  ultimately show ?thesis
    unfolding buf using parse_head [of "[a1, a2, a3]" ?L w1 t w2 w3 w4 r]
    by (auto simp: Let_def split: option.splits)
next
  case False
  show ?thesis
  proof (cases "section_codec buf")
    case None
    then show ?thesis using assms bswap16_some [of 1 buf] by (auto simp: section_codec_def split: if_splits)
  next
    case (Some r)
    show ?thesis
    proof (cases r)
      case (Some b1)
      with \<open>section_codec buf = Some r\<close> have b1: "section_codec buf = Some (Some b1)" by simp
      then have l1: "length b1 = length buf" by (auto simp: section_codec_def bswap16_def split: option.splits if_splits)
      obtain b2 where b2: "bswap16 3 b1 = Some b2" "length b2 = length buf" using bswap16_some [of 3 b1] assms l1 by auto
      have "section_field_length b2 = section_field_length b1"
        using b2(1) by (auto simp: bswap16_def section_field_length_def le_field_def split: if_splits)
      then have "section_ext_length b2 < 12" using section_codec_length [OF b1] l1 assms False by (simp add: ext_length)
      then have "mpeg_pmt_section_codec b2 = Some None" by (simp add: mpeg_pmt_section_codec_def)
      then show ?thesis using b1 b2 by (simp add: joker_en50221_parse_pmt_def section_ext_decode_def)
    qed (use \<open>section_codec buf = Some r\<close> in \<open>simp add: joker_en50221_parse_pmt_def\<close>)
  qed
qed

theorem parse_pmt_in_bounds_witness: "joker_en50221_parse_pmt [2, 0xb0, 2, 0, 1] \<noteq> None"
  by (rule parse_pmt_in_bounds) simp

lemma parse_empty_section_faults: "joker_en50221_parse_pmt [2, 0x80, 0] = None"
  by code_simp

end
