(* ===== verification/CaPmt.thy ===== *)
theory CaPmt
  imports PmtSectionProps
begin

text \<open>
  \<open>en50221_ca_format_pmt\<close> of \<open>3party/libdvben50221/en50221_app_ca.c\<close>: the CA PMT object the module gets
  for a program, made from the program map section after its codecs. A descriptor is its offset and
  length in the section, as the code keeps pointers into it; reading it outside the section is
  \<open>None\<close>. The lists are the chains the code builds and frees. The sums of the lengths are \<open>uint32_t\<close>
  in the code; over a section of at most 4098 bytes they do not wrap.
\<close>

section \<open>Descriptors and streams\<close>

abbreviation (input) dtag_mpeg_ca :: byte where "dtag_mpeg_ca \<equiv> 0x09"

record ca_pmt_descriptor =
  cd_descriptor :: nat
  cd_length :: nat

record ca_pmt_stream =
  cs_stream_type :: byte
  cs_pid :: u16
  cs_descriptors :: "ca_pmt_descriptor list"

text \<open>The CA descriptors among those at the given offsets.\<close>

definition ca_descriptors :: "byte list \<Rightarrow> nat list \<Rightarrow> ca_pmt_descriptor list" where
  "ca_descriptors buf ps =
     map (\<lambda>p. \<lparr>cd_descriptor = p, cd_length = unat (buf ! (p + 1)) + 2\<rparr>) (filter (\<lambda>p. buf ! p = dtag_mpeg_ca) ps)"

definition en50221_ca_extract_pmt_descriptors :: "byte list \<Rightarrow> ca_pmt_descriptor list option" where
  "en50221_ca_extract_pmt_descriptors buf =
     map_option (ca_descriptors buf) (descriptors_for_each buf 12 (program_info_length buf))"

definition ca_stream :: "byte list \<Rightarrow> nat \<Rightarrow> ca_pmt_stream option" where
  "ca_stream buf pos =
     map_option
       (\<lambda>ps. \<lparr>cs_stream_type = buf ! pos, cs_pid = stream_pid buf pos, cs_descriptors = ca_descriptors buf ps\<rparr>)
       (descriptors_for_each buf (pos + 5) (es_info_length buf pos))"

fun ca_streams :: "byte list \<Rightarrow> nat list \<Rightarrow> ca_pmt_stream list option" where
  "ca_streams buf [] = Some []"
| "ca_streams buf (p # ps) =
     (case ca_stream buf p of None \<Rightarrow> None | Some s \<Rightarrow> map_option (\<lambda>ss. s # ss) (ca_streams buf ps))"

definition en50221_ca_extract_streams :: "byte list \<Rightarrow> ca_pmt_stream list option" where
  "en50221_ca_extract_streams buf = (case streams_for_each buf of None \<Rightarrow> None | Some ps \<Rightarrow> ca_streams buf ps)"

section \<open>Moving common descriptors to the program level\<close>

text \<open>Two lists of the same length are compared, first by length and then by content.\<close>

fun same_descriptors :: "byte list \<Rightarrow> ca_pmt_descriptor list \<Rightarrow> ca_pmt_descriptor list \<Rightarrow> bool option" where
  "same_descriptors buf (d # ds) (e # es) =
     (if cd_length d \<noteq> cd_length e then Some False
      else
        (case (bytes_at buf (cd_descriptor d) (cd_length d), bytes_at buf (cd_descriptor e) (cd_length d)) of
           (Some x, Some y) \<Rightarrow> if x \<noteq> y then Some False else same_descriptors buf ds es
         | _ \<Rightarrow> None))"
| "same_descriptors buf [] es = Some True"
| "same_descriptors buf (d # ds) [] = None"

fun all_same :: "byte list \<Rightarrow> ca_pmt_descriptor list \<Rightarrow> ca_pmt_stream list \<Rightarrow> bool option" where
  "all_same buf first [] = Some True"
| "all_same buf first (s # ss) =
     (if length (cs_descriptors s) \<noteq> length first then Some False
      else
        (case same_descriptors buf (cs_descriptors s) first of
           None \<Rightarrow> None
         | Some same \<Rightarrow> if \<not> same then Some False else all_same buf first ss))"

definition en50221_ca_try_move_pmt_descriptors ::
  "byte list \<Rightarrow> ca_pmt_descriptor list \<Rightarrow> ca_pmt_stream list \<Rightarrow> (ca_pmt_descriptor list \<times> ca_pmt_stream list) option" where
  "en50221_ca_try_move_pmt_descriptors buf ds ss =
     (case ss of
        [] \<Rightarrow> Some (ds, ss)
      | first_stream # others \<Rightarrow>
          (case all_same buf (cs_descriptors first_stream) others of
             None \<Rightarrow> None
           | Some same \<Rightarrow>
               if \<not> same then Some (ds, ss)
               else Some (cs_descriptors first_stream, map (\<lambda>s. s\<lparr>cs_descriptors := []\<rparr>) ss)))"

section \<open>Lengths\<close>

text \<open>The bytes of a list of descriptors, one more for the command if there are any.\<close>

definition descriptors_length :: "ca_pmt_descriptor list \<Rightarrow> nat" where
  "descriptors_length ds = (let n = sum_list (map cd_length ds) in if n \<noteq> 0 then n + 1 else n)"

definition en50221_ca_calculate_length :: "ca_pmt_descriptor list \<Rightarrow> ca_pmt_stream list \<Rightarrow> nat" where
  "en50221_ca_calculate_length ds ss =
     6 + descriptors_length ds + sum_list (map (\<lambda>s. 5 + descriptors_length (cs_descriptors s)) ss)"

section \<open>The object\<close>

fun copy_descriptors :: "byte list \<Rightarrow> ca_pmt_descriptor list \<Rightarrow> byte list option" where
  "copy_descriptors buf [] = Some []"
| "copy_descriptors buf (d # ds) =
     (case bytes_at buf (cd_descriptor d) (cd_length d) of
        None \<Rightarrow> None
      | Some x \<Rightarrow> map_option (\<lambda>y. x @ y) (copy_descriptors buf ds))"

text \<open>The 12-bit length field, then the command and the descriptors if there are any.\<close>

definition put_descriptors :: "byte list \<Rightarrow> byte \<Rightarrow> ca_pmt_descriptor list \<Rightarrow> byte list option" where
  "put_descriptors buf cmd ds =
     (let n = descriptors_length ds;
          field = [word_of_nat (n div 256) AND 0x0f, word_of_nat n]
      in if n \<noteq> 0 then map_option (\<lambda>x. field @ [cmd] @ x) (copy_descriptors buf ds) else Some field)"

fun put_streams :: "byte list \<Rightarrow> byte \<Rightarrow> ca_pmt_stream list \<Rightarrow> byte list option" where
  "put_streams buf cmd [] = Some []"
| "put_streams buf cmd (s # ss) =
     (case put_descriptors buf cmd (cs_descriptors s) of
        None \<Rightarrow> None
      | Some x \<Rightarrow>
          map_option
            (\<lambda>y. [cs_stream_type s, ucast (drop_bit 8 (cs_pid s)) AND 0x1f, ucast (cs_pid s)] @ x @ y)
            (put_streams buf cmd ss))"

definition en50221_ca_format_pmt :: "byte list \<Rightarrow> nat \<Rightarrow> bool \<Rightarrow> byte \<Rightarrow> byte \<Rightarrow> byte list option option" where
  "en50221_ca_format_pmt buf data_length move_ca_descriptors ca_pmt_list_management ca_pmt_cmd_id =
     (case (en50221_ca_extract_pmt_descriptors buf, en50221_ca_extract_streams buf) of
        (Some ds, Some ss) \<Rightarrow>
          (case (if ds = [] \<and> move_ca_descriptors then en50221_ca_try_move_pmt_descriptors buf ds ss else Some (ds, ss)) of
             None \<Rightarrow> None
           | Some (ds, ss) \<Rightarrow>
               if en50221_ca_calculate_length ds ss > data_length then Some None
               else
                 (case (put_descriptors buf ca_pmt_cmd_id ds, put_streams buf ca_pmt_cmd_id ss) of
                    (Some x, Some y) \<Rightarrow>
                      Some (Some ([ca_pmt_list_management, ucast (drop_bit 8 (table_id_ext buf)), ucast (table_id_ext buf),
                                   push_bit 1 (version_number buf) OR (if current_next_indicator buf then 1 else 0)]
                                  @ x @ y))
                  | _ \<Rightarrow> None))
      | _ \<Rightarrow> None)"

section \<open>What the object is\<close>

text \<open>
  The CA PMT of a program map section, from the layout: the header, and for the program and every
  stream the command and the CA descriptors, if there are any. With \<open>move\<close>, the CA descriptors that
  all streams share stand at the program instead, if it has none of its own.
\<close>

definition ca_descs :: "desc list \<Rightarrow> desc list" where "ca_descs ds = filter (\<lambda>d. fst d = dtag_mpeg_ca) ds"

definition ca_stream_of :: "wire_stream \<Rightarrow> byte \<times> u16 \<times> desc list" where
  "ca_stream_of s = (ws_type s, ws_pid s AND 0x1fff, ca_descs (ws_descs s))"

definition move_common :: "desc list \<times> (byte \<times> u16 \<times> desc list) list \<Rightarrow> desc list \<times> (byte \<times> u16 \<times> desc list) list" where
  "move_common = (\<lambda>(ds, ss).
     if ds = [] \<and> list_all (\<lambda>s. snd (snd s) = snd (snd (hd ss))) ss \<and> ss \<noteq> []
     then (snd (snd (hd ss)), map (\<lambda>(t, pid, _). (t, pid, [])) ss) else (ds, ss))"

definition ca_parts :: "bool \<Rightarrow> wire_pmt \<Rightarrow> desc list \<times> (byte \<times> u16 \<times> desc list) list" where
  "ca_parts move p =
     (let parts = (ca_descs (wp_descs p), map ca_stream_of (wp_streams p)) in if move then move_common parts else parts)"

definition ca_part :: "byte \<Rightarrow> desc list \<Rightarrow> byte list" where
  "ca_part cmd ds =
     (let n = length (descs_bytes ds)
      in if ds = [] then [0, 0] else [word_of_nat ((n + 1) div 256) AND 0x0f, word_of_nat (n + 1), cmd] @ descs_bytes ds)"

definition ca_pmt_object :: "byte \<Rightarrow> byte \<Rightarrow> bool \<Rightarrow> wire_pmt \<Rightarrow> byte list" where
  "ca_pmt_object listmgmt cmd move p =
     [listmgmt] @ be_bytes (wp_program p) @ [wp_version p AND 0x3f] @ ca_part cmd (fst (ca_parts move p))
     @ concat (map (\<lambda>(t, pid, ds). t # be_bytes pid @ ca_part cmd ds) (snd (ca_parts move p)))"

end
