(* ===== verification/CaPmtProps.thy ===== *)
theory CaPmtProps
  imports CaPmt
begin

text \<open>
  The CA PMT object is the one of the section: the walk over a decoded section visits its
  descriptors and streams in order, so the chains the code builds stand for the CA descriptors of
  the layout, and formatting them gives the object the layout defines.
\<close>

section \<open>The chains and the layout\<close>

definition stands_for :: "byte list \<Rightarrow> ca_pmt_descriptor \<Rightarrow> desc \<Rightarrow> bool" where
  "stands_for buf d x \<longleftrightarrow> bytes_at buf (cd_descriptor d) (length (desc_bytes x)) = Some (desc_bytes x) \<and> cd_length d = length (desc_bytes x)"

definition stands_for_stream :: "byte list \<Rightarrow> ca_pmt_stream \<Rightarrow> byte \<times> u16 \<times> desc list \<Rightarrow> bool" where
  "stands_for_stream buf s x \<longleftrightarrow> cs_stream_type s = fst x \<and> cs_pid s = fst (snd x)
     \<and> list_all2 (stands_for buf) (cs_descriptors s) (snd (snd x))"

lemma length_desc_bytes [simp]: "length (desc_bytes d) = length (snd d) + 2"
  by (simp add: desc_bytes_def)

lemma descs_bytes_Cons: "descs_bytes (d # ds) = desc_bytes d @ descs_bytes ds"
  by (simp add: desc_bytes_def)

lemma desc_walk_layout:
  assumes "list_all desc_ok ds" and "ds \<noteq> []" and "buf = xs @ descs_bytes ds @ ys"
  shows "\<exists>ps. desc_walk buf (length xs + length (descs_bytes ds)) (length xs) = Some ps
     \<and> list_all2 (stands_for buf) (ca_descriptors buf ps) (ca_descs ds)"
  using assms
proof (induction ds arbitrary: xs)
  case (Cons d ds)
  let ?n = "length xs + length (desc_bytes d)"
  have buf: "buf = xs @ fst d # word_of_nat (length (snd d)) # snd d @ descs_bytes ds @ ys"
    using Cons.prems(3) by (simp add: descs_bytes_Cons desc_bytes_def)
  have at: "buf ! length xs = fst d" "unat (buf ! (length xs + 1)) = length (snd d)"
    using Cons.prems(1) by (simp_all add: buf nth_append desc_ok_def unat_of_nat)
  have b: "buf = (xs @ desc_bytes d) @ descs_bytes ds @ ys" by (simp add: buf desc_bytes_def)
  have "bytes_at buf (length xs) (length (snd d) + 2) = Some (desc_bytes d)"
    unfolding buf by (simp add: bytes_at_def desc_bytes_def)
  then have first: "list_all2 (stands_for buf) (ca_descriptors buf [length xs]) (ca_descs [d])"
    using at by (simp add: ca_descriptors_def ca_descs_def stands_for_def)
  have in_buf: "length xs + 2 \<le> length buf" by (simp add: buf)
  show ?case
  proof (cases "ds = []")
    case True
    then have "desc_walk buf (length xs + length (descs_bytes (d # ds))) (length xs) = Some [length xs]"
      using in_buf at by (subst desc_walk.simps) (simp add: Let_def)
    with first True show ?thesis by simp
  next
    case False
    then have "descs_bytes ds \<noteq> []" by (cases ds) simp_all
    then have pos: "0 < length (descs_bytes ds)" by simp
    obtain ps where ps: "desc_walk buf (?n + length (descs_bytes ds)) ?n = Some ps"
        "list_all2 (stands_for buf) (ca_descriptors buf ps) (ca_descs ds)"
      using Cons.IH [of "xs @ desc_bytes d"] Cons.prems(1) False b by auto
    have "desc_walk buf (length xs + length (descs_bytes (d # ds))) (length xs) = Some (length xs # ps)"
      using in_buf at pos ps(1) by (subst desc_walk.simps) (simp add: Let_def descs_bytes_Cons ac_simps)
    moreover have "list_all2 (stands_for buf) (ca_descriptors buf ([length xs] @ ps)) (ca_descs ([d] @ ds))"
      using first ps(2) unfolding ca_descriptors_def ca_descs_def filter_append map_append by (rule list_all2_appendI)
    ultimately show ?thesis by simp
  qed
qed simp

lemma descriptors_layout:
  assumes "list_all desc_ok ds" and "buf = xs @ descs_bytes ds @ ys" and "length xs = base" and "n = length (descs_bytes ds)"
  shows "\<exists>ps. descriptors_for_each buf base n = Some ps \<and> list_all2 (stands_for buf) (ca_descriptors buf ps) (ca_descs ds)"
proof (cases "ds = []")
  case True
  then show ?thesis using assms(4) by (simp add: descriptors_for_each_def ca_descriptors_def ca_descs_def)
next
  case False
  then have "n \<noteq> 0" using assms(4) by (cases ds) simp_all
  then show ?thesis using desc_walk_layout [OF assms(1) False assms(2)] assms(3,4) by (simp add: descriptors_for_each_def)
qed

lemma stream_layout:
  assumes "stream_ok s" and "buf = xs @ stream_bytes le_bytes s @ ys"
  shows "es_info_length buf (length xs) = length (descs_bytes (ws_descs s))"
    and "\<exists>c. ca_stream buf (length xs) = Some c \<and> stands_for_stream buf c (ca_stream_of s)"
proof -
  have buf: "buf = xs @ ws_type s # le_bytes (ws_pid s) @ le_bytes (ws_info s) @ descs_bytes (ws_descs s) @ ys"
    using assms(2) by (simp add: stream_bytes_def)
  show es: "es_info_length buf (length xs) = length (descs_bytes (ws_descs s))"
    unfolding buf using es_info_at [OF refl] assms(1) by (simp add: stream_ok_def)
  have at: "buf ! length xs = ws_type s" "stream_pid buf (length xs) = ws_pid s AND 0x1fff"
    using le_field_at [of "xs @ [ws_type s]" "length xs + 1" "ws_pid s"] by (simp_all add: buf stream_pid_def)
  obtain ps where "descriptors_for_each buf (length xs + 5) (es_info_length buf (length xs)) = Some ps"
      "list_all2 (stands_for buf) (ca_descriptors buf ps) (ca_descs (ws_descs s))"
    using descriptors_layout [of "ws_descs s" buf "xs @ ws_type s # le_bytes (ws_pid s) @ le_bytes (ws_info s)" ys "length xs + 5"]
      assms(1) es buf by (auto simp: stream_ok_def)
  then show "\<exists>c. ca_stream buf (length xs) = Some c \<and> stands_for_stream buf c (ca_stream_of s)"
    using at by (simp add: ca_stream_def stands_for_stream_def ca_stream_of_def)
qed

lemma stream_walk_layout:
  assumes "list_all stream_ok ss" and "ss \<noteq> []" and "buf = xs @ streams_bytes le_bytes ss @ ys"
  shows "\<exists>ps cs. stream_walk buf (length xs + length (streams_bytes le_bytes ss)) (length xs) = Some ps
     \<and> ca_streams buf ps = Some cs \<and> list_all2 (stands_for_stream buf) cs (map ca_stream_of ss)"
  using assms
proof (induction ss arbitrary: xs)
  case (Cons s ss)
  have buf: "buf = xs @ stream_bytes le_bytes s @ streams_bytes le_bytes ss @ ys" using Cons.prems(3) by simp
  have ok: "stream_ok s" "list_all stream_ok ss" using Cons.prems(1) by simp_all
  obtain c where c: "ca_stream buf (length xs) = Some c" "stands_for_stream buf c (ca_stream_of s)"
    using stream_layout(2) [OF ok(1) buf] by blast
  have in_buf: "length xs + 5 \<le> length buf" by (simp add: buf)
  note es = stream_layout(1) [OF ok(1) buf]
  show ?case
  proof (cases "ss = []")
    case True
    then have "stream_walk buf (length xs + length (streams_bytes le_bytes (s # ss))) (length xs) = Some [length xs]"
      using in_buf es by (subst stream_walk.simps) (simp add: Let_def)
    with c True show ?thesis by simp
  next
    case False
    then have "0 < length (streams_bytes le_bytes ss)" by (cases ss) simp_all
    moreover obtain ps cs where ps: "stream_walk buf (length (xs @ stream_bytes le_bytes s) + length (streams_bytes le_bytes ss))
          (length (xs @ stream_bytes le_bytes s)) = Some ps"
        "ca_streams buf ps = Some cs" "list_all2 (stands_for_stream buf) cs (map ca_stream_of ss)"
      using Cons.IH [of "xs @ stream_bytes le_bytes s"] ok(2) False buf by auto
    ultimately have "stream_walk buf (length xs + length (streams_bytes le_bytes (s # ss))) (length xs) = Some (length xs # ps)"
      using in_buf es by (subst stream_walk.simps) (simp add: Let_def ac_simps)
    with c ps(2,3) show ?thesis by simp
  qed
qed simp

section \<open>Moving\<close>

lemma desc_bytes_inj [simp]: "desc_bytes x = desc_bytes y \<longleftrightarrow> x = y"
  by (cases x; cases y) (auto simp: desc_bytes_def)

lemma same_descriptors_layout:
  "list_all2 (stands_for buf) ds xs \<Longrightarrow> list_all2 (stands_for buf) es ys \<Longrightarrow> length xs = length ys \<Longrightarrow>
     same_descriptors buf ds es = Some (xs = ys)"
proof (induction ds xs arbitrary: es ys rule: list_all2_induct)
  case (Cons d ds x xs)
  then obtain e es' y ys' where s: "es = e # es'" "ys = y # ys'" "stands_for buf e y" "list_all2 (stands_for buf) es' ys'"
    by (cases es; cases ys) auto
  show ?case
  proof (cases "cd_length d = cd_length e")
    case True
    then show ?thesis using Cons s by (simp add: stands_for_def)
  next
    case False
    then have "x \<noteq> y" using Cons.hyps(1) s(3) by (auto simp: stands_for_def)
    then show ?thesis using False s by simp
  qed
qed simp

lemma all_same_layout:
  "list_all2 (stands_for_stream buf) cs ss \<Longrightarrow> list_all2 (stands_for buf) first xs \<Longrightarrow>
     all_same buf first cs = Some (list_all (\<lambda>s. snd (snd s) = xs) ss)"
proof (induction cs ss rule: list_all2_induct)
  case (Cons c cs s ss)
  then have c: "list_all2 (stands_for buf) (cs_descriptors c) (snd (snd s))" by (simp add: stands_for_stream_def)
  show ?case
  proof (cases "length (snd (snd s)) = length xs")
    case True
    then show ?thesis using Cons same_descriptors_layout [OF c Cons.prems True] list_all2_lengthD [OF c] list_all2_lengthD [OF Cons.prems]
      by simp
  next
    case False
    then have "snd (snd s) \<noteq> xs" by auto
    then show ?thesis using False list_all2_lengthD [OF c] list_all2_lengthD [OF Cons.prems] by simp
  qed
qed simp

lemma move_layout:
  assumes "list_all2 (stands_for_stream buf) cs ss"
  shows "\<exists>ds' cs'. en50221_ca_try_move_pmt_descriptors buf [] cs = Some (ds', cs')
     \<and> list_all2 (stands_for buf) ds' (fst (move_common ([], ss))) \<and> list_all2 (stands_for_stream buf) cs' (snd (move_common ([], ss)))"
proof (cases cs)
  case Nil
  then show ?thesis using assms by (simp add: en50221_ca_try_move_pmt_descriptors_def move_common_def)
next
  case (Cons c cs')
  with assms obtain s ss' where s: "ss = s # ss'" "stands_for_stream buf c s" "list_all2 (stands_for_stream buf) cs' ss'"
    by (auto simp: list_all2_Cons1)
  have c: "list_all2 (stands_for buf) (cs_descriptors c) (snd (snd s))" using s(2) by (simp add: stands_for_stream_def)
  have "list_all2 (stands_for_stream buf) (map (\<lambda>c. c\<lparr>cs_descriptors := []\<rparr>) cs) (map (\<lambda>(t, pid, _). (t, pid, [])) ss)"
    using assms by (auto simp: list_all2_map1 list_all2_map2 stands_for_stream_def elim!: list_all2_mono)
  then show ?thesis
    using assms c s(1) Cons all_same_layout [OF s(3) c]
    by (auto simp: en50221_ca_try_move_pmt_descriptors_def move_common_def)
qed

section \<open>Formatting\<close>

lemma descriptors_length_layout:
  "list_all2 (stands_for buf) ds xs \<Longrightarrow>
     descriptors_length ds = (if xs = [] then 0 else length (descs_bytes xs) + 1)"
proof -
  assume "list_all2 (stands_for buf) ds xs"
  then have "sum_list (map cd_length ds) = length (descs_bytes xs)"
    by (induction rule: list_all2_induct) (simp_all add: stands_for_def)
  moreover have "length (descs_bytes xs) = 0 \<longleftrightarrow> xs = []" by (cases xs) simp_all
  ultimately show ?thesis by (simp add: descriptors_length_def)
qed

lemma copy_layout:
  "list_all2 (stands_for buf) ds xs \<Longrightarrow> copy_descriptors buf ds = Some (descs_bytes xs)"
  by (induction rule: list_all2_induct) (simp_all add: stands_for_def descs_bytes_Cons del: descs_bytes_simps(2))

lemma put_layout:
  "list_all2 (stands_for buf) ds xs \<Longrightarrow> put_descriptors buf cmd ds = Some (ca_part cmd xs)"
  using descriptors_length_layout [of buf ds xs] copy_layout [of buf ds xs]
  by (auto simp: put_descriptors_def ca_part_def Let_def)

lemma put_streams_layout:
  "list_all2 (stands_for_stream buf) cs ss \<Longrightarrow> list_all (\<lambda>s. fst (snd s) AND 0x1fff = fst (snd s)) ss \<Longrightarrow>
     put_streams buf cmd cs = Some (concat (map (\<lambda>(t, pid, ds). t # be_bytes pid @ ca_part cmd ds) ss))"
proof (induction rule: list_all2_induct)
  case (Cons c cs s ss)
  have "ucast (drop_bit 8 w) AND 0x1f = (ucast (drop_bit 8 w) :: byte)" if "w AND 0x1fff = w" for w :: u16
    by (subst (2) that [symmetric]) (auto intro!: bit_word_eqI simp: bit_simps)
  with Cons show ?case by (auto simp: stands_for_stream_def put_layout be_bytes_def case_prod_beta)
qed simp

lemma length_ca_part: "length (ca_part cmd ds) = 2 + (if ds = [] then 0 else length (descs_bytes ds) + 1)"
  by (simp add: ca_part_def Let_def)

lemma streams_length_layout:
  "list_all2 (stands_for_stream buf) cs ss \<Longrightarrow>
     sum_list (map (\<lambda>s. 5 + descriptors_length (cs_descriptors s)) cs)
       = length (concat (map (\<lambda>(t, pid, ds). t # be_bytes pid @ ca_part cmd ds) ss))"
proof (induction rule: list_all2_induct)
  case (Cons c cs s ss)
  then show ?case
    using descriptors_length_layout [of buf "cs_descriptors c" "snd (snd s)"]
    by (simp add: stands_for_stream_def length_ca_part case_prod_beta)
qed simp

lemma ca_parts_pids: "list_all (\<lambda>s. fst (snd s) AND 0x1fff = fst (snd s)) (snd (ca_parts move p))"
proof -
  have m: "((w :: u16) AND 0x1fff) AND 0x1fff = w AND 0x1fff" for w by (simp add: and.assoc)
  show ?thesis
    by (auto simp: ca_parts_def move_common_def ca_stream_of_def list_all_iff m Let_def case_prod_beta)
qed

lemma version_byte:
  "push_bit 1 (drop_bit 1 (v :: byte) AND 0x1f) OR (if bit v 0 then 1 else 0) = v AND 0x3f"
proof -
  have m: "(0x1f :: byte) = mask 5" "(0x3f :: byte) = mask 6" by (simp_all add: mask_eq_exp_minus_1)
  show ?thesis
    unfolding m
  proof (rule bit_word_eqI)
    fix n assume "n < LENGTH(8)"
    then show "bit (push_bit 1 (drop_bit 1 v AND mask 5) OR (if bit v 0 then 1 else 0)) n = bit (v AND mask 6) n"
      unfolding bit_or_iff bit_and_iff bit_push_bit_iff bit_drop_bit_eq bit_mask_iff comp_apply
      by (cases n) (auto simp: bit_1_iff)
  qed
qed

lemma extract_layout:
  assumes "pmt_ok p"
  shows "\<exists>ds cs. en50221_ca_extract_pmt_descriptors (layout le_bytes p) = Some ds
     \<and> en50221_ca_extract_streams (layout le_bytes p) = Some cs
     \<and> list_all2 (stands_for (layout le_bytes p)) ds (ca_descs (wp_descs p))
     \<and> list_all2 (stands_for_stream (layout le_bytes p)) cs (map ca_stream_of (wp_streams p))"
proof -
  let ?buf = "layout le_bytes p" and ?ss = "streams_bytes le_bytes (wp_streams p)"
  have len: "length (layout be_bytes p) = 12 + length (descs_bytes (wp_descs p)) + length (streams_bytes be_bytes (wp_streams p)) + length (wp_crc p)"
    by (simp add: layout_head12)
  have ok: "list_all desc_ok (wp_descs p)" "program_info_length ?buf = length (descs_bytes (wp_descs p))" "list_all stream_ok (wp_streams p)"
    "section_ext_length ?buf = 12 + length (descs_bytes (wp_descs p)) + length ?ss"
    using assms len by (simp_all add: pmt_ok_def layout_fields ext_length length_streams)
  have h: "length (head_bytes le_bytes p) = 12" by (simp add: head_bytes_def)
  obtain ps where ps: "descriptors_for_each ?buf 12 (program_info_length ?buf) = Some ps"
      "list_all2 (stands_for ?buf) (ca_descriptors ?buf ps) (ca_descs (wp_descs p))"
    using descriptors_layout [OF ok(1) layout_def h ok(2)] by blast
  have "\<exists>qs cs. streams_for_each ?buf = Some qs \<and> ca_streams ?buf qs = Some cs
      \<and> list_all2 (stands_for_stream ?buf) cs (map ca_stream_of (wp_streams p))"
  proof (cases "wp_streams p = []")
    case True
    then show ?thesis using ok(2,4) by (simp add: streams_for_each_def Let_def)
  next
    case False
    then have "0 < length ?ss" by (cases "wp_streams p") simp_all
    moreover have "?buf = (head_bytes le_bytes p @ descs_bytes (wp_descs p)) @ ?ss @ wp_crc p" by (simp add: layout_def)
    ultimately show ?thesis
      using stream_walk_layout [OF ok(3) False, of ?buf "head_bytes le_bytes p @ descs_bytes (wp_descs p)" "wp_crc p"] ok(2,4) h
      by (simp add: streams_for_each_def Let_def)
  qed
  then show ?thesis using ps by (auto simp: en50221_ca_extract_pmt_descriptors_def en50221_ca_extract_streams_def)
qed

lemma format_layout:
  assumes "pmt_ok p"
  shows "en50221_ca_format_pmt (layout le_bytes p) n move lm cmd =
     Some (if length (ca_pmt_object lm cmd move p) \<le> n then Some (ca_pmt_object lm cmd move p) else None)"
proof -
  let ?buf = "layout le_bytes p"
  obtain ds cs where x: "en50221_ca_extract_pmt_descriptors ?buf = Some ds" "en50221_ca_extract_streams ?buf = Some cs"
      "list_all2 (stands_for ?buf) ds (ca_descs (wp_descs p))"
      "list_all2 (stands_for_stream ?buf) cs (map ca_stream_of (wp_streams p))"
    using extract_layout [OF assms] by blast
  have empty: "ds = [] \<longleftrightarrow> ca_descs (wp_descs p) = []" using list_all2_lengthD [OF x(3)] by auto
  have "\<exists>ds' cs'. (if ds = [] \<and> move then en50221_ca_try_move_pmt_descriptors ?buf ds cs else Some (ds, cs)) = Some (ds', cs')
     \<and> list_all2 (stands_for ?buf) ds' (fst (ca_parts move p)) \<and> list_all2 (stands_for_stream ?buf) cs' (snd (ca_parts move p))"
  proof (cases "ds = [] \<and> move")
    case True
    then show ?thesis using move_layout [OF x(4)] empty by (simp add: ca_parts_def)
  next
    case False
    then have "ca_parts move p = (ca_descs (wp_descs p), map ca_stream_of (wp_streams p))"
      using empty by (auto simp: ca_parts_def move_common_def Let_def)
    with False x(3,4) show ?thesis by auto
  qed
  then obtain ds' cs' where y: "(if ds = [] \<and> move then en50221_ca_try_move_pmt_descriptors ?buf ds cs else Some (ds, cs)) = Some (ds', cs')"
     "list_all2 (stands_for ?buf) ds' (fst (ca_parts move p))" "list_all2 (stands_for_stream ?buf) cs' (snd (ca_parts move p))" by blast
  have len: "en50221_ca_calculate_length ds' cs' = length (ca_pmt_object lm cmd move p)"
    unfolding en50221_ca_calculate_length_def ca_pmt_object_def streams_length_layout [OF y(3), of cmd]
    by (simp add: descriptors_length_layout [OF y(2)] length_ca_part)
  have vb: "push_bit 1 (version_number ?buf) OR (if current_next_indicator ?buf then 1 else 0) = wp_version p AND 0x3f"
    unfolding layout_fields by (rule version_byte)
  show ?thesis
    unfolding en50221_ca_format_pmt_def x(1,2) vb
    by (simp add: y(1) len put_layout [OF y(2)] put_streams_layout [OF y(3) ca_parts_pids] layout_fields)
       (simp add: ca_pmt_object_def be_bytes_def)
qed

text \<open>C13 (ca_pmt_of_section):
  the CA PMT the module gets for a program is the one of the section: whatever bytes the codecs took
  over, formatting them stays inside the section and gives the object the layout defines, or -1 if
  the object is longer than the buffer.\<close>

theorem ca_pmt_of_section:
  assumes "joker_en50221_parse_pmt sec = Some (Some b)"
  shows "\<exists>p. pmt_ok p \<and> sec = layout be_bytes p \<and>
     en50221_ca_format_pmt b n move lm cmd =
       Some (if length (ca_pmt_object lm cmd move p) \<le> n then Some (ca_pmt_object lm cmd move p) else None)"
  using parse_is_layout [OF assms] parse_layout format_layout assms by fastforce

text \<open>A section with one scrambled stream.\<close>

definition demo_pmt :: wire_pmt where
  "demo_pmt = \<lparr>wp_table_id = 2, wp_length = 0xb018, wp_program = 5, wp_version = 0xc3, wp_section = 0, wp_last_section = 0,
     wp_pcr = 0xe100, wp_info = 0xf000, wp_descs = [],
     wp_streams = [\<lparr>ws_type = 2, ws_pid = 0xe100, ws_info = 0xf006, ws_descs = [(9, [0x0b, 0, 0xe1, 0x02])]\<rparr>], wp_crc = [1, 2, 3, 4]\<rparr>"

lemma demo_pmt_ok: "pmt_ok demo_pmt"
  by code_simp

theorem ca_pmt_of_section_witness:
  "\<exists>p. pmt_ok p \<and> layout be_bytes demo_pmt = layout be_bytes p \<and>
     en50221_ca_format_pmt (layout le_bytes demo_pmt) 4096 True 3 1 =
       Some (if length (ca_pmt_object 3 1 True p) \<le> 4096 then Some (ca_pmt_object 3 1 True p) else None)"
  by (rule ca_pmt_of_section [OF parse_layout [OF demo_pmt_ok]])

text \<open>
  The comment in \<open>en50221_ca_try_move_pmt_descriptors\<close> speaks of the other streams \<open>with CA descriptors\<close>;
  a stream without any already keeps the descriptors where they are.
\<close>

lemma clear_stream_blocks_move:
  assumes "ws_descs s = [(9, d)]" and "ca_descs (ws_descs s') = []" and "wp_descs p = []" and "wp_streams p = [s, s']"
  shows "ca_parts True p = ca_parts False p"
  using assms by (simp add: ca_parts_def move_common_def ca_stream_of_def ca_descs_def Let_def)

end
