(* ===== verification/CaStack.thy ===== *)
theory CaStack
  imports CaPmtProps CamSync
begin

text \<open>
  The program list of \<open>src/joker_en50221.c\<close> over the section codec and the CA PMT formatter of the
  vendored libraries. The locale \<open>pmt_provider\<close> is what the list relies on: a section the codec gives
  out has a property \<open>D\<close>, and formatting a section with \<open>D\<close> gives an object with a property \<open>Q\<close>. Then
  in every state the machine of \<open>CamSync\<close> reaches, the stored sections have \<open>D\<close> and every CA PMT that
  went out has \<open>Q\<close>. The vendored code provides it with the layout of a program map section.
\<close>

section \<open>The vendored code below the list\<close>

text \<open>
  \<open>capmt\<close> is a buffer of 4096 bytes, and the program does not ask to move descriptors. A section that the codecs
  read behind its end is a fault of \<open>pmt_codec\<close>. Formatting has no fault on what the list stores: those are
  decoded sections, see \<open>decoded_format\<close>.
\<close>

definition vendored_lib :: "(en_call list \<Rightarrow> int) \<Rightarrow> en_lib" where
  "vendored_lib call =
     \<lparr>call_res = call,
      format_pmt = (\<lambda>b listmgmt cmd. case en50221_ca_format_pmt b 4096 False listmgmt cmd of None \<Rightarrow> None | Some r \<Rightarrow> r),
      pmt_codec = (\<lambda>sec. map_option (map_option (\<lambda>b. (version_number b, current_next_indicator b, b))) (joker_en50221_parse_pmt sec))\<rparr>"

definition decoded :: "byte list \<Rightarrow> bool" where
  "decoded b \<longleftrightarrow> (\<exists>p. pmt_ok p \<and> b = layout le_bytes p)"

definition section_object :: "byte \<Rightarrow> byte \<Rightarrow> byte list \<Rightarrow> bool" where
  "section_object lm cmd x \<longleftrightarrow> (\<exists>p. pmt_ok p \<and> x = ca_pmt_object lm cmd False p \<and> length x \<le> 4096)"

section \<open>What the list relies on\<close>

definition call_ok :: "(byte \<Rightarrow> byte \<Rightarrow> byte list \<Rightarrow> bool) \<Rightarrow> en_call \<Rightarrow> bool" where
  "call_ok Q c \<longleftrightarrow> (case c of ca_pmt s lm cmd x \<Rightarrow> Q lm cmd x | _ \<Rightarrow> True)"

definition stored :: "(byte list \<Rightarrow> bool) \<Rightarrow> program_t \<Rightarrow> bool" where
  "stored D p \<longleftrightarrow> (case pmt p of None \<Rightarrow> True | Some b \<Rightarrow> D b)"

definition objects_inv ::
  "(byte list \<Rightarrow> bool) \<Rightarrow> (byte \<Rightarrow> byte \<Rightarrow> byte list \<Rightarrow> bool) \<Rightarrow> ('d, 'z) joker_en_h_scheme \<Rightarrow> bool" where
  "objects_inv D Q j \<longleftrightarrow> list_all (call_ok Q) (en_log j)
     \<and> (case joker_en50221_opaque j of None \<Rightarrow> True | Some n \<Rightarrow> list_all (stored D) (programs n))"

lemma call_ok_other [simp]: "\<not> is_ca_pmt c \<Longrightarrow> call_ok Q c"
  by (cases c) (simp_all add: call_ok_def)

lemma call_ok_pmt [simp]: "call_ok Q (ca_pmt s lm cmd x) \<longleftrightarrow> Q lm cmd x"
  by (simp add: call_ok_def)

lemma stored_cong: "pmt q = pmt p \<Longrightarrow> stored D q = stored D p"
  by (simp add: stored_def)

lemma stored_new [simp]: "stored D (new_program k)"
  by (simp add: stored_def)

lemma stored_fields [simp]:
  "stored D (p\<lparr>ci_status := s\<rparr>) = stored D p"
  "stored D (pmt_entry v c b p) \<longleftrightarrow> D b"
  by (simp_all add: stored_def)

lemma objects_programs:
  "objects_inv D Q j \<Longrightarrow> list_all (stored D) ps \<Longrightarrow> objects_inv D Q (set_jen (\<lambda>n. n\<lparr>programs := ps\<rparr>) j)"
  by (auto simp: objects_inv_def set_jen_def split: option.splits)

lemma objects_init: "objects_inv D Q j \<Longrightarrow> objects_inv D Q (snd (joker_ci_en50221_init j))"
  by (auto simp: objects_inv_def joker_ci_en50221_init_def zero_jen_def split: option.splits)

lemma objects_listed:
  "objects_inv D Q j \<Longrightarrow> joker_en50221_opaque j = Some n \<Longrightarrow> list_all (stored D) (programs n)"
  by (simp add: objects_inv_def)

lemma find_stored:
  "program_add_or_find k ps = (i, qs) \<Longrightarrow> list_all (stored D) ps \<Longrightarrow> list_all (stored D) qs"
  by (auto simp: program_add_or_find_def add_key_def split: option.splits)

lemma upd_nth_stored:
  assumes "list_all (stored D) ps" and "\<And>p. pmt (f p) = pmt p"
  shows "list_all (stored D) (upd_nth i f ps)"
proof -
  have f: "stored D (f p) = stored D p" for p using assms(2) by (rule stored_cong)
  have "stored D p" if "p \<in> set (upd_nth i f ps)" for p
    by (rule upd_nth_all [OF _ _ that]) (use f assms(1) in \<open>auto simp: list_all_iff\<close>)
  then show ?thesis by (simp add: list_all_iff)
qed

locale pmt_provider =
  fixes lib :: en_lib and D :: "byte list \<Rightarrow> bool" and Q :: "byte \<Rightarrow> byte \<Rightarrow> byte list \<Rightarrow> bool"
  assumes codec_stores: "pmt_codec lib sec = Some (Some (v, c, b)) \<Longrightarrow> D b"
    and format_gives: "D b \<Longrightarrow> format_pmt lib b lm cmd = Some x \<Longrightarrow> Q lm cmd x"
begin

lemma send_objects:
  assumes "D b" and "objects_inv D Q j"
  shows "objects_inv D Q (snd (send_ca_pmt lib s lm cmd b j))"
  using assms format_gives [OF assms(1)] by (auto simp: send_ca_pmt_eq objects_inv_def split: option.split)

lemma send_loop_objects:
  "list_all (stored D) ps \<Longrightarrow> objects_inv D Q j \<Longrightarrow>
     objects_inv D Q (snd (sync_send_loop lib s count i ps j)) \<and> list_all (stored D) (fst (sync_send_loop lib s count i ps j))"
proof (induction ps arbitrary: i j)
  case (Cons p ps)
  show ?case
  proof (cases "to_send p")
    case True
    then have "D (the (pmt p))" using Cons.prems(1) by (auto simp: stored_def to_send_def)
    from send_objects [OF this Cons.prems(2)] Cons.IH Cons.prems(1) True show ?thesis
      by (simp add: case_prod_beta Let_def)
  qed (use Cons in \<open>simp add: case_prod_beta Let_def\<close>)
qed simp

lemma query_loop_objects:
  "list_all (stored D) ps \<Longrightarrow> objects_inv D Q j \<Longrightarrow> objects_inv D Q (sync_query_loop lib s ps j)"
proof (induction ps arbitrary: j)
  case (Cons p ps)
  show ?case
  proof (cases "to_send p")
    case True
    then have "D (the (pmt p))" using Cons.prems(1) by (auto simp: stored_def to_send_def)
    from send_objects [OF this Cons.prems(2)] Cons.IH Cons.prems(1) True show ?thesis by simp
  qed (use Cons in simp)
qed simp

lemma cmd_objects: "objects_inv D Q (snd (joker_cmd0 dev j bs)) = objects_inv D Q j"
  by (simp add: objects_inv_def frame_simps)

lemma sync_objects:
  assumes "objects_inv D Q j"
  shows "objects_inv D Q (snd (joker_en50221_sync_cam lib dev j))"
proof (cases "joker_en50221_opaque j")
  case (Some n)
  obtain ps j1 where l: "sync_send_loop lib (ca_session_number n) (length (filter to_send (programs n))) 0 (programs n) j = (ps, j1)"
    by fastforce
  have ps: "list_all (stored D) ps" and inv1: "objects_inv D Q j1"
    using send_loop_objects [OF objects_listed [OF assms Some] assms] l by (metis fst_conv, metis snd_conv)
  let ?j2 = "set_jen (\<lambda>n. n\<lparr>programs := ps\<rparr>) j1"
  have inv2: "objects_inv D Q ?j2" by (rule objects_programs [OF inv1 ps])
  have "objects_inv D Q (sync_query_loop lib (ca_session_number n) ps ?j2)" by (rule query_loop_objects [OF ps inv2])
  with inv2 assms show ?thesis
    unfolding joker_en50221_sync_cam_def Some option.case Let_def l prod.case
    by (simp add: case_prod_beta cmd_objects)
qed (simp add: joker_en50221_sync_cam_def assms)

lemma add_objects:
  assumes "objects_inv D Q j" shows "objects_inv D Q (snd (joker_en50221_descramble_add k j))"
proof -
  define j0 where "j0 = snd (joker_ci_en50221_init j)"
  obtain n where n: "joker_en50221_opaque j0 = Some n" using init_some j0_def by metis
  have inv: "objects_inv D Q j0" using objects_init [OF assms] by (simp add: j0_def)
  obtain i ps where a: "program_add_or_find k (programs n) = (i, ps)" by fastforce
  have "snd (joker_en50221_descramble_add k j)
      = set_jen (\<lambda>n. n\<lparr>programs := upd_nth i (\<lambda>p. p\<lparr>ci_status := CI_INIT\<rparr>) ps\<rparr>) j0"
    using n by (simp add: joker_en50221_descramble_add_def case_prod_beta j0_def [symmetric] set_jen_def a)
  then show ?thesis
    using objects_programs [OF inv upd_nth_stored [OF find_stored [OF a objects_listed [OF inv n]]]] by simp
qed

lemma clear_objects:
  assumes "objects_inv D Q j" shows "objects_inv D Q (snd (joker_en50221_descramble_clear j))"
  using objects_init [OF assms]
  by (auto simp: joker_en50221_descramble_clear_def case_prod_beta objects_inv_def set_jen_def list_all_iff split: option.splits)

lemma update_objects:
  assumes "joker_en50221_pmt_update lib dev num sec j = Some (r, j')" and "objects_inv D Q j" shows "objects_inv D Q j'"
proof -
  define j0 where "j0 = snd (joker_ci_en50221_init j)"
  obtain n where n: "joker_en50221_opaque j0 = Some n" using init_some j0_def by metis
  have inv: "objects_inv D Q j0" using objects_init [OF assms(2)] by (simp add: j0_def)
  from assms(1) show ?thesis
  proof (cases rule: pmt_update_some)
    case 1
    then show ?thesis using inv pmt_update_refused [OF 1, of dev num j] assms(1) by (simp add: j0_def)
  next
    case w: (2 v c b)
    obtain i ps where a: "program_add_or_find num (programs n) = (i, ps)" by fastforce
    have ps: "list_all (stored D) ps" by (rule find_stored [OF a objects_listed [OF inv n]])
    have b: "D b" by (rule codec_stores [OF w])
    let ?qs = "ps[i := pmt_entry v c b (ps ! i)]"
    define j1 where "j1 = set_jen (\<lambda>n. n\<lparr>programs := ?qs\<rparr>) j0"
    have "list_all (stored D) ?qs"
      using ps b by (auto simp: list_all_iff dest!: set_update_subset_insert [THEN subsetD])
    then have inv1: "objects_inv D Q j1" unfolding j1_def by (rule objects_programs [OF inv])
    show ?thesis
      using assms(1) pmt_update_cases [OF w n [unfolded j0_def] a j0_def j1_def refl, of dev]
        send_objects [OF b inv1] sync_objects [OF inv1] inv1 objects_programs [OF inv ps] by (auto split: if_splits)
  qed
qed

lemma step_objects: "en_step lib dev j j' \<Longrightarrow> objects_inv D Q j \<Longrightarrow> objects_inv D Q j'"
proof (induction rule: en_step.induct)
  case (st_start tl_ok slot sl_ok j r j')
  then show ?case unfolding joker_ci_en50221_start_def Let_def objects_inv_def
    by (auto split: option.splits if_splits dest!: add_resources_frame)
next
  case (st_ca_info ids j r j')
  let ?j = "set_jen (\<lambda>n. n\<lparr>ca_connected := True\<rparr>) (set_ci (\<lambda>ci. ci\<lparr>ca_ids := (put_bytes (ca_ids ci) 0 ids)[length ids + 1 := 0]\<rparr>) j)"
  have "objects_inv D Q ?j" using st_ca_info by (auto simp: objects_inv_def set_jen_def set_ci_def split: option.splits)
  from sync_objects [OF this, of dev] st_ca_info show ?case
    by (auto simp: test_ca_info_callback_def case_prod_beta Let_def split: if_splits)
next
  case (st_ai slot sn ty man code menu j r j')
  then show ?case
    by (auto simp: test_ai_callback_def objects_inv_def set_jen_def set_ci_def Let_def split: if_splits option.splits)
next
  case (st_session j reason sess rid)
  then show ?case
    by (auto simp: test_session_callback_def objects_inv_def set_jen_def en_do_eq split: session_reason.splits if_splits option.splits)
next
  case (st_menu iconv undef sn title sub_title bottom items j r j')
  then show ?case
    by (auto simp: test_mmi_menu_callback_def objects_inv_def set_jen_def Let_def split: option.splits if_splits)
next
  case (st_enter j)
  then show ?case
    by (auto simp: joker_en50221_mmi_enter_def objects_inv_def set_jen_def en_do_eq Let_def case_prod_beta split: option.splits)
next
  case (st_call buf j r j')
  then show ?case
    by (auto simp: joker_en50221_mmi_call_def objects_inv_def set_jen_def jen_of_def en_do_eq Let_def split: option.splits if_splits)
next
  case (st_poll j t)
  then show ?case
    by (auto simp: ci_poll_round_def objects_inv_def set_jen_def en_do_eq Let_def split: option.splits)
qed (auto simp: objects_init add_objects clear_objects update_objects,
     auto simp: objects_inv_def set_jen_def en_do_eq test_rm_enq_callback_def test_rm_reply_callback_def
       test_rm_changed_callback_def test_datetime_enquiry_callback_def test_mmi_display_control_callback_def test_mmi_enq_callback_def
       test_app_mmi_list_callback_def joker_en50221_set_dvbtime_def case_prod_beta split: option.splits)

end

sublocale pmt_provider \<subseteq> objects: machine "en_step lib dev" "objects_inv D Q" for dev
  by unfold_locales (rule step_objects)

section \<open>The vendored code\<close>

lemma vendored_codec:
  "pmt_codec (vendored_lib call) sec = Some (Some (v, c, b)) \<longleftrightarrow>
     (\<exists>p. pmt_ok p \<and> sec = layout be_bytes p \<and> b = layout le_bytes p \<and> v = version_number b \<and> c = current_next_indicator b)"
proof
  assume "pmt_codec (vendored_lib call) sec = Some (Some (v, c, b))"
  then have "joker_en50221_parse_pmt sec = Some (Some b)" and vc: "v = version_number b" "c = current_next_indicator b"
    by (auto simp: vendored_lib_def)
  from parse_is_layout [OF this(1)] obtain p where p: "pmt_ok p" "sec = layout be_bytes p" by (elim exE conjE)
  have b: "b = layout le_bytes p" using parse_layout [OF p(1)] \<open>joker_en50221_parse_pmt sec = Some (Some b)\<close> p(2) by simp
  show "\<exists>p. pmt_ok p \<and> sec = layout be_bytes p \<and> b = layout le_bytes p \<and> v = version_number b \<and> c = current_next_indicator b"
    by (rule exI [of _ p]) (simp only: p(1) p(2) b vc)
qed (auto simp: vendored_lib_def parse_layout)

lemma decoded_format: "decoded b \<Longrightarrow> en50221_ca_format_pmt b 4096 False lm cmd \<noteq> None"
  by (auto simp: decoded_def format_layout)

lemma vendored_format:
  "pmt_ok p \<Longrightarrow> format_pmt (vendored_lib call) (layout le_bytes p) lm cmd =
     (if length (ca_pmt_object lm cmd False p) \<le> 4096 then Some (ca_pmt_object lm cmd False p) else None)"
  by (simp add: vendored_lib_def format_layout)

interpretation vendored: pmt_provider "vendored_lib call" decoded section_object for call
proof unfold_locales
  show "decoded b" if "pmt_codec (vendored_lib call) sec = Some (Some (v, c, b))" for sec v c b
  proof -
    from that obtain p where "pmt_ok p" "b = layout le_bytes p" by (simp only: vendored_codec) (elim exE conjE)
    then show ?thesis by (auto simp: decoded_def)
  qed
  show "section_object lm cmd x" if "decoded b" "format_pmt (vendored_lib call) b lm cmd = Some x" for b lm cmd x
  proof -
    from that(1) obtain p where "pmt_ok p" "b = layout le_bytes p" unfolding decoded_def by blast
    with that(2) show ?thesis unfolding section_object_def by (auto simp: vendored_format split: if_splits)
  qed
qed

section \<open>The CA PMTs that go out\<close>

text \<open>ca_pmts_are_objects:
  in every state that any interleaving of API calls, callbacks of the stack and rounds of its thread
  reaches from a fresh handle, every CA PMT that went out to the module is, byte for byte, the object of
  a well-formed program map section with the list management code and the command it was sent with,
  and fits the buffer.\<close>

theorem ca_pmts_are_objects:
  assumes "(en_step (vendored_lib call) dev)\<^sup>*\<^sup>* j0 j" and "joker_en50221_opaque j0 = None" and "en_log j0 = []"
    and "ca_pmt s lm cmd x \<in> set (en_log j)"
  shows "\<exists>p. pmt_ok p \<and> x = ca_pmt_object lm cmd False p \<and> length x \<le> 4096"
proof -
  have "objects_inv decoded section_object j"
    by (rule vendored.objects.reach_inv [OF assms(1)]) (simp add: objects_inv_def assms(2,3))
  with assms(4) have "call_ok section_object (ca_pmt s lm cmd x)" unfolding objects_inv_def list_all_iff by blast
  then show ?thesis by (simp add: section_object_def)
qed

lemma demo_pmt_object: "ca_pmt_object 5 1 False demo_pmt = [5, 0, 5, 3, 0, 0, 2, 1, 0, 0, 7, 1, 9, 4, 0x0b, 0, 0xe1, 2]"
  by code_simp

lemma demo_pmt_run:
  "(en_step (vendored_lib call) quiet_dev)\<^sup>*\<^sup>* (en_joker None)
     (snd (the (joker_en50221_pmt_update (vendored_lib call) quiet_dev 5 (layout be_bytes demo_pmt)
        (snd (joker_en50221_descramble_add 5 (en_joker None))))))"
proof -
  have "pmt_codec (vendored_lib call) (layout be_bytes demo_pmt) \<noteq> None"
    by (simp add: vendored_lib_def parse_layout demo_pmt_ok)
  then obtain r j where p: "joker_en50221_pmt_update (vendored_lib call) quiet_dev 5 (layout be_bytes demo_pmt)
      (snd (joker_en50221_descramble_add 5 (en_joker None))) = Some (r, j)"
    by (rule pmt_update_total)
  have "(en_step (vendored_lib call) quiet_dev)\<^sup>*\<^sup>* (en_joker None) j"
    by (rule rtranclp.rtrancl_into_rtrancl [OF r_into_rtranclp [of "en_step (vendored_lib call) quiet_dev", OF st_add] st_pmt [OF p]])
  with p show ?thesis by simp
qed

text \<open>C30 (update_sends_object):
  a new version of the PMT of a program the module descrambles: the list keeps the new section, and one
  CA PMT goes out, an update with the object of that section, so the module is told of the new streams
  and keys.\<close>

theorem update_sends_object:
  assumes "joker_en50221_opaque j = Some n" and "progs.keys_ok (programs n)" and "i < length (programs n)"
    and "number (programs n ! i) = num" and "ci_status (programs n ! i) = CI_CAM_SENT" and "pmt_ok p"
    and "i_version (programs n ! i) \<noteq> drop_bit 1 (wp_version p) AND 0x1f \<or> b_current_next (programs n ! i) \<noteq> bit (wp_version p) 0"
    and "length (ca_pmt_object 5 1 False p) \<le> 4096"
    and "call (en_log j @ [ca_pmt (ca_session_number n) 5 1 (ca_pmt_object 5 1 False p)]) = 0"
  shows "joker_en50221_pmt_update (vendored_lib call) dev num (layout be_bytes p) j = Some
     (0, j\<lparr>joker_en50221_opaque := Some (n\<lparr>programs := (programs n)[i := pmt_entry (drop_bit 1 (wp_version p) AND 0x1f)
              (bit (wp_version p) 0) (layout le_bytes p) (programs n ! i)]\<rparr>),
           en_log := en_log j @ [ca_pmt (ca_session_number n) 5 1 (ca_pmt_object 5 1 False p)]\<rparr>)"
proof -
  let ?b = "layout le_bytes p" and ?lib = "vendored_lib call"
  have init: "snd (joker_ci_en50221_init j) = j" using assms(1) by (simp add: joker_ci_en50221_init_def)
  have codec: "pmt_codec ?lib (layout be_bytes p) = Some (Some (drop_bit 1 (wp_version p) AND 0x1f, bit (wp_version p) 0, ?b))"
    by (simp add: vendored_lib_def parse_layout [OF assms(6)] layout_fields)
  have find: "program_add_or_find num (programs n) = (i, programs n)"
    by (rule add_or_find_present [OF assms(2,3,4)])
  let ?e = "pmt_entry (drop_bit 1 (wp_version p) AND 0x1f) (bit (wp_version p) 0) ?b (programs n ! i)"
  have fmt: "format_pmt ?lib ?b 5 1 = Some (ca_pmt_object 5 1 False p)"
    using vendored_format [OF assms(6), of call 5 1] assms(8) by simp
  have n: "joker_en50221_opaque (snd (joker_ci_en50221_init j)) = Some n" using assms(1) init by simp
  have call: "call_res ?lib h = call h" for h by (simp add: vendored_lib_def)
  show ?thesis
    using pmt_update_cases [OF codec n find refl refl refl, of dev] assms(1,5,7,9)
    by (simp add: init send_ca_pmt_eq fmt call set_jen_def)
qed



theorem update_sends_object_witness:
  "joker_en50221_pmt_update (vendored_lib (\<lambda>_. 0)) quiet_dev 5 (layout be_bytes demo_pmt)
     (en_joker (Some (zero_jen\<lparr>ca_connected := True, programs := [(wanted 5 [])\<lparr>ci_status := CI_CAM_SENT\<rparr>]\<rparr>)))
   = Some (0, (en_joker (Some (zero_jen\<lparr>ca_connected := True,
            programs := [pmt_entry 1 True (layout le_bytes demo_pmt) ((wanted 5 [])\<lparr>ci_status := CI_CAM_SENT\<rparr>)]\<rparr>)))
         \<lparr>en_log := [ca_pmt 0 5 1 [5, 0, 5, 3, 0, 0, 2, 1, 0, 0, 7, 1, 9, 4, 0x0b, 0, 0xe1, 2]]\<rparr>)"
proof -
  let ?n = "zero_jen\<lparr>ca_connected := True, programs := [(wanted 5 [])\<lparr>ci_status := CI_CAM_SENT\<rparr>]\<rparr>"
  have v: "drop_bit 1 (wp_version demo_pmt) AND 0x1f = 1" "bit (wp_version demo_pmt) 0" by code_simp+
  have i: "i_version (wanted 5 []) = 0" by (simp add: wanted_def)
  have s: "ca_session_number zero_jen = 0" by (simp add: zero_jen_def)
  show ?thesis
    using update_sends_object [of "en_joker (Some ?n)" ?n 0 5 demo_pmt "\<lambda>_. 0" quiet_dev] demo_pmt_ok
    by (simp add: progs.keys_ok_def v [simplified] i s demo_pmt_object) (simp add: en_joker_def)
qed

theorem ca_pmts_are_objects_witness:
  "\<exists>p. pmt_ok p \<and> [3, 0, 5, 3, 0, 0, 2, 1, 0, 0, 7, 1, 9, 4, 0x0b, 0, 0xe1, 2 :: byte] = ca_pmt_object 3 1 False p
     \<and> length [3, 0, 5, 3, 0, 0, 2, 1, 0, 0, 7, 1, 9, 4, 0x0b, 0, 0xe1, 2 :: byte] \<le> 4096"
proof -
  let ?lib = "vendored_lib (\<lambda>_. 0)"
  let ?j1 = "snd (the (joker_en50221_pmt_update ?lib quiet_dev 5 (layout be_bytes demo_pmt)
      (snd (joker_en50221_descramble_add 5 (en_joker None)))))"
  let ?r = "test_ca_info_callback ?lib quiet_dev (\<lambda>h. h) [0x0b00] ?j1"
  have run: "(en_step ?lib quiet_dev)\<^sup>*\<^sup>* (en_joker None) ?j1" by (rule demo_pmt_run)
  have r: "map_option (\<lambda>x. (fst x, en_log (snd x))) ?r = Some (0, [ca_pmt 0 3 1 [3, 0, 5, 3, 0, 0, 2, 1, 0, 0, 7, 1, 9, 4, 0x0b, 0, 0xe1, 2]])"
    by code_simp
  then obtain j' where j': "?r = Some (0, j')" "en_log j' = [ca_pmt 0 3 1 [3, 0, 5, 3, 0, 0, 2, 1, 0, 0, 7, 1, 9, 4, 0x0b, 0, 0xe1, 2]]"
    by auto
  have "(en_step ?lib quiet_dev)\<^sup>*\<^sup>* (en_joker None) j'"
    by (rule rtranclp.rtrancl_into_rtrancl [OF run st_ca_info [OF j'(1)]])
  from ca_pmts_are_objects [OF this, where x = "[3, 0, 5, 3, 0, 0, 2, 1, 0, 0, 7, 1, 9, 4, 0x0b, 0, 0xe1, 2]" and s = 0 and lm = 3 and cmd = 1]
  show ?thesis by (simp add: j'(2))
qed

end
