(* ===== verification/AppRes.thy ===== *)
theory AppRes
  imports CaStack Transport
begin

text \<open>
  The application resources of \<open>3party/libdvben50221\<close> the program offers to the module, apart from
  the menus: the resource manager (\<open>en50221_app_rm.c\<close>), date and time (\<open>en50221_app_datetime.c\<close>, with
  the DVB date of \<open>3party/libucsi/dvb/types.c\<close>), application information (\<open>en50221_app_ai.c\<close>) and
  conditional access (\<open>en50221_app_ca.c\<close>). A message of the module is parsed into the call of the
  registered callback, an \<open>app_event\<close>; the program registers every callback before the stack runs.
  \<open>Some None\<close> is a message that is refused with -1, \<open>None\<close> an access outside the message. What is sent
  is the bytes of the object, \<open>None\<close> if the length cannot be encoded.
\<close>

section \<open>Objects\<close>

abbreviation (input) TAG_PROFILE_ENQUIRY :: u32 where "TAG_PROFILE_ENQUIRY \<equiv> 0x9f8010"
abbreviation (input) TAG_PROFILE :: u32 where "TAG_PROFILE \<equiv> 0x9f8011"
abbreviation (input) TAG_PROFILE_CHANGE :: u32 where "TAG_PROFILE_CHANGE \<equiv> 0x9f8012"
abbreviation (input) TAG_APP_INFO_ENQUIRY :: u32 where "TAG_APP_INFO_ENQUIRY \<equiv> 0x9f8020"
abbreviation (input) TAG_APP_INFO :: u32 where "TAG_APP_INFO \<equiv> 0x9f8021"
abbreviation (input) TAG_ENTER_MENU :: u32 where "TAG_ENTER_MENU \<equiv> 0x9f8022"
abbreviation (input) TAG_CA_INFO_ENQUIRY :: u32 where "TAG_CA_INFO_ENQUIRY \<equiv> 0x9f8030"
abbreviation (input) TAG_CA_INFO :: u32 where "TAG_CA_INFO \<equiv> 0x9f8031"
abbreviation (input) TAG_CA_PMT :: u32 where "TAG_CA_PMT \<equiv> 0x9f8032"
abbreviation (input) TAG_CA_PMT_REPLY :: u32 where "TAG_CA_PMT_REPLY \<equiv> 0x9f8033"
abbreviation (input) TAG_DATE_TIME_ENQUIRY :: u32 where "TAG_DATE_TIME_ENQUIRY \<equiv> 0x9f8440"
abbreviation (input) TAG_DATE_TIME :: u32 where "TAG_DATE_TIME \<equiv> 0x9f8441"

definition tag_bytes :: "u32 \<Rightarrow> byte list" where
  "tag_bytes t = [ucast (drop_bit 16 t), ucast (drop_bit 8 t), ucast t]"

definition tag_of :: "byte list \<Rightarrow> u32" where
  "tag_of data = push_bit 16 (ucast (data ! 0)) OR push_bit 8 (ucast (data ! 1)) OR ucast (data ! 2)"

definition be32 :: "u32 \<Rightarrow> byte list" where
  "be32 w = [ucast (drop_bit 24 w), ucast (drop_bit 16 w), ucast (drop_bit 8 w), ucast w]"

datatype app_event =
    ev_rm_enq
  | ev_rm_reply "u32 list"
  | ev_rm_changed
  | ev_datetime byte
  | ev_ai byte u16 u16 "byte list"
  | ev_ca_info "u16 list"
  | ev_ca_reply "byte list"

text \<open>
  The length field of a message and the object behind it, for the messages whose parser checks that
  the object is there.
\<close>

definition asn_object :: "byte list \<Rightarrow> byte list option" where
  "asn_object data =
     (case asn_1_decode data of
        None \<Rightarrow> None
      | Some (asn_data_length, k) \<Rightarrow>
          if unat asn_data_length > length data - k then None
          else Some (take (unat asn_data_length) (drop k data)))"

text \<open>A tag, a length field of at most three bytes for a 16-bit length, and the data.\<close>

definition asn_message :: "u32 \<Rightarrow> byte list \<Rightarrow> byte list option" where
  "asn_message t data = map_option (\<lambda>f. tag_bytes t @ f @ data) (asn_1_encode (word_of_nat (length data)) 3)"

section \<open>Resource manager\<close>

fun be32_list :: "byte list \<Rightarrow> u32 list" where
  "be32_list (a # b # c # d # bs) =
     (push_bit 24 (ucast a) OR push_bit 16 (ucast b) OR push_bit 8 (ucast c) OR ucast d) # be32_list bs"
| "be32_list bs = []"

definition en50221_app_rm_parse_profile_reply :: "byte list \<Rightarrow> app_event option" where
  "en50221_app_rm_parse_profile_reply data = map_option (\<lambda>x. ev_rm_reply (be32_list x)) (asn_object data)"

definition en50221_app_rm_message :: "byte list \<Rightarrow> app_event option" where
  "en50221_app_rm_message data =
     (if length data < 3 then None
      else
        let tag = tag_of data
        in if tag = TAG_PROFILE_ENQUIRY then Some ev_rm_enq
           else if tag = TAG_PROFILE then en50221_app_rm_parse_profile_reply (drop 3 data)
           else if tag = TAG_PROFILE_CHANGE then Some ev_rm_changed
           else None)"

definition en50221_app_rm_enq :: "byte list" where "en50221_app_rm_enq = tag_bytes TAG_PROFILE_ENQUIRY @ [0]"
definition en50221_app_rm_changed :: "byte list" where "en50221_app_rm_changed = tag_bytes TAG_PROFILE_CHANGE @ [0]"

definition en50221_app_rm_reply :: "u32 list \<Rightarrow> byte list option" where
  "en50221_app_rm_reply ids = asn_message TAG_PROFILE (concat (map be32 ids))"

section \<open>Date and time\<close>

text \<open>\<open>gmtime_r\<close> for times from 1970 on: the date from the days, by years and then by months.\<close>

record tm =
  tm_year :: nat
  tm_mon :: nat
  tm_mday :: nat
  tm_hour :: nat
  tm_min :: nat
  tm_sec :: nat

definition leap :: "nat \<Rightarrow> bool" where "leap y \<longleftrightarrow> y mod 4 = 0 \<and> (y mod 100 \<noteq> 0 \<or> y mod 400 = 0)"

definition month_days :: "nat \<Rightarrow> nat list" where
  "month_days y = [31, if leap y then 29 else 28, 31, 30, 31, 30, 31, 31, 30, 31, 30, 31]"

definition year_days :: "nat \<Rightarrow> nat" where "year_days y = (if leap y then 366 else 365)"

function find_year :: "nat \<Rightarrow> nat \<Rightarrow> nat \<times> nat" where
  "find_year y d = (if d < year_days y then (y, d) else find_year (y + 1) (d - year_days y))"
  by pat_completeness auto
termination by (relation "measure snd") (auto simp: year_days_def)

declare find_year.simps [simp del]

fun find_month :: "nat \<Rightarrow> nat list \<Rightarrow> nat \<Rightarrow> nat \<times> nat" where
  "find_month m [] d = (m, d)"
| "find_month m (l # ls) d = (if d < l then (m, d) else find_month (m + 1) ls (d - l))"

definition gmtime :: "nat \<Rightarrow> tm" where
  "gmtime t =
     (let (y, yday) = find_year 1970 (t div 86400);
          (m, d) = find_month 0 (month_days y) yday;
          s = t mod 86400
      in \<lparr>tm_year = y - 1900, tm_mon = m, tm_mday = d + 1, tm_hour = s div 3600, tm_min = s mod 3600 div 60, tm_sec = s mod 60\<rparr>)"

fun bcd_loop :: "nat \<Rightarrow> nat \<Rightarrow> u32 \<Rightarrow> u32" where
  "bcd_loop i 0 n = 0"
| "bcd_loop i (Suc k) n = push_bit i (n mod 10) OR bcd_loop (i + 4) k (n div 10)"

definition integer_to_bcd :: "u32 \<Rightarrow> u32" where "integer_to_bcd intval = bcd_loop 0 8 intval"

text \<open>
  The products with 365.25 and 30.6001 are of doubles; the values stay far enough from a whole number
  that their integer part is that of the exact product. The day number is an \<open>int\<close>, its low 16 bits go out.
\<close>

definition unixtime_to_dvbdate :: "int \<Rightarrow> byte list" where
  "unixtime_to_dvbdate unixtime =
     (if unixtime = - 1 then replicate 5 0xff
      else
        let tm = gmtime (nat unixtime);
            mon = tm_mon tm + 1;
            l = (if mon = 1 \<or> mon = 2 then 1 else 0);
            mjd = 14956 + tm_mday tm + (tm_year tm - l) * 36525 div 100 + (mon + 1 + l * 12) * 306001 div 10000
        in [word_of_nat (mjd div 256), word_of_nat mjd, ucast (integer_to_bcd (word_of_nat (tm_hour tm))),
            ucast (integer_to_bcd (word_of_nat (tm_min tm))), ucast (integer_to_bcd (word_of_nat (tm_sec tm)))])"

definition en50221_app_datetime_send :: "int \<Rightarrow> int \<Rightarrow> byte list" where
  "en50221_app_datetime_send utc_time time_offset =
     (if time_offset \<noteq> - 1
      then tag_bytes TAG_DATE_TIME @ [7] @ unixtime_to_dvbdate utc_time @ [word_of_int (time_offset div 256), word_of_int time_offset]
      else tag_bytes TAG_DATE_TIME @ [5] @ unixtime_to_dvbdate utc_time)"

definition en50221_app_datetime_message :: "byte list \<Rightarrow> app_event option" where
  "en50221_app_datetime_message data =
     (if length data < 3 then None
      else if tag_of data \<noteq> TAG_DATE_TIME_ENQUIRY then None
      else
        let data = drop 3 data
        in if length data \<noteq> 2 then None
           else if data ! 0 \<noteq> 1 then None
           else Some (ev_datetime (data ! 1)))"

section \<open>Application information\<close>

definition en50221_app_ai_enquiry :: "byte list" where "en50221_app_ai_enquiry = tag_bytes TAG_APP_INFO_ENQUIRY @ [0]"
definition en50221_app_ai_entermenu :: "byte list" where "en50221_app_ai_entermenu = tag_bytes TAG_ENTER_MENU @ [0]"

definition be_at :: "byte list \<Rightarrow> nat \<Rightarrow> u16" where
  "be_at data i = push_bit 8 (ucast (data ! i)) OR ucast (data ! (i + 1))"

text \<open>A menu string that is announced longer than the object is cut.\<close>

definition en50221_app_ai_parse_app_info :: "byte list \<Rightarrow> app_event option" where
  "en50221_app_ai_parse_app_info data =
     (case asn_object data of
        None \<Rightarrow> None
      | Some app_info \<Rightarrow>
          if length app_info < 6 then None
          else
            let menu_string_length = unat (app_info ! 5);
                menu_string_length = (if menu_string_length > length app_info - 6
                   then unat (word_of_nat (length app_info - 6) :: byte) else menu_string_length)
            in Some (ev_ai (app_info ! 0) (be_at app_info 1) (be_at app_info 3)
                       (take menu_string_length (drop 6 app_info))))"

definition en50221_app_ai_message :: "byte list \<Rightarrow> app_event option" where
  "en50221_app_ai_message data =
     (if length data < 3 then None
      else if tag_of data = TAG_APP_INFO then en50221_app_ai_parse_app_info (drop 3 data)
      else None)"

section \<open>Conditional access\<close>

definition en50221_app_ca_info_enq :: "byte list" where "en50221_app_ca_info_enq = tag_bytes TAG_CA_INFO_ENQUIRY @ [0]"

definition en50221_app_ca_pmt :: "byte list \<Rightarrow> byte list option" where
  "en50221_app_ca_pmt capmt = asn_message TAG_CA_PMT capmt"

fun be16_list :: "byte list \<Rightarrow> u16 list" where
  "be16_list (a # b # bs) = (push_bit 8 (ucast a) OR ucast b) # be16_list bs"
| "be16_list bs = []"

definition en50221_app_ca_parse_info :: "byte list \<Rightarrow> app_event option" where
  "en50221_app_ca_parse_info data = map_option (\<lambda>x. ev_ca_info (be16_list x)) (asn_object data)"

text \<open>
  The reply is converted in place: the program number, and every three bytes from the fourth on the
  PID of a stream. The callback gets the object.
\<close>

function reply_loop :: "nat \<Rightarrow> nat \<Rightarrow> byte list \<Rightarrow> byte list option" where
  "reply_loop pos n data =
     (if pos < n then (case bswap16 pos data of None \<Rightarrow> None | Some d \<Rightarrow> reply_loop (pos + 3) n d) else Some data)"
  by pat_completeness auto
termination by (relation "measure (\<lambda>(pos, n, data). n - pos)") auto

declare reply_loop.simps [simp del]

definition en50221_app_ca_parse_reply :: "byte list \<Rightarrow> app_event option option" where
  "en50221_app_ca_parse_reply data =
     (case asn_1_decode data of
        None \<Rightarrow> Some None
      | Some (asn_data_length, k) \<Rightarrow>
          let n = unat asn_data_length
          in if n < 4 then Some None
             else if n > length data - k then Some None
             else
               (case bswap16 0 (drop k data) of
                  None \<Rightarrow> None
                | Some d \<Rightarrow> map_option (\<lambda>d. Some (ev_ca_reply (take n d))) (reply_loop 4 n d)))"

definition en50221_app_ca_message :: "byte list \<Rightarrow> app_event option option" where
  "en50221_app_ca_message data =
     (if length data < 3 then Some None
      else
        let tag = tag_of data
        in if tag = TAG_CA_INFO then Some (en50221_app_ca_parse_info (drop 3 data))
           else if tag = TAG_CA_PMT_REPLY then en50221_app_ca_parse_reply (drop 3 data)
           else Some None)"

end
