(* ===== verification/AppMmi.thy ===== *)
theory AppMmi
  imports AppRes
begin

text \<open>
  The menu resource, \<open>3party/libdvben50221/en50221_app_mmi.c\<close>: the fragments of a menu, a list or a
  subtitle are chained per session, the texts of a menu come in fragments of their own, and a complete
  message becomes the call of a callback. The lock is modelled, because one path does not release it:
  taking it again is \<open>mmi_stuck\<close>. \<open>mmi_fault\<close> is a read outside the message, or a \<open>realloc\<close> of an empty
  block to size 0, which the C library frees while the code keeps the pointer; \<open>mmi_refused\<close> is -1.
  A block is its content, \<open>None\<close> for \<open>NULL\<close>.
\<close>

section \<open>State and results\<close>

abbreviation (input) TAG_CLOSE_MMI :: u32 where "TAG_CLOSE_MMI \<equiv> 0x9f8800"
abbreviation (input) TAG_DISPLAY_CONTROL :: u32 where "TAG_DISPLAY_CONTROL \<equiv> 0x9f8801"
abbreviation (input) TAG_DISPLAY_REPLY :: u32 where "TAG_DISPLAY_REPLY \<equiv> 0x9f8802"
abbreviation (input) TAG_TEXT_LAST :: u32 where "TAG_TEXT_LAST \<equiv> 0x9f8803"
abbreviation (input) TAG_TEXT_MORE :: u32 where "TAG_TEXT_MORE \<equiv> 0x9f8804"
abbreviation (input) TAG_KEYPAD_CONTROL :: u32 where "TAG_KEYPAD_CONTROL \<equiv> 0x9f8805"
abbreviation (input) TAG_KEYPRESS :: u32 where "TAG_KEYPRESS \<equiv> 0x9f8806"
abbreviation (input) TAG_ENQUIRY :: u32 where "TAG_ENQUIRY \<equiv> 0x9f8807"
abbreviation (input) TAG_ANSWER :: u32 where "TAG_ANSWER \<equiv> 0x9f8808"
abbreviation (input) TAG_MENU_LAST :: u32 where "TAG_MENU_LAST \<equiv> 0x9f8809"
abbreviation (input) TAG_MENU_MORE :: u32 where "TAG_MENU_MORE \<equiv> 0x9f880a"
abbreviation (input) TAG_MENU_ANSWER :: u32 where "TAG_MENU_ANSWER \<equiv> 0x9f880b"
abbreviation (input) TAG_LIST_LAST :: u32 where "TAG_LIST_LAST \<equiv> 0x9f880c"
abbreviation (input) TAG_LIST_MORE :: u32 where "TAG_LIST_MORE \<equiv> 0x9f880d"
abbreviation (input) TAG_SUBTITLE_SEGMENT_LAST :: u32 where "TAG_SUBTITLE_SEGMENT_LAST \<equiv> 0x9f880e"
abbreviation (input) TAG_SUBTITLE_SEGMENT_MORE :: u32 where "TAG_SUBTITLE_SEGMENT_MORE \<equiv> 0x9f880f"
abbreviation (input) TAG_DISPLAY_MESSAGE :: u32 where "TAG_DISPLAY_MESSAGE \<equiv> 0x9f8810"
abbreviation (input) TAG_SCENE_END_MARK :: u32 where "TAG_SCENE_END_MARK \<equiv> 0x9f8811"
abbreviation (input) TAG_SCENE_DONE :: u32 where "TAG_SCENE_DONE \<equiv> 0x9f8812"
abbreviation (input) TAG_SCENE_CONTROL :: u32 where "TAG_SCENE_CONTROL \<equiv> 0x9f8813"
abbreviation (input) TAG_SUBTITLE_DOWNLOAD_LAST :: u32 where "TAG_SUBTITLE_DOWNLOAD_LAST \<equiv> 0x9f8814"
abbreviation (input) TAG_SUBTITLE_DOWNLOAD_MORE :: u32 where "TAG_SUBTITLE_DOWNLOAD_MORE \<equiv> 0x9f8815"
abbreviation (input) TAG_FLUSH_DOWNLOAD :: u32 where "TAG_FLUSH_DOWNLOAD \<equiv> 0x9f8816"
abbreviation (input) TAG_DOWNLOAD_REPLY :: u32 where "TAG_DOWNLOAD_REPLY \<equiv> 0x9f8817"

abbreviation (input) MMI_CLOSE_MMI_CMD_ID_DELAY :: byte where "MMI_CLOSE_MMI_CMD_ID_DELAY \<equiv> 0x01"
abbreviation (input) MMI_DISPLAY_REPLY_ID_MMI_MODE_ACK :: byte where "MMI_DISPLAY_REPLY_ID_MMI_MODE_ACK \<equiv> 0x01"

datatype mmi_block = blk_menu | blk_list | blk_segment | blk_download

record mmi_session =
  ms_number :: u16
  ms_block :: "mmi_block \<Rightarrow> byte list option"

record en50221_app_mmi =
  mmi_sessions :: "mmi_session list"
  mmi_locked :: bool

datatype mmi_event =
    ev_close byte byte
  | ev_display_control byte byte
  | ev_keypad_control byte "byte list"
  | ev_enq bool byte "byte list"
  | ev_menu "byte list" "byte list" "byte list" "byte list list" "byte list"
  | ev_list "byte list" "byte list" "byte list" "byte list list" "byte list"
  | ev_segment "byte list"
  | ev_download "byte list"
  | ev_scene_end_mark bool bool bool byte
  | ev_scene_control bool bool byte
  | ev_flush_download

datatype mmi_result = mmi_stuck | mmi_fault | mmi_refused | mmi_waits | mmi_calls mmi_event

definition en50221_app_mmi_create :: en50221_app_mmi where
  "en50221_app_mmi_create = \<lparr>mmi_sessions = [], mmi_locked = False\<rparr>"

text \<open>The session is unlinked and freed; this path returns with the lock held.\<close>

definition en50221_app_mmi_clear_session :: "u16 \<Rightarrow> en50221_app_mmi \<Rightarrow> en50221_app_mmi option" where
  "en50221_app_mmi_clear_session n mmi =
     (if mmi_locked mmi then None
      else if n \<in> ms_number ` set (mmi_sessions mmi)
      then Some (mmi\<lparr>mmi_sessions := takeWhile (\<lambda>s. ms_number s \<noteq> n) (mmi_sessions mmi)
                       @ tl (dropWhile (\<lambda>s. ms_number s \<noteq> n) (mmi_sessions mmi)), mmi_locked := True\<rparr>)
      else Some mmi)"

section \<open>What the host sends\<close>

definition en50221_app_mmi_close :: "byte \<Rightarrow> byte \<Rightarrow> byte list" where
  "en50221_app_mmi_close cmd_id delay =
     (if cmd_id = MMI_CLOSE_MMI_CMD_ID_DELAY then tag_bytes TAG_CLOSE_MMI @ [2, cmd_id, delay]
      else tag_bytes TAG_CLOSE_MMI @ [1, cmd_id])"

text \<open>
  The details of a display reply: the member of the union that belongs to its reply id. A reply with the
  wrong member reads what was never set and is the fault, the outer \<open>None\<close>, like an access outside of
  a buffer; the inner one is -1. The pixel depths are written through the pointer that is sent
  afterwards, so what goes out is the memory behind them.
\<close>

record mmi_pixel_depth =
  display_depth :: byte
  pixels_per_byte :: byte
  region_overhead :: byte

record mmi_gfx =
  gfx_width :: u16
  gfx_height :: u16
  aspect_ratio :: byte
  gfx_relation_to_video :: byte
  multiple_depths :: byte
  display_bytes :: u16
  composition_buffer_bytes :: byte
  object_cache_bytes :: byte
  pixel_depths :: "mmi_pixel_depth list"

datatype mmi_details = mode_ack byte | char_table "byte list" | gfx mmi_gfx

definition mmi_mode_ack :: "byte \<Rightarrow> byte list" where
  "mmi_mode_ack mmi_mode = tag_bytes TAG_DISPLAY_REPLY @ [2, MMI_DISPLAY_REPLY_ID_MMI_MODE_ACK, mmi_mode]"

definition gfx_header :: "byte \<Rightarrow> mmi_gfx \<Rightarrow> byte list" where
  "gfx_header reply_id g =
     [reply_id, ucast (drop_bit 8 (gfx_width g)), ucast (gfx_width g), ucast (drop_bit 8 (gfx_height g)), ucast (gfx_height g),
      push_bit 4 (aspect_ratio g AND 0x0f) OR push_bit 1 (gfx_relation_to_video g AND 0x07) OR (multiple_depths g AND 1),
      ucast (drop_bit 4 (display_bytes g)),
      ucast (push_bit 4 (display_bytes g AND 0x0f)) OR drop_bit 4 (composition_buffer_bytes g AND 0xf0),
      push_bit 4 (composition_buffer_bytes g AND 0x0f) OR drop_bit 4 (object_cache_bytes g AND 0xf0),
      push_bit 4 (object_cache_bytes g AND 0x0f) OR (word_of_nat (length (pixel_depths g)) AND 0x0f)]"

definition en50221_app_mmi_display_reply :: "byte \<Rightarrow> mmi_details \<Rightarrow> byte list option option" where
  "en50221_app_mmi_display_reply reply_id details =
     (if reply_id = 0x01 then
        (case details of mode_ack mmi_mode \<Rightarrow> Some (Some (mmi_mode_ack mmi_mode)) | _ \<Rightarrow> None)
      else if reply_id = 0x02 \<or> reply_id = 0x03 then
        (case details of
           char_table table \<Rightarrow>
             Some (map_option (\<lambda>f. tag_bytes TAG_DISPLAY_REPLY @ f @ [reply_id] @ table) (asn_1_encode (word_of_nat (length table + 1)) 3))
         | _ \<Rightarrow> None)
      else if reply_id = 0x04 \<or> reply_id = 0x05 then
        (case details of
           gfx g \<Rightarrow>
             (case asn_1_encode (word_of_nat (1 + 9 + length (pixel_depths g) * 2)) 3 of
                None \<Rightarrow> Some None
              | Some f \<Rightarrow> if pixel_depths g = [] then Some (Some (tag_bytes TAG_DISPLAY_REPLY @ f @ gfx_header reply_id g)) else None)
         | _ \<Rightarrow> None)
      else Some (Some (tag_bytes TAG_DISPLAY_REPLY @ [1, reply_id])))"

definition en50221_app_mmi_keypress :: "byte \<Rightarrow> byte list" where
  "en50221_app_mmi_keypress keycode = tag_bytes TAG_KEYPRESS @ [1, keycode]"

definition en50221_app_mmi_display_message :: "byte \<Rightarrow> byte list" where
  "en50221_app_mmi_display_message m = tag_bytes TAG_DISPLAY_MESSAGE @ [1, m]"

definition en50221_app_mmi_scene_done :: "bool \<Rightarrow> bool \<Rightarrow> byte \<Rightarrow> byte list" where
  "en50221_app_mmi_scene_done decoder_continue scene_reveal scene_tag =
     tag_bytes TAG_SCENE_DONE @ [1, (if decoder_continue then 0x80 else 0) OR (if scene_reveal then 0x40 else 0) OR (scene_tag AND 0x0f)]"

definition en50221_app_mmi_download_reply :: "u16 \<Rightarrow> byte \<Rightarrow> byte list" where
  "en50221_app_mmi_download_reply object_id reply_id =
     tag_bytes TAG_DOWNLOAD_REPLY @ [3, ucast (drop_bit 8 object_id), ucast object_id, reply_id]"

definition en50221_app_mmi_answ :: "byte \<Rightarrow> byte list \<Rightarrow> byte list option" where
  "en50221_app_mmi_answ answ_id txt =
     (if answ_id = MMI_ANSW_ID_ANSWER
      then map_option (\<lambda>f. tag_bytes TAG_ANSWER @ f @ [answ_id] @ txt) (asn_1_encode (word_of_nat (length txt + 1)) 3)
      else Some (tag_bytes TAG_ANSWER @ [1, answ_id]))"

definition en50221_app_mmi_menu_answ :: "byte \<Rightarrow> byte list" where
  "en50221_app_mmi_menu_answ choice_ref = tag_bytes TAG_MENU_ANSWER @ [1, choice_ref]"

text \<open>The object a call of the program into the application layer sends, and on which session.\<close>

fun call_apdu :: "en_call \<Rightarrow> (int \<times> byte list option) option" where
  "call_apdu (rm_enq s) = Some (s, Some en50221_app_rm_enq)"
| "call_apdu (rm_reply s ids) = Some (s, en50221_app_rm_reply ids)"
| "call_apdu (rm_changed s) = Some (s, Some en50221_app_rm_changed)"
| "call_apdu (datetime_send s t off) = Some (s, Some (en50221_app_datetime_send t off))"
| "call_apdu (ai_enquiry s) = Some (s, Some en50221_app_ai_enquiry)"
| "call_apdu (ai_entermenu s) = Some (s, Some en50221_app_ai_entermenu)"
| "call_apdu (ca_info_enq s) = Some (s, Some en50221_app_ca_info_enq)"
| "call_apdu (ca_pmt s listmgmt cmd capmt) = Some (s, en50221_app_ca_pmt capmt)"
| "call_apdu (mmi_menu_answ s choice) = Some (s, Some (en50221_app_mmi_menu_answ (word_of_int choice)))"
| "call_apdu (mmi_answ s answ_id txt) = Some (s, en50221_app_mmi_answ answ_id txt)"
| "call_apdu (mmi_display_reply s mode) = Some (s, Some (mmi_mode_ack mode))"
| "call_apdu (user_mmi txt) = None"

section \<open>Messages in one piece\<close>

definition two_byte_command :: "byte \<Rightarrow> (byte \<Rightarrow> byte \<Rightarrow> mmi_event) \<Rightarrow> byte list \<Rightarrow> mmi_event option" where
  "two_byte_command long ev data =
     (if length data < 2 then None
      else if unat (data ! 0) > length data - 1 then None
      else
        let cmd_id = data ! 1
        in if cmd_id = long then if data ! 0 \<noteq> 2 then None else Some (ev cmd_id (data ! 2))
           else Some (ev cmd_id 0))"

definition en50221_app_mmi_parse_close :: "byte list \<Rightarrow> mmi_event option" where
  "en50221_app_mmi_parse_close data = two_byte_command MMI_CLOSE_MMI_CMD_ID_DELAY ev_close data"

definition en50221_app_mmi_parse_display_control :: "byte list \<Rightarrow> mmi_event option" where
  "en50221_app_mmi_parse_display_control data =
     two_byte_command MMI_DISPLAY_CONTROL_CMD_ID_SET_MMI_MODE ev_display_control data"

definition en50221_app_mmi_parse_keypad_control :: "byte list \<Rightarrow> mmi_event option" where
  "en50221_app_mmi_parse_keypad_control data =
     (case asn_object data of
        None \<Rightarrow> None
      | Some d \<Rightarrow> if length d < 1 then None else Some (ev_keypad_control (d ! 0) (drop 1 d)))"

definition en50221_app_mmi_parse_enq :: "byte list \<Rightarrow> mmi_event option" where
  "en50221_app_mmi_parse_enq data =
     (case asn_object data of
        None \<Rightarrow> None
      | Some d \<Rightarrow> if length d < 2 then None else Some (ev_enq (bit (d ! 0) 0) (d ! 1) (drop 2 d)))"

definition en50221_app_mmi_parse_scene_end_mark :: "byte list \<Rightarrow> mmi_event option" where
  "en50221_app_mmi_parse_scene_end_mark data =
     (if length data \<noteq> 2 then None
      else if data ! 0 \<noteq> 1 then None
      else let flags = data ! 1 in Some (ev_scene_end_mark (bit flags 7) (bit flags 6) (bit flags 5) (flags AND 0x0f)))"

definition en50221_app_mmi_parse_scene_control :: "byte list \<Rightarrow> mmi_event option" where
  "en50221_app_mmi_parse_scene_control data =
     (if length data \<noteq> 2 then None
      else if data ! 0 \<noteq> 1 then None
      else let flags = data ! 1 in Some (ev_scene_control (bit flags 7) (bit flags 6) (flags AND 0x0f)))"

definition en50221_app_mmi_parse_flush_download :: "byte list \<Rightarrow> mmi_event option" where
  "en50221_app_mmi_parse_flush_download data =
     (if length data \<noteq> 1 then None else if data ! 0 \<noteq> 0 then None else Some ev_flush_download)"

text \<open>The callback is read under the lock.\<close>

definition tell :: "mmi_event option \<Rightarrow> en50221_app_mmi \<Rightarrow> mmi_result \<times> en50221_app_mmi" where
  "tell ev mmi =
     (case ev of
        None \<Rightarrow> (mmi_refused, mmi)
      | Some e \<Rightarrow> (if mmi_locked mmi then mmi_stuck else mmi_calls e, mmi))"

section \<open>Fragments\<close>

text \<open>\<open>realloc\<close> of a block to hold more data, and the copy.\<close>

definition append_block :: "byte list option \<Rightarrow> byte list \<Rightarrow> byte list option" where
  "append_block blk data =
     (case blk of None \<Rightarrow> Some data | Some b \<Rightarrow> if b = [] \<and> data = [] then None else Some (b @ data))"

definition block_of :: "u32 \<Rightarrow> mmi_block" where
  "block_of tag =
     (if tag = TAG_MENU_LAST \<or> tag = TAG_MENU_MORE then blk_menu
      else if tag = TAG_LIST_LAST \<or> tag = TAG_LIST_MORE then blk_list
      else if tag = TAG_SUBTITLE_SEGMENT_LAST \<or> tag = TAG_SUBTITLE_SEGMENT_MORE then blk_segment
      else blk_download)"

fun find_session :: "u16 \<Rightarrow> nat \<Rightarrow> mmi_session list \<Rightarrow> nat option" where
  "find_session n i [] = None"
| "find_session n i (s # ss) = (if ms_number s = n then Some i else find_session n (i + 1) ss)"

text \<open>The outer option is the fault, the inner the data once the last fragment is in.\<close>

definition en50221_app_mmi_defragment ::
  "u16 \<Rightarrow> u32 \<Rightarrow> bool \<Rightarrow> byte list \<Rightarrow> en50221_app_mmi \<Rightarrow> (byte list option \<times> en50221_app_mmi) option" where
  "en50221_app_mmi_defragment n tag more_last indata mmi =
     (let blk = block_of tag;
          found = find_session n 0 (mmi_sessions mmi)
      in if \<not> more_last then
           let (i, ss) = (case found of
                   Some i \<Rightarrow> (i, mmi_sessions mmi)
                 | None \<Rightarrow> (0, \<lparr>ms_number = n, ms_block = (\<lambda>_. None)\<rparr> # mmi_sessions mmi))
           in (case append_block (ms_block (ss ! i) blk) indata of
                 None \<Rightarrow> None
               | Some b \<Rightarrow>
                   Some (None, mmi\<lparr>mmi_sessions := ss[i := (ss ! i)\<lparr>ms_block := (ms_block (ss ! i))(blk := Some b)\<rparr>]\<rparr>))
         else
           (case found of
              None \<Rightarrow> Some (Some indata, mmi)
            | Some i \<Rightarrow>
                let s = mmi_sessions mmi ! i
                in (case append_block (ms_block s blk) indata of
                      None \<Rightarrow> None
                    | Some b \<Rightarrow>
                        Some (Some b, mmi\<lparr>mmi_sessions := (mmi_sessions mmi)[i := s\<lparr>ms_block := (ms_block s)(blk := None)\<rparr>]\<rparr>))))"

section \<open>Menus and lists\<close>

text \<open>
  One text in its fragments: the text and what follows it. The length of a fragment is not compared
  with what is left of the data: past the end is the fault.
\<close>

function defragment_text :: "byte list option \<Rightarrow> byte list \<Rightarrow> (byte list \<times> byte list) option option" where
  "defragment_text txt data =
     (if length data < 3 then Some None
      else
        let tag = tag_of data
        in case asn_1_decode (drop 3 data) of
             None \<Rightarrow> Some None
           | Some (l, k) \<Rightarrow>
               let data = drop (3 + k) data; n = unat l
               in if tag = TAG_TEXT_LAST then
                    if n > length data then None
                    else (case append_block txt (take n data) of None \<Rightarrow> None | Some t \<Rightarrow> Some (Some (t, drop n data)))
                  else if tag = TAG_TEXT_MORE then
                    if n > length data then None
                    else (case append_block txt (take n data) of None \<Rightarrow> None | Some t \<Rightarrow> defragment_text (Some t) (drop n data))
                  else Some None)"
  by pat_completeness auto
termination by (relation "measure (length \<circ> snd)") auto

declare defragment_text.simps [simp del]

definition en50221_app_mmi_defragment_text :: "byte list \<Rightarrow> (byte list \<times> byte list) option option" where
  "en50221_app_mmi_defragment_text data = defragment_text None data"

fun text_loop :: "nat \<Rightarrow> byte list \<Rightarrow> (byte list list \<times> byte list) option option" where
  "text_loop 0 data = Some (Some ([], data))"
| "text_loop (Suc k) data =
     (case en50221_app_mmi_defragment_text data of
        None \<Rightarrow> None
      | Some None \<Rightarrow> Some None
      | Some (Some (t, rest)) \<Rightarrow>
          (case text_loop k rest of
             None \<Rightarrow> None
           | Some None \<Rightarrow> Some None
           | Some (Some (ts, rest)) \<Rightarrow> Some (Some (t # ts, rest))))"

text \<open>
  \<open>text_count\<close> is a \<open>uint8_t\<close>: the three texts of the heading and one per choice, modulo 256. The
  callback gets the first three by reference, so fewer of them is the fault.
\<close>

definition parse_menu_data :: "u32 \<Rightarrow> byte list \<Rightarrow> mmi_result" where
  "parse_menu_data tag data =
     (if length data < 1 then mmi_refused
      else
        let choice_nb = data ! 0;
            text_count = (if choice_nb = 0xff then 3 else choice_nb + 3)
        in case text_loop (unat text_count) (drop 1 data) of
             None \<Rightarrow> mmi_fault
           | Some None \<Rightarrow> mmi_refused
           | Some (Some (ts, rest)) \<Rightarrow>
               if unat text_count < 3 then mmi_fault
               else
                 let ev = (if tag = TAG_MENU_LAST then ev_menu else ev_list);
                     items_raw = (if choice_nb = 0xff then rest else [])
                 in mmi_calls (ev (ts ! 0) (ts ! 1) (ts ! 2) (drop 3 ts) items_raw))"

text \<open>What menus and subtitles share: the object, the lock, the fragments.\<close>

definition with_fragments ::
  "(u32 \<Rightarrow> byte list \<Rightarrow> mmi_result) \<Rightarrow> u16 \<Rightarrow> u32 \<Rightarrow> bool \<Rightarrow> byte list \<Rightarrow> en50221_app_mmi \<Rightarrow> mmi_result \<times> en50221_app_mmi" where
  "with_fragments k n tag more_last data mmi =
     (case asn_object data of
        None \<Rightarrow> (mmi_refused, mmi)
      | Some d \<Rightarrow>
          if mmi_locked mmi then (mmi_stuck, mmi)
          else
            (case en50221_app_mmi_defragment n tag more_last d mmi of
               None \<Rightarrow> (mmi_fault, mmi)
             | Some (None, mmi) \<Rightarrow> (mmi_waits, mmi)
             | Some (Some d, mmi) \<Rightarrow> (k tag d, mmi)))"

definition en50221_app_mmi_parse_list_menu ::
  "u16 \<Rightarrow> u32 \<Rightarrow> bool \<Rightarrow> byte list \<Rightarrow> en50221_app_mmi \<Rightarrow> mmi_result \<times> en50221_app_mmi" where
  "en50221_app_mmi_parse_list_menu n tag more_last data mmi = with_fragments parse_menu_data n tag more_last data mmi"

definition en50221_app_mmi_parse_subtitle ::
  "u16 \<Rightarrow> u32 \<Rightarrow> bool \<Rightarrow> byte list \<Rightarrow> en50221_app_mmi \<Rightarrow> mmi_result \<times> en50221_app_mmi" where
  "en50221_app_mmi_parse_subtitle n tag more_last data mmi =
     with_fragments (\<lambda>tag d. mmi_calls (if tag = TAG_SUBTITLE_SEGMENT_LAST then ev_segment d else ev_download d)) n tag more_last data mmi"

definition en50221_app_mmi_message :: "u16 \<Rightarrow> byte list \<Rightarrow> en50221_app_mmi \<Rightarrow> mmi_result \<times> en50221_app_mmi" where
  "en50221_app_mmi_message n data mmi =
     (if length data < 3 then (mmi_refused, mmi)
      else
        let tag = tag_of data; d = drop 3 data
        in if tag = TAG_CLOSE_MMI then tell (en50221_app_mmi_parse_close d) mmi
           else if tag = TAG_DISPLAY_CONTROL then tell (en50221_app_mmi_parse_display_control d) mmi
           else if tag = TAG_KEYPAD_CONTROL then tell (en50221_app_mmi_parse_keypad_control d) mmi
           else if tag = TAG_ENQUIRY then tell (en50221_app_mmi_parse_enq d) mmi
           else if tag = TAG_MENU_LAST \<or> tag = TAG_LIST_LAST then en50221_app_mmi_parse_list_menu n tag True d mmi
           else if tag = TAG_MENU_MORE \<or> tag = TAG_LIST_MORE then en50221_app_mmi_parse_list_menu n tag False d mmi
           else if tag = TAG_SUBTITLE_SEGMENT_LAST \<or> tag = TAG_SUBTITLE_DOWNLOAD_LAST
             then en50221_app_mmi_parse_subtitle n tag True d mmi
           else if tag = TAG_SUBTITLE_SEGMENT_MORE \<or> tag = TAG_SUBTITLE_DOWNLOAD_MORE
             then en50221_app_mmi_parse_subtitle n tag False d mmi
           else if tag = TAG_SCENE_END_MARK then tell (en50221_app_mmi_parse_scene_end_mark d) mmi
           else if tag = TAG_SCENE_CONTROL then tell (en50221_app_mmi_parse_scene_control d) mmi
           else if tag = TAG_FLUSH_DOWNLOAD then tell (en50221_app_mmi_parse_flush_download d) mmi
           else (mmi_refused, mmi))"

end
