(* ===== verification/AppProps.thy ===== *)
theory AppProps
  imports AppMmi TransportProps
begin

text \<open>
  What goes out as an object comes back as the same data: the profile of the host, and menus whose
  texts and whose messages are split into any fragments. The limits of the menu parser: the number of
  choices, the length of a text, and the lock that is not released.
\<close>

section \<open>Objects\<close>

lemma length_tag_bytes [simp]: "length (tag_bytes t) = 3"
  by (simp add: tag_bytes_def)

lemma tag_of_tag_bytes: "tag_of (tag_bytes t @ r) = t AND 0xffffff"
proof -
  have m: "(0xffffff :: u32) = mask 24" by (simp add: mask_eq_exp_minus_1)
  show ?thesis unfolding m
  proof (rule bit_word_eqI)
    fix n assume "n < LENGTH(32)"
    then show "bit (tag_of (tag_bytes t @ r)) n = bit (t AND mask 24) n"
      by (cases "n < 8"; cases "n < 16") (auto simp: tag_of_def tag_bytes_def bit_simps)
  qed
qed

lemma asn_object_encoded:
  assumes "asn_1_encode (word_of_nat (length data)) 3 = Some f" and "length data < 2 ^ 16"
  shows "asn_object (f @ data @ r) = Some data"
proof -
  have "unat (word_of_nat (length data) :: u16) = length data" using assms(2) by (simp add: unat_of_nat)
  then show ?thesis unfolding asn_object_def asn_1_decode_encode [OF assms(1)] by simp
qed

lemma asn_message_parses:
  assumes "length data < 2 ^ 16"
  shows "\<exists>m. asn_message t data = Some m \<and> 3 \<le> length m \<and> tag_of m = t AND 0xffffff \<and> asn_object (drop 3 m) = Some data"
proof -
  obtain f where f: "asn_1_encode (word_of_nat (length data)) 3 = Some f" using asn_1_encode_total by blast
  show ?thesis
    using asn_object_encoded [OF f assms, of "[]"] tag_of_tag_bytes [of t "f @ data"] by (simp add: asn_message_def f)
qed

section \<open>The profile\<close>

lemma be32_list_bytes: "be32_list (concat (map be32 ids)) = ids"
proof (induction ids)
  case (Cons w ids)
  have "push_bit 24 (ucast (ucast (drop_bit 24 w) :: byte)) OR push_bit 16 (ucast (ucast (drop_bit 16 w) :: byte))
      OR push_bit 8 (ucast (ucast (drop_bit 8 w) :: byte)) OR ucast (ucast w :: byte) = w"
    (is "?v = w")
  proof (rule bit_word_eqI)
    fix n assume "n < LENGTH(32)"
    then show "bit ?v n = bit w n"
      by (cases "n < 8"; cases "n < 16"; cases "n < 24") (auto simp: bit_simps)
  qed
  with Cons show ?case by (simp add: be32_def)
qed simp

lemma length_be32s: "length (concat (map be32 ids)) = 4 * length ids"
  by (induction ids) (simp_all add: be32_def)

text \<open>profile_roundtrip:
  the profile the host sends is read back by the resource manager of the other side as the same list
  of resource identifiers, for up to 16383 of them.\<close>

theorem profile_roundtrip:
  assumes "length ids < 2 ^ 14"
  shows "\<exists>m. en50221_app_rm_reply ids = Some m \<and> en50221_app_rm_message m = Some (ev_rm_reply ids)"
proof -
  have "length (concat (map be32 ids)) < 2 ^ 16" using assms by (simp add: length_be32s)
  from asn_message_parses [OF this, of TAG_PROFILE] obtain m where
    "asn_message TAG_PROFILE (concat (map be32 ids)) = Some m" "3 \<le> length m" "tag_of m = TAG_PROFILE"
    "asn_object (drop 3 m) = Some (concat (map be32 ids))" by auto
  then show ?thesis
    by (simp add: en50221_app_rm_reply_def en50221_app_rm_message_def en50221_app_rm_parse_profile_reply_def be32_list_bytes)
qed

theorem profile_roundtrip_witness:
  "\<exists>m. en50221_app_rm_reply [0x10041, 0x240041] = Some m \<and> en50221_app_rm_message m = Some (ev_rm_reply [0x10041, 0x240041])"
  by (rule profile_roundtrip) simp

section \<open>Texts\<close>

text \<open>A text in fragments: all but the last are announced as \<open>more\<close>.\<close>

definition text_object :: "u32 \<Rightarrow> byte list \<Rightarrow> byte list" where
  "text_object tag d = tag_bytes tag @ the (asn_1_encode (word_of_nat (length d)) 3) @ d"

definition text_bytes :: "byte list list \<Rightarrow> byte list" where
  "text_bytes frs = concat (map (text_object TAG_TEXT_MORE) (butlast frs)) @ text_object TAG_TEXT_LAST (last frs)"

definition text_ok :: "byte list list \<Rightarrow> bool" where
  "text_ok frs \<longleftrightarrow> frs \<noteq> [] \<and> list_all (\<lambda>d. length d < 2 ^ 16) frs \<and> list_all (\<lambda>d. d \<noteq> []) (butlast frs)"

lemma text_turn:
  assumes "length d < 2 ^ 16" and "tag = TAG_TEXT_LAST \<or> tag = TAG_TEXT_MORE"
  shows "defragment_text acc (text_object tag d @ r) =
    (case append_block acc d of
       None \<Rightarrow> None
     | Some t \<Rightarrow> if tag = TAG_TEXT_LAST then Some (Some (t, r)) else defragment_text (Some t) r)"
proof -
  obtain f where f: "asn_1_encode (word_of_nat (length d)) 3 = Some f" using asn_1_encode_total by blast
  have n: "unat (word_of_nat (length d) :: u16) = length d" using assms(1) by (simp add: unat_of_nat)
  have tag: "tag_of (text_object tag d @ r) = tag AND 0xffffff" using tag_of_tag_bytes by (simp add: text_object_def)
  have dec: "asn_1_decode (drop 3 (text_object tag d @ r)) = Some (word_of_nat (length d), length f)"
    using asn_1_decode_encode [OF f, of "d @ r"] by (simp add: text_object_def f)
  have rest: "drop (3 + length f) (text_object tag d @ r) = d @ r" by (simp add: text_object_def f)
  have len: "\<not> length (text_object tag d @ r) < 3" by (simp add: text_object_def)
  show ?thesis
    using assms(2) by (subst defragment_text.simps, simp only: len dec rest tag Let_def option.case prod.case n if_False)
      (auto split: option.split)
qed

lemma text_parses:
  assumes "text_ok frs" and "acc = None \<or> (\<exists>t. acc = Some t \<and> t \<noteq> [])"
  shows "defragment_text acc (text_bytes frs @ r) = Some (Some (the (append_block acc (concat frs)), r))"
  using assms
proof (induction frs arbitrary: acc)
  case (Cons d frs)
  show ?case
  proof (cases "frs = []")
    case True
    then have "text_bytes (d # frs) = text_object TAG_TEXT_LAST d" by (simp add: text_bytes_def)
    with Cons.prems True show ?thesis
      by (auto simp: text_turn text_ok_def append_block_def)
  next
    case False
    then have tb: "text_bytes (d # frs) @ r = text_object TAG_TEXT_MORE d @ text_bytes frs @ r" by (simp add: text_bytes_def)
    have ok: "text_ok frs" "d \<noteq> []" "length d < 2 ^ 16" using Cons.prems(1) False by (auto simp: text_ok_def)
    define t where "t = the (append_block acc d)"
    have t: "append_block acc d = Some t" "t \<noteq> []" "append_block acc (d @ concat frs) = append_block (Some t) (concat frs)"
      using ok(2) Cons.prems(2) by (auto simp: append_block_def t_def)
    have "defragment_text (Some t) (text_bytes frs @ r) = Some (Some (the (append_block (Some t) (concat frs)), r))"
      by (rule Cons.IH [OF ok(1)]) (simp add: t(2))
    then show ?thesis unfolding tb using text_turn [OF ok(3), of TAG_TEXT_MORE acc "text_bytes frs @ r"] t by simp
  qed
qed (simp add: text_ok_def)

lemma texts_parse:
  assumes "list_all text_ok ts"
  shows "text_loop (length ts) (concat (map text_bytes ts) @ r) = Some (Some (map concat ts, r))"
  using assms
proof (induction ts)
  case (Cons t ts)
  then have "en50221_app_mmi_defragment_text (text_bytes t @ concat (map text_bytes ts) @ r) = Some (Some (concat t, concat (map text_bytes ts) @ r))"
    using text_parses [of t None] by (simp add: en50221_app_mmi_defragment_text_def append_block_def)
  with Cons show ?case by simp
qed simp

section \<open>Menus\<close>

definition menu_data :: "byte list list \<Rightarrow> byte list list \<Rightarrow> byte list list \<Rightarrow> byte list list list \<Rightarrow> byte list" where
  "menu_data title sub bottom items = word_of_nat (length items) # concat (map text_bytes ([title, sub, bottom] @ items))"

lemma menu_parses:
  assumes "list_all text_ok ([title, sub, bottom] @ items)" and "length items \<le> 252"
  shows "parse_menu_data tag (menu_data title sub bottom items) =
    mmi_calls ((if tag = TAG_MENU_LAST then ev_menu else ev_list) (concat title) (concat sub) (concat bottom) (map concat items) [])"
proof -
  have n: "unat (word_of_nat (length items) :: byte) = length items" using assms(2) by (simp add: unat_of_nat)
  have ne: "(word_of_nat (length items) :: byte) \<noteq> 0xff" using arg_cong [where f = unat, of "word_of_nat (length items)" "0xff :: byte"] n assms(2) by auto
  have c: "unat (word_of_nat (length items) + 3 :: byte) = length ([title, sub, bottom] @ items)"
    using assms(2) n by (simp add: unat_word_ariths)
  show ?thesis
    using texts_parse [OF assms(1), of "[]"] unfolding parse_menu_data_def menu_data_def
    by (simp add: Let_def ne c [simplified] del: text_loop.simps concat.simps)
qed

section \<open>Fragments of a message\<close>

text \<open>The list of sessions stands for a map: the data that waits, by session and kind of message.\<close>

definition mmi_pending :: "en50221_app_mmi \<Rightarrow> u16 \<Rightarrow> mmi_block \<Rightarrow> byte list option" where
  "mmi_pending mmi n blk = (case find_session n 0 (mmi_sessions mmi) of None \<Rightarrow> None | Some i \<Rightarrow> ms_block (mmi_sessions mmi ! i) blk)"

lemma find_session_shift: "find_session n (Suc i) ss = map_option Suc (find_session n i ss)"
  by (induction ss arbitrary: i) auto

lemma find_session_cong: "map ms_number ss = map ms_number ss' \<Longrightarrow> find_session n i ss = find_session n i ss'"
proof (induction ss arbitrary: ss' i)
  case (Cons s ss)
  then obtain t ts where "ss' = t # ts" by (cases ss') auto
  with Cons show ?case by simp
qed simp

lemma find_session_some:
  "find_session n 0 ss = Some i \<Longrightarrow> i < length ss \<and> ms_number (ss ! i) = n"
  by (induction ss arbitrary: i) (auto simp: find_session_shift split: if_splits)

definition put_block :: "nat \<Rightarrow> mmi_block \<Rightarrow> byte list option \<Rightarrow> en50221_app_mmi \<Rightarrow> en50221_app_mmi" where
  "put_block i blk b mmi = mmi\<lparr>mmi_sessions := (mmi_sessions mmi)[i := (mmi_sessions mmi ! i)
     \<lparr>ms_block := (ms_block (mmi_sessions mmi ! i))(blk := b)\<rparr>]\<rparr>"

lemma put_block_locked [simp]: "mmi_locked (put_block i blk b mmi) = mmi_locked mmi"
  by (simp add: put_block_def)

lemma put_block_pending:
  assumes "find_session n 0 (mmi_sessions mmi) = Some i"
  shows "mmi_pending (put_block i blk b mmi) = (\<lambda>n' blk'. if n' = n \<and> blk' = blk then b else mmi_pending mmi n' blk')"
proof (intro ext)
  fix n' blk'
  note i = find_session_some [OF assms]
  have "map ms_number (mmi_sessions (put_block i blk b mmi)) = map ms_number (mmi_sessions mmi)"
    using i by (intro nth_equalityI) (auto simp: put_block_def nth_list_update)
  then have f: "find_session k 0 (mmi_sessions (put_block i blk b mmi)) = find_session k 0 (mmi_sessions mmi)" for k
    by (rule find_session_cong)
  show "mmi_pending (put_block i blk b mmi) n' blk' = (if n' = n \<and> blk' = blk then b else mmi_pending mmi n' blk')"
  proof (cases "find_session n' 0 (mmi_sessions mmi)")
    case (Some k)
    have "k = i" if "n' = n" using Some assms that by simp
    moreover have "n' = n" if "k = i" using conjunct2 [OF find_session_some [OF Some]] conjunct2 [OF i] that by simp
    ultimately have "n' = n \<longleftrightarrow> i = k" by blast
    moreover have "mmi_pending (put_block i blk b mmi) n' blk' = ms_block (mmi_sessions (put_block i blk b mmi) ! k) blk'"
      "mmi_pending mmi n' blk' = ms_block (mmi_sessions mmi ! k) blk'"
      by (simp_all add: mmi_pending_def f Some)
    ultimately show ?thesis using i by (simp add: put_block_def nth_list_update)
  qed (use assms in \<open>auto simp: mmi_pending_def f\<close>)
qed

lemma defragment_more:
  assumes "append_block (mmi_pending mmi n (block_of tag)) d = Some b"
  shows "\<exists>mmi'. en50221_app_mmi_defragment n tag False d mmi = Some (None, mmi') \<and> mmi_locked mmi' = mmi_locked mmi
    \<and> mmi_pending mmi' = (\<lambda>n' blk. if n' = n \<and> blk = block_of tag then Some b else mmi_pending mmi n' blk)"
proof (cases "find_session n 0 (mmi_sessions mmi)")
  case None
  let ?new = "mmi\<lparr>mmi_sessions := \<lparr>ms_number = n, ms_block = (\<lambda>_. None)\<rparr> # mmi_sessions mmi\<rparr>"
  have f: "find_session n 0 (mmi_sessions ?new) = Some 0" by simp
  have new: "mmi_pending ?new = mmi_pending mmi"
    using None by (auto simp: mmi_pending_def find_session_shift fun_eq_iff split: option.split)
  have "mmi_pending mmi n (block_of tag) = None" using None by (simp add: mmi_pending_def)
  then have "en50221_app_mmi_defragment n tag False d mmi = Some (None, put_block 0 (block_of tag) (Some b) ?new)"
    using assms None by (simp add: en50221_app_mmi_defragment_def put_block_def)
  then show ?thesis unfolding new [symmetric] using put_block_pending [OF f] by simp
next
  case (Some i)
  then have "mmi_pending mmi n (block_of tag) = ms_block (mmi_sessions mmi ! i) (block_of tag)" by (simp add: mmi_pending_def)
  then have "en50221_app_mmi_defragment n tag False d mmi = Some (None, put_block i (block_of tag) (Some b) mmi)"
    using assms Some by (simp add: en50221_app_mmi_defragment_def put_block_def)
  then show ?thesis using put_block_pending [OF Some] by simp
qed

lemma defragment_last:
  assumes "append_block (mmi_pending mmi n (block_of tag)) d = Some b"
  shows "\<exists>mmi'. en50221_app_mmi_defragment n tag True d mmi = Some (Some b, mmi') \<and> mmi_locked mmi' = mmi_locked mmi
    \<and> mmi_pending mmi' = (\<lambda>n' blk. if n' = n \<and> blk = block_of tag then None else mmi_pending mmi n' blk)"
proof (cases "find_session n 0 (mmi_sessions mmi)")
  case None
  then have "mmi_pending mmi n (block_of tag) = None" "mmi_pending mmi = (\<lambda>n' blk. if n' = n \<and> blk = block_of tag then None else mmi_pending mmi n' blk)"
    by (auto simp: mmi_pending_def fun_eq_iff)
  with assms None show ?thesis by (auto simp: en50221_app_mmi_defragment_def append_block_def)
next
  case (Some i)
  then have "mmi_pending mmi n (block_of tag) = ms_block (mmi_sessions mmi ! i) (block_of tag)" by (simp add: mmi_pending_def)
  then have "en50221_app_mmi_defragment n tag True d mmi = Some (Some b, put_block i (block_of tag) None mmi)"
    using assms Some by (simp add: en50221_app_mmi_defragment_def put_block_def Let_def)
  then show ?thesis using put_block_pending [OF Some] by simp
qed

text \<open>The messages of one menu or list: all parts but the last are announced as \<open>more\<close>.\<close>

fun mmi_run :: "u16 \<Rightarrow> byte list list \<Rightarrow> en50221_app_mmi \<Rightarrow> mmi_result list \<times> en50221_app_mmi" where
  "mmi_run n [] mmi = ([], mmi)"
| "mmi_run n (m # ms) mmi =
     (let (r, mmi) = en50221_app_mmi_message n m mmi; (rs, mmi) = mmi_run n ms mmi in (r # rs, mmi))"

definition more_tag :: "u32 \<Rightarrow> u32" where
  "more_tag tag = (if tag = TAG_MENU_LAST then TAG_MENU_MORE else TAG_LIST_MORE)"

lemma object_message:
  assumes "length d < 2 ^ 16" and "tag \<in> {TAG_MENU_LAST, TAG_LIST_LAST, TAG_MENU_MORE, TAG_LIST_MORE}" and "\<not> mmi_locked mmi"
  shows "en50221_app_mmi_message n (text_object tag d) mmi =
    (case en50221_app_mmi_defragment n tag (tag = TAG_MENU_LAST \<or> tag = TAG_LIST_LAST) d mmi of
       None \<Rightarrow> (mmi_fault, mmi)
     | Some (None, mmi) \<Rightarrow> (mmi_waits, mmi)
     | Some (Some d, mmi) \<Rightarrow> (parse_menu_data tag d, mmi))"
proof -
  obtain f where f: "asn_1_encode (word_of_nat (length d)) 3 = Some f" using asn_1_encode_total by blast
  have obj: "asn_object (drop 3 (text_object tag d)) = Some d"
    using asn_object_encoded [OF f assms(1), of "[]"] by (simp add: text_object_def f)
  have tag: "tag_of (text_object tag d) = tag AND 0xffffff" using tag_of_tag_bytes [of tag "the (asn_1_encode (word_of_nat (length d)) 3) @ d"]
    by (simp add: text_object_def)
  have len: "\<not> length (text_object tag d) < 3" by (simp add: text_object_def)
  have t: "tag AND 0xffffff = tag" using assms(2) by auto
  consider "tag = TAG_MENU_LAST" | "tag = TAG_LIST_LAST" | "tag = TAG_MENU_MORE" | "tag = TAG_LIST_MORE" using assms(2) by auto
  then show ?thesis
    unfolding en50221_app_mmi_message_def Let_def tag t en50221_app_mmi_parse_list_menu_def with_fragments_def obj
    by cases (use len assms(3) in simp_all)
qed

text \<open>C29 (menu_reassembles):
  a menu or list of up to 252 choices, its texts and its message split into fragments anywhere: every
  message but the last only waits, and with the last the program gets the menu with exactly the texts
  that were sent; nothing of it stays behind, and what other sessions or other kinds of message wait
  for is untouched.\<close>

theorem menu_reassembles:
  assumes "list_all text_ok ([title, sub, bottom] @ items)" and "length items \<le> 252"
    and "tag = TAG_MENU_LAST \<or> tag = TAG_LIST_LAST" and "\<not> mmi_locked mmi" and "mmi_pending mmi n (block_of tag) = None"
    and "concat (parts @ [final]) = menu_data title sub bottom items"
    and "list_all (\<lambda>d. d \<noteq> [] \<and> length d < 2 ^ 16) parts" and "length final < 2 ^ 16"
  shows "\<exists>mmi'. mmi_run n (map (text_object (more_tag tag)) parts @ [text_object tag final]) mmi
      = (replicate (length parts) mmi_waits @
          [mmi_calls ((if tag = TAG_MENU_LAST then ev_menu else ev_list) (concat title) (concat sub) (concat bottom) (map concat items) [])], mmi')
    \<and> mmi_pending mmi' = mmi_pending mmi \<and> \<not> mmi_locked mmi'"
proof -
  have mt: "more_tag tag = TAG_MENU_MORE \<or> more_tag tag = TAG_LIST_MORE" "block_of (more_tag tag) = block_of tag"
    using assms(3) by (auto simp: more_tag_def block_of_def)
  have run: "\<exists>mmi'. mmi_run n (map (text_object (more_tag tag)) parts @ [text_object tag final]) mmi
      = (replicate (length parts) mmi_waits @ [parse_menu_data tag (acc @ concat parts @ final)], mmi')
    \<and> mmi_pending mmi' = (\<lambda>n' blk. if n' = n \<and> blk = block_of tag then None else mmi_pending mmi n' blk) \<and> \<not> mmi_locked mmi'"
    if "\<not> mmi_locked mmi" "mmi_pending mmi n (block_of tag) = (if acc = [] then None else Some acc)"
      "list_all (\<lambda>d. d \<noteq> [] \<and> length d < 2 ^ 16) parts" for acc parts mmi
    using that
  proof (induction parts arbitrary: acc mmi)
    case Nil
    have "append_block (mmi_pending mmi n (block_of tag)) final = Some (acc @ final)" using Nil(2) by (simp add: append_block_def)
    from defragment_last [OF this] obtain mmi' where l:
      "en50221_app_mmi_defragment n tag True final mmi = Some (Some (acc @ final), mmi')" "mmi_locked mmi' = mmi_locked mmi"
      "mmi_pending mmi' = (\<lambda>n' blk. if n' = n \<and> blk = block_of tag then None else mmi_pending mmi n' blk)" by blast
    have "en50221_app_mmi_message n (text_object tag final) mmi = (parse_menu_data tag (acc @ final), mmi')"
      using object_message [OF assms(8), of tag mmi n] assms(3) Nil(1) l(1) by auto
    with l(2,3) Nil(1) show ?case by simp
  next
    case (Cons d parts)
    have "append_block (mmi_pending mmi n (block_of (more_tag tag))) d = Some (acc @ d)"
      using Cons.prems(2,3) by (simp add: append_block_def mt(2))
    from defragment_more [OF this] obtain mmi1 where m1:
      "en50221_app_mmi_defragment n (more_tag tag) False d mmi = Some (None, mmi1)" "mmi_locked mmi1 = mmi_locked mmi"
      "mmi_pending mmi1 = (\<lambda>n' blk. if n' = n \<and> blk = block_of tag then Some (acc @ d) else mmi_pending mmi n' blk)"
      unfolding mt(2) by blast
    have "\<exists>mmi'. mmi_run n (map (text_object (more_tag tag)) parts @ [text_object tag final]) mmi1
      = (replicate (length parts) mmi_waits @ [parse_menu_data tag ((acc @ d) @ concat parts @ final)], mmi')
      \<and> mmi_pending mmi' = (\<lambda>n' blk. if n' = n \<and> blk = block_of tag then None else mmi_pending mmi1 n' blk) \<and> \<not> mmi_locked mmi'"
      by (rule Cons.IH) (use Cons.prems m1 in auto)
    moreover have "en50221_app_mmi_message n (text_object (more_tag tag) d) mmi = (mmi_waits, mmi1)"
      using object_message [of d "more_tag tag" mmi n] mt(1) m1(1) Cons.prems(1,3) by auto
    moreover have "(\<lambda>n' blk. if n' = n \<and> blk = block_of tag then None else mmi_pending mmi1 n' blk)
        = (\<lambda>n' blk. if n' = n \<and> blk = block_of tag then None else mmi_pending mmi n' blk)"
      unfolding m1(3) by (intro ext) simp
    ultimately show ?case by (elim exE conjE) (simp add: Let_def)
  qed
  have eq: "(\<lambda>n' blk. if n' = n \<and> blk = block_of tag then None else mmi_pending mmi n' blk) = mmi_pending mmi"
    using assms(5) by (intro ext) simp
  have "[] @ concat parts @ final = menu_data title sub bottom items" using assms(6) by simp
  then show ?thesis using run [of mmi "[]" parts] assms(4,5,7) unfolding eq menu_parses [OF assms(1,2), of tag, symmetric] by simp
qed

theorem menu_reassembles_witness:
  "\<exists>mmi'. mmi_run 3 [text_object TAG_MENU_MORE [1, 0x9f, 0x88], text_object TAG_MENU_LAST
        ([3, 1, 65] @ text_bytes [[66], [67]] @ text_bytes [[]] @ text_bytes [[68]])] en50221_app_mmi_create
      = ([mmi_waits, mmi_calls (ev_menu [65] [66, 67] [] [[68]] [])], mmi')
    \<and> mmi_pending mmi' = mmi_pending en50221_app_mmi_create \<and> \<not> mmi_locked mmi'"
proof -
  let ?f = "[3, 1, 65] @ text_bytes [[66], [67]] @ text_bytes [[]] @ text_bytes [[68]]"
  have "\<exists>mmi'. mmi_run 3 (map (text_object (more_tag TAG_MENU_LAST)) [[1, 0x9f, 0x88]] @ [text_object TAG_MENU_LAST ?f]) en50221_app_mmi_create
      = (replicate (length [[1, 0x9f, 0x88 :: byte]]) mmi_waits @ [mmi_calls ((if TAG_MENU_LAST = TAG_MENU_LAST then ev_menu else ev_list)
           (concat [[65]]) (concat [[66], [67]]) (concat [[]]) (map concat [[[68]]]) [])], mmi')
    \<and> mmi_pending mmi' = mmi_pending en50221_app_mmi_create \<and> \<not> mmi_locked mmi'"
  proof (rule menu_reassembles)
    show "concat ([[1, 0x9f, 0x88]] @ [?f]) = menu_data [[65]] [[66], [67]] [[]] [[[68]]]" by code_simp
    show "length ?f < 2 ^ 16" by (simp add: text_bytes_def text_object_def asn_1_encode_def)
  qed (simp_all add: text_ok_def en50221_app_mmi_create_def mmi_pending_def)
  then show ?thesis by (simp add: more_tag_def)
qed

section \<open>Limits\<close>

text \<open>
  A menu that announces 253 choices, whatever follows, makes the parser hand out the texts of the heading
  from outside of its array: the count of texts is kept in 8 bits.
\<close>

lemma menu_count_wraps: "parse_menu_data tag (253 # rest) = mmi_fault"
  by (simp add: parse_menu_data_def)

lemma text_overrun:
  assumes "asn_1_encode (word_of_nat n) 3 = Some f" and "n < 2 ^ 16" and "length d < n"
  shows "defragment_text acc (tag_bytes TAG_TEXT_LAST @ f @ d) = None"
proof -
  have u: "unat (word_of_nat n :: u16) = n" using assms(2) by (simp add: unat_of_nat)
  have t: "tag_of (tag_bytes TAG_TEXT_LAST @ f @ d) = TAG_TEXT_LAST" using tag_of_tag_bytes [of TAG_TEXT_LAST "f @ d"] by simp
  show ?thesis
    using assms(3) by (subst defragment_text.simps) (simp add: t asn_1_decode_encode [OF assms(1)] u Let_def)
qed

text \<open>Every list of pixel depths goes out as what lies behind it.\<close>

lemma gfx_reply_faults:
  "reply_id \<in> {4, 5} \<Longrightarrow> pixel_depths g \<noteq> [] \<Longrightarrow> en50221_app_mmi_display_reply reply_id (gfx g) = None"
  using asn_1_encode_total [of "word_of_nat (1 + 9 + length (pixel_depths g) * 2)"]
  by (auto simp: en50221_app_mmi_display_reply_def split: option.split)

text \<open>A CA PMT reply that ends one byte into a stream is converted past its end.\<close>

lemma reply_loop_overrun: "length data = pos + 3 * k + 1 \<Longrightarrow> reply_loop pos (pos + 3 * k + 1) data = None"
proof (induction k arbitrary: pos data)
  case 0
  then show ?case by (subst reply_loop.simps) (simp add: bswap16_def)
next
  case (Suc k)
  have n: "pos + 3 * Suc k + 1 = pos + 3 + 3 * k + 1" by simp
  show ?case using Suc.prems Suc.IH [of _ "pos + 3"]
    by (subst reply_loop.simps) (simp add: n bswap16_def split: option.split)
qed

lemma ca_reply_overrun:
  assumes "asn_1_encode (word_of_nat (length d)) 3 = Some f" and "length d = 5 + 3 * k" and "length d < 2 ^ 16"
  shows "en50221_app_ca_message (tag_bytes TAG_CA_PMT_REPLY @ f @ d) = None"
proof -
  have t: "tag_of (tag_bytes TAG_CA_PMT_REPLY @ f @ d) = TAG_CA_PMT_REPLY" using tag_of_tag_bytes [of TAG_CA_PMT_REPLY "f @ d"] by simp
  have u: "unat (word_of_nat (length d) :: u16) = length d" using assms(3) by (simp add: unat_of_nat)
  obtain d' where d': "bswap16 0 d = Some d'" "length d' = 4 + 3 * k + 1" using assms(2) by (simp add: bswap16_def)
  have "reply_loop 4 (length d) d' = None" using reply_loop_overrun [OF d'(2)] assms(2) by (simp add: algebra_simps)
  moreover have "\<not> length d < 4" using assms(2) by simp
  ultimately show ?thesis
    using d'(1) by (simp add: en50221_app_ca_message_def t en50221_app_ca_parse_reply_def asn_1_decode_encode [OF assms(1)] u Let_def)
qed

text \<open>The callback is never reached again once a session with fragments has been cleared.\<close>

definition calls :: "mmi_result \<Rightarrow> bool" where "calls r \<longleftrightarrow> (\<exists>e. r = mmi_calls e)"

lemma locked_silent:
  "mmi_locked mmi \<Longrightarrow> \<not> calls (fst (en50221_app_mmi_message n m mmi)) \<and> snd (en50221_app_mmi_message n m mmi) = mmi"
  by (auto simp: en50221_app_mmi_message_def Let_def tell_def calls_def en50221_app_mmi_parse_list_menu_def
      en50221_app_mmi_parse_subtitle_def with_fragments_def split: option.split)

text \<open>C40 (clear_session_deadlock):
  clearing a session that has been in fragments never gives the lock back: after it no message of the
  menu resource, of any session, reaches the program again, and a second clearing never returns.\<close>

theorem clear_session_deadlock:
  assumes "\<not> mmi_locked mmi" and "mmi_pending mmi n blk \<noteq> None"
  shows "\<exists>mmi'. en50221_app_mmi_clear_session n mmi = Some mmi'
    \<and> list_all (\<lambda>r. \<not> calls r) (fst (mmi_run k ms mmi')) \<and> en50221_app_mmi_clear_session k mmi' = None"
proof -
  obtain i where "find_session n 0 (mmi_sessions mmi) = Some i" using assms(2) by (auto simp: mmi_pending_def split: option.splits)
  then have "n \<in> ms_number ` set (mmi_sessions mmi)" using find_session_some by (metis image_eqI nth_mem)
  then obtain mmi' where c: "en50221_app_mmi_clear_session n mmi = Some mmi'" "mmi_locked mmi'"
    using assms(1) by (simp add: en50221_app_mmi_clear_session_def)
  have "list_all (\<lambda>r. \<not> calls r) (fst (mmi_run k ms mmi'))"
    using c(2)
  proof (induction ms)
    case (Cons m ms)
    obtain r where "en50221_app_mmi_message k m mmi' = (r, mmi')" "\<not> calls r"
      using locked_silent [OF c(2), of k m] by (metis prod.collapse)
    with Cons show ?case by (simp add: case_prod_beta)
  qed simp
  then show ?thesis using c by (simp add: en50221_app_mmi_clear_session_def)
qed

theorem clear_session_deadlock_witness:
  "\<exists>mmi'. en50221_app_mmi_clear_session 3 (snd (mmi_run 3 [text_object TAG_MENU_MORE [1]] en50221_app_mmi_create)) = Some mmi'
    \<and> list_all (\<lambda>r. \<not> calls r) (fst (mmi_run 7 [tag_bytes TAG_CLOSE_MMI @ [1, 0]] mmi')) \<and> en50221_app_mmi_clear_session 7 mmi' = None"
  by (rule clear_session_deadlock [where blk = blk_menu]) code_simp+

end
