(* ===== verification/AppHost.thy ===== *)
theory AppHost
  imports AppProps
begin

text \<open>
  The host on its applications: the object of a module reaches the parser of its resource, and what
  the parser makes of it the callback of \<open>src/joker_en50221.c\<close> that was registered for it. Whatever
  bytes the module sends, the host only makes steps of the machine of \<open>CamSync\<close>, so what holds in
  its reachable states holds for every module.
\<close>

section \<open>Callbacks\<close>

text \<open>
  The callbacks that only print return 0. The outer \<open>None\<close> is a callback that does not end
  regularly. \<open>now\<close> is the time of day, \<open>iconv\<close> and \<open>undef\<close> are the character conversion and the
  initial content of the menu buffer.
\<close>

record 'i host_env =
  he_lib :: en_lib
  he_now :: int
  he_iconv :: iconv_fn
  he_undef :: "byte list"
  he_dev :: 'i

definition run_app ::
  "('d usb_dev) host_env \<Rightarrow> nat \<Rightarrow> u16 \<Rightarrow> app_event \<Rightarrow> ('d, 'z) joker_en_h_scheme \<Rightarrow> (int \<times> ('d, 'z) joker_en_h_scheme) option" where
  "run_app env slot sn ev j =
     (case ev of
        ev_rm_enq \<Rightarrow> Some (test_rm_enq_callback (he_lib env) (uint sn) j)
      | ev_rm_reply ids \<Rightarrow> Some (test_rm_reply_callback (he_lib env) (uint sn) j)
      | ev_rm_changed \<Rightarrow> Some (test_rm_changed_callback (he_lib env) (uint sn) j)
      | ev_datetime interval \<Rightarrow> Some (test_datetime_enquiry_callback (he_lib env) (he_now env) (uint sn) interval j)
      | ev_ai ty man code menu \<Rightarrow> test_ai_callback (\<lambda>h. h) slot sn ty man code menu j
      | ev_ca_info ids \<Rightarrow> test_ca_info_callback (he_lib env) (he_dev env) (\<lambda>h. h) ids j
      | ev_ca_reply reply \<Rightarrow> Some (0, j))"

definition run_mmi ::
  "'i host_env \<Rightarrow> u16 \<Rightarrow> mmi_event \<Rightarrow> ('d, 'z) joker_en_h_scheme \<Rightarrow> (int \<times> ('d, 'z) joker_en_h_scheme) option" where
  "run_mmi env sn ev j =
     (case ev of
        ev_display_control cmd_id mmi_mode \<Rightarrow> Some (test_mmi_display_control_callback (he_lib env) (uint sn) cmd_id mmi_mode j)
      | ev_enq blind_answer answer_length txt \<Rightarrow> Some (test_mmi_enq_callback sn j)
      | ev_menu title sub_title bottom items raw \<Rightarrow> test_mmi_menu_callback (he_iconv env) (he_undef env) sn title sub_title bottom items j
      | ev_list title sub_title bottom items raw \<Rightarrow> Some (test_app_mmi_list_callback sn j)
      | _ \<Rightarrow> Some (0, j))"

section \<open>Messages\<close>

definition app_result ::
  "('e \<Rightarrow> 's \<Rightarrow> (int \<times> 's) option) \<Rightarrow> 'e option \<Rightarrow> 's \<Rightarrow> (int \<times> 's) option" where
  "app_result run ev j = (case ev of None \<Rightarrow> Some (- 1, j) | Some e \<Rightarrow> run e j)"

text \<open>The resource callback of a session, with the state of the menu resource and the program.\<close>

definition app_message ::
  "('d usb_dev) host_env \<Rightarrow> en_handler \<Rightarrow> nat \<Rightarrow> u16 \<Rightarrow> byte list \<Rightarrow> en50221_app_mmi \<times> ('d, 'z) joker_en_h_scheme
    \<Rightarrow> (int \<times> en50221_app_mmi \<times> ('d, 'z) joker_en_h_scheme) option" where
  "app_message env h slot sn data st =
     (let (mmi, j) = st;
          app = (\<lambda>ev. map_option (\<lambda>(r, j). (r, mmi, j)) (app_result (run_app env slot sn) ev j))
      in case h of
           rm_message \<Rightarrow> app (en50221_app_rm_message data)
         | datetime_message \<Rightarrow> app (en50221_app_datetime_message data)
         | ai_message \<Rightarrow> app (en50221_app_ai_message data)
         | ca_message \<Rightarrow> (case en50221_app_ca_message data of None \<Rightarrow> None | Some ev \<Rightarrow> app ev)
         | mmi_message \<Rightarrow>
             (case en50221_app_mmi_message sn data mmi of
                (mmi_refused, mmi) \<Rightarrow> Some (- 1, mmi, j)
              | (mmi_waits, mmi) \<Rightarrow> Some (0, mmi, j)
              | (mmi_calls ev, mmi) \<Rightarrow> map_option (\<lambda>(r, j). (r, mmi, j)) (run_mmi env sn ev j)
              | _ \<Rightarrow> None))"

section \<open>Every message is a step\<close>

definition en_steps :: "en_lib \<Rightarrow> 'd usb_dev \<Rightarrow> ('d, 'z) joker_en_h_scheme \<Rightarrow> ('d, 'z) joker_en_h_scheme \<Rightarrow> bool" where
  "en_steps lib dev j j' \<longleftrightarrow> j' = j \<or> en_step lib dev j j'"

lemma en_steps_refl [simp]: "en_steps lib dev j j"
  by (simp add: en_steps_def)

lemma snd_step: "x = (r, j') \<Longrightarrow> en_step lib dev j (snd x) \<Longrightarrow> en_step lib dev j j'"
  by simp

lemma run_app_steps:
  assumes "run_app env slot sn ev j = Some (r, j')"
  shows "en_steps (he_lib env) (he_dev env) j j'"
proof (cases ev)
  case (ev_ai ty man code menu)
  then show ?thesis using assms by (auto simp: run_app_def en_steps_def intro: st_ai)
next
  case (ev_ca_info ids)
  then show ?thesis using assms by (auto simp: run_app_def en_steps_def intro: st_ca_info)
qed (use assms in \<open>auto simp: run_app_def en_steps_def intro: snd_step st_rm_enq st_rm_reply st_rm_changed st_datetime\<close>)

lemma run_mmi_steps:
  assumes "run_mmi env sn ev j = Some (r, j')"
  shows "en_steps (he_lib env) dev j j'"
proof (cases ev)
  case (ev_menu title sub_title bottom items raw)
  then show ?thesis using assms by (auto simp: run_mmi_def en_steps_def intro: st_menu)
qed (use assms in \<open>auto simp: run_mmi_def en_steps_def intro: snd_step st_display st_enq st_list\<close>)

lemma app_result_steps:
  "app_result (run_app env slot sn) ev j = Some (r, j') \<Longrightarrow> en_steps (he_lib env) (he_dev env) j j'"
  by (auto simp: app_result_def split: option.splits dest: run_app_steps)

lemma app_message_steps:
  assumes "app_message env h slot sn data (mmi, j) = Some (r, mmi', j')"
  shows "en_steps (he_lib env) (he_dev env) j j'"
proof (cases h)
  case mmi_message
  obtain res mmi1 where m: "en50221_app_mmi_message sn data mmi = (res, mmi1)" by fastforce
  then show ?thesis
    using assms mmi_message by (cases res) (auto simp: app_message_def dest: run_mmi_steps)
qed (use assms in \<open>auto simp: app_message_def dest: app_result_steps split: option.splits\<close>)

section \<open>The host as a machine\<close>

text \<open>
  The state of the host with its module: what the program holds and what the menu resource has put
  together so far. A step is a call of the API, an event of the lower layers, or a message of the
  module: any bytes, for any resource, on any session.
\<close>

inductive host_step ::
  "en_lib \<Rightarrow> 'd usb_dev \<Rightarrow> en50221_app_mmi \<times> ('d, 'z) joker_en_h_scheme \<Rightarrow> en50221_app_mmi \<times> ('d, 'z) joker_en_h_scheme \<Rightarrow> bool"
  for lib dev where
  hs_api: "en_step lib dev j j' \<Longrightarrow> host_step lib dev (mmi, j) (mmi, j')"
| hs_message: "he_lib env = lib \<Longrightarrow> he_dev env = dev \<Longrightarrow> app_message env h slot sn data (mmi, j) = Some (r, mmi', j')
    \<Longrightarrow> host_step lib dev (mmi, j) (mmi', j')"
| hs_clear: "en50221_app_mmi_clear_session sn mmi = Some mmi' \<Longrightarrow> host_step lib dev (mmi, j) (mmi', j)"

lemma host_step_en: "host_step lib dev st st' \<Longrightarrow> en_steps lib dev (snd st) (snd st')"
  by (induction rule: host_step.induct) (auto simp: en_steps_def [of _ _ _ j' for j'] dest: app_message_steps)

text \<open>Whatever the module sends, the program only ever takes steps of its own machine.\<close>

lemma host_refines: "(host_step lib dev)\<^sup>*\<^sup>* st st' \<Longrightarrow> (en_step lib dev)\<^sup>*\<^sup>* (snd st) (snd st')"
proof (induction rule: rtranclp_induct)
  case (step st1 st2)
  from host_step_en [OF step(2)] step(3) show ?case
    by (auto simp: en_steps_def intro: rtranclp.rtrancl_into_rtrancl)
qed simp

lemma en_host: "(en_step lib dev)\<^sup>*\<^sup>* j j' \<Longrightarrow> (host_step lib dev)\<^sup>*\<^sup>* (mmi, j) (mmi, j')"
  by (induction rule: rtranclp_induct) (auto intro: rtranclp.rtrancl_into_rtrancl hs_api)

text \<open>A program counts as sent only with a PMT and after the module's CA resource has answered.\<close>

definition honest :: "program_t \<Rightarrow> joker_en50221_t \<Rightarrow> bool" where
  "honest p n \<longleftrightarrow> (ci_status p = CI_CAM_SENT \<longrightarrow> pmt p \<noteq> None \<and> ca_connected n)"

text \<open>C5 (module_bytes_safe):
  whatever bytes the module sends on whatever session, whatever the program calls in between and
  whatever the lower layers report: no program number is listed twice, a program counts as sent only
  with a PMT and after the module's CA resource has answered, and every CA PMT that went out is, byte
  for byte, the object of a well-formed program map section and fits the buffer.\<close>

theorem module_bytes_safe:
  assumes "(host_step (vendored_lib call) dev)\<^sup>*\<^sup>* (en50221_app_mmi_create, j0) (mmi, j)"
    and "joker_en50221_opaque j0 = None" and "en_log j0 = []" and "joker_en50221_opaque j = Some n"
  shows "distinct (map number (programs n)) \<and> list_all (\<lambda>p. honest p n) (programs n)
    \<and> {c \<in> set (en_log j). is_ca_pmt c} \<subseteq> {ca_pmt s lm cmd (ca_pmt_object lm cmd False p) |s lm cmd p.
         pmt_ok p \<and> length (ca_pmt_object lm cmd False p) \<le> 4096}"
proof -
  have run: "(en_step (vendored_lib call) dev)\<^sup>*\<^sup>* j0 j" using host_refines [OF assms(1)] by simp
  have "cam_inv j" by (rule cam.reach_inv [OF run]) (simp add: cam_inv_def assms(2,3))
  moreover have "objects_inv decoded section_object j"
    by (rule vendored.objects.reach_inv [OF run]) (simp add: objects_inv_def assms(2,3))
  ultimately show ?thesis
    by (fastforce simp: cam_inv_some [OF assms(4)] progs.keys_ok_def honest_def list_all_iff objects_inv_def is_ca_pmt_def
        section_object_def split: en_call.splits)
qed

theorem module_bytes_safe_witness:
  "\<exists>(j :: unit joker_en_h) n. joker_en50221_opaque j = Some n \<and> en_log j = [ca_pmt 0 3 1 [3, 0, 5, 3, 0, 0, 2, 1, 0, 0, 7, 1, 9, 4, 0x0b, 0, 0xe1, 2]]
     \<and> distinct (map number (programs n)) \<and> list_all (\<lambda>p. honest p n) (programs n)
     \<and> {c \<in> set (en_log j). is_ca_pmt c} \<subseteq> {ca_pmt s lm cmd (ca_pmt_object lm cmd False p) |s lm cmd p.
         pmt_ok p \<and> length (ca_pmt_object lm cmd False p) \<le> 4096}"
proof -
  let ?lib = "vendored_lib (\<lambda>_. 0)" and ?mmi = "en50221_app_mmi_create"
  let ?env = "\<lparr>he_lib = ?lib, he_now = 0, he_iconv = \<lambda>_. None, he_undef = [], he_dev = quiet_dev\<rparr>"
  let ?j1 = "snd (the (joker_en50221_pmt_update ?lib quiet_dev 5 (layout be_bytes demo_pmt)
      (snd (joker_en50221_descramble_add 5 (en_joker None)))))"
  let ?m = "app_message ?env ca_message 0 1 [0x9f, 0x80, 0x31, 2, 0x0b, 0x00] (?mmi, ?j1)"
  have start: "(host_step ?lib quiet_dev)\<^sup>*\<^sup>* (?mmi, en_joker None) (?mmi, ?j1)"
    using demo_pmt_run by (rule en_host)
  have "map_option (\<lambda>(r, mmi, j). (en_log j, Option.is_none (joker_en50221_opaque j))) ?m
      = Some ([ca_pmt 0 3 1 [3, 0, 5, 3, 0, 0, 2, 1, 0, 0, 7, 1, 9, 4, 0x0b, 0, 0xe1, 2]], False)"
    by code_simp
  then obtain r mmi j where m: "?m = Some (r, mmi, j)" "\<not> Option.is_none (joker_en50221_opaque j)"
    "en_log j = [ca_pmt 0 3 1 [3, 0, 5, 3, 0, 0, 2, 1, 0, 0, 7, 1, 9, 4, 0x0b, 0, 0xe1, 2]]" by auto
  obtain n where n: "joker_en50221_opaque j = Some n" using m(2) by (cases "joker_en50221_opaque j") simp_all
  have "(host_step ?lib quiet_dev)\<^sup>*\<^sup>* (?mmi, en_joker None) (mmi, j)"
    by (rule rtranclp.rtrancl_into_rtrancl [OF start hs_message [OF _ _ m(1)]]) simp_all
  then have "distinct (map number (programs n)) \<and> list_all (\<lambda>p. honest p n) (programs n)
     \<and> {c \<in> set (en_log j). is_ca_pmt c} \<subseteq> {ca_pmt s lm cmd (ca_pmt_object lm cmd False p) |s lm cmd p.
         pmt_ok p \<and> length (ca_pmt_object lm cmd False p) \<le> 4096}"
    by (rule module_bytes_safe [OF _ _ _ n]) (simp_all add: en_joker_def)
  with n m(3) show ?thesis by blast
qed

end
