(* ===== verification/HostStack.thy ===== *)
theory HostStack
  imports StackInv AppHost
begin

text \<open>
  The host with its transport and session layers: the resource callbacks of \<open>src/joker_en50221.c\<close> run on the
  stack, and what they send goes out through the session layer. With them \<open>StackInv\<close> has no assumption left
  about the program.
\<close>

section \<open>What a callback sends\<close>

text \<open>
  A call into the stack: the application resource lays out the object and gives it to the send functions it was
  created with, which \<open>joker_ci_en50221_start\<close> sets to \<open>en50221_sl_send_data\<close> and \<open>en50221_sl_send_datav\<close>. The
  vector of the second is one list of bytes here: the layers only concatenate it.
\<close>

definition send_call :: "en_call \<Rightarrow> 'k sl_st \<Rightarrow> int \<times> 'k sl_st" where
  "send_call c st =
     (case call_apdu c of
        None \<Rightarrow> (0, st)
      | Some (s, None) \<Rightarrow> (- 1, st)
      | Some (s, Some obj) \<Rightarrow> en50221_sl_send_data (nat s) obj st)"

definition send_calls :: "en_call list \<Rightarrow> 'k sl_st \<Rightarrow> 'k sl_st" where
  "send_calls cs st = fold (\<lambda>c st. snd (send_call c st)) cs st"

text \<open>
  The result of the last call of a history, when the calls behind the first \<open>n\<close> were made from the
  stack \<open>st\<close> on.
\<close>

definition call_result :: "nat \<Rightarrow> 'k sl_st \<Rightarrow> en_call list \<Rightarrow> int" where
  "call_result n st hist =
     (case drop n hist of [] \<Rightarrow> 0 | c # cs \<Rightarrow> fst (send_call (last (c # cs)) (send_calls (butlast (c # cs)) st)))"

section \<open>The resource callbacks on the stack\<close>

text \<open>The program together with the state of its menu resource.\<close>

record 'd joker_host = "'d joker_en_h" +
  mmi_obj :: en50221_app_mmi

text \<open>
  The callback for a message of a session: the parser of the resource, the callback of the program, its calls
  into the stack in their order, each with the result it has there. A callback that does not end regularly
  leaves no later state; the state before is kept for it.
\<close>

definition host_app ::
  "('d usb_dev) host_env \<Rightarrow> en_handler \<Rightarrow> nat \<Rightarrow> nat \<Rightarrow> u32 \<Rightarrow> byte list
    \<Rightarrow> ('d, 'z) joker_host_scheme sl_st \<Rightarrow> ('d, 'z) joker_host_scheme sl_st" where
  "host_app env h slot n res obj st =
     (let k = snd (snd st);
          env = env\<lparr>he_lib := (he_lib env)\<lparr>call_res := call_result (length (en_log k)) st\<rparr>\<rparr>
      in case app_message env h slot (word_of_nat n) obj (mmi_obj k, k) of
           None \<Rightarrow> st
         | Some (r, mmi, k') \<Rightarrow>
             let (t, l, _) = send_calls (drop (length (en_log k)) (en_log k')) st
             in (t, l, k'\<lparr>mmi_obj := mmi\<rparr>))"

section \<open>The callbacks keep the layers\<close>

lemma send_call_inv:
  "tl_inv (fst st) \<Longrightarrow> tl_inv (fst (snd (send_call c st)))"
  "sl_ok (slayer st) \<Longrightarrow> sl_ok (slayer (snd (send_call c st)))"
  by (simp_all add: send_call_def sl_send_data_inv split: option.split)

lemma send_calls_inv:
  "tl_inv (fst st) \<Longrightarrow> tl_inv (fst (send_calls cs st))"
  "sl_ok (slayer st) \<Longrightarrow> sl_ok (slayer (send_calls cs st))"
  unfolding send_calls_def by (induction cs arbitrary: st) (simp_all add: send_call_inv)

lemma host_apps_ok: "apps_ok (host_app env)"
  using send_calls_inv
  by (auto simp: apps_ok_def host_app_def Let_def case_prod_beta slayer_def split: option.split)

lemma joker_poll_length: "length (fst (snd (ll_poll (joker_env dev clock undef cb) re j))) = length re"
  by (simp add: joker_env_def case_prod_beta Let_def)

section \<open>The stack of the program\<close>

abbreviation host_stack_step ::
  "('d usb_dev) host_env \<Rightarrow> (nat \<Rightarrow> int \<times> int) \<Rightarrow> byte list \<Rightarrow> u32
    \<Rightarrow> ('d, 'z) joker_host_scheme sl_st \<Rightarrow> ('d, 'z) joker_host_scheme sl_st \<Rightarrow> bool" where
  "host_stack_step env clock undef junk \<equiv>
     stack_step (joker_env (he_dev env) clock undef (\<lambda>_ st. st)) (prog_sl_env (he_lib env) (host_app env) junk)"

text \<open>C28 (stack_consistent): whatever the module sends and the program does, with the resource callbacks of the program
  answering, in every reachable state of the two layers session 0 is idle and the table of sessions has its size,
  a chained message is pending only on an open connection, and connection 0 is idle.\<close>

theorem stack_consistent:
  assumes "nc < 256" and "0 < ms" and "ms \<le> 65536"
    and "(host_stack_step env clock undef junk)\<^sup>*\<^sup>* (en50221_tl_create ns nc usec slot0, en50221_sl_create ms sess0, j) st"
    and "s < max_slots (fst st)" and "c < max_connections_per_slot (fst st)"
  shows "length (sessions (slayer st)) = max_sessions (slayer st)
    \<and> (0 < max_sessions (slayer st) \<longrightarrow> sn_state (sess_at 0 st) = S_STATE_IDLE)
    \<and> (chain_buffer (st_conn s c st) \<noteq> None \<longrightarrow> t_state (st_conn s c st) \<in> {T_STATE_ACTIVE, T_STATE_ACTIVE_DELETEQUEUED})
    \<and> (c = 0 \<longrightarrow> t_state (st_conn s c st) = T_STATE_IDLE)"
  by (rule stack_reach [OF host_apps_ok joker_poll_length assms])

section \<open>An answer\<close>

definition host_joker :: "unit joker_host" where
  "host_joker = \<lparr>dev_st = (), usb_log = [], libusb_opaque = True, io_mux_opaq = True, i2c_opaque = True, reset = 0,
     joker_ci_opaque = Some (zero_ci False), ci_threading = True, shutdown_thread = False,
     ci_verbose_opt = False, cam_pcap_filename = False, cam_pcap_fd = None, wall_clock = (0, 0),
     joker_en50221_opaque = Some (zero_jen\<lparr>resource_ids_count := 1\<rparr>), ci_ts_enable = 1, cam_query_send = False, en_log = [],
     mmi_obj = en50221_app_mmi_create\<rparr>"

definition demo_host :: "(unit usb_dev) host_env" where
  "demo_host = \<lparr>he_lib = vendored_lib (\<lambda>_. 0), he_now = 0, he_iconv = \<lambda>_. None, he_undef = [], he_dev = quiet_dev\<rparr>"

text \<open>The module asks for the resources of the host; the answer is queued on the connection of the session.\<close>

lemma host_answers_profile:
  "(send_queue (st_conn 0 1 (host_app demo_host rm_message 0 1 0 [0x9f, 0x80, 0x10] (demo_tl demo_open, demo_sl demo_sess, host_joker))))
     = [[0xa0, 13, 1, 0x90, 2, 0, 1, 0x9f, 0x80, 0x11, 4, 0, 0x80, 0, 0x41]]"
  by code_simp

text \<open>A slot and the session layer's callbacks are registered.\<close>

theorem stack_consistent_witness:
  "\<exists>st. (host_stack_step demo_host (\<lambda>_. (1, 0)) [] 0)\<^sup>*\<^sup>* (en50221_tl_create 5 32 0 undefined, en50221_sl_create 256 undefined, host_joker) st
    \<and> sn_state (sess_at 0 st) = S_STATE_IDLE \<and> lookup_set (slayer st)"
proof -
  let ?step = "host_stack_step demo_host (\<lambda>_. (1, 0)) [] 0 :: unit joker_host sl_st \<Rightarrow> unit joker_host sl_st \<Rightarrow> bool"
  define s0 where "s0 = (en50221_tl_create 5 32 0 undefined, en50221_sl_create 256 undefined, host_joker)"
  define s1 where "s1 = (snd (en50221_tl_register_slot 3 0 1000 100 (fst s0)), snd s0)"
  define s2 where "s2 = set_slayer (\<lambda>l. l\<lparr>lookup_set := True, session_set := True\<rparr>) s1"
  have "?step s0 s1"
    unfolding s1_def using ss_tl [OF ts_register [of 3 _ "fst s0" "snd s0"]] by simp
  moreover have "?step s1 s2" unfolding s2_def by (rule ss_register)
  ultimately have r: "?step\<^sup>*\<^sup>* s0 s2" by (meson converse_rtranclp_into_rtranclp rtranclp.rtrancl_refl)
  have "0 < max_sessions (slayer s2)"
    by (simp add: s2_def s1_def s0_def slayer_def set_slayer_def en50221_sl_create_def)
  moreover have "length (sessions (slayer s2)) = max_sessions (slayer s2)
    \<and> (0 < max_sessions (slayer s2) \<longrightarrow> sn_state (sess_at 0 s2) = S_STATE_IDLE)"
    if "0 < max_slots (fst s2)" "0 < max_connections_per_slot (fst s2)"
    using stack_consistent [OF _ _ _ r [unfolded s0_def] that] by simp
  moreover have "0 < max_slots (fst s2)" "0 < max_connections_per_slot (fst s2)"
    by (simp_all add: s2_def s1_def s0_def set_slayer_def en50221_tl_register_slot_def en50221_tl_create_def Let_def upd_slot_def split: option.split)
  ultimately have "sn_state (sess_at 0 s2) = S_STATE_IDLE" by blast
  moreover have "lookup_set (slayer s2)" by (simp add: s2_def)
  ultimately show ?thesis using r unfolding s0_def by blast
qed

end
