(* ===== verification/DvbTime.thy ===== *)
theory DvbTime
  imports AppMmi PsiParse
begin

text \<open>
  The clock of the broadcast: \<open>dvbdate_to_unixtime\<close> and the BCD conversions of
  \<open>3party/libucsi/dvb/types.c\<close>, with the calendar of the C library, and the way of the time from the
  time table of the transponder to the date object that the module gets.
\<close>

section \<open>The calendar\<close>

text \<open>Conversion of a double to \<open>int\<close>: towards zero.\<close>

definition tdiv :: "int \<Rightarrow> int \<Rightarrow> int" where
  "tdiv a b = (if a < 0 then - (- a div b) else a div b)"

definition leaps :: "int \<Rightarrow> int" where "leaps y = y div 4 - y div 100 + y div 400"

definition civil_days :: "int \<Rightarrow> int \<Rightarrow> int \<Rightarrow> int" where
  "civil_days y m d = 365 * (y - 1970) + leaps (y - 1) - leaps 1969 + int (sum_list (take (nat m) (month_days (nat y)))) + d - 1"

text \<open>\<open>mktime\<close> where local time is \<open>tz\<close> seconds ahead of UTC all the year; months are brought into the year.\<close>

definition mktime :: "int \<Rightarrow> int \<Rightarrow> int \<Rightarrow> int \<Rightarrow> int \<Rightarrow> int \<Rightarrow> int \<Rightarrow> int" where
  "mktime tz year mon mday hours mins secs =
     civil_days (1900 + year + mon div 12) (mon mod 12) mday * 86400 + hours * 3600 + mins * 60 + secs - tz"

section \<open>BCD and dates\<close>

fun bcd_sum :: "u32 \<Rightarrow> nat \<Rightarrow> u32 \<Rightarrow> u32" where
  "bcd_sum bcdval 0 val = val + (bcdval AND 0x0f)"
| "bcd_sum bcdval (Suc i) val = bcd_sum bcdval i ((val + (drop_bit (4 * Suc i) bcdval AND 0x0f)) * 10)"

definition bcd_to_integer :: "u32 \<Rightarrow> u32" where "bcd_to_integer bcdval = bcd_sum bcdval 7 0"

text \<open>
  The quotients by 365.25 and 30.6001 are of doubles; none of them is a whole number or within the
  rounding error of one, so their integer part is that of the exact quotient.
\<close>

definition mjd_year :: "int \<Rightarrow> int" where "mjd_year mjd = tdiv (20 * mjd - 301564) 7305"

definition mjd_month :: "int \<Rightarrow> int \<Rightarrow> int" where
  "mjd_month mjd year = tdiv (10000 * (mjd - tdiv (year * 1461) 4) - 149561000) 306001"

text \<open>The date of a modified Julian day, as \<open>struct tm\<close> has it: years since 1900, months from 0.\<close>

definition mjd_date :: "int \<Rightarrow> int \<times> int \<times> int" where
  "mjd_date mjd =
     (let year = mjd_year mjd;
          mon = mjd_month mjd year;
          mday = mjd - 14956 - tdiv (year * 1461) 4 - tdiv (mon * 306001) 10000;
          k = (if mon = 14 \<or> mon = 15 then 1 else 0)
      in (year + k, mon - 2 - k * 12, mday))"

definition dvbdate_to_unixtime :: "int \<Rightarrow> byte list \<Rightarrow> int" where
  "dvbdate_to_unixtime tz dvbdate =
     (if list_all (\<lambda>b. b = 0xff) dvbdate then - 1
      else
        let (year, mon, mday) = mjd_date (uint (dvbdate ! 0) * 256 + uint (dvbdate ! 1));
            bcd = (\<lambda>i. sint (bcd_to_integer (ucast (dvbdate ! i))))
        in mktime tz year mon mday (bcd 2) (bcd 3) (bcd 4))"

section \<open>Days\<close>

text \<open>
  Both ways between the day number and the date repeat after four years, up to the end of 2099; one
  cycle of 1461 days is evaluated.
\<close>

definition mjd_days :: "int \<Rightarrow> int" where
  "mjd_days mjd = (let (year, mon, mday) = mjd_date mjd in civil_days (1900 + year + mon div 12) (mon mod 12) mday)"

lemma tdiv_pos [simp]: "0 \<le> a \<Longrightarrow> tdiv a b = a div b"
  by (simp add: tdiv_def)

lemma tdiv_mono: "a \<le> a' \<Longrightarrow> 0 < b \<Longrightarrow> tdiv a b \<le> tdiv a' b"
proof -
  assume a: "a \<le> a'" "0 < b"
  consider "0 \<le> a" | "a < 0" "0 \<le> a'" | "a' < 0" by linarith
  then show ?thesis
  proof cases
    case 2
    then have "0 \<le> - a div b" "0 \<le> a' div b" using a by (simp_all add: pos_imp_zdiv_nonneg_iff)
    then show ?thesis using 2 by (simp add: tdiv_def)
  qed (use a in \<open>simp_all add: tdiv_def zdiv_mono1\<close>)
qed

lemma leaps_4: "1900 \<le> y \<Longrightarrow> y < 2100 \<Longrightarrow> leaps y = y div 4 - 15"
proof -
  assume y: "1900 \<le> y" "y < 2100"
  have "y div 100 = 19 \<and> y div 400 = 4 \<or> y div 100 = 20 \<and> y div 400 = 5"
    using y by (cases "y < 2000") (simp_all, linarith+)
  then show ?thesis by (auto simp: leaps_def)
qed

lemma leap_4: "1900 < y \<Longrightarrow> y < 2100 \<Longrightarrow> leap y \<longleftrightarrow> y mod 4 = 0"
proof -
  assume y: "1900 < y" "y < 2100"
  have "y mod 400 = 0" if "y mod 100 = 0"
  proof -
    have "y = 100 * (y div 100)" using that by presburger
    moreover have "y div 100 = 19 \<or> y div 100 = 20" using y by (cases "y < 2000") (simp_all, linarith+)
    ultimately have "y = 2000" using y by (elim disjE) simp_all
    then show ?thesis by simp
  qed
  then show ?thesis unfolding leap_def by (metis gr_implies_not0)
qed

lemma leap_shift: "1900 < y \<Longrightarrow> y + 4 < 2100 \<Longrightarrow> leap (y + 4) = leap y"
  by (simp add: leap_4)

lemma month_days_shift: "1900 < y \<Longrightarrow> y + 4 < 2100 \<Longrightarrow> month_days (y + 4) = month_days y"
  by (simp add: month_days_def leap_shift)

lemma civil_days_shift:
  assumes "1901 \<le> y" and "y + 4 < 2100" shows "civil_days (y + 4) m d = civil_days y m d + 1461"
proof -
  have "month_days (nat (y + 4)) = month_days (nat y)"
    using month_days_shift [of "nat y"] assms by (simp add: nat_add_distrib)
  moreover have "leaps (y - 1 + 4) = leaps (y - 1) + 1" using assms by (simp add: leaps_4)
  ultimately show ?thesis by (simp add: civil_days_def algebra_simps)
qed

lemma mjd_date_shift:
  assumes "15079 \<le> mjd" and "mjd_date mjd = (y, m, d)" shows "mjd_date (mjd + 1461) = (y + 4, m, d)"
proof -
  have y: "mjd_year (mjd + 1461) = mjd_year mjd + 4" "0 \<le> mjd_year mjd"
    using assms(1) by (simp_all add: mjd_year_def algebra_simps)
  have q: "tdiv ((mjd_year mjd + 4) * 1461) 4 = tdiv (mjd_year mjd * 1461) 4 + 1461"
    using y(2) by (simp add: algebra_simps)
  have m: "mjd_month (mjd + 1461) (mjd_year mjd + 4) = mjd_month mjd (mjd_year mjd)"
    unfolding mjd_month_def q by (simp add: algebra_simps)
  show ?thesis using assms(2) unfolding mjd_date_def Let_def y(1) m q by auto
qed

definition date_mjd :: "int \<Rightarrow> int \<Rightarrow> int \<Rightarrow> int" where
  "date_mjd y m d = (let l = (if m < 2 then 1 else 0) in 14956 + d + (y - l) * 36525 div 100 + (m + 2 + l * 12) * 306001 div 10000)"

definition month_starts :: "int list" where "month_starts = [0, 31, 59, 90, 120, 151, 181, 212, 243, 273, 304, 334]"
definition month_lengths :: "int list" where "month_lengths = [31, 28, 31, 30, 31, 30, 31, 31, 30, 31, 30, 31]"

text \<open>A month of the cycle that begins on day \<open>a\<close>, checked at both ends: the quotients in between are the same.\<close>

definition month_ok :: "int \<Rightarrow> int \<Rightarrow> int \<Rightarrow> int \<Rightarrow> bool" where
  "month_ok a y m l \<longleftrightarrow> 15079 \<le> a \<and> mjd_year (a + l - 1) = mjd_year a
     \<and> mjd_month (a + l - 1) (mjd_year a) = mjd_month a (mjd_year a)
     \<and> mjd_date a = (y, m, 1) \<and> 70 \<le> y \<and> y \<le> 73 \<and> 0 \<le> m \<and> m < 12
     \<and> l = month_lengths ! nat m + (if y = 72 \<and> m = 1 then 1 else 0)
     \<and> 40587 + 365 * (y - 70) + (if y = 73 \<or> y = 72 \<and> 2 \<le> m then 1 else 0) + month_starts ! nat m = a
     \<and> date_mjd y m 1 = a"

fun months_ok :: "int \<Rightarrow> (int \<times> int \<times> int) list \<Rightarrow> bool" where
  "months_ok a [] = True"
| "months_ok a ((y, m, l) # ms) = (month_ok a y m l \<and> months_ok (a + l) ms)"

definition cycle :: "(int \<times> int \<times> int) list" where
  "cycle = concat (map (\<lambda>y. map (\<lambda>m. (y, m, month_lengths ! nat m + (if y = 72 \<and> m = 1 then 1 else 0))) [0..11]) [70..73])"

lemma cycle_months: "months_ok 40587 cycle"
  by code_simp

lemma cycle_length: "sum_list (map (snd \<circ> snd) cycle) = 1461"
  by code_simp

lemma month_of:
  "months_ok a ms \<Longrightarrow> a \<le> n \<Longrightarrow> n < a + sum_list (map (snd \<circ> snd) ms) \<Longrightarrow> \<exists>a y m l. month_ok a y m l \<and> a \<le> n \<and> n < a + l"
proof (induction a ms rule: months_ok.induct)
  case (2 a y m l ms)
  show ?case
  proof (cases "n < a + l")
    case False
    then show ?thesis using 2 by (auto simp: algebra_simps)
  qed (use 2 in auto)
qed simp

lemma month_date:
  assumes "month_ok a y m l" and "a \<le> n" and "n < a + l"
  shows "mjd_date n = (y, m, n - a + 1)"
proof -
  have mono: "mjd_year i \<le> mjd_year j" "mjd_month i c \<le> mjd_month j c" if "i \<le> j" for i j c
    using that by (auto simp: mjd_year_def mjd_month_def intro!: tdiv_mono)
  have ends: "mjd_year (a + l - 1) = mjd_year a" "mjd_month (a + l - 1) (mjd_year a) = mjd_month a (mjd_year a)"
    using assms(1) unfolding month_ok_def by blast+
  have y: "mjd_year n = mjd_year a"
    using mono(1) [of a n] mono(1) [of n "a + l - 1"] assms(2,3) ends by simp
  have m: "mjd_month n (mjd_year a) = mjd_month a (mjd_year a)"
    using mono(2) [of a n "mjd_year a"] mono(2) [of n "a + l - 1" "mjd_year a"] assms(2,3) ends by simp
  have "mjd_date a = (y, m, 1)" using assms(1) by (simp add: month_ok_def)
  then show ?thesis unfolding mjd_date_def Let_def y m by auto
qed

text \<open>A date of the calendar between 1970 and 2099, and its day number.\<close>

definition date_ok :: "int \<Rightarrow> int \<Rightarrow> int \<Rightarrow> bool" where
  "date_ok y m d \<longleftrightarrow> 70 \<le> y \<and> y < 200 \<and> 0 \<le> m \<and> m < 12 \<and> 1 \<le> d \<and> d \<le> int (month_days (nat (1900 + y)) ! nat m)"

lemma months: "0 \<le> m \<Longrightarrow> m < 12 \<Longrightarrow> m \<in> {0, 1, 2, 3, 4, 5, 6, 7, 8, 9, 10, 11 :: int}"
  by (simp, presburger)

lemma cycle_date:
  assumes "r < 1461" and "mjd_date (40587 + int r) = (y, m, d)"
  shows "date_ok y m d" "y \<le> 73" "civil_days (1900 + y) m d = int r" "date_mjd y m d = 40587 + int r"
proof -
  let ?n = "40587 + int r"
  obtain a y' m' l where ok: "month_ok a y' m' l" "a \<le> ?n" "?n < a + l"
    using month_of [OF cycle_months, of ?n] assms(1) by (auto simp: cycle_length)
  have eq: "y' = y" "m' = m" "d = ?n - a + 1" using month_date [OF ok] assms(2) by simp_all
  have c: "70 \<le> y" "y \<le> 73" "0 \<le> m" "m < 12" "l = month_lengths ! nat m + (if y = 72 \<and> m = 1 then 1 else 0)"
    "40587 + 365 * (y - 70) + (if y = 73 \<or> y = 72 \<and> 2 \<le> m then 1 else 0) + month_starts ! nat m = a" "date_mjd y m 1 = a"
    using ok(1) unfolding month_ok_def eq by simp_all
  show "y \<le> 73" by (rule c)
  show "date_mjd y m d = ?n" using c(7) by (simp add: date_mjd_def Let_def eq(3))
  have y: "y \<in> {70, 71, 72, 73}" using c by auto
  have "int (month_days (nat (1900 + y)) ! nat m) = l"
    using y months [OF c(3,4)] unfolding c(5) by (auto simp: month_days_def month_lengths_def leap_def)
  then show "date_ok y m d" using c ok by (simp add: date_ok_def eq(3))
  have "int (sum_list (take (nat m) (month_days (nat (1900 + y))))) = month_starts ! nat m + (if y = 72 \<and> 2 \<le> m then 1 else 0)"
    using y months [OF c(3,4)] by (auto simp: month_days_def month_starts_def leap_def)
  then show "civil_days (1900 + y) m d = int r"
    using c(6) y by (auto simp: civil_days_def leaps_4 eq(3))
qed

lemma mjd_dates:
  assumes "r < 1461" and "q \<le> 17" and "mjd_date (40587 + int (1461 * q + r)) = (y, m, d)"
  shows "date_ok y m d \<and> y \<le> 73 + 4 * int q \<and> civil_days (1900 + y) m d = int (1461 * q + r)
    \<and> date_mjd y m d = 40587 + int (1461 * q + r)"
  using assms(2,3)
proof (induction q arbitrary: y)
  case 0
  then show ?case using cycle_date [OF assms(1)] by simp
next
  case (Suc q)
  obtain y0 m0 d0 where p: "mjd_date (40587 + int (1461 * q + r)) = (y0, m0, d0)" by (metis prod_cases3)
  have "mjd_date (40587 + int (1461 * q + r) + 1461) = (y0 + 4, m0, d0)" by (rule mjd_date_shift [OF _ p]) simp
  then have y: "y = y0 + 4" "m0 = m" "d0 = d" using Suc.prems(2) by (simp_all add: algebra_simps)
  have ih: "date_ok y0 m d" "y0 \<le> 73 + 4 * int q" "civil_days (1900 + y0) m d = int (1461 * q + r)"
    "date_mjd y0 m d = 40587 + int (1461 * q + r)"
    using Suc.IH [of y0] Suc.prems(1) p y by simp_all
  have "1901 \<le> 1900 + y0" "1900 + y0 + 4 < 2100" using ih(1,2) Suc.prems(1) by (simp_all add: date_ok_def)
  note shift = civil_days_shift [OF this]
  have "month_days (nat (1900 + y0) + 4) = month_days (nat (1900 + y0))"
    by (rule month_days_shift) (use ih(1,2) Suc.prems(1) in \<open>auto simp: date_ok_def\<close>)
  moreover have "nat (1900 + y) = nat (1900 + y0) + 4" using ih(1) by (auto simp: y date_ok_def)
  ultimately have "date_ok y m d" using ih(1,2) Suc.prems(1) by (simp add: date_ok_def y)
  moreover have "civil_days (1900 + y) m d = int (1461 * Suc q + r)"
    using shift [of m d] ih(3) by (simp add: y algebra_simps)
  moreover have "date_mjd y m d = 40587 + int (1461 * Suc q + r)"
    using ih(4) by (simp add: date_mjd_def Let_def y algebra_simps)
  ultimately show ?case using ih(2) y by simp
qed

section \<open>The C library's way back\<close>

lemma find_year_sum: "d < year_days (y + k) \<Longrightarrow> find_year y (sum_list (map year_days [y..<y + k]) + d) = (y + k, d)"
proof (induction k arbitrary: y)
  case 0
  then show ?case by (subst find_year.simps) simp
next
  case (Suc k)
  have "[y..<y + Suc k] = y # [Suc y..<Suc y + k]" by (simp add: upt_conv_Cons del: upt_Suc)
  with Suc.IH [of "Suc y"] Suc.prems show ?case by (subst find_year.simps) (simp del: upt_Suc)
qed

lemma year_starts: "k < 130 \<Longrightarrow> int (sum_list (map year_days [1970..<1970 + k])) = civil_days (1970 + int k) 0 1"
proof (induction k)
  case 0
  show ?case by (simp add: civil_days_def)
next
  case (Suc k)
  have "leap (1970 + k) \<longleftrightarrow> (1970 + k) mod 4 = 0" by (rule leap_4) (use Suc.prems in simp_all)
  moreover have "(1970 + int k) div 4 = (1969 + int k) div 4 + (if (1970 + k) mod 4 = 0 then 1 else 0)" by simp presburger
  ultimately have "civil_days (1971 + int k) 0 1 = civil_days (1970 + int k) 0 1 + int (year_days (1970 + k))"
    using Suc.prems by (simp add: civil_days_def leaps_4 year_days_def algebra_simps)
  moreover have "[1970..<1970 + Suc k] = [1970..<1970 + k] @ [1970 + k]" by (simp only: add_Suc_right upt_Suc) simp
  ultimately show ?case using Suc by (simp add: algebra_simps del: upt_Suc)
qed

lemma find_month_sum:
  "m < length ls \<Longrightarrow> d < ls ! m \<Longrightarrow> find_month i ls (sum_list (take m ls) + d) = (i + m, d)"
proof (induction ls arbitrary: m i)
  case (Cons l ls)
  then show ?case by (cases m) auto
qed simp

text \<open>\<open>gmtime_r\<close> finds every date of the calendar from its day number.\<close>

lemma gmtime_civil:
  assumes "date_ok y m d" and "s < 86400"
  shows "0 \<le> civil_days (1900 + y) m d"
    "gmtime (nat (civil_days (1900 + y) m d) * 86400 + s) = \<lparr>tm_year = nat y, tm_mon = nat m, tm_mday = nat d,
       tm_hour = s div 3600, tm_min = s mod 3600 div 60, tm_sec = s mod 60\<rparr>"
proof -
  define k where "k = nat (y - 70)"
  let ?ls = "month_days (1970 + k)" and ?y0 = "sum_list (map year_days [1970..<1970 + k])"
  let ?d = "sum_list (take (nat m) ?ls) + nat (d - 1)"
  have y: "y = 70 + int k" "k < 130" "nat (1900 + y) = 1970 + k" using assms(1) by (auto simp: date_ok_def k_def)
  have d: "nat m < length ?ls" "nat (d - 1) < ?ls ! nat m" "1 \<le> d" and m: "0 \<le> m" "m < 12"
    using assms(1) by (auto simp: date_ok_def y(3) month_days_def)
  have "sum_list (take (nat m) ?ls) + ?ls ! nat m \<le> year_days (1970 + k)"
    using months [OF m] by (auto simp: month_days_def year_days_def)
  then have yday: "?d < year_days (1970 + k)" using d(2) by simp
  have days: "civil_days (1900 + y) m d = int (?y0 + ?d)"
    using year_starts [OF y(2)] d(3) by (simp add: civil_days_def y(3)) (simp add: y(1))
  then show "0 \<le> civil_days (1900 + y) m d" by simp
  have n: "nat (civil_days (1900 + y) m d) = ?y0 + ?d" unfolding days by (rule nat_int)
  have "(nat (civil_days (1900 + y) m d) * 86400 + s) div 86400 = ?y0 + ?d" unfolding n using assms(2) by simp
  moreover have "(nat (civil_days (1900 + y) m d) * 86400 + s) mod 86400 = s" using assms(2) by simp
  ultimately show "gmtime (nat (civil_days (1900 + y) m d) * 86400 + s) = \<lparr>tm_year = nat y, tm_mon = nat m, tm_mday = nat d,
       tm_hour = s div 3600, tm_min = s mod 3600 div 60, tm_sec = s mod 60\<rparr>"
    unfolding gmtime_def by (simp only: find_year_sum [OF yday] find_month_sum [OF d(1,2), of 0] prod.case Let_def)
      (use d(3) in \<open>simp add: y(1) nat_add_distrib\<close>)
qed

section \<open>There and back\<close>

text \<open>The five bytes of a date: the day number and the time in BCD.\<close>

definition bcd_byte :: "nat \<Rightarrow> byte" where "bcd_byte n = word_of_nat (16 * (n div 10) + n mod 10)"

definition dvb_date :: "nat \<Rightarrow> nat \<Rightarrow> nat \<Rightarrow> nat \<Rightarrow> byte list" where
  "dvb_date mjd h m s = [word_of_nat (mjd div 256), word_of_nat mjd, bcd_byte h, bcd_byte m, bcd_byte s]"

definition dvb_date_ok :: "nat \<Rightarrow> nat \<Rightarrow> nat \<Rightarrow> nat \<Rightarrow> bool" where
  "dvb_date_ok mjd h m s \<longleftrightarrow> 40587 \<le> mjd \<and> mjd < 2 ^ 16 \<and> h < 24 \<and> m < 60 \<and> s < 60"

lemma fours: "4 * Suc 0 = 4" "4 * Suc (Suc 0) = 8" "4 * Suc (Suc (Suc 0)) = 12" "4 * Suc (Suc (Suc (Suc 0))) = 16"
  "4 * Suc (Suc (Suc (Suc (Suc 0)))) = 20" "4 * Suc (Suc (Suc (Suc (Suc (Suc 0))))) = 24"
  "4 * Suc (Suc (Suc (Suc (Suc (Suc (Suc 0)))))) = 28" "7 = Suc (Suc (Suc (Suc (Suc (Suc (Suc 0))))))" "8 = Suc (Suc 6)"
  by simp_all

lemma bcd_to_integer_digits:
  "bcd_to_integer w = ((((((((drop_bit 28 w AND 15) * 10 + (drop_bit 24 w AND 15)) * 10 + (drop_bit 20 w AND 15)) * 10
     + (drop_bit 16 w AND 15)) * 10 + (drop_bit 12 w AND 15)) * 10 + (drop_bit 8 w AND 15)) * 10 + (drop_bit 4 w AND 15)) * 10 + (w AND 15))"
  by (simp only: bcd_to_integer_def fours bcd_sum.simps add_0_left)

lemma integer_to_bcd_digits:
  "integer_to_bcd n = push_bit 0 (n mod 10) OR (push_bit (0 + 4) (n div 10 mod 10) OR bcd_loop (0 + 4 + 4) 6 (n div 10 div 10))"
  by (simp only: integer_to_bcd_def fours(9) bcd_loop.simps)

lemma bcd_loop_0 [simp]: "bcd_loop i k 0 = 0"
  by (induction k arbitrary: i) simp_all

definition bcd_ok :: "nat \<Rightarrow> bool" where
  "bcd_ok n \<longleftrightarrow> sint (bcd_to_integer (ucast (bcd_byte n))) = int n \<and> ucast (integer_to_bcd (word_of_nat n)) = bcd_byte n \<and> bcd_byte n \<noteq> 0xff"

lemma bcd_digits: "list_all bcd_ok [0..<60]"
proof -
  have "[0..<60] = [0, 1, 2, 3, 4, 5, 6, 7, 8, 9, 10, 11, 12, 13, 14, 15, 16, 17, 18, 19, 20, 21, 22, 23, 24, 25, 26, 27, 28, 29, 30, 31, 32, 33, 34, 35, 36, 37, 38, 39, 40, 41, 42, 43, 44, 45, 46, 47, 48, 49, 50, 51, 52, 53, 54, 55, 56, 57, 58, 59]"
    by (simp add: upt_rec)
  then show ?thesis
    by (simp only: list.pred_inject, intro conjI TrueI; simp add: bcd_ok_def bcd_to_integer_digits integer_to_bcd_digits bcd_byte_def)
qed

lemma bcd_back:
  assumes "n < 60"
  shows "sint (bcd_to_integer (ucast (bcd_byte n))) = int n" "ucast (integer_to_bcd (word_of_nat n)) = bcd_byte n" "bcd_byte n \<noteq> 0xff"
proof -
  have "bcd_ok n" using bcd_digits assms by (simp add: list_all_iff)
  then show "sint (bcd_to_integer (ucast (bcd_byte n))) = int n" "ucast (integer_to_bcd (word_of_nat n)) = bcd_byte n" "bcd_byte n \<noteq> 0xff"
    by (simp_all add: bcd_ok_def)
qed

lemma date_days:
  assumes "40587 \<le> mjd" and "mjd < 2 ^ 16" and "mjd_date (int mjd) = (y, m, d)"
  shows "date_ok y m d \<and> civil_days (1900 + y) m d = int mjd - 40587 \<and> date_mjd y m d = int mjd"
proof -
  define q r where "q = (mjd - 40587) div 1461" and "r = (mjd - 40587) mod 1461"
  have e: "mjd = 40587 + (1461 * q + r)" using assms(1) by (simp add: q_def r_def)
  have "q \<le> 17" using assms(2) by (simp add: q_def)
  moreover have "r < 1461" by (simp add: r_def)
  moreover have "mjd_date (40587 + int (1461 * q + r)) = (y, m, d)" using assms(3) by (simp add: e)
  ultimately show ?thesis using mjd_dates by (simp add: e)
qed

lemma dvbdate_fields:
  assumes "dvb_date_ok mjd h m s"
  shows "dvbdate_to_unixtime tz (dvb_date mjd h m s) = (int mjd - 40587) * 86400 + int (h * 3600 + m * 60 + s) - tz"
proof -
  have ok: "40587 \<le> mjd" "mjd < 2 ^ 16" "h < 60" "m < 60" "s < 60" using assms by (simp_all add: dvb_date_ok_def)
  obtain y mo d where t: "mjd_date (int mjd) = (y, mo, d)" by (metis prod_cases3)
  have c: "date_ok y mo d" "civil_days (1900 + y) mo d = int mjd - 40587" using date_days [OF ok(1,2) t] by simp_all
  then have mo: "mo div 12 = 0" "mo mod 12 = mo" by (simp_all add: date_ok_def)
  have "uint (word_of_nat (mjd div 256) :: byte) = int (mjd div 256)" "uint (word_of_nat mjd :: byte) = int (mjd mod 256)"
    using ok(2) by (simp_all add: unsigned_of_nat take_bit_eq_mod)
  then have "uint (word_of_nat (mjd div 256) :: byte) * 256 + uint (word_of_nat mjd :: byte) = int (mjd div 256 * 256 + mjd mod 256)"
    by (simp only: of_nat_add of_nat_mult of_nat_numeral)
  then have "uint (word_of_nat (mjd div 256) :: byte) * 256 + uint (word_of_nat mjd :: byte) = int mjd" by (simp only: div_mult_mod_eq)
  then show ?thesis using ok c(2) mo bcd_back(3) [OF ok(3)]
    by (simp add: dvbdate_to_unixtime_def dvb_date_def t mktime_def bcd_back)
qed

lemma dvbdate_of:
  assumes "dvb_date_ok mjd h m s"
  shows "unixtime_to_dvbdate ((int mjd - 40587) * 86400 + int (h * 3600 + m * 60 + s)) = dvb_date mjd h m s"
proof -
  have ok: "40587 \<le> mjd" "mjd < 2 ^ 16" "h < 24" "m < 60" "s < 60" using assms by (simp_all add: dvb_date_ok_def)
  let ?s = "h * 3600 + m * 60 + s"
  obtain y mo d where t: "mjd_date (int mjd) = (y, mo, d)" by (metis prod_cases3)
  have c: "date_ok y mo d" "civil_days (1900 + y) mo d = int mjd - 40587" "date_mjd y mo d = int mjd"
    using date_days [OF ok(1,2) t] by simp_all
  have "?s < 86400" using ok by simp
  note gm = gmtime_civil(2) [OF c(1) this]
  have nat: "nat ((int mjd - 40587) * 86400 + int ?s) = nat (civil_days (1900 + y) mo d) * 86400 + ?s"
    unfolding c(2) using ok(1) by (simp add: nat_add_distrib nat_mult_distrib)
  have pos: "(int mjd - 40587) * 86400 + int ?s \<noteq> - 1" using ok(1) by simp
  let ?l = "if nat mo + 1 = 1 \<or> nat mo + 1 = 2 then 1 else 0 :: nat"
  have l: "(nat mo + 1 = 1 \<or> nat mo + 1 = 2) \<longleftrightarrow> mo < 2" using c(1) by (auto simp: date_ok_def)
  have yl: "int (nat y - ?l) = y - (if mo < 2 then 1 else 0)" using c(1) unfolding l by (auto simp: date_ok_def)
  have ml: "int (nat mo + 1 + 1 + ?l * 12) = mo + 2 + (if mo < 2 then 1 else 0) * 12" using c(1) unfolding l by (auto simp: date_ok_def)
  have "int (14956 + nat d + (nat y - ?l) * 36525 div 100 + (nat mo + 1 + 1 + ?l * 12) * 306001 div 10000) = date_mjd y mo d"
    unfolding date_mjd_def Let_def yl [symmetric] ml [symmetric] using c(1)
    by (simp only: of_nat_add zdiv_int of_nat_mult of_nat_numeral) (simp add: date_ok_def)
  then have mjd: "14956 + nat d + (nat y - ?l) * 36525 div 100 + (nat mo + 1 + 1 + ?l * 12) * 306001 div 10000 = mjd"
    unfolding c(3) by (simp only: of_nat_eq_iff)
  have "?s mod 3600 = m * 60 + s" using ok mod_mult_self3 [of h 3600 "m * 60 + s"] by (simp add: add.assoc)
  moreover have "?s mod 60 = s" using ok mod_mult_self3 [of "h * 60 + m" 60 s] by (simp add: algebra_simps)
  ultimately have time: "?s div 3600 = h" "?s mod 3600 div 60 = m" "?s mod 60 = s" using ok by simp_all
  show ?thesis
    unfolding unixtime_to_dvbdate_def nat gm Let_def tm.simps time mjd
    using pos ok by (simp add: dvb_date_def bcd_back(2))
qed

text \<open>dvbdate_roundtrip:
  a date of the broadcast between 1970 and the end of the 16-bit day number (2038), read into a Unix time
  and written back for the module, is the same five bytes, once the time zone that \<open>mktime\<close> takes off is
  put back.\<close>

theorem dvbdate_roundtrip:
  assumes "dvb_date_ok mjd h m s"
  shows "unixtime_to_dvbdate (dvbdate_to_unixtime tz (dvb_date mjd h m s) + tz) = dvb_date mjd h m s"
  by (simp add: dvbdate_fields [OF assms] dvbdate_of [OF assms, simplified])

theorem dvbdate_roundtrip_witness:
  "unixtime_to_dvbdate (dvbdate_to_unixtime 3600 (dvb_date 58144 12 45 59) + 3600) = dvb_date 58144 12 45 59
    \<and> dvb_date 58144 12 45 59 = [0xe3, 0x20, 0x12, 0x45, 0x59]"
proof
  show "unixtime_to_dvbdate (dvbdate_to_unixtime 3600 (dvb_date 58144 12 45 59) + 3600) = dvb_date 58144 12 45 59"
    by (rule dvbdate_roundtrip) (simp add: dvb_date_ok_def)
qed (simp add: dvb_date_def bcd_byte_def)

text \<open>C31 (clock_reaches_module):
  with the clock of the machine set to UTC, the time of the transponder's time table is what the module
  gets: when its next date object is due, the object holds the five bytes of the table as they were
  broadcast and the offset 0.\<close>

theorem clock_reaches_module:
  assumes "dvb_date_ok mjd h m s" and "40587 < mjd" and "dvbdate_bytes utc = dvb_date mjd h m s"
    and "joker_en50221_opaque j = Some n" and "datetime_session_number n \<noteq> - 1" and "datetime_response_interval n \<noteq> 0"
    and "datetime_next_send n < now"
  shows "\<exists>c. en_log (ci_poll_round lib (\<lambda>h. h) now (DumpTOT (dvbdate_to_unixtime 0) utc j)) = en_log j @ [c]
    \<and> call_apdu c = Some (datetime_session_number n, Some ([0x9f, 0x84, 0x41, 7] @ dvbdate_bytes utc @ [0, 0]))"
proof -
  have "dvbdate_to_unixtime 0 (dvb_date mjd h m s) \<noteq> 0" using assms(2) by (simp add: dvbdate_fields [OF assms(1)])
  then show ?thesis using assms(3-7)
    by (intro exI [of _ "datetime_send (datetime_session_number n) (dvbdate_to_unixtime 0 (dvb_date mjd h m s)) 0"])
      (simp add: ci_poll_round_def DumpTOT_def joker_en50221_set_dvbtime_def set_jen_def jen_of_def en_do_def Let_def
        en50221_app_datetime_send_def tag_bytes_def dvbdate_fields [OF assms(1)] dvbdate_of [OF assms(1), simplified])
qed

theorem clock_reaches_module_witness:
  "\<exists>c. en_log (ci_poll_round ok_lib (\<lambda>h. h) 100 (DumpTOT (dvbdate_to_unixtime 0) 0xe320124559
        (en_joker (Some (zero_jen\<lparr>datetime_response_interval := 5\<rparr>))))) = [c]
    \<and> call_apdu c = Some (0, Some [0x9f, 0x84, 0x41, 7, 0xe3, 0x20, 0x12, 0x45, 0x59, 0, 0])"
  using clock_reaches_module [of 58144 12 45 59 "0xe320124559" "en_joker (Some (zero_jen\<lparr>datetime_response_interval := 5\<rparr>))"
      "zero_jen\<lparr>datetime_response_interval := 5\<rparr>" 100 ok_lib]
  by (simp add: dvb_date_ok_def dvb_date_def bcd_byte_def dvbdate_bytes_def en_joker_def zero_jen_def)

end
