(* ===== verification/BsStore.thy ===== *)
theory BsStore
  imports Prelude
begin

text \<open>
  The ground of the blind scan driver \<open>linux/drivers/media/dvb-frontends/cxd2841er_blind_scan.c\<close>: the pool
  of list cells its algorithms work in, two's complement conversion and the integer logarithms.

  The lists of the driver are singly linked through their cells and never share one, and a cell has no
  identity beside its place in a list. So a list is the list of what its cells hold, and the free cells
  of the pool are a number. A list is named by a head cell of its own, which is counted too. Every call gets a pool and lists: the guards for null pointers are left out.
\<close>

section \<open>Results\<close>

datatype sony_result =
    SONY_RESULT_OK
  | SONY_RESULT_ERROR_ARG
  | SONY_RESULT_ERROR_I2C
  | SONY_RESULT_ERROR_SW_STATE
  | SONY_RESULT_ERROR_HW_STATE
  | SONY_RESULT_ERROR_TIMEOUT
  | SONY_RESULT_ERROR_UNLOCK
  | SONY_RESULT_ERROR_RANGE
  | SONY_RESULT_ERROR_NOSUPPORT
  | SONY_RESULT_ERROR_CANCEL
  | SONY_RESULT_ERROR_OTHER
  | SONY_RESULT_ERROR_OVERFLOW
  | SONY_RESULT_OK_CONFIRM

section \<open>The pool\<close>

text \<open>\<open>int\<close> counters: there are at most as many cells as an \<open>int32_t\<close> counts.\<close>

record data_storage =
  dataArrayLength :: nat
  availableData :: nat
  currentUsedCount :: int
  maxUsedCount :: int
  powerArrayLength :: nat
  availablePower :: nat
  currentUsedPowerCount :: int
  maxUsedPowerCount :: int

definition StorageInit :: "nat \<Rightarrow> nat \<Rightarrow> data_storage \<Rightarrow> sony_result \<times> data_storage" where
  "StorageInit powers datas st =
     (if powers = 0 \<or> datas = 0 then (SONY_RESULT_ERROR_ARG, st)
      else (SONY_RESULT_OK,
        \<lparr>dataArrayLength = datas, availableData = datas, currentUsedCount = 0, maxUsedCount = 0,
         powerArrayLength = powers, availablePower = powers, currentUsedPowerCount = 0, maxUsedPowerCount = 0\<rparr>))"

definition incrementMemCount :: "data_storage \<Rightarrow> sony_result \<times> data_storage" where
  "incrementMemCount st =
     (let n = currentUsedCount st + 1; st = st\<lparr>currentUsedCount := n\<rparr>
      in if n \<le> 0 then (SONY_RESULT_ERROR_OVERFLOW, st)
         else (SONY_RESULT_OK, if maxUsedCount st < n then st\<lparr>maxUsedCount := n\<rparr> else st))"

definition decrementMemCount :: "data_storage \<Rightarrow> sony_result \<times> data_storage" where
  "decrementMemCount st =
     (if currentUsedCount st = 0 then (SONY_RESULT_ERROR_OVERFLOW, st)
      else (SONY_RESULT_OK, st\<lparr>currentUsedCount := currentUsedCount st - 1\<rparr>))"

definition AllocData :: "data_storage \<Rightarrow> sony_result \<times> data_storage" where
  "AllocData st =
     (if availableData st = 0 then (SONY_RESULT_ERROR_OVERFLOW, st)
      else incrementMemCount (st\<lparr>availableData := availableData st - 1\<rparr>))"

definition FreeData :: "data_storage \<Rightarrow> sony_result \<times> data_storage" where
  "FreeData st = decrementMemCount (st\<lparr>availableData := availableData st + 1\<rparr>)"

fun ClearDataList :: "'a list \<Rightarrow> data_storage \<Rightarrow> sony_result \<times> data_storage" where
  "ClearDataList [] st = (SONY_RESULT_OK, st)"
| "ClearDataList (x # xs) st =
     (let (result, st) = FreeData st
      in if result \<noteq> SONY_RESULT_OK then (result, st) else ClearDataList xs st)"

definition incrementPowCount :: "data_storage \<Rightarrow> sony_result \<times> data_storage" where
  "incrementPowCount st =
     (let n = currentUsedPowerCount st + 1; st = st\<lparr>currentUsedPowerCount := n\<rparr>
      in if n \<le> 0 then (SONY_RESULT_ERROR_OVERFLOW, st)
         else (SONY_RESULT_OK, if maxUsedPowerCount st < n then st\<lparr>maxUsedPowerCount := n\<rparr> else st))"

definition decrementPowCount :: "data_storage \<Rightarrow> sony_result \<times> data_storage" where
  "decrementPowCount st =
     (if currentUsedPowerCount st = 0 then (SONY_RESULT_ERROR_OVERFLOW, st)
      else (SONY_RESULT_OK, st\<lparr>currentUsedPowerCount := currentUsedPowerCount st - 1\<rparr>))"

definition AllocPower :: "data_storage \<Rightarrow> sony_result \<times> data_storage" where
  "AllocPower st =
     (if availablePower st = 0 then (SONY_RESULT_ERROR_OVERFLOW, st)
      else incrementPowCount (st\<lparr>availablePower := availablePower st - 1\<rparr>))"

definition FreePower :: "data_storage \<Rightarrow> sony_result \<times> data_storage" where
  "FreePower st = decrementPowCount (st\<lparr>availablePower := availablePower st + 1\<rparr>)"

fun ClearPowerList :: "'a list \<Rightarrow> data_storage \<Rightarrow> sony_result \<times> data_storage" where
  "ClearPowerList [] st = (SONY_RESULT_OK, st)"
| "ClearPowerList (x # xs) st =
     (let (result, st) = FreePower st
      in if result \<noteq> SONY_RESULT_OK then (result, st) else ClearPowerList xs st)"

section \<open>What the pool keeps\<close>

definition store_ok :: "data_storage \<Rightarrow> bool" where
  "store_ok st \<longleftrightarrow> currentUsedCount st + int (availableData st) = int (dataArrayLength st)
     \<and> 0 \<le> currentUsedCount st \<and> currentUsedCount st \<le> maxUsedCount st \<and> maxUsedCount st \<le> int (dataArrayLength st)
     \<and> currentUsedPowerCount st + int (availablePower st) = int (powerArrayLength st)
     \<and> 0 \<le> currentUsedPowerCount st \<and> currentUsedPowerCount st \<le> maxUsedPowerCount st
     \<and> maxUsedPowerCount st \<le> int (powerArrayLength st)"

text \<open>\<open>n\<close> cells taken, or \<open>n\<close> cells given back.\<close>

definition taken :: "nat \<Rightarrow> data_storage \<Rightarrow> data_storage" where
  "taken n st = st\<lparr>availableData := availableData st - n, currentUsedCount := currentUsedCount st + int n,
     maxUsedCount := max (maxUsedCount st) (currentUsedCount st + int n)\<rparr>"

definition given :: "nat \<Rightarrow> data_storage \<Rightarrow> data_storage" where
  "given n st = st\<lparr>availableData := availableData st + n, currentUsedCount := currentUsedCount st - int n\<rparr>"

lemma taken_fields [simp]:
  "availableData (taken n st) = availableData st - n" "currentUsedCount (taken n st) = currentUsedCount st + int n"
  "availableData (given n st) = availableData st + n" "currentUsedCount (given n st) = currentUsedCount st - int n"
  by (simp_all add: taken_def given_def)

lemma taken_ok: "store_ok st \<Longrightarrow> n \<le> availableData st \<Longrightarrow> store_ok (taken n st)"
  by (auto simp: store_ok_def taken_def max_def)

lemma given_ok: "store_ok st \<Longrightarrow> int n \<le> currentUsedCount st \<Longrightarrow> store_ok (given n st)"
  by (auto simp: store_ok_def given_def)

lemma taken_0 [simp]: "store_ok st \<Longrightarrow> taken 0 st = st"
  by (simp add: taken_def store_ok_def)

lemma given_0 [simp]: "given 0 st = st"
  by (simp add: given_def)

lemma taken_taken: "taken a (taken b st) = taken (b + a) st"
  by (simp add: taken_def max_def)

lemma given_given: "given a (given b st) = given (b + a) st"
  by (simp add: given_def)

lemma AllocData_ok: "store_ok st \<Longrightarrow> 0 < availableData st \<Longrightarrow> AllocData st = (SONY_RESULT_OK, taken 1 st)"
  by (auto simp: AllocData_def incrementMemCount_def taken_def store_ok_def max_def Let_def)

lemma AllocData_full [simp]: "availableData st = 0 \<Longrightarrow> AllocData st = (SONY_RESULT_ERROR_OVERFLOW, st)"
  by (simp add: AllocData_def)

lemma FreeData_ok: "0 < currentUsedCount st \<Longrightarrow> FreeData st = (SONY_RESULT_OK, given 1 st)"
  by (simp add: FreeData_def decrementMemCount_def given_def)

lemma ClearDataList_ok:
  "int (length xs) \<le> currentUsedCount st \<Longrightarrow> ClearDataList xs st = (SONY_RESULT_OK, given (length xs) st)"
  by (induction xs arbitrary: st) (simp_all add: FreeData_ok given_given)

lemma StorageInit_ok: "StorageInit p d st0 = (SONY_RESULT_OK, st) \<Longrightarrow> store_ok st"
  by (auto simp: StorageInit_def store_ok_def split: if_splits)

section \<open>Lists built cell by cell\<close>

text \<open>
  A loop that appends: every element takes a cell, in order; when none is left the call returns with
  the error, and the cells it has taken so far are not given back.
\<close>

fun append_cells :: "'a list \<Rightarrow> 'a list \<Rightarrow> data_storage \<Rightarrow> sony_result \<times> 'a list \<times> data_storage" where
  "append_cells out [] st = (SONY_RESULT_OK, out, st)"
| "append_cells out (x # xs) st =
     (let (result, st) = AllocData st
      in if result \<noteq> SONY_RESULT_OK then (result, out, st) else append_cells (out @ [x]) xs st)"

text \<open>
  The frame that most algorithms share: a head cell for the new list, the loop that fills it, the cells
  of the old list given back, the new list put in its place, the head cell given back.
\<close>

definition replace_list :: "'a list \<Rightarrow> 'a list \<Rightarrow> data_storage \<Rightarrow> sony_result \<times> 'a list \<times> data_storage" where
  "replace_list new old st =
     (let (result, st) = AllocData st
      in if result \<noteq> SONY_RESULT_OK then (result, old, st)
      else let (result, out, st) = append_cells [] new st
      in if result \<noteq> SONY_RESULT_OK then (result, old, st)
      else let (result, st) = ClearDataList old st
      in if result \<noteq> SONY_RESULT_OK then (result, old, st)
      else let (result, st) = FreeData st
      in (result, out, st))"

lemma append_cells_ok:
  "store_ok st \<Longrightarrow> length xs \<le> availableData st \<Longrightarrow> append_cells out xs st = (SONY_RESULT_OK, out @ xs, taken (length xs) st)"
  by (induction xs arbitrary: out st) (simp_all add: AllocData_ok taken_ok taken_taken)

lemma append_cells_full:
  "store_ok st \<Longrightarrow> availableData st < length xs \<Longrightarrow>
     append_cells out xs st = (SONY_RESULT_ERROR_OVERFLOW, out @ take (availableData st) xs, taken (availableData st) st)"
proof (induction xs arbitrary: out st)
  case (Cons x xs)
  show ?case
  proof (cases "availableData st")
    case 0
    then show ?thesis using Cons.prems(1) by simp
  next
    case (Suc n)
    then show ?thesis using Cons.prems Cons.IH [of "taken 1 st" "out @ [x]"]
      by (simp add: AllocData_ok taken_ok taken_taken)
  qed
qed simp

text \<open>On success the cells of the old list have come back and those of the new one are taken: nothing is lost.\<close>

lemma replace_list_ok:
  assumes "store_ok st" and "int (length old) \<le> currentUsedCount st" and "length new < availableData st"
  shows "replace_list new old st = (SONY_RESULT_OK, new, given (length old + 1) (taken (length new + 1) st))"
    "store_ok (given (length old + 1) (taken (length new + 1) st))"
proof -
  have 1: "store_ok (taken 1 st)" "store_ok (taken (length new + 1) st)" using assms by (auto intro: taken_ok)
  show "replace_list new old st = (SONY_RESULT_OK, new, given (length old + 1) (taken (length new + 1) st))"
    using assms 1(1) by (simp add: replace_list_def AllocData_ok append_cells_ok ClearDataList_ok FreeData_ok taken_taken given_given)
  show "store_ok (given (length old + 1) (taken (length new + 1) st))"
    by (rule given_ok [OF 1(2)]) (use assms(2) in simp)
qed

text \<open>When the pool runs out, all of it stays taken.\<close>

lemma replace_list_full:
  assumes "store_ok st" and "availableData st \<le> length new"
  shows "replace_list new old st = (SONY_RESULT_ERROR_OVERFLOW, old, taken (availableData st) st)"
proof (cases "availableData st = 0")
  case False
  then show ?thesis
    using assms append_cells_full [of "taken 1 st" new "[]"]
    by (simp add: replace_list_def AllocData_ok taken_ok taken_taken)
qed (use assms in \<open>simp add: replace_list_def\<close>)

section \<open>Conversion of numbers\<close>

definition MASKUPPER :: "nat \<Rightarrow> u32" where "MASKUPPER n = (if n = 0 then 0 else push_bit (32 - n) 0xFFFFFFFF)"
definition MASKLOWER :: "nat \<Rightarrow> u32" where "MASKLOWER n = (if n = 0 then 0 else drop_bit (32 - n) 0xFFFFFFFF)"

definition sony_Convert2SComplement :: "u32 \<Rightarrow> nat \<Rightarrow> int" where
  "sony_Convert2SComplement val bitlen =
     (if bitlen = 0 \<or> bitlen \<ge> 32 then sint val
      else if val AND push_bit (bitlen - 1) 1 \<noteq> 0 then sint (MASKUPPER (32 - bitlen) OR val)
      else sint (MASKLOWER bitlen AND val))"

lemma sony_Convert2SComplement_signed:
  assumes "0 < bitlen" and "bitlen < 32"
  shows "sony_Convert2SComplement val bitlen = signed_take_bit (bitlen - 1) (uint val)"
proof -
  have neg: "val AND push_bit (bitlen - 1) 1 \<noteq> 0 \<longleftrightarrow> bit val (bitlen - 1)"
    by (simp add: push_bit_of_1 and_exp_eq_0_iff_not_bit)
  have f: "(0xFFFFFFFF :: u32) = mask 32" by (simp add: mask_eq_exp_minus_1)
  have up: "MASKUPPER (32 - bitlen) = push_bit bitlen (mask 32)"
    using assms unfolding MASKUPPER_def f by simp
  have lo: "MASKLOWER bitlen = mask bitlen"
    using assms unfolding MASKLOWER_def f by (intro bit_word_eqI) (auto simp: bit_simps)
  have sgn: "bit (sint w) n = bit w (min 31 n)" for w :: u32 and n
    by (simp add: bit_simps min_def)
  show ?thesis
  proof (rule bit_eqI)
    fix n :: nat
    define m where "m = min 31 n"
    have r: "bit (signed_take_bit (bitlen - 1) (uint val)) n = bit val (min n (bitlen - 1))"
      by (simp add: bit_signed_take_bit_iff bit_simps min.commute)
    have s: "bit (sint w) n = bit w m" for w :: u32 unfolding sgn m_def ..
    consider "n < bitlen" "m = n" "min n (bitlen - 1) = n"
      | "\<not> m < bitlen" "min n (bitlen - 1) = bitlen - 1" "m < 32" "m - bitlen < 32"
      unfolding m_def using assms by linarith
    then show "bit (sony_Convert2SComplement val bitlen) n = bit (signed_take_bit (bitlen - 1) (uint val)) n"
      using assms unfolding r sony_Convert2SComplement_def neg up lo
      by cases (simp_all add: s bit_or_iff bit_and_iff bit_push_bit_iff bit_mask_iff)
  qed
qed

definition log2LookUp :: "nat list" where
  "log2LookUp = [0, 4, 9, 13, 17, 21, 25, 29, 32, 36, 39, 43, 46, 49, 52, 55, 58, 61, 64, 67, 70, 73, 75, 78, 81, 83,
     86, 88, 91, 93, 95, 98]"

text \<open>The position of the highest bit, by shifting.\<close>

function msb_count :: "nat \<Rightarrow> nat \<Rightarrow> nat" where
  "msb_count x count = (if x div 2 > 0 then msb_count (x div 2) (count + 1) else count)"
  by pat_completeness auto
termination by (relation "measure fst") auto

declare msb_count.simps [simp del]

definition sony_math_log2 :: "u32 \<Rightarrow> nat" where
  "sony_math_log2 x =
     (let xval = unat x; count = msb_count xval 0
      in count * 100 +
         (if count > 0 then
            (if count \<le> 5 then log2LookUp ! ((xval * 2 ^ (5 - count)) mod 256 mod 32)
             else log2LookUp ! (xval div 2 ^ (count - 5) mod 256 mod 32))
          else 0))"

definition sony_math_log10 :: "u32 \<Rightarrow> nat" where "sony_math_log10 x = (100 * sony_math_log2 x + 332 div 2) div 332"
definition sony_math_log :: "u32 \<Rightarrow> nat" where "sony_math_log x = (100 * sony_math_log2 x + 144 div 2) div 144"

section \<open>The logarithm\<close>

lemma msb_count_pow: "2 ^ k \<le> x \<Longrightarrow> x < 2 ^ Suc k \<Longrightarrow> msb_count x c = c + k"
proof (induction k arbitrary: x c)
  case 0
  then show ?case by (subst msb_count.simps) simp
next
  case (Suc k)
  then have "2 ^ k \<le> x div 2" "x div 2 < 2 ^ Suc k" by simp_all
  moreover have "0 < x div 2" using calculation(1) zero_less_power [of "2 :: nat" k] by linarith
  ultimately have "2 ^ k \<le> x div 2" "x div 2 < 2 ^ Suc k" "0 < x div 2" by blast+
  then show ?case using Suc.IH [of "x div 2" "c + 1"] by (subst msb_count.simps) simp
qed

lemma log2_lookup_length: "length log2LookUp = 32"
  by (simp add: log2LookUp_def)

lemma log2_lookup_sorted: "sorted_wrt (<) log2LookUp" "list_all (\<lambda>v. v < 100) log2LookUp"
  by (simp_all add: log2LookUp_def)

lemma log2_lookup:
  "i < 32 \<Longrightarrow> log2LookUp ! i < 100" "i < j \<Longrightarrow> j < 32 \<Longrightarrow> log2LookUp ! i < log2LookUp ! j"
  using log2_lookup_sorted by (auto simp: list_all_iff log2_lookup_length sorted_wrt_iff_nth_less)

text \<open>The integer part is the position of the highest bit, the rest the table entry of the next five bits.\<close>

lemma sony_math_log2_value:
  assumes "2 ^ k \<le> unat x" and "unat x < 2 ^ Suc k"
  shows "sony_math_log2 x = 100 * k + log2LookUp ! ((unat x - 2 ^ k) * 32 div 2 ^ k)"
    "(unat x - 2 ^ k) * 32 div 2 ^ k < 32"
proof -
  obtain r where r: "unat x = 2 ^ k + r" "r < 2 ^ k" using assms le_Suc_ex by fastforce
  have idx: "(unat x - 2 ^ k) * 32 div 2 ^ k = r * 32 div 2 ^ k" by (simp add: r(1))
  show lt: "(unat x - 2 ^ k) * 32 div 2 ^ k < 32"
    unfolding idx using r(2) by (simp add: div_less_iff_less_mult)
  consider "k = 0" | "0 < k" "k \<le> 5" | "5 < k" by linarith
  then show "sony_math_log2 x = 100 * k + log2LookUp ! ((unat x - 2 ^ k) * 32 div 2 ^ k)"
  proof cases
    case 1
    have "msb_count (unat x) 0 = 0" using msb_count_pow [OF assms, of 0] 1 by simp
    then show ?thesis using 1 r by (simp add: sony_math_log2_def Let_def log2LookUp_def)
  next
    case 2
    have p: "(2 :: nat) ^ (5 - k) * 2 ^ k = 32" using 2(2) by (simp add: power_add [symmetric])
    have "unat x * 2 ^ (5 - k) = 2 ^ (5 - k) * 2 ^ k + r * 2 ^ (5 - k)" by (simp add: r(1) add_mult_distrib)
    moreover have "r * 32 div 2 ^ k = r * 2 ^ (5 - k)" unfolding p [symmetric] by (simp add: mult.assoc [symmetric])
    ultimately have "unat x * 2 ^ (5 - k) = 32 + r * 2 ^ (5 - k)" "r * 32 div 2 ^ k = r * 2 ^ (5 - k)"
      unfolding p by blast+
    moreover have "r * 2 ^ (5 - k) < 32" using lt unfolding idx calculation(2) .
    ultimately show ?thesis unfolding idx
      using 2 by (simp add: sony_math_log2_def msb_count_pow [OF assms] Let_def)
  next
    case 3
    obtain j where j: "k = j + 5" using 3 by (metis add.commute less_imp_add_positive less_imp_le_nat le_Suc_ex)
    have "unat x div 2 ^ j = 32 + r div 2 ^ j" by (simp add: r(1) j power_add)
    moreover have "r * 32 div 2 ^ k = r div 2 ^ j" by (simp add: j power_add)
    moreover have "r div 2 ^ j < 32" using lt unfolding idx calculation(2) .
    ultimately show ?thesis unfolding idx
      using 3 by (simp add: sony_math_log2_def msb_count_pow [OF assms] Let_def j)
  qed
qed

text \<open>A greater argument never has a smaller logarithm.\<close>

lemma top_bit: "0 < (n :: nat) \<Longrightarrow> \<exists>k. 2 ^ k \<le> n \<and> n < 2 ^ Suc k"
  using ex_power_ivl1 [of 2 n] by (auto simp: mult.commute)

lemma sony_math_log2_mono:
  assumes "x \<le> y" and "0 < x"
  shows "sony_math_log2 x \<le> sony_math_log2 y"
proof -
  have u: "unat x \<le> unat y" "0 < unat x" using assms by (simp_all add: word_le_nat_alt unat_gt_0)
  obtain k where k: "2 ^ k \<le> unat x" "unat x < 2 ^ Suc k" using top_bit [OF u(2)] by blast
  obtain l where l: "2 ^ l \<le> unat y" "unat y < 2 ^ Suc l" using top_bit [of "unat y"] u by auto
  note vx = sony_math_log2_value [OF k] and vy = sony_math_log2_value [OF l]
  have "(2 :: nat) ^ k < 2 ^ Suc l" using k(1) u(1) l(2) by linarith
  then have "k < Suc l" by (rule power_less_imp_less_exp [rotated]) simp
  then have "k \<le> l" by simp
  show ?thesis
  proof (cases "k = l")
    case True
    have "(unat x - 2 ^ k) * 32 div 2 ^ k \<le> (unat y - 2 ^ l) * 32 div 2 ^ l"
      using u(1) by (simp add: True div_le_mono diff_le_mono)
    then show ?thesis unfolding vx(1) vy(1) using True vy(2) log2_lookup(2)
      by (metis add_left_mono le_eq_less_or_eq)
  next
    case False
    then show ?thesis unfolding vx(1) vy(1) using \<open>k \<le> l\<close> log2_lookup(1) [OF vx(2)] by linarith
  qed
qed

end
