(* ===== verification/BsAlgo.thy ===== *)
theory BsAlgo
  imports BsStore
begin

text \<open>
  The algorithms of the blind scan driver, the section \<open>Algo\<close> of
  \<open>linux/drivers/media/dvb-frontends/cxd2841er_blind_scan.c\<close>: from the power spectrum to candidates for
  carriers, and the bookkeeping of candidates, found channels and bands without a channel. Frequencies
  (kHz) and symbol rates (ksps) are \<open>uint32_t\<close> and wrap as in the code. Powers (dB x 100), their sums and
  levels are \<open>int32_t\<close>: integers of that range, and what is computed from them wraps at 32 bits (\<open>i32\<close>), as
  the code of the kernel, which this driver is, is compiled.

  A loop that fills a list produces its elements one after the other and takes a cell for each: it is the
  list of these elements, and \<open>append_cells\<close> for the cells. What a failed call leaves in the lists it was
  working on is not used by any caller; the model leaves the old list.
\<close>

section \<open>Data\<close>

record candidate =
  centerFreqKHz :: u32
  symbolRateKSps :: u32
  minSymbolRateKSps :: u32
  maxSymbolRateKSps :: u32

text \<open>Of a channel its system plays no part in the algorithms and is left out.\<close>

record channel =
  ch_centerFreqKHz :: u32
  ch_symbolRateKSps :: u32

record band =
  minFreqKHz :: u32
  maxFreqKHz :: u32

record power =
  freqKHz :: u32
  power :: int

text \<open>The value of an \<open>int32_t\<close>.\<close>

definition i32 :: "int \<Rightarrow> int" where "i32 x = signed_take_bit 31 x"

definition new_cand :: "u32 \<Rightarrow> u32 \<Rightarrow> u32 \<Rightarrow> u32 \<Rightarrow> candidate" where
  "new_cand f sr mn mx = \<lparr>centerFreqKHz = f, symbolRateKSps = sr, minSymbolRateKSps = mn, maxSymbolRateKSps = mx\<rparr>"

section \<open>Candidates\<close>

text \<open>\<open>SeparateCandidate\<close>: a candidate every 1000 kHz over the width of each.\<close>

function separate_loop :: "int \<Rightarrow> int \<Rightarrow> int \<Rightarrow> candidate list" where
  "separate_loop candFrequency candSymbolRate symbolRate =
     (if symbolRate \<le> candSymbolRate
      then new_cand (word_of_int (candFrequency + symbolRate)) 0 0 0
             # separate_loop candFrequency candSymbolRate (symbolRate + 1000)
      else [])"
  by pat_completeness auto
termination by (relation "measure (\<lambda>(f, c, s). nat (c + 1 - s))") auto

declare separate_loop.simps [simp del]

definition separate_one :: "candidate \<Rightarrow> candidate list" where
  "separate_one c =
     (let candFrequency = sint (centerFreqKHz c); candSymbolRate = sint (maxSymbolRateKSps c div 2)
      in separate_loop candFrequency candSymbolRate (candSymbolRate * (- 1)))"

definition algo_SeparateCandidate :: "candidate list \<Rightarrow> data_storage \<Rightarrow> sony_result \<times> candidate list \<times> data_storage" where
  "algo_SeparateCandidate cands st = replace_list (concat (map separate_one cands)) cands st"

text \<open>\<open>ReduceCandidate\<close>: candidates inside of a channel that has been found are dropped.\<close>

definition inside :: "u32 \<Rightarrow> channel \<Rightarrow> bool" where
  "inside candFreq ch \<longleftrightarrow> ch_centerFreqKHz ch - ch_symbolRateKSps ch div 2 < candFreq
     \<and> candFreq < ch_centerFreqKHz ch + ch_symbolRateKSps ch div 2"

definition algo_ReduceCandidate ::
  "channel list \<Rightarrow> candidate list \<Rightarrow> data_storage \<Rightarrow> sony_result \<times> candidate list \<times> data_storage" where
  "algo_ReduceCandidate channels cands st =
     replace_list (filter (\<lambda>c. \<not> list_ex (inside (centerFreqKHz c)) channels) cands) cands st"

text \<open>\<open>DeleteDuplicate\<close>: a candidate is dropped if one with the same frequency and symbol rate follows.\<close>

fun duplicate_loop :: "candidate list \<Rightarrow> candidate list" where
  "duplicate_loop [] = []"
| "duplicate_loop (a # bs) =
     (if list_ex (\<lambda>b. centerFreqKHz a = centerFreqKHz b \<and> symbolRateKSps a = symbolRateKSps b) bs
      then duplicate_loop bs else a # duplicate_loop bs)"

definition algo_DeleteDuplicate :: "candidate list \<Rightarrow> data_storage \<Rightarrow> sony_result \<times> candidate list \<times> data_storage" where
  "algo_DeleteDuplicate cands st = replace_list (duplicate_loop cands) cands st"

text \<open>\<open>DeleteDuplicate2\<close>: a candidate is dropped if one with the same frequency has been kept.\<close>

fun duplicate2_loop :: "candidate list \<Rightarrow> candidate list \<Rightarrow> candidate list" where
  "duplicate2_loop kept [] = kept"
| "duplicate2_loop kept (a # as) =
     (if list_ex (\<lambda>b. centerFreqKHz a = centerFreqKHz b) kept then duplicate2_loop kept as
      else duplicate2_loop (kept @ [a]) as)"

definition algo_DeleteDuplicate2 :: "candidate list \<Rightarrow> data_storage \<Rightarrow> sony_result \<times> candidate list \<times> data_storage" where
  "algo_DeleteDuplicate2 cands st = replace_list (duplicate2_loop [] cands) cands st"

section \<open>Bands without a channel\<close>

text \<open>
  \<open>GetNonDetectedBand\<close>: the frequencies are stepped through; 0 stands for a limit that is not set. The loop
  does not end if the resolution is 0 or the frequency wraps.
\<close>

definition detected :: "u32 \<Rightarrow> channel \<Rightarrow> bool" where
  "detected freq ch \<longleftrightarrow> ch_centerFreqKHz ch - ch_symbolRateKSps ch div 2 \<le> freq
     \<and> freq \<le> ch_centerFreqKHz ch + ch_symbolRateKSps ch div 2"

definition close_band :: "u32 \<Rightarrow> u32 \<Rightarrow> band list" where
  "close_band mn mx = (if mn > 0 \<and> mx > 0 then [\<lparr>minFreqKHz = mn, maxFreqKHz = mx\<rparr>] else [])"

partial_function (option) band_loop :: "channel list \<Rightarrow> u32 \<Rightarrow> u32 \<Rightarrow> u32 \<Rightarrow> u32 \<Rightarrow> u32 \<Rightarrow> band list option" where
  "band_loop channels maxPower resolution freq mn mx =
     (if freq \<le> maxPower then
        if list_ex (detected freq) channels
        then Option.bind (band_loop channels maxPower resolution (freq + resolution) 0 0) (\<lambda>bs. Some (close_band mn mx @ bs))
        else if mn = 0 then band_loop channels maxPower resolution (freq + resolution) freq mx
        else band_loop channels maxPower resolution (freq + resolution) mn freq
      else Some (close_band mn mx))"

text \<open>The bands replace what was in the list, if there are any.\<close>

definition algo_GetNonDetectedBand ::
  "u32 \<Rightarrow> u32 \<Rightarrow> u32 \<Rightarrow> channel list \<Rightarrow> band list \<Rightarrow> data_storage \<Rightarrow> (sony_result \<times> band list \<times> data_storage) option" where
  "algo_GetNonDetectedBand minPower maxPower resolution channels bands st =
     (case band_loop channels maxPower resolution minPower minPower 0 of
        None \<Rightarrow> None
      | Some bs \<Rightarrow>
          (case append_cells [] bs st of
             (result, out, st) \<Rightarrow> Some (result, if out = [] then bands else out, st)))"

section \<open>Sorting\<close>

text \<open>
  The first candidate is taken off the list and put into the new list: the walk looks at the element
  behind the base and at the one after it. The distance is unsigned.
\<close>

definition distance :: "u32 \<Rightarrow> u32 \<Rightarrow> u32" where
  "distance base v = (if v > base then v - base else base - v)"

fun insert_walk :: "('a \<Rightarrow> u32) \<Rightarrow> 'a \<Rightarrow> 'a list \<Rightarrow> 'a list" where
  "insert_walk key t [] = [t]"
| "insert_walk key t [c] = (if key t < key c then [t, c] else [c, t])"
| "insert_walk key t (c # n # rest) =
     (if key t < key c then t # c # n # rest
      else if key t < key n then c # t # n # rest
      else c # insert_walk key t (n # rest))"

fun sort_loop :: "('a \<Rightarrow> u32) \<Rightarrow> 'a list \<Rightarrow> 'a list \<Rightarrow> 'a list" where
  "sort_loop key done_list [] = done_list"
| "sort_loop key done_list (t # ts) = sort_loop key (insert_walk key t done_list) ts"

definition sort_cells :: "('a \<Rightarrow> u32) \<Rightarrow> 'a list \<Rightarrow> data_storage \<Rightarrow> sony_result \<times> 'a list \<times> data_storage" where
  "sort_cells key cands st =
     (let (result, st) = AllocData st
      in if result \<noteq> SONY_RESULT_OK then (result, cands, st)
      else let (result, st) = FreeData st in (result, sort_loop key [] cands, st))"

definition algo_SortBySymbolrate :: "u32 \<Rightarrow> candidate list \<Rightarrow> data_storage \<Rightarrow> sony_result \<times> candidate list \<times> data_storage" where
  "algo_SortBySymbolrate base cands st = sort_cells (\<lambda>c. distance base (symbolRateKSps c)) cands st"

definition algo_SortByFrequency :: "u32 \<Rightarrow> candidate list \<Rightarrow> data_storage \<Rightarrow> sony_result \<times> candidate list \<times> data_storage" where
  "algo_SortByFrequency base cands st = sort_cells (\<lambda>c. distance base (centerFreqKHz c)) cands st"

section \<open>The spectrum\<close>

text \<open>Division of \<open>int32_t\<close>: towards zero.\<close>

definition cdiv :: "int \<Rightarrow> int \<Rightarrow> int" where
  "cdiv a b = (if a < 0 then - (- a div b) else a div b)"

text \<open>
  \<open>moving_average\<close>: the buffer holds the powers of the lower half of the window as they were; \<open>ahead\<close> is the
  rest of the list from the reader of the upper half on, which stays on the last element. The average is
  written in place: a reader that stays on the last element reads it before it is overwritten, or for the
  last time. With a buffer of less than two cells the list would be linked to itself: not modelled, the
  driver asks for 250.
\<close>

fun read_ahead :: "int \<Rightarrow> power list \<Rightarrow> int \<times> power list" where
  "read_ahead pw [] = (pw, [])"
| "read_ahead pw [p] = (power p, [p])"
| "read_ahead pw (p # q # ps) = (power p, q # ps)"

fun sum_ahead :: "nat \<Rightarrow> int \<Rightarrow> int \<Rightarrow> power list \<Rightarrow> int \<times> int \<times> power list" where
  "sum_ahead 0 total_power pw ahead = (total_power, pw, ahead)"
| "sum_ahead (Suc k) total_power pw ahead =
     (let (pw, ahead) = read_ahead pw ahead in sum_ahead k (i32 (total_power + pw)) pw ahead)"

fun average_loop ::
  "int \<Rightarrow> int list \<Rightarrow> int \<Rightarrow> int \<Rightarrow> power list \<Rightarrow> power list \<Rightarrow> power list \<Rightarrow> data_storage
    \<Rightarrow> sony_result \<times> power list \<times> int list \<times> data_storage" where
  "average_loop maLength buffer total_power pw ahead out [] st = (SONY_RESULT_OK, out, buffer, st)"
| "average_loop maLength buffer total_power pw ahead out (p # ps) st =
     (let p' = p\<lparr>power := cdiv total_power maLength\<rparr>;
          total_power = i32 (total_power - hd buffer);
          buffer = tl buffer;
          (result, st) = FreeData st
      in if result \<noteq> SONY_RESULT_OK then (result, out @ p' # ps, buffer, st)
         else
           let (pw, ahead) = read_ahead pw ahead;
               (result, st) = AllocData st
           in if result \<noteq> SONY_RESULT_OK then (result, out @ p' # ps, buffer, st)
              else average_loop maLength (buffer @ [power p]) (i32 (total_power + pw)) pw ahead (out @ [p']) ps st)"

definition moving_average :: "nat \<Rightarrow> power list \<Rightarrow> data_storage \<Rightarrow> (sony_result \<times> power list \<times> data_storage) option" where
  "moving_average maLength powers st =
     (if maLength = 0 then Some (SONY_RESULT_ERROR_ARG, powers, st)
      else
        let (result, st) = AllocData st
        in if result \<noteq> SONY_RESULT_OK then Some (result, powers, st)
        else if powers = [] then Some (SONY_RESULT_ERROR_ARG, powers, st)
        else if maLength div 2 < 2 then None
        else
          let pw = power (hd powers);
              (result, buffer, st) = append_cells [] (replicate (maLength div 2) pw) st
          in if result \<noteq> SONY_RESULT_OK then Some (result, powers, st)
          else
            let (total_power, pw, ahead) = sum_ahead (maLength div 2) (fold (\<lambda>pw total_power. i32 (total_power + pw)) buffer 0) pw powers;
                (result, out, buffer, st) = average_loop (int maLength) buffer total_power pw ahead [] powers st
            in if result \<noteq> SONY_RESULT_OK then Some (result, out, st)
            else let (result, st) = ClearDataList buffer st
            in if result \<noteq> SONY_RESULT_OK then Some (result, out, st)
            else let (result, st) = FreeData st in Some (result, out, st))"

text \<open>The range of the powers; the first is taken whatever its frequency.\<close>

definition get_power_range :: "power list \<Rightarrow> (int \<times> int) option" where
  "get_power_range powers =
     (case powers of
        [] \<Rightarrow> None
      | p # ps \<Rightarrow>
          Some (fold (\<lambda>q (mn, mx). if freqKHz q > 0 then (if mn > power q then power q else mn, if mx < power q then power q else mx)
                  else (mn, mx)) ps (power p, power p)))"

text \<open>
  One cut through the spectrum at a level: between a rise above the level and the next fall stands a
  candidate, rounded to 1000 kHz. State 2 waits for the first power that is not above. A frequency 0 ends
  the spectrum.
\<close>

fun slice :: "int \<Rightarrow> nat \<Rightarrow> u32 \<Rightarrow> power list \<Rightarrow> candidate list" where
  "slice level st start [] = []"
| "slice level st start (p # ps) =
     (if freqKHz p = 0 then []
      else if power p > level then
        (if st = 0 then slice level 1 (freqKHz p) ps else slice level st start ps)
      else if st = 1 then
        new_cand ((freqKHz p + start + 1000) div 2000 * 1000) (freqKHz p - start) 0 0 # slice level 0 start ps
      else slice level 0 start ps)"

text \<open>
  \<open>select_candidate\<close>: in the multi-peak mode pairs of neighbours that may be one carrier, each candidate with
  those behind it up to the first that does not fit; then the candidates within the limits themselves.
\<close>

fun mp_pairs :: "u32 \<Rightarrow> u32 \<Rightarrow> candidate \<Rightarrow> candidate list \<Rightarrow> candidate list" where
  "mp_pairs mn mx c1 [] = []"
| "mp_pairs mn mx c1 (c2 # cs) =
     (let freq1 = centerFreqKHz c1; sr1 = symbolRateKSps c1; freq2 = centerFreqKHz c2; sr2 = symbolRateKSps c2;
          mpFrequency = ((freq2 + sr2 div 2) + (freq1 - sr1 div 2)) div 2;
          mpSymbolRate = (freq2 + sr2 div 2) - (freq1 - sr1 div 2);
          space = (freq2 - (sr2 + 1) div 2) - (freq1 + sr1 div 2)
      in if space < (mpSymbolRate + 1) div 2 \<and> mn \<le> mpSymbolRate \<and> mpSymbolRate \<le> mx
         then new_cand mpFrequency mpSymbolRate 0 0 # mp_pairs mn mx c1 cs
         else [])"

fun mp_all :: "u32 \<Rightarrow> u32 \<Rightarrow> candidate list \<Rightarrow> candidate list" where
  "mp_all mn mx [] = []"
| "mp_all mn mx (c # cs) = mp_pairs mn mx c cs @ mp_all mn mx cs"

definition selected :: "u32 \<Rightarrow> u32 \<Rightarrow> bool \<Rightarrow> candidate list \<Rightarrow> candidate list" where
  "selected mn mx isMpMode cands =
     (if isMpMode then mp_all mn mx cands else [])
     @ map (\<lambda>c. new_cand (centerFreqKHz c) (symbolRateKSps c) 0 0) (filter (\<lambda>c. mn \<le> symbolRateKSps c \<and> symbolRateKSps c \<le> mx) cands)"

definition select_candidate ::
  "u32 \<Rightarrow> u32 \<Rightarrow> bool \<Rightarrow> candidate list \<Rightarrow> data_storage \<Rightarrow> sony_result \<times> candidate list \<times> data_storage" where
  "select_candidate mn mx isMpMode cands st = replace_list (selected mn mx isMpMode cands) cands st"

text \<open>\<open>pick_duplicated_area\<close>: every pair of cuts whose centers and widths agree makes a candidate with a range.\<close>

definition area_of :: "u32 \<Rightarrow> candidate \<Rightarrow> candidate \<Rightarrow> candidate list" where
  "area_of cferr c1 c2 =
     (let freq1 = centerFreqKHz c1; sr1 = symbolRateKSps c1; freq2 = centerFreqKHz c2; sr2 = symbolRateKSps c2;
          freqUpper = (if freq1 > freq2 then freq1 else freq2);
          freqLower = (if freq1 > freq2 then freq2 else freq1);
          srUpper = (if sr1 > sr2 then sr1 else sr2);
          srLower = (if sr1 > sr2 then sr2 else sr1);
          mn = (srUpper * 7) div 10; mx = ((srLower * 16) + 9) div 10
      in if freqUpper - freqLower \<le> cferr \<and> mn < mx
         then [new_cand (((freq1 + freq2) div 2 + 500) div 1000 * 1000) 0 mn mx] else [])"

fun areas :: "u32 \<Rightarrow> candidate list \<Rightarrow> candidate list" where
  "areas cferr [] = []"
| "areas cferr (c # cs) = concat (map (area_of cferr c) cs) @ areas cferr cs"

definition pick_duplicated_area :: "u32 \<Rightarrow> candidate list \<Rightarrow> data_storage \<Rightarrow> sony_result \<times> candidate list \<times> data_storage" where
  "pick_duplicated_area cferr cands st =
     (let (result, st) = AllocData st
      in if result \<noteq> SONY_RESULT_OK then (result, cands, st)
      else let (result, st) = AllocData st
      in if result \<noteq> SONY_RESULT_OK then (result, cands, st)
      else let (result, out, st) = append_cells [] (areas cferr cands) st
      in if result \<noteq> SONY_RESULT_OK then (result, cands, st)
      else let (result, st) = ClearDataList cands st
      in if result \<noteq> SONY_RESULT_OK then (result, cands, st)
      else let (result, st) = FreeData st
      in if result \<noteq> SONY_RESULT_OK then (result, out, st)
      else let (result, st) = FreeData st in (result, out, st))"

text \<open>
  \<open>wagiri\<close>: cuts from the highest power downwards. The cuts of a level are selected, the selections of all
  levels collected in \<open>found\<close>. The level wraps: with a step of 0, or with a lowest power so close to the least
  \<open>int32_t\<close> that the level wraps before it is below, the loop need not end, which is the outer \<open>None\<close>.
\<close>

partial_function (option) level_loop ::
  "u32 \<Rightarrow> u32 \<Rightarrow> bool \<Rightarrow> int \<Rightarrow> int \<Rightarrow> power list \<Rightarrow> int \<Rightarrow> candidate list \<Rightarrow> data_storage
    \<Rightarrow> (sony_result \<times> candidate list \<times> data_storage) option" where
  "level_loop mn mx isMpMode powerMin clipStep powers level found st =
     (if level \<ge> powerMin then
        case append_cells [] (slice level 2 0 powers) st of
          (result, cuts, st) \<Rightarrow>
            if result \<noteq> SONY_RESULT_OK then Some (result, found, st)
            else
              case select_candidate mn mx isMpMode cuts st of
                (result, cuts, st) \<Rightarrow>
                  if result \<noteq> SONY_RESULT_OK then Some (result, found, st)
                  else level_loop mn mx isMpMode powerMin clipStep powers (i32 (level - clipStep)) (found @ cuts) st
      else Some (SONY_RESULT_OK, found, st))"

definition wagiri ::
  "power list \<Rightarrow> u32 \<Rightarrow> u32 \<Rightarrow> u32 \<Rightarrow> u32 \<Rightarrow> bool \<Rightarrow> candidate list \<Rightarrow> data_storage
    \<Rightarrow> (sony_result \<times> candidate list \<times> data_storage) option" where
  "wagiri powers clipStep mn mx cferr isMpMode cands st =
     (case get_power_range powers of
        None \<Rightarrow> Some (SONY_RESULT_OK, cands, st)
      | Some (powerMin, powerMax) \<Rightarrow>
          let (result, st) = AllocData st
          in if result \<noteq> SONY_RESULT_OK then Some (result, cands, st)
          else let (result, st) = AllocData st
          in if result \<noteq> SONY_RESULT_OK then Some (result, cands, st)
          else
            (case level_loop mn mx isMpMode powerMin (sint clipStep) powers powerMax [] st of
               None \<Rightarrow> None
             | Some (result, found, st) \<Rightarrow>
                 if result \<noteq> SONY_RESULT_OK then Some (result, cands, st)
                 else let (result, found, st) = pick_duplicated_area cferr found st
                 in if result \<noteq> SONY_RESULT_OK then Some (result, cands, st)
                 else let (result, st) = FreeData st
                 in if result \<noteq> SONY_RESULT_OK then Some (result, cands @ found, st)
                 else let (result, st) = FreeData st
                 in Some (result, cands @ found, st)))"

section \<open>Overlapping candidates\<close>

text \<open>
  \<open>delete_duplicated_area\<close>: a candidate takes over the range of a later one whose center is close and whose
  range overlaps it; the later one is marked by a center of 0.
\<close>

fun absorb :: "u32 \<Rightarrow> u32 \<Rightarrow> u32 \<Rightarrow> u32 \<Rightarrow> candidate list \<Rightarrow> u32 \<times> u32 \<times> candidate list" where
  "absorb cferr a_cf a_min a_max [] = (a_min, a_max, [])"
| "absorb cferr a_cf a_min a_max (b # bs) =
     (let b_cf = centerFreqKHz b; b_min = minSymbolRateKSps b; b_max = maxSymbolRateKSps b;
          ms = (if a_min < b_min then uint ((a_min + 3) div 4) - sint cferr else uint ((b_min + 3) div 4) - sint cferr);
          ms = (if ms < 0 then 0 else ms);
          close = (a_cf \<ge> b_cf \<and> uint (a_cf - b_cf) \<le> ms \<or> b_cf \<ge> a_cf \<and> uint (b_cf - a_cf) \<le> ms);
          (a_min, a_max, b) =
            (if close then
               if b_min \<le> a_max \<and> a_max \<le> b_max then (a_min, b_max, b\<lparr>centerFreqKHz := 0\<rparr>)
               else if b_min < a_min \<and> a_min < b_max then (b_min, a_max, b\<lparr>centerFreqKHz := 0\<rparr>)
               else (a_min, a_max, b)
             else (a_min, a_max, b));
          (a_min, a_max, bs) = absorb cferr a_cf a_min a_max bs
      in (a_min, a_max, b # bs))"

lemma length_absorb: "length (snd (snd (absorb cferr a_cf a_min a_max bs))) = length bs"
  by (induction bs arbitrary: a_min a_max) (simp_all add: Let_def case_prod_beta)

function merge_areas :: "u32 \<Rightarrow> candidate list \<Rightarrow> candidate list" where
  "merge_areas cferr [] = []"
| "merge_areas cferr (a # bs) =
     (if centerFreqKHz a \<noteq> 0 then
        case absorb cferr (centerFreqKHz a) (minSymbolRateKSps a) (maxSymbolRateKSps a) bs of
          (mn, mx, bs) \<Rightarrow> new_cand (centerFreqKHz a) ((mn + mx) div 2) mn mx # merge_areas cferr bs
      else merge_areas cferr bs)"
  by pat_completeness auto
termination
proof (relation "measure (length \<circ> snd)", goal_cases)
  case 2
  then show ?case by simp (metis length_absorb lessI snd_conv)
qed simp_all

definition delete_duplicated_area :: "u32 \<Rightarrow> candidate list \<Rightarrow> data_storage \<Rightarrow> sony_result \<times> candidate list \<times> data_storage" where
  "delete_duplicated_area cferr cands st = replace_list (merge_areas cferr cands) cands st"

text \<open>\<open>limit_range\<close>: the range cut to the limits, and a symbol rate in it to try first, at best 20000 to 30000.\<close>

definition limited :: "u32 \<Rightarrow> u32 \<Rightarrow> candidate \<Rightarrow> candidate" where
  "limited mn mx c =
     (let lim_min = (if minSymbolRateKSps c < mn then mn else minSymbolRateKSps c);
          lim_max = (if maxSymbolRateKSps c > mx then mx else maxSymbolRateKSps c);
          center = (if lim_min < 30000 \<and> 20000 < lim_max then
               if 20000 < lim_min \<and> lim_max < 30000 then (lim_min + lim_max) div 2
               else if lim_min \<le> 20000 \<and> lim_max < 30000 then (20000 + lim_max) div 2
               else if 20000 < lim_min \<and> 30000 \<le> lim_max then (30000 + lim_min) div 2
               else 25000
             else (lim_min + lim_max) div 2)
      in new_cand (centerFreqKHz c) center lim_min lim_max)"

definition limit_range :: "u32 \<Rightarrow> u32 \<Rightarrow> candidate list \<Rightarrow> data_storage \<Rightarrow> sony_result \<times> candidate list \<times> data_storage" where
  "limit_range mn mx cands st = replace_list (map (limited mn mx) cands) cands st"

section \<open>The two ways to candidates\<close>

definition algo_GetCandidateNml ::
  "power list \<Rightarrow> u32 \<Rightarrow> u32 \<Rightarrow> u32 \<Rightarrow> u32 \<Rightarrow> candidate list \<Rightarrow> data_storage
    \<Rightarrow> (sony_result \<times> candidate list \<times> data_storage) option" where
  "algo_GetCandidateNml powers clipStep mn mx cferr cands st =
     (let mn = (mn * 65) div 100; mx = ((mx * 135) + 99) div 100
      in case wagiri powers clipStep mn mx cferr False cands st of
           None \<Rightarrow> None
         | Some (result, cands, st) \<Rightarrow>
             if result \<noteq> SONY_RESULT_OK then Some (result, cands, st)
             else let (result, cands, st) = delete_duplicated_area cferr cands st
             in if result \<noteq> SONY_RESULT_OK then Some (result, cands, st)
             else Some (limit_range mn mx cands st))"

definition algo_GetCandidateMp ::
  "power list \<Rightarrow> u32 \<Rightarrow> u32 \<Rightarrow> u32 \<Rightarrow> u32 \<Rightarrow> candidate list \<Rightarrow> data_storage
    \<Rightarrow> (sony_result \<times> power list \<times> candidate list \<times> data_storage) option" where
  "algo_GetCandidateMp powers clipStep mn mx cferr cands st =
     (let mn = (mn * 65) div 100; mx = ((mx * 135) + 99) div 100
      in case wagiri powers clipStep mn mx cferr True cands st of
           None \<Rightarrow> None
         | Some (result, cands, st) \<Rightarrow>
             if result \<noteq> SONY_RESULT_OK then Some (result, powers, cands, st)
             else
               (case moving_average 250 powers st of
                  None \<Rightarrow> None
                | Some (result, powers, st) \<Rightarrow>
                    if result \<noteq> SONY_RESULT_OK then Some (result, powers, cands, st)
                    else
                      (case wagiri powers clipStep mn mx cferr True cands st of
                         None \<Rightarrow> None
                       | Some (result, cands, st) \<Rightarrow>
                           if result \<noteq> SONY_RESULT_OK then Some (result, powers, cands, st)
                           else
                             (case delete_duplicated_area cferr cands st of
                                (result, cands, st) \<Rightarrow> Some (result, powers, cands, st)))))"

section \<open>The level of the tuner\<close>

text \<open>For a level of at most 20 bits, beyond which the product would leave the \<open>int32_t\<close>.\<close>

definition sony_tuner_helene_sat_AGCLevel2AGCdB :: "nat \<Rightarrow> int" where
  "sony_tuner_helene_sat_AGCLevel2AGCdB agcLevel =
     (let tempA = int agcLevel * (- 1400); tempDiv = 403;
          isNegative = \<not> tempA > 0;
          q = \<bar>tempA\<bar> div tempDiv; r = \<bar>tempA\<bar> mod tempDiv;
          dB = (if r \<ge> tempDiv div 2 then q + 1 else q)
      in (if isNegative then dB * (- 1) else dB) + 9700 - 2000)"

end
