(* ===== verification/BsProps.thy ===== *)
theory BsProps
  imports BsAlgo "HOL-Library.Multiset"
begin

text \<open>
  Properties of \<open>BsAlgo\<close>: the sorts are the stable sort by distance; the moving average is the average over
  the window; a cut finds exactly the peaks; the bands are exactly where no channel was found; duplicates;
  and no algorithm loses a cell of the pool unless it fails.
\<close>

section \<open>Sorting\<close>

lemma uint_distance: "uint (distance base v) = \<bar>uint v - uint base\<bar>"
  by (auto simp: distance_def uint_sub_if_size word_less_def not_less)

lemma insert_walk_mset [simp]: "mset (insert_walk key t xs) = add_mset t (mset xs)"
  by (induction key t xs rule: insert_walk.induct) simp_all

lemma set_insert_walk [simp]: "set (insert_walk key t xs) = insert t (set xs)"
  by (metis insert_walk_mset set_mset_add_mset_insert set_mset_mset)

lemma insert_walk_sorted: "sorted (map key xs) \<Longrightarrow> sorted (map key (insert_walk key t xs))"
  by (induction key t xs rule: insert_walk.induct) auto

text \<open>The new element stands behind all that are as far away.\<close>

lemma insert_walk_stable:
  "sorted (map key xs) \<Longrightarrow> filter (\<lambda>x. key x = k) (insert_walk key t xs) = filter (\<lambda>x. key x = k) (xs @ [t])"
proof (induction key t xs rule: insert_walk.induct)
  case (3 key t c n rest)
  have "filter (\<lambda>x. key x = k) (c # n # rest) = []" if "key t < key c" "key t = k"
    using 3(2) that by (auto simp: filter_empty_conv)
  moreover have "filter (\<lambda>x. key x = k) (n # rest) = []" if "key t < key n" "key t = k"
    using 3(2) that by (auto simp: filter_empty_conv)
  ultimately show ?case using 3 by auto
qed auto

lemma sort_loop_props:
  "sorted (map key s) \<Longrightarrow> mset (sort_loop key s ts) = mset (s @ ts) \<and> sorted (map key (sort_loop key s ts))
     \<and> filter (\<lambda>x. key x = k) (sort_loop key s ts) = filter (\<lambda>x. key x = k) (s @ ts)"
proof (induction ts arbitrary: s)
  case (Cons t ts)
  from Cons.IH [OF insert_walk_sorted [OF Cons.prems, of t]] show ?case
    using insert_walk_stable [OF Cons.prems, of k t] by simp
qed simp

lemma sort_loop_sort_key: "sort_loop key [] ts = sort_key key ts"
proof -
  note props = sort_loop_props [where key = key and s = "[]" and ts = ts, simplified]
  have "filter (\<lambda>x. key k = key x) (sort_loop key [] ts) = filter (\<lambda>x. key k = key x) ts" for k
    using props [where k = "key k"] by (simp add: eq_commute)
  then have "sort_key key ts = sort_loop key [] ts"
    using props by (intro properties_for_sort_key) auto
  then show ?thesis ..
qed

lemma sorted_map_uint: "sorted (map (\<lambda>x. uint (f x)) xs) = sorted (map f xs)" for f :: "'a \<Rightarrow> u32"
  by (induction xs) (auto simp: word_le_def)

lemma sort_key_uint: "sort_key f xs = sort_key (\<lambda>x. uint (f x)) xs" for f :: "'a \<Rightarrow> u32"
proof (rule properties_for_sort_key)
  fix k
  have "filter (\<lambda>x. uint (f k) = uint (f x)) (sort_key (\<lambda>x. uint (f x)) xs) = filter (\<lambda>x. uint (f k) = uint (f x)) xs"
    using sort_key_stable [of "\<lambda>x. uint (f x)" "uint (f k)" xs] by (simp add: eq_commute)
  then show "filter (\<lambda>x. f k = f x) (sort_key (\<lambda>x. uint (f x)) xs) = filter (\<lambda>x. f k = f x) xs"
    by (simp add: word_uint_eq_iff)
next
  show "sorted (map f (sort_key (\<lambda>x. uint (f x)) xs))"
    unfolding sorted_map_uint [symmetric] by (rule sorted_sort_key)
qed simp

lemma sort_cells_ok:
  "store_ok st \<Longrightarrow> 0 < availableData st \<Longrightarrow> sort_cells key cands st = (SONY_RESULT_OK, sort_key key cands, given 1 (taken 1 st))"
  by (simp add: sort_cells_def AllocData_ok FreeData_ok sort_loop_sort_key store_ok_def)

text \<open>C37 (sort_by_symbolrate):
  with a free cell in the pool, \<open>SortBySymbolrate\<close> returns the stable sort of the candidates by how far their
  symbol rate is from the one asked for, whatever wraps, and the pool has its cell back.\<close>

theorem sort_by_symbolrate:
  assumes "store_ok st" and "0 < availableData st"
  shows "algo_SortBySymbolrate base cands st
    = (SONY_RESULT_OK, sort_key (\<lambda>c. \<bar>uint (symbolRateKSps c) - uint base\<bar>) cands, given 1 (taken 1 st))"
  using sort_key_uint [of "\<lambda>c. distance base (symbolRateKSps c)" cands]
  by (simp add: algo_SortBySymbolrate_def sort_cells_ok [OF assms] uint_distance)

text \<open>The pool may be empty of free cells but for one; the example sorts three candidates around 100.\<close>

definition ex_store :: "nat \<Rightarrow> data_storage" where
  "ex_store n = snd (StorageInit 1 n \<lparr>dataArrayLength = 0, availableData = 0, currentUsedCount = 0, maxUsedCount = 0,
     powerArrayLength = 0, availablePower = 0, currentUsedPowerCount = 0, maxUsedPowerCount = 0\<rparr>)"

lemma ex_store: "0 < n \<Longrightarrow> store_ok (ex_store n) \<and> availableData (ex_store n) = n \<and> currentUsedCount (ex_store n) = 0"
  by (simp add: ex_store_def StorageInit_def store_ok_def)

theorem sort_by_symbolrate_witness:
  "map symbolRateKSps (fst (snd (algo_SortBySymbolrate 100
     [new_cand 1 250 0 0, new_cand 2 0 0 0, new_cand 3 90 0 0] (ex_store 1)))) = [90, 0, 250]"
  using sort_by_symbolrate [of "ex_store 1" 100 "[new_cand 1 250 0 0, new_cand 2 0 0 0, new_cand 3 90 0 0]"] ex_store [of 1]
  by (simp add: new_cand_def)

section \<open>Cells of the pool\<close>

text \<open>Cells that are taken and given back leave only the high water mark behind.\<close>

lemma taken_given: "store_ok st \<Longrightarrow> int n \<le> currentUsedCount st \<Longrightarrow> taken n (given n st) = st"
  by (simp add: taken_def given_def store_ok_def max_def)

lemma AllocData_result: "store_ok st \<Longrightarrow> AllocData st = (SONY_RESULT_OK, st') \<Longrightarrow> 0 < availableData st \<and> store_ok st' \<and> currentUsedCount st' = currentUsedCount st + 1"
  by (cases "0 < availableData st") (auto simp: AllocData_ok taken_ok)

lemma FreeData_result: "store_ok st \<Longrightarrow> FreeData st = (SONY_RESULT_OK, st') \<Longrightarrow> 0 < currentUsedCount st \<and> store_ok st' \<and> currentUsedCount st' = currentUsedCount st - 1"
  by (cases "0 < currentUsedCount st") (auto simp: FreeData_ok given_ok FreeData_def decrementMemCount_def store_ok_def)

lemma append_cells_result:
  "store_ok st \<Longrightarrow> append_cells out xs st = (SONY_RESULT_OK, out', st')
    \<Longrightarrow> out' = out @ xs \<and> store_ok st' \<and> currentUsedCount st' = currentUsedCount st + int (length xs)"
  by (cases "length xs \<le> availableData st") (auto simp: append_cells_ok append_cells_full taken_ok)

lemma ClearDataList_result:
  "store_ok st \<Longrightarrow> ClearDataList xs st = (SONY_RESULT_OK, st')
    \<Longrightarrow> store_ok st' \<and> currentUsedCount st' = currentUsedCount st - int (length xs)"
proof (induction xs arbitrary: st)
  case (Cons x xs)
  obtain r s where f: "FreeData st = (r, s)" by fastforce
  then have "r = SONY_RESULT_OK" "ClearDataList xs s = (SONY_RESULT_OK, st')"
    using Cons.prems(2) by (auto split: if_splits)
  then show ?case using FreeData_result [OF Cons.prems(1)] Cons.IH f by auto
qed simp

lemma replace_list_result:
  assumes "store_ok st" and "replace_list new old st = (SONY_RESULT_OK, out, st')"
  shows "out = new \<and> store_ok st' \<and> currentUsedCount st' = currentUsedCount st + int (length new) - int (length old)"
proof -
  obtain st1 st2 st3 where s: "AllocData st = (SONY_RESULT_OK, st1)" "append_cells [] new st1 = (SONY_RESULT_OK, out, st2)"
    "ClearDataList old st2 = (SONY_RESULT_OK, st3)" "FreeData st3 = (SONY_RESULT_OK, st')"
    using assms(2) by (auto simp: replace_list_def split: prod.splits if_splits)
  note s1 = AllocData_result [OF assms(1) s(1)]
  then have "store_ok st1" by blast
  note s2 = append_cells_result [OF this s(2)]
  then have "store_ok st2" by blast
  note s3 = ClearDataList_result [OF this s(3)]
  then have "store_ok st3" by blast
  note s4 = FreeData_result [OF this s(4)]
  show ?thesis using s1 s2 s3 s4 by simp
qed

section \<open>The moving average\<close>

text \<open>Wrapping sums: only the last wrap counts.\<close>

lemma i32_add [simp]: "i32 (i32 a + b) = i32 (a + b)" "i32 (a + i32 b) = i32 (a + b)"
  by (simp_all add: i32_def signed_take_bit_add [of 31 _ b, symmetric] signed_take_bit_add [of 31 a, symmetric])

lemma i32_diff [simp]: "i32 (i32 a - b) = i32 (a - b)"
  using i32_add(1) [of a "- b"] by simp

lemma i32_id: "- (2 ^ 31) \<le> x \<Longrightarrow> x < 2 ^ 31 \<Longrightarrow> i32 x = x"
  by (simp add: i32_def signed_take_bit_int_eq_self)

lemma i32_0 [simp]: "i32 0 = 0"
  by (simp add: i32_def)

lemma fold_i32: "fold (\<lambda>x t. i32 (t + x)) xs (i32 t) = i32 (t + sum_list xs)"
  by (induction xs arbitrary: t) (simp_all add: add.assoc)

text \<open>The power at a place, where the first and the last go on for ever, and the average over a window.\<close>

definition power_at :: "power list \<Rightarrow> int \<Rightarrow> int" where
  "power_at ps j = power (ps ! nat (max 0 (min j (int (length ps) - 1))))"

definition window_sum :: "power list \<Rightarrow> nat \<Rightarrow> int \<Rightarrow> int" where
  "window_sum ps h i = (\<Sum>j = i - int h ..< i + int h. power_at ps j)"

definition averaged :: "power list \<Rightarrow> nat \<Rightarrow> nat \<Rightarrow> power" where
  "averaged ps h i = (ps ! i)\<lparr>power := cdiv (window_sum ps h (int i)) (2 * int h)\<rparr>"

lemma read_ahead_at:
  assumes "ps \<noteq> []"
  shows "read_ahead pw (drop (min k (length ps - 1)) ps) = (power_at ps (int k), drop (min (Suc k) (length ps - 1)) ps)"
proof -
  define m where "m = min k (length ps - 1)"
  have m: "m < length ps" "nat (max 0 (min (int k) (int (length ps) - 1))) = m"
    using assms by (auto simp: m_def min_def max_def nat_less_iff neq_Nil_conv)
  have d: "drop m ps = ps ! m # drop (Suc m) ps" using m(1) by (simp add: Cons_nth_drop_Suc)
  show ?thesis
  proof (cases "Suc m < length ps")
    case True
    then have "min (Suc k) (length ps - 1) = Suc m" by (auto simp: m_def)
    moreover have "drop (Suc m) ps = ps ! Suc m # drop (Suc (Suc m)) ps" using True by (simp add: Cons_nth_drop_Suc)
    ultimately show ?thesis unfolding m_def [symmetric] d by (simp add: power_at_def m(2))
  next
    case False
    then have "min (Suc k) (length ps - 1) = m" "drop (Suc m) ps = []" using m(1) by (auto simp: m_def)
    then show ?thesis unfolding m_def [symmetric] using d by (simp add: power_at_def m(2))
  qed
qed

lemma sum_ahead_at:
  "ps \<noteq> [] \<Longrightarrow> \<exists>pw'. sum_ahead h (i32 t) pw (drop (min k (length ps - 1)) ps)
     = (i32 (t + (\<Sum>j = int k ..< int k + int h. power_at ps j)), pw', drop (min (k + h) (length ps - 1)) ps)"
proof (induction h arbitrary: t pw k)
  case (Suc h)
  have "{int k ..< int k + int (Suc h)} = insert (int k) {int (k + 1) ..< int (k + 1) + int h}" by auto
  then have "(\<Sum>j = int k ..< int k + int (Suc h). power_at ps j)
    = power_at ps (int k) + (\<Sum>j = int (k + 1) ..< int (k + 1) + int h. power_at ps j)"
    by (simp only: sum.insert finite_atLeastLessThan_int atLeastLessThan_iff) simp
  then show ?case
    using Suc.IH [OF Suc.prems, of "t + power_at ps (int k)" "power_at ps (int k)" "k + 1"]
    by (simp add: read_ahead_at [OF Suc.prems, simplified] add.assoc)
qed simp

lemma window_step:
  "0 < h \<Longrightarrow> window_sum ps h (i + 1) = window_sum ps h i - power_at ps (i - int h) + power_at ps (i + int h)"
proof -
  assume "0 < h"
  then have "{i - int h ..< i + int h} = insert (i - int h) {i + 1 - int h ..< i + int h}"
    "{i + 1 - int h ..< i + 1 + int h} = insert (i + int h) {i + 1 - int h ..< i + int h}" by auto
  then show ?thesis unfolding window_sum_def by simp
qed

text \<open>What the buffer holds: the powers before the one that is averaged.\<close>

definition behind :: "power list \<Rightarrow> nat \<Rightarrow> nat \<Rightarrow> int list" where
  "behind ps h i = map (\<lambda>k. power_at ps (int i + int k - int h)) [0..<h]"

lemma behind_nth [simp]: "length (behind ps h i) = h" "j < h \<Longrightarrow> behind ps h i ! j = power_at ps (int i + int j - int h)"
  by (simp_all add: behind_def)

lemma behind_step: "tl (behind ps (Suc g) i) @ [power_at ps (int i)] = behind ps (Suc g) (Suc i)"
  "hd (behind ps (Suc g) i) = power_at ps (int i - int (Suc g))"
proof -
  show "tl (behind ps (Suc g) i) @ [power_at ps (int i)] = behind ps (Suc g) (Suc i)"
  proof (rule nth_equalityI)
    fix j assume "j < length (tl (behind ps (Suc g) i) @ [power_at ps (int i)])"
    then consider "j < g" | "j = g" by fastforce
    then show "(tl (behind ps (Suc g) i) @ [power_at ps (int i)]) ! j = behind ps (Suc g) (Suc i) ! j"
      by cases (simp_all add: nth_append nth_tl algebra_simps)
  qed simp
  show "hd (behind ps (Suc g) i) = power_at ps (int i - int (Suc g))"
    by (simp add: behind_def hd_map upt_conv_Cons del: upt_Suc)
qed

lemma power_at_nth: "i < length ps \<Longrightarrow> power_at ps (int i) = power (ps ! i)"
  by (simp add: power_at_def)

lemma average_loop_at:
  assumes "ps \<noteq> []" and "0 < h" and "store_ok st" and "0 < currentUsedCount st"
    and "\<And>i. i < length ps \<Longrightarrow> i32 (window_sum ps h (int i)) = window_sum ps h (int i)"
  shows "i \<le> length ps \<Longrightarrow>
    average_loop (2 * int h) (behind ps h i) (i32 (window_sum ps h (int i))) pw (drop (min (i + h) (length ps - 1)) ps) out (drop i ps) st
      = (SONY_RESULT_OK, out @ map (averaged ps h) [i..<length ps], behind ps h (length ps), st)"
proof (induction "length ps - i" arbitrary: i pw out)
  case (Suc n)
  then have i: "i < length ps" by simp
  have d: "drop i ps = ps ! i # drop (Suc i) ps" using i by (simp add: Cons_nth_drop_Suc)
  have u: "[i..<length ps] = i # [Suc i..<length ps]" using i by (rule upt_conv_Cons)
  have s: "taken 1 (given 1 st) = st" "store_ok (given 1 st)" using assms(3,4) by (simp_all add: taken_given given_ok)
  have c: "(ps ! i)\<lparr>power := cdiv (i32 (window_sum ps h (int i))) (2 * int h)\<rparr> = averaged ps h i" by (simp add: averaged_def assms(5) [OF i])
  have b: "tl (behind ps h i) @ [power (ps ! i)] = behind ps h (Suc i)" "hd (behind ps h i) = power_at ps (int i - int h)"
    using behind_step [of ps "h - 1" i] assms(2) by (simp_all add: power_at_nth [OF i])
  have w: "i32 (window_sum ps h (int i) - power_at ps (int i - int h) + power_at ps (int (i + h))) = i32 (window_sum ps h (int (Suc i)))"
    using window_step [OF assms(2), of ps "int i"] by (simp add: add.commute)
  show ?case
    using Suc.hyps(1) [of "Suc i" "power_at ps (int (i + h))" "out @ [averaged ps h i]"] Suc.hyps(2) i
    by (simp add: d u FreeData_ok [OF assms(4)] AllocData_ok [OF s(2)] s read_ahead_at [OF assms(1)] Let_def b w c
        del: One_nat_def of_nat_add of_nat_Suc)
qed simp

lemma sum_list_behind: "sum_list (behind ps h 0) = (\<Sum>j = - int h ..< 0. power_at ps j)"
proof -
  have "(\<Sum>j = - int h ..< 0. power_at ps j) = (\<Sum>k\<in>{0..<h}. power_at ps (int k - int h))"
    by (rule sum.reindex_bij_witness [of _ "\<lambda>k. int k - int h" "\<lambda>j. nat (j + int h)"]) auto
  then show ?thesis by (simp add: behind_def sum_list_distinct_conv_sum_set)
qed

lemma behind_0: "ps \<noteq> [] \<Longrightarrow> behind ps h 0 = replicate h (power (hd ps))"
  by (rule nth_equalityI) (simp_all add: power_at_def hd_conv_nth)

lemma window_0: "window_sum ps h 0 = sum_list (behind ps h 0) + (\<Sum>j = 0 ..< int h. power_at ps j)"
proof -
  have "{0 - int h ..< 0 + int h} = {- int h ..< 0} \<union> {0 ..< int h}" by auto
  moreover have "{- int h ..< 0} \<inter> {0 ..< int h} = {}" by auto
  ultimately show ?thesis unfolding window_sum_def sum_list_behind by (simp add: sum.union_disjoint)
qed

lemma window_bound:
  assumes "ps \<noteq> []" and "\<And>p. p \<in> set ps \<Longrightarrow> \<bar>power p\<bar> \<le> B"
  shows "\<bar>window_sum ps h i\<bar> \<le> 2 * int h * B"
proof -
  have "\<bar>power_at ps j\<bar> \<le> B" for j
    unfolding power_at_def using assms(1) by (intro assms(2) nth_mem) (simp add: nat_less_iff min_def max_def)
  then have "\<bar>window_sum ps h i\<bar> \<le> (\<Sum>j = i - int h ..< i + int h. B)"
    unfolding window_sum_def by (intro order_trans [OF sum_abs] sum_mono)
  then show ?thesis by simp
qed

text \<open>C34 (moving_average_windows):
  for a spectrum that is not empty, an even window of at least four places, powers whose sum over a window stays
  below \<open>2 ^ 31\<close>, and enough free cells, \<open>moving_average\<close> replaces every power by the average of the unchanged
  powers in the window around it, from half a window below up to, not including, half a window above, where the
  first and the last power continue the spectrum on both sides; all frequencies and the number of entries stay,
  and the cells of its buffer are back in the pool.\<close>

theorem moving_average_windows:
  assumes "powers \<noteq> []" and "2 \<le> h" and "store_ok st" and "h < availableData st"
    and "\<And>p. p \<in> set powers \<Longrightarrow> \<bar>power p\<bar> \<le> B" and "2 * int h * B < 2 ^ 31"
  shows "moving_average (2 * h) powers st =
    Some (SONY_RESULT_OK, map (averaged powers h) [0..<length powers], given (h + 1) (taken (h + 1) st))"
proof -
  have t: "store_ok (taken 1 st)" "store_ok (taken (h + 1) st)"
    using assms by (auto intro: taken_ok)
  have c: "0 < currentUsedCount (taken (h + 1) st)" "int h \<le> currentUsedCount (taken (h + 1) st)"
    using assms(3) by (simp_all add: store_ok_def)
  have r: "i32 (window_sum powers h i) = window_sum powers h i" for i
    using window_bound [OF assms(1,5), of h i] assms(6) by (intro i32_id) linarith+
  have a: "append_cells [] (replicate h (power (hd powers))) (taken 1 st)
    = (SONY_RESULT_OK, behind powers h 0, taken (h + 1) st)"
    using assms(4) by (simp add: append_cells_ok [OF t(1)] taken_taken behind_0 [OF assms(1)] add.commute del: One_nat_def)
  have b: "fold (\<lambda>x t. i32 (t + x)) (behind powers h 0) 0 = i32 (sum_list (behind powers h 0))"
    using fold_i32 [of "behind powers h 0" 0] by simp
  obtain pw where s: "sum_ahead h (i32 (sum_list (behind powers h 0))) (power (hd powers)) powers
    = (i32 (window_sum powers h 0), pw, drop (min h (length powers - 1)) powers)"
    using sum_ahead_at [OF assms(1), of h "sum_list (behind powers h 0)" "power (hd powers)" 0]
    unfolding window_0 by auto
  have l: "average_loop (2 * int h) (behind powers h 0) (i32 (window_sum powers h 0)) pw (drop (min h (length powers - 1)) powers) []
      powers (taken (h + 1) st)
    = (SONY_RESULT_OK, map (averaged powers h) [0..<length powers], behind powers h (length powers), taken (h + 1) st)"
    using average_loop_at [OF assms(1) _ t(2) c(1) r, of 0 pw "[]"] assms(2) by simp
  have k: "ClearDataList (behind powers h (length powers)) (taken (h + 1) st) = (SONY_RESULT_OK, given h (taken (h + 1) st))"
    using ClearDataList_ok [of "behind powers h (length powers)" "taken (h + 1) st"] c(2) by simp
  have f: "FreeData (given h (taken (h + 1) st)) = (SONY_RESULT_OK, given (h + 1) (taken (h + 1) st))"
    using assms(3) by (subst FreeData_ok) (simp_all add: given_given store_ok_def)
  show ?thesis
    using assms(1-4) by (simp add: moving_average_def AllocData_ok a b s l k f Let_def del: One_nat_def add_Suc_right add_0_right)
qed

definition ex_spectrum :: "power list" where
  "ex_spectrum = [\<lparr>freqKHz = 1, power = 0\<rparr>, \<lparr>freqKHz = 2, power = 80\<rparr>, \<lparr>freqKHz = 3, power = 0\<rparr>]"

theorem moving_average_windows_witness:
  "moving_average 4 ex_spectrum (ex_store 3) = Some (SONY_RESULT_OK,
     [\<lparr>freqKHz = 1, power = 20\<rparr>, \<lparr>freqKHz = 2, power = 20\<rparr>, \<lparr>freqKHz = 3, power = 20\<rparr>], given 3 (taken 3 (ex_store 3)))"
proof -
  have w: "{- 2 ..< 2} = {- 2, - 1, 0, 1 :: int}" "{- 1 ..< 3} = {- 1, 0, 1, 2 :: int}" "{0 ..< 4} = {0, 1, 2, 3 :: int}"
    by auto
  show ?thesis
    using moving_average_windows [of ex_spectrum 2 "ex_store 3" 80] ex_store [of 3]
    by (fastforce simp: ex_spectrum_def averaged_def window_sum_def power_at_def w upt_rec cdiv_def)
qed

section \<open>Bands without a channel\<close>

text \<open>The frequencies that are looked at, and the loop over the list of them.\<close>

fun scan_freqs :: "u32 \<Rightarrow> nat \<Rightarrow> u32 \<Rightarrow> u32 list" where
  "scan_freqs resolution 0 freq = []"
| "scan_freqs resolution (Suc n) freq = freq # scan_freqs resolution n (freq + resolution)"

fun band_list :: "(u32 \<Rightarrow> bool) \<Rightarrow> u32 list \<Rightarrow> u32 \<Rightarrow> u32 \<Rightarrow> band list" where
  "band_list P [] mn mx = close_band mn mx"
| "band_list P (f # fs) mn mx =
     (if P f then close_band mn mx @ band_list P fs 0 0
      else if mn = 0 then band_list P fs f mx else band_list P fs mn f)"

definition steps_to :: "u32 \<Rightarrow> u32 \<Rightarrow> u32 \<Rightarrow> nat" where
  "steps_to maxPower resolution freq =
     (if freq \<le> maxPower then (unat maxPower - unat freq) div unat resolution + 1 else 0)"

lemma unat_step: "freq \<le> maxPower \<Longrightarrow> unat maxPower + unat resolution < 2 ^ 32 \<Longrightarrow> unat (freq + resolution) = unat freq + unat resolution"
  for freq :: u32
  by (subst unat_add_lem [THEN iffD1]) (simp_all add: word_le_nat_alt)

lemma steps_to_step:
  assumes "freq \<le> maxPower" and "0 < resolution" and "unat maxPower + unat resolution < 2 ^ 32"
  shows "steps_to maxPower resolution freq = Suc (steps_to maxPower resolution (freq + resolution))"
proof -
  have r: "0 < unat resolution" using assms(2) by (simp add: unat_gt_0)
  note u = unat_step [OF assms(1,3)]
  show ?thesis
  proof (cases "freq + resolution \<le> maxPower")
    case True
    then have "unat freq + unat resolution \<le> unat maxPower" by (simp add: word_le_nat_alt u)
    then have d: "unat maxPower - unat freq = (unat maxPower - (unat freq + unat resolution)) + unat resolution" by simp
    have "(unat maxPower - unat freq) div unat resolution = (unat maxPower - (unat freq + unat resolution)) div unat resolution + 1"
      unfolding d by (rule div_add_self2) (use r in simp)
    then show ?thesis using assms(1) True by (simp add: steps_to_def u)
  next
    case False
    then have "unat maxPower < unat freq + unat resolution" by (simp add: word_le_nat_alt u)
    then have "(unat maxPower - unat freq) div unat resolution = 0" using assms(1) by (simp add: word_le_nat_alt)
    then show ?thesis using assms(1) False by (simp add: steps_to_def)
  qed
qed

lemma band_loop_list:
  assumes "0 < resolution" and "unat maxPower + unat resolution < 2 ^ 32"
  shows "band_loop channels maxPower resolution freq mn mx
    = Some (band_list (\<lambda>f. list_ex (detected f) channels) (scan_freqs resolution (steps_to maxPower resolution freq) freq) mn mx)"
proof (induction "steps_to maxPower resolution freq" arbitrary: freq mn mx)
  case 0
  then have "\<not> freq \<le> maxPower" by (simp add: steps_to_def split: if_splits)
  then show ?case by (simp add: band_loop.simps steps_to_def)
next
  case (Suc n)
  then have le: "freq \<le> maxPower" by (simp add: steps_to_def split: if_splits)
  note step = steps_to_step [OF le assms]
  have n: "n = steps_to maxPower resolution (freq + resolution)" using Suc.hyps(2) step by simp
  show ?case using Suc.hyps(1) [OF n] le
    by (subst band_loop.simps) (simp add: step)
qed

lemma scan_freqs_sorted:
  assumes "0 < resolution" and "unat maxPower + unat resolution < 2 ^ 32"
  shows "n = steps_to maxPower resolution freq \<Longrightarrow> sorted_wrt (<) (scan_freqs resolution n freq) \<and> (\<forall>f\<in>set (scan_freqs resolution n freq). freq \<le> f \<and> f \<le> maxPower)"
proof (induction n arbitrary: freq)
  case (Suc n)
  have le: "freq \<le> maxPower" using Suc.prems by (simp add: steps_to_def split: if_splits)
  have n: "n = steps_to maxPower resolution (freq + resolution)" using Suc.prems steps_to_step [OF le assms] by simp
  have "freq < freq + resolution"
    using unat_step [OF le assms(2)] assms(1) by (simp add: word_less_nat_alt)
  with Suc.IH [OF n] le show ?case by fastforce
qed simp

text \<open>
  The state of the loop after \<open>pre\<close>: no band is open, or one that starts at \<open>mn\<close>, in which nothing was found,
  and reaches up to \<open>mx\<close> or, with \<open>mx = 0\<close>, is not longer than its start.
\<close>

definition band_state :: "(u32 \<Rightarrow> bool) \<Rightarrow> u32 list \<Rightarrow> u32 \<Rightarrow> u32 \<Rightarrow> bool" where
  "band_state P pre mn mx \<longleftrightarrow> mn = 0 \<and> mx = 0
     \<or> 0 < mn \<and> mn \<in> set pre \<and> (\<forall>f\<in>set pre. mn \<le> f \<longrightarrow> \<not> P f) \<and> (mx = 0 \<or> mx \<in> set pre \<and> mn \<le> mx)"

definition band_clean :: "(u32 \<Rightarrow> bool) \<Rightarrow> u32 list \<Rightarrow> band \<Rightarrow> bool" where
  "band_clean P fs b \<longleftrightarrow> minFreqKHz b \<in> set fs \<and> maxFreqKHz b \<in> set fs \<and> minFreqKHz b \<le> maxFreqKHz b
     \<and> (\<forall>f\<in>set fs. minFreqKHz b \<le> f \<and> f \<le> maxFreqKHz b \<longrightarrow> \<not> P f)"

lemma close_band_clean:
  "band_state P pre mn mx \<Longrightarrow> sorted_wrt (<) (pre @ fs) \<Longrightarrow> b \<in> set (close_band mn mx) \<Longrightarrow> band_clean P (pre @ fs) b"
  by (fastforce simp: band_state_def close_band_def band_clean_def sorted_wrt_append split: if_splits)

lemma band_list_clean:
  "sorted_wrt (<) (pre @ fs) \<Longrightarrow> \<forall>f\<in>set (pre @ fs). 0 < f \<Longrightarrow> band_state P pre mn mx
    \<Longrightarrow> b \<in> set (band_list P fs mn mx) \<Longrightarrow> band_clean P (pre @ fs) b"
proof (induction fs arbitrary: pre mn mx)
  case Nil
  then show ?case using close_band_clean [of P pre mn mx "[]"] by simp
next
  case (Cons f fs)
  have lt: "\<forall>g\<in>set pre. g < f" using Cons.prems(1) by (simp add: sorted_wrt_append)
  have s: "sorted_wrt (<) ((pre @ [f]) @ fs)" "\<forall>f\<in>set ((pre @ [f]) @ fs). 0 < f" using Cons.prems(1,2) by simp_all
  have p: "0 < f" using Cons.prems(2) by simp
  consider "P f" "b \<in> set (close_band mn mx)" | "P f" "b \<in> set (band_list P fs 0 0)"
    | "\<not> P f" "mn = 0" "b \<in> set (band_list P fs f mx)" | "\<not> P f" "mn \<noteq> 0" "b \<in> set (band_list P fs mn f)"
    using Cons.prems(4) by (auto split: if_splits)
  then show ?case
  proof cases
    case 1
    then show ?thesis using close_band_clean Cons.prems(1,3) by blast
  next
    case 2
    then show ?thesis using Cons.IH [OF s, of 0 0] by (simp add: band_state_def)
  next
    case 3
    then have "band_state P (pre @ [f]) f mx" using Cons.prems(3) lt p by (fastforce simp: band_state_def)
    then show ?thesis using Cons.IH [OF s] 3 by simp
  next
    case 4
    then have "band_state P (pre @ [f]) mn f" using Cons.prems(3) lt p by (fastforce simp: band_state_def less_imp_le)
    then show ?thesis using Cons.IH [OF s] 4 by simp
  qed
qed

text \<open>An open band with an end is put out later, from its start and at least to this end.\<close>

lemma band_list_open:
  "0 < mn \<Longrightarrow> 0 < mx \<Longrightarrow> \<forall>f\<in>set fs. mx < f \<Longrightarrow> sorted_wrt (<) fs
    \<Longrightarrow> \<exists>b\<in>set (band_list P fs mn mx). minFreqKHz b = mn \<and> mx \<le> maxFreqKHz b"
proof (induction fs arbitrary: mx)
  case (Cons f fs)
  show ?case
  proof (cases "P f")
    case False
    have "0 < f" "mx < f" "\<forall>g\<in>set fs. f < g" "sorted_wrt (<) fs" using Cons.prems by (auto intro: le_less_trans)
    from Cons.IH [OF Cons.prems(1) this(1,3,4)] \<open>mx < f\<close> Cons.prems(1) False show ?thesis by (fastforce intro: less_imp_le)
  qed (use Cons.prems in \<open>simp add: close_band_def\<close>)
qed (simp add: close_band_def)

lemma band_list_cover:
  "sorted_wrt (<) fs \<Longrightarrow> \<forall>f\<in>set fs. 0 < f \<and> mn < f \<Longrightarrow> Suc i < length fs \<Longrightarrow> \<not> P (fs ! i) \<Longrightarrow> \<not> P (fs ! Suc i)
    \<Longrightarrow> \<exists>b\<in>set (band_list P fs mn mx). minFreqKHz b \<le> fs ! i \<and> fs ! Suc i \<le> maxFreqKHz b"
proof (induction fs arbitrary: i mn mx)
  case (Cons f fs)
  show ?case
  proof (cases i)
    case 0
    then obtain g gs where fs: "fs = g # gs" using Cons.prems(3) by (cases fs) auto
    have g: "0 < f" "0 < g" "f < g" "mn < f" "\<forall>h\<in>set gs. g < h" "sorted_wrt (<) gs" "\<not> P f" "\<not> P g"
      using Cons.prems 0 by (auto simp: fs)
    show ?thesis
    proof (cases "mn = 0")
      case True
      then show ?thesis using band_list_open [OF g(1,2,5,6), of P] g(7,8) \<open>0 < f\<close> by (force simp: fs 0)
    next
      case False
      then have "0 < mn" by (simp add: word_neq_0_conv)
      then show ?thesis using band_list_open [OF _ g(2,5,6), of mn P] g(4,7,8) False by (fastforce simp: fs 0 intro: less_imp_le)
    qed
  next
    case (Suc j)
    have s: "sorted_wrt (<) fs" "Suc j < length fs" "\<not> P (fs ! j)" "\<not> P (fs ! Suc j)" using Cons.prems Suc by simp_all
    have m: "\<forall>g\<in>set fs. 0 < g \<and> 0 < g" "\<forall>g\<in>set fs. 0 < g \<and> f < g" "\<forall>g\<in>set fs. 0 < g \<and> mn < g" using Cons.prems(1,2) by auto
    show ?thesis
      using Cons.IH [OF s(1) m(1) s(2-4), of 0] Cons.IH [OF s(1) m(2) s(2-4), of mx] Cons.IH [OF s(1) m(3) s(2-4), of f]
      by (auto simp: Suc)
  qed
qed simp

definition scanned :: "u32 \<Rightarrow> u32 \<Rightarrow> u32 \<Rightarrow> u32 list" where
  "scanned minPower maxPower resolution = scan_freqs resolution (steps_to maxPower resolution minPower) minPower"

definition occupied :: "channel list \<Rightarrow> u32 \<Rightarrow> bool" where
  "occupied channels f = list_ex (detected f) channels"

lemma band_loop_bands:
  assumes "0 < minPower" and "0 < resolution" and "unat maxPower + unat resolution < 2 ^ 32"
  shows "\<exists>bs. band_loop channels maxPower resolution minPower minPower 0 = Some bs
    \<and> (\<forall>b\<in>set bs. band_clean (occupied channels) (scanned minPower maxPower resolution) b)
    \<and> (\<forall>i. Suc i < length (scanned minPower maxPower resolution) \<longrightarrow> \<not> occupied channels (scanned minPower maxPower resolution ! i)
        \<longrightarrow> \<not> occupied channels (scanned minPower maxPower resolution ! Suc i)
        \<longrightarrow> (\<exists>b\<in>set bs. minFreqKHz b \<le> scanned minPower maxPower resolution ! i \<and> scanned minPower maxPower resolution ! Suc i \<le> maxFreqKHz b))"
proof -
  define fs where "fs = scanned minPower maxPower resolution"
  define P where "P = occupied channels"
  have srt: "sorted_wrt (<) fs" "\<forall>f\<in>set fs. 0 < f"
    using scan_freqs_sorted [OF assms(2,3) refl, of minPower] assms(1) by (auto simp: fs_def scanned_def intro: less_le_trans)
  have run: "band_loop channels maxPower resolution minPower minPower 0 = Some (band_list P fs minPower 0)"
    unfolding band_loop_list [OF assms(2,3)] P_def fs_def scanned_def occupied_def ..
  show ?thesis
  proof (cases fs)
    case Nil
    then show ?thesis using run unfolding fs_def [symmetric] P_def [symmetric] by (simp add: close_band_def)
  next
    case (Cons f gs)
    then have f: "f = minPower" unfolding fs_def scanned_def by (cases "steps_to maxPower resolution minPower") auto
    have eq: "band_list P fs minPower 0 = band_list P fs 0 0 \<or> (\<not> P f \<and> band_list P fs minPower 0 = band_list P gs f f)"
      using assms(1) by (auto simp: Cons f close_band_def)
    have st: "band_state P [] 0 0" "\<not> P f \<Longrightarrow> band_state P [f] f f" using assms(1) by (auto simp: band_state_def f)
    have clean: "band_clean P fs b" if "b \<in> set (band_list P fs minPower 0)" for b
      using eq band_list_clean [of "[]" fs P 0 0 b] band_list_clean [of "[f]" gs P f f b] srt st that by (auto simp: Cons)
    have cover: "\<exists>b\<in>set (band_list P fs minPower 0). minFreqKHz b \<le> fs ! i \<and> fs ! Suc i \<le> maxFreqKHz b"
      if i: "Suc i < length fs" "\<not> P (fs ! i)" "\<not> P (fs ! Suc i)" for i
    proof (cases "P f")
      case True
      then have "band_list P fs minPower 0 = band_list P fs 0 0" using eq by blast
      then show ?thesis using band_list_cover [OF srt(1) _ i] srt(2) by simp
    next
      case False
      then have b: "band_list P fs minPower 0 = band_list P gs f f" using assms(1) by (simp add: Cons f)
      have gs: "sorted_wrt (<) gs" "\<forall>g\<in>set gs. 0 < g \<and> f < g" using srt by (auto simp: Cons)
      show ?thesis
      proof (cases i)
        case 0
        then obtain g hs where g: "gs = g # hs" using i(1) by (cases gs) (auto simp: Cons)
        moreover have "minPower \<noteq> 0" using assms(1) by auto
        ultimately have "band_list P gs f f = band_list P hs f g" using i(3) by (simp add: Cons 0 f)
        moreover have "0 < g" "\<forall>h\<in>set hs. g < h" "sorted_wrt (<) hs" using gs by (auto simp: g)
        ultimately show ?thesis using band_list_open [of f g hs P] assms(1) unfolding b by (force simp: Cons 0 g f)
      next
        case (Suc j)
        then show ?thesis using band_list_cover [OF gs, of j] i unfolding b by (simp add: Cons)
      qed
    qed
    show ?thesis using run clean cover unfolding fs_def P_def by blast
  qed
qed

text \<open>C35 (nondetected_bands):
  from an empty list, with a lower limit and a resolution above 0 and an upper limit that does not wrap when the
  resolution is added, \<open>GetNonDetectedBand\<close> returns. If it succeeds, the bands start and end at frequencies that were looked at and hold none that lies in a channel, and two neighbours that
  are both outside of every channel are in a band together; if it does not, the pool has run out of cells.\<close>

theorem nondetected_bands:
  assumes "0 < minPower" and "0 < resolution" and "unat maxPower + unat resolution < 2 ^ 32" and "store_ok st"
  shows "\<exists>result bands st'. algo_GetNonDetectedBand minPower maxPower resolution channels [] st = Some (result, bands, st')
    \<and> (if result = SONY_RESULT_OK then
         (\<forall>b\<in>set bands. band_clean (occupied channels) (scanned minPower maxPower resolution) b)
         \<and> (\<forall>i. Suc i < length (scanned minPower maxPower resolution) \<longrightarrow> \<not> occupied channels (scanned minPower maxPower resolution ! i)
             \<longrightarrow> \<not> occupied channels (scanned minPower maxPower resolution ! Suc i)
             \<longrightarrow> (\<exists>b\<in>set bands. minFreqKHz b \<le> scanned minPower maxPower resolution ! i
                   \<and> scanned minPower maxPower resolution ! Suc i \<le> maxFreqKHz b))
       else result = SONY_RESULT_ERROR_OVERFLOW \<and> availableData st' = 0)"
proof -
  obtain bs where bs: "band_loop channels maxPower resolution minPower minPower 0 = Some bs"
    and props: "\<forall>b\<in>set bs. band_clean (occupied channels) (scanned minPower maxPower resolution) b"
      "\<forall>i. Suc i < length (scanned minPower maxPower resolution) \<longrightarrow> \<not> occupied channels (scanned minPower maxPower resolution ! i)
        \<longrightarrow> \<not> occupied channels (scanned minPower maxPower resolution ! Suc i)
        \<longrightarrow> (\<exists>b\<in>set bs. minFreqKHz b \<le> scanned minPower maxPower resolution ! i \<and> scanned minPower maxPower resolution ! Suc i \<le> maxFreqKHz b)"
    using band_loop_bands [OF assms(1-3), of channels] by blast
  show ?thesis
  proof (cases "length bs \<le> availableData st")
    case True
    then have "algo_GetNonDetectedBand minPower maxPower resolution channels [] st = Some (SONY_RESULT_OK, bs, taken (length bs) st)"
      using append_cells_ok [OF assms(4), of bs "[]"] by (simp add: algo_GetNonDetectedBand_def bs)
    then show ?thesis using props by simp
  next
    case False
    then have "\<exists>out. algo_GetNonDetectedBand minPower maxPower resolution channels [] st
      = Some (SONY_RESULT_ERROR_OVERFLOW, out, taken (availableData st) st)"
      using append_cells_full [OF assms(4), of bs "[]"] by (simp add: algo_GetNonDetectedBand_def bs)
    then show ?thesis by fastforce
  qed
qed

theorem nondetected_bands_witness:
  "algo_GetNonDetectedBand 1 5 1 [\<lparr>ch_centerFreqKHz = 3, ch_symbolRateKSps = 0\<rparr>] [] (ex_store 9) \<noteq> None"
  using nondetected_bands [of 1 1 5 "ex_store 9" "[\<lparr>ch_centerFreqKHz = 3, ch_symbolRateKSps = 0\<rparr>]"] ex_store [of 9] by fastforce

text \<open>A frequency outside of the channels alone between two that are inside is in no band.\<close>

lemma single_frequency_lost:
  "algo_GetNonDetectedBand 2 4 1 [\<lparr>ch_centerFreqKHz = 2, ch_symbolRateKSps = 0\<rparr>, \<lparr>ch_centerFreqKHz = 4, ch_symbolRateKSps = 0\<rparr>] [] st
    = Some (SONY_RESULT_OK, [], st)"
proof -
  have "steps_to 4 1 2 = 3" by (simp add: steps_to_def)
  moreover have "scan_freqs 1 3 2 = [2, 3, 4]" by (simp add: numeral_3_eq_3)
  ultimately show ?thesis
    by (simp add: algo_GetNonDetectedBand_def band_loop_list detected_def close_band_def)
qed

section \<open>Duplicates\<close>

definition carrier :: "candidate \<Rightarrow> u32 \<times> u32" where "carrier c = (centerFreqKHz c, symbolRateKSps c)"

lemma duplicate_loop_remdups: "map carrier (duplicate_loop cs) = remdups (map carrier cs)"
  by (induction cs) (auto simp: carrier_def list_ex_iff image_iff)

lemma duplicate_loop_subset: "set (duplicate_loop cs) \<subseteq> set cs"
  by (induction cs) auto

lemma duplicate2_loop_rev:
  "distinct (map centerFreqKHz kept) \<Longrightarrow> distinct (map centerFreqKHz (duplicate2_loop kept cs))
     \<and> set (duplicate2_loop kept cs) \<subseteq> set kept \<union> set cs
     \<and> centerFreqKHz ` set (duplicate2_loop kept cs) = centerFreqKHz ` set kept \<union> centerFreqKHz ` set cs"
proof (induction kept cs rule: duplicate2_loop.induct)
  case (2 kept a as)
  show ?case
  proof (cases "list_ex (\<lambda>b. centerFreqKHz a = centerFreqKHz b) kept")
    case True
    then have "centerFreqKHz a \<in> centerFreqKHz ` set kept" by (auto simp: list_ex_iff)
    then show ?thesis using 2(1) [OF True 2(3)] True by (auto simp: insert_absorb)
  next
    case False
    then have "distinct (map centerFreqKHz (kept @ [a]))" using 2(3) by (auto simp: list_ex_iff)
    from 2(2) [OF False this] False show ?thesis by auto
  qed
qed simp

text \<open>
  If they succeed, \<open>DeleteDuplicate\<close> keeps exactly one candidate, the later one, for every pair of frequency and
  symbol rate, and \<open>DeleteDuplicate2\<close> exactly one for every frequency; both only drop candidates, and the cells of
  the dropped ones are back in the pool.\<close>

lemma duplicates_deleted:
  assumes "store_ok st"
  shows "algo_DeleteDuplicate cands st = (SONY_RESULT_OK, out, st') \<Longrightarrow>
      map carrier out = remdups (map carrier cands) \<and> set out \<subseteq> set cands
      \<and> currentUsedCount st' - int (length out) = currentUsedCount st - int (length cands)"
    and "algo_DeleteDuplicate2 cands st = (SONY_RESULT_OK, out, st') \<Longrightarrow>
      distinct (map centerFreqKHz out) \<and> centerFreqKHz ` set out = centerFreqKHz ` set cands \<and> set out \<subseteq> set cands
      \<and> currentUsedCount st' - int (length out) = currentUsedCount st - int (length cands)"
  using replace_list_result [OF assms, of "duplicate_loop cands" cands out st']
    replace_list_result [OF assms, of "duplicate2_loop [] cands" cands out st']
    duplicate_loop_remdups [of cands] duplicate_loop_subset [of cands] duplicate2_loop_rev [of "[]" cands]
  by (auto simp: algo_DeleteDuplicate_def algo_DeleteDuplicate2_def)

section \<open>Cuts through the spectrum\<close>

definition cut :: "u32 \<Rightarrow> u32 \<Rightarrow> candidate" where
  "cut start stop = new_cand ((stop + start + 1000) div 2000 * 1000) (stop - start) 0 0"

text \<open>\<open>falls\<close>: a cut that is open ends here; \<open>rises\<close>: one that starts at the first power; \<open>peaks\<close>: a whole one.\<close>

fun falls :: "int \<Rightarrow> u32 \<Rightarrow> power list \<Rightarrow> candidate \<Rightarrow> bool" where
  "falls level start [] c \<longleftrightarrow> False"
| "falls level start (p # ps) c \<longleftrightarrow> (if power p > level then falls level start ps c else c = cut start (freqKHz p))"

fun rises :: "int \<Rightarrow> power list \<Rightarrow> candidate \<Rightarrow> bool" where
  "rises level [] c \<longleftrightarrow> False"
| "rises level (p # ps) c \<longleftrightarrow> power p > level \<and> falls level (freqKHz p) ps c"

fun peaks :: "int \<Rightarrow> power list \<Rightarrow> candidate \<Rightarrow> bool" where
  "peaks level [] c \<longleftrightarrow> False"
| "peaks level (p # ps) c \<longleftrightarrow> power p \<le> level \<and> rises level ps c \<or> peaks level ps c"

lemma slice_peaks:
  "\<forall>p\<in>set ps. freqKHz p \<noteq> 0 \<Longrightarrow> c \<in> set (slice level 2 start ps) \<longleftrightarrow> peaks level ps c"
  "\<forall>p\<in>set ps. freqKHz p \<noteq> 0 \<Longrightarrow> c \<in> set (slice level 0 start ps) \<longleftrightarrow> rises level ps c \<or> peaks level ps c"
  "\<forall>p\<in>set ps. freqKHz p \<noteq> 0 \<Longrightarrow> c \<in> set (slice level (Suc 0) start ps) \<longleftrightarrow> falls level start ps c \<or> peaks level ps c"
proof (induction ps arbitrary: start)
  case (Cons p ps)
  { case 1
    then have z: "freqKHz p \<noteq> 0" "\<forall>p\<in>set ps. freqKHz p \<noteq> 0" by simp_all
    show ?case by (cases "level < power p") (simp_all add: z(1) Cons.IH(1,2) [OF z(2)]) }
  { case 2
    then have z: "freqKHz p \<noteq> 0" "\<forall>p\<in>set ps. freqKHz p \<noteq> 0" by simp_all
    show ?case by (cases "level < power p") (simp_all add: z(1) Cons.IH(2,3) [OF z(2)]) }
  { case 3
    then have z: "freqKHz p \<noteq> 0" "\<forall>p\<in>set ps. freqKHz p \<noteq> 0" by simp_all
    show ?case by (cases "level < power p") (simp_all add: z(1) Cons.IH(2,3) [OF z(2)] cut_def disj_ac) }
qed simp_all

lemma ex_list_cases: "(\<exists>xs. P xs) \<longleftrightarrow> P [] \<or> (\<exists>x xs. P (x # xs))"
  by (metis list.exhaust)

lemma falls_split:
  "falls level start ps c \<longleftrightarrow> (\<exists>up hi post. ps = up @ hi # post \<and> (\<forall>u\<in>set up. level < power u) \<and> power hi \<le> level \<and> c = cut start (freqKHz hi))"
proof (induction ps)
  case (Cons p ps)
  show ?case by (subst ex_list_cases, cases "level < power p") (simp_all add: Cons.IH not_less)
qed simp

lemma peaks_split: "peaks level ps c \<longleftrightarrow> (\<exists>pre lo rest. ps = pre @ lo # rest \<and> power lo \<le> level \<and> rises level rest c)"
  by (induction ps) (auto simp: Cons_eq_append_conv)

lemma rises_split: "rises level ps c \<longleftrightarrow> (\<exists>p rest. ps = p # rest \<and> level < power p \<and> falls level (freqKHz p) rest c)"
  by (cases ps) auto

text \<open>C36 (cuts_are_peaks):
  in a spectrum without a frequency 0, the cuts at a level are exactly the peaks above it: a candidate stands
  between the first power above the level, right behind one that is not, and the next that is not above again;
  a slope that the spectrum starts or ends with is no cut.\<close>

theorem cuts_are_peaks:
  assumes "\<forall>p\<in>set powers. freqKHz p \<noteq> 0"
  shows "c \<in> set (slice level 2 0 powers) \<longleftrightarrow>
    (\<exists>pre lo first up hi post. powers = pre @ lo # first # up @ hi # post \<and> power lo \<le> level
      \<and> level < power first \<and> (\<forall>u\<in>set up. level < power u) \<and> power hi \<le> level
      \<and> c = new_cand ((freqKHz hi + freqKHz first + 1000) div 2000 * 1000) (freqKHz hi - freqKHz first) 0 0)"
  unfolding slice_peaks(1) [OF assms] peaks_split rises_split falls_split cut_def by fastforce

theorem cuts_are_peaks_witness:
  "new_cand 2000 1000 0 0 \<in> set (slice 50 2 0
     [\<lparr>freqKHz = 1000, power = 0\<rparr>, \<lparr>freqKHz = 1500, power = 80\<rparr>, \<lparr>freqKHz = 2000, power = 90\<rparr>, \<lparr>freqKHz = 2500, power = 0\<rparr>])"
  by (subst cuts_are_peaks, simp, intro exI [of _ "[]"] exI [of _ "\<lparr>freqKHz = 1000, power = 0\<rparr>"] exI [of _ "\<lparr>freqKHz = 1500, power = 80\<rparr>"]
      exI [of _ "[\<lparr>freqKHz = 2000, power = 90\<rparr>]"] exI [of _ "\<lparr>freqKHz = 2500, power = 0\<rparr>"]) (simp add: new_cand_def)

section \<open>The limits of a candidate\<close>

lemma mean_between:
  "a \<le> b \<Longrightarrow> unat a + unat b < 2 ^ 32 \<Longrightarrow> a \<le> (a + b) div 2 \<and> (a + b) div 2 \<le> b" for a b :: u32
  by (simp add: word_le_nat_alt unat_div unat_add_lem [THEN iffD1]) arith

lemma limited_limits: "mn \<le> minSymbolRateKSps (limited mn mx c) \<and> maxSymbolRateKSps (limited mn mx c) \<le> mx
    \<and> centerFreqKHz (limited mn mx c) = centerFreqKHz c"
  by (auto simp: limited_def new_cand_def Let_def not_less)

text \<open>The symbol rate to try first lies in the range.\<close>

lemma limited_center:
  assumes "minSymbolRateKSps (limited mn mx c) \<le> maxSymbolRateKSps (limited mn mx c)" and "unat mx < 2 ^ 31"
  shows "minSymbolRateKSps (limited mn mx c) \<le> symbolRateKSps (limited mn mx c)
    \<and> symbolRateKSps (limited mn mx c) \<le> maxSymbolRateKSps (limited mn mx c)"
proof -
  define a where "a = minSymbolRateKSps (limited mn mx c)"
  define b where "b = maxSymbolRateKSps (limited mn mx c)"
  have ab: "a \<le> b" "b \<le> mx" using assms(1) limited_limits [of mn mx c] by (simp_all add: a_def b_def)
  have s: "symbolRateKSps (limited mn mx c) = (if a < 30000 \<and> 20000 < b then
      if 20000 < a \<and> b < 30000 then (a + b) div 2 else if a \<le> 20000 \<and> b < 30000 then (20000 + b) div 2
      else if 20000 < a \<and> 30000 \<le> b then (30000 + a) div 2 else 25000
    else (a + b) div 2)"
    by (simp add: limited_def new_cand_def Let_def a_def b_def)
  have n: "unat a \<le> unat b" "unat b < 2 ^ 31" using ab assms(2) by (auto simp: word_le_nat_alt)
  have m: "a \<le> (a + b) div 2 \<and> (a + b) div 2 \<le> b" by (rule mean_between [OF ab(1)]) (use n in simp)
  have lo: "20000 < b \<Longrightarrow> 20000 \<le> (20000 + b) div 2 \<and> (20000 + b) div 2 \<le> b"
    by (rule mean_between) (use n in \<open>simp_all add: less_imp_le\<close>)
  have hi: "a < 30000 \<Longrightarrow> a \<le> (a + 30000) div 2 \<and> (a + 30000) div 2 \<le> 30000"
    by (rule mean_between) (auto simp: less_imp_le word_less_nat_alt)
  have k: "a \<le> 20000 \<Longrightarrow> a \<le> 25000" "30000 \<le> b \<Longrightarrow> 25000 \<le> b"
    by (rule order_trans [of _ 20000]; simp) (rule order_trans [of _ 30000]; simp)
  have "a \<le> symbolRateKSps (limited mn mx c) \<and> symbolRateKSps (limited mn mx c) \<le> b"
    unfolding s using m lo hi k by (auto simp: add.commute not_less not_le intro: order_trans less_imp_le)
  then show ?thesis by (simp add: a_def b_def)
qed

section \<open>From the spectrum to candidates\<close>

lemma pick_duplicated_area_result:
  assumes "store_ok st" and "pick_duplicated_area cferr cands st = (SONY_RESULT_OK, out, st')"
  shows "store_ok st' \<and> currentUsedCount st' - int (length out) = currentUsedCount st - int (length cands)"
proof -
  obtain s1 s2 s3 s4 s5 where s: "AllocData st = (SONY_RESULT_OK, s1)" "AllocData s1 = (SONY_RESULT_OK, s2)"
    "append_cells [] (areas cferr cands) s2 = (SONY_RESULT_OK, out, s3)" "ClearDataList cands s3 = (SONY_RESULT_OK, s4)"
    "FreeData s4 = (SONY_RESULT_OK, s5)" "FreeData s5 = (SONY_RESULT_OK, st')"
    using assms(2) by (auto simp: pick_duplicated_area_def split: prod.splits if_splits)
  note r1 = AllocData_result [OF assms(1) s(1)]
  note r2 = AllocData_result [OF r1 [THEN conjunct2, THEN conjunct1] s(2)]
  note r3 = append_cells_result [OF r2 [THEN conjunct2, THEN conjunct1] s(3)]
  note r4 = ClearDataList_result [OF r3 [THEN conjunct2, THEN conjunct1] s(4)]
  note r5 = FreeData_result [OF r4 [THEN conjunct1] s(5)]
  note r6 = FreeData_result [OF r5 [THEN conjunct2, THEN conjunct1] s(6)]
  show ?thesis using r1 r2 r3 r4 r5 r6 by simp
qed

text \<open>
  \<open>keeps_cells\<close>: the call returned, and if it succeeded the pool is sound and has lost no cell beside those of
  the list: the list \<open>new\<close> came out of \<open>old\<close>.
\<close>

definition keeps_cells :: "'a list \<Rightarrow> data_storage \<Rightarrow> (sony_result \<times> 'b list \<times> data_storage) option \<Rightarrow> bool" where
  "keeps_cells old st r \<longleftrightarrow> (\<exists>result new st'. r = Some (result, new, st')
     \<and> (result = SONY_RESULT_OK \<longrightarrow> store_ok st' \<and> currentUsedCount st' - int (length new) = currentUsedCount st - int (length old)))"

lemma keeps_cells_fail: "result \<noteq> SONY_RESULT_OK \<Longrightarrow> keeps_cells old st (Some (result, new, st'))"
  by (simp add: keeps_cells_def)

lemma keeps_cells_replace: "store_ok st \<Longrightarrow> keeps_cells old st (Some (replace_list new old st))"
  using replace_list_result [of st new old] by (cases "replace_list new old st") (auto simp: keeps_cells_def)

lemma level_loop_keeps:
  "0 < clipStep \<Longrightarrow> store_ok st \<Longrightarrow> - (2 ^ 31) + clipStep \<le> powerMin \<Longrightarrow> level < 2 ^ 31 \<Longrightarrow> keeps_cells found st (level_loop mn mx isMpMode powerMin clipStep powers level found st)"
proof (induction "nat (level - powerMin + 1)" arbitrary: level found st rule: less_induct)
  case less
  show ?case
  proof (cases "powerMin \<le> level")
    case True
    obtain r1 cuts s1 where a: "append_cells [] (slice level 2 0 powers) st = (r1, cuts, s1)" by (metis prod_cases3)
    show ?thesis
    proof (cases "r1 = SONY_RESULT_OK")
      case ok1: True
      note a1 = append_cells_result [OF less.prems(2) a [unfolded ok1]]
      obtain r2 sel s2 where b: "select_candidate mn mx isMpMode cuts s1 = (r2, sel, s2)" by (metis prod_cases3)
      show ?thesis
      proof (cases "r2 = SONY_RESULT_OK")
        case ok2: True
        note b1 = replace_list_result [OF a1 [THEN conjunct2, THEN conjunct1] b [unfolded ok2 select_candidate_def]]
        have l: "i32 (level - clipStep) = level - clipStep" using True less.prems(1,3,4) by (intro i32_id) linarith+
        have n: "nat ((level - clipStep) - powerMin + 1) < nat (level - powerMin + 1)" "level - clipStep < 2 ^ 31"
          using True less.prems(1,4) by linarith+
        from less.hyps [OF n(1) less.prems(1) b1 [THEN conjunct2, THEN conjunct1] less.prems(3) n(2), of "found @ sel"] a1 b1
        have "keeps_cells found st (level_loop mn mx isMpMode powerMin clipStep powers (level - clipStep) (found @ sel) s2)"
          unfolding keeps_cells_def by fastforce
        then show ?thesis by (subst level_loop.simps) (simp add: True a b ok1 ok2 l)
      qed (subst level_loop.simps, simp add: True a b ok1 keeps_cells_fail)
    qed (subst level_loop.simps, simp add: True a keeps_cells_fail)
  qed (subst level_loop.simps, use less.prems in \<open>simp add: keeps_cells_def\<close>)
qed

lemma power_range_in:
  "get_power_range powers = Some (mn, mx) \<Longrightarrow> \<exists>p\<in>set powers. \<exists>q\<in>set powers. mn = power p \<and> mx = power q"
proof -
  have f: "\<exists>p\<in>S \<union> set ps. \<exists>q\<in>S \<union> set ps. fold (\<lambda>q (mn, mx). if freqKHz q > 0
        then (if mn > power q then power q else mn, if mx < power q then power q else mx) else (mn, mx)) ps (power a, power b)
      = (power p, power q)" if "a \<in> S" "b \<in> S" for ps S a b
    using that
  proof (induction ps arbitrary: a b S)
    case (Cons c ps)
    have u: "insert c S \<union> set ps = S \<union> set (c # ps)" by auto
    show ?case
      using Cons.IH [of a "insert c S" b] Cons.IH [of c "insert c S" b] Cons.IH [of a "insert c S" c] Cons.IH [of c "insert c S" c] Cons.prems
      unfolding u by simp
  qed auto
  assume r: "get_power_range powers = Some (mn, mx)"
  then obtain x xs where p: "powers = x # xs" by (cases powers) (auto simp: get_power_range_def)
  from f [of x "{x}" x xs] r show ?thesis by (auto simp: get_power_range_def p)
qed

lemma wagiri_keeps:
  assumes "0 < sint clipStep" and "store_ok st"
    and "\<And>p. p \<in> set powers \<Longrightarrow> - (2 ^ 31) + sint clipStep \<le> power p \<and> power p < 2 ^ 31"
  shows "keeps_cells cands st (wagiri powers clipStep mn mx cferr isMpMode cands st)"
proof (cases "get_power_range powers")
  case None
  then show ?thesis using assms(2) by (simp add: wagiri_def keeps_cells_def)
next
  case (Some range)
  obtain pmin pmax where r: "get_power_range powers = Some (pmin, pmax)" using Some by (cases range) auto
  obtain r1 s1 where a1: "AllocData st = (r1, s1)" by fastforce
  obtain r2 s2 where a2: "AllocData s1 = (r2, s2)" by fastforce
  show ?thesis
  proof (cases "r1 = SONY_RESULT_OK \<and> r2 = SONY_RESULT_OK")
    case False
    then show ?thesis by (auto simp: wagiri_def r a1 a2 keeps_cells_fail)
  next
    case True
    have k1: "store_ok s1 \<and> currentUsedCount s1 = currentUsedCount st + 1"
      using AllocData_result [OF assms(2), of s1] a1 True by simp
    have k2: "store_ok s2 \<and> currentUsedCount s2 = currentUsedCount st + 2"
      using AllocData_result [of s1 s2] k1 a2 True by simp
    obtain r3 found s3 where l: "level_loop mn mx isMpMode pmin (sint clipStep) powers pmax [] s2 = Some (r3, found, s3)"
      and k3: "r3 = SONY_RESULT_OK \<Longrightarrow> store_ok s3 \<and> currentUsedCount s3 - int (length found) = currentUsedCount s2"
      using level_loop_keeps [OF assms(1), of s2 pmin pmax "[]" mn mx isMpMode powers] k2 power_range_in [OF r] assms(3)
      unfolding keeps_cells_def by auto
    obtain r4 ars s4 where p: "pick_duplicated_area cferr found s3 = (r4, ars, s4)" by (metis prod_cases3)
    obtain r5 s5 where f1: "FreeData s4 = (r5, s5)" by fastforce
    obtain r6 s6 where f2: "FreeData s5 = (r6, s6)" by fastforce
    show ?thesis
    proof (cases "r3 = SONY_RESULT_OK \<and> r4 = SONY_RESULT_OK \<and> r5 = SONY_RESULT_OK \<and> r6 = SONY_RESULT_OK")
      case False
      then show ?thesis by (auto simp: wagiri_def r a1 a2 True l p f1 f2 keeps_cells_fail)
    next
      case ok: True
      have k4: "store_ok s4 \<and> currentUsedCount s4 - int (length ars) = currentUsedCount s3 - int (length found)"
        using pick_duplicated_area_result [of s3 cferr found ars s4] k3 p ok by simp
      have k5: "store_ok s5 \<and> currentUsedCount s5 = currentUsedCount s4 - 1" using FreeData_result [of s4 s5] k4 f1 ok by simp
      have k6: "store_ok s6 \<and> currentUsedCount s6 = currentUsedCount s5 - 1" using FreeData_result [of s5 s6] k5 f2 ok by simp
      have "wagiri powers clipStep mn mx cferr isMpMode cands st = Some (SONY_RESULT_OK, cands @ ars, s6)"
        using ok True by (simp add: wagiri_def r a1 a2 l p f1 f2)
      then show ?thesis using k2 k3 k4 k5 k6 ok by (simp add: keeps_cells_def)
    qed
  qed
qed

text \<open>C33 (candidates_returned):
  with a positive step, \<open>GetCandidateNml\<close> returns for every spectrum whose powers are an \<open>int32_t\<close> and at least the
  step above the least one, so that the level does not wrap. If it succeeds, no cell of the pool is lost or taken
  beside those of the candidates, and every candidate has its range of symbol rates within the limits, 65 and 135
  percent of what was asked for.\<close>

theorem candidates_returned:
  assumes "0 < sint clipStep" and "store_ok st"
    and "\<And>p. p \<in> set powers \<Longrightarrow> - (2 ^ 31) + sint clipStep \<le> power p \<and> power p < 2 ^ 31"
  shows "\<exists>result out st'. algo_GetCandidateNml powers clipStep minSR maxSR cferr cands st = Some (result, out, st')
    \<and> (result = SONY_RESULT_OK \<longrightarrow> store_ok st'
        \<and> currentUsedCount st' - int (length out) = currentUsedCount st - int (length cands)
        \<and> (\<forall>c\<in>set out. minSR * 65 div 100 \<le> minSymbolRateKSps c \<and> maxSymbolRateKSps c \<le> (maxSR * 135 + 99) div 100))"
proof -
  define mn where "mn = minSR * 65 div 100"
  define mx where "mx = (maxSR * 135 + 99) div 100"
  obtain r1 c1 s1 where w: "wagiri powers clipStep mn mx cferr False cands st = Some (r1, c1, s1)"
    and k1: "r1 = SONY_RESULT_OK \<Longrightarrow> store_ok s1 \<and> currentUsedCount s1 - int (length c1) = currentUsedCount st - int (length cands)"
    using wagiri_keeps [OF assms, where cands = cands and mn = mn and mx = mx and cferr = cferr and isMpMode = False] unfolding keeps_cells_def by blast
  obtain r2 c2 s2 where d: "delete_duplicated_area cferr c1 s1 = (r2, c2, s2)" by (metis prod_cases3)
  obtain r3 c3 s3 where l: "limit_range mn mx c2 s2 = (r3, c3, s3)" by (metis prod_cases3)
  note eq = algo_GetCandidateNml_def [of powers clipStep minSR maxSR cferr cands st, folded mn_def mx_def, unfolded Let_def, folded mn_def mx_def]
  show ?thesis
  proof (cases "r1 = SONY_RESULT_OK \<and> r2 = SONY_RESULT_OK")
    case False
    then show ?thesis unfolding eq by (auto simp: w d)
  next
    case True
    have k2: "store_ok s2 \<and> currentUsedCount s2 - int (length c2) = currentUsedCount s1 - int (length c1)"
      using replace_list_result [of s1 "merge_areas cferr c1" c1 c2 s2] k1 d True by (simp add: delete_duplicated_area_def)
    have k3: "c3 = map (limited mn mx) c2 \<and> store_ok s3 \<and> currentUsedCount s3 - int (length c3) = currentUsedCount s2 - int (length c2)"
      if "r3 = SONY_RESULT_OK"
      using replace_list_result [of s2 "map (limited mn mx) c2" c2 c3 s3] k2 l that by (simp add: limit_range_def)
    have "algo_GetCandidateNml powers clipStep minSR maxSR cferr cands st = Some (r3, c3, s3)"
      unfolding eq using True by (simp add: w d l)
    then show ?thesis using k1 k2 k3 True limited_limits unfolding mn_def [symmetric] mx_def [symmetric] by auto
  qed
qed

theorem candidates_returned_witness:
  "algo_GetCandidateNml ex_spectrum 50 1000 45000 1 [] (ex_store 99) \<noteq> None"
  using candidates_returned [of 50 "ex_store 99" ex_spectrum 1000 45000 1 "[]"] ex_store [of 99]
  by (force simp: ex_spectrum_def)

text \<open>
  A later candidate whose range holds the whole range of an earlier one is deleted, but only the upper part of
  its range is taken over: the symbol rates from 5000 to 6000 are lost.
\<close>

lemma area_lower_part_lost:
  "merge_areas 0 [new_cand 1000000 0 6000 8000, new_cand 1000000 0 5000 9000] = [new_cand 1000000 7500 6000 9000]"
  by (simp add: new_cand_def)

section \<open>Separation\<close>

text \<open>\<open>SeparateCandidate\<close> puts a candidate at every 1000 kHz from one end of the width to the other.\<close>

lemma separate_loop_places:
  "separate_loop f c s = map (\<lambda>k. new_cand (word_of_int (f + s + 1000 * int k)) 0 0 0) [0..<nat ((c - s) div 1000 + 1)]"
proof (induction "nat (c + 1 - s)" arbitrary: s rule: less_induct)
  case less
  show ?case
  proof (cases "s \<le> c")
    case True
    define n where "n = nat ((c - (s + 1000)) div 1000 + 1)"
    have d: "c - s = (c - (s + 1000)) + 1000" by simp
    have "(c - s) div 1000 = (c - (s + 1000)) div 1000 + 1" unfolding d by (rule div_add_self2) simp
    moreover have "0 \<le> (c - (s + 1000)) div 1000 + 1" using True by simp
    ultimately have n: "nat ((c - s) div 1000 + 1) = Suc n" unfolding n_def by linarith
    have "separate_loop f c (s + 1000) = map (\<lambda>k. new_cand (word_of_int (f + (s + 1000) + 1000 * int k)) 0 0 0) [0..<n]"
      unfolding n_def by (rule less.hyps) (use True in simp)
    then show ?thesis unfolding n map_upt_Suc
      by (subst separate_loop.simps) (simp add: True algebra_simps)
  next
    case False
    then have "(c - s) div 1000 + 1 \<le> 0" by simp
    then show ?thesis using False by (subst separate_loop.simps) simp
  qed
qed

lemma separate_covers:
  assumes "- c \<le> d" and "d \<le> c"
  shows "\<exists>s. d - 1000 < s \<and> s \<le> d \<and> new_cand (word_of_int (f + s)) 0 0 0 \<in> set (separate_loop f c (- c))"
proof -
  define k where "k = nat ((d + c) div 1000)"
  have k: "int k = (d + c) div 1000" using assms(1) by (simp add: k_def pos_imp_zdiv_nonneg_iff)
  have "(d + c) div 1000 \<le> (c - - c) div 1000" using assms(2) by (intro zdiv_mono1) simp_all
  then have "k < nat ((c - - c) div 1000 + 1)" using k by linarith
  moreover have "d - 1000 < - c + 1000 * int k" "- c + 1000 * int k \<le> d"
    unfolding k using div_mult_mod_eq [of "d + c" 1000] pos_mod_bound [of 1000 "d + c"] pos_mod_sign [of 1000 "d + c"]
    by linarith+
  moreover have "new_cand (word_of_int (f + (- c + 1000 * int k))) 0 0 0 \<in> set (separate_loop f c (- c))"
    unfolding separate_loop_places set_map set_upt using calculation(1)
    by (intro image_eqI [of _ _ k]) (simp_all only: add.assoc atLeastLessThan_iff le0)
  ultimately show ?thesis by blast
qed

end
