(* ===== verification/Spec2Isabelle.thy ===== *)
theory Spec2Isabelle
  imports TsFilter I2c TsRead Spi Memmem TsCheck PsiGen Ci EnProps Klist PsiProps TuneProps Blind Device TsStartProps HostStack DvbTime BsProps
begin

text \<open>
  A verification library for libjokertv, the host library of a USB device with a demodulator, a CI slot
  for a CAM module and an FPGA between them. All paths below are relative to the repository.

  \<^bold>\<open>The program and its parts.\<close> \<open>src/joker_fpga.c\<close> opens the device and exchanges commands with the
  FPGA; everything else goes through that exchange. \<open>src/u_drv_tune.c\<close> tunes the frontend and the LNB,
  \<open>src/u_drv_data.c\<close> receives the Transport Stream over isochronous USB transfers, puts it back on packet
  boundaries, runs the PID hooks and hands the stream out; its hooks drive the table parsers of
  \<open>src/joker_ts.c\<close>, which keep the program list, open the PID filter of the FPGA
  (\<open>src/joker_ts_filter.c\<close>) for the selected programs and pass every PMT on to the descrambling list of
  \<open>src/joker_en50221.c\<close>. That list is synchronised with the CAM module over the EN 50221 stack of
  \<open>3party/libdvben50221\<close> (transport, session and application layers), which reaches the module through
  the link layer of \<open>src/joker_en50221.c\<close> and the memory and register access of \<open>src/joker_ci.c\<close>.

  \<^bold>\<open>Conventions.\<close> A C struct is a \<open>record\<close> or, for a handle that several files extend, a chain of extended
  records (\<open>joker_t\<close> of \<open>Fpga\<close>, then \<open>joker_i2c\<close>, \<open>joker_ci_h\<close>, \<open>joker_en_h\<close>, \<open>joker_tune\<close>, \<open>joker_dev\<close>); a \<open>uint8_t\<close>, \<open>uint16_t\<close> or
  \<open>uint32_t\<close> is a word of that width, so that wrap-around is the one of the code, and an \<open>int\<close> of the code
  that cannot overflow is an \<open>int\<close>. A result that the code reports as a negative or positive errno is that
  number. An \<open>int\<close> of \<open>src/u_drv_tune.c\<close> that can overflow is tested (\<open>c_int\<close>), the \<open>int32_t\<close> powers and levels of the blind
  scan driver wrap at 32 bits (\<open>i32\<close>). Undefined behaviour (a read or write outside of an array, a use of a null
  pointer, an overflow of a signed product) is \<open>None\<close>, called a fault below; where a loop of the code may not end, the definition is a
  \<open>partial_function (option)\<close> and that it ends is a lemma (\<open>spi_wait\<close>, \<open>link_read_loop\<close>, \<open>walk\<close>, \<open>band_loop\<close>, \<open>level_loop\<close>). Loops with
  a bound in the code count it down (500 polls of the I2C core, the retries of the CI slot); the other
  loops are recursions whose termination is proved. No fuel is used. Memory allocation succeeds;
  operations under a mutex are one step, apart from the menu resource, whose lock is part of the state.

  \<^bold>\<open>The outside\<close> is a parameter: the USB device (\<open>usb_dev\<close>: every bulk transfer is a function of the
  device's state, so a theorem holds for every device, also one that fails or lies, unless it assumes \<open>usb_ok\<close>, a device
  that takes every command), the flash chip,
  the frontend drivers (\<open>fe_lib\<close>), libdvbpsi (\<open>psi_lib\<close>: the decoded tables), iconv (\<open>iconv_fn\<close>), the clock.
  The log of commands in a handle (\<open>usb_log\<close>) holds those whose transfer completed, not the attempts.
  The library under the host is the parameter \<open>en_lib\<close> of \<open>En50221\<close>; \<open>CaStack\<close> instantiates it with the models of
  the vendored code, where a section that makes the codecs read out of bounds is a fault.

  \<^bold>\<open>Theories.\<close> Definitions stand in the order of the code and carry its names.

  \<^item> \<open>Prelude\<close>: integer types, error codes, \<open>memcpy\<close>, folds that can fault, shared list lemmas; the locales
    \<open>command_channel\<close> (an exchange that logs the commands that got through, with what a sequence of commands leaves) and
    \<open>machine\<close> (a step relation with an invariant).
  \<^item> \<open>Fpga\<close>, \<open>Device\<close>: \<open>src/joker_fpga.c\<close>. The command exchange, the interpretation of \<open>command_channel\<close>;
    device selection, \<open>joker_open\<close>, \<open>joker_close\<close> and what a handle holds over its life.
  \<^item> \<open>I2c\<close>, \<open>TsFilter\<close>: \<open>src/joker_i2c.c\<close>, \<open>src/joker_ts_filter.c\<close> and the reset part of
    \<open>src/joker_utils.c\<close>. Register transactions on the bus; the set of PIDs a command log lets pass.
  \<^item> \<open>Spi\<close>: \<open>src/joker_spi.c\<close>, against a flash memory that can only clear bits between erasures.
  \<^item> \<open>TsPool\<close>, \<open>TsRead\<close>, \<open>TsStart\<close>, \<open>TsStartProps\<close>: \<open>src/u_drv_data.c\<close>. The isochronous callback refines
    concatenation of packets; the node list under its memory limit; the hooks; \<open>read_ts_data\<close> hands out a
    prefix of the stored stream and returns once it holds enough; start, stop and restart.
  \<^item> \<open>Memmem\<close>, \<open>TsCheck\<close>: \<open>xmemmem\<close> and the stream checks of \<open>src/joker_utils.c\<close>, and the programs
    \<open>src/tsgen.c\<close> and \<open>src/tscheck.c\<close>, one run on the output of the other.
  \<^item> \<open>Klist\<close>: \<open>include/joker_list.h\<close> over an explicit store of links. The locale \<open>entry_list\<close> is the contract of a
    list, interpreted on the linked list and on HOL lists, so that histories of the one simulate the other.
  \<^item> \<open>Programs\<close>, \<open>PsiGen\<close>, \<open>PsiParse\<close>, \<open>PsiProps\<close>: \<open>src/joker_ts.c\<close>. The locale \<open>keyed_table\<close> (find or add by
    number) is interpreted on the program list; sections cut into packets; text conversion; the table
    handlers as steps (\<open>psi_step\<close>) interleaved with the CAM activity, with the invariant that ties the hooks, the
    program list and the filter of the device together.
  \<^item> \<open>Ci\<close>: \<open>src/joker_ci.c\<close>. CAM memory and register access, the attribute tuples, initialisation, worker, the
    dump file and its reader.
  \<^item> \<open>En50221\<close>, \<open>CamSync\<close>, \<open>EnProps\<close>: \<open>src/joker_en50221.c\<close> and the commands of
    \<open>src/joker_en50221_server.c\<close>. API calls and stack callbacks are the steps of \<open>en_step\<close>; \<open>cam_inv\<close> is the invariant of
    the program list; the list management codes of a synchronisation; link layer, menu and clock.
  \<^item> \<open>Transport\<close>, \<open>TransportProps\<close>, \<open>TlInv\<close>: \<open>3party/libdvben50221/en50221_transport.c\<close> and \<open>asn_1.c\<close>; the
    transport layer as a machine.
  \<^item> \<open>Session\<close>, \<open>SessionProps\<close>, \<open>StackInv\<close>: \<open>3party/libdvben50221/en50221_session.c\<close>. The locale \<open>tl_below\<close> states what
    the layer above a transport layer keeps; its interpretation \<open>stack\<close> puts the session layer there, for any resource
    callbacks that keep the layers (\<open>apps_ok\<close>), and \<open>stack_machine\<close> is the two layers together.
  \<^item> \<open>PmtSection\<close>, \<open>PmtSectionProps\<close>, \<open>CaPmt\<close>, \<open>CaPmtProps\<close>: the section codecs of \<open>3party/libucsi\<close> on bytes,
    with their in-place byte swaps, and \<open>en50221_ca_format_pmt\<close> of \<open>en50221_app_ca.c\<close>. The specification is a layout
    (\<open>wire_pmt\<close>, \<open>layout\<close>, \<open>ca_pmt_object\<close>): the codecs accept exactly the layouts, the object is the one of the layout.
  \<^item> \<open>CaStack\<close>: the locale \<open>pmt_provider\<close> states what the host relies on in codec and formatter, with \<open>machine\<close> as
    its sublocale; the interpretation \<open>vendored\<close> discharges it for the vendored code.
  \<^item> \<open>AppRes\<close>, \<open>AppMmi\<close>, \<open>AppProps\<close>, \<open>AppHost\<close>: the application resources \<open>en50221_app_rm.c\<close>, \<open>_datetime.c\<close>,
    \<open>_ai.c\<close>, \<open>_ca.c\<close> and \<open>_mmi.c\<close>, message by message, and the callbacks of the program they call. \<open>host_step\<close> is the
    host against a module that sends any bytes; it refines \<open>en_step\<close>.
  \<^item> \<open>HostStack\<close>: the resource callbacks on the two layers (\<open>host_app\<close>), every call they make sent through the session
    layer. They are \<open>apps_ok\<close>, so the invariant of the layers holds for the program with no assumption on it.
  \<^item> \<open>DvbTime\<close>: \<open>dvbdate_to_unixtime\<close> of \<open>3party/libucsi/dvb/types.c\<close> and the calendar behind it; the clock of the
    broadcast on its way to the module.
  \<^item> \<open>Tune\<close>, \<open>TuneProps\<close>, \<open>Blind\<close>: \<open>src/u_drv_tune.c\<close> and \<open>src/joker_blind_scan.c\<close>. LNB bands and frequencies, DiSEqC
    scripts, the service thread, the quadrants of a blind scan and what it records.
  \<^item> \<open>BsStore\<close>, \<open>BsAlgo\<close>, \<open>BsProps\<close>: \<open>linux/drivers/media/dvb-frontends/cxd2841er_blind_scan.c\<close>, the part that
    computes. The pool of list cells and the integer logarithms; the algorithms from the power spectrum to candidates
    and back to bands without a channel; that they return, what they find, and that no cell is lost on success.

  \<^bold>\<open>What the lemmas show\<close>, by group: functional behaviour of each operation on its success and its error
  branches; what a sequence of commands leaves in the device (PID filter, flash memory, I2C registers);
  invariants of the reachable states, by rule induction over the step relations and through the locale
  \<open>machine\<close>; round trips (sections, dumps, length fields, dates, menus, DiSEqC scripts, blind scan records);
  refinement (linked list, isochronous callback, host against any module); equivalence with a naive
  definition (\<open>xmemmem\<close>, the section codecs, the sorts and the moving average of the blind scan driver); bounds, also where the code violates them: a lemma then states
  exactly when the access happens.

  \<^bold>\<open>Not modelled\<close>, and why: \<open>src/joker_xml.c\<close> walks a libxml2 document and prints; \<open>src/joker-tv.cc\<close> and
  \<open>src/i2c-scan.c\<close> are command line front ends; the frontend and tuner drivers under \<open>linux/drivers\<close> are kernel
  code for chips whose registers are not documented here, and are the parameter \<open>fe_lib\<close>,
  apart from the algorithms of the blind scan driver, whose state machine and register sequences are left out; of \<open>3party/libucsi\<close> the
  sections the program never parses, \<open>3party/libdvbapi\<close> and the resources of \<open>3party/libdvben50221\<close> the program
  never creates (authentication, host control, EPG, low speed, smart card, teletext, stdcam); the result
  files of the blind scan, hex dumps, printed text and socket set-up are plain output; the CRC of a
  section is not checked by the program; firmware, tests, packaging and Windows stubs are not code of the
  library. Weak memory effects and races on fields that are not under a mutex are outside of the model.
\<close>

end
